(* ===== verification/Prelude.thy ===== *)
theory Prelude
  imports Main "HOL-Library.Word"
begin

text \<open>
  Shared vocabulary of the development.  Machine integers are words of their width; the
  saturating and checked operations of Rust's integer types are defined once here, with the
  lemmas that read them on natural numbers.  A fallible operation returns a sum (\<open>Inl\<close> is the
  error).  The two locales at the end state what it means for an operation set to keep an
  invariant and to only move forward along a preorder, and lift both to whole runs.
\<close>

unbundle bit_operations_syntax

named_theorems rust_arith \<open>readings of the machine integer operations on natural numbers\<close>

type_synonym u8 = "8 word"
type_synonym u16 = "16 word"
type_synonym u32 = "32 word"
type_synonym i32 = "32 word"
type_synonym u64 = "64 word"
type_synonym u128 = "128 word"
type_synonym usize = nat
type_synonym bytes = "8 word list"

section \<open>Integer operations of the Rust standard library\<close>

definition sat_add :: "'a::len word \<Rightarrow> 'a word \<Rightarrow> 'a word" where
  "sat_add a b = (if unat a + unat b < 2 ^ LENGTH('a) then a + b else - 1)"

definition sat_sub :: "'a::len word \<Rightarrow> 'a word \<Rightarrow> 'a word" where
  "sat_sub a b = (if b \<le> a then a - b else 0)"

definition sat_mul :: "'a::len word \<Rightarrow> 'a word \<Rightarrow> 'a word" where
  "sat_mul a b = (if unat a * unat b < 2 ^ LENGTH('a) then a * b else - 1)"

definition checked_add :: "'a::len word \<Rightarrow> 'a word \<Rightarrow> 'a word option" where
  "checked_add a b = (if unat a + unat b < 2 ^ LENGTH('a) then Some (a + b) else None)"

definition checked_mul :: "'a::len word \<Rightarrow> 'a word \<Rightarrow> 'a word option" where
  "checked_mul a b = (if unat a * unat b < 2 ^ LENGTH('a) then Some (a * b) else None)"

text \<open>\<open>wrapping_add(1).max(1)\<close>: the successor that skips zero when the counter wraps.\<close>

definition bump :: "'a::len word \<Rightarrow> 'a word" where
  "bump g = max (g + 1) 1"

lemma unat_lt2p: "unat (w :: 'a::len word) < 2 ^ LENGTH('a)"
  by (rule unsigned_less)

lemma word_of_nat_unat: "of_nat (unat w) = (w :: 'a::len word)"
  by simp

lemma unat_of_nat_small: "n < 2 ^ LENGTH('a) \<Longrightarrow> unat (of_nat n :: 'a::len word) = n"
  by (simp add: unat_of_nat)

lemma unat_ucast: "unat (ucast (w :: 'a::len word) :: 'b::len word) = unat w mod 2 ^ LENGTH('b)"
  by (simp add: unsigned_ucast_eq take_bit_eq_mod)

lemma unat_ucast_up: "LENGTH('a) \<le> LENGTH('b) \<Longrightarrow> unat (ucast (w :: 'a::len word) :: 'b::len word) = unat w"
proof -
  assume "LENGTH('a) \<le> LENGTH('b)"
  then have "(2 :: nat) ^ LENGTH('a) \<le> 2 ^ LENGTH('b)" by (intro power_increasing) auto
  then have "unat w < 2 ^ LENGTH('b)" using unat_lt2p [of w] by linarith
  then show ?thesis by (simp add: unat_ucast)
qed

lemma unat_max_word: "unat (- 1 :: 'a::len word) = 2 ^ LENGTH('a) - 1"
  by (simp add: unsigned_minus_1_eq_mask mask_eq_exp_minus_1)

lemma unat_sat_add [rust_arith]:
  "unat (sat_add a (b :: 'a::len word)) = min (unat a + unat b) (2 ^ LENGTH('a) - 1)"
  by (auto simp: sat_add_def unat_word_ariths unat_max_word min_def)

lemma unat_sat_add_small:
  "unat a + unat b < 2 ^ LENGTH('a) \<Longrightarrow> unat (sat_add a (b :: 'a::len word)) = unat a + unat b"
  by (simp add: sat_add_def unat_word_ariths)

lemma unat_sat_sub [rust_arith]: "unat (sat_sub a b) = unat a - unat b"
  by (auto simp: sat_sub_def unat_sub word_le_nat_alt)

lemma unat_sat_mul [rust_arith]:
  "unat (sat_mul a (b :: 'a::len word)) = min (unat a * unat b) (2 ^ LENGTH('a) - 1)"
proof (cases "unat a * unat b < 2 ^ LENGTH('a)")
  case True
  then have "unat a * unat b \<le> 2 ^ LENGTH('a) - 1" by linarith
  then show ?thesis using True by (simp add: sat_mul_def unat_word_ariths min_absorb1)
next
  case False
  then have "2 ^ LENGTH('a) - 1 \<le> unat a * unat b" by linarith
  then show ?thesis using False by (simp add: sat_mul_def unat_max_word min_absorb2)
qed

lemma checked_add_Some [rust_arith]:
  "checked_add a b = Some c \<longleftrightarrow>
     unat a + unat (b :: 'a::len word) < 2 ^ LENGTH('a) \<and> c = a + b"
  by (auto simp: checked_add_def)

lemma checked_add_None [rust_arith]:
  "checked_add a b = None \<longleftrightarrow> 2 ^ LENGTH('a) \<le> unat a + unat (b :: 'a::len word)"
  by (auto simp: checked_add_def)

lemma checked_mul_Some [rust_arith]:
  "checked_mul a b = Some c \<longleftrightarrow>
     unat a * unat (b :: 'a::len word) < 2 ^ LENGTH('a) \<and> c = a * b"
  by (auto simp: checked_mul_def)

lemma unat_checked_add:
  "checked_add a b = Some c \<Longrightarrow> unat c = unat a + unat b"
  by (auto simp: checked_add_def unat_word_ariths split: if_splits)

lemma unat_checked_mul:
  "checked_mul a b = Some c \<Longrightarrow> unat c = unat a * unat b"
  by (auto simp: checked_mul_def unat_word_ariths split: if_splits)

lemma bump_pos: "1 \<le> bump g"
  by (simp add: bump_def)

lemma bump_nonzero [simp]: "bump g \<noteq> 0"
proof
  assume "bump g = 0"
  with bump_pos [of g] show False by simp
qed

lemma bump_cases: "bump g = (if g = - 1 then 1 else g + 1)"
proof (cases "g = - 1")
  case True
  then show ?thesis by (simp add: bump_def)
next
  case False
  then have "g + 1 \<noteq> 0" by (metis add_eq_0_iff2)
  then have "1 \<le> g + 1" by (simp add: word_le_nat_alt unat_gt_0 Suc_leI)
  with False show ?thesis by (simp add: bump_def max_def)
qed

lemma bump_less: "g \<noteq> - 1 \<Longrightarrow> g < bump g"
proof -
  assume g: "g \<noteq> - 1"
  then have "g + 1 \<noteq> 0" by (metis add_eq_0_iff2)
  then have "unat (g + 1) = Suc (unat g)"
    by (simp add: unatSuc add.commute)
  then show ?thesis using g by (simp add: bump_cases word_less_nat_alt)
qed

lemma bump_neq_64 [simp]: "bump g \<noteq> (g :: u64)"
  using bump_less [of g] by (cases "g = - 1") (auto simp: bump_def)

section \<open>Bit sets in a word\<close>

text \<open>\<open>count_ones\<close>, and the reading of \<open>1 << n\<close> masks as membership tests.\<close>

definition count_ones :: "'a::len word \<Rightarrow> nat" where
  "count_ones w = length (filter (bit w) [0..<LENGTH('a)])"

definition bit_mask :: "nat \<Rightarrow> 'a::len word" where
  "bit_mask n = push_bit n 1"

lemma bit_bit_mask: "bit (bit_mask n :: 'a::len word) i \<longleftrightarrow> i = n \<and> n < LENGTH('a)"
  by (auto simp: bit_mask_def bit_simps)

lemma mask_clear: "n < LENGTH('a) \<Longrightarrow> w AND bit_mask n = 0 \<longleftrightarrow> \<not> bit (w :: 'a::len word) n"
proof
  assume "n < LENGTH('a)" "w AND bit_mask n = 0"
  then show "\<not> bit w n" by (metis bit_0_eq bit_and_iff bit_bit_mask bot_apply bot_bool_def)
next
  assume "\<not> bit w n"
  then show "w AND bit_mask n = 0" by (intro bit_word_eqI) (auto simp: bit_and_iff bit_bit_mask)
qed

lemma bit_set_mask:
  "bit (w OR bit_mask n :: 'a::len word) i \<longleftrightarrow> bit w i \<or> (i = n \<and> n < LENGTH('a))"
  by (auto simp: bit_or_iff bit_bit_mask)

lemma bit_clear_mask:
  "bit (w AND NOT (bit_mask n) :: 'a::len word) i \<longleftrightarrow> bit w i \<and> i \<noteq> n"
  by (auto simp: bit_and_iff bit_not_iff bit_bit_mask dest: bit_imp_le_length)

lemma word_zero_iff_bits: "(w :: 'a::len word) = 0 \<longleftrightarrow> (\<forall>n < LENGTH('a). \<not> bit w n)"
  by (auto intro: bit_word_eqI)

lemma count_ones_full: "count_ones (w :: 'a::len word) \<ge> LENGTH('a) \<Longrightarrow> n < LENGTH('a) \<Longrightarrow> bit w n"
proof -
  assume a: "count_ones w \<ge> LENGTH('a)" and n: "n < LENGTH('a)"
  show ?thesis
  proof (rule ccontr)
    assume "\<not> bit w n"
    with n have "length (filter (bit w) [0..<LENGTH('a)]) < length [0..<LENGTH('a)]"
      by (intro length_filter_less [of n]) auto
    with a show False by (simp add: count_ones_def)
  qed
qed

section \<open>Results\<close>

text \<open>The \<open>?\<close> operator: continue with the value, return early with the error.\<close>

fun rbind :: "'e + 'a \<Rightarrow> ('a \<Rightarrow> 'e + 'b) \<Rightarrow> 'e + 'b" where
  "rbind (Inl e) f = Inl e"
| "rbind (Inr x) f = f x"

definition ok_or :: "'a option \<Rightarrow> 'e \<Rightarrow> 'e + 'a" where
  "ok_or x e = (case x of None \<Rightarrow> Inl e | Some v \<Rightarrow> Inr v)"

lemma rbind_Inr: "rbind r f = Inr y \<longleftrightarrow> (\<exists>x. r = Inr x \<and> f x = Inr y)"
  by (cases r) auto

lemma rbind_Inl: "rbind r f = Inl e \<longleftrightarrow> r = Inl e \<or> (\<exists>x. r = Inr x \<and> f x = Inl e)"
  by (cases r) auto

lemma ok_or_Inr [simp]: "ok_or x e = Inr v \<longleftrightarrow> x = Some v"
  by (auto simp: ok_or_def split: option.splits)

lemma ok_or_Inl [simp]: "ok_or x e = Inl e' \<longleftrightarrow> x = None \<and> e = e'"
  by (auto simp: ok_or_def split: option.splits)

lemma ok_or_simps [simp]: "ok_or None e = Inl e" "ok_or (Some v) e = Inr v"
  by (simp_all add: ok_or_def)

section \<open>Sums of word measures over lists\<close>

abbreviation unat_sum :: "('b \<Rightarrow> 'a::len word) \<Rightarrow> 'b list \<Rightarrow> nat" where
  "unat_sum f xs \<equiv> (\<Sum>x\<leftarrow>xs. unat (f x))"

lemma last_in_butlast_append: "xs \<noteq> [] \<Longrightarrow> butlast xs @ [last xs] = xs"
  by simp

lemma unat_sum_butlast:
  "xs \<noteq> [] \<Longrightarrow> unat_sum f xs = unat_sum f (butlast xs) + unat (f (last xs))"
  by (induction xs) auto

section \<open>Operation sets: invariants and runs\<close>

text \<open>
  A component is a state and a function that applies one operation.  Both locales are
  interpreted by the components on their own operation sets.
\<close>

locale invariant_machine =
  fixes step :: "'s \<Rightarrow> 'e \<Rightarrow> 's" and inv :: "'s \<Rightarrow> bool"
  assumes inv_step: "inv s \<Longrightarrow> inv (step s e)"
begin

lemma inv_run: "inv s \<Longrightarrow> inv (foldl step s es)"
  by (induction es arbitrary: s) (auto intro: inv_step)

lemma inv_run_prefix: "inv s \<Longrightarrow> inv (foldl step s (take n es))"
  by (rule inv_run)

end

locale monotone_machine = invariant_machine step inv
  for step :: "'s \<Rightarrow> 'e \<Rightarrow> 's" and inv :: "'s \<Rightarrow> bool" +
  fixes le :: "'s \<Rightarrow> 's \<Rightarrow> bool"
  assumes le_refl: "le s s"
    and le_trans: "le s t \<Longrightarrow> le t u \<Longrightarrow> le s u"
    and le_step: "inv s \<Longrightarrow> le s (step s e)"
begin

lemma le_run: "inv s \<Longrightarrow> le s (foldl step s es)"
proof (induction es arbitrary: s)
  case Nil
  show ?case by (simp add: le_refl)
next
  case (Cons e es)
  have "le s (step s e)" using Cons.prems by (rule le_step)
  moreover have "le (step s e) (foldl step (step s e) es)"
    using Cons.prems by (intro Cons.IH inv_step)
  ultimately show ?case by (auto intro: le_trans)
qed

end

end
