(* ===== verification/Publication_Gate.thy ===== *)
theory Publication_Gate
  imports Prelude
begin

text \<open>
  The latest-only publication gate of \<open>src/src/publication_gate.rs\<close>: workers receive tokens,
  and a finished worker may publish only while its token is the newest outstanding one and no
  cancellation barrier has intervened.  The counters keep their 64-bit width; a request counts
  with \<open>wrapping_add(1).max(1)\<close>.
\<close>

section \<open>State and operations\<close>

record publication_token =
  tok_epoch :: u64
  tok_generation :: u64

record latest_only_gate =
  gate_epoch :: u64
  gate_next_generation :: u64
  gate_requested :: "publication_token option"
  gate_published_generation :: "u64 option"

definition gate_default :: latest_only_gate where
  "gate_default = \<lparr>gate_epoch = 0, gate_next_generation = 0, gate_requested = None,
     gate_published_generation = None\<rparr>"

definition gate_request :: "latest_only_gate \<Rightarrow> latest_only_gate \<times> publication_token" where
  "gate_request g =
     (let g' = g\<lparr>gate_next_generation := bump (gate_next_generation g)\<rparr>;
          token = \<lparr>tok_epoch = gate_epoch g', tok_generation = gate_next_generation g'\<rparr>
      in (g'\<lparr>gate_requested := Some token\<rparr>, token))"

definition gate_claim_latest :: "latest_only_gate \<Rightarrow> publication_token option" where
  "gate_claim_latest g = gate_requested g"

definition gate_cancel_all :: "latest_only_gate \<Rightarrow> latest_only_gate" where
  "gate_cancel_all g = g\<lparr>gate_epoch := gate_epoch g + 1, gate_requested := None\<rparr>"

definition gate_try_publish :: "latest_only_gate \<Rightarrow> publication_token \<Rightarrow> latest_only_gate \<times> bool"
  where
  "gate_try_publish g token =
     (if gate_requested g \<noteq> Some token \<or> tok_epoch token \<noteq> gate_epoch g then (g, False)
      else if (case gate_published_generation g of
                 None \<Rightarrow> False | Some published \<Rightarrow> tok_generation token \<le> published) then (g, False)
      else (g\<lparr>gate_published_generation := Some (tok_generation token), gate_requested := None\<rparr>,
            True))"

text \<open>The operations in any interleaving: a worker claims nothing that changes the gate.\<close>

datatype gate_op = GRequest | GCancel | GPublish publication_token

fun gate_step :: "latest_only_gate \<Rightarrow> gate_op \<Rightarrow> latest_only_gate" where
  "gate_step g GRequest = fst (gate_request g)"
| "gate_step g GCancel = gate_cancel_all g"
| "gate_step g (GPublish t) = fst (gate_try_publish g t)"

abbreviation gate_run :: "latest_only_gate \<Rightarrow> gate_op list \<Rightarrow> latest_only_gate" where
  "gate_run \<equiv> foldl gate_step"

section \<open>What is outstanding is the newest request of this epoch\<close>

definition gate_inv :: "latest_only_gate \<Rightarrow> bool" where
  "gate_inv g \<longleftrightarrow> (\<forall>t. gate_requested g = Some t \<longrightarrow>
     tok_epoch t = gate_epoch g \<and> tok_generation t = gate_next_generation g)"

definition published_le :: "latest_only_gate \<Rightarrow> latest_only_gate \<Rightarrow> bool" where
  "published_le g h \<longleftrightarrow> (\<forall>p. gate_published_generation g = Some p \<longrightarrow>
     (\<exists>q. gate_published_generation h = Some q \<and> p \<le> q))"

lemmas gate_defs = gate_request_def gate_cancel_all_def gate_try_publish_def Let_def

lemma gate_inv_default: "gate_inv gate_default"
  by (simp add: gate_inv_def gate_default_def)

lemma gate_step_inv: "gate_inv g \<Longrightarrow> gate_inv (gate_step g e)"
  by (cases e) (auto simp: gate_inv_def gate_defs split: option.splits)

lemma try_publish_True:
  "snd (gate_try_publish g t) \<longleftrightarrow> gate_requested g = Some t \<and> tok_epoch t = gate_epoch g \<and>
     (\<forall>p. gate_published_generation g = Some p \<longrightarrow> p < tok_generation t)"
  by (auto simp: gate_try_publish_def not_le split: option.splits)

lemma try_publish_False_unchanged: "\<not> snd (gate_try_publish g t) \<Longrightarrow> fst (gate_try_publish g t) = g"
  by (auto simp: gate_try_publish_def split: option.splits)

lemma gate_step_published_le: "published_le g (gate_step g e)"
  by (cases e) (auto simp: published_le_def gate_defs split: option.splits)

interpretation gate: monotone_machine gate_step gate_inv published_le
proof unfold_locales
  show "gate_inv g \<Longrightarrow> gate_inv (gate_step g e)" for g e by (rule gate_step_inv)
  show "published_le g g" for g by (simp add: published_le_def)
  show "published_le g h \<Longrightarrow> published_le h k \<Longrightarrow> published_le g k" for g h k
    unfolding published_le_def by (meson order_trans)
  show "published_le g (gate_step g e)" for g e by (rule gate_step_published_le)
qed

text \<open>A published token is spent: nothing that happens later can publish it again.\<close>

lemma published_blocks:
  assumes "gate_published_generation g = Some p" "tok_generation t \<le> p"
  shows "\<not> snd (gate_try_publish g t)"
  using assms by (auto simp: try_publish_True)

section \<open>Superseded tokens\<close>

fun is_request :: "gate_op \<Rightarrow> bool" where
  "is_request GRequest = True" | "is_request _ = False"

abbreviation requests :: "gate_op list \<Rightarrow> nat" where
  "requests es \<equiv> length (filter is_request es)"

text \<open>
  \<open>retired t g\<close>: the token is not outstanding and every generation still to be handed out is
  above it.  While the generation counter does not wrap, this is closed under every operation.
\<close>

definition retired :: "publication_token \<Rightarrow> latest_only_gate \<Rightarrow> bool" where
  "retired t g \<longleftrightarrow> gate_requested g \<noteq> Some t \<and> tok_generation t \<le> gate_next_generation g"

lemma next_generation_step:
  "unat (gate_next_generation g) + requests [e] < 2 ^ 64 \<Longrightarrow>
   unat (gate_next_generation (gate_step g e)) = unat (gate_next_generation g) + requests [e]"
proof (cases e)
  case GRequest
  assume a: "unat (gate_next_generation g) + requests [e] < 2 ^ 64"
  have "gate_next_generation g \<noteq> - 1"
  proof
    assume "gate_next_generation g = - 1"
    then have "unat (gate_next_generation g) = 2 ^ 64 - 1" by (simp add: unat_max_word)
    with a GRequest show False by simp
  qed
  then have "unat (bump (gate_next_generation g)) = Suc (unat (gate_next_generation g))"
    using bump_cases [of "gate_next_generation g"] a GRequest by (simp add: unat_word_ariths)
  with GRequest show ?thesis by (simp add: gate_request_def Let_def)
qed (auto simp: gate_defs split: option.splits)

lemma retired_step:
  assumes r: "retired t g" and b: "unat (gate_next_generation g) + requests [e] < 2 ^ 64"
  shows "retired t (gate_step g e)"
proof (cases e)
  case GRequest
  let ?n = "gate_next_generation g"
  have "unat (bump ?n) = Suc (unat ?n)"
    using next_generation_step [of g e] b GRequest by (simp add: gate_request_def Let_def)
  then have "?n < bump ?n" by (simp add: word_less_nat_alt)
  with r GRequest show ?thesis by (auto simp: retired_def gate_request_def Let_def)
qed (use r in \<open>auto simp: retired_def gate_defs split: option.splits\<close>)

lemma retired_run:
  "retired t g \<Longrightarrow> unat (gate_next_generation g) + requests es < 2 ^ 64 \<Longrightarrow>
   retired t (gate_run g es)"
proof (induction es arbitrary: g)
  case (Cons e es)
  have n: "unat (gate_next_generation (gate_step g e)) = unat (gate_next_generation g) + requests [e]"
    using Cons.prems(2) by (intro next_generation_step) (auto split: if_splits)
  have "retired t (gate_step g e)"
    using Cons.prems by (intro retired_step) (auto split: if_splits)
  then show ?case using Cons.prems(2) n by (simp add: Cons.IH split: if_splits)
qed simp

lemma retired_not_published: "retired t g \<Longrightarrow> \<not> snd (gate_try_publish g t)"
  by (auto simp: retired_def try_publish_True)

lemma request_retires:
  assumes "gate_requested g = Some t" "gate_inv g" "gate_next_generation g \<noteq> - 1"
  shows "retired t (gate_step g GRequest)"
  using assms bump_less [of "gate_next_generation g"]
  by (auto simp: retired_def gate_inv_def gate_request_def Let_def)

lemma cancel_retires:
  assumes "gate_requested g = Some t" "gate_inv g"
  shows "retired t (gate_step g GCancel)"
  using assms by (auto simp: retired_def gate_inv_def gate_cancel_all_def)

definition outstanding_or_retired :: "publication_token \<Rightarrow> latest_only_gate \<Rightarrow> bool" where
  "outstanding_or_retired t g \<longleftrightarrow> gate_inv g \<and> (gate_requested g = Some t \<or> retired t g)"

lemma no_wrap_next:
  "unat (gate_next_generation g) + requests [GRequest] < 2 ^ 64 \<Longrightarrow> gate_next_generation g \<noteq> - 1"
  by (auto simp: unat_max_word)

lemma outstanding_step:
  assumes "outstanding_or_retired t g" "unat (gate_next_generation g) + requests [e] < 2 ^ 64"
  shows "outstanding_or_retired t (gate_step g e)"
proof -
  have "gate_requested (gate_step g e) = Some t \<or> retired t (gate_step g e)"
    if o: "gate_requested g = Some t"
  proof (cases e)
    case GRequest
    then have "retired t (gate_step g GRequest)"
      using assms o no_wrap_next [of g] by (intro request_retires) (auto simp: outstanding_or_retired_def)
    with GRequest show ?thesis by simp
  next
    case GCancel
    have "retired t (gate_step g GCancel)"
      using assms(1) o by (intro cancel_retires) (auto simp: outstanding_or_retired_def)
    with GCancel show ?thesis by simp
  next
    case (GPublish u)
    have "tok_generation t \<le> gate_next_generation g"
      using assms(1) o by (auto simp: outstanding_or_retired_def gate_inv_def)
    with GPublish o show ?thesis
      by (auto simp: retired_def gate_try_publish_def split: option.splits)
  qed
  then show ?thesis
    using assms retired_step gate_step_inv by (auto simp: outstanding_or_retired_def)
qed

lemma outstanding_run:
  "outstanding_or_retired t g \<Longrightarrow> unat (gate_next_generation g) + requests es < 2 ^ 64 \<Longrightarrow>
   outstanding_or_retired t (gate_run g es)"
proof (induction es arbitrary: g)
  case (Cons e es)
  have b: "unat (gate_next_generation g) + requests [e] < 2 ^ 64"
    using Cons.prems(2) by (auto split: if_splits)
  show ?case
    using Cons.prems next_generation_step [OF b] outstanding_step [OF Cons.prems(1) b]
    by (simp add: Cons.IH split: if_splits)
qed simp

lemma request_outstanding:
  "gate_request g = (g1, t) \<Longrightarrow> gate_requested g1 = Some t \<and> outstanding_or_retired t g1"
  by (auto simp: gate_request_def Let_def outstanding_or_retired_def gate_inv_def)

section \<open>Properties\<close>

text \<open>C33. A superseded or cancelled token never becomes visible: once another request or a
  cancellation has followed the request that handed out \<open>t\<close>, publishing \<open>t\<close> is refused, whatever
  operations come before and after, as long as the 64-bit generation counter does not wrap.\<close>

theorem gate_superseded_never_publishes:
  assumes "gate_inv g" and "gate_request g = (g1, t)"
    and "e = GRequest \<or> e = GCancel"
    and "unat (gate_next_generation g1) + requests (before @ e # after) < 2 ^ 64"
  shows "\<not> snd (gate_try_publish (gate_run g1 (before @ e # after)) t)"
proof -
  let ?g2 = "gate_run g1 before"
  have nn: "unat (gate_next_generation ?g2) = unat (gate_next_generation g1) + requests before"
    using assms(4)
  proof (induction before arbitrary: g1)
    case (Cons x xs)
    then show ?case using next_generation_step [of g1 x] by (auto split: if_splits)
  qed simp
  have o: "outstanding_or_retired t ?g2"
    using assms(4) request_outstanding [OF assms(2)] by (auto intro!: outstanding_run)
  have b: "unat (gate_next_generation ?g2) + requests [e] < 2 ^ 64"
    using assms(4) nn by (auto split: if_splits)
  have "retired t (gate_step ?g2 e)"
    using o assms(3) b no_wrap_next [of ?g2] retired_step [OF _ b]
    by (auto simp: outstanding_or_retired_def intro: request_retires cancel_retires)
  moreover have "unat (gate_next_generation (gate_step ?g2 e)) + requests after < 2 ^ 64"
    using next_generation_step [OF b] nn assms(4) by (auto split: if_splits)
  ultimately have "retired t (gate_run (gate_step ?g2 e) after)"
    by (rule retired_run)
  then show ?thesis by (simp add: retired_not_published)
qed

theorem gate_superseded_never_publishes_witness:
  "\<not> snd (gate_try_publish (gate_run (fst (gate_request gate_default))
     ([] @ GCancel # [GRequest, GPublish \<lparr>tok_epoch = 0, tok_generation = 1\<rparr>]))
     \<lparr>tok_epoch = 0, tok_generation = 1\<rparr>)"
proof (rule gate_superseded_never_publishes [where g = gate_default])
  show "gate_inv gate_default" by (rule gate_inv_default)
  show "gate_request gate_default =
      (fst (gate_request gate_default), \<lparr>tok_epoch = 0, tok_generation = 1\<rparr>)"
    by (simp add: gate_request_def gate_default_def bump_def Let_def)
  show "GCancel = GRequest \<or> GCancel = GCancel" by simp
  show "unat (gate_next_generation (fst (gate_request gate_default))) + requests ([] @ GCancel #
      [GRequest, GPublish \<lparr>tok_epoch = 0, tok_generation = 1\<rparr>]) < 2 ^ 64"
    by (simp add: gate_request_def gate_default_def bump_def Let_def)
qed

text \<open>At most one publication per token, and no rewind: after a token is published, no run of
  operations makes it publishable again, and the published generation never decreases.  No bound
  on the counters is needed.\<close>

theorem gate_publishes_once:
  assumes "gate_inv g" and "snd (gate_try_publish g t)"
  shows "\<not> snd (gate_try_publish (gate_run (fst (gate_try_publish g t)) es) t) \<and>
    published_le (fst (gate_try_publish g t)) (gate_run (fst (gate_try_publish g t)) es)"
proof -
  let ?h = "fst (gate_try_publish g t)"
  have i: "gate_inv ?h" using gate_step_inv [OF assms(1), of "GPublish t"] by simp
  have l: "published_le ?h (gate_run ?h es)" by (rule gate.le_run [OF i])
  have "gate_published_generation ?h = Some (tok_generation t)"
    using assms(2) by (auto simp: gate_try_publish_def split: if_splits option.splits)
  then obtain q where "gate_published_generation (gate_run ?h es) = Some q" "tok_generation t \<le> q"
    using l by (auto simp: published_le_def)
  then show ?thesis using l published_blocks by blast
qed

theorem gate_publishes_once_witness:
  "\<not> snd (gate_try_publish (gate_run (fst (gate_try_publish (fst (gate_request gate_default))
     \<lparr>tok_epoch = 0, tok_generation = 1\<rparr>)) [GRequest]) \<lparr>tok_epoch = 0, tok_generation = 1\<rparr>)"
proof -
  have i: "gate_inv (fst (gate_request gate_default))"
    using gate_step_inv [OF gate_inv_default, of GRequest] by simp
  have p: "snd (gate_try_publish (fst (gate_request gate_default)) \<lparr>tok_epoch = 0, tok_generation = 1\<rparr>)"
    by (simp add: gate_request_def gate_default_def bump_def gate_try_publish_def Let_def)
  show ?thesis using gate_publishes_once [OF i p, of "[GRequest]"] by blast
qed

text \<open>The newest request is never starved: if a generation is free (the counter has not reached
  its maximum and nothing above it was published), the token of a request is accepted after any
  number of publication attempts with other tokens.\<close>

theorem gate_newest_publishes:
  assumes "gate_request g = (g1, t)" and "gate_next_generation g \<noteq> - 1"
    and "\<forall>p. gate_published_generation g = Some p \<longrightarrow> p \<le> gate_next_generation g"
    and "t \<notin> set stale"
  shows "snd (gate_try_publish (gate_run g1 (map GPublish stale)) t)"
proof -
  have "gate_run g1 (map GPublish stale) = g1"
    using assms(4)
  proof (induction stale)
    case (Cons u us)
    moreover have "gate_requested g1 = Some t" using request_outstanding [OF assms(1)] by simp
    ultimately show ?case by (simp add: gate_try_publish_def)
  qed simp
  moreover have "snd (gate_try_publish g1 t)"
    using assms(1,3) bump_less [OF assms(2)]
    by (fastforce simp: try_publish_True gate_request_def Let_def)
  ultimately show ?thesis by simp
qed

theorem gate_newest_publishes_witness:
  "snd (gate_try_publish (gate_run (fst (gate_request gate_default))
     (map GPublish [\<lparr>tok_epoch = 0, tok_generation = 9\<rparr>])) \<lparr>tok_epoch = 0, tok_generation = 1\<rparr>)"
proof (rule gate_newest_publishes [where g = gate_default])
  show "gate_request gate_default =
      (fst (gate_request gate_default), \<lparr>tok_epoch = 0, tok_generation = 1\<rparr>)"
    by (simp add: gate_request_def gate_default_def bump_def Let_def)
  show "gate_next_generation gate_default \<noteq> - 1" by (simp add: gate_default_def)
  show "\<forall>p. gate_published_generation gate_default = Some p \<longrightarrow> p \<le> gate_next_generation gate_default"
    by (simp add: gate_default_def)
  show "\<lparr>tok_epoch = 0, tok_generation = 1\<rparr> \<notin> set [\<lparr>tok_epoch = 0, tok_generation = 9\<rparr>]"
    by simp
qed

end
