(* ===== verification/Rust_Text.thy ===== *)
theory Rust_Text
  imports Prelude
begin

text \<open>
  Rust strings.  A \<open>str\<close> is the list of its Unicode scalar values; \<open>utf8\<close> gives its bytes, so
  \<open>str::len\<close> is the length of the encoding.  The character predicates are those of the standard
  library: \<open>char::is_control\<close> (general category Cc) and \<open>char::is_whitespace\<close> (White_Space).
  \<open>from_utf8\<close> is the strict decoder of \<open>std::str::from_utf8\<close>.
\<close>

type_synonym rstr = "nat list"

definition lit :: "string \<Rightarrow> rstr" where
  "lit cs = map of_char cs"

definition scalar :: "nat \<Rightarrow> bool" where
  "scalar c \<longleftrightarrow> c < 0xD800 \<or> (0xE000 \<le> c \<and> c < 0x110000)"

fun utf8_char :: "nat \<Rightarrow> bytes" where
  "utf8_char c =
     (if c < 0x80 then [of_nat c]
      else if c < 0x800 then [of_nat (0xC0 + c div 64), of_nat (0x80 + c mod 64)]
      else if c < 0x10000 then
        [of_nat (0xE0 + c div 4096), of_nat (0x80 + c div 64 mod 64), of_nat (0x80 + c mod 64)]
      else
        [of_nat (0xF0 + c div 262144), of_nat (0x80 + c div 4096 mod 64),
         of_nat (0x80 + c div 64 mod 64), of_nat (0x80 + c mod 64)])"

definition utf8 :: "rstr \<Rightarrow> bytes" where
  "utf8 s = concat (map utf8_char s)"

definition str_len :: "rstr \<Rightarrow> nat" where
  "str_len s = length (utf8 s)"

definition char_is_control :: "nat \<Rightarrow> bool" where
  "char_is_control c \<longleftrightarrow> c < 0x20 \<or> (0x7F \<le> c \<and> c < 0xA0)"

definition char_is_whitespace :: "nat \<Rightarrow> bool" where
  "char_is_whitespace c \<longleftrightarrow> (9 \<le> c \<and> c \<le> 13) \<or> c = 0x20 \<or> c = 0x85 \<or> c = 0xA0 \<or> c = 0x1680 \<or>
     (0x2000 \<le> c \<and> c \<le> 0x200A) \<or> c = 0x2028 \<or> c = 0x2029 \<or> c = 0x202F \<or> c = 0x205F \<or> c = 0x3000"

definition str_trim :: "rstr \<Rightarrow> rstr" where
  "str_trim s = rev (dropWhile char_is_whitespace (rev (dropWhile char_is_whitespace s)))"

definition is_ascii_lowercase :: "u8 \<Rightarrow> bool" where
  "is_ascii_lowercase b \<longleftrightarrow> 97 \<le> b \<and> b \<le> 122"

definition is_ascii_digit :: "u8 \<Rightarrow> bool" where
  "is_ascii_digit b \<longleftrightarrow> 48 \<le> b \<and> b \<le> 57"

section \<open>Strict decoding\<close>

definition cont :: "u8 \<Rightarrow> bool" where
  "cont b \<longleftrightarrow> 0x80 \<le> b \<and> b \<le> 0xBF"

fun from_utf8 :: "bytes \<Rightarrow> rstr option" where
  "from_utf8 [] = Some []"
| "from_utf8 (b # bs) =
     (if b < 0x80 then map_option ((#) (unat b)) (from_utf8 bs)
      else if 0xC2 \<le> b \<and> b \<le> 0xDF then
        (case bs of
           b1 # r \<Rightarrow> if cont b1
             then map_option ((#) ((unat b - 0xC0) * 64 + (unat b1 - 0x80))) (from_utf8 r) else None
         | _ \<Rightarrow> None)
      else if 0xE0 \<le> b \<and> b \<le> 0xEF then
        (case bs of
           b1 # b2 # r \<Rightarrow>
             if cont b1 \<and> cont b2 \<and> (b = 0xE0 \<longrightarrow> 0xA0 \<le> b1) \<and> (b = 0xED \<longrightarrow> b1 \<le> 0x9F)
             then map_option ((#) ((unat b - 0xE0) * 4096 + (unat b1 - 0x80) * 64 + (unat b2 - 0x80)))
                    (from_utf8 r)
             else None
         | _ \<Rightarrow> None)
      else if 0xF0 \<le> b \<and> b \<le> 0xF4 then
        (case bs of
           b1 # b2 # b3 # r \<Rightarrow>
             if cont b1 \<and> cont b2 \<and> cont b3 \<and> (b = 0xF0 \<longrightarrow> 0x90 \<le> b1) \<and> (b = 0xF4 \<longrightarrow> b1 \<le> 0x8F)
             then map_option ((#) ((unat b - 0xF0) * 262144 + (unat b1 - 0x80) * 4096 +
                    (unat b2 - 0x80) * 64 + (unat b3 - 0x80))) (from_utf8 r)
             else None
         | _ \<Rightarrow> None)
      else None)"

declare utf8_char.simps [simp del]

lemma utf8_simps [simp]: "utf8 [] = []" "utf8 (c # s) = utf8_char c @ utf8 s"
  by (simp_all add: utf8_def)

lemma utf8_append [simp]: "utf8 (s @ t) = utf8 s @ utf8 t"
  by (simp add: utf8_def)

lemma str_len_append [simp]: "str_len (s @ t) = str_len s + str_len t"
  by (simp add: str_len_def)

lemma utf8_char_ascii: "c < 0x80 \<Longrightarrow> utf8_char c = [of_nat c]"
  by (simp add: utf8_char.simps)

lemma utf8_ascii: "\<forall>c \<in> set s. c < 0x80 \<Longrightarrow> utf8 s = map of_nat s"
  by (induction s) (auto simp: utf8_char_ascii)

lemma str_len_ascii: "\<forall>c \<in> set s. c < 0x80 \<Longrightarrow> str_len s = length s"
  by (simp add: str_len_def utf8_ascii)

text \<open>The four shapes of an encoded character, read on natural numbers.\<close>

lemma unat_of_nat_u8: "n < 256 \<Longrightarrow> unat (of_nat n :: u8) = n"
  by (simp add: unat_of_nat)

lemmas u8_nat = word_le_nat_alt word_less_nat_alt word_unat_eq_iff cont_def

lemma from_utf8_1:
  "unat b = x \<Longrightarrow> x < 0x80 \<Longrightarrow> from_utf8 (b # r) = map_option ((#) x) (from_utf8 r)"
  by (simp add: u8_nat)

lemma from_utf8_2:
  assumes "unat b = 0xC0 + x" "2 \<le> x" "x < 32" "unat b1 = 0x80 + y" "y < 64"
  shows "from_utf8 (b # b1 # r) = map_option ((#) (x * 64 + y)) (from_utf8 r)"
  using assms by (simp add: u8_nat)

lemma from_utf8_3:
  assumes "unat b = 0xE0 + x" "x < 16" "unat b1 = 0x80 + y" "y < 64" "unat b2 = 0x80 + z" "z < 64"
    and "x = 0 \<Longrightarrow> 32 \<le> y" "x = 13 \<Longrightarrow> y \<le> 31"
  shows "from_utf8 (b # b1 # b2 # r) = map_option ((#) (x * 4096 + y * 64 + z)) (from_utf8 r)"
  using assms by (simp add: u8_nat)

lemma from_utf8_4:
  assumes "unat b = 0xF0 + x" "x \<le> 4" "unat b1 = 0x80 + y" "y < 64" "unat b2 = 0x80 + z" "z < 64"
    "unat b3 = 0x80 + w" "w < 64" and "x = 0 \<Longrightarrow> 16 \<le> y" "x = 4 \<Longrightarrow> y \<le> 15"
  shows "from_utf8 (b # b1 # b2 # b3 # r) =
    map_option ((#) (x * 262144 + y * 4096 + z * 64 + w)) (from_utf8 r)"
  using assms by (simp add: u8_nat)

declare from_utf8.simps(2) [simp del]

lemma sextets_3: "c div 4096 * 4096 + c div 64 mod 64 * 64 + c mod 64 = (c :: nat)"
proof -
  have "c div 64 = c div 4096 * 64 + c div 64 mod 64"
    using div_mult_mod_eq [of "c div 64" 64] by (simp add: div_mult2_eq [symmetric])
  with div_mult_mod_eq [of c 64] show ?thesis by linarith
qed

lemma sextets_4:
  "c div 262144 * 262144 + c div 4096 mod 64 * 4096 + c div 64 mod 64 * 64 + c mod 64 = (c :: nat)"
proof -
  have "c div 4096 = c div 262144 * 64 + c div 4096 mod 64"
    using div_mult_mod_eq [of "c div 4096" 64] by (simp add: div_mult2_eq [symmetric])
  with sextets_3 [of c] show ?thesis by linarith
qed

lemma from_utf8_char:
  assumes "scalar c"
  shows "from_utf8 (utf8_char c @ r) = map_option ((#) c) (from_utf8 r)"
proof -
  consider "c < 0x80" | "0x80 \<le> c" "c < 0x800" | "0x800 \<le> c" "c < 0x10000"
    | "0x10000 \<le> c" "c < 0x110000"
    using assms unfolding scalar_def by linarith
  then show ?thesis
  proof cases
    case 1
    then show ?thesis by (simp add: utf8_char.simps from_utf8_1 unat_of_nat_u8)
  next
    case 2
    have x: "c div 64 < 32" "2 \<le> c div 64" using 2 by auto
    have "from_utf8 (of_nat (0xC0 + c div 64) # of_nat (0x80 + c mod 64) # r) =
        map_option ((#) (c div 64 * 64 + c mod 64)) (from_utf8 r)"
      by (rule from_utf8_2) (use x in \<open>auto simp del: of_nat_add simp: unat_of_nat_u8\<close>)
    with 2 show ?thesis by (simp only: utf8_char.simps) simp
  next
    case 3
    have x: "c div 4096 < 16" using 3 by auto
    have "c div 64 mod 64 \<le> 31" if "c div 4096 = 13"
    proof -
      have "c < 0xD800" using that assms by (auto simp: scalar_def)
      then have "c div 64 \<le> 863" by simp
      moreover have "c div 64 div 64 = 13" using that by (simp add: div_mult2_eq [symmetric])
      then have "c div 64 = 13 * 64 + c div 64 mod 64" using div_mult_mod_eq [of "c div 64" 64] by simp
      ultimately show ?thesis by linarith
    qed
    then have y: "c div 4096 = 0 \<Longrightarrow> 32 \<le> c div 64 mod 64" "c div 4096 = 13 \<Longrightarrow> c div 64 mod 64 \<le> 31"
      using 3 by auto
    have "from_utf8 (of_nat (0xE0 + c div 4096) # of_nat (0x80 + c div 64 mod 64) #
        of_nat (0x80 + c mod 64) # r) =
        map_option ((#) (c div 4096 * 4096 + c div 64 mod 64 * 64 + c mod 64)) (from_utf8 r)"
      by (rule from_utf8_3) (use x y in \<open>auto simp del: of_nat_add simp: unat_of_nat_u8\<close>)
    with 3 show ?thesis by (simp only: utf8_char.simps sextets_3) simp
  next
    case 4
    have x: "c div 262144 \<le> 4" using 4 by auto
    have split: "c div 4096 = c div 262144 * 64 + c div 4096 mod 64"
      using div_mult_mod_eq [of "c div 4096" 64] by (simp add: div_mult2_eq [symmetric])
    have "16 \<le> c div 4096" "c div 4096 \<le> 271" using 4 by auto
    with split have y: "c div 262144 = 0 \<Longrightarrow> 16 \<le> c div 4096 mod 64"
      "c div 262144 = 4 \<Longrightarrow> c div 4096 mod 64 \<le> 15" by linarith+
    have "from_utf8 (of_nat (0xF0 + c div 262144) # of_nat (0x80 + c div 4096 mod 64) #
        of_nat (0x80 + c div 64 mod 64) # of_nat (0x80 + c mod 64) # r) =
        map_option ((#) (c div 262144 * 262144 + c div 4096 mod 64 * 4096 + c div 64 mod 64 * 64 +
          c mod 64)) (from_utf8 r)"
      by (rule from_utf8_4) (use x y in \<open>auto simp del: of_nat_add simp: unat_of_nat_u8\<close>)
    with 4 show ?thesis by (simp only: utf8_char.simps sextets_4) simp
  qed
qed

text \<open>Decoding is the inverse of encoding on every string of scalar values.\<close>

lemma from_utf8_utf8: "\<forall>c \<in> set s. scalar c \<Longrightarrow> from_utf8 (utf8 s) = Some s"
  by (induction s) (auto simp: from_utf8_char)

lemma scalar_ascii: "c < 0x80 \<Longrightarrow> scalar c"
  by (simp add: scalar_def)

section \<open>Decimal numbers\<close>

text \<open>\<open>{}\<close> of an unsigned integer and \<open>str::parse\<close> of a digit string.\<close>

fun decimal :: "nat \<Rightarrow> rstr" where
  "decimal n = (if n < 10 then [48 + n] else decimal (n div 10) @ [48 + n mod 10])"

declare decimal.simps [simp del]

definition decimal_value :: "rstr \<Rightarrow> nat" where
  "decimal_value s = foldl (\<lambda>v c. 10 * v + (c - 48)) 0 s"

lemma decimal_value_decimal [simp]: "decimal_value (decimal n) = n"
proof (induction n rule: decimal.induct)
  case (1 n)
  then show ?case by (subst decimal.simps) (auto simp: decimal_value_def)
qed

lemma decimal_digits: "c \<in> set (decimal n) \<Longrightarrow> 48 \<le> c \<and> c \<le> 57"
proof (induction n rule: decimal.induct)
  case (1 n)
  show ?case
  proof (cases "n < 10")
    case True
    with "1.prems" show ?thesis by (subst (asm) decimal.simps) auto
  next
    case False
    have "n mod 10 < 10" by simp
    with False "1.prems" "1.IH" show ?thesis by (subst (asm) decimal.simps) (auto simp del: mod_less_divisor)
  qed
qed

lemma decimal_nonempty [simp]: "decimal n \<noteq> []"
  by (subst decimal.simps) simp

lemma decimal_length: "n < 10 ^ k \<Longrightarrow> 0 < k \<Longrightarrow> length (decimal n) \<le> k"
proof (induction n arbitrary: k rule: decimal.induct)
  case (1 n)
  show ?case
  proof (cases "n < 10")
    case True
    with "1.prems" show ?thesis by (subst decimal.simps) simp
  next
    case False
    then have k: "k \<noteq> 1" using "1.prems" by auto
    then obtain j where j: "k = Suc j" "0 < j" using "1.prems"(2) by (cases k) auto
    have "n div 10 < 10 ^ j" using "1.prems"(1) j by (simp add: less_mult_imp_div_less mult.commute)
    with False "1.IH" j have "length (decimal (n div 10)) \<le> j" by blast
    with False j show ?thesis by (subst decimal.simps) simp
  qed
qed

end
