(* ===== verification/Byte_Codec.thy ===== *)
theory Byte_Codec
  imports Prelude Rust_Text
begin

text \<open>
  Fixed-width integer encodings (\<open>to_le_bytes\<close>, \<open>to_be_bytes\<close> and their inverses), lowercase
  hexadecimal (\<open>{:x}\<close> of a digest), and the locale that every fixed-width field or record codec
  of the program satisfies.
\<close>

section \<open>Little- and big-endian integers\<close>

fun nat_le_bytes :: "nat \<Rightarrow> nat \<Rightarrow> bytes" where
  "nat_le_bytes 0 x = []"
| "nat_le_bytes (Suc n) x = of_nat (x mod 256) # nat_le_bytes n (x div 256)"

fun le_bytes_nat :: "bytes \<Rightarrow> nat" where
  "le_bytes_nat [] = 0"
| "le_bytes_nat (b # bs) = unat b + 256 * le_bytes_nat bs"

lemma length_nat_le_bytes [simp]: "length (nat_le_bytes n x) = n"
  by (induction n arbitrary: x) auto

lemma le_bytes_nat_inverse: "le_bytes_nat (nat_le_bytes n x) = x mod 256 ^ n"
proof (induction n arbitrary: x)
  case 0
  show ?case by simp
next
  case (Suc n)
  have "x mod 256 + 256 * (x div 256 mod 256 ^ n) = x mod (256 * 256 ^ n)"
    using mod_mult2_eq [of x 256 "256 ^ n"] by simp
  then show ?case by (simp add: Suc.IH unat_of_nat)
qed

lemma nat_le_bytes_inverse: "length bs = n \<Longrightarrow> nat_le_bytes n (le_bytes_nat bs) = bs"
proof (induction bs arbitrary: n)
  case (Cons b bs)
  have "unat b < 256" using unat_lt2p [of b] by simp
  with Cons show ?case by auto
qed simp

lemma le_bytes_nat_less: "le_bytes_nat bs < 256 ^ length bs"
proof (induction bs)
  case (Cons b bs)
  have "unat b < 256" using unat_lt2p [of b] by simp
  with Cons show ?case by simp
qed simp

definition u16_le :: "u16 \<Rightarrow> bytes" where "u16_le w = nat_le_bytes 2 (unat w)"
definition u32_le :: "u32 \<Rightarrow> bytes" where "u32_le w = nat_le_bytes 4 (unat w)"
definition u64_le :: "u64 \<Rightarrow> bytes" where "u64_le w = nat_le_bytes 8 (unat w)"
definition u32_be :: "u32 \<Rightarrow> bytes" where "u32_be w = rev (u32_le w)"

definition u16_of_le :: "bytes \<Rightarrow> u16" where "u16_of_le bs = of_nat (le_bytes_nat bs)"
definition u32_of_le :: "bytes \<Rightarrow> u32" where "u32_of_le bs = of_nat (le_bytes_nat bs)"
definition u64_of_le :: "bytes \<Rightarrow> u64" where "u64_of_le bs = of_nat (le_bytes_nat bs)"
definition u32_of_be :: "bytes \<Rightarrow> u32" where "u32_of_be bs = u32_of_le (rev bs)"

lemma length_int_bytes [simp]:
  "length (u16_le a) = 2" "length (u32_le b) = 4" "length (u64_le c) = 8" "length (u32_be b) = 4"
  by (simp_all add: u16_le_def u32_le_def u64_le_def u32_be_def)

lemma int_bytes_inverse [simp]:
  "u16_of_le (u16_le a) = a" "u32_of_le (u32_le b) = b" "u64_of_le (u64_le c) = c"
  "u32_of_be (u32_be b) = b"
  using unat_lt2p [of a] unat_lt2p [of b] unat_lt2p [of c]
  by (simp_all add: u16_of_le_def u16_le_def u32_of_le_def u32_le_def u64_of_le_def u64_le_def
      u32_of_be_def u32_be_def le_bytes_nat_inverse)

section \<open>Lowercase hexadecimal\<close>

definition hex_digit :: "nat \<Rightarrow> nat" where
  "hex_digit n = (if n < 10 then 48 + n else 87 + n)"

definition hex_lower :: "bytes \<Rightarrow> rstr" where
  "hex_lower bs = concat (map (\<lambda>b. [hex_digit (unat b div 16), hex_digit (unat b mod 16)]) bs)"

lemma length_hex_lower: "length (hex_lower bs) = 2 * length bs"
  by (induction bs) (auto simp: hex_lower_def)

section \<open>Fixed-width codecs\<close>

text \<open>
  The contract of a fixed-width encoder and its decoder.  What follows from it: encoders are
  injective, also on a list of items written one after the other, and also with a suffix.
\<close>

locale fixed_codec =
  fixes enc :: "'a \<Rightarrow> bytes" and dec :: "bytes \<Rightarrow> 'a" and width :: nat
  assumes width_pos: "0 < width"
    and length_enc: "length (enc x) = width"
    and dec_enc: "dec (enc x) = x"
begin

lemma enc_inj: "enc x = enc y \<longleftrightarrow> x = y"
  by (metis dec_enc)

lemma enc_append_inj: "enc x @ r = enc y @ s \<longleftrightarrow> x = y \<and> r = s"
  by (auto simp: length_enc enc_inj)

lemma dec_take: "dec (take width (enc x @ r)) = x"
  by (simp add: length_enc dec_enc)

lemma length_concat_enc: "length (concat (map enc xs)) = width * length xs"
  by (induction xs) (auto simp: length_enc)

lemma concat_enc_inj: "concat (map enc xs) = concat (map enc ys) \<Longrightarrow> xs = ys"
proof (induction xs arbitrary: ys)
  case Nil
  then have "width * length ys = 0" by (metis length_concat_enc list.size(3) concat.simps(1) list.simps(8))
  with width_pos show ?case by simp
next
  case (Cons x xs)
  show ?case
  proof (cases ys)
    case Nil
    then have "enc x = []" using Cons.prems by simp
    then show ?thesis using length_enc [of x] width_pos by simp
  next
    case (Cons y ys')
    then show ?thesis using Cons.prems Cons.IH by (simp add: enc_append_inj)
  qed
qed

end

interpretation u16_codec: fixed_codec u16_le u16_of_le 2
  by unfold_locales simp_all

interpretation u32_codec: fixed_codec u32_le u32_of_le 4
  by unfold_locales simp_all

interpretation u64_codec: fixed_codec u64_le u64_of_le 8
  by unfold_locales simp_all

interpretation u32_be_codec: fixed_codec u32_be u32_of_be 4
  by unfold_locales simp_all

end
