(* ===== verification/Gesture_Stream.thy ===== *)
theory Gesture_Stream
  imports Prelude Rust_Text Byte_Codec
begin

text \<open>
  The portable gesture event contract of \<open>src/src/gesture.rs\<close>: events and their wire codes, the
  one stream validator, the bounded recording track, its canonical byte stream, the replay cursor
  and the sidecar document.  Authored samples are already quantised here (the \<open>f32\<close>
  quantisation, the control surface and the accepted-frame clock are not modelled).  SHA-256 is
  third-party code: \<open>sha\<close> is a parameter of every definition that hashes.
\<close>

section \<open>Vocabulary\<close>

definition MAX_GESTURE_EVENTS :: nat where "MAX_GESTURE_EVENTS = 4096"
definition MAX_ACTIVE_STROKES :: nat where "MAX_ACTIVE_STROKES = 16"
definition MAX_GESTURE_SERIALIZED_BYTES :: nat where "MAX_GESTURE_SERIALIZED_BYTES = 256 * 1024"
definition GESTURE_ALGORITHM_VERSION :: u16 where "GESTURE_ALGORITHM_VERSION = 1"

definition GESTURE_CHECKSUM_DOMAIN :: bytes where
  "GESTURE_CHECKSUM_DOMAIN = utf8 (lit ''collide-o-scope/gesture-track/v1'') @ [0]"

definition GESTURE_EVENT_RESERVED :: u8 where "GESTURE_EVENT_RESERVED = 0"
definition GESTURE_FLAG_TRUNCATED :: u16 where "GESTURE_FLAG_TRUNCATED = 1"
definition GESTURE_FLAG_INCOMPLETE :: u16 where "GESTURE_FLAG_INCOMPLETE = 2"

datatype gesture_phase = PBegin | PMove | PEnd
datatype gesture_mode = Push | Curl
datatype gesture_origin = NativePointer | Phone | OMidi | OOsc

fun phase_code :: "gesture_phase \<Rightarrow> u8" where
  "phase_code PBegin = 0" | "phase_code PMove = 1" | "phase_code PEnd = 2"

definition phase_from_code :: "u8 \<Rightarrow> gesture_phase option" where
  "phase_from_code c = (if c = 0 then Some PBegin else if c = 1 then Some PMove
     else if c = 2 then Some PEnd else None)"

fun mode_code :: "gesture_mode \<Rightarrow> u8" where
  "mode_code Push = 0" | "mode_code Curl = 1"

definition mode_from_code :: "u8 \<Rightarrow> gesture_mode option" where
  "mode_from_code c = (if c = 0 then Some Push else if c = 1 then Some Curl else None)"

fun origin_is_automation :: "gesture_origin \<Rightarrow> bool" where
  "origin_is_automation NativePointer = False"
| "origin_is_automation Phone = False"
| "origin_is_automation OMidi = True"
| "origin_is_automation OOsc = True"

record gesture_event =
  ev_reference_tick :: u32
  ev_stroke :: u8
  ev_phase :: gesture_phase
  ev_mode :: gesture_mode
  ev_x :: u16
  ev_y :: u16
  ev_pressure :: u16
  ev_direction_x :: u16
  ev_direction_y :: u16

definition event_at :: "gesture_event \<Rightarrow> u32 \<Rightarrow> gesture_event" where
  "event_at e tick = e\<lparr>ev_reference_tick := tick\<rparr>"

definition encode_event :: "gesture_event \<Rightarrow> bytes" where
  "encode_event e =
     u32_le (ev_reference_tick e) @
     [ev_stroke e, phase_code (ev_phase e), mode_code (ev_mode e), GESTURE_EVENT_RESERVED] @
     u16_le (ev_x e) @ u16_le (ev_y e) @ u16_le (ev_pressure e) @
     u16_le (ev_direction_x e) @ u16_le (ev_direction_y e)"

datatype gesture_error =
    StrokeOutOfRange u8
  | TooManyOpenStrokes u8
  | StrokeAlreadyOpen u8
  | StrokeNotOpen u8 gesture_phase
  | NonMonotonicTick u32 u32
  | TickBeforeOrigin u64 u64
  | TickOutOfRange u64
  | TooManyGestureEvents nat
  | GestureEventCount u32 nat
  | OriginWithoutEvents u64
  | UnsupportedGestureVersion u16
  | GestureChecksumMismatch rstr rstr
  | GestureDocumentBytes nat

section \<open>The stream validator\<close>

record gesture_validator =
  val_open_strokes :: u16
  val_last_tick :: "u32 option"

definition validator_default :: gesture_validator where
  "validator_default = \<lparr>val_open_strokes = 0, val_last_tick = None\<rparr>"

definition open_stroke_count :: "gesture_validator \<Rightarrow> nat" where
  "open_stroke_count v = count_ones (val_open_strokes v)"

definition validator_is_complete :: "gesture_validator \<Rightarrow> bool" where
  "validator_is_complete v \<longleftrightarrow> val_open_strokes v = 0"

definition validator_accept :: "gesture_validator \<Rightarrow> gesture_event \<Rightarrow> gesture_error + gesture_validator"
  where
  "validator_accept v e =
     (if MAX_ACTIVE_STROKES \<le> unat (ev_stroke e) then Inl (StrokeOutOfRange (ev_stroke e))
      else case (case val_last_tick v of
                   Some previous \<Rightarrow> if ev_reference_tick e < previous
                     then Some (NonMonotonicTick previous (ev_reference_tick e)) else None
                 | None \<Rightarrow> None) of
        Some err \<Rightarrow> Inl err
      | None \<Rightarrow>
        (let bit = bit_mask (unat (ev_stroke e)) in
         case (case ev_phase e of
             PBegin \<Rightarrow>
               if val_open_strokes v AND bit \<noteq> 0 then Inl (StrokeAlreadyOpen (ev_stroke e))
               else if MAX_ACTIVE_STROKES \<le> open_stroke_count v
                 then Inl (TooManyOpenStrokes (ev_stroke e))
               else Inr (val_open_strokes v OR bit)
           | PMove \<Rightarrow>
               if val_open_strokes v AND bit = 0 then Inl (StrokeNotOpen (ev_stroke e) PMove)
               else Inr (val_open_strokes v)
           | PEnd \<Rightarrow>
               if val_open_strokes v AND bit = 0 then Inl (StrokeNotOpen (ev_stroke e) PEnd)
               else Inr (val_open_strokes v AND NOT bit)) of
           Inl err \<Rightarrow> Inl err
         | Inr strokes \<Rightarrow>
             Inr (v\<lparr>val_open_strokes := strokes, val_last_tick := Some (ev_reference_tick e)\<rparr>)))"

text \<open>The loop \<open>for event in &events { validator.accept(event)?; }\<close>.\<close>

fun validator_accept_all ::
  "gesture_validator \<Rightarrow> gesture_event list \<Rightarrow> gesture_error + gesture_validator" where
  "validator_accept_all v [] = Inr v"
| "validator_accept_all v (e # es) = rbind (validator_accept v e) (\<lambda>v'. validator_accept_all v' es)"

section \<open>The recording track\<close>

record gesture_track =
  trk_origin_tick :: "u64 option"
  trk_events :: "gesture_event list"
  trk_truncated :: bool
  trk_validator :: gesture_validator

definition track_default :: gesture_track where
  "track_default = \<lparr>trk_origin_tick = None, trk_events = [], trk_truncated = False,
     trk_validator = validator_default\<rparr>"

definition track_is_complete :: "gesture_track \<Rightarrow> bool" where
  "track_is_complete t = validator_is_complete (trk_validator t)"

definition track_record_accepted ::
  "gesture_track \<Rightarrow> u64 \<Rightarrow> gesture_event \<Rightarrow> gesture_error + (gesture_track \<times> bool)" where
  "track_record_accepted t absolute e =
     (let origin = (case trk_origin_tick t of Some o' \<Rightarrow> o' | None \<Rightarrow> absolute) in
      if absolute < origin then Inl (TickBeforeOrigin absolute origin)
      else let relative = absolute - origin in
      if 2 ^ 32 \<le> unat relative then Inl (TickOutOfRange relative)
      else let stamped = event_at e (ucast relative) in
      rbind (validator_accept (trk_validator t) stamped) (\<lambda>probe.
        if MAX_GESTURE_EVENTS \<le> length (trk_events t)
        then Inr (t\<lparr>trk_truncated := True\<rparr>, False)
        else Inr (t\<lparr>trk_origin_tick := Some origin, trk_events := trk_events t @ [stamped],
                    trk_validator := probe\<rparr>, True)))"

definition track_flags :: "gesture_track \<Rightarrow> u16" where
  "track_flags t =
     (if trk_truncated t then GESTURE_FLAG_TRUNCATED else 0) OR
     (if track_is_complete t then 0 else GESTURE_FLAG_INCOMPLETE)"

definition declared_event_count :: "gesture_track \<Rightarrow> u32" where
  "declared_event_count t =
     (if length (trk_events t) < 2 ^ 32 then of_nat (length (trk_events t)) else - 1)"

definition origin_or_zero :: "gesture_track \<Rightarrow> u64" where
  "origin_or_zero t = (case trk_origin_tick t of Some o' \<Rightarrow> o' | None \<Rightarrow> 0)"

definition track_canonical_bytes :: "gesture_track \<Rightarrow> bytes" where
  "track_canonical_bytes t =
     GESTURE_CHECKSUM_DOMAIN @ u16_le GESTURE_ALGORITHM_VERSION @ u16_le (track_flags t) @
     u64_le (origin_or_zero t) @ u32_le (declared_event_count t) @
     concat (map encode_event (trk_events t))"

definition track_checksum_hex :: "(bytes \<Rightarrow> bytes) \<Rightarrow> gesture_track \<Rightarrow> rstr" where
  "track_checksum_hex sha t = hex_lower (sha (track_canonical_bytes t))"

definition track_last_absolute_tick :: "gesture_track \<Rightarrow> u64" where
  "track_last_absolute_tick t =
     (case trk_origin_tick t of
        Some o' \<Rightarrow> (if trk_events t = [] then 0
                   else sat_add o' (ucast (ev_reference_tick (last (trk_events t)))))
      | None \<Rightarrow> 0)"

section \<open>Replay\<close>

text \<open>The borrowed event slice and its cursor; the \<open>while\<close> loop counts the due events.\<close>

record gesture_replay =
  rp_events :: "gesture_event list"
  rp_cursor :: nat

definition track_replay :: "gesture_track \<Rightarrow> gesture_replay" where
  "track_replay t = \<lparr>rp_events = trk_events t, rp_cursor = 0\<rparr>"

function advance_cursor :: "gesture_event list \<Rightarrow> u32 \<Rightarrow> nat \<Rightarrow> nat" where
  "advance_cursor es tick c =
     (if c < length es \<and> ev_reference_tick (es ! c) \<le> tick then advance_cursor es tick (c + 1) else c)"
  by pat_completeness auto
termination
  by (relation "measure (\<lambda>(es, tick, c). length es - c)") auto

declare advance_cursor.simps [simp del]

definition events_due :: "gesture_replay \<Rightarrow> u32 \<Rightarrow> gesture_replay \<times> gesture_event list" where
  "events_due r tick =
     (let start = rp_cursor r; c = advance_cursor (rp_events r) tick start
      in (r\<lparr>rp_cursor := c\<rparr>, take (c - start) (drop start (rp_events r))))"

section \<open>The sidecar document\<close>

record gesture_document =
  doc_version :: u16
  doc_origin_tick :: u64
  doc_event_count :: u32
  doc_truncated :: bool
  doc_checksum :: rstr
  doc_events :: "gesture_event list"

definition document_capture :: "(bytes \<Rightarrow> bytes) \<Rightarrow> gesture_track \<Rightarrow> gesture_document" where
  "document_capture sha t =
     \<lparr>doc_version = GESTURE_ALGORITHM_VERSION, doc_origin_tick = origin_or_zero t,
      doc_event_count = declared_event_count t, doc_truncated = trk_truncated t,
      doc_checksum = track_checksum_hex sha t, doc_events = trk_events t\<rparr>"

definition document_decode :: "(bytes \<Rightarrow> bytes) \<Rightarrow> gesture_document \<Rightarrow> gesture_error + gesture_track"
  where
  "document_decode sha d =
     (if doc_version d \<noteq> GESTURE_ALGORITHM_VERSION then Inl (UnsupportedGestureVersion (doc_version d))
      else if MAX_GESTURE_EVENTS < length (doc_events d)
        then Inl (TooManyGestureEvents (length (doc_events d)))
      else if unat (doc_event_count d) \<noteq> length (doc_events d)
        then Inl (GestureEventCount (doc_event_count d) (length (doc_events d)))
      else if doc_events d = [] \<and> doc_origin_tick d \<noteq> 0
        then Inl (OriginWithoutEvents (doc_origin_tick d))
      else rbind (validator_accept_all validator_default (doc_events d)) (\<lambda>validator.
        let track = \<lparr>trk_origin_tick = (if doc_events d \<noteq> [] then Some (doc_origin_tick d) else None),
                     trk_events = doc_events d, trk_truncated = doc_truncated d,
                     trk_validator = validator\<rparr>;
            computed = track_checksum_hex sha track
        in if computed \<noteq> doc_checksum d then Inl (GestureChecksumMismatch (doc_checksum d) computed)
           else Inr track))"

definition validate_document_bytes :: "nat \<Rightarrow> gesture_error + unit" where
  "validate_document_bytes n =
     (if n = 0 \<or> MAX_GESTURE_SERIALIZED_BYTES < n then Inl (GestureDocumentBytes n) else Inr ())"

end
