(* ===== verification/Gesture_Laws.thy ===== *)
theory Gesture_Laws
  imports Gesture_Stream
begin

text \<open>
  What the gesture stream promises.  The validator's bit mask refines one two-state machine per
  stroke; a recorded track is always one the validator accepts, and the tracks that recording can produce are
  characterized; capturing a track into a document and decoding it are inverse to each other; the canonical byte stream determines the recording;
  and replay hands out every due event exactly once, in order.
\<close>

section \<open>The specification: one machine per stroke\<close>

fun stroke_step :: "bool \<Rightarrow> gesture_phase \<Rightarrow> bool option" where
  "stroke_step False PBegin = Some True"
| "stroke_step True PBegin = None"
| "stroke_step True PMove = Some True"
| "stroke_step False PMove = None"
| "stroke_step True PEnd = Some False"
| "stroke_step False PEnd = None"

fun stroke_run :: "bool \<Rightarrow> gesture_phase list \<Rightarrow> bool option" where
  "stroke_run b [] = Some b"
| "stroke_run b (p # ps) = (case stroke_step b p of None \<Rightarrow> None | Some b' \<Rightarrow> stroke_run b' ps)"

definition stroke_phases :: "nat \<Rightarrow> gesture_event list \<Rightarrow> gesture_phase list" where
  "stroke_phases s es = map ev_phase (filter (\<lambda>e. unat (ev_stroke e) = s) es)"

definition tick_after :: "u32 option \<Rightarrow> u32 \<Rightarrow> bool" where
  "tick_after l t \<longleftrightarrow> (case l of None \<Rightarrow> True | Some p \<Rightarrow> p \<le> t)"

fun ticks_from :: "u32 option \<Rightarrow> gesture_event list \<Rightarrow> bool" where
  "ticks_from l [] = True"
| "ticks_from l (e # es) =
     (tick_after l (ev_reference_tick e) \<and> ticks_from (Some (ev_reference_tick e)) es)"

definition last_tick_of :: "u32 option \<Rightarrow> gesture_event list \<Rightarrow> u32 option" where
  "last_tick_of l es = (if es = [] then l else Some (ev_reference_tick (last es)))"

definition stroke_open :: "gesture_validator \<Rightarrow> nat \<Rightarrow> bool" where
  "stroke_open v s = bit (val_open_strokes v) s"

lemma validator_eqI:
  assumes "\<And>s. s < 16 \<Longrightarrow> stroke_open v s = stroke_open w s" "val_last_tick v = val_last_tick w"
  shows "v = (w :: gesture_validator)"
proof -
  have "val_open_strokes v = val_open_strokes w"
    using assms(1) by (intro bit_word_eqI) (auto simp: stroke_open_def)
  with assms(2) show ?thesis by (cases v, cases w) simp
qed

text \<open>The concurrency guard restates the identity bound: it can never be the one that refuses.\<close>

lemma too_many_unreachable:
  "s < 16 \<Longrightarrow> \<not> stroke_open v s \<Longrightarrow> \<not> MAX_ACTIVE_STROKES \<le> open_stroke_count v"
  using count_ones_full [of "val_open_strokes v" s]
  by (auto simp: MAX_ACTIVE_STROKES_def open_stroke_count_def stroke_open_def)

lemma accept_Inr:
  "validator_accept v e = Inr v' \<longleftrightarrow>
     unat (ev_stroke e) < 16 \<and> tick_after (val_last_tick v) (ev_reference_tick e) \<and>
     (\<forall>s < 16. stroke_open v' s =
        (if s = unat (ev_stroke e) then stroke_step (stroke_open v s) (ev_phase e) = Some True
         else stroke_open v s)) \<and>
     stroke_step (stroke_open v (unat (ev_stroke e))) (ev_phase e) \<noteq> None \<and>
     val_last_tick v' = Some (ev_reference_tick e)"
  (is "?L \<longleftrightarrow> ?R")
proof -
  let ?s = "unat (ev_stroke e)"
  define w where "w = v\<lparr>val_open_strokes := (case ev_phase e of
      PBegin \<Rightarrow> val_open_strokes v OR bit_mask ?s | PMove \<Rightarrow> val_open_strokes v
    | PEnd \<Rightarrow> val_open_strokes v AND NOT (bit_mask ?s)), val_last_tick := Some (ev_reference_tick e)\<rparr>"
  have ok: "validator_accept v e = Inr w"
    if "?s < 16" "tick_after (val_last_tick v) (ev_reference_tick e)"
      "stroke_step (stroke_open v ?s) (ev_phase e) \<noteq> None"
    using that too_many_unreachable [of ?s v]
    by (cases "ev_phase e"; cases "stroke_open v ?s"; cases "val_last_tick v")
      (auto simp: validator_accept_def w_def tick_after_def mask_clear stroke_open_def
        MAX_ACTIVE_STROKES_def Let_def not_less)
  have bad: "\<exists>err. validator_accept v e = Inl err"
    if "\<not> (?s < 16 \<and> tick_after (val_last_tick v) (ev_reference_tick e) \<and>
      stroke_step (stroke_open v ?s) (ev_phase e) \<noteq> None)"
    using that
    by (cases "ev_phase e"; cases "stroke_open v ?s"; cases "val_last_tick v")
      (auto simp: validator_accept_def tick_after_def mask_clear stroke_open_def
        MAX_ACTIVE_STROKES_def Let_def not_less)
  have w: "\<forall>s < 16. stroke_open w s =
        (if s = ?s then stroke_step (stroke_open v s) (ev_phase e) = Some True else stroke_open v s)"
    if "?s < 16" "stroke_step (stroke_open v ?s) (ev_phase e) \<noteq> None"
    using that
    by (cases "ev_phase e"; cases "stroke_open v ?s")
      (auto simp: w_def stroke_open_def bit_set_mask bit_clear_mask)
  show ?thesis
  proof
    assume L: ?L
    with bad have c: "?s < 16" "tick_after (val_last_tick v) (ev_reference_tick e)"
      "stroke_step (stroke_open v ?s) (ev_phase e) \<noteq> None" by fastforce+
    with ok L have "v' = w" by simp
    with c w show ?R by (simp add: w_def)
  next
    assume R: ?R
    have "v' = w" using R w by (intro validator_eqI) (auto simp: w_def)
    with R ok show ?L by blast
  qed
qed

lemma stroke_phases_simps:
  "stroke_phases s [] = []"
  "stroke_phases s (e # es) =
     (if unat (ev_stroke e) = s then ev_phase e # stroke_phases s es else stroke_phases s es)"
  by (simp_all add: stroke_phases_def)

lemma accept_all_spec:
  "validator_accept_all v es = Inr v' \<longleftrightarrow>
     (\<forall>e \<in> set es. unat (ev_stroke e) < 16) \<and> ticks_from (val_last_tick v) es \<and>
     (\<forall>s < 16. stroke_run (stroke_open v s) (stroke_phases s es) = Some (stroke_open v' s)) \<and>
     val_last_tick v' = last_tick_of (val_last_tick v) es"
proof (induction es arbitrary: v)
  case Nil
  show ?case by (auto simp: stroke_phases_simps last_tick_of_def intro: validator_eqI)
next
  case (Cons e es)
  let ?s = "unat (ev_stroke e)"
  show ?case
  proof (cases "\<exists>u. validator_accept v e = Inr u")
    case True
    then obtain u where u: "validator_accept v e = Inr u" ..
    note U = u [unfolded accept_Inr]
    have st: "stroke_run (stroke_open v s) (stroke_phases s (e # es)) =
        stroke_run (stroke_open u s) (stroke_phases s es)" if "s < 16" for s
      using U that
      by (cases "stroke_open v s"; cases "ev_phase e") (auto simp: stroke_phases_simps split: if_splits)
    show ?thesis
      using U by (auto simp: u Cons.IH st last_tick_of_def)
  next
    case False
    then have L: "\<exists>err. validator_accept v e = Inl err" by (metis sum.exhaust)
    define r where "r s = stroke_step (stroke_open v s) (ev_phase e)" for s
    have "\<not> (?s < 16 \<and> tick_after (val_last_tick v) (ev_reference_tick e) \<and> r ?s \<noteq> None)"
    proof
      assume a: "?s < 16 \<and> tick_after (val_last_tick v) (ev_reference_tick e) \<and> r ?s \<noteq> None"
      define u where "u = \<lparr>val_open_strokes =
        (if r ?s = Some True then val_open_strokes v OR bit_mask ?s
         else val_open_strokes v AND NOT (bit_mask ?s)), val_last_tick = Some (ev_reference_tick e)\<rparr>"
      have "validator_accept v e = Inr u"
        unfolding accept_Inr using a
        by (auto simp: u_def r_def stroke_open_def bit_set_mask bit_clear_mask)
      with False show False by blast
    qed
    then show ?thesis using L by (auto simp: r_def stroke_phases_simps split: option.splits)
  qed
qed

text \<open>C28. The one validator is exactly the conjunction of three laws: every stroke identity is
  below 16, the reference ticks never decrease, and each stroke on its own runs Begin, any number
  of Moves, End, in that order.  The open-stroke mask of the result is the set of strokes whose
  machine ends open.\<close>

theorem validator_refines_stroke_machines:
  "validator_accept_all validator_default es = Inr v \<longleftrightarrow>
     (\<forall>e \<in> set es. unat (ev_stroke e) < 16) \<and> ticks_from None es \<and>
     (\<forall>s < 16. stroke_run False (stroke_phases s es) = Some (stroke_open v s)) \<and>
     val_last_tick v = last_tick_of None es"
  unfolding accept_all_spec by (simp add: validator_default_def stroke_open_def)

definition sample_event :: gesture_event where
  "sample_event = \<lparr>ev_reference_tick = 0, ev_stroke = 3, ev_phase = PBegin, ev_mode = Curl,
     ev_x = 1, ev_y = 2, ev_pressure = 65535, ev_direction_x = 0, ev_direction_y = 0\<rparr>"

definition sample_end :: gesture_event where
  "sample_end = sample_event\<lparr>ev_reference_tick := 5, ev_phase := PEnd\<rparr>"

lemma sample_pair_accepted:
  "validator_accept_all validator_default [sample_event, sample_end] =
     Inr \<lparr>val_open_strokes = 0, val_last_tick = Some 5\<rparr>"
  by (simp add: sample_event_def sample_end_def validator_accept_def validator_default_def
      MAX_ACTIVE_STROKES_def open_stroke_count_def count_ones_def bit_mask_def Let_def)

theorem validator_refines_stroke_machines_witness:
  "stroke_run False (stroke_phases 3 [sample_event, sample_end]) = Some False \<and>
   (\<nexists>v. validator_accept_all validator_default [sample_end, sample_event] = Inr v)"
proof
  show "stroke_run False (stroke_phases 3 [sample_event, sample_end]) = Some False"
    using sample_pair_accepted [unfolded validator_refines_stroke_machines]
    by (simp add: stroke_open_def)
  show "\<nexists>v. validator_accept_all validator_default [sample_end, sample_event] = Inr v"
    unfolding validator_refines_stroke_machines
    by (simp add: sample_event_def sample_end_def tick_after_def)
qed

section \<open>The recording track\<close>

definition track_wf :: "gesture_track \<Rightarrow> bool" where
  "track_wf t \<longleftrightarrow>
     validator_accept_all validator_default (trk_events t) = Inr (trk_validator t) \<and>
     length (trk_events t) \<le> MAX_GESTURE_EVENTS \<and>
     (trk_origin_tick t = None \<longleftrightarrow> trk_events t = [])"

lemma track_wf_default: "track_wf track_default"
  by (simp add: track_wf_def track_default_def)

lemma accept_all_snoc:
  "validator_accept_all v (es @ [e]) = rbind (validator_accept_all v es) (\<lambda>u. validator_accept u e)"
proof (induction es arbitrary: v)
  case Nil
  show ?case by (cases "validator_accept v e") auto
next
  case (Cons x xs)
  then show ?case by (cases "validator_accept v x") auto
qed

text \<open>A recorded track is always one the validator accepts: from the empty track, recording keeps
  the event list accepted, bounded by 4096 and rebased to the first tick; a well-formed event is
  appended with its relative tick, at the cap it only sets the truncation flag.\<close>

theorem track_record_keeps_wf:
  assumes "track_wf t" and "track_record_accepted t a e = Inr (t', recorded)"
  shows "track_wf t' \<and> (recorded \<longleftrightarrow> length (trk_events t) < MAX_GESTURE_EVENTS) \<and>
    (recorded \<longrightarrow> (\<exists>o' tick. trk_origin_tick t' = Some o' \<and> unat a = unat o' + unat (tick :: u32) \<and>
        trk_events t' = trk_events t @ [event_at e tick])) \<and>
    (\<not> recorded \<longrightarrow> t' = t\<lparr>trk_truncated := True\<rparr>)"
proof -
  define origin where "origin = (case trk_origin_tick t of Some o' \<Rightarrow> o' | None \<Rightarrow> a)"
  have le: "origin \<le> a" and small: "unat (a - origin) < 2 ^ 32"
    using assms(2) by (auto simp: track_record_accepted_def origin_def Let_def not_less split: if_splits)
  define tick :: u32 where "tick = ucast (a - origin)"
  obtain probe where pr: "validator_accept (trk_validator t) (event_at e tick) = Inr probe"
    using assms(2) le small
    by (auto simp: track_record_accepted_def rbind_Inr origin_def tick_def Let_def split: if_splits)
  have res: "(if MAX_GESTURE_EVENTS \<le> length (trk_events t) then (t\<lparr>trk_truncated := True\<rparr>, False)
      else (t\<lparr>trk_origin_tick := Some origin, trk_events := trk_events t @ [event_at e tick],
        trk_validator := probe\<rparr>, True)) = (t', recorded)"
    using assms(2) le small pr
    by (simp add: track_record_accepted_def Let_def not_le [symmetric] flip: origin_def tick_def split: if_splits)
  have "unat tick = unat a - unat origin"
    using small le by (simp add: tick_def unat_ucast unat_sub word_le_nat_alt)
  then have ticks: "unat a = unat origin + unat tick" using le by (simp add: word_le_nat_alt)
  have acc: "validator_accept_all validator_default (trk_events t @ [event_at e tick]) = Inr probe"
    using assms(1) pr by (simp add: accept_all_snoc track_wf_def)
  show ?thesis
  proof (cases "MAX_GESTURE_EVENTS \<le> length (trk_events t)")
    case True
    then have "t' = t\<lparr>trk_truncated := True\<rparr> \<and> \<not> recorded" using res by simp
    with True assms(1) show ?thesis by (auto simp: track_wf_def)
  next
    case False
    then have "t' = t\<lparr>trk_origin_tick := Some origin, trk_events := trk_events t @ [event_at e tick],
        trk_validator := probe\<rparr> \<and> recorded" using res by simp
    with False acc ticks show ?thesis by (auto simp: track_wf_def)
  qed
qed

definition sample_track :: gesture_track where
  "sample_track = \<lparr>trk_origin_tick = Some 900, trk_events = [sample_event], trk_truncated = False,
     trk_validator = \<lparr>val_open_strokes = 8, val_last_tick = Some 0\<rparr>\<rparr>"

lemma sample_recorded: "track_record_accepted track_default 900 sample_event = Inr (sample_track, True)"
  by (simp add: track_record_accepted_def track_default_def sample_event_def sample_track_def
      validator_accept_def validator_default_def event_at_def MAX_ACTIVE_STROKES_def
      MAX_GESTURE_EVENTS_def open_stroke_count_def count_ones_def bit_mask_def Let_def)

lemma sample_track_wf: "track_wf sample_track"
  by (simp add: track_wf_def sample_track_def sample_event_def
      validator_accept_def validator_default_def MAX_ACTIVE_STROKES_def
      MAX_GESTURE_EVENTS_def open_stroke_count_def count_ones_def bit_mask_def Let_def)

theorem track_record_keeps_wf_witness:
  "track_wf sample_track \<and> trk_events sample_track = [event_at sample_event 0]"
  using track_record_keeps_wf [OF track_wf_default sample_recorded]
  by (auto simp: sample_track_def track_default_def event_at_def sample_event_def MAX_GESTURE_EVENTS_def)

section \<open>What recording can produce\<close>

text \<open>A recording session: samples at absolute ticks, the refused ones leaving the track as it is.\<close>

fun track_session_step :: "gesture_track \<Rightarrow> u64 \<times> gesture_event \<Rightarrow> gesture_track" where
  "track_session_step t (a, e) = (case track_record_accepted t a e of Inl err \<Rightarrow> t | Inr (t', recorded) \<Rightarrow> t')"

definition track_session :: "(u64 \<times> gesture_event) list \<Rightarrow> gesture_track" where
  "track_session samples = foldl track_session_step track_default samples"

definition recordable :: "gesture_track \<Rightarrow> bool" where
  "recordable t \<longleftrightarrow> track_wf t \<and>
     (if trk_events t = [] then \<not> trk_truncated t
      else ev_reference_tick (hd (trk_events t)) = 0 \<and>
        unat (origin_or_zero t) + unat (ev_reference_tick (last (trk_events t))) < 2 ^ 64 \<and>
        (if trk_truncated t then length (trk_events t) = MAX_GESTURE_EVENTS else True))"

lemma event_at_same: "event_at e (ev_reference_tick e) = e"
  by (simp add: event_at_def)

lemma event_at_tick [simp]: "ev_reference_tick (event_at e k) = k"
  by (simp add: event_at_def)

lemma session_step_recordable:
  assumes R: "recordable t"
  shows "recordable (track_session_step t (a, e))"
proof (cases "track_record_accepted t a e")
  case (Inl err)
  then show ?thesis using R by simp
next
  case (Inr x)
  obtain t' recorded where x: "track_record_accepted t a e = Inr (t', recorded)" using Inr by (cases x) auto
  have wf: "track_wf t" using R by (simp add: recordable_def)
  note K = track_record_keeps_wf [OF wf x]
  show ?thesis
  proof (cases recorded)
    case False
    then have "t' = t\<lparr>trk_truncated := True\<rparr>" "length (trk_events t) = MAX_GESTURE_EVENTS" using K wf by (auto simp: track_wf_def)
    then show ?thesis using R K x
      by (auto simp: recordable_def origin_or_zero_def MAX_GESTURE_EVENTS_def)
  next
    case True
    define origin where "origin = (case trk_origin_tick t of Some o' \<Rightarrow> o' | None \<Rightarrow> a)"
    obtain o' tick where q: "trk_origin_tick t' = Some o'" "unat a = unat o' + unat (tick :: u32)"
      "trk_events t' = trk_events t @ [event_at e tick]"
      using K True by blast
    have o': "o' = origin" "trk_truncated t' = trk_truncated t"
      using x True q(1) by (auto simp: track_record_accepted_def rbind_Inr origin_def Let_def split: if_splits)
    have nt: "\<not> trk_truncated t" using R K True by (auto simp: recordable_def split: if_splits)
    have lt: "unat o' + unat tick < 2 ^ 64" using q(2) unat_lt2p [of a] by simp
    have first: "ev_reference_tick (hd (trk_events t')) = 0"
    proof (cases "trk_events t = []")
      case True
      then have "o' = a" using o'(1) wf by (auto simp: origin_def track_wf_def)
      then have "tick = 0" using q(2) by (simp add: unat_eq_0)
      then show ?thesis using q(3) True by simp
    next
      case False
      then show ?thesis using q(3) R by (simp add: recordable_def)
    qed
    show ?thesis using K first lt nt o'(2) x by (simp add: recordable_def q origin_or_zero_def)
  qed
qed

lemma session_recordable: "recordable (track_session samples)"
proof (induction samples rule: rev_induct)
  case Nil
  show ?case by (simp add: track_session_def recordable_def track_wf_default) (simp add: track_default_def)
next
  case (snoc s samples)
  then show ?case using session_step_recordable by (cases s) (simp add: track_session_def)
qed

definition replayed :: "u64 \<Rightarrow> gesture_event list \<Rightarrow> (u64 \<times> gesture_event) list" where
  "replayed origin es = map (\<lambda>e. (origin + ucast (ev_reference_tick e), e)) es"

lemma record_at:
  fixes origin :: u64
  assumes "unat origin + unat (ev_reference_tick e) < 2 ^ 64"
    and "trk_origin_tick t = Some origin \<or> trk_origin_tick t = None \<and> ev_reference_tick e = 0"
    and "validator_accept (trk_validator t) e = Inr v"
  shows "track_record_accepted t (origin + ucast (ev_reference_tick e)) e =
    (if MAX_GESTURE_EVENTS \<le> length (trk_events t) then Inr (t\<lparr>trk_truncated := True\<rparr>, False)
     else Inr (t\<lparr>trk_origin_tick := Some origin, trk_events := trk_events t @ [e], trk_validator := v\<rparr>, True))"
proof -
  let ?a = "origin + ucast (ev_reference_tick e)"
  have u: "unat ?a = unat origin + unat (ev_reference_tick e)"
    using assms(1) by (simp add: unat_word_ariths unat_ucast_up)
  have o': "(case trk_origin_tick t of Some o' \<Rightarrow> o' | None \<Rightarrow> ?a) = origin" using assms(2) by auto
  have "\<not> ?a < origin" using u by (simp add: word_less_nat_alt)
  moreover have "\<not> 2 ^ 32 \<le> unat (?a - origin)" "ucast (?a - origin) = ev_reference_tick e"
    using unat_lt2p [of "ev_reference_tick e"] by (simp_all add: unat_ucast_up word_unat_eq_iff unat_ucast)
  ultimately show ?thesis
    using assms(3) by (simp add: track_record_accepted_def o' Let_def event_at_same)
qed

lemma session_of_events:
  "validator_accept_all validator_default es = Inr v \<Longrightarrow> length es \<le> MAX_GESTURE_EVENTS \<Longrightarrow>
   (es \<noteq> [] \<Longrightarrow> ev_reference_tick (hd es) = 0 \<and> unat origin + unat (ev_reference_tick (last es)) < 2 ^ 64) \<Longrightarrow>
   track_session (replayed origin es) = \<lparr>trk_origin_tick = (if es = [] then None else Some origin), trk_events = es,
     trk_truncated = False, trk_validator = v\<rparr>"
proof (induction es arbitrary: v rule: rev_induct)
  case Nil
  then show ?case by (simp add: track_session_def replayed_def track_default_def)
next
  case (snoc e es)
  obtain u where u: "validator_accept_all validator_default es = Inr u" "validator_accept u e = Inr v"
    using snoc.prems(1) by (auto simp: accept_all_snoc rbind_Inr)
  have bound: "unat origin + unat (ev_reference_tick e) < 2 ^ 64" using snoc.prems(3) by simp
  have mono: "ev_reference_tick (last es) \<le> ev_reference_tick e" if "es \<noteq> []"
    using u that by (auto simp: accept_all_spec accept_Inr last_tick_of_def tick_after_def)
  have "track_session (replayed origin es) = \<lparr>trk_origin_tick = (if es = [] then None else Some origin), trk_events = es,
     trk_truncated = False, trk_validator = u\<rparr>"
  proof (rule snoc.IH [OF u(1)])
    assume "es \<noteq> []"
    then show "ev_reference_tick (hd es) = 0 \<and> unat origin + unat (ev_reference_tick (last es)) < 2 ^ 64"
      using snoc.prems(3) mono bound by (auto simp: word_le_nat_alt)
  qed (use snoc.prems(2) in simp)
  moreover have "track_session (replayed origin (es @ [e])) =
      track_session_step (track_session (replayed origin es)) (origin + ucast (ev_reference_tick e), e)"
    by (simp add: track_session_def replayed_def)
  ultimately show ?case
    using record_at [OF bound, of "track_session (replayed origin es)" v] u(2) snoc.prems(2,3) by auto
qed

text \<open>There is always a next event, so a full track can become a truncated one.\<close>

lemma next_event_exists:
  assumes "val_last_tick v = Some k"
  shows "\<exists>e w. validator_accept v e = Inr w \<and> ev_reference_tick e = k"
proof -
  define p where "p = (if stroke_open v 0 then PMove else PBegin)"
  let ?e = "\<lparr>ev_reference_tick = k, ev_stroke = 0, ev_phase = p, ev_mode = Push, ev_x = 0, ev_y = 0, ev_pressure = 0,
    ev_direction_x = 0, ev_direction_y = 0\<rparr>"
  let ?w = "\<lparr>val_open_strokes = val_open_strokes v OR bit_mask 0, val_last_tick = Some k\<rparr>"
  have "validator_accept v ?e = Inr ?w"
    using assms by (auto simp: accept_Inr p_def tick_after_def stroke_open_def bit_set_mask)
  then show ?thesis by (intro exI [of _ ?e] exI [of _ ?w]) simp
qed

lemma recordable_session:
  assumes R: "recordable t"
  shows "\<exists>samples. t = track_session samples"
proof -
  let ?es = "trk_events t" and ?o = "origin_or_zero t"
  let ?t = "t\<lparr>trk_truncated := False\<rparr>"
  have wf: "track_wf t" using R by (simp add: recordable_def)
  have "track_session (replayed ?o ?es) = \<lparr>trk_origin_tick = (if ?es = [] then None else Some ?o), trk_events = ?es,
     trk_truncated = False, trk_validator = trk_validator t\<rparr>"
    by (rule session_of_events) (use R wf in \<open>auto simp: track_wf_def recordable_def\<close>)
  also have "\<dots> = ?t" using wf by (cases t) (auto simp: track_wf_def origin_or_zero_def)
  finally have base: "track_session (replayed ?o ?es) = ?t" .
  show ?thesis
  proof (cases "trk_truncated t")
    case False
    then have "t = ?t" by (cases t) simp
    then show ?thesis using base by metis
  next
    case True
    then have full: "?es \<noteq> []" "length ?es = MAX_GESTURE_EVENTS"
      "unat ?o + unat (ev_reference_tick (last ?es)) < 2 ^ 64" using R by (auto simp: recordable_def split: if_splits)
    have "val_last_tick (trk_validator t) = Some (ev_reference_tick (last ?es))"
      using wf full(1) by (simp add: track_wf_def accept_all_spec last_tick_of_def validator_default_def)
    then obtain e w where e: "validator_accept (trk_validator t) e = Inr w" "ev_reference_tick e = ev_reference_tick (last ?es)"
      using next_event_exists by blast
    have "trk_origin_tick t = Some ?o" using wf full(1) by (auto simp: track_wf_def origin_or_zero_def)
    then have "track_record_accepted ?t (?o + ucast (ev_reference_tick e)) e = Inr (?t\<lparr>trk_truncated := True\<rparr>, False)"
      using record_at [of ?o e ?t w] e full by simp
    moreover have "?t\<lparr>trk_truncated := True\<rparr> = t" using True by (cases t) simp
    ultimately have "t = track_session (replayed ?o ?es @ [(?o + ucast (ev_reference_tick e), e)])"
      using base by (simp add: track_session_def)
    then show ?thesis by blast
  qed
qed

lemma recordable_iff: "(\<exists>samples. t = track_session samples) \<longleftrightarrow> recordable t"
  using recordable_session session_recordable by blast

section \<open>The document\<close>

lemma declared_count_wf: "track_wf t \<Longrightarrow> unat (declared_event_count t) = length (trk_events t)"
  by (simp add: declared_event_count_def track_wf_def MAX_GESTURE_EVENTS_def unat_of_nat)

lemma decode_iff_capture: "document_decode sha d = Inr t \<longleftrightarrow> track_wf t \<and> d = document_capture sha t"
proof
  assume a: "document_decode sha d = Inr t"
  then have c: "doc_version d = GESTURE_ALGORITHM_VERSION" "length (doc_events d) \<le> MAX_GESTURE_EVENTS"
    "unat (doc_event_count d) = length (doc_events d)" "doc_events d = [] \<longrightarrow> doc_origin_tick d = 0"
    by (auto simp: document_decode_def not_less split: if_splits)
  with a obtain v where v: "validator_accept_all validator_default (doc_events d) = Inr v"
    and t: "t = \<lparr>trk_origin_tick = (if doc_events d \<noteq> [] then Some (doc_origin_tick d) else None),
        trk_events = doc_events d, trk_truncated = doc_truncated d, trk_validator = v\<rparr>"
    and sum: "track_checksum_hex sha t = doc_checksum d"
    by (auto simp: document_decode_def rbind_Inr Let_def split: if_splits)
  have wf: "track_wf t" using v c(2) by (simp add: track_wf_def t)
  have "declared_event_count t = doc_event_count d"
    using declared_count_wf [OF wf] c(3) by (simp add: t word_unat_eq_iff)
  with wf sum c show "track_wf t \<and> d = document_capture sha t"
    by (cases d) (auto simp: document_capture_def origin_or_zero_def t)
next
  assume a: "track_wf t \<and> d = document_capture sha t"
  then have wf: "track_wf t" and d: "d = document_capture sha t" by auto
  have eq: "\<lparr>trk_origin_tick = (if trk_events t \<noteq> [] then Some (origin_or_zero t) else None),
      trk_events = trk_events t, trk_truncated = trk_truncated t, trk_validator = trk_validator t\<rparr> = t"
    using wf by (cases t) (auto simp: track_wf_def origin_or_zero_def)
  have z: "trk_events t = [] \<Longrightarrow> origin_or_zero t = 0" using wf by (simp add: track_wf_def origin_or_zero_def)
  have acc: "validator_accept_all validator_default (trk_events t) = Inr (trk_validator t)"
    and len: "\<not> MAX_GESTURE_EVENTS < length (trk_events t)"
    using wf by (auto simp: track_wf_def)
  show "document_decode sha d = Inr t"
    unfolding d document_decode_def document_capture_def gesture_document.simps Let_def
    using declared_count_wf [OF wf] acc len z by (simp only: eq rbind.simps) simp
qed

text \<open>C4. Capturing and decoding are inverse, and what can be recorded is known exactly.  A document decodes to a track
  exactly if it is the captured document of that track and the track is well-formed: its events pass the validator, there
  are at most 4096, and it has an origin exactly if it has events.  The tracks that recording sessions produce are the
  well-formed ones whose first event is at the origin, whose absolute ticks fit 64 bits, and that are truncated only at
  the cap.  So every recorded track survives its document, while the decoder also accepts some well-formed tracks
  that no session records.  Nothing is assumed of the digest.\<close>

theorem document_decode_iff_capture:
  "(document_decode sha d = Inr t \<longleftrightarrow> track_wf t \<and> d = document_capture sha t) \<and>
   ((\<exists>samples. t = track_session samples) \<longleftrightarrow> recordable t) \<and>
   document_decode sha (document_capture sha (track_session samples)) = Inr (track_session samples)"
  using session_recordable [of samples] by (simp add: decode_iff_capture recordable_iff recordable_def)

text \<open>A document whose only event is five ticks after its origin decodes, and no session records it.\<close>

lemma late_start_decodes:
  "\<exists>t. document_decode sha (document_capture sha t) = Inr t \<and> (\<nexists>samples. t = track_session samples)"
proof -
  let ?e = "sample_event\<lparr>ev_reference_tick := 5\<rparr>"
  let ?t = "\<lparr>trk_origin_tick = Some 900, trk_events = [?e], trk_truncated = False,
     trk_validator = \<lparr>val_open_strokes = 8, val_last_tick = Some 5\<rparr>\<rparr>"
  have "track_wf ?t"
    by (simp add: track_wf_def sample_event_def validator_accept_def validator_default_def MAX_ACTIVE_STROKES_def
        MAX_GESTURE_EVENTS_def open_stroke_count_def count_ones_def bit_mask_def Let_def)
  moreover have "\<not> recordable ?t" by (simp add: recordable_def)
  ultimately show ?thesis using decode_iff_capture recordable_iff by blast
qed

section \<open>The canonical byte stream\<close>

definition event_of_bytes :: "bytes \<Rightarrow> gesture_event" where
  "event_of_bytes bs = \<lparr>ev_reference_tick = u32_of_le (take 4 bs), ev_stroke = bs ! 4,
     ev_phase = the (phase_from_code (bs ! 5)), ev_mode = the (mode_from_code (bs ! 6)),
     ev_x = u16_of_le (take 2 (drop 8 bs)), ev_y = u16_of_le (take 2 (drop 10 bs)),
     ev_pressure = u16_of_le (take 2 (drop 12 bs)), ev_direction_x = u16_of_le (take 2 (drop 14 bs)),
     ev_direction_y = u16_of_le (take 2 (drop 16 bs))\<rparr>"

lemma phase_code_inverse: "phase_from_code (phase_code p) = Some p"
  by (cases p) (simp_all add: phase_from_code_def)

lemma mode_code_inverse: "mode_from_code (mode_code m) = Some m"
  by (cases m) (simp_all add: mode_from_code_def)

interpretation event_codec: fixed_codec encode_event event_of_bytes 18
proof unfold_locales
  show "length (encode_event e) = 18" for e by (simp add: encode_event_def)
  show "event_of_bytes (encode_event e) = e" for e
    by (cases e) (simp add: encode_event_def event_of_bytes_def nth_append phase_code_inverse
        mode_code_inverse)
qed simp

lemma flags_truncated: "bit (track_flags t) 0 \<longleftrightarrow> trk_truncated t"
  by (auto simp: track_flags_def GESTURE_FLAG_TRUNCATED_def GESTURE_FLAG_INCOMPLETE_def bit_simps)

text \<open>The hashed byte stream determines the recording: two well-formed tracks with the same
  canonical bytes are the same track, except that an empty track hashes its missing origin as
  zero.  Domain, version, flags, origin and count have fixed widths, an event has 18 bytes.\<close>

theorem canonical_bytes_injective:
  assumes "track_wf t" and "track_wf u" and "track_canonical_bytes t = track_canonical_bytes u"
  shows "t = u"
proof -
  have eqs: "track_flags t = track_flags u" "origin_or_zero t = origin_or_zero u"
    "concat (map encode_event (trk_events t)) = concat (map encode_event (trk_events u))"
    using assms(3)
    by (simp_all only: track_canonical_bytes_def same_append_eq u16_codec.enc_append_inj
        u64_codec.enc_append_inj u32_codec.enc_append_inj)
  have ev: "trk_events t = trk_events u" using eqs(3) by (rule event_codec.concat_enc_inj)
  have none: "trk_origin_tick t = None \<longleftrightarrow> trk_origin_tick u = None"
    using assms(1,2) by (simp only: track_wf_def ev)
  have or: "trk_origin_tick t = trk_origin_tick u"
    using none eqs(2)
    by (cases "trk_origin_tick t"; cases "trk_origin_tick u") (simp_all add: origin_or_zero_def)
  have va: "trk_validator t = trk_validator u"
  proof -
    have "Inr (trk_validator t) = (Inr (trk_validator u) :: gesture_error + gesture_validator)"
      using assms(1,2) by (simp only: track_wf_def ev)
    then show ?thesis by (rule sum.inject(2) [THEN iffD1])
  qed
  have tr: "trk_truncated t = trk_truncated u"
    using flags_truncated [of t] flags_truncated [of u] by (simp only: eqs(1))
  show ?thesis by (rule gesture_track.equality) (simp_all only: or ev tr va, simp)
qed

theorem canonical_bytes_injective_witness:
  "track_canonical_bytes sample_track \<noteq> track_canonical_bytes (sample_track\<lparr>trk_origin_tick := Some 901\<rparr>)"
proof -
  have "track_wf (sample_track\<lparr>trk_origin_tick := Some 901\<rparr>)"
    using sample_track_wf by (simp add: track_wf_def sample_track_def)
  then show ?thesis
    using canonical_bytes_injective [OF sample_track_wf, of "sample_track\<lparr>trk_origin_tick := Some 901\<rparr>"]
    by (auto simp: sample_track_def)
qed

section \<open>Replay\<close>

text \<open>Draining a list of reference ticks, one frame after the other.\<close>

fun replay_all :: "gesture_replay \<Rightarrow> u32 list \<Rightarrow> gesture_replay \<times> gesture_event list" where
  "replay_all r [] = (r, [])"
| "replay_all r (t # ts) =
     (case events_due r t of (r', out) \<Rightarrow> case replay_all r' ts of (r'', rest) \<Rightarrow> (r'', out @ rest))"

lemma advance_cursor_mono: "c \<le> length es \<Longrightarrow> c \<le> advance_cursor es t c \<and> advance_cursor es t c \<le> length es"
proof (induction es t c rule: advance_cursor.induct)
  case (1 es t c)
  show ?case
  proof (cases "c < length es \<and> ev_reference_tick (es ! c) \<le> t")
    case True
    with "1" have "c + 1 \<le> advance_cursor es t (c + 1) \<and> advance_cursor es t (c + 1) \<le> length es"
      by auto
    with True show ?thesis by (simp add: advance_cursor.simps [of es t c])
  next
    case False
    with "1.prems" show ?thesis by (auto simp: advance_cursor.simps [of es t c])
  qed
qed

lemma advance_cursor_skips:
  "c \<le> i \<Longrightarrow> i < advance_cursor es t c \<Longrightarrow> ev_reference_tick (es ! i) \<le> t"
proof (induction es t c rule: advance_cursor.induct)
  case (1 es t c)
  then show ?case
    by (cases "c < length es \<and> ev_reference_tick (es ! c) \<le> t"; cases "i = c")
      (auto simp: advance_cursor.simps [of es t c] split: if_splits)
qed

lemma advance_cursor_stops:
  "advance_cursor es t c < length es \<Longrightarrow> t < ev_reference_tick (es ! advance_cursor es t c)"
proof (induction es t c rule: advance_cursor.induct)
  case (1 es t c)
  show ?case
  proof (cases "c < length es \<and> ev_reference_tick (es ! c) \<le> t")
    case True
    then have e: "advance_cursor es t c = advance_cursor es t (c + 1)"
      by (simp add: advance_cursor.simps [of es t c])
    show ?thesis using "1" True by (simp add: e)
  next
    case False
    then have "advance_cursor es t c = c" by (auto simp: advance_cursor.simps [of es t c])
    with False "1.prems" show ?thesis by auto
  qed
qed

lemma replay_all_take:
  "rp_cursor r \<le> length (rp_events r) \<Longrightarrow> replay_all r ts = (r', out) \<Longrightarrow>
   rp_events r' = rp_events r \<and> rp_cursor r \<le> rp_cursor r' \<and> rp_cursor r' \<le> length (rp_events r) \<and>
   out = take (rp_cursor r' - rp_cursor r) (drop (rp_cursor r) (rp_events r))"
proof (induction ts arbitrary: r out)
  case (Cons t ts)
  let ?c = "advance_cursor (rp_events r) t (rp_cursor r)"
  let ?r1 = "r\<lparr>rp_cursor := ?c\<rparr>"
  obtain rest where rest: "replay_all ?r1 ts = (r', rest)"
    and out: "out = take (?c - rp_cursor r) (drop (rp_cursor r) (rp_events r)) @ rest"
    using Cons.prems(2) by (auto simp: events_due_def Let_def split: prod.splits)
  have m: "rp_cursor r \<le> ?c" "?c \<le> length (rp_events r)"
    using advance_cursor_mono [OF Cons.prems(1)] by auto
  have ih: "rp_events r' = rp_events r \<and> ?c \<le> rp_cursor r' \<and> rp_cursor r' \<le> length (rp_events r) \<and>
      rest = take (rp_cursor r' - ?c) (drop ?c (rp_events r))"
    using Cons.IH [OF _ rest] m by simp
  have "take (rp_cursor r' - rp_cursor r) (drop (rp_cursor r) (rp_events r)) =
      take (?c - rp_cursor r) (drop (rp_cursor r) (rp_events r)) @
      take (rp_cursor r' - ?c) (drop (?c - rp_cursor r) (drop (rp_cursor r) (rp_events r)))"
    using ih m take_add [of "?c - rp_cursor r" "rp_cursor r' - ?c" "drop (rp_cursor r) (rp_events r)"]
    by simp
  with ih m out show ?case by simp
qed simp

lemma ticks_from_sorted:
  "ticks_from l es \<Longrightarrow> sorted (map ev_reference_tick es) \<and> (\<forall>e \<in> set es. tick_after l (ev_reference_tick e))"
proof (induction es arbitrary: l)
  case (Cons e es)
  have "sorted (map ev_reference_tick es)" "\<forall>x \<in> set es. ev_reference_tick e \<le> ev_reference_tick x"
    "tick_after l (ev_reference_tick e)"
    using Cons.prems Cons.IH [of "Some (ev_reference_tick e)"] by (simp_all add: tick_after_def)
  then show ?case by (auto simp: tick_after_def split: option.splits intro: order_trans)
qed simp

lemma track_wf_sorted: "track_wf t \<Longrightarrow> sorted (map ev_reference_tick (trk_events t))"
  using ticks_from_sorted by (auto simp: track_wf_def accept_all_spec)

lemma filter_sorted_take:
  assumes "sorted (map f es)" "c \<le> length es" "\<And>i. i < c \<Longrightarrow> f (es ! i) \<le> m"
    and "c < length es \<Longrightarrow> m < f (es ! c)"
  shows "filter (\<lambda>e. f e \<le> m) es = take c es"
proof -
  have t: "\<forall>e \<in> set (take c es). f e \<le> m" using assms(2,3) by (auto simp: in_set_conv_nth)
  have d: "\<forall>e \<in> set (drop c es). \<not> f e \<le> m"
  proof
    fix e assume "e \<in> set (drop c es)"
    then obtain j where j: "j < length es - c" "e = es ! (c + j)" by (auto simp: in_set_conv_nth)
    then have "f (es ! c) \<le> f e" using sorted_nth_mono [OF assms(1), of c "c + j"] by simp
    moreover have "m < f (es ! c)" using j assms(4) by simp
    ultimately show "\<not> f e \<le> m" by simp
  qed
  have "filter (\<lambda>e. f e \<le> m) (take c es @ drop c es) = take c es"
    using t d by (simp add: filter_True filter_False del: append_take_drop_id)
  then show ?thesis by simp
qed

lemma replay_all_bounds:
  assumes "sorted (map ev_reference_tick (rp_events r))"
  shows "rp_cursor r \<le> length (rp_events r) \<Longrightarrow> replay_all r ts = (r', out) \<Longrightarrow>
    (\<forall>i. rp_cursor r \<le> i \<and> i < rp_cursor r' \<longrightarrow> (\<exists>t \<in> set ts. ev_reference_tick (rp_events r ! i) \<le> t)) \<and>
    (rp_cursor r' < length (rp_events r) \<longrightarrow> (\<forall>t \<in> set ts. t < ev_reference_tick (rp_events r ! rp_cursor r')))"
  using assms
proof (induction ts arbitrary: r out)
  case (Cons t ts)
  let ?c = "advance_cursor (rp_events r) t (rp_cursor r)"
  let ?r1 = "r\<lparr>rp_cursor := ?c\<rparr>"
  obtain rest where rest: "replay_all ?r1 ts = (r', rest)"
    using Cons.prems(2) by (auto simp: events_due_def Let_def split: prod.splits)
  have m: "rp_cursor r \<le> ?c" "?c \<le> length (rp_events r)"
    using advance_cursor_mono [OF Cons.prems(1)] by auto
  have ih: "(\<forall>i. ?c \<le> i \<and> i < rp_cursor r' \<longrightarrow> (\<exists>t \<in> set ts. ev_reference_tick (rp_events r ! i) \<le> t)) \<and>
    (rp_cursor r' < length (rp_events r) \<longrightarrow> (\<forall>t \<in> set ts. t < ev_reference_tick (rp_events r ! rp_cursor r')))"
    using Cons.IH [OF _ rest] m Cons.prems(3) by simp
  have c': "?c \<le> rp_cursor r'" using replay_all_take [OF _ rest] m by simp
  have "t < ev_reference_tick (rp_events r ! rp_cursor r')" if "rp_cursor r' < length (rp_events r)"
  proof -
    have "t < ev_reference_tick (rp_events r ! ?c)" using advance_cursor_stops c' that by simp
    also have "\<dots> \<le> ev_reference_tick (rp_events r ! rp_cursor r')"
      using sorted_nth_mono [OF Cons.prems(3) c'] that c' by simp
    finally show ?thesis .
  qed
  moreover have "\<exists>u \<in> set (t # ts). ev_reference_tick (rp_events r ! i) \<le> u"
    if "rp_cursor r \<le> i" "i < rp_cursor r'" for i
    using ih that advance_cursor_skips [of "rp_cursor r" i "rp_events r" t] by (cases "i < ?c") auto
  ultimately show ?case using ih by auto
qed auto

text \<open>Replay is independent of the frame rate: however the reference ticks are grouped into frames,
  the events handed out, put together, are exactly the recorded events due by the largest tick, each
  once and in recorded order.\<close>

theorem replay_frame_rate_independent:
  assumes "track_wf t" and "ts \<noteq> []"
  shows "snd (replay_all (track_replay t) ts) =
    filter (\<lambda>e. ev_reference_tick e \<le> Max (set ts)) (trk_events t)"
proof -
  let ?r = "track_replay t"
  obtain r' out where run: "replay_all ?r ts = (r', out)" by fastforce
  have s: "sorted (map ev_reference_tick (rp_events ?r))"
    using track_wf_sorted [OF assms(1)] by (simp add: track_replay_def)
  have c0: "rp_cursor ?r \<le> length (rp_events ?r)" by (simp add: track_replay_def)
  note b = replay_all_bounds [OF s c0 run]
  have take: "out = take (rp_cursor r') (trk_events t)" "rp_cursor r' \<le> length (trk_events t)"
    using replay_all_take [OF c0 run] by (auto simp: track_replay_def)
  have "filter (\<lambda>e. ev_reference_tick e \<le> Max (set ts)) (trk_events t) = take (rp_cursor r') (trk_events t)"
  proof (rule filter_sorted_take [OF _ take(2)])
    show "sorted (map ev_reference_tick (trk_events t))" by (rule track_wf_sorted [OF assms(1)])
    show "ev_reference_tick (trk_events t ! i) \<le> Max (set ts)" if i: "i < rp_cursor r'" for i
    proof -
      obtain u where "u \<in> set ts" "ev_reference_tick (trk_events t ! i) \<le> u"
        using b i by (auto simp: track_replay_def)
      then show ?thesis by (meson List.finite_set Max_ge order_trans)
    qed
    show "Max (set ts) < ev_reference_tick (trk_events t ! rp_cursor r')"
      if "rp_cursor r' < length (trk_events t)"
      using b that assms(2) by (simp add: track_replay_def)
  qed
  with run take(1) show ?thesis by simp
qed

theorem replay_frame_rate_independent_witness:
  "snd (replay_all (track_replay sample_track) [0, 7]) = [sample_event]"
  using replay_frame_rate_independent [OF sample_track_wf, of "[0, 7]"]
  by (simp add: sample_track_def sample_event_def)

end
