(* ===== verification/History_Router.thy ===== *)
theory History_Router
  imports Gesture_Stream
begin

text \<open>
  The gesture router of \<open>src/src/history.rs\<close>: it turns the samples of a normalized gesture into
  the boundaries of one manual-history entry.  The open strokes are a 16-bit mask; identities are
  non-zero 64-bit numbers taken from a wrapping counter.
\<close>

section \<open>Origins and identities\<close>

datatype mutation_origin =
    BrowserManual | NativeManual | MMidi | MLfo | MAudio | MOsc | MClipTrigger
  | MCollisionScore | MAutomation

fun origin_is_manual :: "mutation_origin \<Rightarrow> bool" where
  "origin_is_manual BrowserManual = True"
| "origin_is_manual NativeManual = True"
| "origin_is_manual _ = False"

fun for_gesture_origin :: "gesture_origin \<Rightarrow> mutation_origin" where
  "for_gesture_origin NativePointer = NativeManual"
| "for_gesture_origin Phone = BrowserManual"
| "for_gesture_origin OMidi = MMidi"
| "for_gesture_origin OOsc = MOsc"

definition gesture_id_new :: "u64 \<Rightarrow> u64 option" where
  "gesture_id_new raw = (if raw = 0 then None else Some raw)"

section \<open>The router\<close>

datatype history_step = HIdle | HOpen u64 | HClose u64

record history_router =
  hr_open_strokes :: u16
  hr_entry :: "u64 option"
  hr_next_id :: u64

definition router_default :: history_router where
  "router_default = \<lparr>hr_open_strokes = 0, hr_entry = None, hr_next_id = 1\<rparr>"

definition stroke_mask :: "u8 \<Rightarrow> u16 option" where
  "stroke_mask stroke =
     (if unat stroke < MAX_ACTIVE_STROKES then Some (bit_mask (unat stroke)) else None)"

text \<open>The allocation loop: take the counter, advance it, retry only on the reserved zero.\<close>

function allocate_id :: "u64 \<Rightarrow> u64 \<times> u64" where
  "allocate_id raw = (case gesture_id_new raw of Some i \<Rightarrow> (raw + 1, i) | None \<Rightarrow> allocate_id (raw + 1))"
  by pat_completeness auto
termination
  by (relation "measure (\<lambda>raw. if raw = 0 then 1 else 0)") (auto simp: gesture_id_new_def split: if_splits)

declare allocate_id.simps [simp del]

definition router_observe ::
  "history_router \<Rightarrow> gesture_origin \<Rightarrow> gesture_phase \<Rightarrow> u8 \<Rightarrow> history_router \<times> history_step" where
  "router_observe r origin phase stroke =
     (if origin_is_automation origin then (r, HIdle)
      else case stroke_mask stroke of
        None \<Rightarrow> (r, HIdle)
      | Some bits \<Rightarrow>
        (case phase of
           PBegin \<Rightarrow>
             if hr_open_strokes r AND bits \<noteq> 0 then (r, HIdle)
             else let r' = r\<lparr>hr_open_strokes := hr_open_strokes r OR bits\<rparr> in
               if hr_entry r' \<noteq> None then (r', HIdle)
               else (case allocate_id (hr_next_id r') of (next', i) \<Rightarrow>
                       (r'\<lparr>hr_next_id := next', hr_entry := Some i\<rparr>, HOpen i))
         | PMove \<Rightarrow> (r, HIdle)
         | PEnd \<Rightarrow>
             if hr_open_strokes r AND bits = 0 then (r, HIdle)
             else let r' = r\<lparr>hr_open_strokes := hr_open_strokes r AND NOT bits\<rparr> in
               if hr_open_strokes r' \<noteq> 0 then (r', HIdle)
               else (case hr_entry r' of
                       Some i \<Rightarrow> (r'\<lparr>hr_entry := None\<rparr>, HClose i)
                     | None \<Rightarrow> (r', HIdle))))"

definition router_abandon :: "history_router \<Rightarrow> history_router \<times> u64 option" where
  "router_abandon r = (r\<lparr>hr_open_strokes := 0, hr_entry := None\<rparr>, hr_entry r)"

section \<open>Laws\<close>

lemma allocate_id_value: "allocate_id n = (if n = 0 then (2, 1) else (n + 1, n))"
  by (simp add: allocate_id.simps [of n] allocate_id.simps [of 1] gesture_id_new_def)

definition router_inv :: "history_router \<Rightarrow> bool" where
  "router_inv r \<longleftrightarrow> (hr_entry r \<noteq> None \<longleftrightarrow> hr_open_strokes r \<noteq> 0) \<and> hr_entry r \<noteq> Some 0"

lemma router_inv_default: "router_inv router_default"
  by (simp add: router_inv_def router_default_def)

lemma mask_or_nonzero: "n < 16 \<Longrightarrow> (w :: u16) OR bit_mask n \<noteq> 0"
proof
  assume "n < 16" "w OR bit_mask n = 0"
  then have "\<not> bit (w OR bit_mask n) n" by simp
  with \<open>n < 16\<close> show False by (simp only: bit_set_mask) simp
qed

type_synonym router_event = "gesture_origin \<times> gesture_phase \<times> u8"

definition router_step :: "history_router \<Rightarrow> router_event \<Rightarrow> history_router" where
  "router_step r e = (case e of (origin, phase, stroke) \<Rightarrow> fst (router_observe r origin phase stroke))"

fun router_outputs :: "history_router \<Rightarrow> router_event list \<Rightarrow> history_step list" where
  "router_outputs r [] = []"
| "router_outputs r ((origin, phase, stroke) # es) =
     (case router_observe r origin phase stroke of (r', out) \<Rightarrow> out # router_outputs r' es)"

text \<open>The history boundaries alone: \<open>alternates\<close> accepts Open i, Close i, Open j, Close j, \<open>\<dots>\<close>.\<close>

fun alternates :: "u64 option \<Rightarrow> history_step list \<Rightarrow> bool" where
  "alternates e [] = True"
| "alternates e (HIdle # os) = alternates e os"
| "alternates None (HOpen i # os) = (i \<noteq> 0 \<and> alternates (Some i) os)"
| "alternates (Some j) (HOpen i # os) = False"
| "alternates (Some j) (HClose i # os) = (i = j \<and> alternates None os)"
| "alternates None (HClose i # os) = False"

lemma observe_cases:
  assumes "router_inv r" and "router_observe r origin phase stroke = (r', out)"
  shows "router_inv r' \<and>
    (case out of HIdle \<Rightarrow> hr_entry r' = hr_entry r
     | HOpen i \<Rightarrow> i \<noteq> 0 \<and> hr_entry r = None \<and> hr_entry r' = Some i
     | HClose i \<Rightarrow> hr_entry r = Some i \<and> hr_entry r' = None \<and> hr_open_strokes r' = 0)"
  using assms mask_or_nonzero [of "unat stroke" "hr_open_strokes r"]
  by (auto simp: router_observe_def router_inv_def stroke_mask_def MAX_ACTIVE_STROKES_def
      allocate_id_value Let_def split: if_splits gesture_phase.splits option.splits)

interpretation router: invariant_machine router_step router_inv
proof unfold_locales
  show "router_inv (router_step r e)" if "router_inv r" for r e
  proof -
    obtain origin phase stroke where e: "e = (origin, phase, stroke)" by (cases e)
    obtain r' out where "router_observe r origin phase stroke = (r', out)" by fastforce
    with observe_cases [OF that this] show ?thesis by (simp add: e router_step_def)
  qed
qed

lemma router_outputs_alternate:
  "router_inv r \<Longrightarrow> alternates (hr_entry r) (router_outputs r es)"
proof (induction es arbitrary: r)
  case (Cons e es)
  obtain origin phase stroke where e: "e = (origin, phase, stroke)" by (cases e)
  obtain r' out where o: "router_observe r origin phase stroke = (r', out)" by fastforce
  note c = observe_cases [OF Cons.prems o]
  with Cons.IH [of r'] show ?case
    by (cases out; cases "hr_entry r") (auto simp: e o)
qed simp

lemma automation_inert:
  "filter (\<lambda>o'. o' \<noteq> HIdle) (router_outputs r es) =
   filter (\<lambda>o'. o' \<noteq> HIdle) (router_outputs r (filter (\<lambda>e. \<not> origin_is_automation (fst e)) es))"
proof (induction es arbitrary: r)
  case (Cons e es)
  obtain origin phase stroke where e: "e = (origin, phase, stroke)" by (cases e)
  show ?case
  proof (cases "origin_is_automation origin")
    case True
    then show ?thesis by (simp add: e router_observe_def Cons.IH)
  next
    case False
    then show ?thesis using Cons.IH by (auto simp: e split: prod.splits)
  qed
qed simp

section \<open>Properties\<close>

text \<open>One entry per gesture: whatever samples arrive, in any interleaving of origins, phases and
  stroke identities, the router opens an entry only when none is open and closes exactly the entry
  it opened, with non-zero identities; an entry is open exactly while some stroke is down; and the
  samples of MIDI and OSC surfaces change none of the boundaries.\<close>

theorem router_one_entry_per_gesture:
  "alternates None (router_outputs router_default es) \<and>
   (hr_entry (foldl router_step router_default es) \<noteq> None \<longleftrightarrow>
      hr_open_strokes (foldl router_step router_default es) \<noteq> 0) \<and>
   filter (\<lambda>o'. o' \<noteq> HIdle) (router_outputs router_default es) =
   filter (\<lambda>o'. o' \<noteq> HIdle)
     (router_outputs router_default (filter (\<lambda>e. \<not> origin_is_automation (fst e)) es))"
proof -
  have "router_inv (foldl router_step router_default es)"
    by (rule router.inv_run [OF router_inv_default])
  then show ?thesis
    using router_outputs_alternate [OF router_inv_default, of es] automation_inert [of router_default es]
    by (simp add: router_inv_def router_default_def)
qed

end
