(* ===== verification/Manual_History.thy ===== *)
theory Manual_History
  imports History_Router Rust_Text
begin

text \<open>
  The bounded undo/redo container of \<open>src/src/history.rs\<close>: checkpoints and their descriptors,
  the two stacks with their byte counters, the one open gesture and the one pending restore.
  A stack is a list with its oldest entry first (\<open>push_back\<close> appends, \<open>pop_front\<close> takes the
  head).  Every operation leaves the history as it was when it fails, so an operation returns
  either an error or the new history with its result.  SHA-256 is a parameter \<open>sha\<close>.
\<close>

section \<open>Limits, errors, checkpoints\<close>

definition HISTORY_MAX_ENTRIES :: nat where "HISTORY_MAX_ENTRIES = 128"
definition HISTORY_MAX_BYTES :: u64 where "HISTORY_MAX_BYTES = 64 * 1024 * 1024"
definition HISTORY_MAX_CHECKPOINT_BYTES :: u64 where "HISTORY_MAX_CHECKPOINT_BYTES = 8 * 1024 * 1024"
definition HISTORY_MAX_LABEL_BYTES :: nat where "HISTORY_MAX_LABEL_BYTES = 96"
definition HISTORY_MAX_CATEGORY_BYTES :: nat where "HISTORY_MAX_CATEGORY_BYTES = 32"

datatype history_error =
    InvalidLimits
  | CheckpointTooLarge u64 u64
  | EmptyLabel
  | LabelTooLong nat nat
  | InvalidLabel
  | EmptyCategory
  | CategoryTooLong nat nat
  | InvalidCategory
  | GestureAlreadyOpen u64 u64
  | GestureNotOpen
  | GestureMismatch u64 u64
  | RestorePending
  | NoRestorePending
  | StaleRestoreToken
  | RestoreTokenExhausted
  | RestoreDescriptorMismatch
  | RestoreStackChanged

record history_limits =
  lim_max_entries :: nat
  lim_max_bytes :: u64
  lim_max_checkpoint_bytes :: u64

definition limits_default :: history_limits where
  "limits_default = \<lparr>lim_max_entries = HISTORY_MAX_ENTRIES, lim_max_bytes = HISTORY_MAX_BYTES,
     lim_max_checkpoint_bytes = HISTORY_MAX_CHECKPOINT_BYTES\<rparr>"

definition limits_bounded :: "history_limits \<Rightarrow> history_error + history_limits" where
  "limits_bounded l =
     (if lim_max_entries l = 0 \<or> HISTORY_MAX_ENTRIES < lim_max_entries l
         \<or> lim_max_bytes l = 0 \<or> HISTORY_MAX_BYTES < lim_max_bytes l
         \<or> lim_max_checkpoint_bytes l = 0 \<or> HISTORY_MAX_CHECKPOINT_BYTES < lim_max_checkpoint_bytes l
         \<or> lim_max_bytes l < lim_max_checkpoint_bytes l
      then Inl InvalidLimits else Inr l)"

definition validate_label :: "rstr \<Rightarrow> history_error + unit" where
  "validate_label label =
     (if label = [] then Inl EmptyLabel
      else if HISTORY_MAX_LABEL_BYTES < str_len label
        then Inl (LabelTooLong (str_len label) HISTORY_MAX_LABEL_BYTES)
      else if str_trim label \<noteq> label \<or> list_ex char_is_control label then Inl InvalidLabel
      else Inr ())"

definition validate_category :: "rstr \<Rightarrow> history_error + unit" where
  "validate_category category =
     (if category = [] then Inl EmptyCategory
      else if HISTORY_MAX_CATEGORY_BYTES < str_len category
        then Inl (CategoryTooLong (str_len category) HISTORY_MAX_CATEGORY_BYTES)
      else if \<not> list_all (\<lambda>b. is_ascii_lowercase b \<or> is_ascii_digit b \<or> b = 45 \<or> b = 95) (utf8 category)
        then Inl InvalidCategory
      else Inr ())"

record 'a history_checkpoint =
  hc_state :: 'a
  hc_fingerprint :: bytes
  hc_bytes :: u64
  hc_label :: rstr
  hc_category :: rstr

definition checkpoint_from_canonical ::
  "(bytes \<Rightarrow> bytes) \<Rightarrow> 'a \<Rightarrow> bytes \<Rightarrow> rstr \<Rightarrow> rstr \<Rightarrow> history_error + 'a history_checkpoint" where
  "checkpoint_from_canonical sha st canonical label category =
     (let n = (if length canonical < 2 ^ 64 then of_nat (length canonical) else - 1) in
      if HISTORY_MAX_CHECKPOINT_BYTES < n
        then Inl (CheckpointTooLarge n HISTORY_MAX_CHECKPOINT_BYTES)
      else rbind (validate_label label) (\<lambda>_. rbind (validate_category category) (\<lambda>_.
        Inr \<lparr>hc_state = st, hc_fingerprint = sha canonical, hc_bytes = n, hc_label = label,
             hc_category = category\<rparr>)))"

section \<open>The container\<close>

datatype record_outcome = Recorded | NoChange | IgnoredNonManual | Cancelled
datatype restore_direction = Undo | Redo

record 'a open_gesture =
  og_id :: u64
  og_origin :: mutation_origin
  og_before :: "'a history_checkpoint"

record pending_restore =
  pr_token :: u64
  pr_direction :: restore_direction
  pr_target_fingerprint :: bytes

record 'a restore_candidate =
  rc_token :: u64
  rc_direction :: restore_direction
  rc_target :: "'a history_checkpoint"

record 'a manual_history =
  mh_limits :: history_limits
  mh_undo :: "'a history_checkpoint list"
  mh_redo :: "'a history_checkpoint list"
  mh_undo_bytes :: u64
  mh_redo_bytes :: u64
  mh_open :: "'a open_gesture option"
  mh_pending :: "pending_restore option"
  mh_next_restore_token :: u64
  mh_generation :: u64

definition with_limits :: "history_limits \<Rightarrow> history_error + 'a manual_history" where
  "with_limits l = rbind (limits_bounded l) (\<lambda>l'. Inr
     \<lparr>mh_limits = l', mh_undo = [], mh_redo = [], mh_undo_bytes = 0, mh_redo_bytes = 0,
      mh_open = None, mh_pending = None, mh_next_restore_token = 1, mh_generation = 1\<rparr>)"

definition validate_checkpoint :: "'a manual_history \<Rightarrow> 'a history_checkpoint \<Rightarrow> history_error + unit"
  where
  "validate_checkpoint h c =
     (if lim_max_checkpoint_bytes (mh_limits h) < hc_bytes c
      then Inl (CheckpointTooLarge (hc_bytes c) (lim_max_checkpoint_bytes (mh_limits h)))
      else Inr ())"

definition bump_generation :: "'a manual_history \<Rightarrow> 'a manual_history" where
  "bump_generation h = h\<lparr>mh_generation := bump (mh_generation h)\<rparr>"

definition clear_redo :: "'a manual_history \<Rightarrow> 'a manual_history" where
  "clear_redo h = h\<lparr>mh_redo := [], mh_redo_bytes := 0\<rparr>"

definition push_undo :: "'a manual_history \<Rightarrow> 'a history_checkpoint \<Rightarrow> 'a manual_history" where
  "push_undo h c = h\<lparr>mh_undo_bytes := sat_add (mh_undo_bytes h) (hc_bytes c),
     mh_undo := mh_undo h @ [c]\<rparr>"

definition allocate_restore_token :: "'a manual_history \<Rightarrow> history_error + ('a manual_history \<times> u64)"
  where
  "allocate_restore_token h =
     (let raw = mh_next_restore_token h in
      if raw = 0 then Inl RestoreTokenExhausted
      else Inr (h\<lparr>mh_next_restore_token := (case checked_add raw 1 of Some n \<Rightarrow> n | None \<Rightarrow> 0)\<rparr>, raw))"

text \<open>The body of both eviction loops: the oldest undo entry goes first, then the oldest redo
  entry; with both stacks empty the loop breaks.\<close>

definition pop_oldest :: "'a manual_history \<Rightarrow> 'a manual_history option" where
  "pop_oldest h =
     (case mh_undo h of
        removed # rest \<Rightarrow>
          Some (h\<lparr>mh_undo := rest, mh_undo_bytes := sat_sub (mh_undo_bytes h) (hc_bytes removed)\<rparr>)
      | [] \<Rightarrow>
        (case mh_redo h of
           removed # rest \<Rightarrow>
             Some (h\<lparr>mh_redo := rest, mh_redo_bytes := sat_sub (mh_redo_bytes h) (hc_bytes removed)\<rparr>)
         | [] \<Rightarrow> None))"

lemma pop_oldest_shrinks:
  "pop_oldest h = Some h' \<Longrightarrow>
   length (mh_undo h') + length (mh_redo h') < length (mh_undo h) + length (mh_redo h)"
  by (auto simp: pop_oldest_def split: list.splits)

function evict_while :: "('a manual_history \<Rightarrow> bool) \<Rightarrow> 'a manual_history \<Rightarrow> 'a manual_history" where
  "evict_while over h =
     (if over h then (case pop_oldest h of Some h' \<Rightarrow> evict_while over h' | None \<Rightarrow> h) else h)"
  by pat_completeness auto
termination
  by (relation "measure (\<lambda>(over, h). length (mh_undo h) + length (mh_redo h))")
    (auto dest: pop_oldest_shrinks)

declare evict_while.simps [simp del]

definition over_limits :: "'a manual_history \<Rightarrow> bool" where
  "over_limits h \<longleftrightarrow> lim_max_entries (mh_limits h) < length (mh_undo h) + length (mh_redo h)
     \<or> lim_max_bytes (mh_limits h) < sat_add (mh_undo_bytes h) (mh_redo_bytes h)"

definition trim_to_limits :: "'a manual_history \<Rightarrow> 'a manual_history" where
  "trim_to_limits h = evict_while over_limits h"

definition over_with_open :: "u64 \<Rightarrow> 'a manual_history \<Rightarrow> bool" where
  "over_with_open open_bytes h \<longleftrightarrow>
     lim_max_entries (mh_limits h) < length (mh_undo h) + length (mh_redo h) + 1
     \<or> lim_max_bytes (mh_limits h) < sat_add (sat_add (mh_undo_bytes h) (mh_redo_bytes h)) open_bytes"

definition make_room_for_open :: "u64 \<Rightarrow> 'a manual_history \<Rightarrow> 'a manual_history" where
  "make_room_for_open open_bytes h = evict_while (over_with_open open_bytes) h"

section \<open>Operations\<close>

definition begin_gesture ::
  "'a manual_history \<Rightarrow> u64 \<Rightarrow> mutation_origin \<Rightarrow> 'a history_checkpoint \<Rightarrow>
   history_error + ('a manual_history \<times> record_outcome)" where
  "begin_gesture h i origin before =
     (if \<not> origin_is_manual origin then Inr (h, IgnoredNonManual)
      else if mh_pending h \<noteq> None then Inl RestorePending
      else case mh_open h of
        Some g \<Rightarrow> Inl (GestureAlreadyOpen (og_id g) i)
      | None \<Rightarrow> rbind (validate_checkpoint h before) (\<lambda>_.
          let h1 = make_room_for_open (hc_bytes before) h;
              h2 = h1\<lparr>mh_open := Some \<lparr>og_id = i, og_origin = origin, og_before = before\<rparr>\<rparr>
          in Inr (bump_generation h2, Recorded)))"

definition finish_gesture ::
  "'a manual_history \<Rightarrow> u64 \<Rightarrow> bytes \<Rightarrow> history_error + ('a manual_history \<times> record_outcome)" where
  "finish_gesture h i after_fingerprint =
     (if mh_pending h \<noteq> None then Inl RestorePending
      else case mh_open h of
        None \<Rightarrow> Inl GestureNotOpen
      | Some g \<Rightarrow>
          if og_id g \<noteq> i then Inl (GestureMismatch (og_id g) i)
          else let h1 = h\<lparr>mh_open := None\<rparr> in
            if hc_fingerprint (og_before g) = after_fingerprint then Inr (bump_generation h1, NoChange)
            else Inr (bump_generation (trim_to_limits (push_undo (clear_redo h1) (og_before g))), Recorded))"

definition cancel_gesture ::
  "'a manual_history \<Rightarrow> u64 \<Rightarrow> history_error + ('a manual_history \<times> record_outcome)" where
  "cancel_gesture h i =
     (if mh_pending h \<noteq> None then Inl RestorePending
      else case mh_open h of
        None \<Rightarrow> Inl GestureNotOpen
      | Some g \<Rightarrow>
          if og_id g \<noteq> i then Inl (GestureMismatch (og_id g) i)
          else Inr (bump_generation (h\<lparr>mh_open := None\<rparr>), Cancelled))"

definition record_manual ::
  "'a manual_history \<Rightarrow> mutation_origin \<Rightarrow> 'a history_checkpoint \<Rightarrow> bytes \<Rightarrow>
   history_error + ('a manual_history \<times> record_outcome)" where
  "record_manual h origin before after_fingerprint =
     (if \<not> origin_is_manual origin then Inr (h, IgnoredNonManual)
      else if mh_pending h \<noteq> None then Inl RestorePending
      else case mh_open h of
        Some g \<Rightarrow> Inl (GestureAlreadyOpen (og_id g) (og_id g))
      | None \<Rightarrow> rbind (validate_checkpoint h before) (\<lambda>_.
          if hc_fingerprint before = after_fingerprint then Inr (h, NoChange)
          else Inr (bump_generation (trim_to_limits (push_undo (clear_redo h) before)), Recorded)))"

definition stack_back :: "'a manual_history \<Rightarrow> restore_direction \<Rightarrow> 'a history_checkpoint option" where
  "stack_back h d =
     (let s = (case d of Undo \<Rightarrow> mh_undo h | Redo \<Rightarrow> mh_redo h) in if s = [] then None else Some (last s))"

definition prepare_restore ::
  "'a manual_history \<Rightarrow> restore_direction \<Rightarrow>
   history_error + ('a manual_history \<times> 'a restore_candidate option)" where
  "prepare_restore h d =
     (if mh_pending h \<noteq> None then Inl RestorePending
      else case mh_open h of
        Some g \<Rightarrow> Inl (GestureAlreadyOpen (og_id g) (og_id g))
      | None \<Rightarrow>
        (case stack_back h d of
           None \<Rightarrow> Inr (h, None)
         | Some target \<Rightarrow>
             rbind (allocate_restore_token h) (\<lambda>(h1, token).
               let h2 = h1\<lparr>mh_pending := Some \<lparr>pr_token = token, pr_direction = d,
                             pr_target_fingerprint = hc_fingerprint target\<rparr>\<rparr>
               in Inr (bump_generation h2,
                       Some \<lparr>rc_token = token, rc_direction = d, rc_target = target\<rparr>))))"

definition reject_restore :: "'a manual_history \<Rightarrow> u64 \<Rightarrow> history_error + 'a manual_history" where
  "reject_restore h token =
     (case mh_pending h of
        None \<Rightarrow> Inl NoRestorePending
      | Some p \<Rightarrow>
          if pr_token p \<noteq> token then Inl StaleRestoreToken
          else Inr (bump_generation (h\<lparr>mh_pending := None\<rparr>)))"

definition commit_restore ::
  "'a manual_history \<Rightarrow> u64 \<Rightarrow> 'a history_checkpoint \<Rightarrow> history_error + 'a manual_history" where
  "commit_restore h token current =
     (case mh_pending h of
        None \<Rightarrow> Inl NoRestorePending
      | Some p \<Rightarrow>
          if pr_token p \<noteq> token then Inl StaleRestoreToken
          else rbind (validate_checkpoint h current) (\<lambda>_.
            case stack_back h (pr_direction p) of
              None \<Rightarrow> Inl RestoreStackChanged
            | Some target \<Rightarrow>
                if hc_fingerprint target \<noteq> pr_target_fingerprint p then Inl RestoreStackChanged
                else if hc_label target \<noteq> hc_label current \<or> hc_category target \<noteq> hc_category current
                  then Inl RestoreDescriptorMismatch
                else let h1 = h\<lparr>mh_pending := None\<rparr>;
                  h2 = (case pr_direction p of
                      Undo \<Rightarrow> h1\<lparr>mh_undo := butlast (mh_undo h1),
                        mh_undo_bytes := sat_sub (mh_undo_bytes h1) (hc_bytes target),
                        mh_redo_bytes := sat_add (mh_redo_bytes h1) (hc_bytes current),
                        mh_redo := mh_redo h1 @ [current]\<rparr>
                    | Redo \<Rightarrow> h1\<lparr>mh_redo := butlast (mh_redo h1),
                        mh_redo_bytes := sat_sub (mh_redo_bytes h1) (hc_bytes target),
                        mh_undo_bytes := sat_add (mh_undo_bytes h1) (hc_bytes current),
                        mh_undo := mh_undo h1 @ [current]\<rparr>)
                in Inr (bump_generation (trim_to_limits h2))))"

record history_metrics =
  met_can_undo :: bool
  met_can_redo :: bool
  met_undo_depth :: nat
  met_redo_depth :: nat
  met_bytes :: u64
  met_max_entries :: nat
  met_max_bytes :: u64
  met_gesture_open :: bool
  met_restore_pending :: bool
  met_generation :: u64

definition history_metrics_of :: "'a manual_history \<Rightarrow> history_metrics" where
  "history_metrics_of h =
     (let blocked = mh_open h \<noteq> None \<or> mh_pending h \<noteq> None in
      \<lparr>met_can_undo = (\<not> blocked \<and> mh_undo h \<noteq> []), met_can_redo = (\<not> blocked \<and> mh_redo h \<noteq> []),
       met_undo_depth = length (mh_undo h), met_redo_depth = length (mh_redo h),
       met_bytes = sat_add (sat_add (mh_undo_bytes h) (mh_redo_bytes h))
         (case mh_open h of None \<Rightarrow> 0 | Some g \<Rightarrow> hc_bytes (og_before g)),
       met_max_entries = lim_max_entries (mh_limits h), met_max_bytes = lim_max_bytes (mh_limits h),
       met_gesture_open = (mh_open h \<noteq> None), met_restore_pending = (mh_pending h \<noteq> None),
       met_generation = mh_generation h\<rparr>)"

end
