(* ===== verification/Manual_History_Laws.thy ===== *)
theory Manual_History_Laws
  imports Manual_History
begin

text \<open>
  What the undo/redo container promises: exact byte accounting inside the configured bounds in
  every run, eviction of the oldest entries and of no more than necessary, undo and redo as
  inverse moves along one line of checkpoints, single-use restore tokens, and indifference to
  mutations that no person made.
\<close>

section \<open>Well-formed histories\<close>

definition limits_ok :: "history_limits \<Rightarrow> bool" where
  "limits_ok l \<longleftrightarrow> 1 \<le> lim_max_entries l \<and> lim_max_entries l \<le> 128 \<and>
     unat (lim_max_bytes l) \<le> 67108864 \<and> unat (lim_max_checkpoint_bytes l) \<le> 8388608 \<and>
     unat (lim_max_checkpoint_bytes l) \<le> unat (lim_max_bytes l)"

lemma limits_bounded_ok: "limits_bounded l = Inr l' \<longleftrightarrow> l' = l \<and> limits_ok l \<and>
     lim_max_bytes l \<noteq> 0 \<and> lim_max_checkpoint_bytes l \<noteq> 0"
  by (auto simp: limits_bounded_def limits_ok_def HISTORY_MAX_ENTRIES_def HISTORY_MAX_BYTES_def
      HISTORY_MAX_CHECKPOINT_BYTES_def word_less_nat_alt)

abbreviation bytes_of :: "'a history_checkpoint list \<Rightarrow> nat" where
  "bytes_of cs \<equiv> unat_sum hc_bytes cs"

text \<open>The two stacks with exact counters and checkpoints within the size limit.\<close>

definition stacks_ok :: "'a manual_history \<Rightarrow> bool" where
  "stacks_ok h \<longleftrightarrow> limits_ok (mh_limits h) \<and>
     unat (mh_undo_bytes h) = bytes_of (mh_undo h) \<and> unat (mh_redo_bytes h) = bytes_of (mh_redo h) \<and>
     (\<forall>c \<in> set (mh_undo h) \<union> set (mh_redo h).
        unat (hc_bytes c) \<le> unat (lim_max_checkpoint_bytes (mh_limits h))) \<and>
     length (mh_undo h) + length (mh_redo h) \<le> 256"

lemma bytes_of_le: "\<forall>c \<in> set cs. unat (hc_bytes c) \<le> k \<Longrightarrow> bytes_of cs \<le> length cs * k"
  by (induction cs) auto

lemma stacks_bytes_small:
  assumes "stacks_ok h"
  shows "bytes_of (mh_undo h) + bytes_of (mh_redo h) \<le> 2147483648"
proof -
  let ?k = "unat (lim_max_checkpoint_bytes (mh_limits h))"
  have "bytes_of (mh_undo h) + bytes_of (mh_redo h) \<le> length (mh_undo h) * ?k + length (mh_redo h) * ?k"
    using assms by (intro add_mono bytes_of_le) (auto simp: stacks_ok_def)
  also have "\<dots> = (length (mh_undo h) + length (mh_redo h)) * ?k" by (simp add: add_mult_distrib)
  also have "\<dots> \<le> 256 * 8388608"
    using assms by (intro mult_le_mono) (auto simp: stacks_ok_def limits_ok_def)
  finally show ?thesis by simp
qed

lemma stacks_counters:
  assumes "stacks_ok h"
  shows "unat (sat_add (mh_undo_bytes h) (mh_redo_bytes h)) = bytes_of (mh_undo h) + bytes_of (mh_redo h)"
    and "unat b \<le> 8388608 \<Longrightarrow> unat (sat_add (sat_add (mh_undo_bytes h) (mh_redo_bytes h)) b) =
      bytes_of (mh_undo h) + bytes_of (mh_redo h) + unat b"
proof -
  show *: "unat (sat_add (mh_undo_bytes h) (mh_redo_bytes h)) = bytes_of (mh_undo h) + bytes_of (mh_redo h)"
    using assms stacks_bytes_small [OF assms] by (subst unat_sat_add_small) (auto simp: stacks_ok_def)
  show "unat (sat_add (sat_add (mh_undo_bytes h) (mh_redo_bytes h)) b) =
      bytes_of (mh_undo h) + bytes_of (mh_redo h) + unat b" if "unat b \<le> 8388608"
    using that stacks_bytes_small [OF assms] by (subst unat_sat_add_small) (auto simp: *)
qed

section \<open>Eviction\<close>

text \<open>The specification: forget the \<open>k\<close> oldest entries of undo followed by redo.\<close>

definition drop_oldest :: "nat \<Rightarrow> 'a manual_history \<Rightarrow> 'a manual_history" where
  "drop_oldest k h = (let u = drop k (mh_undo h); r = drop (k - length (mh_undo h)) (mh_redo h) in
     h\<lparr>mh_undo := u, mh_redo := r, mh_undo_bytes := of_nat (bytes_of u), mh_redo_bytes := of_nat (bytes_of r)\<rparr>)"

lemma stacks_ok_words:
  "stacks_ok h \<Longrightarrow> mh_undo_bytes h = of_nat (bytes_of (mh_undo h))"
  "stacks_ok h \<Longrightarrow> mh_redo_bytes h = of_nat (bytes_of (mh_redo h))"
  by (metis stacks_ok_def word_of_nat_unat)+

lemma drop_oldest_0: "stacks_ok h \<Longrightarrow> drop_oldest 0 h = h"
  using stacks_ok_words [of h] by (cases h) (simp add: drop_oldest_def)

lemma drop_oldest_stacks_ok:
  assumes "stacks_ok h"
  shows "stacks_ok (drop_oldest k h)"
proof -
  have sub: "bytes_of (drop j cs) \<le> bytes_of cs" for j and cs :: "'a history_checkpoint list"
    by (metis append_take_drop_id le_add2 map_append sum_list_append)
  have "bytes_of (mh_undo h) < 2 ^ 64" "bytes_of (mh_redo h) < 2 ^ 64"
    using stacks_bytes_small [OF assms] by auto
  then have "unat (of_nat (bytes_of (drop j (mh_undo h))) :: u64) = bytes_of (drop j (mh_undo h))"
    "unat (of_nat (bytes_of (drop j (mh_redo h))) :: u64) = bytes_of (drop j (mh_redo h))" for j
    using sub [of j "mh_undo h"] sub [of j "mh_redo h"] by (simp_all add: unat_of_nat)
  then show ?thesis using assms
    by (auto simp: stacks_ok_def drop_oldest_def Let_def dest: in_set_dropD)
qed

lemma pop_oldest_drop:
  assumes "stacks_ok h"
  shows "pop_oldest h =
    (if mh_undo h = [] \<and> mh_redo h = [] then None else Some (drop_oldest 1 h))"
proof -
  have sub: "of_nat (unat a - unat b) = sat_sub a b" for a b :: u64
    by (metis unat_sat_sub word_of_nat_unat)
  have u: "mh_undo_bytes h = of_nat (bytes_of (mh_undo h))" "mh_redo_bytes h = of_nat (bytes_of (mh_redo h))"
    using assms by (rule stacks_ok_words)+
  have tl: "of_nat (bytes_of cs) = sat_sub w (hc_bytes c)"
    if "unat w = bytes_of (c # cs)" for w :: u64 and c :: "'a history_checkpoint" and cs
    using that sub [of w "hc_bytes c"] by simp
  show ?thesis
  proof (cases "mh_undo h")
    case (Cons c cs)
    then show ?thesis using assms tl [of "mh_undo_bytes h" c cs] u
      by (simp add: pop_oldest_def drop_oldest_def stacks_ok_def Let_def)
  next
    case Nil
    then show ?thesis using assms tl [of "mh_redo_bytes h"] u
      by (cases "mh_redo h") (auto simp: pop_oldest_def drop_oldest_def stacks_ok_def Let_def)
  qed
qed

lemma drop_oldest_add: "stacks_ok h \<Longrightarrow> drop_oldest j (drop_oldest k h) = drop_oldest (k + j) h"
proof -
  have "k - n + (j - (n - k)) = k + j - n" for n :: nat by arith
  then show ?thesis by (simp add: drop_oldest_def Let_def add.commute)
qed

lemma drop_oldest_simps [simp]:
  "mh_undo (drop_oldest k h) = drop k (mh_undo h)"
  "mh_redo (drop_oldest k h) = drop (k - length (mh_undo h)) (mh_redo h)"
  "mh_limits (drop_oldest k h) = mh_limits h" "mh_open (drop_oldest k h) = mh_open h"
  "mh_pending (drop_oldest k h) = mh_pending h" "mh_generation (drop_oldest k h) = mh_generation h"
  "mh_next_restore_token (drop_oldest k h) = mh_next_restore_token h"
  by (simp_all add: drop_oldest_def Let_def)

text \<open>Both loops forget the oldest entries and stop as soon as the limits hold.\<close>

lemma evict_while_least:
  "stacks_ok h \<Longrightarrow> \<exists>k. evict_while over h = drop_oldest k h \<and> (\<forall>j<k. over (drop_oldest j h)) \<and>
     (over (drop_oldest k h) \<longrightarrow> mh_undo (drop_oldest k h) = [] \<and> mh_redo (drop_oldest k h) = [])"
proof (induction over h rule: evict_while.induct)
  case (1 over h)
  note unfold = evict_while.simps [of over h] pop_oldest_drop [OF "1.prems"]
  show ?case
  proof (cases "over h \<and> \<not> (mh_undo h = [] \<and> mh_redo h = [])")
    case True
    then have pop: "pop_oldest h = Some (drop_oldest 1 h)" using unfold(2) by auto
    from "1.IH" [OF _ pop] True drop_oldest_stacks_ok [OF "1.prems"]
    obtain k where k: "evict_while over (drop_oldest 1 h) = drop_oldest k (drop_oldest 1 h)"
      "\<forall>j<k. over (drop_oldest j (drop_oldest 1 h))"
      "over (drop_oldest k (drop_oldest 1 h)) \<longrightarrow> mh_undo (drop_oldest k (drop_oldest 1 h)) = [] \<and>
         mh_redo (drop_oldest k (drop_oldest 1 h)) = []" by blast
    note add = drop_oldest_add [OF "1.prems", of _ 1, simplified]
    have "over (drop_oldest j h)" if "j < Suc k" for j
      using that k(2) True drop_oldest_0 [OF "1.prems"] by (cases j) (simp_all add: add)
    with k show ?thesis using True pop by (intro exI [of _ "Suc k"]) (simp add: unfold(1) add)
  next
    case False
    then show ?thesis using unfold drop_oldest_0 [OF "1.prems"] by (intro exI [of _ 0]) auto
  qed
qed

lemma over_limits_iff:
  "stacks_ok h \<Longrightarrow> over_limits h \<longleftrightarrow>
     lim_max_entries (mh_limits h) < length (mh_undo h) + length (mh_redo h) \<or>
     unat (lim_max_bytes (mh_limits h)) < bytes_of (mh_undo h) + bytes_of (mh_redo h)"
  by (simp add: over_limits_def word_less_nat_alt stacks_counters)

lemma over_with_open_iff:
  "stacks_ok h \<Longrightarrow> unat b \<le> 8388608 \<Longrightarrow> over_with_open b h \<longleftrightarrow>
     lim_max_entries (mh_limits h) < length (mh_undo h) + length (mh_redo h) + 1 \<or>
     unat (lim_max_bytes (mh_limits h)) < bytes_of (mh_undo h) + bytes_of (mh_redo h) + unat b"
  by (simp add: over_with_open_def word_less_nat_alt stacks_counters)

lemma trim_to_limits_drop:
  assumes "stacks_ok h"
  obtains k where "trim_to_limits h = drop_oldest k h" "\<not> over_limits (drop_oldest k h)"
    "\<forall>j<k. over_limits (drop_oldest j h)"
proof -
  from evict_while_least [OF assms, of over_limits] obtain k where
    k: "trim_to_limits h = drop_oldest k h" "\<forall>j<k. over_limits (drop_oldest j h)"
      "over_limits (drop_oldest k h) \<longrightarrow> mh_undo (drop_oldest k h) = [] \<and> mh_redo (drop_oldest k h) = []"
    unfolding trim_to_limits_def by blast
  have "\<not> over_limits (drop_oldest k h)"
  proof
    assume o: "over_limits (drop_oldest k h)"
    with k(3) have "mh_undo (drop_oldest k h) = []" "mh_redo (drop_oldest k h) = []" by blast+
    with o show False by (simp only: over_limits_iff [OF drop_oldest_stacks_ok [OF assms]]) simp
  qed
  from that [OF k(1) this k(2)] show thesis .
qed

lemma make_room_drop:
  assumes "stacks_ok h" "unat b \<le> unat (lim_max_checkpoint_bytes (mh_limits h))"
  obtains k where "make_room_for_open b h = drop_oldest k h" "\<not> over_with_open b (drop_oldest k h)"
    "\<forall>j<k. over_with_open b (drop_oldest j h)"
proof -
  have l: "limits_ok (mh_limits h)" using assms by (simp add: stacks_ok_def)
  then have b: "unat b \<le> 8388608" using assms by (simp add: limits_ok_def)
  from evict_while_least [OF assms(1), of "over_with_open b"] obtain k where
    k: "make_room_for_open b h = drop_oldest k h" "\<forall>j<k. over_with_open b (drop_oldest j h)"
      "over_with_open b (drop_oldest k h) \<longrightarrow> mh_undo (drop_oldest k h) = [] \<and> mh_redo (drop_oldest k h) = []"
    unfolding make_room_for_open_def by blast
  have "\<not> over_with_open b (drop_oldest k h)"
  proof
    assume o: "over_with_open b (drop_oldest k h)"
    with k(3) have "mh_undo (drop_oldest k h) = []" "mh_redo (drop_oldest k h) = []" by blast+
    with o assms(2) l show False
      by (simp only: over_with_open_iff [OF drop_oldest_stacks_ok [OF assms(1)] b] limits_ok_def
          drop_oldest_simps(3)) simp
  qed
  from that [OF k(1) this k(2)] show thesis .
qed

section \<open>The invariant and its preservation\<close>

definition held_entries :: "'a manual_history \<Rightarrow> nat" where
  "held_entries h = length (mh_undo h) + length (mh_redo h) + (if mh_open h = None then 0 else 1)"

definition held_bytes :: "'a manual_history \<Rightarrow> nat" where
  "held_bytes h = bytes_of (mh_undo h) + bytes_of (mh_redo h) +
     (case mh_open h of None \<Rightarrow> 0 | Some g \<Rightarrow> unat (hc_bytes (og_before g)))"

text \<open>The token counter read as a number: the exhausted counter is one past the last token.\<close>

definition token_limit :: "'a manual_history \<Rightarrow> nat" where
  "token_limit h = (if mh_next_restore_token h = 0 then 2 ^ 64 else unat (mh_next_restore_token h))"

definition hist_inv :: "'a manual_history \<Rightarrow> bool" where
  "hist_inv h \<longleftrightarrow> stacks_ok h \<and> held_entries h \<le> lim_max_entries (mh_limits h) \<and>
     held_bytes h \<le> unat (lim_max_bytes (mh_limits h)) \<and>
     (case mh_open h of None \<Rightarrow> True
      | Some g \<Rightarrow> mh_pending h = None \<and> origin_is_manual (og_origin g) \<and>
          unat (hc_bytes (og_before g)) \<le> unat (lim_max_checkpoint_bytes (mh_limits h))) \<and>
     (case mh_pending h of None \<Rightarrow> True
      | Some p \<Rightarrow> pr_token p \<noteq> 0 \<and> unat (pr_token p) < token_limit h \<and>
          (\<exists>c. stack_back h (pr_direction p) = Some c \<and> hc_fingerprint c = pr_target_fingerprint p)) \<and>
     mh_generation h \<noteq> 0"

datatype 'a hist_op =
    HBegin u64 mutation_origin "'a history_checkpoint"
  | HFinish u64 bytes
  | HCancel u64
  | HRecord mutation_origin "'a history_checkpoint" bytes
  | HPrepare restore_direction
  | HReject u64
  | HCommit u64 "'a history_checkpoint"

definition fst_result :: "'e + ('b \<times> 'c) \<Rightarrow> 'e + 'b" where
  "fst_result r = rbind r (\<lambda>(x, y). Inr x)"

fun hist_apply :: "'a manual_history \<Rightarrow> 'a hist_op \<Rightarrow> history_error + 'a manual_history" where
  "hist_apply h (HBegin i origin before) = fst_result (begin_gesture h i origin before)"
| "hist_apply h (HFinish i after) = fst_result (finish_gesture h i after)"
| "hist_apply h (HCancel i) = fst_result (cancel_gesture h i)"
| "hist_apply h (HRecord origin before after) = fst_result (record_manual h origin before after)"
| "hist_apply h (HPrepare d) = fst_result (prepare_restore h d)"
| "hist_apply h (HReject t) = reject_restore h t"
| "hist_apply h (HCommit t c) = commit_restore h t c"

text \<open>A failed operation leaves the history alone.\<close>

definition hist_step :: "'a manual_history \<Rightarrow> 'a hist_op \<Rightarrow> 'a manual_history" where
  "hist_step h e = (case hist_apply h e of Inr h' \<Rightarrow> h' | Inl _ \<Rightarrow> h)"

lemma bump_generation_simps [simp]:
  "mh_undo (bump_generation h) = mh_undo h" "mh_redo (bump_generation h) = mh_redo h"
  "mh_undo_bytes (bump_generation h) = mh_undo_bytes h" "mh_redo_bytes (bump_generation h) = mh_redo_bytes h"
  "mh_limits (bump_generation h) = mh_limits h" "mh_open (bump_generation h) = mh_open h"
  "mh_pending (bump_generation h) = mh_pending h"
  "mh_next_restore_token (bump_generation h) = mh_next_restore_token h"
  "mh_generation (bump_generation h) = bump (mh_generation h)"
  by (simp_all add: bump_generation_def)

lemma fst_result_Inr: "fst_result r = Inr x \<longleftrightarrow> (\<exists>y. r = Inr (x, y))"
  by (auto simp: fst_result_def rbind_Inr)

lemma stacks_ok_cong:
  "stacks_ok h \<Longrightarrow> mh_undo h' = mh_undo h \<Longrightarrow> mh_redo h' = mh_redo h \<Longrightarrow> mh_undo_bytes h' = mh_undo_bytes h \<Longrightarrow>
   mh_redo_bytes h' = mh_redo_bytes h \<Longrightarrow> mh_limits h' = mh_limits h \<Longrightarrow> stacks_ok h'"
  by (simp add: stacks_ok_def)

lemma stacks_ok_bump [simp]: "stacks_ok (bump_generation h) = stacks_ok h"
  by (simp add: stacks_ok_def)

text \<open>Every recording operation ends the same way: some stacks, no open gesture and no pending
  restore, trimmed and counted.\<close>

lemma hist_inv_trim:
  assumes "stacks_ok h" "mh_open h = None" "mh_pending h = None"
  shows "hist_inv (bump_generation (trim_to_limits h))"
proof -
  obtain k where k: "trim_to_limits h = drop_oldest k h" "\<not> over_limits (drop_oldest k h)"
    using assms(1) by (rule trim_to_limits_drop)
  have ok: "stacks_ok (drop_oldest k h)" using assms(1) by (rule drop_oldest_stacks_ok)
  show ?thesis using k over_limits_iff [OF ok] ok assms
    by (simp add: hist_inv_def held_entries_def held_bytes_def)
qed

lemma push_undo_stacks_ok:
  assumes "stacks_ok h" "length (mh_undo h) + length (mh_redo h) \<le> 129"
    and "unat (hc_bytes c) \<le> unat (lim_max_checkpoint_bytes (mh_limits h))"
  shows "stacks_ok (push_undo (clear_redo h) c)"
proof -
  have "unat (hc_bytes c) \<le> 8388608" using assms by (simp add: stacks_ok_def limits_ok_def)
  then show ?thesis using assms stacks_bytes_small [OF assms(1)]
    by (auto simp: stacks_ok_def push_undo_def clear_redo_def unat_sat_add_small)
qed

lemma hist_inv_bounds:
  "hist_inv h \<Longrightarrow> stacks_ok h" "hist_inv h \<Longrightarrow> length (mh_undo h) + length (mh_redo h) \<le> 128"
  by (auto simp: hist_inv_def held_entries_def stacks_ok_def limits_ok_def split: if_splits)

lemma validate_checkpoint_Inr:
  "validate_checkpoint h c = Inr u \<longleftrightarrow>
     unat (hc_bytes c) \<le> unat (lim_max_checkpoint_bytes (mh_limits h))"
  by (simp add: validate_checkpoint_def word_less_nat_alt linorder_not_less)

lemma begin_gesture_inv:
  assumes "hist_inv h" "begin_gesture h i origin before = Inr (h', out)"
  shows "hist_inv h'"
proof (cases "origin_is_manual origin")
  case False
  then show ?thesis using assms by (simp add: begin_gesture_def)
next
  case True
  let ?b = "hc_bytes before"
  from assms(2) True have c: "mh_pending h = None" "mh_open h = None"
    "unat ?b \<le> unat (lim_max_checkpoint_bytes (mh_limits h))"
    "h' = bump_generation (make_room_for_open ?b h\<lparr>mh_open := Some \<lparr>og_id = i, og_origin = origin, og_before = before\<rparr>\<rparr>)"
    by (auto simp: begin_gesture_def rbind_Inr validate_checkpoint_Inr Let_def split: if_splits option.splits)
  note ok = hist_inv_bounds(1) [OF assms(1)]
  obtain k where k: "make_room_for_open ?b h = drop_oldest k h" "\<not> over_with_open ?b (drop_oldest k h)"
    using ok c(3) by (rule make_room_drop)
  have ok': "stacks_ok (drop_oldest k h)" using ok by (rule drop_oldest_stacks_ok)
  have "unat ?b \<le> 8388608" using ok c(3) by (simp add: stacks_ok_def limits_ok_def)
  from over_with_open_iff [OF ok' this] k(2) ok' c True show ?thesis
    by (simp add: hist_inv_def held_entries_def held_bytes_def k(1) stacks_ok_def)
qed

lemma recording_inv:
  assumes "hist_inv h" "mh_pending h = None"
    and "unat (hc_bytes c) \<le> unat (lim_max_checkpoint_bytes (mh_limits h))"
  shows "hist_inv (bump_generation (trim_to_limits (push_undo (clear_redo (h\<lparr>mh_open := None\<rparr>)) c)))"
proof (rule hist_inv_trim)
  have "stacks_ok (h\<lparr>mh_open := None\<rparr>)" using assms(1) by (simp add: hist_inv_def stacks_ok_def)
  then show "stacks_ok (push_undo (clear_redo (h\<lparr>mh_open := None\<rparr>)) c)"
    using assms(3) hist_inv_bounds(2) [OF assms(1)] by (intro push_undo_stacks_ok) auto
qed (simp_all add: push_undo_def clear_redo_def assms)

lemma close_gesture_inv:
  "hist_inv h \<Longrightarrow> mh_open h = Some g \<Longrightarrow> hist_inv (bump_generation (h\<lparr>mh_open := None\<rparr>))"
  by (auto simp: hist_inv_def held_entries_def held_bytes_def stacks_ok_def)

lemma finish_gesture_inv:
  "hist_inv h \<Longrightarrow> finish_gesture h i after = Inr (h', out) \<Longrightarrow> hist_inv h'"
  using recording_inv [of h] close_gesture_inv [of h]
  by (auto simp: finish_gesture_def Let_def hist_inv_def [of h] split: if_splits option.splits)

lemma cancel_gesture_inv:
  "hist_inv h \<Longrightarrow> cancel_gesture h i = Inr (h', out) \<Longrightarrow> hist_inv h'"
  using close_gesture_inv [of h] by (auto simp: cancel_gesture_def split: if_splits option.splits)

lemma no_open_update: "mh_open h = None \<Longrightarrow> h\<lparr>mh_open := None\<rparr> = h"
  by (cases h) simp

lemma record_manual_inv:
  assumes "hist_inv h" "record_manual h origin before after = Inr (h', out)"
  shows "hist_inv h'"
  using assms recording_inv [OF assms(1), of before]
  by (auto simp: record_manual_def rbind_Inr validate_checkpoint_Inr no_open_update
      split: if_splits option.splits)

lemma allocate_restore_token_Inr:
  "allocate_restore_token h = Inr (h1, t) \<longleftrightarrow> t = mh_next_restore_token h \<and> t \<noteq> 0 \<and>
     h1 = h\<lparr>mh_next_restore_token := t + 1\<rparr>"
proof -
  have "(case checked_add t 1 of Some n \<Rightarrow> n | None \<Rightarrow> 0) = t + 1" for t :: u64
  proof (cases "checked_add t 1")
    case None
    have "unat t = unat (- 1 :: u64)"
      using None unat_lt2p [of t] by (simp add: checked_add_None unat_max_word)
    then have "t = - 1" by (rule unsigned_word_eqI)
    with None show ?thesis by simp
  next
    case (Some n)
    then have "n = t + 1" by (simp add: checked_add_Some)
    with Some show ?thesis by simp
  qed
  then show ?thesis by (auto simp: allocate_restore_token_def Let_def)
qed

lemma token_limit_next:
  assumes "mh_next_restore_token h \<noteq> 0"
  shows "token_limit (h\<lparr>mh_next_restore_token := mh_next_restore_token h + 1\<rparr>) = token_limit h + 1"
proof (cases "mh_next_restore_token h + 1 = 0")
  case True
  then have "mh_next_restore_token h = - 1" by (simp add: add_eq_0_iff2)
  then show ?thesis by (simp add: token_limit_def unat_max_word)
next
  case False
  then show ?thesis using assms unatSuc [of "mh_next_restore_token h"]
    by (simp add: token_limit_def add.commute)
qed

lemma prepare_restore_cases:
  assumes "prepare_restore h d = Inr (h', cand)"
  obtains (nothing) "h' = h" "cand = None" "stack_back h d = None" |
    (prepared) target where "mh_pending h = None" "mh_open h = None" "stack_back h d = Some target"
      "mh_next_restore_token h \<noteq> 0"
      "cand = Some \<lparr>rc_token = mh_next_restore_token h, rc_direction = d, rc_target = target\<rparr>"
      "h' = bump_generation (h\<lparr>mh_next_restore_token := mh_next_restore_token h + 1,
         mh_pending := Some \<lparr>pr_token = mh_next_restore_token h, pr_direction = d,
           pr_target_fingerprint = hc_fingerprint target\<rparr>\<rparr>)"
  using assms
  by (auto simp: prepare_restore_def rbind_Inr allocate_restore_token_Inr Let_def
      split: if_splits option.splits)

lemma stack_back_simps [simp]:
  "stack_back (bump_generation h) d = stack_back h d"
  "stack_back (h\<lparr>mh_next_restore_token := t\<rparr>) d = stack_back h d"
  "stack_back (h\<lparr>mh_pending := p\<rparr>) d = stack_back h d"
  by (cases d; simp add: stack_back_def Let_def)+

lemma token_limit_simps [simp]:
  "token_limit (bump_generation h) = token_limit h" "token_limit (h\<lparr>mh_pending := p\<rparr>) = token_limit h"
  "token_limit (h\<lparr>mh_next_restore_token := t, mh_pending := p\<rparr>) = token_limit (h\<lparr>mh_next_restore_token := t\<rparr>)"
  by (simp_all add: token_limit_def)

lemma prepare_restore_inv:
  assumes "hist_inv h" "prepare_restore h d = Inr (h', cand)"
  shows "hist_inv h'"
  using assms(2)
proof (cases rule: prepare_restore_cases)
  case nothing
  then show ?thesis using assms(1) by simp
next
  case (prepared target)
  have "token_limit h' = token_limit h + 1"
    using token_limit_next [OF prepared(4)] by (simp add: prepared(6))
  moreover have "unat (mh_next_restore_token h) = token_limit h"
    using prepared(4) by (simp add: token_limit_def)
  ultimately show ?thesis using assms(1) prepared
    by (simp add: hist_inv_def held_entries_def held_bytes_def stacks_ok_def)
qed

lemma reject_restore_inv:
  "hist_inv h \<Longrightarrow> reject_restore h t = Inr h' \<Longrightarrow> hist_inv h'"
  by (auto simp: reject_restore_def hist_inv_def held_entries_def held_bytes_def stacks_ok_def
      split: if_splits option.splits)

text \<open>The move of one checkpoint from the back of a stack to the other stack.\<close>

definition restore_moved ::
  "'a manual_history \<Rightarrow> restore_direction \<Rightarrow> 'a history_checkpoint \<Rightarrow> 'a manual_history" where
  "restore_moved h d current = (let
     u = (case d of Undo \<Rightarrow> butlast (mh_undo h) | Redo \<Rightarrow> mh_undo h @ [current]);
     r = (case d of Undo \<Rightarrow> mh_redo h @ [current] | Redo \<Rightarrow> butlast (mh_redo h)) in
     h\<lparr>mh_pending := None, mh_undo := u, mh_redo := r,
       mh_undo_bytes := of_nat (bytes_of u), mh_redo_bytes := of_nat (bytes_of r)\<rparr>)"

lemma restore_moved_field_order:
  "h\<lparr>mh_pending := a, mh_undo := u, mh_undo_bytes := ub, mh_redo_bytes := rb, mh_redo := r\<rparr> =
   h\<lparr>mh_pending := a, mh_undo := u, mh_redo := r, mh_undo_bytes := ub, mh_redo_bytes := rb\<rparr>"
  "h\<lparr>mh_pending := a, mh_redo := r, mh_redo_bytes := rb, mh_undo_bytes := ub, mh_undo := u\<rparr> =
   h\<lparr>mh_pending := a, mh_undo := u, mh_redo := r, mh_undo_bytes := ub, mh_redo_bytes := rb\<rparr>"
  by (cases h; simp)+

lemma commit_restore_cases:
  assumes "stacks_ok h" "commit_restore h t current = Inr h'"
  obtains p target where "mh_pending h = Some p" "pr_token p = t" "stack_back h (pr_direction p) = Some target"
    "unat (hc_bytes current) \<le> unat (lim_max_checkpoint_bytes (mh_limits h))"
    "hc_fingerprint target = pr_target_fingerprint p" "hc_label target = hc_label current"
    "hc_category target = hc_category current"
    "h' = bump_generation (trim_to_limits (restore_moved h (pr_direction p) current))"
proof -
  have sub: "of_nat (bytes_of (butlast cs)) = sat_sub w (hc_bytes (last cs))"
    if "unat w = bytes_of cs" "cs \<noteq> []" for w :: u64 and cs :: "'a history_checkpoint list"
  proof -
    have "bytes_of (butlast cs) = unat (sat_sub w (hc_bytes (last cs)))"
      using that unat_sum_butlast [of cs hc_bytes] by (simp add: unat_sat_sub)
    then show ?thesis by (simp only: word_of_nat_unat)
  qed
  have add: "of_nat (bytes_of (cs @ [c])) = sat_add w (hc_bytes c)"
    if "unat w = bytes_of cs" "bytes_of cs \<le> 2147483648" "unat (hc_bytes c) \<le> 8388608"
    for w :: u64 and cs and c :: "'a history_checkpoint"
  proof -
    have "bytes_of (cs @ [c]) = unat (sat_add w (hc_bytes c))"
      using that by (subst unat_sat_add_small) auto
    then show ?thesis by (simp only: word_of_nat_unat)
  qed
  from assms(2) obtain p target where c: "mh_pending h = Some p" "pr_token p = t"
    "stack_back h (pr_direction p) = Some target"
    "unat (hc_bytes current) \<le> unat (lim_max_checkpoint_bytes (mh_limits h))"
    "hc_fingerprint target = pr_target_fingerprint p" "hc_label target = hc_label current"
    "hc_category target = hc_category current"
    by (auto simp: commit_restore_def rbind_Inr validate_checkpoint_Inr split: if_splits option.splits)
  have "unat (hc_bytes current) \<le> 8388608" using c(4) assms(1) by (simp add: stacks_ok_def limits_ok_def)
  note small = this stacks_bytes_small [OF assms(1)] assms(1)
  have "h' = bump_generation (trim_to_limits (restore_moved h (pr_direction p) current))"
  proof (cases "pr_direction p")
    case Undo
    with c(3) have "mh_undo h \<noteq> []" "target = last (mh_undo h)"
      by (auto simp: stack_back_def Let_def split: if_splits)
    with Undo c assms(2) small sub [of "mh_undo_bytes h" "mh_undo h"] add [of "mh_redo_bytes h" "mh_redo h" current]
    show ?thesis
      by (simp add: commit_restore_def rbind_Inr stacks_ok_def Let_def restore_moved_def restore_moved_field_order)
  next
    case Redo
    with c(3) have "mh_redo h \<noteq> []" "target = last (mh_redo h)"
      by (auto simp: stack_back_def Let_def split: if_splits)
    with Redo c assms(2) small sub [of "mh_redo_bytes h" "mh_redo h"] add [of "mh_undo_bytes h" "mh_undo h" current]
    show ?thesis
      by (simp add: commit_restore_def rbind_Inr stacks_ok_def Let_def restore_moved_def restore_moved_field_order)
  qed
  with c that show thesis by blast
qed

lemmas unat_of_nat_u64 = unat_of_nat_small [where 'a = 64, simplified]

lemma restore_moved_ok:
  assumes "stacks_ok h" "length (mh_undo h) + length (mh_redo h) \<le> 128"
    "stack_back h d = Some target" "unat (hc_bytes c) \<le> unat (lim_max_checkpoint_bytes (mh_limits h))"
  shows "stacks_ok (restore_moved h d c)"
    and "mh_open (restore_moved h d c) = mh_open h" and "mh_pending (restore_moved h d c) = None"
    and "mh_limits (restore_moved h d c) = mh_limits h"
    and "mh_next_restore_token (restore_moved h d c) = mh_next_restore_token h"
proof -
  have le: "bytes_of (butlast cs) \<le> bytes_of cs" for cs :: "'a history_checkpoint list"
    by (induction cs) auto
  have "unat (hc_bytes c) \<le> 8388608" using assms by (simp add: stacks_ok_def limits_ok_def)
  with stacks_bytes_small [OF assms(1)] le [of "mh_undo h"] le [of "mh_redo h"]
  have "bytes_of (mh_undo h @ [c]) < 2 ^ 64" "bytes_of (mh_redo h @ [c]) < 2 ^ 64"
    "bytes_of (butlast (mh_undo h)) < 2 ^ 64" "bytes_of (butlast (mh_redo h)) < 2 ^ 64" by auto
  note w = this [simplified, THEN unat_of_nat_u64]
  show "stacks_ok (restore_moved h d c)"
    using assms w by (cases d) (auto simp: stacks_ok_def restore_moved_def Let_def dest: in_set_butlastD)
qed (simp_all add: restore_moved_def Let_def)

lemma commit_restore_inv:
  assumes "hist_inv h" "commit_restore h t current = Inr h'"
  shows "hist_inv h'"
proof -
  note ok = hist_inv_bounds [OF assms(1)]
  obtain p target where c: "mh_pending h = Some p" "stack_back h (pr_direction p) = Some target"
    "unat (hc_bytes current) \<le> unat (lim_max_checkpoint_bytes (mh_limits h))"
    "h' = bump_generation (trim_to_limits (restore_moved h (pr_direction p) current))"
    using ok(1) assms(2) by (rule commit_restore_cases)
  have "mh_open h = None" using assms(1) c(1) by (auto simp: hist_inv_def split: option.splits)
  with restore_moved_ok [OF ok c(2,3)] show ?thesis unfolding c(4) by (intro hist_inv_trim) auto
qed

section \<open>Runs\<close>

lemma evict_while_keeps:
  "mh_limits (evict_while over h) = mh_limits h \<and> mh_open (evict_while over h) = mh_open h \<and>
   mh_pending (evict_while over h) = mh_pending h \<and>
   mh_next_restore_token (evict_while over h) = mh_next_restore_token h"
proof (induction over h rule: evict_while.induct)
  case (1 over h)
  show ?case
  proof (cases "over h \<and> pop_oldest h \<noteq> None")
    case True
    then obtain h' where h': "over h" "pop_oldest h = Some h'" by auto
    then have "mh_limits h' = mh_limits h" "mh_open h' = mh_open h" "mh_pending h' = mh_pending h"
      "mh_next_restore_token h' = mh_next_restore_token h"
      by (auto simp: pop_oldest_def split: list.splits)
    then show ?thesis using "1.IH" [OF h'] h' by (simp add: evict_while.simps [of over h])
  next
    case False
    then show ?thesis by (auto simp: evict_while.simps [of over h] split: option.splits)
  qed
qed

lemmas trim_keeps [simp] = evict_while_keeps [of over_limits, folded trim_to_limits_def]
lemmas make_room_keeps [simp] =
  evict_while_keeps [of "over_with_open b" for b, folded make_room_for_open_def]

lemma push_clear_keeps [simp]:
  "mh_limits (push_undo (clear_redo h) c) = mh_limits h" "mh_open (push_undo (clear_redo h) c) = mh_open h"
  "mh_pending (push_undo (clear_redo h) c) = mh_pending h"
  "mh_next_restore_token (push_undo (clear_redo h) c) = mh_next_restore_token h"
  by (simp_all add: push_undo_def clear_redo_def)

lemma hist_apply_inv: "hist_inv h \<Longrightarrow> hist_apply h e = Inr h' \<Longrightarrow> hist_inv h'"
  by (cases e) (auto simp: fst_result_Inr intro: begin_gesture_inv finish_gesture_inv cancel_gesture_inv
      record_manual_inv prepare_restore_inv reject_restore_inv commit_restore_inv)

text \<open>Limits are fixed; tokens only grow, and a new pending restore carries the counter's value.\<close>

lemma hist_apply_tokens:
  assumes "hist_inv h" "hist_apply h e = Inr h'"
  shows "mh_limits h' = mh_limits h \<and> token_limit h \<le> token_limit h' \<and>
    (\<forall>p. mh_pending h' = Some p \<longrightarrow> mh_pending h = Some p \<or> unat (pr_token p) = token_limit h)"
proof -
  show ?thesis
  proof (cases e)
    case (HPrepare d)
    with assms(2) obtain cand where "prepare_restore h d = Inr (h', cand)" by (auto simp: fst_result_Inr)
    then show ?thesis
    proof (cases rule: prepare_restore_cases)
      case (prepared target)
      then show ?thesis using token_limit_next [OF prepared(4)] by (simp add: token_limit_def [of h])
    qed simp
  next
    case (HCommit t c)
    with assms(2) have "commit_restore h t c = Inr h'" by simp
    with hist_inv_bounds(1) [OF assms(1)] obtain p :: pending_restore and target where
      c: "stack_back h (pr_direction p) = Some target"
        "unat (hc_bytes c) \<le> unat (lim_max_checkpoint_bytes (mh_limits h))"
        "h' = bump_generation (trim_to_limits (restore_moved h (pr_direction p) c))"
      by (rule commit_restore_cases)
    show ?thesis using restore_moved_ok [OF hist_inv_bounds [OF assms(1)] c(1,2)]
      by (simp add: c(3) token_limit_def)
  next
    case (HBegin i origin before)
    with assms(2) show ?thesis
      by (auto simp: fst_result_Inr begin_gesture_def rbind_Inr Let_def token_limit_def
          split: if_splits option.splits)
  next
    case (HFinish i after)
    with assms(2) show ?thesis
      by (auto simp: fst_result_Inr finish_gesture_def Let_def token_limit_def split: if_splits option.splits)
  next
    case (HCancel i)
    with assms(2) show ?thesis
      by (auto simp: fst_result_Inr cancel_gesture_def token_limit_def split: if_splits option.splits)
  next
    case (HRecord origin before after)
    with assms(2) show ?thesis
      by (auto simp: fst_result_Inr record_manual_def rbind_Inr token_limit_def split: if_splits option.splits)
  next
    case (HReject t)
    with assms(2) show ?thesis
      by (auto simp: reject_restore_def token_limit_def split: if_splits option.splits)
  qed
qed

definition hist_inv_from :: "history_limits \<Rightarrow> nat \<Rightarrow> 'a manual_history \<Rightarrow> bool" where
  "hist_inv_from l n h \<longleftrightarrow> hist_inv h \<and> mh_limits h = l \<and> n \<le> token_limit h \<and>
     (\<forall>p. mh_pending h = Some p \<longrightarrow> n \<le> unat (pr_token p))"

interpretation hist: invariant_machine hist_step "hist_inv_from l n" for l n
proof unfold_locales
  fix h :: "'b manual_history" and e
  assume i: "hist_inv_from l n h"
  show "hist_inv_from l n (hist_step h e)"
  proof (cases "hist_apply h e")
    case (Inr h')
    from i Inr hist_apply_inv [of h e h'] hist_apply_tokens [of h e h'] show ?thesis
      by (fastforce simp: hist_inv_from_def hist_step_def)
  qed (use i in \<open>simp add: hist_step_def\<close>)
qed

lemma with_limits_inv:
  "with_limits l = Inr h \<Longrightarrow> hist_inv_from l 0 h"
  by (auto simp: with_limits_def rbind_Inr limits_bounded_ok hist_inv_from_def hist_inv_def stacks_ok_def
      held_entries_def held_bytes_def)

lemma run_inv:
  assumes "with_limits l = Inr h0"
  shows "hist_inv (foldl hist_step h0 es)" "mh_limits (foldl hist_step h0 es) = l"
  using hist.inv_run [OF with_limits_inv [OF assms], of es] by (auto simp: hist_inv_from_def)

section \<open>The recording and restoring moves\<close>

lemma record_manual_shape:
  assumes "hist_inv h" "origin_is_manual origin" "mh_pending h = None" "mh_open h = None"
    "unat (hc_bytes before) \<le> unat (lim_max_checkpoint_bytes (mh_limits h))"
    "hc_fingerprint before \<noteq> after"
  shows "\<exists>k h'. record_manual h origin before after = Inr (h', Recorded) \<and>
    mh_undo h' = drop k (mh_undo h @ [before]) \<and> mh_redo h' = [] \<and> k \<le> length (mh_undo h) \<and>
    (\<forall>j<k. lim_max_entries (mh_limits h) < length (drop j (mh_undo h @ [before])) \<or>
       unat (lim_max_bytes (mh_limits h)) < bytes_of (drop j (mh_undo h @ [before])))"
proof -
  let ?p = "push_undo (clear_redo h) before"
  let ?full = "mh_undo h @ [before]"
  note ok = hist_inv_bounds [OF assms(1)]
  have okp: "stacks_ok ?p" using ok assms(5) by (intro push_undo_stacks_ok) auto
  have f: "mh_undo ?p = ?full" "mh_redo ?p = []" by (simp_all add: push_undo_def clear_redo_def)
  obtain k where k: "trim_to_limits ?p = drop_oldest k ?p" "\<not> over_limits (drop_oldest k ?p)"
    "\<forall>j<k. over_limits (drop_oldest j ?p)"
    using okp by (rule trim_to_limits_drop)
  have o: "over_limits (drop_oldest j ?p) \<longleftrightarrow> lim_max_entries (mh_limits h) < length (drop j ?full) \<or>
      unat (lim_max_bytes (mh_limits h)) < bytes_of (drop j ?full)" for j
    using over_limits_iff [OF drop_oldest_stacks_ok [OF okp], of j] by (simp add: f)
  have l: "1 \<le> lim_max_entries (mh_limits h)"
      "unat (lim_max_checkpoint_bytes (mh_limits h)) \<le> unat (lim_max_bytes (mh_limits h))"
    using ok(1) by (simp_all add: stacks_ok_def limits_ok_def)
  have "k \<le> length (mh_undo h)"
  proof (rule ccontr)
    assume "\<not> k \<le> length (mh_undo h)"
    with k(3) o [of "length (mh_undo h)"] l assms(5) show False by auto
  qed
  moreover have v: "validate_checkpoint h before = Inr ()" using assms(5) by (simp add: validate_checkpoint_Inr)
  have "record_manual h origin before after = Inr (bump_generation (drop_oldest k ?p), Recorded)"
    using assms v by (simp add: record_manual_def k(1))
  ultimately show ?thesis using k(3) by (auto simp: o f intro!: exI [of _ k])
qed

text \<open>A restore that needs no eviction is exactly the move of one checkpoint.\<close>

lemma restore_fits:
  assumes "hist_inv h" "mh_open h = None" "mh_pending h = None"
    and "mh_next_restore_token h \<noteq> 0" "stack_back h d = Some target"
    and "hc_label c = hc_label target" "hc_category c = hc_category target"
    and "unat (hc_bytes c) \<le> unat (lim_max_checkpoint_bytes (mh_limits h))"
    and "bytes_of (mh_undo (restore_moved h d c)) + bytes_of (mh_redo (restore_moved h d c))
           \<le> unat (lim_max_bytes (mh_limits h))"
  obtains h1 h2 where
    "prepare_restore h d = Inr (h1, Some \<lparr>rc_token = mh_next_restore_token h, rc_direction = d, rc_target = target\<rparr>)"
    "commit_restore h1 (mh_next_restore_token h) c = Inr h2"
    "mh_undo h2 = mh_undo (restore_moved h d c)" "mh_redo h2 = mh_redo (restore_moved h d c)"
    "mh_open h2 = None" "mh_pending h2 = None" "mh_limits h2 = mh_limits h"
    "mh_next_restore_token h2 = mh_next_restore_token h + 1" "hist_inv h2"
proof -
  let ?t = "mh_next_restore_token h"
  let ?a = "h\<lparr>mh_next_restore_token := ?t + 1,
    mh_pending := Some \<lparr>pr_token = ?t, pr_direction = d, pr_target_fingerprint = hc_fingerprint target\<rparr>\<rparr>"
  let ?h1 = "bump_generation ?a"
  have p: "prepare_restore h d = Inr (?h1, Some \<lparr>rc_token = ?t, rc_direction = d, rc_target = target\<rparr>)"
    using assms(2-5) allocate_restore_token_Inr [of h "h\<lparr>mh_next_restore_token := ?t + 1\<rparr>" ?t]
    by (simp add: prepare_restore_def Let_def)
  have i1: "hist_inv ?h1" using assms(1) p by (rule prepare_restore_inv)
  have sb: "stack_back ?h1 d = Some target" using assms(5) by (cases d) (auto simp: stack_back_def)
  have v: "validate_checkpoint ?h1 c = Inr ()" using assms(8) by (simp add: validate_checkpoint_Inr)
  obtain h2 where h2: "commit_restore ?h1 ?t c = Inr h2"
    using v sb assms(6,7) by (simp add: commit_restore_def Let_def)
  obtain p' :: pending_restore and target' where c: "mh_pending ?h1 = Some p'"
      "h2 = bump_generation (trim_to_limits (restore_moved ?h1 (pr_direction p') c))"
    using hist_inv_bounds(1) [OF i1] h2 by (rule commit_restore_cases)
  then have d: "pr_direction p' = d" by auto
  have same: "mh_undo (restore_moved ?h1 d c) = mh_undo (restore_moved h d c)"
    "mh_redo (restore_moved ?h1 d c) = mh_redo (restore_moved h d c)"
    by (simp_all add: restore_moved_def Let_def cong: restore_direction.case_cong)
  note ok = hist_inv_bounds [OF i1]
  have l: "unat (hc_bytes c) \<le> unat (lim_max_checkpoint_bytes (mh_limits ?h1))" using assms(8) by simp
  note m = restore_moved_ok [OF ok sb l]
  have "length (mh_undo (restore_moved h d c)) + length (mh_redo (restore_moved h d c)) =
      length (mh_undo h) + length (mh_redo h)"
    using assms(5) by (cases d) (auto simp: restore_moved_def stack_back_def Let_def split: if_splits)
  moreover have "length (mh_undo h) + length (mh_redo h) \<le> lim_max_entries (mh_limits h)"
    using assms(1) by (simp add: hist_inv_def held_entries_def)
  ultimately have "\<not> over_limits (restore_moved ?h1 d c)"
    using over_limits_iff [OF m(1)] assms(9) by (simp add: m same)
  then have "trim_to_limits (restore_moved ?h1 d c) = restore_moved ?h1 d c"
    by (simp add: trim_to_limits_def evict_while.simps)
  then have "h2 = bump_generation (restore_moved ?h1 d c)" using c d by simp
  then show thesis
    using that [OF p h2] same m assms(2) commit_restore_inv [OF i1 h2] by simp
qed

lemma undo_redo_inverse:
  assumes "hist_inv h" "mh_open h = None" "mh_pending h = None" "mh_undo h \<noteq> []"
    and "mh_next_restore_token h \<noteq> 0" "mh_next_restore_token h \<noteq> - 1"
    and "hc_label c = hc_label (last (mh_undo h))" "hc_category c = hc_category (last (mh_undo h))"
    and "unat (hc_bytes c) \<le> unat (lim_max_checkpoint_bytes (mh_limits h))"
    and "bytes_of (butlast (mh_undo h)) + bytes_of (mh_redo h) + unat (hc_bytes c)
           \<le> unat (lim_max_bytes (mh_limits h))"
  shows "\<exists>h1 h2 h3 h4 undo redo.
    prepare_restore h Undo = Inr (h1, Some undo) \<and> rc_target undo = last (mh_undo h) \<and>
    commit_restore h1 (rc_token undo) c = Inr h2 \<and>
    prepare_restore h2 Redo = Inr (h3, Some redo) \<and> rc_target redo = c \<and>
    commit_restore h3 (rc_token redo) (rc_target undo) = Inr h4 \<and>
    mh_undo h4 = mh_undo h \<and> mh_redo h4 = mh_redo h \<and>
    mh_undo_bytes h4 = mh_undo_bytes h \<and> mh_redo_bytes h4 = mh_redo_bytes h"
proof -
  let ?u = "last (mh_undo h)"
  have sb: "stack_back h Undo = Some ?u" using assms(4) by (simp add: stack_back_def)
  have room: "bytes_of (mh_undo (restore_moved h Undo c)) + bytes_of (mh_redo (restore_moved h Undo c))
      \<le> unat (lim_max_bytes (mh_limits h))"
    using assms(10) by (simp add: restore_moved_def Let_def)
  obtain h1 h2 where first: "prepare_restore h Undo = Inr (h1, Some \<lparr>rc_token = mh_next_restore_token h,
      rc_direction = Undo, rc_target = ?u\<rparr>)" "commit_restore h1 (mh_next_restore_token h) c = Inr h2"
    and h2: "mh_undo h2 = mh_undo (restore_moved h Undo c)" "mh_redo h2 = mh_redo (restore_moved h Undo c)"
      "mh_open h2 = None" "mh_pending h2 = None" "mh_limits h2 = mh_limits h"
      "mh_next_restore_token h2 = mh_next_restore_token h + 1" "hist_inv h2"
    using assms(1-3,5) sb assms(7,8,9) room by (rule restore_fits)
  have h2': "mh_undo h2 = butlast (mh_undo h)" "mh_redo h2 = mh_redo h @ [c]"
    using h2 by (simp_all add: restore_moved_def Let_def)
  have sb2: "stack_back h2 Redo = Some c" by (simp add: stack_back_def h2')
  have ok: "stacks_ok h" using assms(1) by (rule hist_inv_bounds)
  have same: "mh_undo (restore_moved h2 Redo ?u) = mh_undo h" "mh_redo (restore_moved h2 Redo ?u) = mh_redo h"
    using assms(4) by (simp_all add: restore_moved_def Let_def h2')
  have room2: "bytes_of (mh_undo (restore_moved h2 Redo ?u)) + bytes_of (mh_redo (restore_moved h2 Redo ?u))
      \<le> unat (lim_max_bytes (mh_limits h2))"
    using assms(1,2) unfolding same h2 by (simp add: hist_inv_def held_bytes_def)
  have small: "unat (hc_bytes ?u) \<le> unat (lim_max_checkpoint_bytes (mh_limits h2))"
    using ok assms(4) by (simp add: stacks_ok_def h2(5))
  have tok: "mh_next_restore_token h2 \<noteq> 0" using assms(6) h2(6) by (metis add_eq_0_iff2)
  obtain h3 h4 where second: "prepare_restore h2 Redo = Inr (h3, Some \<lparr>rc_token = mh_next_restore_token h2,
      rc_direction = Redo, rc_target = c\<rparr>)" "commit_restore h3 (mh_next_restore_token h2) ?u = Inr h4"
    and h4: "mh_undo h4 = mh_undo h" "mh_redo h4 = mh_redo h" "hist_inv h4"
    using h2(7,3,4) tok sb2 assms(7,8) [symmetric] small room2 [unfolded same]
    by (rule restore_fits [of h2 Redo c ?u, unfolded same])
  have "stacks_ok h4" using h4(3) by (rule hist_inv_bounds)
  from stacks_ok_words [OF this] stacks_ok_words [OF ok]
  have "mh_undo_bytes h4 = mh_undo_bytes h" "mh_redo_bytes h4 = mh_redo_bytes h"
    by (simp_all add: h4)
  with first second h4 show ?thesis
    by (intro exI [of _ h1] exI [of _ h2] exI [of _ h3] exI [of _ h4]
        exI [of _ "\<lparr>rc_token = mh_next_restore_token h, rc_direction = Undo, rc_target = ?u\<rparr>"]
        exI [of _ "\<lparr>rc_token = mh_next_restore_token h2, rc_direction = Redo, rc_target = c\<rparr>"]) simp
qed

section \<open>Mutations that no person made\<close>

fun touches_history :: "'a hist_op \<Rightarrow> bool" where
  "touches_history (HBegin i origin before) = origin_is_manual origin"
| "touches_history (HRecord origin before after) = origin_is_manual origin"
| "touches_history _ = True"

lemma hist_step_untouched: "\<not> touches_history e \<Longrightarrow> hist_step h e = h"
  by (cases e) (auto simp: hist_step_def fst_result_def begin_gesture_def record_manual_def)

lemma run_skips_untouched:
  "foldl hist_step h (filter touches_history es) = foldl hist_step h es"
  by (induction es arbitrary: h) (auto simp: hist_step_untouched)

lemma consumed_token:
  assumes "hist_inv_from l n h" "unat t < n"
  shows "reject_restore h t \<in> {Inl NoRestorePending, Inl StaleRestoreToken} \<and>
    commit_restore h t c \<in> {Inl NoRestorePending, Inl StaleRestoreToken}"
  using assms
  by (auto simp: hist_inv_from_def reject_restore_def commit_restore_def split: option.splits)

lemma consuming_token:
  assumes "hist_inv h" "commit_restore h t c = Inr h' \<or> reject_restore h t = Inr h'"
  shows "hist_inv_from (mh_limits h') (unat t + 1) h'"
proof -
  have i: "hist_inv h'" using assms commit_restore_inv reject_restore_inv by blast
  have pending: "mh_pending h' = None \<and> token_limit h' = token_limit h"
    using assms(2)
  proof
    assume "commit_restore h t c = Inr h'"
    with hist_inv_bounds(1) [OF assms(1)] obtain p :: pending_restore and target where
      c: "stack_back h (pr_direction p) = Some target"
        "unat (hc_bytes c) \<le> unat (lim_max_checkpoint_bytes (mh_limits h))"
        "h' = bump_generation (trim_to_limits (restore_moved h (pr_direction p) c))"
      by (rule commit_restore_cases)
    show ?thesis using restore_moved_ok [OF hist_inv_bounds [OF assms(1)] c(1,2)]
      by (simp add: c(3) token_limit_def)
  next
    assume "reject_restore h t = Inr h'"
    then show ?thesis by (auto simp: reject_restore_def token_limit_def split: if_splits option.splits)
  qed
  moreover from assms(2) obtain p where "mh_pending h = Some p" "pr_token p = t"
    by (auto simp: reject_restore_def commit_restore_def split: if_splits option.splits)
  then have "unat t < token_limit h" using assms(1) by (auto simp: hist_inv_def)
  ultimately show ?thesis using i by (simp add: hist_inv_from_def)
qed

section \<open>Properties\<close>

text \<open>C2. Bounded with exact accounting: after any sequence of operations, from any accepted limits, the
  undo and redo entries and the open gesture together number at most the configured entries (never
  above 128), the byte total that the metrics report is the true sum of the held checkpoints and is
  within the configured bytes, an open gesture and a pending restore never coexist, and the
  generation is never zero.\<close>

theorem history_stays_within_limits:
  assumes "with_limits l = Inr h0" and "h = foldl hist_step h0 es" and "m = history_metrics_of h"
  shows "met_undo_depth m + met_redo_depth m + (if met_gesture_open m then 1 else 0) \<le> lim_max_entries l \<and>
    lim_max_entries l \<le> 128 \<and> unat (met_bytes m) = held_bytes h \<and> held_bytes h \<le> unat (lim_max_bytes l) \<and>
    \<not> (met_gesture_open m \<and> met_restore_pending m) \<and> met_generation m \<noteq> 0"
proof -
  note i = run_inv [OF assms(1), of es, folded assms(2)]
  have ok: "stacks_ok h" using i(1) by (rule hist_inv_bounds)
  have l: "limits_ok l" using ok i(2) by (auto simp: stacks_ok_def)
  have "unat (met_bytes m) = held_bytes h"
  proof (cases "mh_open h")
    case None
    have "sat_add (w :: u64) 0 = w" for w using unat_lt2p [of w] by (simp add: sat_add_def)
    then show ?thesis using stacks_counters(1) [OF ok] None
      by (simp add: assms(3) history_metrics_of_def Let_def held_bytes_def)
  next
    case (Some g)
    have "unat (hc_bytes (og_before g)) \<le> 8388608"
      using Some i l by (auto simp: hist_inv_def limits_ok_def)
    from stacks_counters(2) [OF ok this] Some show ?thesis
      by (simp add: assms(3) history_metrics_of_def Let_def held_bytes_def)
  qed
  then show ?thesis using i l
    by (auto simp: assms(3) history_metrics_of_def Let_def hist_inv_def held_entries_def limits_ok_def
        split: option.splits)
qed

definition demo_checkpoint :: "u8 \<Rightarrow> nat history_checkpoint" where
  "demo_checkpoint b = \<lparr>hc_state = unat b, hc_fingerprint = [b], hc_bytes = 5, hc_label = lit ''Blur'',
     hc_category = lit ''fx''\<rparr>"

definition demo_limits :: history_limits where
  "demo_limits = \<lparr>lim_max_entries = 2, lim_max_bytes = 12, lim_max_checkpoint_bytes = 6\<rparr>"

definition demo_start :: "nat manual_history" where
  "demo_start = \<lparr>mh_limits = demo_limits, mh_undo = [], mh_redo = [], mh_undo_bytes = 0, mh_redo_bytes = 0,
      mh_open = None, mh_pending = None, mh_next_restore_token = 1, mh_generation = 1\<rparr>"

definition demo_run :: "nat hist_op list" where
  "demo_run = [HRecord BrowserManual (demo_checkpoint 1) [2], HRecord NativeManual (demo_checkpoint 2) [3],
     HRecord BrowserManual (demo_checkpoint 3) [4]]"

lemma demo_start: "with_limits demo_limits = Inr demo_start"
  by (simp add: with_limits_def limits_bounded_def demo_limits_def demo_start_def HISTORY_MAX_ENTRIES_def
      HISTORY_MAX_BYTES_def HISTORY_MAX_CHECKPOINT_BYTES_def)

lemmas hist_eval = hist_step_def fst_result_def record_manual_def validate_checkpoint_def
  trim_to_limits_def push_undo_def clear_redo_def over_limits_def pop_oldest_def bump_generation_def
  bump_cases sat_add_def sat_sub_def demo_checkpoint_def demo_limits_def demo_start_def demo_run_def
  evict_while.simps

lemma demo_after: "foldl hist_step demo_start demo_run =
    demo_start\<lparr>mh_undo := [demo_checkpoint 2, demo_checkpoint 3], mh_undo_bytes := 10, mh_generation := 4\<rparr>"
  by (simp add: hist_eval)

theorem history_stays_within_limits_witness:
  "held_bytes (foldl hist_step demo_start demo_run) = 10 \<and> (10 :: nat) \<le> 12 \<and>
   unat (met_bytes (history_metrics_of (foldl hist_step demo_start demo_run))) = 10"
  using history_stays_within_limits [OF demo_start refl refl, of demo_run]
  by (simp add: demo_after held_bytes_def) (simp add: demo_start_def demo_checkpoint_def)

text \<open>Recording forgets only the oldest, and no more than needed: in every reachable history that is
  idle, a changed manual mutation is appended to the undo entries and the redo entries are cleared;
  of the entries so obtained a prefix of length \<open>k\<close> is forgotten, never the new entry itself, and every
  shorter prefix would have left the history over one of its limits.\<close>

theorem record_manual_forgets_oldest:
  assumes "with_limits l = Inr h0" and "h = foldl hist_step h0 es"
    and "origin_is_manual origin" and "mh_pending h = None" and "mh_open h = None"
    and "hc_bytes before \<le> lim_max_checkpoint_bytes l" and "hc_fingerprint before \<noteq> after"
  shows "\<exists>k h'. record_manual h origin before after = Inr (h', Recorded) \<and>
    mh_undo h' = drop k (mh_undo h @ [before]) \<and> mh_redo h' = [] \<and> k \<le> length (mh_undo h) \<and>
    (\<forall>j<k. lim_max_entries l < length (drop j (mh_undo h @ [before])) \<or>
       unat (lim_max_bytes l) < bytes_of (drop j (mh_undo h @ [before])))"
  using record_manual_shape [of h origin before after] run_inv [OF assms(1), of es] assms
  by (simp add: word_le_nat_alt)

theorem record_manual_forgets_oldest_witness:
  "\<exists>k h'. record_manual (foldl hist_step demo_start demo_run) NativeManual (demo_checkpoint 4) [9] =
      Inr (h', Recorded) \<and> mh_undo h' = drop k [demo_checkpoint 2, demo_checkpoint 3, demo_checkpoint 4] \<and> k \<le> 2"
  using record_manual_forgets_oldest [OF demo_start refl, of NativeManual demo_run "demo_checkpoint 4" "[9]"]
  unfolding demo_after
  by (fastforce simp: demo_start_def demo_checkpoint_def demo_limits_def)

text \<open>C3. Redo takes back an undo: in every reachable idle history with an undo entry and two unused
  tokens, when the current state's checkpoint carries the entry's descriptor and fits the limits,
  preparing and committing an undo hands out the newest entry, preparing and committing a redo then
  hands out the checkpoint that the undo stored, and both stacks and both byte counters are as
  before.\<close>

theorem undo_redo_round_trip:
  assumes "with_limits l = Inr h0" and "h = foldl hist_step h0 es"
    and "mh_open h = None" and "mh_pending h = None" and "mh_undo h \<noteq> []"
    and "mh_next_restore_token h \<noteq> 0" and "mh_next_restore_token h \<noteq> - 1"
    and "hc_label c = hc_label (last (mh_undo h))" and "hc_category c = hc_category (last (mh_undo h))"
    and "hc_bytes c \<le> lim_max_checkpoint_bytes l"
    and "bytes_of (butlast (mh_undo h)) + bytes_of (mh_redo h) + unat (hc_bytes c) \<le> unat (lim_max_bytes l)"
  shows "\<exists>h1 h2 h3 h4 undo redo.
    prepare_restore h Undo = Inr (h1, Some undo) \<and> rc_target undo = last (mh_undo h) \<and>
    commit_restore h1 (rc_token undo) c = Inr h2 \<and>
    prepare_restore h2 Redo = Inr (h3, Some redo) \<and> rc_target redo = c \<and>
    commit_restore h3 (rc_token redo) (rc_target undo) = Inr h4 \<and>
    mh_undo h4 = mh_undo h \<and> mh_redo h4 = mh_redo h \<and>
    mh_undo_bytes h4 = mh_undo_bytes h \<and> mh_redo_bytes h4 = mh_redo_bytes h"
proof -
  note i = run_inv [OF assms(1), of es, folded assms(2)]
  have "unat (hc_bytes c) \<le> unat (lim_max_checkpoint_bytes (mh_limits h))"
    using assms(10) i(2) by (simp add: word_le_nat_alt)
  with i(1) assms(3-9,11) show ?thesis by (intro undo_redo_inverse) (simp_all add: i(2))
qed

theorem undo_redo_round_trip_witness:
  "\<exists>h1 h2 h3 h4 undo redo.
    prepare_restore (foldl hist_step demo_start demo_run) Undo = Inr (h1, Some undo) \<and>
    commit_restore h1 (rc_token undo) (demo_checkpoint 9) = Inr h2 \<and>
    prepare_restore h2 Redo = Inr (h3, Some redo) \<and> rc_target redo = demo_checkpoint 9 \<and>
    commit_restore h3 (rc_token redo) (rc_target undo) = Inr h4 \<and>
    mh_undo h4 = [demo_checkpoint 2, demo_checkpoint 3]"
proof -
  have "mh_next_restore_token (foldl hist_step demo_start demo_run) \<noteq> - 1"
    unfolding demo_after by (simp add: demo_start_def)
  with undo_redo_round_trip [OF demo_start refl, of demo_run "demo_checkpoint 9"] show ?thesis
    unfolding demo_after by (fastforce simp: demo_start_def demo_checkpoint_def demo_limits_def)
qed

text \<open>A restore token works once: in every reachable history, after a restore with token \<open>t\<close> was
  committed or rejected, every later attempt to commit or reject with \<open>t\<close>, after any further
  operations, is answered by NoRestorePending or StaleRestoreToken.\<close>

theorem restore_token_single_use:
  assumes "with_limits l = Inr h0" and "h = foldl hist_step h0 es"
    and "commit_restore h t c = Inr h' \<or> reject_restore h t = Inr h'"
    and "later = foldl hist_step h' es'"
  shows "reject_restore later t \<in> {Inl NoRestorePending, Inl StaleRestoreToken} \<and>
    commit_restore later t c' \<in> {Inl NoRestorePending, Inl StaleRestoreToken}"
proof -
  have "hist_inv_from (mh_limits h') (unat t + 1) h'"
    using run_inv(1) [OF assms(1), of es, folded assms(2)] assms(3) by (rule consuming_token)
  from hist.inv_run [OF this, of es'] show ?thesis unfolding assms(4) by (rule consumed_token) simp
qed

theorem restore_token_single_use_witness:
  "commit_restore (foldl hist_step (foldl hist_step demo_start (demo_run @ [HPrepare Undo, HReject 1]))
      [HPrepare Redo, HPrepare Undo]) 1 (demo_checkpoint 9) \<in> {Inl NoRestorePending, Inl StaleRestoreToken}"
proof -
  let ?h = "foldl hist_step demo_start (demo_run @ [HPrepare Undo])"
  have "reject_restore ?h 1 = Inr (foldl hist_step demo_start (demo_run @ [HPrepare Undo, HReject 1]))"
    by (simp add: demo_after) (simp add: hist_eval prepare_restore_def stack_back_def
        allocate_restore_token_def checked_add_def reject_restore_def Let_def)
  with restore_token_single_use [OF demo_start refl, of "demo_run @ [HPrepare Undo]" 1 "demo_checkpoint 9"
      "foldl hist_step demo_start (demo_run @ [HPrepare Undo, HReject 1])"
      "foldl hist_step (foldl hist_step demo_start (demo_run @ [HPrepare Undo, HReject 1])) [HPrepare Redo, HPrepare Undo]"
      "[HPrepare Redo, HPrepare Undo]" "demo_checkpoint 9"]
  show ?thesis by blast
qed

text \<open>The stack cannot change under a pending restore: in every reachable history a commit is never
  answered by RestoreStackChanged, since no operation moves the stacks while a restore is pending.\<close>

theorem restore_stack_never_changed:
  assumes "with_limits l = Inr h0"
  shows "commit_restore (foldl hist_step h0 es) t c \<noteq> Inl RestoreStackChanged"
  using run_inv(1) [OF assms, of es]
  by (auto simp: commit_restore_def hist_inv_def rbind_Inl validate_checkpoint_def Let_def
      split: option.splits if_splits)

theorem restore_stack_never_changed_witness:
  "commit_restore (foldl hist_step demo_start (demo_run @ [HPrepare Undo])) 1 (demo_checkpoint 9) \<noteq> Inl RestoreStackChanged"
  by (rule restore_stack_never_changed [OF demo_start])

text \<open>Only people write history: dropping every begin and every recording of a non-manual origin
  (MIDI, LFO, audio, OSC, clip triggers, collision scores, automation) from a sequence of operations
  leaves the final history the same, and an open gesture always belongs to a manual origin.\<close>

theorem automation_leaves_no_history:
  "foldl hist_step h (filter touches_history es) = foldl hist_step h es \<and>
   (\<forall>l h0. with_limits l = Inr h0 \<longrightarrow>
      (case mh_open (foldl hist_step h0 es) of None \<Rightarrow> True | Some g \<Rightarrow> origin_is_manual (og_origin g)))"
proof -
  have "case mh_open (foldl hist_step h0 es) of None \<Rightarrow> True | Some g \<Rightarrow> origin_is_manual (og_origin g)"
    if "with_limits l = Inr h0" for l and h0 :: "'a manual_history"
    using run_inv(1) [OF that, of es] by (auto simp: hist_inv_def split: option.splits)
  then show ?thesis using run_skips_untouched by blast
qed

theorem automation_leaves_no_history_witness:
  "foldl hist_step demo_start (demo_run @ [HRecord MMidi (demo_checkpoint 7) [8]]) =
   foldl hist_step demo_start demo_run"
  using automation_leaves_no_history [of demo_start "demo_run @ [HRecord MMidi (demo_checkpoint 7) [8]]"]
  by (simp add: demo_run_def)

end
