(* ===== verification/Scene_Performance.thy ===== *)
theory Scene_Performance
  imports Rust_Text
begin

text \<open>
  The bounded collections of \<open>src/src/performance.rs\<close>: clip slots of a layer, scene bindings, scenes
  and Autopilot steps, with their construction, lookup, update and (de)serialization, and the check
  that a plan names only existing scenes.  Identities are unsigned numbers with their
  validating constructors.  The transport settings and the saved playhead of a clip slot are
  type parameters, since no operation here looks into them.  A serialized sequence is the list of
  its elements; a deserialized one is the list of what \<open>next_element\<close> returns, an error or a value.
\<close>

section \<open>Bounds and identities\<close>

definition MAX_CLIP_SLOTS_PER_LAYER :: nat where "MAX_CLIP_SLOTS_PER_LAYER = 32"
definition MAX_SCENES :: nat where "MAX_SCENES = 128"
definition MAX_SCENE_BINDINGS :: nat where "MAX_SCENE_BINDINGS = 256"
definition MAX_AUTOPILOT_STEPS :: nat where "MAX_AUTOPILOT_STEPS = 128"
definition MAX_AUTOPILOT_HOLD_BEATS :: u16 where "MAX_AUTOPILOT_HOLD_BEATS = 256"
definition DEFAULT_AUTOPILOT_HOLD_BEATS :: u16 where "DEFAULT_AUTOPILOT_HOLD_BEATS = 4"
definition MAX_SAVED_LAYER_POSITION :: u32 where "MAX_SAVED_LAYER_POSITION = 4095"

type_synonym clip_slot_id = u16
type_synonym scene_id = u16
type_synonym hold_beats = u16
type_synonym layer_position = u32

definition CLIP_SLOT_LEGACY :: clip_slot_id where "CLIP_SLOT_LEGACY = 1"

definition clip_slot_id_new :: "u16 \<Rightarrow> clip_slot_id option" where
  "clip_slot_id_new v = (if v = 0 then None else Some v)"

definition scene_id_new :: "u16 \<Rightarrow> scene_id option" where
  "scene_id_new v = (if v = 0 then None else Some v)"

definition hold_beats_new :: "u16 \<Rightarrow> hold_beats option" where
  "hold_beats_new v = (if v = 0 \<or> MAX_AUTOPILOT_HOLD_BEATS < v then None else Some v)"

definition layer_position_new :: "u32 \<Rightarrow> layer_position option" where
  "layer_position_new v = (if v \<le> MAX_SAVED_LAYER_POSITION then Some v else None)"

definition layer_position_resolve :: "layer_position \<Rightarrow> 'a list \<Rightarrow> 'a option" where
  "layer_position_resolve p layers = (if unat p < length layers then Some (layers ! unat p) else None)"

text \<open>The four \<open>Deserialize\<close> implementations: read the number, then the constructor's check.\<close>

datatype id_error = ClipSlotIdZero | SceneIdZero | HoldBeatsRange | LayerPositionRange

definition clip_slot_id_deserialize :: "u16 \<Rightarrow> id_error + clip_slot_id" where
  "clip_slot_id_deserialize v = ok_or (clip_slot_id_new v) ClipSlotIdZero"

definition scene_id_deserialize :: "u16 \<Rightarrow> id_error + scene_id" where
  "scene_id_deserialize v = ok_or (scene_id_new v) SceneIdZero"

definition hold_beats_deserialize :: "u16 \<Rightarrow> id_error + hold_beats" where
  "hold_beats_deserialize v = ok_or (hold_beats_new v) HoldBeatsRange"

definition layer_position_deserialize :: "u32 \<Rightarrow> id_error + layer_position" where
  "layer_position_deserialize v = ok_or (layer_position_new v) LayerPositionRange"

section \<open>Records and errors\<close>

record ('t, 'p) clip_slot_config =
  cs_id :: clip_slot_id
  cs_name :: rstr
  cs_filename :: rstr
  cs_source_path :: rstr
  cs_transport :: 't
  cs_saved_playhead :: 'p

record scene_binding =
  sb_layer_position :: layer_position
  sb_slot_id :: clip_slot_id
  sb_cue_id :: "u16 option"

datatype trigger_mode = TmImmediate | TmNextBeat | TmNextBar

record scene =
  sc_id :: scene_id
  sc_name :: rstr
  sc_trigger_mode :: trigger_mode
  sc_bindings :: "scene_binding list"

datatype autopilot_repeat = RepOnce | RepLoop

record autopilot_step =
  as_scene_id :: scene_id
  as_hold_beats :: hold_beats

record autopilot_plan =
  ap_repeat :: autopilot_repeat
  ap_steps :: "autopilot_step list"

datatype collection_name = ClipSlotsName | SceneBindingsName | ScenesName | AutopilotStepsName

datatype collection_error =
    CEmpty collection_name
  | CTooMany collection_name nat
  | CDuplicateId collection_name u16
  | CDuplicateLayerPosition u32

section \<open>Lookup by identity in a sequence\<close>

text \<open>\<open>iter().find\<close>, \<open>iter().position\<close> and the insertion loop over a hash set of keys.\<close>

fun position :: "('a \<Rightarrow> bool) \<Rightarrow> 'a list \<Rightarrow> nat option" where
  "position p [] = None"
| "position p (x # xs) = (if p x then Some 0 else map_option Suc (position p xs))"

fun first_duplicate :: "('a \<Rightarrow> 'k) \<Rightarrow> 'k set \<Rightarrow> 'a list \<Rightarrow> 'a option" where
  "first_duplicate key seen [] = None"
| "first_duplicate key seen (x # xs) =
     (if key x \<in> seen then Some x else first_duplicate key (insert (key x) seen) xs)"

definition remove_at :: "nat \<Rightarrow> 'a list \<Rightarrow> 'a list" where
  "remove_at i xs = take i xs @ drop (Suc i) xs"

section \<open>Clip slots\<close>

type_synonym ('t, 'p) clip_slots = "('t, 'p) clip_slot_config list"

definition clip_slots_try_from_vec ::
  "('t, 'p) clip_slot_config list \<Rightarrow> collection_error + ('t, 'p) clip_slots" where
  "clip_slots_try_from_vec entries =
     (if entries = [] then Inl (CEmpty ClipSlotsName)
      else if MAX_CLIP_SLOTS_PER_LAYER < length entries
        then Inl (CTooMany ClipSlotsName MAX_CLIP_SLOTS_PER_LAYER)
      else case first_duplicate cs_id {} entries of
          Some slot \<Rightarrow> Inl (CDuplicateId ClipSlotsName (cs_id slot))
        | None \<Rightarrow> Inr entries)"

definition clip_slots_singleton :: "('t, 'p) clip_slot_config \<Rightarrow> ('t, 'p) clip_slots" where
  "clip_slots_singleton slot = [slot]"

definition clip_slots_get :: "('t, 'p) clip_slots \<Rightarrow> clip_slot_id \<Rightarrow> ('t, 'p) clip_slot_config option" where
  "clip_slots_get c i = List.find (\<lambda>slot. cs_id slot = i) c"

definition clip_slots_upsert ::
  "('t, 'p) clip_slots \<Rightarrow> ('t, 'p) clip_slot_config \<Rightarrow> collection_error + ('t, 'p) clip_slots" where
  "clip_slots_upsert c slot =
     (case position (\<lambda>s. cs_id s = cs_id slot) c of
        Some i \<Rightarrow> Inr (c[i := slot])
      | None \<Rightarrow>
          if length c = MAX_CLIP_SLOTS_PER_LAYER then Inl (CTooMany ClipSlotsName MAX_CLIP_SLOTS_PER_LAYER)
          else Inr (c @ [slot]))"

definition clip_slots_remove_if_not_last ::
  "('t, 'p) clip_slots \<Rightarrow> clip_slot_id \<Rightarrow> ('t, 'p) clip_slots \<times> ('t, 'p) clip_slot_config option" where
  "clip_slots_remove_if_not_last c i =
     (if length c \<le> 1 then (c, None)
      else case position (\<lambda>s. cs_id s = i) c of
          None \<Rightarrow> (c, None)
        | Some index \<Rightarrow> (remove_at index c, Some (c ! index)))"

definition clip_slots_first_id :: "('t, 'p) clip_slots \<Rightarrow> clip_slot_id option" where
  "clip_slots_first_id c = (case c of [] \<Rightarrow> None | slot # _ \<Rightarrow> Some (cs_id slot))"

definition clip_slots_active_or_first ::
  "('t, 'p) clip_slots \<Rightarrow> clip_slot_id option \<Rightarrow> clip_slot_id option" where
  "clip_slots_active_or_first c requested =
     (case requested of
        Some i \<Rightarrow> if clip_slots_get c i \<noteq> None then Some i else clip_slots_first_id c
      | None \<Rightarrow> clip_slots_first_id c)"

section \<open>Scene bindings, scenes, steps\<close>

definition scene_bindings_try_from_vec :: "scene_binding list \<Rightarrow> collection_error + scene_binding list"
  where
  "scene_bindings_try_from_vec entries =
     (if MAX_SCENE_BINDINGS < length entries then Inl (CTooMany SceneBindingsName MAX_SCENE_BINDINGS)
      else case first_duplicate sb_layer_position {} entries of
          Some b \<Rightarrow> Inl (CDuplicateLayerPosition (sb_layer_position b))
        | None \<Rightarrow> Inr entries)"

type_synonym scenes = "scene list"

definition scenes_try_from_vec :: "scene list \<Rightarrow> collection_error + scenes" where
  "scenes_try_from_vec entries =
     (if MAX_SCENES < length entries then Inl (CTooMany ScenesName MAX_SCENES)
      else case first_duplicate sc_id {} entries of
          Some s \<Rightarrow> Inl (CDuplicateId ScenesName (sc_id s))
        | None \<Rightarrow> Inr entries)"

definition scenes_get :: "scenes \<Rightarrow> scene_id \<Rightarrow> scene option" where
  "scenes_get c i = List.find (\<lambda>s. sc_id s = i) c"

definition scenes_upsert :: "scenes \<Rightarrow> scene \<Rightarrow> collection_error + scenes" where
  "scenes_upsert c s =
     (case position (\<lambda>t. sc_id t = sc_id s) c of
        Some i \<Rightarrow> Inr (c[i := s])
      | None \<Rightarrow>
          if length c = MAX_SCENES then Inl (CTooMany ScenesName MAX_SCENES) else Inr (c @ [s]))"

definition scenes_remove :: "scenes \<Rightarrow> scene_id \<Rightarrow> scenes \<times> scene option" where
  "scenes_remove c i =
     (case position (\<lambda>s. sc_id s = i) c of
        None \<Rightarrow> (c, None)
      | Some index \<Rightarrow> (remove_at index c, Some (c ! index)))"

definition autopilot_steps_try_from_vec ::
  "autopilot_step list \<Rightarrow> collection_error + autopilot_step list" where
  "autopilot_steps_try_from_vec entries =
     (if MAX_AUTOPILOT_STEPS < length entries then Inl (CTooMany AutopilotStepsName MAX_AUTOPILOT_STEPS)
      else Inr entries)"

definition autopilot_plan_try_new ::
  "autopilot_repeat \<Rightarrow> autopilot_step list \<Rightarrow> collection_error + autopilot_plan" where
  "autopilot_plan_try_new rep steps =
     rbind (autopilot_steps_try_from_vec steps) (\<lambda>s. Inr \<lparr>ap_repeat = rep, ap_steps = s\<rparr>)"

definition autopilot_plan_is_empty :: "autopilot_plan \<Rightarrow> bool" where
  "autopilot_plan_is_empty plan = (ap_steps plan = [])"

record scene_reference_issue =
  sri_step_index :: nat
  sri_scene_id :: scene_id

fun validate_scenes_from :: "scenes \<Rightarrow> nat \<Rightarrow> autopilot_step list \<Rightarrow> scene_reference_issue + unit" where
  "validate_scenes_from scenes i [] = Inr ()"
| "validate_scenes_from scenes i (s # ss) =
     (if scenes_get scenes (as_scene_id s) = None
      then Inl \<lparr>sri_step_index = i, sri_scene_id = as_scene_id s\<rparr>
      else validate_scenes_from scenes (Suc i) ss)"

definition validate_scenes :: "autopilot_plan \<Rightarrow> scenes \<Rightarrow> scene_reference_issue + unit" where
  "validate_scenes plan scenes = validate_scenes_from scenes 0 (ap_steps plan)"

section \<open>Reading a sequence\<close>

datatype 'e sequence_error = ElementError 'e | OverCapacity nat | Collection collection_error

text \<open>The loop of the four \<open>visit_seq\<close> functions: stop at the first bad element, refuse the element
  after the last allowed one.\<close>

fun read_entries :: "nat \<Rightarrow> 'a list \<Rightarrow> ('e + 'a) list \<Rightarrow> 'e sequence_error + 'a list" where
  "read_entries cap entries [] = Inr entries"
| "read_entries cap entries (Inl e # rest) = Inl (ElementError e)"
| "read_entries cap entries (Inr x # rest) =
     (if length entries = cap then Inl (OverCapacity cap) else read_entries cap (entries @ [x]) rest)"

definition visit_seq ::
  "nat \<Rightarrow> ('a list \<Rightarrow> collection_error + 'c) \<Rightarrow> ('e + 'a) list \<Rightarrow> 'e sequence_error + 'c" where
  "visit_seq cap try_from_vec els =
     rbind (read_entries cap [] els) (\<lambda>entries.
       case try_from_vec entries of Inl e \<Rightarrow> Inl (Collection e) | Inr c \<Rightarrow> Inr c)"

definition clip_slots_deserialize ::
  "('e + ('t, 'p) clip_slot_config) list \<Rightarrow> 'e sequence_error + ('t, 'p) clip_slots" where
  "clip_slots_deserialize els = visit_seq MAX_CLIP_SLOTS_PER_LAYER clip_slots_try_from_vec els"

definition scene_bindings_deserialize ::
  "('e + scene_binding) list \<Rightarrow> 'e sequence_error + scene_binding list" where
  "scene_bindings_deserialize els = visit_seq MAX_SCENE_BINDINGS scene_bindings_try_from_vec els"

definition scenes_deserialize :: "('e + scene) list \<Rightarrow> 'e sequence_error + scenes" where
  "scenes_deserialize els = visit_seq MAX_SCENES scenes_try_from_vec els"

definition autopilot_steps_deserialize ::
  "('e + autopilot_step) list \<Rightarrow> 'e sequence_error + autopilot_step list" where
  "autopilot_steps_deserialize els = visit_seq MAX_AUTOPILOT_STEPS autopilot_steps_try_from_vec els"

text \<open>\<open>serialize_seq\<close> followed by one \<open>serialize_element\<close> per entry.\<close>

definition serialize_entries :: "'a list \<Rightarrow> 'a list" where
  "serialize_entries c = foldl (\<lambda>out x. out @ [x]) [] c"

end
