(* ===== verification/Collection_Laws.thy ===== *)
theory Collection_Laws
  imports Scene_Performance
begin

text \<open>
  The promises of the bounded collections: construction and deserialization accept exactly the
  bounded sequences without repeated identities, serialization is undone by deserialization, and
  the identity-keyed collections behave as finite maps of bounded size whose order is the order of
  first insertion.  The interface their clients use is the locale \<open>keyed_store\<close>.
\<close>

section \<open>Sequences with a key\<close>

lemma first_duplicate_None:
  "first_duplicate key seen xs = None \<longleftrightarrow> distinct (map key xs) \<and> key ` set xs \<inter> seen = {}"
  by (induction key seen xs rule: first_duplicate.induct) auto

lemma first_duplicate_Some:
  "first_duplicate key seen xs = Some x \<Longrightarrow>
   \<exists>us vs. xs = us @ x # vs \<and> first_duplicate key seen us = None \<and> key x \<in> seen \<union> key ` set us"
proof (induction key seen xs rule: first_duplicate.induct)
  case (2 key seen y ys)
  show ?case
  proof (cases "key y \<in> seen")
    case True
    with 2 show ?thesis by (intro exI [of _ "[]"] exI [of _ ys]) auto
  next
    case False
    with 2 obtain us vs where u: "ys = us @ x # vs" "first_duplicate key (insert (key y) seen) us = None"
      "key x \<in> insert (key y) seen \<union> key ` set us" by auto
    with False show ?thesis by (intro exI [of _ "y # us"] exI [of _ vs]) auto
  qed
qed simp

lemma position_None: "position p xs = None \<longleftrightarrow> (\<forall>x \<in> set xs. \<not> p x)"
  by (induction xs) auto

lemma position_Some:
  "position p xs = Some i \<Longrightarrow> i < length xs \<and> p (xs ! i) \<and> List.find p xs = Some (xs ! i)"
  by (induction xs arbitrary: i) (auto split: if_splits)

lemma position_key: "position (\<lambda>y. key y = k) xs = Some i \<Longrightarrow> \<exists>y \<in> set xs. k = key y"
  by (induction xs arbitrary: i) (auto split: if_splits)

lemma find_None: "List.find p xs = None \<longleftrightarrow> (\<forall>x \<in> set xs. \<not> p x)"
  by (induction xs) auto

lemma find_append: "List.find p (xs @ ys) = (case List.find p xs of None \<Rightarrow> List.find p ys | Some x \<Rightarrow> Some x)"
  by (induction xs) auto

lemma find_append_fresh:
  "\<forall>y \<in> set xs. key y \<noteq> key x \<Longrightarrow>
   List.find (\<lambda>y. key y = k) (xs @ [x]) = (if key x = k then Some x else List.find (\<lambda>y. key y = k) xs)"
  by (induction xs) auto

lemma find_keyed_Some: "List.find (\<lambda>x. key x = k) xs = Some x \<Longrightarrow> key x = k"
  by (induction xs) (auto split: if_splits)

lemma find_position_update:
  "position (\<lambda>y. key y = key x) xs = Some i \<Longrightarrow>
   List.find (\<lambda>y. key y = k) (xs[i := x]) =
     (if key x = k then Some x else List.find (\<lambda>y. key y = k) xs)"
  by (induction xs arbitrary: i) (auto split: if_splits nat.splits)

lemma map_key_update: "i < length xs \<Longrightarrow> key (xs ! i) = key x \<Longrightarrow> map key (xs[i := x]) = map key xs"
  by (metis list_update_id map_update nth_map)

lemma remove_at_subset: "set (remove_at i xs) \<subseteq> set xs"
  by (auto simp: remove_at_def dest: in_set_takeD in_set_dropD)

lemma length_remove_at: "i < length xs \<Longrightarrow> length (remove_at i xs) = length xs - 1"
  by (simp add: remove_at_def)

lemma distinct_remove_at: "distinct (map key xs) \<Longrightarrow> distinct (map key (remove_at i xs))"
proof -
  assume d: "distinct (map key xs)"
  have "map key xs = map key (take i xs) @ map key (drop i xs)" by (simp flip: map_append)
  then show ?thesis using d
    by (cases "i < length xs") (auto simp: remove_at_def Cons_nth_drop_Suc [symmetric])
qed

lemma find_remove_at:
  "distinct (map key xs) \<Longrightarrow> position (\<lambda>y. key y = k) xs = Some i \<Longrightarrow>
   List.find (\<lambda>y. key y = k') (remove_at i xs) = (if k' = k then None else List.find (\<lambda>y. key y = k') xs)"
proof (induction xs arbitrary: i)
  case (Cons y ys)
  show ?case
  proof (cases "key y = k")
    case True
    with Cons.prems have i: "i = 0" by simp
    from True Cons.prems(1) have "\<forall>z \<in> set ys. key z \<noteq> k" by (metis distinct.simps(2) image_eqI list.simps(9) set_map)
    then have "List.find (\<lambda>z. key z = k) ys = None" by (simp add: find_None)
    with True i show ?thesis by (auto simp: remove_at_def)
  next
    case False
    with Cons.prems obtain j where j: "i = Suc j" "position (\<lambda>y. key y = k) ys = Some j" by auto
    have "remove_at i (y # ys) = y # remove_at j ys" by (simp add: j remove_at_def)
    with Cons.IH [of j] Cons.prems j False show ?thesis by auto
  qed
qed simp

section \<open>The interface of a keyed collection\<close>

text \<open>What a client may assume of \<open>get\<close> and \<open>upsert\<close>; \<open>keys\<close> lists the identities in their order.\<close>

primrec upsert_all :: "('c \<Rightarrow> 'a \<Rightarrow> 'e + 'c) \<Rightarrow> 'a list \<Rightarrow> 'c \<Rightarrow> 'e + 'c" where
  "upsert_all upsert [] c = Inr c"
| "upsert_all upsert (x # xs) c = rbind (upsert c x) (upsert_all upsert xs)"

locale keyed_store =
  fixes key :: "'a \<Rightarrow> 'k" and get :: "'c \<Rightarrow> 'k \<Rightarrow> 'a option" and upsert :: "'c \<Rightarrow> 'a \<Rightarrow> 'e + 'c"
    and keys :: "'c \<Rightarrow> 'k list" and cap :: nat
  assumes get_key: "get c k = Some x \<Longrightarrow> key x = k"
    and get_keys: "get c k = None \<longleftrightarrow> k \<notin> set (keys c)"
    and get_upsert: "upsert c x = Inr c' \<Longrightarrow> get c' k = (if key x = k then Some x else get c k)"
    and keys_upsert: "upsert c x = Inr c' \<Longrightarrow>
      keys c' = (if key x \<in> set (keys c) then keys c else keys c @ [key x])"
    and upsert_ok: "length (keys c) \<le> cap \<Longrightarrow>
      (\<exists>c'. upsert c x = Inr c') \<longleftrightarrow> key x \<in> set (keys c) \<or> length (keys c) < cap"
begin

lemma get_upsert_all:
  "upsert_all upsert xs c = Inr c' \<Longrightarrow>
   get c' k = (case List.find (\<lambda>x. key x = k) (rev xs) of Some x \<Rightarrow> Some x | None \<Rightarrow> get c k)"
proof (induction xs arbitrary: c)
  case (Cons x xs)
  from Cons.prems obtain d where d: "upsert c x = Inr d" "upsert_all upsert xs d = Inr c'"
    by (auto simp: rbind_Inr)
  from Cons.IH [OF d(2)] get_upsert [OF d(1), of k] show ?case
    by (auto simp: find_append split: option.splits)
qed simp

lemma upsert_wf:
  assumes "upsert c x = Inr c'" "distinct (keys c)" "length (keys c) \<le> cap"
  shows "distinct (keys c') \<and> length (keys c') \<le> cap"
  using assms keys_upsert [OF assms(1)] upsert_ok [OF assms(3), of x] by auto

lemma upsert_all_wf:
  "upsert_all upsert xs c = Inr c' \<Longrightarrow> distinct (keys c) \<Longrightarrow> length (keys c) \<le> cap \<Longrightarrow>
   distinct (keys c') \<and> length (keys c') \<le> cap"
proof (induction xs arbitrary: c)
  case (Cons x xs)
  from Cons.prems(1) obtain d where "upsert c x = Inr d" "upsert_all upsert xs d = Inr c'"
    by (auto simp: rbind_Inr)
  with Cons upsert_wf show ?case by blast
qed simp

lemma keys_upsert_all:
  "upsert_all upsert xs c = Inr c' \<Longrightarrow> set (keys c') = set (keys c) \<union> key ` set xs"
proof (induction xs arbitrary: c)
  case (Cons x xs)
  from Cons.prems obtain d where d: "upsert c x = Inr d" "upsert_all upsert xs d = Inr c'"
    by (auto simp: rbind_Inr)
  from Cons.IH [OF d(2)] keys_upsert [OF d(1)] show ?case by auto
qed simp

end

text \<open>Both keyed collections of the code provide it.\<close>

lemma keyed_get_keys: "List.find (\<lambda>y. key y = k) c = None \<longleftrightarrow> k \<notin> set (map key c)"
  by (auto simp: find_None)

interpretation scenes: keyed_store sc_id scenes_get scenes_upsert "map sc_id" MAX_SCENES
proof unfold_locales
  fix c :: scenes and x c'
  assume u: "scenes_upsert c x = Inr c'"
  show "scenes_get c' k = (if sc_id x = k then Some x else scenes_get c k)" for k
    using u by (auto simp: scenes_upsert_def scenes_get_def find_position_update find_append_fresh
        position_None split: option.splits if_splits)
  show "map sc_id c' = (if sc_id x \<in> set (map sc_id c) then map sc_id c else map sc_id c @ [sc_id x])"
    using u by (auto simp: scenes_upsert_def position_None map_key_update dest!: position_Some
        split: option.splits if_splits) (metis image_eqI nth_mem)
next
  fix c :: scenes and x
  assume "length (map sc_id c) \<le> MAX_SCENES"
  then show "(\<exists>c'. scenes_upsert c x = Inr c') \<longleftrightarrow>
      sc_id x \<in> set (map sc_id c) \<or> length (map sc_id c) < MAX_SCENES"
    by (auto simp: scenes_upsert_def position_None image_iff dest: position_key split: option.splits)
qed (auto simp: scenes_get_def find_None intro: find_keyed_Some)

interpretation clip_slots: keyed_store cs_id
  "clip_slots_get :: ('t, 'p) clip_slots \<Rightarrow> clip_slot_id \<Rightarrow> ('t, 'p) clip_slot_config option"
  clip_slots_upsert "map cs_id" MAX_CLIP_SLOTS_PER_LAYER
proof unfold_locales
  fix c :: "('t, 'p) clip_slots" and x c'
  assume u: "clip_slots_upsert c x = Inr c'"
  show "clip_slots_get c' k = (if cs_id x = k then Some x else clip_slots_get c k)" for k
    using u by (auto simp: clip_slots_upsert_def clip_slots_get_def find_position_update find_append_fresh
        position_None split: option.splits if_splits)
  show "map cs_id c' = (if cs_id x \<in> set (map cs_id c) then map cs_id c else map cs_id c @ [cs_id x])"
    using u by (auto simp: clip_slots_upsert_def position_None map_key_update dest!: position_Some
        split: option.splits if_splits) (metis image_eqI nth_mem)
next
  fix c :: "('t, 'p) clip_slots" and x
  assume "length (map cs_id c) \<le> MAX_CLIP_SLOTS_PER_LAYER"
  then show "(\<exists>c'. clip_slots_upsert c x = Inr c') \<longleftrightarrow>
      cs_id x \<in> set (map cs_id c) \<or> length (map cs_id c) < MAX_CLIP_SLOTS_PER_LAYER"
    by (auto simp: clip_slots_upsert_def position_None image_iff dest: position_key split: option.splits)
qed (auto simp: clip_slots_get_def find_None intro: find_keyed_Some)

section \<open>Reading and writing\<close>

lemma read_entries_Inr:
  "length acc \<le> cap \<Longrightarrow>
   read_entries cap acc els = Inr r \<longleftrightarrow> (\<exists>xs. els = map Inr xs \<and> r = acc @ xs \<and> length r \<le> cap)"
proof (induction cap acc els rule: read_entries.induct)
  case (3 cap acc x els)
  show ?case
  proof (cases "length acc = cap")
    case False
    with 3 have IH: "read_entries cap (acc @ [x]) els = Inr r \<longleftrightarrow>
        (\<exists>xs. els = map Inr xs \<and> r = (acc @ [x]) @ xs \<and> length r \<le> cap)" by simp
    with False show ?thesis by (auto simp: Cons_eq_map_conv)
  qed (auto simp: Cons_eq_map_conv)
qed auto

lemma visit_seq_Inr:
  assumes "\<And>xs c. f xs = Inr c \<Longrightarrow> length xs \<le> cap"
  shows "visit_seq cap f els = Inr c \<longleftrightarrow> (\<exists>xs. els = map Inr xs \<and> f xs = Inr c)"
proof -
  have "(case f xs of Inl e \<Rightarrow> Inl (Collection e) | Inr c \<Rightarrow> Inr c) = Inr c \<longleftrightarrow> f xs = Inr c" for xs
    by (cases "f xs") auto
  then show ?thesis using assms by (auto simp: visit_seq_def rbind_Inr read_entries_Inr)
qed

lemma serialize_entries_id: "serialize_entries c = c"
proof -
  have "foldl (\<lambda>out x. out @ [x]) acc c = acc @ c" for acc by (induction c arbitrary: acc) auto
  then show ?thesis by (simp add: serialize_entries_def)
qed

lemma scenes_try_from_vec_Inr:
  "scenes_try_from_vec xs = Inr c \<longleftrightarrow> c = xs \<and> length xs \<le> MAX_SCENES \<and> distinct (map sc_id xs)"
  by (auto simp: scenes_try_from_vec_def first_duplicate_None split: option.splits)
    (metis first_duplicate_None Int_empty_right option.distinct(1))+

lemma clip_slots_try_from_vec_Inr:
  "clip_slots_try_from_vec xs = Inr c \<longleftrightarrow>
     c = xs \<and> xs \<noteq> [] \<and> length xs \<le> MAX_CLIP_SLOTS_PER_LAYER \<and> distinct (map cs_id xs)"
  by (auto simp: clip_slots_try_from_vec_def first_duplicate_None split: option.splits)
    (metis first_duplicate_None Int_empty_right option.distinct(1))+

lemma scene_bindings_try_from_vec_Inr:
  "scene_bindings_try_from_vec xs = Inr c \<longleftrightarrow>
     c = xs \<and> length xs \<le> MAX_SCENE_BINDINGS \<and> distinct (map sb_layer_position xs)"
  by (auto simp: scene_bindings_try_from_vec_def first_duplicate_None split: option.splits)
    (metis first_duplicate_None Int_empty_right option.distinct(1))+

lemma autopilot_steps_try_from_vec_Inr:
  "autopilot_steps_try_from_vec xs = Inr c \<longleftrightarrow> c = xs \<and> length xs \<le> MAX_AUTOPILOT_STEPS"
  by (auto simp: autopilot_steps_try_from_vec_def)

lemmas try_from_vec_Inr = scenes_try_from_vec_Inr clip_slots_try_from_vec_Inr
  scene_bindings_try_from_vec_Inr autopilot_steps_try_from_vec_Inr

section \<open>Bounded finite maps\<close>

text \<open>The abstract state is the partial map from identities; an insertion at capacity is refused.\<close>

datatype scene_op = SUpsert scene | SRemove scene_id

fun scenes_step :: "scenes \<Rightarrow> scene_op \<Rightarrow> scenes" where
  "scenes_step c (SUpsert s) = (case scenes_upsert c s of Inr c' \<Rightarrow> c' | Inl _ \<Rightarrow> c)"
| "scenes_step c (SRemove i) = fst (scenes_remove c i)"

fun scene_map_step :: "(scene_id \<rightharpoonup> scene) \<Rightarrow> scene_op \<Rightarrow> (scene_id \<rightharpoonup> scene)" where
  "scene_map_step m (SUpsert s) =
     (if m (sc_id s) \<noteq> None \<or> card (dom m) < MAX_SCENES then m(sc_id s \<mapsto> s) else m)"
| "scene_map_step m (SRemove i) = m(i := None)"

definition scenes_wf :: "scenes \<Rightarrow> bool" where
  "scenes_wf c \<longleftrightarrow> distinct (map sc_id c) \<and> length c \<le> MAX_SCENES"

lemma card_dom_keyed:
  "distinct (map key c) \<Longrightarrow> card (dom (\<lambda>k. List.find (\<lambda>x. key x = k) c)) = length c"
proof -
  assume d: "distinct (map key c)"
  have "dom (\<lambda>k. List.find (\<lambda>x. key x = k) c) = set (map key c)" by (auto simp: dom_def find_None)
  then show ?thesis using distinct_card [OF d] by simp
qed

lemma scenes_step_refines:
  assumes "scenes_wf c"
  shows "scenes_wf (scenes_step c e) \<and> scenes_get (scenes_step c e) = scene_map_step (scenes_get c) e"
proof (cases e)
  case (SUpsert s)
  have card: "card (dom (scenes_get c)) = length c"
    using assms card_dom_keyed [of sc_id c] by (simp add: scenes_wf_def scenes_get_def [abs_def])
  show ?thesis
  proof (cases "scenes_upsert c s")
    case (Inl err)
    then show ?thesis using assms scenes.upsert_ok [of c s] scenes.get_keys [of c "sc_id s"]
      by (auto simp: SUpsert card scenes_wf_def)
  next
    case (Inr c')
    then show ?thesis using assms scenes.upsert_wf [OF Inr] scenes.get_upsert [OF Inr]
        scenes.upsert_ok [of c s] scenes.get_keys [of c "sc_id s"]
      by (auto simp: SUpsert card scenes_wf_def fun_eq_iff)
  qed
next
  case (SRemove i)
  show ?thesis
  proof (cases "position (\<lambda>s. sc_id s = i) c")
    case None
    with assms None [unfolded position_None] show ?thesis
      by (auto simp: SRemove scenes_remove_def scenes_get_def find_None fun_eq_iff)
  next
    case (Some j)
    with assms position_Some [OF Some] distinct_remove_at [of sc_id c j] length_remove_at [of j c] show ?thesis
      by (auto simp: SRemove scenes_remove_def scenes_get_def find_remove_at fun_eq_iff scenes_wf_def)
  qed
qed

interpretation scene_edits: invariant_machine scenes_step scenes_wf
  by unfold_locales (simp add: scenes_step_refines)

lemma scenes_run_refines:
  "scenes_wf c \<Longrightarrow> scenes_get (foldl scenes_step c es) = foldl scene_map_step (scenes_get c) es"
  by (induction es arbitrary: c) (simp_all add: scenes_step_refines)

datatype ('t, 'p) clip_op = CUpsert "('t, 'p) clip_slot_config" | CRemove clip_slot_id

fun clip_slots_step :: "('t, 'p) clip_slots \<Rightarrow> ('t, 'p) clip_op \<Rightarrow> ('t, 'p) clip_slots" where
  "clip_slots_step c (CUpsert s) = (case clip_slots_upsert c s of Inr c' \<Rightarrow> c' | Inl _ \<Rightarrow> c)"
| "clip_slots_step c (CRemove i) = fst (clip_slots_remove_if_not_last c i)"

definition clip_slots_wf :: "('t, 'p) clip_slots \<Rightarrow> bool" where
  "clip_slots_wf c \<longleftrightarrow> distinct (map cs_id c) \<and> c \<noteq> [] \<and> length c \<le> MAX_CLIP_SLOTS_PER_LAYER"

lemma clip_slots_step_wf: "clip_slots_wf c \<Longrightarrow> clip_slots_wf (clip_slots_step c e)"
proof (cases e)
  case (CUpsert s)
  assume w: "clip_slots_wf c"
  show ?thesis
  proof (cases "clip_slots_upsert c s")
    case (Inr c')
    then have "c' \<noteq> []" using w by (auto simp: clip_slots_upsert_def clip_slots_wf_def split: option.splits if_splits)
    with w clip_slots.upsert_wf [OF Inr] show ?thesis by (auto simp: CUpsert Inr clip_slots_wf_def)
  qed (use w in \<open>simp add: CUpsert\<close>)
next
  case (CRemove i)
  assume w: "clip_slots_wf c"
  show ?thesis
  proof (cases "position (\<lambda>s. cs_id s = i) c")
    case (Some j)
    have "length c \<le> 1 \<or> length (remove_at j c) \<ge> 1"
      using position_Some [OF Some] length_remove_at [of j c] by linarith
    with w Some position_Some [OF Some] distinct_remove_at [of cs_id c j] length_remove_at [of j c] show ?thesis
      by (auto simp: CRemove clip_slots_remove_if_not_last_def clip_slots_wf_def)
  qed (use w in \<open>simp add: CRemove clip_slots_remove_if_not_last_def\<close>)
qed

interpretation clip_edits: invariant_machine clip_slots_step clip_slots_wf
  by unfold_locales (rule clip_slots_step_wf)

lemma active_or_first_exists:
  "c \<noteq> [] \<Longrightarrow> \<exists>i. clip_slots_active_or_first c req = Some i \<and> clip_slots_get c i \<noteq> None"
  by (cases c) (auto simp: clip_slots_active_or_first_def clip_slots_first_id_def clip_slots_get_def
      split: option.splits)

section \<open>Plans and the scenes they name\<close>

lemma validate_scenes_from_Inr:
  "validate_scenes_from scenes i ss = Inr () \<longleftrightarrow> (\<forall>s \<in> set ss. scenes_get scenes (as_scene_id s) \<noteq> None)"
  by (induction scenes i ss rule: validate_scenes_from.induct) auto

lemma validate_scenes_from_Inl:
  "validate_scenes_from scenes i ss = Inl e \<Longrightarrow>
   \<exists>j < length ss. sri_step_index e = i + j \<and> sri_scene_id e = as_scene_id (ss ! j) \<and>
     scenes_get scenes (as_scene_id (ss ! j)) = None \<and>
     (\<forall>k < j. scenes_get scenes (as_scene_id (ss ! k)) \<noteq> None)"
proof (induction scenes i ss rule: validate_scenes_from.induct)
  case (2 scenes i s ss)
  show ?case
  proof (cases "scenes_get scenes (as_scene_id s) = None")
    case True
    with 2 show ?thesis by (intro exI [of _ 0]) auto
  next
    case False
    with 2 obtain j where "j < length ss" "sri_step_index e = Suc i + j" "sri_scene_id e = as_scene_id (ss ! j)"
      "scenes_get scenes (as_scene_id (ss ! j)) = None"
      "\<forall>k < j. scenes_get scenes (as_scene_id (ss ! k)) \<noteq> None" by auto
    with False show ?thesis by (intro exI [of _ "Suc j"]) (auto simp: nth_Cons split: nat.splits)
  qed
qed simp

lemma plan_survives_upserts:
  "validate_scenes plan c = Inr () \<Longrightarrow> upsert_all scenes_upsert xs c = Inr c' \<Longrightarrow>
   validate_scenes plan c' = Inr ()"
  using scenes.get_upsert_all [of xs c c']
  by (auto simp: validate_scenes_def validate_scenes_from_Inr split: option.splits)

section \<open>Properties\<close>

text \<open>The four sequence readers accept exactly the well-formed collections: reading what
  \<open>next_element\<close> returns succeeds with \<open>c\<close> just when every element was read without an error, the
  result is those elements in order (what serializing \<open>c\<close> writes), their number is within the
  collection's bound, clip slots are not empty, and no slot id, scene id or layer position repeats.\<close>

theorem collections_read_back_exactly:
  "(clip_slots_deserialize els1 = Inr c1 \<longleftrightarrow> els1 = map Inr (serialize_entries c1) \<and> c1 \<noteq> [] \<and>
      length c1 \<le> MAX_CLIP_SLOTS_PER_LAYER \<and> distinct (map cs_id c1)) \<and>
   (scenes_deserialize els2 = Inr c2 \<longleftrightarrow> els2 = map Inr (serialize_entries c2) \<and>
      length c2 \<le> MAX_SCENES \<and> distinct (map sc_id c2)) \<and>
   (scene_bindings_deserialize els3 = Inr c3 \<longleftrightarrow> els3 = map Inr (serialize_entries c3) \<and>
      length c3 \<le> MAX_SCENE_BINDINGS \<and> distinct (map sb_layer_position c3)) \<and>
   (autopilot_steps_deserialize els4 = Inr c4 \<longleftrightarrow> els4 = map Inr (serialize_entries c4) \<and>
      length c4 \<le> MAX_AUTOPILOT_STEPS)"
  unfolding clip_slots_deserialize_def scenes_deserialize_def scene_bindings_deserialize_def
    autopilot_steps_deserialize_def serialize_entries_id
  by (intro conjI; subst visit_seq_Inr) (auto simp: try_from_vec_Inr)

text \<open>C32. Scenes are a finite map of at most 128 entries: from any accepted start, after any sequence of
  upserts and removals the identities are distinct and at most 128, and looking up an identity gives
  what the corresponding updates of a partial map give, where an upsert of a new identity at
  capacity changes nothing.\<close>

theorem scenes_refine_bounded_map:
  assumes "scenes_try_from_vec entries = Inr c"
  shows "distinct (map sc_id (foldl scenes_step c es)) \<and> length (foldl scenes_step c es) \<le> 128 \<and>
    scenes_get (foldl scenes_step c es) = foldl scene_map_step (scenes_get c) es"
proof -
  have w: "scenes_wf c" using assms by (auto simp: scenes_try_from_vec_Inr scenes_wf_def)
  from scene_edits.inv_run [OF w, of es] scenes_run_refines [OF w, of es] show ?thesis
    by (simp add: scenes_wf_def MAX_SCENES_def)
qed

definition demo_scene :: "scene_id \<Rightarrow> trigger_mode \<Rightarrow> scene" where
  "demo_scene i m = \<lparr>sc_id = i, sc_name = [], sc_trigger_mode = m, sc_bindings = []\<rparr>"

theorem scenes_refine_bounded_map_witness:
  "scenes_try_from_vec [demo_scene 3 TmImmediate, demo_scene 5 TmNextBar] =
     Inr [demo_scene 3 TmImmediate, demo_scene 5 TmNextBar] \<and>
   scenes_get (foldl scenes_step [demo_scene 3 TmImmediate, demo_scene 5 TmNextBar]
     [SUpsert (demo_scene 3 TmNextBeat), SRemove 5]) 3 = Some (demo_scene 3 TmNextBeat)"
proof -
  have ok: "scenes_try_from_vec [demo_scene 3 TmImmediate, demo_scene 5 TmNextBar] =
      Inr [demo_scene 3 TmImmediate, demo_scene 5 TmNextBar]"
    by (simp add: scenes_try_from_vec_def demo_scene_def MAX_SCENES_def)
  from scenes_refine_bounded_map [OF this, of "[SUpsert (demo_scene 3 TmNextBeat), SRemove 5]"] ok show ?thesis
    by (simp add: scenes_get_def demo_scene_def)
qed

text \<open>A layer always has a playable slot: from any accepted start, after any sequence of upserts and
  removals a layer's slots are between 1 and 32 with distinct identities, and whatever slot was
  requested, the slot chosen as active exists, and is the requested one when that exists.\<close>

theorem clip_slots_always_playable:
  assumes "clip_slots_try_from_vec entries = Inr c" and "c' = foldl clip_slots_step c es"
  shows "1 \<le> length c' \<and> length c' \<le> 32 \<and> distinct (map cs_id c') \<and>
    (\<exists>i. clip_slots_active_or_first c' req = Some i \<and> clip_slots_get c' i \<noteq> None \<and>
       (\<forall>r. req = Some r \<and> clip_slots_get c' r \<noteq> None \<longrightarrow> i = r))"
proof -
  have "clip_slots_wf c" using assms(1) by (auto simp: clip_slots_try_from_vec_Inr clip_slots_wf_def)
  then have w: "clip_slots_wf c'" unfolding assms(2) by (rule clip_edits.inv_run)
  then obtain i where i: "clip_slots_active_or_first c' req = Some i" "clip_slots_get c' i \<noteq> None"
    using active_or_first_exists [of c' req] by (auto simp: clip_slots_wf_def)
  moreover have "i = r" if "req = Some r" "clip_slots_get c' r \<noteq> None" for r
    using i that by (simp add: clip_slots_active_or_first_def)
  ultimately show ?thesis using w by (auto simp: clip_slots_wf_def MAX_CLIP_SLOTS_PER_LAYER_def Suc_le_eq)
qed

definition demo_slot :: "clip_slot_id \<Rightarrow> (unit, unit) clip_slot_config" where
  "demo_slot i = \<lparr>cs_id = i, cs_name = [], cs_filename = [], cs_source_path = [], cs_transport = (),
     cs_saved_playhead = ()\<rparr>"

theorem clip_slots_always_playable_witness:
  "clip_slots_try_from_vec [demo_slot 1] = Inr [demo_slot 1] \<and>
   foldl clip_slots_step [demo_slot 1] [CUpsert (demo_slot 4), CRemove 1, CRemove 4] = [demo_slot 4] \<and>
   (\<exists>i. clip_slots_active_or_first [demo_slot 4] (Some 1) = Some i \<and> clip_slots_get [demo_slot 4] i \<noteq> None)"
proof -
  have ok: "clip_slots_try_from_vec [demo_slot 1] = Inr [demo_slot 1]"
    by (simp add: clip_slots_try_from_vec_def MAX_CLIP_SLOTS_PER_LAYER_def)
  have run: "foldl clip_slots_step [demo_slot 1] [CUpsert (demo_slot 4), CRemove 1, CRemove 4] = [demo_slot 4]"
    by (simp add: clip_slots_upsert_def clip_slots_remove_if_not_last_def remove_at_def demo_slot_def
        MAX_CLIP_SLOTS_PER_LAYER_def)
  from clip_slots_always_playable [OF ok run [symmetric], of "Some 1"] ok run show ?thesis by blast
qed

text \<open>A plan's check names the first missing scene: it succeeds exactly when every step names an
  existing scene; when it fails, the issue carries the index and identity of a step whose scene is
  missing while all earlier steps' scenes exist; and a plan that passed keeps passing after any
  sequence of successful scene upserts.\<close>

theorem plan_check_exact:
  "(validate_scenes plan c = Inr () \<longleftrightarrow> (\<forall>s \<in> set (ap_steps plan). scenes_get c (as_scene_id s) \<noteq> None)) \<and>
   (\<forall>e. validate_scenes plan c = Inl e \<longrightarrow> sri_step_index e < length (ap_steps plan) \<and>
      sri_scene_id e = as_scene_id (ap_steps plan ! sri_step_index e) \<and> scenes_get c (sri_scene_id e) = None \<and>
      (\<forall>k < sri_step_index e. scenes_get c (as_scene_id (ap_steps plan ! k)) \<noteq> None)) \<and>
   (\<forall>xs c'. validate_scenes plan c = Inr () \<and> upsert_all scenes_upsert xs c = Inr c' \<longrightarrow>
      validate_scenes plan c' = Inr ())"
  using validate_scenes_from_Inl [of c 0 "ap_steps plan"] plan_survives_upserts [of plan c]
  by (auto simp: validate_scenes_def validate_scenes_from_Inr)

theorem plan_check_exact_witness:
  "validate_scenes \<lparr>ap_repeat = RepLoop, ap_steps = [\<lparr>as_scene_id = 3, as_hold_beats = 4\<rparr>]\<rparr> [demo_scene 3 TmImmediate] = Inr () \<and>
   validate_scenes \<lparr>ap_repeat = RepLoop, ap_steps = [\<lparr>as_scene_id = 3, as_hold_beats = 4\<rparr>]\<rparr>
     [demo_scene 3 TmImmediate, demo_scene 9 TmNextBar] = Inr ()"
proof -
  let ?plan = "\<lparr>ap_repeat = RepLoop, ap_steps = [\<lparr>as_scene_id = 3, as_hold_beats = 4\<rparr>]\<rparr>"
  have a: "validate_scenes ?plan [demo_scene 3 TmImmediate] = Inr ()"
    by (simp add: validate_scenes_def scenes_get_def demo_scene_def)
  have "upsert_all scenes_upsert [demo_scene 9 TmNextBar] [demo_scene 3 TmImmediate] =
      Inr [demo_scene 3 TmImmediate, demo_scene 9 TmNextBar]"
    by (simp add: scenes_upsert_def demo_scene_def MAX_SCENES_def)
  with a plan_check_exact [of ?plan "[demo_scene 3 TmImmediate]"] show ?thesis by blast
qed

end
