(* ===== verification/Autopilot.thy ===== *)
theory Autopilot
  imports Collection_Laws
begin

text \<open>
  The Scene Autopilot of \<open>src/src/autopilot.rs\<close>: a scheduler that prepares the next scene of a plan,
  commits it on the first accepted beat at which its predecessor's hold has passed, stalls while the
  preparation is late and faults without skipping.  Every method of the code is one function from
  the scheduler to the scheduler and the commands it emits.
\<close>

section \<open>State\<close>

datatype autopilot_state = ApStopped | ApStarting | ApRunning | ApPaused | ApStalled | ApFaulted | ApComplete

record autopilot_target =
  at_epoch :: u64
  at_sequence :: u64
  at_step_index :: nat
  at_scene_id :: scene_id

datatype autopilot_command = CancelOwned u64 | Prepare autopilot_target | Commit autopilot_target

datatype readiness = RPending | RReady autopilot_target | RFaulted autopilot_target

record frame_input =
  fi_crossed_beats :: u32
  fi_media_running :: bool
  fi_readiness :: readiness

definition frame_running :: "u32 \<Rightarrow> readiness \<Rightarrow> frame_input" where
  "frame_running beats r = \<lparr>fi_crossed_beats = beats, fi_media_running = True, fi_readiness = r\<rparr>"

definition frame_reanchor :: "readiness \<Rightarrow> frame_input" where
  "frame_reanchor r = \<lparr>fi_crossed_beats = 0, fi_media_running = False, fi_readiness = r\<rparr>"

datatype play_error = PlayEmptyPlan | PlayMissingScene scene_reference_issue

datatype autopilot_fault =
    FaultEmptyPlan
  | FaultMissingScene scene_reference_issue
  | FaultPreparation autopilot_target
  | FaultCommit autopilot_target
  | FaultReference scene_id
  | FaultInvariant

record autopilot_scheduler =
  sch_state :: autopilot_state
  sch_resume_state :: "autopilot_state option"
  sch_epoch :: u64
  sch_next_sequence :: u64
  sch_plan :: "autopilot_plan option"
  sch_cursor :: nat
  sch_active_cursor :: "nat option"
  sch_last_commit :: "(autopilot_target \<times> nat option) option"
  sch_accepted :: u64
  sch_due :: "u64 option"
  sch_expected :: "autopilot_target option"
  sch_expected_ready :: bool
  sch_suppress :: bool
  sch_fault :: "autopilot_fault option"

definition autopilot_default :: autopilot_scheduler where
  "autopilot_default = \<lparr>sch_state = ApStopped, sch_resume_state = None, sch_epoch = 0,
     sch_next_sequence = 0, sch_plan = None, sch_cursor = 0, sch_active_cursor = None,
     sch_last_commit = None, sch_accepted = 0, sch_due = None, sch_expected = None,
     sch_expected_ready = False, sch_suppress = False, sch_fault = None\<rparr>"

section \<open>Inspection\<close>

definition remaining_hold_beats :: "autopilot_scheduler \<Rightarrow> u64 option" where
  "remaining_hold_beats s = map_option (\<lambda>due. sat_sub due (sch_accepted s)) (sch_due s)"

definition steps_get :: "autopilot_plan \<Rightarrow> nat \<Rightarrow> autopilot_step option" where
  "steps_get plan i = (if i < length (ap_steps plan) then Some (ap_steps plan ! i) else None)"

definition active_scene_id :: "autopilot_scheduler \<Rightarrow> scene_id option" where
  "active_scene_id s = Option.bind (sch_plan s) (\<lambda>plan. Option.bind (sch_active_cursor s) (\<lambda>i.
     map_option as_scene_id (steps_get plan i)))"

section \<open>Internal steps\<close>

definition advance_epoch :: "autopilot_scheduler \<Rightarrow> autopilot_scheduler \<times> u64" where
  "advance_epoch s =
     (let e = sch_epoch s + 1; e = (if e = 0 then 1 else e) in (s\<lparr>sch_epoch := e\<rparr>, sch_epoch s))"

definition clear_sequence_state :: "autopilot_scheduler \<Rightarrow> autopilot_scheduler" where
  "clear_sequence_state s = s\<lparr>sch_resume_state := None, sch_next_sequence := 0, sch_plan := None,
     sch_cursor := 0, sch_active_cursor := None, sch_last_commit := None, sch_accepted := 0,
     sch_due := None, sch_expected := None, sch_expected_ready := False, sch_suppress := False,
     sch_fault := None\<rparr>"

definition prepare_step ::
  "autopilot_scheduler \<Rightarrow> nat \<Rightarrow> autopilot_scheduler \<times> autopilot_command option" where
  "prepare_step s i =
     (case sch_plan s of
        None \<Rightarrow> (s, None)
      | Some plan \<Rightarrow>
        (case steps_get plan i of
           None \<Rightarrow> (s, None)
         | Some st \<Rightarrow>
             let target = \<lparr>at_epoch = sch_epoch s, at_sequence = sch_next_sequence s,
                   at_step_index = i, at_scene_id = as_scene_id st\<rparr>
             in (s\<lparr>sch_next_sequence := sch_next_sequence s + 1, sch_expected := Some target,
                   sch_expected_ready := False\<rparr>, Some (Prepare target))))"

definition enter_fault ::
  "autopilot_scheduler \<Rightarrow> autopilot_fault \<Rightarrow> autopilot_scheduler \<times> autopilot_command list" where
  "enter_fault s f =
     (case advance_epoch s of (s', old) \<Rightarrow>
       (s'\<lparr>sch_state := ApFaulted, sch_resume_state := None, sch_fault := Some f, sch_due := None,
           sch_expected := None, sch_expected_ready := False, sch_last_commit := None\<rparr>,
        [CancelOwned old]))"

definition accept_readiness ::
  "autopilot_scheduler \<Rightarrow> readiness \<Rightarrow> autopilot_scheduler \<times> autopilot_command option" where
  "accept_readiness s r =
     (case r of
        RPending \<Rightarrow> (s, None)
      | RReady t \<Rightarrow> ((if sch_expected s = Some t then s\<lparr>sch_expected_ready := True\<rparr> else s), None)
      | RFaulted t \<Rightarrow>
          if sch_expected s = Some t
          then (case enter_fault s (FaultPreparation t) of (s', cs) \<Rightarrow>
                  (s', (case cs of [] \<Rightarrow> None | c # _ \<Rightarrow> Some c)))
          else (s, None))"

text \<open>\<open>expected.take()\<close> has happened by the time the two early returns are reached.\<close>

definition commit_expected ::
  "autopilot_scheduler \<Rightarrow> autopilot_command list \<Rightarrow> autopilot_scheduler \<times> autopilot_command list" where
  "commit_expected s commands =
     (case sch_expected s of
        None \<Rightarrow> (s, commands)
      | Some target \<Rightarrow>
        let s1 = s\<lparr>sch_expected := None\<rparr> in
        (case sch_plan s1 of
           None \<Rightarrow> (s1, commands)
         | Some plan \<Rightarrow>
           (case steps_get plan (at_step_index target) of
              None \<Rightarrow> (s1, commands)
            | Some st \<Rightarrow>
                let prior = sch_active_cursor s1;
                    s2 = s1\<lparr>sch_cursor := at_step_index target,
                            sch_active_cursor := Some (at_step_index target),
                            sch_last_commit := Some (target, prior), sch_expected_ready := False,
                            sch_state := ApRunning,
                            sch_due := Some (sat_add (sch_accepted s1) (ucast (as_hold_beats st)))\<rparr>;
                    commands2 = commands @ [Commit target];
                    next_index = (if sch_cursor s2 + 1 < length (ap_steps plan) then Some (sch_cursor s2 + 1)
                                  else if ap_repeat plan = RepLoop then Some 0 else None)
                in (case next_index of
                      None \<Rightarrow> (s2, commands2)
                    | Some i \<Rightarrow>
                      (case prepare_step s2 i of
                         (s3, Some c) \<Rightarrow> (s3, commands2 @ [c])
                       | (s3, None) \<Rightarrow> (s3, commands2))))))"

section \<open>Public operations\<close>

record play_failure =
  pf_error :: play_error
  pf_commands :: "autopilot_command list"

definition autopilot_play ::
  "autopilot_scheduler \<Rightarrow> autopilot_plan \<Rightarrow> scenes \<Rightarrow>
   autopilot_scheduler \<times> (play_failure + autopilot_command list)" where
  "autopilot_play s plan scenes =
     (if autopilot_plan_is_empty plan
      then (s, Inl \<lparr>pf_error = PlayEmptyPlan, pf_commands = []\<rparr>)
      else case advance_epoch s of (s1, old) \<Rightarrow>
        let s2 = clear_sequence_state s1; commands = [CancelOwned old] in
        (case validate_scenes plan scenes of
           Inl issue \<Rightarrow>
             (s2\<lparr>sch_state := ApFaulted, sch_fault := Some (FaultMissingScene issue)\<rparr>,
              Inl \<lparr>pf_error = PlayMissingScene issue, pf_commands = commands\<rparr>)
         | Inr _ \<Rightarrow>
             let s3 = s2\<lparr>sch_plan := Some plan, sch_state := ApStarting, sch_suppress := True\<rparr> in
             (case prepare_step s3 0 of
                (s4, Some c) \<Rightarrow> (s4, Inr (commands @ [c]))
              | (s4, None) \<Rightarrow> (s4, Inr commands))))"

definition autopilot_reset :: "autopilot_scheduler \<Rightarrow> autopilot_scheduler \<times> autopilot_command list" where
  "autopilot_reset s =
     (case advance_epoch s of (s1, old) \<Rightarrow>
       ((clear_sequence_state s1)\<lparr>sch_state := ApStopped\<rparr>, [CancelOwned old]))"

definition autopilot_pause :: "autopilot_scheduler \<Rightarrow> autopilot_scheduler \<times> bool" where
  "autopilot_pause s =
     (if sch_state s \<in> {ApStarting, ApRunning, ApStalled}
      then (s\<lparr>sch_resume_state := Some (sch_state s), sch_state := ApPaused\<rparr>, True) else (s, False))"

definition autopilot_resume :: "autopilot_scheduler \<Rightarrow> autopilot_scheduler \<times> bool" where
  "autopilot_resume s =
     (if sch_state s \<noteq> ApPaused then (s, False)
      else (s\<lparr>sch_state := (case sch_resume_state s of Some r \<Rightarrow> r | None \<Rightarrow> ApRunning),
              sch_resume_state := None\<rparr>, True))"

definition autopilot_fault ::
  "autopilot_scheduler \<Rightarrow> autopilot_fault \<Rightarrow> autopilot_scheduler \<times> autopilot_command list" where
  "autopilot_fault s f =
     (let s1 = (case f of
          FaultCommit target \<Rightarrow>
            (case sch_last_commit s of
               Some (last_target, prior) \<Rightarrow>
                 if last_target = target
                 then s\<lparr>sch_active_cursor := prior, sch_cursor := (case prior of Some c \<Rightarrow> c | None \<Rightarrow> 0)\<rparr>
                 else s
             | None \<Rightarrow> s)
        | _ \<Rightarrow> s)
      in enter_fault s1 f)"

definition advance_frame ::
  "autopilot_scheduler \<Rightarrow> frame_input \<Rightarrow> autopilot_scheduler \<times> autopilot_command list" where
  "advance_frame s0 input =
     (case accept_readiness s0 (fi_readiness input) of
        (s, Some c) \<Rightarrow> (s, [c])
      | (s, None) \<Rightarrow>
          if sch_state s \<notin> {ApStarting, ApRunning, ApPaused, ApStalled} then (s, [])
          else if sch_state s = ApPaused then (s, [])
          else if sch_suppress s then (s\<lparr>sch_suppress := False\<rparr>, [])
          else if \<not> fi_media_running input \<or> fi_crossed_beats input = 0 then (s, [])
          else
            let s1 = s\<lparr>sch_accepted := sat_add (sch_accepted s) (ucast (fi_crossed_beats input))\<rparr> in
            (case sch_state s1 of
               ApStarting \<Rightarrow> if sch_expected_ready s1 then commit_expected s1 [] else (s1, [])
             | ApRunning \<Rightarrow>
                 (case sch_due s1 of
                    None \<Rightarrow> enter_fault s1 FaultInvariant
                  | Some due \<Rightarrow>
                      if sch_accepted s1 < due then (s1, [])
                      else if sch_expected s1 = None
                        then (s1\<lparr>sch_state := ApComplete, sch_due := None\<rparr>, [])
                      else if sch_expected_ready s1 then commit_expected s1 []
                      else (s1\<lparr>sch_state := ApStalled\<rparr>, []))
             | ApStalled \<Rightarrow> if sch_expected_ready s1 then commit_expected s1 [] else (s1, [])
             | _ \<Rightarrow> (s1, [])))"

end
