(* ===== verification/Autopilot_Laws.thy ===== *)
theory Autopilot_Laws
  imports Autopilot
begin

text \<open>
  What the Autopilot promises: the exact stream of commands of a session, the hold law between
  commits, readiness before every commit, the pause law, the rollback of a failed commit and the
  inertness of late results.
\<close>

section \<open>The occurrences of a plan\<close>

text \<open>The \<open>n\<close>-th occurrence of a plan (from 0) is its step \<open>n\<close> modulo the number of steps; a plan that
  does not loop has only as many occurrences as steps.\<close>

abbreviation plan_size :: "autopilot_plan \<Rightarrow> nat" where
  "plan_size plan \<equiv> length (ap_steps plan)"

definition occurs :: "autopilot_plan \<Rightarrow> nat \<Rightarrow> bool" where
  "occurs plan n \<longleftrightarrow> ap_repeat plan = RepLoop \<or> n < plan_size plan"

definition occurrence :: "autopilot_plan \<Rightarrow> u64 \<Rightarrow> nat \<Rightarrow> autopilot_target" where
  "occurrence plan e n = \<lparr>at_epoch = e, at_sequence = of_nat n, at_step_index = n mod plan_size plan,
     at_scene_id = as_scene_id (ap_steps plan ! (n mod plan_size plan))\<rparr>"

definition hold_of :: "autopilot_plan \<Rightarrow> nat \<Rightarrow> u64" where
  "hold_of plan n = ucast (as_hold_beats (ap_steps plan ! (n mod plan_size plan)))"

lemma occurs_Suc: "occurs plan (Suc n) \<Longrightarrow> occurs plan n"
  by (auto simp: occurs_def)

lemma next_index:
  assumes "ap_steps plan \<noteq> []" "occurs plan n"
  shows "(if n mod plan_size plan + 1 < plan_size plan then Some (n mod plan_size plan + 1)
      else if ap_repeat plan = RepLoop then Some 0 else None) =
    (if occurs plan (Suc n) then Some (Suc n mod plan_size plan) else None)"
proof -
  have less: "n mod plan_size plan < plan_size plan" using assms(1) by simp
  show ?thesis
  proof (cases "n mod plan_size plan + 1 < plan_size plan")
    case True
    then have "Suc n mod plan_size plan = n mod plan_size plan + 1" by (simp add: mod_Suc)
    moreover have "occurs plan (Suc n)"
      using True assms(2) by (cases "n < plan_size plan") (auto simp: occurs_def)
    ultimately show ?thesis using True by simp
  next
    case False
    with less have l: "Suc (n mod plan_size plan) = plan_size plan" by linarith
    then have "Suc n mod plan_size plan = 0" by (simp add: mod_Suc)
    moreover have "ap_repeat plan \<noteq> RepLoop \<Longrightarrow> \<not> occurs plan (Suc n)"
      using l assms(2) by (auto simp: occurs_def)
    ultimately show ?thesis using False by (auto simp: occurs_def)
  qed
qed

lemma steps_get_occurrence:
  "ap_steps plan \<noteq> [] \<Longrightarrow> steps_get plan (n mod plan_size plan) = Some (ap_steps plan ! (n mod plan_size plan))"
  by (simp add: steps_get_def)

section \<open>A session between two plays\<close>

text \<open>The state that a paused scheduler returns to.\<close>

definition underlying :: "autopilot_scheduler \<Rightarrow> autopilot_state option" where
  "underlying s = (if sch_state s = ApPaused then sch_resume_state s else Some (sch_state s))"

definition live :: "autopilot_plan \<Rightarrow> u64 \<Rightarrow> nat \<Rightarrow> autopilot_scheduler \<Rightarrow> bool" where
  "live plan e n s \<longleftrightarrow> ap_steps plan \<noteq> [] \<and> sch_plan s = Some plan \<and> sch_epoch s = e \<and>
     sch_expected s = (if occurs plan n then Some (occurrence plan e n) else None) \<and>
     (occurs plan n \<longrightarrow> sch_next_sequence s = of_nat (Suc n)) \<and>
     (sch_expected_ready s \<longrightarrow> occurs plan n) \<and>
     (if n = 0 then underlying s = Some ApStarting \<and> sch_active_cursor s = None \<and> sch_due s = None
      else occurs plan (n - 1) \<and> sch_active_cursor s = Some ((n - 1) mod plan_size plan) \<and>
        sch_cursor s = (n - 1) mod plan_size plan \<and>
        (\<exists>d. sch_due s = Some d \<and>
           (underlying s = Some ApRunning \<or> underlying s = Some ApStalled \<and> occurs plan n \<and> d \<le> sch_accepted s)))"

definition finished :: "autopilot_plan \<Rightarrow> nat \<Rightarrow> autopilot_scheduler \<Rightarrow> bool" where
  "finished plan n s \<longleftrightarrow> sch_expected s = None \<and> \<not> sch_expected_ready s \<and>
     (sch_state s = ApFaulted \<or> sch_state s = ApComplete \<and> \<not> occurs plan n)"

text \<open>The commands that commit occurrence \<open>n\<close>: the cut, then the lookahead.\<close>

definition cut_commands :: "autopilot_plan \<Rightarrow> u64 \<Rightarrow> nat \<Rightarrow> autopilot_command list" where
  "cut_commands plan e n = Commit (occurrence plan e n) #
     (if occurs plan (Suc n) then [Prepare (occurrence plan e (Suc n))] else [])"

lemmas next_index_Suc = next_index [unfolded Suc_eq_plus1 [symmetric]]

lemma commit_expected_unfold:
  assumes "ap_steps plan \<noteq> []" "sch_plan s = Some plan" "occurs plan n"
    "sch_expected s = Some (occurrence plan e n)"
  shows "commit_expected s [] =
    (let s2 = s\<lparr>sch_expected := None, sch_cursor := n mod plan_size plan,
            sch_active_cursor := Some (n mod plan_size plan),
            sch_last_commit := Some (occurrence plan e n, sch_active_cursor s), sch_expected_ready := False,
            sch_state := ApRunning, sch_due := Some (sat_add (sch_accepted s) (hold_of plan n))\<rparr> in
     if occurs plan (Suc n)
     then case prepare_step s2 (Suc n mod plan_size plan) of
         (s3, Some c) \<Rightarrow> (s3, [Commit (occurrence plan e n), c])
       | (s3, None) \<Rightarrow> (s3, [Commit (occurrence plan e n)])
     else (s2, [Commit (occurrence plan e n)]))"
proof -
  have idx: "at_step_index (occurrence plan e n) = n mod plan_size plan" by (simp add: occurrence_def)
  have "(if Suc (n mod plan_size plan) < plan_size plan then Some (Suc (n mod plan_size plan))
      else if ap_repeat plan = RepLoop then Some 0 else None) =
    (if occurs plan (Suc n) then Some (Suc n mod plan_size plan) else None)"
    using next_index_Suc [OF assms(1,3)] .
  then show ?thesis
    by (simp add: commit_expected_def assms Let_def idx steps_get_occurrence hold_of_def cong del: if_weak_cong)
qed

lemma commit_expected_live:
  assumes "ap_steps plan \<noteq> []" "sch_plan s = Some plan" "sch_epoch s = e" "occurs plan n"
    "sch_expected s = Some (occurrence plan e n)" "sch_next_sequence s = of_nat (Suc n)"
    "commit_expected s [] = (s', cs)"
  shows "cs = cut_commands plan e n \<and> sch_due s' = Some (sat_add (sch_accepted s) (hold_of plan n)) \<and>
    sch_accepted s' = sch_accepted s \<and> sch_state s' = ApRunning \<and> \<not> sch_expected_ready s' \<and>
    sch_last_commit s' = Some (occurrence plan e n, sch_active_cursor s) \<and> sch_plan s' = Some plan \<and>
    live plan e (Suc n) s'"
proof (cases "occurs plan (Suc n)")
  case True
  have "(s', cs) = (s\<lparr>sch_cursor := n mod plan_size plan,
            sch_active_cursor := Some (n mod plan_size plan),
            sch_last_commit := Some (occurrence plan e n, sch_active_cursor s),
            sch_state := ApRunning, sch_due := Some (sat_add (sch_accepted s) (hold_of plan n)),
            sch_next_sequence := of_nat (Suc n) + 1, sch_expected := Some (occurrence plan e (Suc n)),
            sch_expected_ready := False\<rparr>, cut_commands plan e n)"
    using assms(3,6,7) True
    by (simp add: commit_expected_unfold [OF assms(1,2,4,5)] Let_def prepare_step_def assms(1,2)
        steps_get_occurrence cut_commands_def occurrence_def [of plan e "Suc n"])
  then show ?thesis using assms True by (auto simp: live_def underlying_def)
next
  case False
  then show ?thesis using assms(7) commit_expected_unfold [OF assms(1,2,4,5)] assms
    by (auto simp: Let_def cut_commands_def live_def underlying_def)
qed

lemma sat_add_mono: "(d :: u64) \<le> a \<Longrightarrow> d \<le> sat_add a b"
  by (simp add: word_le_nat_alt unat_sat_add) (use unat_lt2p [of a] unat_lt2p [of d] in simp)

text \<open>One frame of a live session: nothing, completion, a reported preparation failure, or the cut.\<close>

lemma underlying_updates [simp]:
  "underlying (s\<lparr>sch_expected_ready := b\<rparr>) = underlying s" "underlying (s\<lparr>sch_suppress := b\<rparr>) = underlying s"
  "underlying (s\<lparr>sch_accepted := a\<rparr>) = underlying s"
  by (simp_all add: underlying_def)

lemma live_updates:
  "live plan e n s \<Longrightarrow> occurs plan n \<Longrightarrow> live plan e n (s\<lparr>sch_expected_ready := True\<rparr>)"
  "live plan e n s \<Longrightarrow> live plan e n (s\<lparr>sch_suppress := False\<rparr>)"
  "live plan e n s \<Longrightarrow> sch_accepted s \<le> a \<Longrightarrow> live plan e n (s\<lparr>sch_accepted := a\<rparr>)"
  by (auto simp: live_def split: if_splits)

lemma live_expected:
  "live plan e n s \<Longrightarrow> sch_expected s = Some t \<longleftrightarrow> occurs plan n \<and> t = occurrence plan e n"
  by (auto simp: live_def)

lemma accept_readiness_cases:
  assumes "live plan e n s"
  obtains (failed) s1 where "accept_readiness s r = (s1, Some (CancelOwned e))"
      "r = RFaulted (occurrence plan e n)" "occurs plan n" "sch_expected s1 = None" "sch_state s1 = ApFaulted"
      "\<not> sch_expected_ready s1"
  | (kept) s1 where "accept_readiness s r = (s1, None)" "live plan e n s1" "sch_due s1 = sch_due s"
      "sch_accepted s1 = sch_accepted s" "sch_state s1 = sch_state s"
      "sch_active_cursor s1 = sch_active_cursor s"
      "sch_expected_ready s1 \<longrightarrow> sch_expected_ready s \<or> r = RReady (occurrence plan e n)"
proof (cases r)
  case RPending
  then show thesis using assms by (intro kept [of s]) (simp_all add: accept_readiness_def)
next
  case (RReady t)
  show thesis
  proof (cases "sch_expected s = Some t")
    case True
    with assms live_updates(1) [OF assms] show thesis
      by (intro kept [of "s\<lparr>sch_expected_ready := True\<rparr>"])
        (simp_all add: accept_readiness_def RReady live_expected)
  next
    case False
    with assms show thesis by (intro kept [of s]) (simp_all add: accept_readiness_def RReady)
  qed
next
  case (RFaulted t)
  show thesis
  proof (cases "sch_expected s = Some t")
    case True
    have "sch_epoch s = e" using assms by (simp add: live_def)
    with True assms show thesis
      by (intro failed [of "fst (enter_fault s (FaultPreparation t))"])
        (simp_all add: accept_readiness_def RFaulted live_expected enter_fault_def advance_epoch_def Let_def)
  next
    case False
    with assms show thesis by (intro kept [of s]) (simp_all add: accept_readiness_def RFaulted)
  qed
qed

text \<open>What an accepted beat boundary does, and the frames that reach one.\<close>

definition at_boundary :: "autopilot_scheduler \<Rightarrow> autopilot_scheduler \<times> autopilot_command list" where
  "at_boundary s = (case sch_state s of
      ApStarting \<Rightarrow> if sch_expected_ready s then commit_expected s [] else (s, [])
    | ApRunning \<Rightarrow>
        (case sch_due s of
           None \<Rightarrow> enter_fault s FaultInvariant
         | Some due \<Rightarrow>
             if sch_accepted s < due then (s, [])
             else if sch_expected s = None then (s\<lparr>sch_state := ApComplete, sch_due := None\<rparr>, [])
             else if sch_expected_ready s then commit_expected s []
             else (s\<lparr>sch_state := ApStalled\<rparr>, []))
    | ApStalled \<Rightarrow> if sch_expected_ready s then commit_expected s [] else (s, [])
    | _ \<Rightarrow> (s, []))"

lemma advance_frame_boundary:
  assumes "accept_readiness s (fi_readiness inp) = (s1, None)"
  shows "advance_frame s inp =
    (if sch_state s1 \<in> {ApStarting, ApRunning, ApStalled}
     then if sch_suppress s1 then (s1\<lparr>sch_suppress := False\<rparr>, [])
       else if fi_media_running inp \<and> fi_crossed_beats inp \<noteq> 0
         then at_boundary (s1\<lparr>sch_accepted := sat_add (sch_accepted s1) (ucast (fi_crossed_beats inp))\<rparr>)
         else (s1, [])
     else (s1, []))"
  by (cases "sch_state s1") (simp_all add: advance_frame_def at_boundary_def assms Let_def)

lemma frame_live:
  assumes live: "live plan e n s" and frame: "advance_frame s inp = (s', cs)"
  obtains (quiet) "cs = []" "live plan e n s'" "sch_due s' = sch_due s"
      "sch_expected_ready s' \<longrightarrow> sch_expected_ready s \<or> fi_readiness inp = RReady (occurrence plan e n)"
  | (completed) "cs = []" "finished plan n s'" "sch_state s' = ApComplete"
  | (failed) "cs = [CancelOwned e]" "finished plan n s'" "sch_state s' = ApFaulted"
      "fi_readiness inp = RFaulted (occurrence plan e n)"
  | (cutting) "cs = cut_commands plan e n" "occurs plan n" "live plan e (Suc n) s'" "\<not> sch_expected_ready s'"
      "\<forall>d. sch_due s = Some d \<longrightarrow> d \<le> sch_accepted s'"
      "sch_due s' = Some (sat_add (sch_accepted s') (hold_of plan n))"
      "sch_expected_ready s \<or> fi_readiness inp = RReady (occurrence plan e n)"
      "fi_media_running inp" "fi_crossed_beats inp \<noteq> 0"
      "sch_last_commit s' = Some (occurrence plan e n, sch_active_cursor s)" "sch_plan s' = Some plan"
  using live
proof (cases rule: accept_readiness_cases [where r = "fi_readiness inp"])
  case (failed s1)
  then have "s' = s1" "cs = [CancelOwned e]" using frame by (auto simp: advance_frame_def)
  then show thesis using that(3) failed by (simp add: finished_def)
next
  case (kept s1)
  let ?a = "sat_add (sch_accepted s1) (ucast (fi_crossed_beats inp))"
  define s2 where "s2 = s1\<lparr>sch_accepted := ?a\<rparr>"
  have l2: "live plan e n s2" using kept(2) sat_add_mono [of "sch_accepted s1" "sch_accepted s1"]
    unfolding s2_def by (intro live_updates) simp_all
  have s2: "sch_due s2 = sch_due s" "sch_expected_ready s2 = sch_expected_ready s1" "sch_state s2 = sch_state s1"
    "sch_accepted s1 \<le> sch_accepted s2" "sch_active_cursor s2 = sch_active_cursor s1"
    using kept sat_add_mono [of "sch_accepted s1" "sch_accepted s1"] by (simp_all add: s2_def)
  have still: thesis if "cs = []" "live plan e n s'" "sch_due s' = sch_due s1"
      "sch_expected_ready s' = sch_expected_ready s1"
    using quiet [OF that(1,2)] that(3,4) kept(3,7) by simp
  show thesis
  proof (cases "sch_state s1 \<in> {ApStarting, ApRunning, ApStalled} \<and> \<not> sch_suppress s1 \<and>
      fi_media_running inp \<and> fi_crossed_beats inp \<noteq> 0")
    case False
    have "cs = [] \<and> (s' = s1 \<or> s' = s1\<lparr>sch_suppress := False\<rparr>)"
      using frame False by (simp add: advance_frame_boundary [OF kept(1)] split: if_splits)
    then show thesis using live_updates(2) [OF kept(2)] kept(2) by (intro still) auto
  next
    case True
    then have adv: "(s', cs) = at_boundary s2"
      using frame by (simp add: advance_frame_boundary [OF kept(1)] s2_def)
    have st: "sch_state s2 = ApStarting \<Longrightarrow> sch_due s2 = None"
      "sch_state s2 = ApRunning \<Longrightarrow> \<exists>d. sch_due s2 = Some d"
      "sch_state s2 = ApStalled \<Longrightarrow> \<exists>d. sch_due s2 = Some d \<and> d \<le> sch_accepted s2"
      using l2 by (auto simp: live_def underlying_def split: if_splits)
    have states: "sch_state s2 \<in> {ApStarting, ApRunning, ApStalled}" using True by (simp add: s2_def)
    consider "s' = s2" "cs = []" | "s' = s2\<lparr>sch_state := ApComplete, sch_due := None\<rparr>" "cs = []" "sch_expected s2 = None"
      | d where "s' = s2\<lparr>sch_state := ApStalled\<rparr>" "cs = []" "sch_state s2 = ApRunning"
          "sch_expected s2 \<noteq> None" "sch_due s2 = Some d" "d \<le> sch_accepted s2"
      | "(s', cs) = commit_expected s2 []" "sch_expected_ready s2" "\<forall>d. sch_due s2 = Some d \<longrightarrow> d \<le> sch_accepted s2"
    proof (cases "sch_state s2")
      case ApStarting
      with adv st(1) that(1,4) show thesis by (auto simp: at_boundary_def split: if_splits)
    next
      case ApRunning
      with st(2) obtain d where d: "sch_due s2 = Some d" by blast
      show thesis
      proof (cases "sch_accepted s2 < d")
        case True
        with adv ApRunning d that(1) show thesis by (simp add: at_boundary_def)
      next
        case False
        with adv ApRunning d that(2-4) show thesis
          by (cases "sch_expected s2 = None") (auto simp: at_boundary_def split: if_splits)
      qed
    next
      case ApStalled
      with adv st(3) that(1,4) show thesis by (auto simp: at_boundary_def split: if_splits)
    qed (use states in auto)
    then show thesis
    proof cases
      case 1
      then show thesis using l2 s2 kept(3) by (intro still) simp_all
    next
      case 2
      then show thesis using l2 by (intro completed) (auto simp: finished_def live_def split: if_splits)
    next
      case (3 d)
      have "live plan e n s'" using l2 3 by (auto simp: live_def underlying_def split: if_splits)
      then show thesis using 3 s2 kept(3) by (intro still) simp_all
    next
      case 4
      have "occurs plan n" using l2 4(2) by (simp add: live_def)
      from commit_expected_live [OF _ _ _ this _ _ 4(1) [symmetric], of e] l2 this
      have "cs = cut_commands plan e n \<and> sch_due s' = Some (sat_add (sch_accepted s2) (hold_of plan n)) \<and>
        sch_accepted s' = sch_accepted s2 \<and> \<not> sch_expected_ready s' \<and> live plan e (Suc n) s' \<and>
        sch_last_commit s' = Some (occurrence plan e n, sch_active_cursor s2) \<and> sch_plan s' = Some plan"
        by (simp add: live_def [of plan e n])
      then show thesis using \<open>occurs plan n\<close> 4 s2 kept(7,6) True by (intro cutting) auto
    qed
  qed
qed

section \<open>Sessions\<close>

datatype session_op = SFrame frame_input | SPause | SResume

fun session_step :: "autopilot_scheduler \<Rightarrow> session_op \<Rightarrow> autopilot_scheduler \<times> autopilot_command list" where
  "session_step s (SFrame inp) = advance_frame s inp"
| "session_step s SPause = (fst (autopilot_pause s), [])"
| "session_step s SResume = (fst (autopilot_resume s), [])"

text \<open>Each operation's commands, with the accepted beats after it.\<close>

fun session_log :: "autopilot_scheduler \<Rightarrow> session_op list \<Rightarrow> (u64 \<times> autopilot_command list) list" where
  "session_log s [] = []"
| "session_log s (x # xs) = (case session_step s x of (s', cs) \<Rightarrow> (sch_accepted s', cs) # session_log s' xs)"

fun session_end :: "autopilot_scheduler \<Rightarrow> session_op list \<Rightarrow> autopilot_scheduler" where
  "session_end s [] = s"
| "session_end s (x # xs) = session_end (fst (session_step s x)) xs"

abbreviation log_commands :: "(u64 \<times> autopilot_command list) list \<Rightarrow> autopilot_command list" where
  "log_commands l \<equiv> concat (map snd l)"

fun op_readiness :: "session_op \<Rightarrow> readiness" where
  "op_readiness (SFrame inp) = fi_readiness inp"
| "op_readiness _ = RPending"

lemma pause_live: "live plan e n s \<Longrightarrow> live plan e n (fst (autopilot_pause s))"
  unfolding live_def autopilot_pause_def by (cases "n = 0") (auto simp: underlying_def)

lemma resume_live: "live plan e n s \<Longrightarrow> live plan e n (fst (autopilot_resume s))"
  unfolding live_def autopilot_resume_def by (cases "n = 0") (auto simp: underlying_def)

lemma pause_resume_keep:
  "sch_due (fst (autopilot_pause s)) = sch_due s" "sch_due (fst (autopilot_resume s)) = sch_due s"
  "sch_expected_ready (fst (autopilot_pause s)) = sch_expected_ready s"
  "sch_expected_ready (fst (autopilot_resume s)) = sch_expected_ready s"
  by (simp_all add: autopilot_pause_def autopilot_resume_def)

lemma session_step_live:
  assumes "live plan e n s" and "session_step s x = (s', cs)"
  obtains (quiet) "cs = []" "live plan e n s'" "sch_due s' = sch_due s"
      "sch_expected_ready s' \<longrightarrow> sch_expected_ready s \<or> op_readiness x = RReady (occurrence plan e n)"
  | (completed) "cs = []" "finished plan n s'"
  | (failed) "cs = [CancelOwned e]" "finished plan n s'" "op_readiness x = RFaulted (occurrence plan e n)"
  | (cutting) "cs = cut_commands plan e n" "occurs plan n" "live plan e (Suc n) s'" "\<not> sch_expected_ready s'"
      "\<forall>d. sch_due s = Some d \<longrightarrow> d \<le> sch_accepted s'"
      "sch_due s' = Some (sat_add (sch_accepted s') (hold_of plan n))"
      "sch_expected_ready s \<or> op_readiness x = RReady (occurrence plan e n)"
proof (cases x)
  case (SFrame inp)
  with assms(2) have "advance_frame s inp = (s', cs)" by simp
  with assms(1) show thesis
    by (cases rule: frame_live) (use SFrame quiet completed failed cutting in auto)
next
  case SPause
  with assms pause_live [OF assms(1)] show thesis by (intro quiet) (auto simp: pause_resume_keep)
next
  case SResume
  with assms resume_live [OF assms(1)] show thesis by (intro quiet) (auto simp: pause_resume_keep)
qed

lemma finished_step: "finished plan n s \<Longrightarrow> session_step s x = (s, [])"
  by (cases x) (auto simp: finished_def advance_frame_def accept_readiness_def autopilot_pause_def
      autopilot_resume_def split: readiness.splits)

lemma finished_log: "finished plan n s \<Longrightarrow> log_commands (session_log s xs) = []"
  by (induction xs) (auto simp: finished_step)

text \<open>The stream of a session: whole cuts in the order of the occurrences, each made ready before,
  and at most one cancellation, caused by a reported failure, after which nothing follows.\<close>

lemma session_stream:
  "live plan e n s \<Longrightarrow> \<exists>m tail. n \<le> m \<and>
     log_commands (session_log s xs) = concat (map (cut_commands plan e) [n..<m]) @ tail \<and>
     (\<forall>k. n \<le> k \<and> k < m \<longrightarrow> occurs plan k \<and>
        (k = n \<and> sch_expected_ready s \<or> RReady (occurrence plan e k) \<in> op_readiness ` set xs)) \<and>
     (tail = [] \<or> tail = [CancelOwned e] \<and> RFaulted (occurrence plan e m) \<in> op_readiness ` set xs)"
proof (induction xs arbitrary: n s)
  case Nil
  show ?case by (intro exI [of _ n] exI [of _ "[]"]) auto
next
  case (Cons x xs)
  obtain s' cs where st: "session_step s x = (s', cs)" by fastforce
  have log: "log_commands (session_log s (x # xs)) = cs @ log_commands (session_log s' xs)" by (simp add: st)
  from Cons.prems st show ?case
  proof (cases rule: session_step_live)
    case quiet
    from Cons.IH [OF quiet(2)] obtain m tail where
      m: "n \<le> m" "log_commands (session_log s' xs) = concat (map (cut_commands plan e) [n..<m]) @ tail"
        "\<forall>k. n \<le> k \<and> k < m \<longrightarrow> occurs plan k \<and>
          (k = n \<and> sch_expected_ready s' \<or> RReady (occurrence plan e k) \<in> op_readiness ` set xs)"
        "tail = [] \<or> tail = [CancelOwned e] \<and> RFaulted (occurrence plan e m) \<in> op_readiness ` set xs"
      by blast
    have "\<forall>k. n \<le> k \<and> k < m \<longrightarrow> occurs plan k \<and>
        (k = n \<and> sch_expected_ready s \<or> RReady (occurrence plan e k) \<in> op_readiness ` set (x # xs))"
      using m(3) quiet(4) by (metis image_insert insertCI list.simps(15))
    then show ?thesis unfolding log quiet(1) using m(1,2,4) by (intro exI [of _ m] exI [of _ tail]) auto
  next
    case completed
    then show ?thesis unfolding log finished_log [OF completed(2)]
      by (intro exI [of _ n] exI [of _ "[]"]) auto
  next
    case failed
    then show ?thesis unfolding log finished_log [OF failed(2)]
      by (intro exI [of _ n] exI [of _ "[CancelOwned e]"]) (auto simp: image_iff)
  next
    case cutting
    from Cons.IH [OF cutting(3)] obtain m tail where
      m: "Suc n \<le> m" "log_commands (session_log s' xs) = concat (map (cut_commands plan e) [Suc n..<m]) @ tail"
        "\<forall>k. Suc n \<le> k \<and> k < m \<longrightarrow> occurs plan k \<and>
          (k = Suc n \<and> sch_expected_ready s' \<or> RReady (occurrence plan e k) \<in> op_readiness ` set xs)"
        "tail = [] \<or> tail = [CancelOwned e] \<and> RFaulted (occurrence plan e m) \<in> op_readiness ` set xs"
      by blast
    have upt: "[n..<m] = n # [Suc n..<m]" using m(1) by (simp add: upt_conv_Cons)
    have "\<forall>k. n \<le> k \<and> k < m \<longrightarrow> occurs plan k \<and>
        (k = n \<and> sch_expected_ready s \<or> RReady (occurrence plan e k) \<in> op_readiness ` set (x # xs))"
      using m(3) cutting(2,4,7) by (metis image_insert insertCI le_antisym list.simps(15) not_less_eq_eq)
    then show ?thesis unfolding log cutting(1) using m(1,2,4)
      by (intro exI [of _ m] exI [of _ tail]) (auto simp: upt)
  qed
qed

text \<open>The accepted beats at the successive commits.\<close>

definition is_commit :: "autopilot_command \<Rightarrow> bool" where
  "is_commit c = (case c of Commit t \<Rightarrow> True | _ \<Rightarrow> False)"

definition commit_times :: "(u64 \<times> autopilot_command list) list \<Rightarrow> u64 list" where
  "commit_times l = map fst (filter (\<lambda>(a, cs). list_ex is_commit cs) l)"

fun spaced :: "autopilot_plan \<Rightarrow> nat \<Rightarrow> u64 option \<Rightarrow> u64 list \<Rightarrow> bool" where
  "spaced plan n d [] = True"
| "spaced plan n d (a # as) = ((case d of None \<Rightarrow> True | Some x \<Rightarrow> x \<le> a) \<and>
     spaced plan (Suc n) (Some (sat_add a (hold_of plan n))) as)"

lemma spaced_nth:
  "spaced plan n d as \<Longrightarrow> Suc i < length as \<Longrightarrow> sat_add (as ! i) (hold_of plan (n + i)) \<le> as ! Suc i"
proof (induction plan n d as arbitrary: i rule: spaced.induct)
  case (2 plan n d a as)
  then show ?case by (cases i; cases as) auto
qed simp

lemma finished_times: "finished plan n s \<Longrightarrow> commit_times (session_log s xs) = []"
  by (induction xs) (auto simp: commit_times_def finished_step)

lemma session_spaced: "live plan e n s \<Longrightarrow> spaced plan n (sch_due s) (commit_times (session_log s xs))"
proof (induction xs arbitrary: n s)
  case Nil
  show ?case by (simp add: commit_times_def)
next
  case (Cons x xs)
  obtain s' cs where st: "session_step s x = (s', cs)" by fastforce
  have times: "commit_times (session_log s (x # xs)) =
      (if list_ex is_commit cs then [sch_accepted s'] else []) @ commit_times (session_log s' xs)"
    by (simp add: st commit_times_def)
  from Cons.prems st show ?case
  proof (cases rule: session_step_live)
    case quiet
    with Cons.IH [OF quiet(2)] show ?thesis unfolding times by simp
  next
    case completed
    then show ?thesis unfolding times by (simp add: finished_times)
  next
    case failed
    then show ?thesis unfolding times by (simp add: finished_times is_commit_def)
  next
    case cutting
    with Cons.IH [OF cutting(3)] show ?thesis unfolding times
      by (simp add: cut_commands_def is_commit_def split: option.splits)
  qed
qed

section \<open>Starting\<close>

lemma advance_epoch_value:
  "advance_epoch s = (s\<lparr>sch_epoch := bump (sch_epoch s)\<rparr>, sch_epoch s)"
proof -
  have "sch_epoch s + 1 = 0 \<longleftrightarrow> sch_epoch s = - 1" by (metis add.commute add_eq_0_iff)
  then show ?thesis by (simp add: advance_epoch_def Let_def bump_cases)
qed

lemma play_live:
  assumes "autopilot_play s plan scenes = (s', Inr cs)"
  shows "live plan (bump (sch_epoch s)) 0 s' \<and> \<not> sch_expected_ready s' \<and> sch_suppress s' \<and>
    cs = [CancelOwned (sch_epoch s), Prepare (occurrence plan (bump (sch_epoch s)) 0)] \<and>
    validate_scenes plan scenes = Inr () \<and> ap_steps plan \<noteq> []"
  using assms
  by (auto simp: autopilot_play_def advance_epoch_value clear_sequence_state_def Let_def prepare_step_def
      steps_get_def autopilot_plan_is_empty_def live_def underlying_def occurs_def occurrence_def
      split: if_splits sum.splits)

section \<open>All operations\<close>

datatype ap_op = OPlay autopilot_plan scenes | OReset | OPause | OResume | OFrame frame_input | OFault autopilot_fault

fun ap_step :: "autopilot_scheduler \<Rightarrow> ap_op \<Rightarrow> autopilot_scheduler" where
  "ap_step s (OPlay plan scenes) = fst (autopilot_play s plan scenes)"
| "ap_step s OReset = fst (autopilot_reset s)"
| "ap_step s OPause = fst (autopilot_pause s)"
| "ap_step s OResume = fst (autopilot_resume s)"
| "ap_step s (OFrame inp) = fst (advance_frame s inp)"
| "ap_step s (OFault f) = fst (autopilot_fault s f)"

definition settled :: "autopilot_scheduler \<Rightarrow> bool" where
  "settled s \<longleftrightarrow> sch_expected s = None \<and> \<not> sch_expected_ready s \<and> sch_state s \<in> {ApStopped, ApFaulted, ApComplete}"

definition ap_inv :: "autopilot_scheduler \<Rightarrow> bool" where
  "ap_inv s \<longleftrightarrow> settled s \<or> (\<exists>plan n. live plan (sch_epoch s) n s)"

lemma live_epoch: "live plan e n s \<Longrightarrow> sch_epoch s = e"
  by (simp add: live_def)

lemma live_inv: "live plan e n s \<Longrightarrow> ap_inv s"
  unfolding ap_inv_def using live_epoch by blast

lemma finished_inv: "finished plan n s \<Longrightarrow> ap_inv s"
  by (auto simp: ap_inv_def finished_def settled_def)

lemma settled_default: "settled autopilot_default"
  by (simp add: settled_def autopilot_default_def)

lemma enter_fault_settled: "settled (fst (enter_fault s f))"
  by (simp add: enter_fault_def advance_epoch_value settled_def)

lemma settled_frame: "settled s \<Longrightarrow> advance_frame s inp = (s, [])"
  by (auto simp: settled_def advance_frame_def accept_readiness_def split: readiness.splits)

lemma play_settled:
  assumes "autopilot_play s plan scenes = (s', Inl e)"
  shows "s' = s \<or> settled s'"
proof (cases "autopilot_plan_is_empty plan")
  case True
  then show ?thesis using assms by (simp add: autopilot_play_def)
next
  case False
  show ?thesis
  proof (cases "validate_scenes plan scenes")
    case (Inl issue)
    then show ?thesis using assms False
      by (auto simp: autopilot_play_def advance_epoch_value clear_sequence_state_def Let_def settled_def)
  next
    case (Inr u)
    then show ?thesis using assms False
      by (simp add: autopilot_play_def advance_epoch_value Let_def split: prod.splits option.splits)
  qed
qed

lemma ap_inv_step: "ap_inv s \<Longrightarrow> ap_inv (ap_step s x)"
proof (cases x)
  case (OPlay plan scenes)
  assume i: "ap_inv s"
  obtain s' r where p: "autopilot_play s plan scenes = (s', r)" by fastforce
  show ?thesis
  proof (cases r)
    case (Inl e)
    with p play_settled [of s plan scenes s' e] i show ?thesis by (auto simp: OPlay ap_inv_def)
  next
    case (Inr cs)
    with p play_live [of s plan scenes s' cs] live_inv show ?thesis by (auto simp: OPlay)
  qed
next
  case OReset
  then show ?thesis
    by (simp add: autopilot_reset_def advance_epoch_value clear_sequence_state_def ap_inv_def settled_def)
next
  case OPause
  assume i: "ap_inv s"
  have "settled s \<Longrightarrow> settled (fst (autopilot_pause s))" by (auto simp: settled_def autopilot_pause_def)
  with i show ?thesis by (auto simp: OPause ap_inv_def [of s] intro: live_inv pause_live)
    (simp add: ap_inv_def)
next
  case OResume
  assume i: "ap_inv s"
  have "settled s \<Longrightarrow> settled (fst (autopilot_resume s))" by (auto simp: settled_def autopilot_resume_def)
  with i show ?thesis by (auto simp: OResume ap_inv_def [of s] intro: live_inv resume_live)
    (simp add: ap_inv_def)
next
  case (OFrame inp)
  assume i: "ap_inv s"
  show ?thesis
  proof (cases "settled s")
    case True
    then show ?thesis using i by (simp add: OFrame settled_frame)
  next
    case False
    with i obtain plan n where l: "live plan (sch_epoch s) n s" by (auto simp: ap_inv_def)
    obtain s' cs where f: "advance_frame s inp = (s', cs)" by fastforce
    from l f have "ap_inv s'" by (cases rule: frame_live) (auto intro: live_inv finished_inv)
    then show ?thesis by (simp add: OFrame f)
  qed
next
  case (OFault f)
  then show ?thesis by (simp add: autopilot_fault_def Let_def ap_inv_def enter_fault_settled)
qed

interpretation autopilot: invariant_machine ap_step ap_inv
  by unfold_locales (rule ap_inv_step)

lemma reachable_inv: "ap_inv (foldl ap_step autopilot_default xs)"
  by (rule autopilot.inv_run) (simp add: ap_inv_def settled_default)

lemma frame_commands:
  assumes "ap_inv s"
  shows "snd (advance_frame s inp) \<in> {[], [CancelOwned (sch_epoch s)]} \<or>
    (\<exists>t. sch_expected s = Some t \<and> (sch_expected_ready s \<or> fi_readiness inp = RReady t) \<and>
       fi_media_running inp \<and> fi_crossed_beats inp \<noteq> 0 \<and>
       (snd (advance_frame s inp) = [Commit t] \<or> (\<exists>t'. snd (advance_frame s inp) = [Commit t, Prepare t'])))"
proof (cases "settled s")
  case True
  then show ?thesis by (simp add: settled_frame)
next
  case False
  with assms obtain plan n where l: "live plan (sch_epoch s) n s" by (auto simp: ap_inv_def)
  obtain s' cs where f: "advance_frame s inp = (s', cs)" by fastforce
  from l f show ?thesis
    by (cases rule: frame_live) (auto simp: f cut_commands_def live_expected [OF l])
qed

lemma late_readiness:
  assumes "ap_inv s" "at_epoch t \<noteq> sch_epoch s"
  shows "accept_readiness s (RReady t) = accept_readiness s RPending"
    "accept_readiness s (RFaulted t) = accept_readiness s RPending"
proof -
  have "sch_expected s \<noteq> Some t"
    using assms by (auto simp: ap_inv_def settled_def live_expected occurrence_def)
  then show "accept_readiness s (RReady t) = accept_readiness s RPending"
    "accept_readiness s (RFaulted t) = accept_readiness s RPending"
    by (simp_all add: accept_readiness_def)
qed

section \<open>Pausing\<close>

definition failure_of :: "autopilot_target option \<Rightarrow> frame_input \<Rightarrow> bool" where
  "failure_of ex inp = (case fi_readiness inp of RFaulted t \<Rightarrow> ex = Some t | _ \<Rightarrow> False)"

definition ready_of :: "autopilot_target option \<Rightarrow> frame_input \<Rightarrow> bool" where
  "ready_of ex inp = (case fi_readiness inp of RReady t \<Rightarrow> ex = Some t | _ \<Rightarrow> False)"

lemma paused_frame:
  assumes "sch_state s = ApPaused" "\<not> failure_of (sch_expected s) inp"
  shows "advance_frame s inp = (s\<lparr>sch_expected_ready := sch_expected_ready s \<or> ready_of (sch_expected s) inp\<rparr>, [])"
  using assms
  by (cases s) (auto simp: advance_frame_def accept_readiness_def failure_of_def ready_of_def split: readiness.splits)

lemma paused_frames:
  "sch_state s = ApPaused \<Longrightarrow> \<not> list_ex (failure_of (sch_expected s)) fs \<Longrightarrow>
   foldl (\<lambda>s inp. fst (advance_frame s inp)) s fs =
     s\<lparr>sch_expected_ready := sch_expected_ready s \<or> list_ex (ready_of (sch_expected s)) fs\<rparr>"
  by (induction fs arbitrary: s) (simp_all add: paused_frame)

section \<open>A failed cut\<close>

lemma failed_cut:
  assumes "ap_inv s" "advance_frame s inp = (s', Commit t # rest)"
  shows "sch_last_commit s' = Some (t, sch_active_cursor s)" "sch_plan s' = sch_plan s"
    "sch_epoch s' = sch_epoch s"
proof -
  have "\<not> settled s" using assms(2) by (auto simp: settled_frame)
  with assms(1) obtain plan n where l: "live plan (sch_epoch s) n s" by (auto simp: ap_inv_def)
  from l assms(2) have "sch_last_commit s' = Some (t, sch_active_cursor s) \<and> sch_plan s' = sch_plan s \<and>
      sch_epoch s' = sch_epoch s"
  proof (cases rule: frame_live)
    case cutting
    then show ?thesis using l live_epoch [OF cutting(3)] by (simp add: cut_commands_def live_def [of _ _ n])
  qed simp_all
  then show "sch_last_commit s' = Some (t, sch_active_cursor s)" "sch_plan s' = sch_plan s"
    "sch_epoch s' = sch_epoch s" by simp_all
qed

section \<open>Properties\<close>

text \<open>C1. The command stream of a session is determined: after a successful play, under any sequence of
  frames, pauses and resumes, the scheduler has emitted the cancellation of the old epoch, the
  preparation of the first step, then for the occurrences 0, 1, 2, \<open>\<dots>\<close> of the authored order (cyclic
  when the plan loops) the commit of that occurrence and the preparation of the next one if there is
  one; no occurrence is skipped or repeated, each committed one was reported ready by a frame, and the
  only other command is one last cancellation, after a reported preparation failure of the next
  occurrence.\<close>

theorem session_follows_the_plan:
  assumes "autopilot_play s plan scenes = (s', Inr cs)" and "e = bump (sch_epoch s)"
  shows "\<exists>m tail. cs @ log_commands (session_log s' xs) =
      [CancelOwned (sch_epoch s), Prepare (occurrence plan e 0)] @ concat (map (cut_commands plan e) [0..<m]) @ tail \<and>
    (\<forall>k < m. occurs plan k \<and> RReady (occurrence plan e k) \<in> op_readiness ` set xs) \<and>
    (tail = [] \<or> tail = [CancelOwned e] \<and> RFaulted (occurrence plan e m) \<in> op_readiness ` set xs)"
proof -
  note p = play_live [OF assms(1), folded assms(2)]
  from session_stream [of plan e 0 s' xs] p obtain m tail where
    "log_commands (session_log s' xs) = concat (map (cut_commands plan e) [0..<m]) @ tail"
    "\<forall>k < m. occurs plan k \<and> RReady (occurrence plan e k) \<in> op_readiness ` set xs"
    "tail = [] \<or> tail = [CancelOwned e] \<and> RFaulted (occurrence plan e m) \<in> op_readiness ` set xs"
    by auto
  with p show ?thesis by (intro exI [of _ m] exI [of _ tail]) simp
qed

definition demo_plan :: autopilot_plan where
  "demo_plan = \<lparr>ap_repeat = RepOnce, ap_steps =
     [\<lparr>as_scene_id = 3, as_hold_beats = 4\<rparr>, \<lparr>as_scene_id = 5, as_hold_beats = 1\<rparr>]\<rparr>"

definition demo_scenes :: scenes where
  "demo_scenes = [demo_scene 3 TmImmediate, demo_scene 5 TmNextBar]"

definition demo_started :: autopilot_scheduler where
  "demo_started = fst (autopilot_play autopilot_default demo_plan demo_scenes)"

definition demo_session :: "session_op list" where
  "demo_session = [SFrame (frame_running 1 (RReady (occurrence demo_plan 1 0))), SFrame (frame_running 1 RPending),
     SPause, SResume, SFrame (frame_running 3 (RReady (occurrence demo_plan 1 1))), SFrame (frame_running 2 RPending)]"

lemmas autopilot_eval = autopilot_play_def advance_epoch_def clear_sequence_state_def validate_scenes_def
  scenes_get_def prepare_step_def steps_get_def autopilot_default_def autopilot_plan_is_empty_def
  demo_plan_def demo_scenes_def demo_scene_def occurrence_def advance_frame_def accept_readiness_def
  commit_expected_def frame_running_def sat_add_def autopilot_pause_def autopilot_resume_def Let_def

lemma demo_play: "autopilot_play autopilot_default demo_plan demo_scenes =
    (demo_started, Inr [CancelOwned 0, Prepare (occurrence demo_plan 1 0)])"
  by (simp add: demo_started_def autopilot_eval)

lemma demo_epoch: "bump (sch_epoch autopilot_default) = 1"
  by (simp add: autopilot_default_def bump_cases)

lemma demo_log: "session_log demo_started demo_session =
    [(0, []), (1, cut_commands demo_plan 1 0), (1, []), (1, []), (4, []), (6, cut_commands demo_plan 1 1)]"
  by (simp add: demo_session_def demo_started_def autopilot_eval cut_commands_def occurs_def)

theorem session_follows_the_plan_witness:
  "log_commands (session_log demo_started demo_session) = [Commit (occurrence demo_plan 1 0),
     Prepare (occurrence demo_plan 1 1), Commit (occurrence demo_plan 1 1)] \<and>
   (\<exists>m tail. [CancelOwned 0, Prepare (occurrence demo_plan 1 0)] @ log_commands (session_log demo_started demo_session) =
      [CancelOwned 0, Prepare (occurrence demo_plan 1 0)] @ concat (map (cut_commands demo_plan 1) [0..<m]) @ tail)"
  using session_follows_the_plan [OF demo_play demo_epoch [symmetric], of demo_session]
  by (auto simp: demo_log cut_commands_def occurs_def demo_plan_def autopilot_default_def)

text \<open>Every scene is held for its beats: in such a session, between the commit of occurrence \<open>i\<close> and
  the next commit the accepted media beats have grown by at least the hold of the plan's step for
  \<open>i\<close> (up to the saturation of the 64-bit counter), whatever frames, freezes and pauses lie between.\<close>

theorem session_holds_scenes:
  assumes "autopilot_play s plan scenes = (s', Inr cs)"
    and "ts = commit_times (session_log s' xs)" and "Suc i < length ts"
  shows "sat_add (ts ! i) (hold_of plan i) \<le> ts ! Suc i"
  using session_spaced [of plan "bump (sch_epoch s)" 0 s' xs] play_live [OF assms(1)]
    spaced_nth [of plan 0 "sch_due s'" ts i] assms(2,3) by simp

theorem session_holds_scenes_witness:
  "commit_times (session_log demo_started demo_session) = [1, 6] \<and> sat_add 1 (hold_of demo_plan 0) \<le> (6 :: u64)"
proof -
  have t: "commit_times (session_log demo_started demo_session) = [1, 6]"
    by (simp add: demo_log commit_times_def cut_commands_def is_commit_def)
  with session_holds_scenes [OF demo_play t [symmetric], of 0] show ?thesis by simp
qed

text \<open>A pause freezes the sequence: pausing a starting, running or stalled scheduler, feeding it any
  frames that report no failure of its expected preparation, and resuming it gives back the very
  same scheduler, except that the expected preparation is also ready if one of the frames said so;
  no beat is counted meanwhile.\<close>

theorem pause_freezes_the_sequence:
  assumes "sch_state s \<in> {ApStarting, ApRunning, ApStalled}" and "sch_resume_state s = None"
    and "\<not> list_ex (failure_of (sch_expected s)) fs"
  shows "fst (autopilot_resume (foldl (\<lambda>s inp. fst (advance_frame s inp)) (fst (autopilot_pause s)) fs)) =
    s\<lparr>sch_expected_ready := sch_expected_ready s \<or> list_ex (ready_of (sch_expected s)) fs\<rparr>"
proof -
  let ?p = "s\<lparr>sch_resume_state := Some (sch_state s), sch_state := ApPaused\<rparr>"
  have "foldl (\<lambda>s inp. fst (advance_frame s inp)) ?p fs =
      ?p\<lparr>sch_expected_ready := sch_expected_ready s \<or> list_ex (ready_of (sch_expected s)) fs\<rparr>"
    using paused_frames [of ?p fs] assms(3) by simp
  then show ?thesis using assms(1,2) by (cases s) (simp add: autopilot_pause_def autopilot_resume_def)
qed

theorem pause_freezes_the_sequence_witness:
  "sch_accepted (fst (autopilot_resume (foldl (\<lambda>s inp. fst (advance_frame s inp)) (fst (autopilot_pause demo_started))
      [frame_running 7 RPending, frame_running 9 (RReady (occurrence demo_plan 1 0))]))) = 0"
  using pause_freezes_the_sequence [of demo_started "[frame_running 7 RPending, frame_running 9 (RReady (occurrence demo_plan 1 0))]"]
  by (simp add: demo_started_def autopilot_eval failure_of_def ready_of_def)

text \<open>A failed cut is rolled back: in every reachable scheduler, when a frame commits \<open>t\<close> and the host
  then reports the failure of that commit, the active step and scene are again those from before the
  frame, the scheduler is faulted with no due beat, no expected target and a fresh epoch, and it asks
  for the cancellation of the old epoch's work.\<close>

theorem failed_cut_rolls_back:
  assumes "s = foldl ap_step autopilot_default ops" and "advance_frame s inp = (s', Commit t # rest)"
    and "autopilot_fault s' (FaultCommit t) = (s'', cs)"
  shows "sch_active_cursor s'' = sch_active_cursor s \<and> active_scene_id s'' = active_scene_id s \<and>
    sch_state s'' = ApFaulted \<and> sch_due s'' = None \<and> sch_expected s'' = None \<and>
    sch_epoch s'' \<noteq> sch_epoch s \<and> cs = [CancelOwned (sch_epoch s)]"
  using failed_cut [OF reachable_inv [of ops, folded assms(1)] assms(2)] assms(3)
  by (auto simp: autopilot_fault_def Let_def enter_fault_def advance_epoch_value active_scene_id_def)

theorem failed_cut_rolls_back_witness:
  "snd (advance_frame (foldl ap_step autopilot_default [OPlay demo_plan demo_scenes, OFrame (frame_running 1 RPending)])
      (frame_running 1 (RReady (occurrence demo_plan 1 0)))) = cut_commands demo_plan 1 0 \<and>
   active_scene_id (fst (autopilot_fault (fst (advance_frame
      (foldl ap_step autopilot_default [OPlay demo_plan demo_scenes, OFrame (frame_running 1 RPending)])
      (frame_running 1 (RReady (occurrence demo_plan 1 0))))) (FaultCommit (occurrence demo_plan 1 0)))) = None"
proof -
  let ?s = "foldl ap_step autopilot_default [OPlay demo_plan demo_scenes, OFrame (frame_running 1 RPending)]"
  let ?f = "advance_frame ?s (frame_running 1 (RReady (occurrence demo_plan 1 0)))"
  have s: "?s = demo_started\<lparr>sch_suppress := False\<rparr>"
    by (simp add: demo_play) (simp add: demo_started_def autopilot_eval)
  have c: "snd ?f = cut_commands demo_plan 1 0"
    unfolding s by (simp add: demo_started_def autopilot_eval cut_commands_def occurs_def)
  then have "?f = (fst ?f, Commit (occurrence demo_plan 1 0) # [Prepare (occurrence demo_plan 1 1)])"
    by (simp add: prod_eq_iff cut_commands_def occurs_def demo_plan_def)
  from failed_cut_rolls_back [OF refl this, of "fst (autopilot_fault (fst ?f) (FaultCommit (occurrence demo_plan 1 0)))"] c
  show ?thesis unfolding s by (simp add: demo_started_def autopilot_eval active_scene_id_def prod_eq_iff)
qed

text \<open>One cut per frame, never an unprepared one: in every reachable scheduler a frame emits nothing,
  or only the cancellation of its own epoch, or exactly one commit, of the expected target, followed
  by at most one preparation, and then only on a running frame that crossed a beat and after the
  target was reported ready; a running scheduler always has a due beat, so the invariant fault of
  the code is never raised.\<close>

theorem frame_emits_one_cut:
  assumes "s = foldl ap_step autopilot_default ops"
  shows "(snd (advance_frame s inp) \<in> {[], [CancelOwned (sch_epoch s)]} \<or>
    (\<exists>t. sch_expected s = Some t \<and> (sch_expected_ready s \<or> fi_readiness inp = RReady t) \<and>
       fi_media_running inp \<and> fi_crossed_beats inp \<noteq> 0 \<and>
       (snd (advance_frame s inp) = [Commit t] \<or> (\<exists>t'. snd (advance_frame s inp) = [Commit t, Prepare t'])))) \<and>
    (sch_state s = ApRunning \<longrightarrow> sch_due s \<noteq> None)"
proof -
  have i: "ap_inv s" unfolding assms by (rule reachable_inv)
  have "sch_due s \<noteq> None" if "sch_state s = ApRunning"
    using i that by (auto simp: ap_inv_def settled_def live_def underlying_def split: if_splits)
  with frame_commands [OF i, of inp] show ?thesis by blast
qed

theorem frame_emits_one_cut_witness:
  "sch_state (foldl ap_step autopilot_default [OPlay demo_plan demo_scenes, OFrame (frame_running 1 RPending),
      OFrame (frame_running 1 (RReady (occurrence demo_plan 1 0)))]) = ApRunning \<and>
   sch_due (foldl ap_step autopilot_default [OPlay demo_plan demo_scenes, OFrame (frame_running 1 RPending),
      OFrame (frame_running 1 (RReady (occurrence demo_plan 1 0)))]) \<noteq> None"
proof -
  let ?ops = "[OPlay demo_plan demo_scenes, OFrame (frame_running 1 RPending),
      OFrame (frame_running 1 (RReady (occurrence demo_plan 1 0)))]"
  have "sch_state (foldl ap_step autopilot_default ?ops) = ApRunning"
    by (simp add: demo_play) (simp add: demo_started_def autopilot_eval)
  with frame_emits_one_cut [of _ ?ops] show ?thesis by blast
qed

text \<open>Late results are inert: in every reachable scheduler, a frame whose readiness report names a
  target of another epoch behaves exactly as a frame with nothing to report.\<close>

theorem late_results_are_inert:
  assumes "s = foldl ap_step autopilot_default ops" and "at_epoch t \<noteq> sch_epoch s"
  shows "advance_frame s (inp\<lparr>fi_readiness := RReady t\<rparr>) = advance_frame s (inp\<lparr>fi_readiness := RPending\<rparr>) \<and>
    advance_frame s (inp\<lparr>fi_readiness := RFaulted t\<rparr>) = advance_frame s (inp\<lparr>fi_readiness := RPending\<rparr>)"
proof -
  have "accept_readiness s RPending = (s, None)" by (simp add: accept_readiness_def)
  with late_readiness [OF reachable_inv [of ops, folded assms(1)] assms(2)] show ?thesis
    by (simp add: advance_frame_def)
qed

theorem late_results_are_inert_witness:
  "at_epoch (occurrence demo_plan 0 0) = 0 \<and>
   advance_frame demo_started (frame_running 2 (RFaulted (occurrence demo_plan 0 0))) =
   advance_frame demo_started (frame_running 2 RPending)"
proof -
  have s: "demo_started = foldl ap_step autopilot_default [OPlay demo_plan demo_scenes]" by (simp add: demo_play)
  have "at_epoch (occurrence demo_plan 0 0) \<noteq> sch_epoch demo_started"
    by (simp add: demo_started_def autopilot_eval)
  from late_results_are_inert [OF s this, of "frame_running 2 RPending"] show ?thesis
    by (simp add: frame_running_def occurrence_def)
qed

end
