(* ===== verification/Gpu_Recovery.thy ===== *)
theory Gpu_Recovery
  imports Prelude
begin

text \<open>
  The GPU-loss fault model of \<open>src/src/gpu_recovery.rs\<close>: the recovery state machine, whose
  operations may change the state even when they fail, and the process-wide Phase-A latch, whose
  two atomic variables are stepped thread by thread.
\<close>

section \<open>Data\<close>

definition SUPERVISED_GPU_RESTART_EXIT_CODE :: i32 where "SUPERVISED_GPU_RESTART_EXIT_CODE = 75"
definition MAX_IN_PROCESS_REBUILD_ATTEMPTS :: u8 where "MAX_IN_PROCESS_REBUILD_ATTEMPTS = 1"

datatype gpu_loss_point =
    Unattributed | PreSubmit | PostSubmit | ReadbackPending | ProxyAdoption | MoshVhsHandoff
  | RecorderActive | OutputResize | StageMapCreation

fun loss_point_code :: "gpu_loss_point \<Rightarrow> u8" where
  "loss_point_code Unattributed = 1"
| "loss_point_code PreSubmit = 2"
| "loss_point_code PostSubmit = 3"
| "loss_point_code ReadbackPending = 4"
| "loss_point_code ProxyAdoption = 5"
| "loss_point_code MoshVhsHandoff = 6"
| "loss_point_code RecorderActive = 7"
| "loss_point_code OutputResize = 8"
| "loss_point_code StageMapCreation = 9"

definition loss_point_from_u8 :: "u8 \<Rightarrow> gpu_loss_point" where
  "loss_point_from_u8 v =
     (if v = 2 then PreSubmit else if v = 3 then PostSubmit else if v = 4 then ReadbackPending
      else if v = 5 then ProxyAdoption else if v = 6 then MoshVhsHandoff else if v = 7 then RecorderActive
      else if v = 8 then OutputResize else if v = 9 then StageMapCreation else Unattributed)"

type_synonym gpu_epoch = u64

definition EPOCH_INITIAL :: gpu_epoch where "EPOCH_INITIAL = 1"

definition epoch_next :: "gpu_epoch \<Rightarrow> gpu_epoch option" where
  "epoch_next e = checked_add e 1"

datatype gpu_recovery_state =
    GrHealthy | GrClosingAudience | GrRetiringGpuEpoch | GrRebuilding | GrAwaitingOperator
  | GrSupervisedRestartRequired | GrFailed

datatype gpu_recovery_error =
    InvalidTransition | AudienceNotClosed | OldEpochNotRetired | RebuildAttemptCap | SecondLoss
  | OperatorResumeBeforeValidation | StaleCompletion

record gpu_recovery_machine =
  gm_state :: gpu_recovery_state
  gm_retired_epoch :: gpu_epoch
  gm_candidate_epoch :: gpu_epoch
  gm_loss_point :: gpu_loss_point
  gm_rebuild_attempts :: u8
  gm_audience_closed :: bool
  gm_old_epoch_retired :: bool
  gm_required_claims_valid :: bool

definition gpu_default :: gpu_recovery_machine where
  "gpu_default = \<lparr>gm_state = GrHealthy, gm_retired_epoch = EPOCH_INITIAL,
     gm_candidate_epoch = EPOCH_INITIAL, gm_loss_point = Unattributed, gm_rebuild_attempts = 0,
     gm_audience_closed = False, gm_old_epoch_retired = False, gm_required_claims_valid = False\<rparr>"

section \<open>Operations\<close>

type_synonym 'r gpu_result = "gpu_recovery_machine \<times> (gpu_recovery_error + 'r)"

definition begin_loss :: "gpu_recovery_machine \<Rightarrow> gpu_loss_point \<Rightarrow> unit gpu_result" where
  "begin_loss m point =
     (if gm_state m \<noteq> GrHealthy then (m\<lparr>gm_state := GrFailed\<rparr>, Inl SecondLoss)
      else (m\<lparr>gm_loss_point := point, gm_retired_epoch := gm_candidate_epoch m,
              gm_audience_closed := False, gm_old_epoch_retired := False,
              gm_required_claims_valid := False, gm_state := GrClosingAudience\<rparr>, Inr ()))"

definition audience_closed :: "gpu_recovery_machine \<Rightarrow> unit gpu_result" where
  "audience_closed m =
     (if gm_state m \<noteq> GrClosingAudience then (m, Inl InvalidTransition)
      else (m\<lparr>gm_audience_closed := True, gm_state := GrRetiringGpuEpoch\<rparr>, Inr ()))"

definition gpu_epoch_retired :: "gpu_recovery_machine \<Rightarrow> unit gpu_result" where
  "gpu_epoch_retired m =
     (if gm_state m \<noteq> GrRetiringGpuEpoch \<or> \<not> gm_audience_closed m then (m, Inl AudienceNotClosed)
      else (m\<lparr>gm_old_epoch_retired := True\<rparr>, Inr ()))"

definition require_supervised_restart :: "gpu_recovery_machine \<Rightarrow> i32 gpu_result" where
  "require_supervised_restart m =
     (if gm_state m \<noteq> GrRetiringGpuEpoch \<or> \<not> gm_old_epoch_retired m then (m, Inl OldEpochNotRetired)
      else (m\<lparr>gm_state := GrSupervisedRestartRequired\<rparr>, Inr SUPERVISED_GPU_RESTART_EXIT_CODE))"

definition begin_in_process_rebuild :: "gpu_recovery_machine \<Rightarrow> gpu_epoch gpu_result" where
  "begin_in_process_rebuild m =
     (if gm_state m \<noteq> GrRetiringGpuEpoch \<or> \<not> gm_old_epoch_retired m then (m, Inl OldEpochNotRetired)
      else if MAX_IN_PROCESS_REBUILD_ATTEMPTS \<le> gm_rebuild_attempts m
        then (m\<lparr>gm_state := GrFailed\<rparr>, Inl RebuildAttemptCap)
      else case epoch_next (gm_retired_epoch m) of
          None \<Rightarrow> (m, Inl RebuildAttemptCap)
        | Some e \<Rightarrow> (m\<lparr>gm_candidate_epoch := e, gm_rebuild_attempts := gm_rebuild_attempts m + 1,
                       gm_state := GrRebuilding\<rparr>, Inr e))"

definition rebuild_validated :: "gpu_recovery_machine \<Rightarrow> gpu_epoch \<Rightarrow> bool \<Rightarrow> unit gpu_result" where
  "rebuild_validated m e valid =
     (if gm_state m \<noteq> GrRebuilding \<or> e \<noteq> gm_candidate_epoch m then (m, Inl StaleCompletion)
      else (m\<lparr>gm_required_claims_valid := valid,
              gm_state := (if valid then GrAwaitingOperator else GrFailed)\<rparr>, Inr ()))"

definition operator_resume :: "gpu_recovery_machine \<Rightarrow> unit gpu_result" where
  "operator_resume m =
     (if gm_state m \<noteq> GrAwaitingOperator \<or> \<not> gm_required_claims_valid m
      then (m, Inl OperatorResumeBeforeValidation)
      else (m\<lparr>gm_state := GrHealthy\<rparr>, Inr ()))"

definition accepts_completion :: "gpu_recovery_machine \<Rightarrow> gpu_epoch \<Rightarrow> bool" where
  "accepts_completion m e \<longleftrightarrow> gm_state m \<in> {GrHealthy, GrRebuilding} \<and> e = gm_candidate_epoch m"

record gpu_recovery_receipt =
  rec_schema_version :: u16
  rec_state :: gpu_recovery_state
  rec_retired_epoch :: u64
  rec_candidate_epoch :: u64
  rec_loss_point :: gpu_loss_point
  rec_rebuild_attempts :: u8
  rec_audience_closed :: bool
  rec_required_claims_valid :: bool
  rec_operator_resume_required :: bool
  rec_supervised_exit_code :: "i32 option"

definition gpu_receipt :: "gpu_recovery_machine \<Rightarrow> gpu_recovery_receipt" where
  "gpu_receipt m = \<lparr>rec_schema_version = 1, rec_state = gm_state m,
     rec_retired_epoch = gm_retired_epoch m, rec_candidate_epoch = gm_candidate_epoch m,
     rec_loss_point = gm_loss_point m, rec_rebuild_attempts = gm_rebuild_attempts m,
     rec_audience_closed = gm_audience_closed m, rec_required_claims_valid = gm_required_claims_valid m,
     rec_operator_resume_required = (gm_state m = GrAwaitingOperator),
     rec_supervised_exit_code =
       (if gm_state m = GrSupervisedRestartRequired then Some SUPERVISED_GPU_RESTART_EXIT_CODE else None)\<rparr>"

section \<open>The Phase-A latch\<close>

text \<open>Two atomic variables.  A requesting thread first exchanges the flag and, if it won, stores its
  point in a second step; between the two the other threads may run.\<close>

record phase_a_latch =
  la_requested :: bool
  la_point :: u8

definition latch_initial :: phase_a_latch where
  "latch_initial = \<lparr>la_requested = False, la_point = loss_point_code Unattributed\<rparr>"

datatype requester = Entering gpu_loss_point | Won gpu_loss_point | Gone

inductive latch_step :: "phase_a_latch \<times> requester list \<Rightarrow> phase_a_latch \<times> requester list \<Rightarrow> bool" where
  exchange_won: "i < length ts \<Longrightarrow> ts ! i = Entering p \<Longrightarrow> \<not> la_requested l \<Longrightarrow>
     latch_step (l, ts) (l\<lparr>la_requested := True\<rparr>, ts[i := Won p])"
| exchange_lost: "i < length ts \<Longrightarrow> ts ! i = Entering p \<Longrightarrow> la_requested l \<Longrightarrow>
     latch_step (l, ts) (l, ts[i := Gone])"
| store_point: "i < length ts \<Longrightarrow> ts ! i = Won p \<Longrightarrow>
     latch_step (l, ts) (l\<lparr>la_point := loss_point_code p\<rparr>, ts[i := Gone])"

definition phase_a_restart_request :: "phase_a_latch \<Rightarrow> gpu_loss_point option" where
  "phase_a_restart_request l =
     (if la_requested l then Some (loss_point_from_u8 (la_point l)) else None)"

section \<open>Laws of the machine\<close>

datatype gpu_op = GLoss gpu_loss_point | GAudience | GRetired | GRestart | GRebuild | GValidated gpu_epoch bool | GResume

fun gpu_step :: "gpu_recovery_machine \<Rightarrow> gpu_op \<Rightarrow> gpu_recovery_machine" where
  "gpu_step m (GLoss p) = fst (begin_loss m p)"
| "gpu_step m GAudience = fst (audience_closed m)"
| "gpu_step m GRetired = fst (gpu_epoch_retired m)"
| "gpu_step m GRestart = fst (require_supervised_restart m)"
| "gpu_step m GRebuild = fst (begin_in_process_rebuild m)"
| "gpu_step m (GValidated e v) = fst (rebuild_validated m e v)"
| "gpu_step m GResume = fst (operator_resume m)"

lemmas gpu_op_defs = begin_loss_def audience_closed_def gpu_epoch_retired_def
  require_supervised_restart_def begin_in_process_rebuild_def rebuild_validated_def operator_resume_def
  epoch_next_def checked_add_def MAX_IN_PROCESS_REBUILD_ATTEMPTS_def

definition gpu_inv :: "gpu_recovery_machine \<Rightarrow> bool" where
  "gpu_inv m \<longleftrightarrow>
     (gm_rebuild_attempts m = 0 \<and> gm_candidate_epoch m = 1 \<and> gm_retired_epoch m = 1 \<and>
        gm_state m \<notin> {GrRebuilding, GrAwaitingOperator} \<or>
      gm_rebuild_attempts m = 1 \<and> gm_candidate_epoch m = 2 \<and>
        (gm_retired_epoch m = 1 \<or> gm_retired_epoch m = 2 \<and> gm_state m \<notin> {GrHealthy, GrRebuilding, GrAwaitingOperator})) \<and>
     (gm_state m \<in> {GrRetiringGpuEpoch, GrSupervisedRestartRequired, GrRebuilding, GrAwaitingOperator}
        \<longrightarrow> gm_audience_closed m) \<and>
     (gm_state m = GrClosingAudience \<longrightarrow> \<not> gm_audience_closed m \<and> \<not> gm_old_epoch_retired m) \<and>
     (gm_state m = GrRetiringGpuEpoch \<longrightarrow> gm_retired_epoch m = gm_candidate_epoch m) \<and>
     (gm_state m = GrClosingAudience \<longrightarrow> gm_retired_epoch m = gm_candidate_epoch m) \<and>
     (gm_state m \<in> {GrSupervisedRestartRequired, GrRebuilding, GrAwaitingOperator} \<longrightarrow> gm_old_epoch_retired m) \<and>
     (gm_state m = GrAwaitingOperator \<longrightarrow> gm_required_claims_valid m)"

lemma gpu_inv_default: "gpu_inv gpu_default"
  by (simp add: gpu_inv_def gpu_default_def EPOCH_INITIAL_def)

lemma gpu_inv_step: "gpu_inv m \<Longrightarrow> gpu_inv (gpu_step m x)"
  by (cases x; cases "gm_state m") (auto simp: gpu_inv_def gpu_op_defs)

interpretation gpu: invariant_machine gpu_step gpu_inv
  by unfold_locales (rule gpu_inv_step)

lemma gpu_inv_epochs:
  "gpu_inv m \<Longrightarrow> gm_rebuild_attempts m = 0 \<and> gm_candidate_epoch m = 1 \<or>
     gm_rebuild_attempts m = 1 \<and> gm_candidate_epoch m = 2"
  unfolding gpu_inv_def by blast

lemma gpu_inv_states:
  "gpu_inv m \<Longrightarrow> gm_state m = GrSupervisedRestartRequired \<Longrightarrow> gm_audience_closed m \<and> gm_old_epoch_retired m"
  "gpu_inv m \<Longrightarrow> gm_state m = GrAwaitingOperator \<Longrightarrow>
     gm_audience_closed m \<and> gm_old_epoch_retired m \<and> gm_required_claims_valid m"
  unfolding gpu_inv_def by blast+

text \<open>What holds forever after epoch \<open>e\<close> was lost.\<close>

definition lost :: "gpu_epoch \<Rightarrow> gpu_recovery_machine \<Rightarrow> bool" where
  "lost e m \<longleftrightarrow> gpu_inv m \<and>
     (e = 1 \<and> gm_candidate_epoch m = 2 \<or> gm_candidate_epoch m = e \<and> gm_state m \<notin> {GrHealthy, GrRebuilding, GrAwaitingOperator})"

lemma gpu_step_candidate:
  "gm_state m = GrRetiringGpuEpoch \<Longrightarrow> gm_rebuild_attempts m = 0 \<Longrightarrow> gm_retired_epoch m = 1 \<Longrightarrow>
     gm_candidate_epoch m = 1 \<Longrightarrow>
     gm_candidate_epoch (gpu_step m x) = 1 \<and> gm_state (gpu_step m x) \<notin> {GrHealthy, GrRebuilding, GrAwaitingOperator} \<or>
     gm_candidate_epoch (gpu_step m x) = 2"
  "gm_state m \<noteq> GrRetiringGpuEpoch \<or> gm_rebuild_attempts m = 1 \<Longrightarrow>
     gm_candidate_epoch (gpu_step m x) = gm_candidate_epoch m \<and>
     (gm_state m \<notin> {GrHealthy, GrRebuilding, GrAwaitingOperator} \<longrightarrow>
      gm_state (gpu_step m x) \<notin> {GrHealthy, GrRebuilding, GrAwaitingOperator})"
  by (cases x; simp add: gpu_op_defs)+

lemma lost_step: "lost e m \<Longrightarrow> lost e (gpu_step m x)"
proof -
  assume l: "lost e m"
  then have i: "gpu_inv m" by (simp add: lost_def)
  have i': "gpu_inv (gpu_step m x)" using i by (rule gpu_inv_step)
  show ?thesis
  proof (cases "gm_state m \<noteq> GrRetiringGpuEpoch \<or> gm_rebuild_attempts m = 1")
    case True
    from gpu_step_candidate(2) [OF True, of x] l i' show ?thesis unfolding lost_def by auto
  next
    case False
    have r: "gm_retired_epoch m = gm_candidate_epoch m" using i False unfolding gpu_inv_def by blast
    have a: "gm_rebuild_attempts m = 0" "gm_candidate_epoch m = 1" using gpu_inv_epochs [OF i] False by auto
    have "e = 1" using l a by (auto simp: lost_def)
    with gpu_step_candidate(1) [of m x] a r False i' show ?thesis unfolding lost_def by auto
  qed
qed

interpretation lost: invariant_machine gpu_step "lost e" for e
  by unfold_locales (rule lost_step)

lemma begin_loss_lost:
  "gpu_inv m \<Longrightarrow> begin_loss m p = (m', Inr ()) \<Longrightarrow> lost (gm_candidate_epoch m) m'"
  using gpu_inv_step [of m "GLoss p"] by (auto simp: lost_def begin_loss_def split: if_splits)

section \<open>Laws of the latch\<close>

lemma loss_point_round_trip: "loss_point_from_u8 (loss_point_code p) = p"
  by (cases p) (simp_all add: loss_point_from_u8_def)

definition no_winner :: "requester list \<Rightarrow> bool" where
  "no_winner ts \<longleftrightarrow> (\<forall>i < length ts. \<forall>p. ts ! i \<noteq> Won p)"

definition latch_inv :: "gpu_loss_point list \<Rightarrow> phase_a_latch \<times> requester list \<Rightarrow> bool" where
  "latch_inv ps x = (case x of (l, ts) \<Rightarrow>
     (\<forall>i < length ts. \<forall>p. ts ! i = Entering p \<or> ts ! i = Won p \<longrightarrow> p \<in> set ps) \<and>
     (if la_requested l
      then (\<exists>i p. i < length ts \<and> ts ! i = Won p \<and> (\<forall>j < length ts. \<forall>q. ts ! j = Won q \<longrightarrow> j = i) \<and>
              la_point l = loss_point_code Unattributed) \<or>
           no_winner ts \<and> (\<exists>p \<in> set ps. la_point l = loss_point_code p)
      else la_point l = loss_point_code Unattributed \<and> no_winner ts \<and> Gone \<notin> set ts))"

inductive_cases latch_stepE: "latch_step (l, ts) y"

lemma latch_inv_start: "latch_inv ps (latch_initial, map Entering ps)"
  by (auto simp: latch_inv_def latch_initial_def no_winner_def)

lemma latch_inv_entering:
  "latch_inv ps (l, ts) \<Longrightarrow> i < length ts \<Longrightarrow> ts ! i \<in> {Entering p, Won p} \<Longrightarrow> p \<in> set ps"
  by (auto simp: latch_inv_def)

lemma latch_inv_won:
  assumes "latch_inv ps (l, ts)" "i < length ts" "ts ! i = Won p"
  shows "la_requested l" "la_point l = loss_point_code Unattributed"
    "\<And>j q. j < length ts \<Longrightarrow> ts ! j = Won q \<Longrightarrow> j = i"
proof -
  have w: "\<not> no_winner ts" using assms(2,3) unfolding no_winner_def by blast
  with assms(1) show req: "la_requested l" by (simp add: latch_inv_def split: if_splits)
  with w assms(1) obtain k where k: "\<forall>j < length ts. \<forall>q. ts ! j = Won q \<longrightarrow> j = k"
    "la_point l = loss_point_code Unattributed"
    unfolding latch_inv_def prod.case if_P [OF req] by blast
  then show "la_point l = loss_point_code Unattributed" by simp
  show "j = i" if "j < length ts" "ts ! j = Won q" for j q using k(1) that assms(2,3) by blast
qed

lemma latch_inv_intro_won:
  assumes "la_requested l" "la_point l = loss_point_code Unattributed" "i < length ts" "ts ! i = Won p"
    "\<And>j q. j < length ts \<Longrightarrow> ts ! j = Won q \<Longrightarrow> j = i"
    "\<And>j q. j < length ts \<Longrightarrow> ts ! j \<in> {Entering q, Won q} \<Longrightarrow> q \<in> set ps"
  shows "latch_inv ps (l, ts)"
  unfolding latch_inv_def prod.case if_P [OF assms(1)] using assms(2-6) by blast

lemma latch_inv_intro_done:
  assumes "la_requested l" "la_point l = loss_point_code p" "p \<in> set ps" "no_winner ts"
    "\<And>j q. j < length ts \<Longrightarrow> ts ! j \<in> {Entering q, Won q} \<Longrightarrow> q \<in> set ps"
  shows "latch_inv ps (l, ts)"
  unfolding latch_inv_def prod.case if_P [OF assms(1)] using assms(2-5) by blast

lemma latch_inv_quiet:
  assumes "latch_inv ps (l, ts)" "la_requested l" "no_winner ts"
  obtains r where "r \<in> set ps" "la_point l = loss_point_code r"
  using assms(1,3) unfolding latch_inv_def prod.case if_P [OF assms(2)] no_winner_def by blast

lemma update_gone:
  "j < length ts \<Longrightarrow> t \<noteq> Gone \<Longrightarrow> ts[i := Gone] ! j = t \<longleftrightarrow> j \<noteq> i \<and> ts ! j = t"
  by (cases "j = i") auto

lemma no_winner_gone: "no_winner ts \<Longrightarrow> no_winner (ts[i := Gone])"
  by (simp add: no_winner_def update_gone)

lemma latch_inv_exchange_won:
  assumes inv: "latch_inv ps (l, ts)" and "i < length ts" "ts ! i = Entering p" "\<not> la_requested l"
  shows "latch_inv ps (l\<lparr>la_requested := True\<rparr>, ts[i := Won p])"
proof (rule latch_inv_intro_won [where i = i and p = p])
  have nw: "no_winner ts" "la_point l = loss_point_code Unattributed"
    using assms by (simp_all add: latch_inv_def)
  have p: "p \<in> set ps" using latch_inv_entering [OF inv, of i p] assms by simp
  show "la_point (l\<lparr>la_requested := True\<rparr>) = loss_point_code Unattributed" using nw(2) by simp
  show "j = i" if "j < length (ts[i := Won p])" "ts[i := Won p] ! j = Won q" for j q
    using nw(1) that by (cases "j = i") (simp_all add: no_winner_def)
  show "q \<in> set ps" if "j < length (ts[i := Won p])" "ts[i := Won p] ! j \<in> {Entering q, Won q}" for j q
    using that p latch_inv_entering [OF inv, of j q] by (cases "j = i") auto
qed (use assms(2) in simp_all)

lemma latch_inv_gone_members:
  assumes "latch_inv ps (l, ts)" "j < length (ts[i := Gone])" "ts[i := Gone] ! j \<in> {Entering q, Won q}"
  shows "q \<in> set ps"
  using assms(2,3) latch_inv_entering [OF assms(1), of j q] by (cases "j = i") auto

lemma latch_inv_exchange_lost:
  assumes inv: "latch_inv ps (l, ts)" and "i < length ts" "ts ! i = Entering p" "la_requested l"
  shows "latch_inv ps (l, ts[i := Gone])"
proof (cases "no_winner ts")
  case True
  obtain r where "r \<in> set ps" "la_point l = loss_point_code r"
    using inv assms(4) True by (rule latch_inv_quiet)
  then show ?thesis using no_winner_gone [OF True] latch_inv_gone_members [OF inv] assms(4)
    by (intro latch_inv_intro_done) auto
next
  case False
  then obtain k q where k: "k < length ts" "ts ! k = Won q" unfolding no_winner_def by blast
  have ki: "k \<noteq> i" using k(2) assms(3) by auto
  note w = latch_inv_won [OF inv k]
  show ?thesis
  proof (rule latch_inv_intro_won [OF w(1,2)])
    show "k < length (ts[i := Gone])" using k(1) by simp
    show "ts[i := Gone] ! k = Won q" using k ki by simp
    show "j = k" if "j < length (ts[i := Gone])" "ts[i := Gone] ! j = Won r" for j r
      using that w(3) [of j r] by (simp add: update_gone)
  qed (rule latch_inv_gone_members [OF inv])
qed

lemma latch_inv_store:
  assumes inv: "latch_inv ps (l, ts)" and "i < length ts" "ts ! i = Won p"
  shows "latch_inv ps (l\<lparr>la_point := loss_point_code p\<rparr>, ts[i := Gone])"
proof (rule latch_inv_intro_done)
  note w = latch_inv_won [OF inv assms(2,3)]
  show "la_requested (l\<lparr>la_point := loss_point_code p\<rparr>)" using w(1) by simp
  show "p \<in> set ps" using latch_inv_entering [OF inv assms(2), of p] assms(3) by simp
  show "no_winner (ts[i := Gone])" using w(3) by (auto simp: no_winner_def update_gone)
qed (simp, rule latch_inv_gone_members [OF inv])

lemma latch_inv_step: "latch_step x y \<Longrightarrow> latch_inv ps x \<Longrightarrow> latch_inv ps y"
  by (induction rule: latch_step.induct)
    (rule latch_inv_exchange_won latch_inv_exchange_lost latch_inv_store; assumption)+

lemma latch_inv_run: "latch_step\<^sup>*\<^sup>* x y \<Longrightarrow> latch_inv ps x \<Longrightarrow> latch_inv ps y"
  by (induction rule: rtranclp_induct) (auto intro: latch_inv_step)

text \<open>Without an outstanding winner a requested latch is frozen.\<close>

definition latch_frozen :: "u8 \<Rightarrow> phase_a_latch \<times> requester list \<Rightarrow> bool" where
  "latch_frozen c x = (la_requested (fst x) \<and> la_point (fst x) = c \<and> no_winner (snd x))"

lemma latch_frozen_step:
  assumes "latch_step x y" "latch_frozen c x"
  shows "latch_frozen c y"
  using assms(1)
proof (cases rule: latch_step.cases)
  case (exchange_lost i ts p l)
  have "ts[i := Gone] ! j \<noteq> Won q" if "j < length ts" for j q
    using assms(2) that exchange_lost by (cases "j = i") (auto simp: latch_frozen_def no_winner_def)
  with assms(2) exchange_lost show ?thesis by (simp add: latch_frozen_def no_winner_def)
qed (use assms(2) in \<open>auto simp: latch_frozen_def no_winner_def\<close>)

lemma latch_frozen_run: "latch_step\<^sup>*\<^sup>* x y \<Longrightarrow> latch_frozen c x \<Longrightarrow> latch_frozen c y"
  by (induction rule: rtranclp_induct) (auto intro: latch_frozen_step)

lemma latch_requested_run:
  "latch_step\<^sup>*\<^sup>* x y \<Longrightarrow> la_requested (fst x) \<Longrightarrow> la_requested (fst y)"
  by (induction rule: rtranclp_induct) (auto elim!: latch_step.cases)

section \<open>Properties\<close>

text \<open>Recovery discipline: after any sequence of events a receipt shows at most one rebuild attempt and
  the candidate epoch one above it; the supervised exit code is shown only with every audience
  endpoint closed and the old epoch retired; and the operator's resume is offered only with the audience
  closed, the old epoch retired and the required claims valid.\<close>

theorem recovery_discipline:
  assumes "m = foldl gpu_step gpu_default es" and "r = gpu_receipt m"
  shows "unat (rec_rebuild_attempts r) \<le> 1 \<and>
    unat (rec_candidate_epoch r) = unat (rec_rebuild_attempts r) + 1 \<and>
    (rec_supervised_exit_code r = Some 75 \<or> rec_supervised_exit_code r = None) \<and>
    (rec_supervised_exit_code r \<noteq> None \<longrightarrow> rec_audience_closed r \<and> gm_old_epoch_retired m) \<and>
    (rec_operator_resume_required r \<longrightarrow>
       rec_audience_closed r \<and> gm_old_epoch_retired m \<and> rec_required_claims_valid r)"
proof -
  have "gpu_inv m" unfolding assms(1) by (rule gpu.inv_run [OF gpu_inv_default])
  from gpu_inv_epochs [OF this] gpu_inv_states [OF this] show ?thesis
    by (auto simp: assms(2) gpu_receipt_def SUPERVISED_GPU_RESTART_EXIT_CODE_def)
qed

theorem recovery_discipline_witness:
  "rec_supervised_exit_code (gpu_receipt (foldl gpu_step gpu_default [GLoss PreSubmit, GAudience, GRetired, GRestart])) =
     Some 75 \<and>
   rec_audience_closed (gpu_receipt (foldl gpu_step gpu_default [GLoss PreSubmit, GAudience, GRetired, GRestart]))"
proof -
  have "rec_supervised_exit_code (gpu_receipt (foldl gpu_step gpu_default [GLoss PreSubmit, GAudience, GRetired, GRestart])) = Some 75"
    by (simp add: gpu_receipt_def gpu_default_def gpu_op_defs SUPERVISED_GPU_RESTART_EXIT_CODE_def)
  with recovery_discipline [OF refl refl, of "[GLoss PreSubmit, GAudience, GRetired, GRestart]"] show ?thesis
    by auto
qed

text \<open>C27. A lost epoch stays lost: after the loss of the live epoch was accepted in any reachable machine,
  no later state, whatever events follow, accepts a completion of that epoch.\<close>

theorem lost_epoch_never_accepted:
  assumes "m = foldl gpu_step gpu_default es" and "begin_loss m p = (m', Inr ())"
    and "later = foldl gpu_step m' es'"
  shows "\<not> accepts_completion later (gm_candidate_epoch m)"
proof -
  have "gpu_inv m" unfolding assms(1) by (rule gpu.inv_run [OF gpu_inv_default])
  then have "lost (gm_candidate_epoch m) m'" using assms(2) by (rule begin_loss_lost)
  then have "lost (gm_candidate_epoch m) later" unfolding assms(3) by (rule lost.inv_run)
  then show ?thesis by (auto simp: lost_def accepts_completion_def)
qed

theorem lost_epoch_never_accepted_witness:
  "accepts_completion (foldl gpu_step (fst (begin_loss gpu_default OutputResize))
      [GAudience, GRetired, GRebuild, GValidated 2 True, GResume]) 2 \<and>
   \<not> accepts_completion (foldl gpu_step (fst (begin_loss gpu_default OutputResize))
      [GAudience, GRetired, GRebuild, GValidated 2 True, GResume]) 1"
proof -
  let ?m = "gpu_default\<lparr>gm_loss_point := OutputResize, gm_state := GrClosingAudience\<rparr>"
  have b: "begin_loss gpu_default OutputResize = (?m, Inr ())"
    by (simp add: begin_loss_def gpu_default_def)
  have run: "foldl gpu_step ?m [GAudience, GRetired, GRebuild, GValidated 2 True, GResume] =
      \<lparr>gm_state = GrHealthy, gm_retired_epoch = 1, gm_candidate_epoch = 2, gm_loss_point = OutputResize,
       gm_rebuild_attempts = 1, gm_audience_closed = True, gm_old_epoch_retired = True,
       gm_required_claims_valid = True\<rparr>"
    by (simp add: gpu_default_def gpu_op_defs EPOCH_INITIAL_def)
  have "gpu_default = foldl gpu_step gpu_default []" by simp
  from lost_epoch_never_accepted [OF this b run [symmetric]] show ?thesis
    unfolding b fst_conv run by (simp add: accepts_completion_def gpu_default_def EPOCH_INITIAL_def)
qed

text \<open>The first attribution wins: with any number of threads requesting a restart at once, in every
  interleaving of their atomic steps, the latch reads as one of the requested points or, in the window
  before the winner's store, as unattributed; a request once seen is never unseen; an attributed
  reading never changes again; and when all threads are done the reading is a requested point.\<close>

theorem first_attribution_wins:
  assumes "latch_step\<^sup>*\<^sup>* (latch_initial, map Entering ps) (l, ts)" and "latch_step\<^sup>*\<^sup>* (l, ts) (l', ts')"
    and "phase_a_restart_request l = Some p"
  shows "(p = Unattributed \<or> p \<in> set ps) \<and> phase_a_restart_request l' \<noteq> None \<and>
    (p \<noteq> Unattributed \<longrightarrow> phase_a_restart_request l' = Some p) \<and>
    (list_all (\<lambda>t. t = Gone) ts' \<longrightarrow> phase_a_restart_request l' \<in> Some ` set ps)"
proof -
  have i: "latch_inv ps (l, ts)" using assms(1) latch_inv_start by (rule latch_inv_run)
  have i': "latch_inv ps (l', ts')" using assms(2) i by (rule latch_inv_run)
  have req: "la_requested l" "p = loss_point_from_u8 (la_point l)"
    using assms(3) by (auto simp: phase_a_restart_request_def split: if_splits)
  have req': "la_requested l'" using latch_requested_run [OF assms(2)] req(1) by simp
  have frozen: "latch_frozen (la_point l) (l, ts) \<and> p \<in> set ps" if "p \<noteq> Unattributed"
  proof -
    have "la_point l \<noteq> loss_point_code Unattributed" using req(2) that by (metis loss_point_round_trip)
    then have nw: "no_winner ts" using latch_inv_won(2) [OF i] unfolding no_winner_def by blast
    obtain r where "r \<in> set ps" "la_point l = loss_point_code r" using i req(1) nw by (rule latch_inv_quiet)
    with nw req show ?thesis by (simp add: latch_frozen_def loss_point_round_trip)
  qed
  have "phase_a_restart_request l' = Some p" if "p \<noteq> Unattributed"
    using latch_frozen_run [OF assms(2)] frozen [OF that] req
    by (auto simp: latch_frozen_def phase_a_restart_request_def)
  moreover have "phase_a_restart_request l' \<in> Some ` set ps" if "list_all (\<lambda>t. t = Gone) ts'"
  proof -
    have "no_winner ts'" using that by (auto simp: list_all_length no_winner_def)
    with i' req' obtain q where "q \<in> set ps" "la_point l' = loss_point_code q" by (rule latch_inv_quiet)
    then show ?thesis using req' by (simp add: phase_a_restart_request_def loss_point_round_trip)
  qed
  ultimately show ?thesis using frozen req' by (auto simp: phase_a_restart_request_def)
qed

theorem first_attribution_wins_witness:
  "phase_a_restart_request \<lparr>la_requested = True, la_point = 3\<rparr> = Some PostSubmit \<and>
   latch_step\<^sup>*\<^sup>* (latch_initial, map Entering [PreSubmit, PostSubmit])
     (\<lparr>la_requested = True, la_point = 3\<rparr>, [Gone, Gone])"
proof -
  let ?l = "\<lparr>la_requested = True, la_point = 3\<rparr>"
  have a: "latch_step (latch_initial, [Entering PreSubmit, Entering PostSubmit])
      (latch_initial\<lparr>la_requested := True\<rparr>, [Entering PreSubmit, Won PostSubmit])"
    using latch_step.exchange_won [of 1 "[Entering PreSubmit, Entering PostSubmit]" PostSubmit latch_initial]
    by (simp add: latch_initial_def)
  have b: "latch_step (latch_initial\<lparr>la_requested := True\<rparr>, [Entering PreSubmit, Won PostSubmit])
      (latch_initial\<lparr>la_requested := True\<rparr>, [Gone, Won PostSubmit])"
    using latch_step.exchange_lost [of 0 "[Entering PreSubmit, Won PostSubmit]" PreSubmit] by simp
  have c: "latch_step (latch_initial\<lparr>la_requested := True\<rparr>, [Gone, Won PostSubmit]) (?l, [Gone, Gone])"
    using latch_step.store_point [of 1 "[Gone, Won PostSubmit]" PostSubmit "latch_initial\<lparr>la_requested := True\<rparr>"]
    by (simp add: latch_initial_def)
  have run: "latch_step\<^sup>*\<^sup>* (latch_initial, map Entering [PreSubmit, PostSubmit]) (?l, [Gone, Gone])"
    using a b c by (auto intro: converse_rtranclp_into_rtranclp)
  have "phase_a_restart_request ?l = Some PostSubmit"
    by (simp add: phase_a_restart_request_def loss_point_from_u8_def)
  with first_attribution_wins [OF run rtranclp.rtrancl_refl this] run show ?thesis by blast
qed

end
