(* ===== verification/Source_Transition.thy ===== *)
theory Source_Transition
  imports Prelude Complex_Main
begin

text \<open>
  The prepared-transition kernel of \<open>src/src/source_transition.rs\<close>: authored durations, the transition
  clock, whose phase is a fraction of saturating 128-bit numbers, and the all-or-none admission of a
  scene's activation requests.
\<close>

section \<open>Authored transitions\<close>

definition MAX_SIMULTANEOUS_DISSOLVES :: nat where "MAX_SIMULTANEOUS_DISSOLVES = 2"
definition MAX_TRANSITION_REFERENCE_TICKS :: u32 where "MAX_TRANSITION_REFERENCE_TICKS = 3600"
definition MAX_TRANSITION_BEAT_NUMERATOR :: u32 where "MAX_TRANSITION_BEAT_NUMERATOR = 1024"
definition MAX_TRANSITION_BEAT_DENOMINATOR :: u32 where "MAX_TRANSITION_BEAT_DENOMINATOR = 1024"

datatype transition_kind = KCut | KDissolve

datatype transition_duration =
    ReferenceTicks u32
  | RationalBeats (beats_numerator: u32) (beats_denominator: u32)

fun duration_is_zero :: "transition_duration \<Rightarrow> bool" where
  "duration_is_zero (ReferenceTicks t) = (t = 0)"
| "duration_is_zero (RationalBeats n d) = (n = 0)"

datatype transition_config_error = ZeroBeatDenominator | DurationCap

fun duration_validate :: "transition_duration \<Rightarrow> transition_config_error + unit" where
  "duration_validate (ReferenceTicks t) =
     (if t \<le> MAX_TRANSITION_REFERENCE_TICKS then Inr () else Inl DurationCap)"
| "duration_validate (RationalBeats n d) =
     (if n \<le> MAX_TRANSITION_BEAT_NUMERATOR \<and> 0 < d \<and> d \<le> MAX_TRANSITION_BEAT_DENOMINATOR then Inr ()
      else if d = 0 then Inl ZeroBeatDenominator else Inl DurationCap)"

datatype interruption_policy = Refuse

record prepared_transition =
  tr_kind :: transition_kind
  tr_duration :: transition_duration
  tr_interruption :: interruption_policy

definition exact_cut :: prepared_transition where
  "exact_cut = \<lparr>tr_kind = KCut, tr_duration = ReferenceTicks 0, tr_interruption = Refuse\<rparr>"

definition is_exact_cut :: "prepared_transition \<Rightarrow> bool" where
  "is_exact_cut t \<longleftrightarrow> tr_kind t = KCut \<or> duration_is_zero (tr_duration t)"

definition transition_validate :: "prepared_transition \<Rightarrow> transition_config_error + unit" where
  "transition_validate t = duration_validate (tr_duration t)"

section \<open>The transition clock\<close>

record beat_position =
  bp_numerator :: u64
  bp_denominator :: u32

definition beat_position_new :: "u64 \<Rightarrow> u32 \<Rightarrow> beat_position option" where
  "beat_position_new n d = (if d = 0 then None else Some \<lparr>bp_numerator = n, bp_denominator = d\<rparr>)"

record clock_observation =
  ob_tick :: u64
  ob_beat :: beat_position
  ob_paused :: bool
  ob_frozen :: bool

record transition_phase =
  ph_numerator :: u128
  ph_denominator :: u128

definition PHASE_ZERO :: transition_phase where "PHASE_ZERO = \<lparr>ph_numerator = 0, ph_denominator = 1\<rparr>"
definition PHASE_ONE :: transition_phase where "PHASE_ONE = \<lparr>ph_numerator = 1, ph_denominator = 1\<rparr>"

record transition_clock =
  tc_duration :: transition_duration
  tc_elapsed_ticks :: u64
  tc_beat_numerator :: u128
  tc_beat_denominator :: u128
  tc_last :: clock_observation

definition clock_start ::
  "prepared_transition \<Rightarrow> clock_observation \<Rightarrow> transition_config_error + transition_clock" where
  "clock_start t ob = rbind (transition_validate t) (\<lambda>_. Inr
     \<lparr>tc_duration = tr_duration t, tc_elapsed_ticks = 0, tc_beat_numerator = 0, tc_beat_denominator = 1,
      tc_last = ob\<rparr>)"

definition positive_rational_delta :: "beat_position \<Rightarrow> beat_position \<Rightarrow> (u128 \<times> u128) option" where
  "positive_rational_delta before after =
     (let denominator = sat_mul (ucast (bp_denominator before)) (ucast (bp_denominator after));
          before_scaled = sat_mul (ucast (bp_numerator before)) (ucast (bp_denominator after));
          after_scaled = sat_mul (ucast (bp_numerator after)) (ucast (bp_denominator before))
      in if before_scaled < after_scaled then Some (after_scaled - before_scaled, denominator) else None)"

definition bounded_phase :: "u128 \<Rightarrow> u128 \<Rightarrow> transition_phase" where
  "bounded_phase numerator denominator =
     (if denominator = 0 \<or> denominator \<le> numerator then PHASE_ONE
      else if numerator = 0 then PHASE_ZERO
      else \<lparr>ph_numerator = numerator, ph_denominator = denominator\<rparr>)"

definition clock_phase :: "transition_clock \<Rightarrow> transition_phase" where
  "clock_phase c =
     (case tc_duration c of
        ReferenceTicks duration \<Rightarrow> bounded_phase (ucast (tc_elapsed_ticks c)) (ucast duration)
      | RationalBeats numerator denominator \<Rightarrow>
          bounded_phase (sat_mul (tc_beat_numerator c) (ucast denominator))
            (sat_mul (tc_beat_denominator c) (ucast numerator)))"

definition clock_observe :: "transition_clock \<Rightarrow> clock_observation \<Rightarrow> transition_clock \<times> transition_phase"
  where
  "clock_observe c ob =
     (let c1 = (if ob_paused ob \<or> ob_frozen ob then c
        else let c2 = c\<lparr>tc_elapsed_ticks :=
                 sat_add (tc_elapsed_ticks c) (sat_sub (ob_tick ob) (ob_tick (tc_last c)))\<rparr> in
          (case positive_rational_delta (ob_beat (tc_last c2)) (ob_beat ob) of
             None \<Rightarrow> c2
           | Some (numerator, denominator) \<Rightarrow>
               let left = sat_mul (tc_beat_numerator c2) denominator;
                   right = sat_mul numerator (tc_beat_denominator c2)
               in c2\<lparr>tc_beat_numerator := sat_add left right,
                     tc_beat_denominator := max (sat_mul (tc_beat_denominator c2) denominator) 1\<rparr>));
         c3 = c1\<lparr>tc_last := ob\<rparr>
      in (c3, clock_phase c3))"

section \<open>Admission\<close>

record uv_mapping =
  uv_output_to_source :: "u64 list"
  uv_denominator :: u32

definition UV_IDENTITY :: uv_mapping where
  "UV_IDENTITY = \<lparr>uv_output_to_source = [1, 0, 0, 0, 1, 0, 0, 0, 1], uv_denominator = 1\<rparr>"

definition uv_is_valid :: "uv_mapping \<Rightarrow> bool" where
  "uv_is_valid m \<longleftrightarrow> uv_denominator m \<noteq> 0"

record activation_request =
  rq_layer :: u64
  rq_expected_outgoing :: u64
  rq_observed_outgoing :: u64
  rq_incoming :: u64
  rq_incoming_ready :: bool
  rq_outgoing_reserved :: bool
  rq_incoming_reserved :: bool
  rq_transition :: prepared_transition
  rq_outgoing_mapping :: uv_mapping
  rq_incoming_mapping :: uv_mapping
  rq_scratch_bytes :: u64

record admitted_dissolve =
  ad_layer :: u64
  ad_outgoing :: u64
  ad_incoming :: u64
  ad_outgoing_mapping :: uv_mapping
  ad_incoming_mapping :: uv_mapping
  ad_scratch_bytes :: u64
  ad_transition :: prepared_transition

record transition_plan =
  tp_request_count :: u32
  tp_cut_count :: u32
  tp_dissolve_count :: u8
  tp_scratch_bytes :: u64
  tp_dissolves :: "admitted_dissolve option list"

definition exact_cut_only :: "u32 \<Rightarrow> transition_plan" where
  "exact_cut_only n = \<lparr>tp_request_count = n, tp_cut_count = n, tp_dissolve_count = 0,
     tp_scratch_bytes = 0, tp_dissolves = replicate MAX_SIMULTANEOUS_DISSOLVES None\<rparr>"

datatype admission_error =
    InvalidConfig | DuplicateLayer | IncomingNotReady | MissingReservation | StaleOutgoing
  | InvalidGeneration | InvalidMapping | DissolveSlotCap | ScratchByteCap | TransitionAlreadyActive

definition admit_request :: "activation_request \<Rightarrow> admitted_dissolve" where
  "admit_request r = \<lparr>ad_layer = rq_layer r, ad_outgoing = rq_observed_outgoing r,
     ad_incoming = rq_incoming r, ad_outgoing_mapping = rq_outgoing_mapping r,
     ad_incoming_mapping = rq_incoming_mapping r, ad_scratch_bytes = rq_scratch_bytes r,
     ad_transition = rq_transition r\<rparr>"

text \<open>One pass of the loop body, in the order of its checks; \<open>prior\<close> is \<open>requests[..index]\<close>.\<close>

definition plan_request ::
  "u64 list \<Rightarrow> u64 \<Rightarrow> activation_request list \<Rightarrow> transition_plan \<Rightarrow> activation_request \<Rightarrow>
   admission_error + transition_plan" where
  "plan_request active cap prior plan r =
     (if list_ex (\<lambda>p. rq_layer p = rq_layer r) prior then Inl DuplicateLayer
      else if transition_validate (rq_transition r) \<noteq> Inr () then Inl InvalidConfig
      else if is_exact_cut (rq_transition r) then Inr plan
      else if rq_layer r \<in> set active then Inl TransitionAlreadyActive
      else if \<not> rq_incoming_ready r then Inl IncomingNotReady
      else if \<not> rq_outgoing_reserved r \<or> \<not> rq_incoming_reserved r then Inl MissingReservation
      else if rq_expected_outgoing r \<noteq> rq_observed_outgoing r then Inl StaleOutgoing
      else if \<not> (uv_is_valid (rq_outgoing_mapping r) \<and> uv_is_valid (rq_incoming_mapping r)) then Inl InvalidMapping
      else if rq_observed_outgoing r = 0 \<or> rq_incoming r = 0 then Inl InvalidGeneration
      else let slot = unat (tp_dissolve_count plan) in
        if slot = MAX_SIMULTANEOUS_DISSOLVES then Inl DissolveSlotCap
        else case checked_add (tp_scratch_bytes plan) (rq_scratch_bytes r) of
            None \<Rightarrow> Inl ScratchByteCap
          | Some bytes \<Rightarrow>
              if cap < bytes then Inl ScratchByteCap
              else Inr (plan\<lparr>tp_scratch_bytes := bytes, tp_cut_count := sat_sub (tp_cut_count plan) 1,
                tp_dissolve_count := sat_add (tp_dissolve_count plan) 1,
                tp_dissolves := (tp_dissolves plan)[slot := Some (admit_request r)]\<rparr>))"

fun plan_requests ::
  "u64 list \<Rightarrow> u64 \<Rightarrow> activation_request list \<Rightarrow> transition_plan \<Rightarrow> activation_request list \<Rightarrow>
   admission_error + transition_plan" where
  "plan_requests active cap prior plan [] = Inr plan"
| "plan_requests active cap prior plan (r # rs) =
     rbind (plan_request active cap prior plan r) (\<lambda>plan'. plan_requests active cap (prior @ [r]) plan' rs)"

definition plan_prepared_transitions ::
  "activation_request list \<Rightarrow> u64 list \<Rightarrow> u64 \<Rightarrow> admission_error + transition_plan" where
  "plan_prepared_transitions requests active cap =
     plan_requests active cap [] (exact_cut_only (of_nat (length requests))) requests"

end
