(* ===== verification/Source_Transition_Laws.thy ===== *)
theory Source_Transition_Laws
  imports Source_Transition
begin

text \<open>
  What the prepared-transition kernel promises: admission accepts exactly the admissible scenes and
  plans every one of their dissolves; the phase of a tick transition is the exact fraction of
  elapsed ticks, the phase of a beat transition the exact fraction of elapsed beats as long as the
  128-bit numbers do not saturate; and what happens when they do.
\<close>

section \<open>Admission\<close>

definition admissible :: "u64 list \<Rightarrow> activation_request \<Rightarrow> bool" where
  "admissible active r \<longleftrightarrow> transition_validate (rq_transition r) = Inr () \<and>
     (is_exact_cut (rq_transition r) \<or>
      rq_layer r \<notin> set active \<and> rq_incoming_ready r \<and> rq_outgoing_reserved r \<and> rq_incoming_reserved r \<and>
      rq_expected_outgoing r = rq_observed_outgoing r \<and> uv_is_valid (rq_outgoing_mapping r) \<and>
      uv_is_valid (rq_incoming_mapping r) \<and> rq_observed_outgoing r \<noteq> 0 \<and> rq_incoming r \<noteq> 0)"

definition dissolves_of :: "activation_request list \<Rightarrow> activation_request list" where
  "dissolves_of rs = filter (\<lambda>r. \<not> is_exact_cut (rq_transition r)) rs"

abbreviation scratch_of :: "activation_request list \<Rightarrow> nat" where
  "scratch_of rs \<equiv> unat_sum rq_scratch_bytes (dissolves_of rs)"

text \<open>The plan of \<open>n\<close> requests of which \<open>rs\<close> have been admitted.\<close>

definition planned :: "nat \<Rightarrow> activation_request list \<Rightarrow> transition_plan" where
  "planned n rs = (let k = length (dissolves_of rs) in
     \<lparr>tp_request_count = of_nat n, tp_cut_count = of_nat (n - k), tp_dissolve_count = of_nat k,
      tp_scratch_bytes = of_nat (scratch_of rs),
      tp_dissolves = map (Some \<circ> admit_request) (dissolves_of rs) @ replicate (2 - k) None\<rparr>)"

definition capped :: "u64 \<Rightarrow> activation_request list \<Rightarrow> bool" where
  "capped cap rs \<longleftrightarrow> length (dissolves_of rs) \<le> 2 \<and> scratch_of rs \<le> unat cap"

lemma dissolves_of_snoc:
  "dissolves_of (rs @ [r]) = dissolves_of rs @ (if is_exact_cut (rq_transition r) then [] else [r])"
  by (simp add: dissolves_of_def)

lemma capped_prefix: "capped cap (rs @ rs') \<Longrightarrow> capped cap rs"
  by (auto simp: capped_def dissolves_of_def)

lemma sat_sub_of_nat:
  assumes "k < n" "n < 2 ^ 32"
  shows "sat_sub (of_nat (n - k) :: u32) 1 = of_nat (n - Suc k)"
proof (rule unsigned_word_eqI)
  show "unat (sat_sub (of_nat (n - k) :: u32) 1) = unat (of_nat (n - Suc k) :: u32)"
    using assms unat_of_nat_small [where 'a = 32, of "n - k"] unat_of_nat_small [where 'a = 32, of "n - Suc k"]
    by (simp only: unat_sat_sub) simp
qed

lemma dissolve_fits:
  assumes "capped cap rs" "length rs < n" "n < 2 ^ 32" "length (dissolves_of rs) < 2"
    "scratch_of rs + unat (rq_scratch_bytes r) \<le> unat cap" "\<not> is_exact_cut (rq_transition r)"
  shows "(planned n rs)\<lparr>tp_scratch_bytes := tp_scratch_bytes (planned n rs) + rq_scratch_bytes r,
      tp_cut_count := sat_sub (tp_cut_count (planned n rs)) 1,
      tp_dissolve_count := sat_add (tp_dissolve_count (planned n rs)) 1,
      tp_dissolves := (tp_dissolves (planned n rs))[length (dissolves_of rs) := Some (admit_request r)]\<rparr> =
    planned n (rs @ [r])"
proof -
  let ?k = "length (dissolves_of rs)"
  have k: "?k = 0 \<or> ?k = 1" using assms(4) by arith
  have "?k \<le> length rs" by (simp add: dissolves_of_def)
  then have cut: "sat_sub (of_nat (n - ?k) :: u32) 1 = of_nat (n - Suc ?k)"
    using assms(2,3) by (intro sat_sub_of_nat) auto
  have count: "sat_add (of_nat ?k :: u8) 1 = of_nat (Suc ?k)" using k by (auto simp: sat_add_def)
  have bytes: "of_nat (scratch_of rs) + rq_scratch_bytes r = of_nat (scratch_of rs + unat (rq_scratch_bytes r))"
    by simp
  have slots: "(map (Some \<circ> admit_request) (dissolves_of rs) @ replicate (2 - ?k) None)[?k := Some (admit_request r)] =
      map (Some \<circ> admit_request) (dissolves_of rs) @ Some (admit_request r) # replicate (2 - Suc ?k) None"
    using k by (auto simp: list_update_append numeral_2_eq_2)
  show ?thesis using assms(6) cut count bytes slots
    by (simp add: planned_def Let_def dissolves_of_snoc)
qed

lemma plan_request_step:
  assumes "capped cap rs" "length rs < n" "n < 2 ^ 32"
  shows "plan_request active cap rs (planned n rs) r = Inr p \<longleftrightarrow>
    rq_layer r \<notin> rq_layer ` set rs \<and> admissible active r \<and> capped cap (rs @ [r]) \<and> p = planned n (rs @ [r])"
proof -
  let ?k = "length (dissolves_of rs)"
  have slot: "unat (tp_dissolve_count (planned n rs)) = ?k"
    using assms(1) by (simp add: planned_def Let_def capped_def unat_of_nat)
  have less: "unat cap < 2 ^ 64" using unat_lt2p [of cap] by simp
  have sum: "unat (tp_scratch_bytes (planned n rs)) = scratch_of rs"
    using assms(1) less by (simp add: planned_def Let_def capped_def unat_of_nat)
  have fresh: "list_ex (\<lambda>q. rq_layer q = rq_layer r) rs \<longleftrightarrow> rq_layer r \<in> rq_layer ` set rs"
    unfolding list_ex_iff image_iff by metis
  show ?thesis
  proof (cases "is_exact_cut (rq_transition r)")
    case True
    then have "planned n (rs @ [r]) = planned n rs" "capped cap (rs @ [r]) \<longleftrightarrow> capped cap rs"
      by (simp_all add: planned_def capped_def dissolves_of_snoc)
    then show ?thesis using True assms(1) fresh by (auto simp: plan_request_def admissible_def)
  next
    case False
    have cap: "capped cap (rs @ [r]) \<longleftrightarrow> ?k < 2 \<and> scratch_of rs + unat (rq_scratch_bytes r) \<le> unat cap"
      using False assms(1) by (auto simp: capped_def dissolves_of_snoc)
    show ?thesis
    proof (cases "rq_layer r \<notin> rq_layer ` set rs \<and> admissible active r")
      case ok: True
      show ?thesis
      proof (cases "capped cap (rs @ [r])")
        case True
        then have f: "?k < 2" "scratch_of rs + unat (rq_scratch_bytes r) \<le> unat cap" using cap by auto
        have c: "checked_add (tp_scratch_bytes (planned n rs)) (rq_scratch_bytes r) =
            Some (tp_scratch_bytes (planned n rs) + rq_scratch_bytes r)"
          using f(2) sum less by (simp add: checked_add_def)
        have u: "unat (tp_scratch_bytes (planned n rs) + rq_scratch_bytes r) = scratch_of rs + unat (rq_scratch_bytes r)"
          using unat_checked_add [OF c] sum by simp
        have "\<not> cap < tp_scratch_bytes (planned n rs) + rq_scratch_bytes r"
          using f(2) by (simp add: word_less_nat_alt u)
        with ok False True fresh slot c f dissolve_fits [OF assms f False] show ?thesis
          by (auto simp: plan_request_def admissible_def Let_def MAX_SIMULTANEOUS_DISSOLVES_def)
      next
        case over: False
        have "plan_request active cap rs (planned n rs) r \<in> {Inl DissolveSlotCap, Inl ScratchByteCap}"
        proof (cases "?k < 2")
          case k2: False
          then have "?k = 2" using assms(1) by (simp add: capped_def)
          then show ?thesis using ok False fresh slot
            by (auto simp: plan_request_def admissible_def Let_def MAX_SIMULTANEOUS_DISSOLVES_def)
        next
          case True
          then have o: "unat cap < scratch_of rs + unat (rq_scratch_bytes r)" using over cap by simp
          have "checked_add (tp_scratch_bytes (planned n rs)) (rq_scratch_bytes r) = None \<or>
            (\<exists>b. checked_add (tp_scratch_bytes (planned n rs)) (rq_scratch_bytes r) = Some b \<and> cap < b)"
            using o sum unat_checked_add [of "tp_scratch_bytes (planned n rs)" "rq_scratch_bytes r"]
            by (cases "checked_add (tp_scratch_bytes (planned n rs)) (rq_scratch_bytes r)")
              (auto simp: word_less_nat_alt)
          then show ?thesis using ok False fresh slot True
            by (auto simp: plan_request_def admissible_def Let_def MAX_SIMULTANEOUS_DISSOLVES_def)
        qed
        then show ?thesis using over by auto
      qed
    next
      case bad: False
      then have "\<exists>e. plan_request active cap rs (planned n rs) r = Inl e"
        using False fresh by (auto simp: plan_request_def admissible_def)
      then show ?thesis using bad by auto
    qed
  qed
qed

lemma plan_requests_iff:
  "capped cap rs \<Longrightarrow> length rs + length rs' \<le> n \<Longrightarrow> n < 2 ^ 32 \<Longrightarrow>
   plan_requests active cap rs (planned n rs) rs' = Inr p \<longleftrightarrow>
     distinct (map rq_layer rs') \<and> rq_layer ` set rs \<inter> rq_layer ` set rs' = {} \<and>
     (\<forall>r \<in> set rs'. admissible active r) \<and> capped cap (rs @ rs') \<and> p = planned n (rs @ rs')"
proof (induction rs' arbitrary: rs)
  case Nil
  then show ?case by auto
next
  case (Cons r rs')
  have l: "length rs < n" using Cons.prems(2) by simp
  note step = plan_request_step [OF Cons.prems(1) l Cons.prems(3)]
  have IH: "capped cap (rs @ [r]) \<Longrightarrow> plan_requests active cap (rs @ [r]) (planned n (rs @ [r])) rs' = Inr p \<longleftrightarrow>
     distinct (map rq_layer rs') \<and> rq_layer ` set (rs @ [r]) \<inter> rq_layer ` set rs' = {} \<and>
     (\<forall>r \<in> set rs'. admissible active r) \<and> capped cap ((rs @ [r]) @ rs') \<and> p = planned n ((rs @ [r]) @ rs')"
    using Cons.prems by (intro Cons.IH) auto
  have pre: "capped cap (rs @ r # rs') \<Longrightarrow> capped cap (rs @ [r])"
    using capped_prefix [of cap "rs @ [r]" rs'] by simp
  show ?case
  proof
    assume "plan_requests active cap rs (planned n rs) (r # rs') = Inr p"
    then obtain q where q: "plan_request active cap rs (planned n rs) r = Inr q"
      "plan_requests active cap (rs @ [r]) q rs' = Inr p" by (auto simp: rbind_Inr)
    with step IH show "distinct (map rq_layer (r # rs')) \<and> rq_layer ` set rs \<inter> rq_layer ` set (r # rs') = {} \<and>
       (\<forall>s \<in> set (r # rs'). admissible active s) \<and> capped cap (rs @ r # rs') \<and> p = planned n (rs @ r # rs')"
      by auto
  next
    assume "distinct (map rq_layer (r # rs')) \<and> rq_layer ` set rs \<inter> rq_layer ` set (r # rs') = {} \<and>
       (\<forall>s \<in> set (r # rs'). admissible active s) \<and> capped cap (rs @ r # rs') \<and> p = planned n (rs @ r # rs')"
    with step [of active r "planned n (rs @ [r])"] IH pre
    show "plan_requests active cap rs (planned n rs) (r # rs') = Inr p"
      by (auto simp: rbind_Inr)
  qed
qed

section \<open>The clock\<close>

definition clock_run :: "transition_clock \<Rightarrow> clock_observation list \<Rightarrow> transition_clock" where
  "clock_run c obs = foldl (\<lambda>c ob. fst (clock_observe c ob)) c obs"

definition held :: "clock_observation \<Rightarrow> bool" where
  "held ob \<longleftrightarrow> ob_paused ob \<or> ob_frozen ob"

definition phase_value :: "transition_phase \<Rightarrow> rat" where
  "phase_value p = of_nat (unat (ph_numerator p)) / of_nat (unat (ph_denominator p))"

text \<open>Elapsed reference ticks: the forward differences of the observations that are not held.\<close>

fun ticks_elapsed :: "clock_observation \<Rightarrow> clock_observation list \<Rightarrow> nat" where
  "ticks_elapsed prev [] = 0"
| "ticks_elapsed prev (ob # obs) =
     (if held ob then 0 else unat (ob_tick ob) - unat (ob_tick prev)) + ticks_elapsed ob obs"

lemma clock_observe_keeps [simp]:
  "tc_duration (fst (clock_observe c ob)) = tc_duration c" "tc_last (fst (clock_observe c ob)) = ob"
  by (auto simp: clock_observe_def Let_def split: option.splits)

lemma clock_observe_ticks:
  "tc_elapsed_ticks (fst (clock_observe c ob)) =
     (if held ob then tc_elapsed_ticks c
      else sat_add (tc_elapsed_ticks c) (sat_sub (ob_tick ob) (ob_tick (tc_last c))))"
  by (auto simp: clock_observe_def held_def Let_def split: option.splits)

lemma clock_run_ticks:
  "unat (tc_elapsed_ticks (clock_run c obs)) =
     min (unat (tc_elapsed_ticks c) + ticks_elapsed (tc_last c) obs) (2 ^ 64 - 1) \<and>
   tc_duration (clock_run c obs) = tc_duration c"
proof (induction obs arbitrary: c)
  case Nil
  show ?case using unat_lt2p [of "tc_elapsed_ticks c"] by (simp add: clock_run_def)
next
  case (Cons ob obs)
  let ?c = "fst (clock_observe c ob)"
  have run: "clock_run c (ob # obs) = clock_run ?c obs" by (simp add: clock_run_def)
  show ?case using Cons.IH [of ?c]
    by (simp add: run clock_observe_ticks unat_sat_add unat_sat_sub min_def)
qed

lemma bounded_phase_value:
  "unat d \<noteq> 0 \<Longrightarrow> phase_value (bounded_phase n d) = min 1 (of_nat (unat n) / of_nat (unat d))"
proof -
  assume d: "unat d \<noteq> 0"
  then have "d \<noteq> 0" by auto
  then show ?thesis using d
    by (auto simp: bounded_phase_def phase_value_def PHASE_ONE_def PHASE_ZERO_def word_le_nat_alt min_def
        divide_le_eq le_divide_eq simp del: of_nat_unat)
qed

text \<open>Elapsed beats: the positive differences of the beat positions, as rational numbers.\<close>

definition beat_value :: "beat_position \<Rightarrow> rat" where
  "beat_value b = of_nat (unat (bp_numerator b)) / of_nat (unat (bp_denominator b))"

fun beats_elapsed :: "clock_observation \<Rightarrow> clock_observation list \<Rightarrow> rat" where
  "beats_elapsed prev [] = 0"
| "beats_elapsed prev (ob # obs) =
     (if held ob then 0 else max 0 (beat_value (ob_beat ob) - beat_value (ob_beat prev))) + beats_elapsed ob obs"

text \<open>The same run on unbounded numbers, or nothing once one of them passes 128 bits.\<close>

fun beats_fit :: "nat \<times> nat \<Rightarrow> clock_observation \<Rightarrow> clock_observation list \<Rightarrow> (nat \<times> nat) option" where
  "beats_fit (n, e) prev [] = Some (n, e)"
| "beats_fit (n, e) prev (ob # obs) =
     (let b = ob_beat prev; a = ob_beat ob; d = unat (bp_denominator b) * unat (bp_denominator a);
          before = unat (bp_numerator b) * unat (bp_denominator a);
          after = unat (bp_numerator a) * unat (bp_denominator b)
      in if held ob \<or> after \<le> before then beats_fit (n, e) ob obs
         else if n * d + (after - before) * e < 2 ^ 128 \<and> e * d < 2 ^ 128
           then beats_fit (n * d + (after - before) * e, e * d) ob obs else None)"

lemma scaled_product: "unat (sat_mul (ucast (a :: 64 word) :: u128) (ucast (b :: 32 word))) = unat a * unat b"
proof -
  have "unat a * unat b < 2 ^ 64 * 2 ^ 32"
    using unat_lt2p [of a] unat_lt2p [of b] by (intro mult_strict_mono) auto
  then show ?thesis by (simp add: unat_sat_mul unat_ucast_up)
qed

lemma denominator_product:
  "unat (sat_mul (ucast (a :: 32 word) :: u128) (ucast (b :: 32 word))) = unat a * unat b"
proof -
  have "unat a * unat b < 2 ^ 32 * 2 ^ 32"
    using unat_lt2p [of a] unat_lt2p [of b] by (intro mult_strict_mono) auto
  then show ?thesis by (simp add: unat_sat_mul unat_ucast_up)
qed

lemma positive_delta_nat:
  fixes b a :: beat_position
  defines "before \<equiv> unat (bp_numerator b) * unat (bp_denominator a)"
    and "after \<equiv> unat (bp_numerator a) * unat (bp_denominator b)"
  shows "after \<le> before \<Longrightarrow> positive_rational_delta b a = None"
    and "before < after \<Longrightarrow> \<exists>x y. positive_rational_delta b a = Some (x, y) \<and> unat x = after - before \<and>
      unat y = unat (bp_denominator b) * unat (bp_denominator a)"
  by (auto simp: positive_rational_delta_def Let_def word_less_nat_alt word_le_nat_alt scaled_product
      denominator_product unat_sub before_def after_def)

lemma max_one_pos: "0 < unat w \<Longrightarrow> max w 1 = (w :: u128)"
  by (rule max_absorb1) (simp add: word_le_nat_alt)

lemma clock_observe_beats:
  assumes "bp_denominator (ob_beat (tc_last c)) \<noteq> 0" "bp_denominator (ob_beat ob) \<noteq> 0"
    and "beats_fit (unat (tc_beat_numerator c), unat (tc_beat_denominator c)) (tc_last c) (ob # obs) = Some r"
    and "tc_beat_denominator c \<noteq> 0"
  shows "beats_fit (unat (tc_beat_numerator (fst (clock_observe c ob))),
      unat (tc_beat_denominator (fst (clock_observe c ob)))) ob obs = Some r \<and>
    tc_beat_denominator (fst (clock_observe c ob)) \<noteq> 0 \<and>
    (of_nat (unat (tc_beat_numerator (fst (clock_observe c ob)))) :: rat) /
      of_nat (unat (tc_beat_denominator (fst (clock_observe c ob)))) =
    of_nat (unat (tc_beat_numerator c)) / of_nat (unat (tc_beat_denominator c)) +
      (if held ob then 0 else max 0 (beat_value (ob_beat ob) - beat_value (ob_beat (tc_last c))))"
proof -
  let ?b = "ob_beat (tc_last c)" and ?a = "ob_beat ob"
  let ?before = "unat (bp_numerator ?b) * unat (bp_denominator ?a)"
  let ?after = "unat (bp_numerator ?a) * unat (bp_denominator ?b)"
  let ?n = "unat (tc_beat_numerator c)" and ?e = "unat (tc_beat_denominator c)"
  let ?d = "unat (bp_denominator ?b) * unat (bp_denominator ?a)"
  have pos: "0 < unat (bp_denominator ?b)" "0 < unat (bp_denominator ?a)" "0 < ?e"
    using assms(1,2,4) by (simp_all add: unat_gt_0)
  have diff: "beat_value ?a - beat_value ?b = (of_nat ?after - of_nat ?before) / of_nat ?d"
    using pos by (simp add: beat_value_def field_simps del: of_nat_unat)
  show ?thesis
  proof (cases "held ob \<or> ?after \<le> ?before")
    case True
    have same: "tc_beat_numerator (fst (clock_observe c ob)) = tc_beat_numerator c"
      "tc_beat_denominator (fst (clock_observe c ob)) = tc_beat_denominator c"
      using True positive_delta_nat(1) [of ?a ?b] by (auto simp: clock_observe_def held_def Let_def)
    have "?after \<le> ?before \<Longrightarrow> beat_value ?a - beat_value ?b \<le> 0"
      unfolding diff by (simp add: divide_le_0_iff flip: of_nat_mult)
    then have "(if held ob then 0 else max 0 (beat_value ?a - beat_value ?b)) = 0" using True by auto
    with assms True show ?thesis unfolding same by (simp add: Let_def)
  next
    case False
    then obtain x y where xy: "positive_rational_delta ?b ?a = Some (x, y)" "unat x = ?after - ?before" "unat y = ?d"
      using positive_delta_nat(2) [of ?b ?a] by auto
    from False assms(3) have fit: "?n * ?d + (?after - ?before) * ?e < 2 ^ 128" "?e * ?d < 2 ^ 128"
      "beats_fit (?n * ?d + (?after - ?before) * ?e, ?e * ?d) ob obs = Some r"
      by (auto simp: Let_def split: if_splits)
    have num: "tc_beat_numerator (fst (clock_observe c ob)) =
        sat_add (sat_mul (tc_beat_numerator c) y) (sat_mul x (tc_beat_denominator c))"
      and den: "tc_beat_denominator (fst (clock_observe c ob)) = max (sat_mul (tc_beat_denominator c) y) 1"
      using False xy(1) by (simp_all add: clock_observe_def held_def Let_def)
    have num': "unat (tc_beat_numerator (fst (clock_observe c ob))) = ?n * ?d + (?after - ?before) * ?e"
      unfolding num using fit(1) xy(2,3) by (simp add: unat_sat_add unat_sat_mul)
    have "unat (sat_mul (tc_beat_denominator c) y) = ?e * ?d" using fit(2) xy(3) by (simp add: unat_sat_mul)
    moreover have "0 < ?e * ?d" using pos by simp
    ultimately have den': "unat (tc_beat_denominator (fst (clock_observe c ob))) = ?e * ?d"
      unfolding den by (metis max_one_pos)
    have "(of_nat (?n * ?d + (?after - ?before) * ?e) :: rat) / of_nat (?e * ?d) =
        of_nat ?n / of_nat ?e + (of_nat ?after - of_nat ?before) / of_nat ?d"
    proof -
      have "(of_nat (?after - ?before) :: rat) = of_nat ?after - of_nat ?before"
        using False by (intro of_nat_diff) auto
      moreover have "(of_nat ?e :: rat) \<noteq> 0" "(of_nat ?d :: rat) \<noteq> 0" using pos by (simp_all del: of_nat_unat)
      ultimately show ?thesis
        by (simp only: of_nat_add of_nat_mult [of "?n" "?d"] of_nat_mult [of "?after - ?before" "?e"]
            of_nat_mult [of "?e" "?d"]) (simp add: add_divide_distrib)
    qed
    moreover have not_held: "held ob = False" using False by simp
    moreover have "max 0 (beat_value ?a - beat_value ?b) = beat_value ?a - beat_value ?b"
      unfolding diff using False by (simp add: max_def zero_le_divide_iff flip: of_nat_mult)
    ultimately have value_eq: "(of_nat (?n * ?d + (?after - ?before) * ?e) :: rat) / of_nat (?e * ?d) =
        of_nat ?n / of_nat ?e + (if held ob then 0 else max 0 (beat_value ?a - beat_value ?b))"
      using not_held by (simp only: diff if_False)
    have "tc_beat_denominator (fst (clock_observe c ob)) \<noteq> 0"
    proof
      assume "tc_beat_denominator (fst (clock_observe c ob)) = 0"
      then have "?e * ?d = 0" using den' by simp
      with pos show False by simp
    qed
    with fit(3) value_eq show ?thesis unfolding num' den' by blast
  qed
qed

lemma clock_run_beats:
  "bp_denominator (ob_beat (tc_last c)) \<noteq> 0 \<Longrightarrow> \<forall>ob \<in> set obs. bp_denominator (ob_beat ob) \<noteq> 0 \<Longrightarrow>
   tc_beat_denominator c \<noteq> 0 \<Longrightarrow>
   beats_fit (unat (tc_beat_numerator c), unat (tc_beat_denominator c)) (tc_last c) obs = Some (n, e) \<Longrightarrow>
   unat (tc_beat_numerator (clock_run c obs)) = n \<and> unat (tc_beat_denominator (clock_run c obs)) = e \<and> e \<noteq> 0 \<and>
   (of_nat n :: rat) / of_nat e =
     of_nat (unat (tc_beat_numerator c)) / of_nat (unat (tc_beat_denominator c)) + beats_elapsed (tc_last c) obs"
proof (induction obs arbitrary: c)
  case Nil
  then show ?case by (auto simp: clock_run_def unat_eq_0 unat_gt_0)
next
  case (Cons ob obs)
  let ?c = "fst (clock_observe c ob)"
  have run: "clock_run c (ob # obs) = clock_run ?c obs" by (simp add: clock_run_def)
  have "bp_denominator (ob_beat ob) \<noteq> 0" using Cons.prems(2) by simp
  note step = clock_observe_beats [OF Cons.prems(1) this Cons.prems(4,3)]
  have "unat (tc_beat_numerator (clock_run ?c obs)) = n \<and> unat (tc_beat_denominator (clock_run ?c obs)) = e \<and> e \<noteq> 0 \<and>
    (of_nat n :: rat) / of_nat e = of_nat (unat (tc_beat_numerator ?c)) / of_nat (unat (tc_beat_denominator ?c)) +
      beats_elapsed (tc_last ?c) obs"
    using step Cons.prems(2) by (intro Cons.IH) simp_all
  with step show ?case unfolding run by (simp del: of_nat_unat)
qed

text \<open>The run as the code computes it, with every number held at \<open>top128 = 2^128 - 1\<close>: the phase of
  an accumulated fraction, one accumulation, and the fact the bounds below rest on. A numerator that
  has reached the top128 stays there and reads as complete, so what saturation loses can only bring the
  end forward.\<close>

definition top128 :: nat where "top128 = 2 ^ 128 - 1"

lemma top128_pos [simp]: "0 < top128"
  by (simp add: top128_def)

definition capped_phase :: "nat \<Rightarrow> nat \<Rightarrow> nat \<Rightarrow> nat \<Rightarrow> rat" where
  "capped_phase n d num den = min 1 (of_nat (min top128 (num * d)) / of_nat (min top128 (den * n)))"

definition ahead :: "rat \<Rightarrow> nat \<Rightarrow> nat \<Rightarrow> bool" where
  "ahead r num den \<longleftrightarrow> 0 < den \<and> den \<le> top128 \<and> num \<le> top128 \<and> (num = top128 \<or> r \<le> of_nat num / of_nat den)"

lemma fraction_le: "0 < b \<Longrightarrow> 0 < d \<Longrightarrow> a * d \<le> c * b \<Longrightarrow> (of_nat a :: rat) / of_nat b \<le> of_nat c / of_nat d"
  by (simp add: divide_simps flip: of_nat_mult)

lemma capped_phase_full:
  assumes "top128 \<le> num * d" and "0 < den" and "0 < n"
  shows "capped_phase n d num den = 1"
proof -
  have "min top128 (num * d) = top128" using assms(1) by (rule min_absorb1)
  moreover have "0 < min top128 (den * n)" "min top128 (den * n) \<le> top128" using assms(2,3) by auto
  ultimately have "1 \<le> (of_nat (min top128 (num * d)) :: rat) / of_nat (min top128 (den * n))"
    by (simp add: le_divide_eq_1 del: min_less_iff_conj)
  then show ?thesis by (simp add: capped_phase_def)
qed

lemma capped_phase_le_1: "capped_phase n d num den \<le> 1"
  by (simp add: capped_phase_def)

lemma capped_phase_mono:
  assumes "0 < n" "0 < d" "0 < den" "0 < den'" and "den \<le> den'"
    and "num' = top128 \<or> num * den' \<le> num' * den"
  shows "capped_phase n d num den \<le> capped_phase n d num' den'"
proof (cases "top128 \<le> num' * d")
  case True
  then show ?thesis using assms capped_phase_full [of num' d den' n] capped_phase_le_1 by simp
next
  case False
  have "num' \<noteq> top128" using False assms(2) by (metis mult_le_mono2 nat_mult_1_right Suc_leI One_nat_def)
  then have le: "num * den' \<le> num' * den" using assms(6) by simp
  have "num * den \<le> num * den'" using assms(5) by simp
  also have "\<dots> \<le> num' * den" by (rule le)
  finally have "num \<le> num'" using assms(3) by simp
  then have "num * d \<le> num' * d" by simp
  then have small: "min top128 (num * d) = num * d" "min top128 (num' * d) = num' * d"
    using False by (metis min_absorb2 nle_le order_trans)+
  have cross: "num * d * min top128 (den' * n) \<le> num' * d * min top128 (den * n)"
  proof (cases "top128 \<le> den * n")
    case True
    moreover have "den * n \<le> den' * n" using assms(5) by simp
    ultimately have "min top128 (den * n) = top128" "min top128 (den' * n) = top128"
      by (metis min_absorb1 order_trans)+
    then show ?thesis using \<open>num * d \<le> num' * d\<close> by (metis mult_le_mono1)
  next
    case False
    then have "min top128 (den * n) = den * n" by (metis min_absorb2 nle_le)
    moreover have "num * d * min top128 (den' * n) \<le> num * d * (den' * n)" by (rule mult_le_mono2) simp
    moreover have "num * d * (den' * n) \<le> num' * d * (den * n)"
      using mult_le_mono1 [OF le, of "d * n"] by (simp add: ac_simps)
    ultimately show ?thesis by (metis order_trans)
  qed
  have "0 < min top128 (den * n)" "0 < min top128 (den' * n)" using assms by simp_all
  from fraction_le [OF this cross] show ?thesis unfolding capped_phase_def small by (rule min.mono [OF order_refl])
qed

lemma capped_phase_ahead:
  assumes "ahead r num den" and "0 < n" and "0 < d"
  shows "min 1 (r / (of_nat n / of_nat d)) \<le> capped_phase n d num den"
proof (cases "top128 \<le> num * d")
  case True
  then show ?thesis using assms capped_phase_full [of num d den n] by (simp add: ahead_def)
next
  case False
  have "num \<noteq> top128" using False assms(3) by (metis mult_le_mono2 nat_mult_1_right Suc_leI One_nat_def)
  then have r: "r \<le> of_nat num / of_nat den" and den: "0 < den" using assms(1) by (auto simp: ahead_def)
  have "r / (of_nat n / of_nat d) \<le> (of_nat num / of_nat den) / (of_nat n / of_nat d)"
    using r assms(2,3) by (intro divide_right_mono) simp_all
  also have "\<dots> = of_nat (num * d) / of_nat (den * n)" by simp
  also have "\<dots> \<le> of_nat (num * d) / of_nat (min top128 (den * n))"
    using den assms(2) by (intro divide_left_mono) (simp_all only: of_nat_le_iff min.cobounded2, simp_all)
  also have "num * d = min top128 (num * d)" using False by (metis min_absorb2 nle_le)
  finally show ?thesis unfolding capped_phase_def by (rule min.mono [OF order_refl])
qed

lemma ahead_step:
  assumes "ahead r num den" and "0 < k"
  shows "ahead (r + of_nat x / of_nat k) (min top128 (min top128 (num * k) + min top128 (x * den))) (min top128 (den * k))"
    and "min top128 (min top128 (num * k) + min top128 (x * den)) = top128 \<or>
      num * min top128 (den * k) \<le> min top128 (min top128 (num * k) + min top128 (x * den)) * den"
proof -
  let ?num = "min top128 (min top128 (num * k) + min top128 (x * den))"
  have den: "0 < den" "den \<le> top128" using assms(1) by (simp_all add: ahead_def)
  have pos: "0 < min top128 (den * k)" using den assms(2) by simp
  have exact: "?num = num * k + x * den" if "?num \<noteq> top128"
    using that by (simp only: min_def split: if_splits) auto
  have le: "num * min top128 (den * k) \<le> (num * k + x * den) * den"
  proof -
    have "num * min top128 (den * k) \<le> num * (den * k)" by (rule mult_le_mono2) simp
    also have "\<dots> = num * k * den" by (simp add: ac_simps)
    also have "\<dots> \<le> (num * k + x * den) * den" by (rule mult_le_mono1) simp
    finally show ?thesis .
  qed
  show "?num = top128 \<or> num * min top128 (den * k) \<le> ?num * den" using exact le by metis
  have "r + of_nat x / of_nat k \<le> of_nat ?num / of_nat (min top128 (den * k))" if ne: "?num \<noteq> top128"
  proof -
    have "num \<noteq> top128"
    proof
      assume "num = top128"
      then have "top128 \<le> num * k" using assms(2) by (metis mult_le_mono2 nat_mult_1_right Suc_leI One_nat_def)
      then have "min top128 (num * k) = top128" by (rule min_absorb1)
      with ne show False by (metis le_add1 min_absorb1)
    qed
    then have "r \<le> of_nat num / of_nat den" using assms(1) by (auto simp: ahead_def)
    then have "r + of_nat x / of_nat k \<le> of_nat num / of_nat den + of_nat x / of_nat k" by simp
    also have "\<dots> = of_nat (num * k + x * den) / of_nat (den * k)"
      using den assms(2) by (simp add: field_simps)
    also have "\<dots> \<le> of_nat (num * k + x * den) / of_nat (min top128 (den * k))"
      using den assms(2) pos by (intro divide_left_mono) (simp_all only: of_nat_le_iff min.cobounded2, simp_all)
    finally show ?thesis unfolding exact [OF ne] .
  qed
  then show "ahead (r + of_nat x / of_nat k) ?num (min top128 (den * k))"
    using pos unfolding ahead_def by (metis min.cobounded1)
qed

text \<open>What one observation adds to the elapsed beats, and the two bounds carried along a run.\<close>

definition beat_gain :: "clock_observation \<Rightarrow> clock_observation \<Rightarrow> rat" where
  "beat_gain prev ob = (if held ob then 0 else max 0 (beat_value (ob_beat ob) - beat_value (ob_beat prev)))"

lemma unat_capped:
  "unat (sat_mul (a :: u128) b) = min top128 (unat a * unat b)"
  "unat (sat_add (a :: u128) b) = min top128 (unat a + unat b)"
  by (simp_all add: unat_sat_mul unat_sat_add top128_def min_def)

lemma phase_capped:
  assumes "tc_duration c = RationalBeats n d" and "n \<noteq> 0" and "tc_beat_denominator c \<noteq> 0"
  shows "phase_value (clock_phase c) =
    capped_phase (unat n) (unat d) (unat (tc_beat_numerator c)) (unat (tc_beat_denominator c))"
proof -
  have u: "unat (ucast w :: u128) = unat w" for w :: u32 by (simp add: unat_ucast_up)
  have "0 < unat (tc_beat_denominator c) * unat n" using assms(2,3) by (simp add: unat_gt_0)
  then have "unat (sat_mul (tc_beat_denominator c) (ucast n)) \<noteq> 0" by (simp add: unat_capped u)
  from bounded_phase_value [OF this, of "sat_mul (tc_beat_numerator c) (ucast d)"] show ?thesis
    using assms(1) by (simp only: clock_phase_def transition_duration.case capped_phase_def unat_capped u)
qed

lemma clock_observe_ahead:
  fixes c ob
  defines "c' \<equiv> fst (clock_observe c ob)"
  assumes "bp_denominator (ob_beat (tc_last c)) \<noteq> 0" "bp_denominator (ob_beat ob) \<noteq> 0"
    and "ahead r (unat (tc_beat_numerator c)) (unat (tc_beat_denominator c))"
  shows "ahead (r + beat_gain (tc_last c) ob) (unat (tc_beat_numerator c')) (unat (tc_beat_denominator c')) \<and>
    unat (tc_beat_denominator c) \<le> unat (tc_beat_denominator c') \<and>
    (unat (tc_beat_numerator c') = top128 \<or>
     unat (tc_beat_numerator c) * unat (tc_beat_denominator c') \<le>
       unat (tc_beat_numerator c') * unat (tc_beat_denominator c))"
proof -
  let ?b = "ob_beat (tc_last c)" and ?a = "ob_beat ob"
  let ?before = "unat (bp_numerator ?b) * unat (bp_denominator ?a)"
  let ?after = "unat (bp_numerator ?a) * unat (bp_denominator ?b)"
  let ?n = "unat (tc_beat_numerator c)" and ?e = "unat (tc_beat_denominator c)"
  let ?d = "unat (bp_denominator ?b) * unat (bp_denominator ?a)"
  have pos: "0 < unat (bp_denominator ?b)" "0 < unat (bp_denominator ?a)" "0 < ?e" "?e \<le> top128"
    using assms(2-4) by (simp_all add: unat_gt_0 ahead_def)
  have diff: "beat_value ?a - beat_value ?b = (of_nat ?after - of_nat ?before) / of_nat ?d"
    using pos by (simp add: beat_value_def field_simps del: of_nat_unat)
  show ?thesis
  proof (cases "held ob \<or> ?after \<le> ?before")
    case True
    have same: "tc_beat_numerator c' = tc_beat_numerator c" "tc_beat_denominator c' = tc_beat_denominator c"
      using True positive_delta_nat(1) [of ?a ?b] by (auto simp: c'_def clock_observe_def held_def Let_def)
    have "?after \<le> ?before \<Longrightarrow> beat_value ?a - beat_value ?b \<le> 0"
      unfolding diff by (simp add: divide_le_0_iff flip: of_nat_mult)
    then have "beat_gain (tc_last c) ob = 0" using True by (auto simp: beat_gain_def)
    with assms(4) show ?thesis unfolding same by simp
  next
    case False
    then obtain x y where xy: "positive_rational_delta ?b ?a = Some (x, y)" "unat x = ?after - ?before" "unat y = ?d"
      using positive_delta_nat(2) [of ?b ?a] by auto
    have k: "0 < ?d" using pos by simp
    have num: "unat (tc_beat_numerator c') = min top128 (min top128 (?n * ?d) + min top128 ((?after - ?before) * ?e))"
      using False xy by (simp add: c'_def clock_observe_def held_def Let_def unat_capped)
    have "tc_beat_denominator c' = max (sat_mul (tc_beat_denominator c) y) 1"
      using False xy(1) by (simp add: c'_def clock_observe_def held_def Let_def)
    moreover have "0 < unat (sat_mul (tc_beat_denominator c) y)" using pos k xy(3) by (simp add: unat_capped)
    ultimately have den: "unat (tc_beat_denominator c') = min top128 (?e * ?d)"
      using xy(3) by (simp add: max_one_pos unat_capped)
    have "(of_nat (?after - ?before) :: rat) = of_nat ?after - of_nat ?before"
      using False by (intro of_nat_diff) auto
    moreover have "max 0 (beat_value ?a - beat_value ?b) = beat_value ?a - beat_value ?b"
      unfolding diff using False by (simp add: max_def zero_le_divide_iff flip: of_nat_mult)
    ultimately have gain: "beat_gain (tc_last c) ob = of_nat (?after - ?before) / of_nat ?d"
      unfolding beat_gain_def using False by (simp only: diff) simp
    have "?e \<le> ?e * ?d" using k by (cases ?d) simp_all
    then have "?e \<le> min top128 (?e * ?d)" using pos(4) by simp
    with ahead_step [OF assms(4) k, of "?after - ?before"] show ?thesis unfolding num den gain by blast
  qed
qed

lemma clock_run_bounds:
  assumes "bp_denominator (ob_beat (tc_last c)) \<noteq> 0" and "\<forall>ob \<in> set obs. bp_denominator (ob_beat ob) \<noteq> 0"
    and "ahead r (unat (tc_beat_numerator c)) (unat (tc_beat_denominator c))"
    and "tc_duration c = RationalBeats n d" and "n \<noteq> 0" and "d \<noteq> 0"
  shows "ahead (r + beats_elapsed (tc_last c) obs) (unat (tc_beat_numerator (clock_run c obs)))
      (unat (tc_beat_denominator (clock_run c obs))) \<and>
    phase_value (clock_phase c) \<le> phase_value (clock_phase (clock_run c obs))"
  using assms(1-4)
proof (induction obs arbitrary: c r)
  case Nil
  then show ?case by (simp add: clock_run_def)
next
  case (Cons ob obs)
  let ?c = "fst (clock_observe c ob)"
  have run: "clock_run c (ob # obs) = clock_run ?c obs" by (simp add: clock_run_def)
  have obd: "bp_denominator (ob_beat ob) \<noteq> 0" using Cons.prems(2) by simp
  note step = clock_observe_ahead [OF Cons.prems(1) obd Cons.prems(3)]
  have gain: "r + beats_elapsed (tc_last c) (ob # obs) = r + beat_gain (tc_last c) ob + beats_elapsed ob obs"
    by (simp add: beat_gain_def)
  have IH: "ahead (r + beat_gain (tc_last c) ob + beats_elapsed (tc_last ?c) obs)
      (unat (tc_beat_numerator (clock_run ?c obs))) (unat (tc_beat_denominator (clock_run ?c obs))) \<and>
    phase_value (clock_phase ?c) \<le> phase_value (clock_phase (clock_run ?c obs))"
    using step Cons.prems(2,4) obd by (intro Cons.IH) auto
  have den: "0 < unat (tc_beat_denominator c)" "0 < unat (tc_beat_denominator ?c)"
    using step Cons.prems(3) by (auto simp: ahead_def)
  have "phase_value (clock_phase c) \<le> phase_value (clock_phase ?c)"
    using step den assms(5,6) Cons.prems(4)
    by (simp add: phase_capped unat_gt_0 capped_phase_mono unat_eq_0)
  with IH show ?case unfolding run gain by simp
qed

section \<open>Properties\<close>

text \<open>C8. Admission is all or none and exact: for fewer than \<open>2^32\<close> requests, a plan is returned just
  when no layer is addressed twice, every request is an exact cut or an admissible dissolve (with a
  valid duration, on an inactive layer, incoming ready, both sources reserved, generations current
  and non-zero, mappings valid), at most two dissolve and their scratch bytes together stay within
  the cap; and the plan then lists exactly those dissolves in request order with the exact counts.\<close>

theorem admission_exact:
  assumes "length requests < 2 ^ 32"
  shows "plan_prepared_transitions requests active cap = Inr plan \<longleftrightarrow>
    distinct (map rq_layer requests) \<and> (\<forall>r \<in> set requests. admissible active r) \<and>
    length (dissolves_of requests) \<le> 2 \<and> scratch_of requests \<le> unat cap \<and>
    plan = planned (length requests) requests"
proof -
  have "exact_cut_only (of_nat n) = planned n []" for n
    by (simp add: exact_cut_only_def planned_def dissolves_of_def MAX_SIMULTANEOUS_DISSOLVES_def)
  moreover have "capped cap []" by (simp add: capped_def dissolves_of_def)
  ultimately show ?thesis using plan_requests_iff [of cap "[]" requests "length requests" active plan] assms
    by (simp add: plan_prepared_transitions_def capped_def conj_assoc)
qed

definition demo_request :: "u64 \<Rightarrow> transition_kind \<Rightarrow> activation_request" where
  "demo_request layer kind = \<lparr>rq_layer = layer, rq_expected_outgoing = 4, rq_observed_outgoing = 4,
     rq_incoming = 9, rq_incoming_ready = True, rq_outgoing_reserved = True, rq_incoming_reserved = True,
     rq_transition = \<lparr>tr_kind = kind, tr_duration = ReferenceTicks 60, tr_interruption = Refuse\<rparr>,
     rq_outgoing_mapping = UV_IDENTITY, rq_incoming_mapping = UV_IDENTITY, rq_scratch_bytes = 1024\<rparr>"

theorem admission_exact_witness:
  "plan_prepared_transitions [demo_request 1 KCut, demo_request 2 KDissolve] [3] 4096 =
     Inr (planned 2 [demo_request 1 KCut, demo_request 2 KDissolve]) \<and>
   tp_scratch_bytes (planned 2 [demo_request 1 KCut, demo_request 2 KDissolve]) = 1024"
  using admission_exact [of "[demo_request 1 KCut, demo_request 2 KDissolve]" "[3]" 4096 "planned 2 [demo_request 1 KCut, demo_request 2 KDissolve]"]
  by (simp add: admissible_def demo_request_def transition_validate_def MAX_TRANSITION_REFERENCE_TICKS_def
      uv_is_valid_def UV_IDENTITY_def dissolves_of_def is_exact_cut_def planned_def)

text \<open>Tick transitions are exact: after any observations the phase of a transition of \<open>d > 0\<close>
  reference ticks is the fraction of \<open>d\<close> that has elapsed, at most 1, where paused and frozen
  observations and backward jumps contribute nothing (and the count saturates at \<open>2^64 - 1\<close>).\<close>

theorem tick_phase_exact:
  assumes "clock_start t ob = Inr c" and "tr_duration t = ReferenceTicks d" and "d \<noteq> 0"
  shows "phase_value (clock_phase (clock_run c obs)) =
    min 1 (of_nat (min (ticks_elapsed ob obs) (2 ^ 64 - 1)) / of_nat (unat d))"
proof -
  have c: "tc_duration c = ReferenceTicks d" "tc_elapsed_ticks c = 0" "tc_last c = ob"
    using assms(1,2) by (auto simp: clock_start_def rbind_Inr)
  have d: "unat (ucast d :: u128) = unat d" "unat d \<noteq> 0" using assms(3) by (simp_all add: unat_ucast_up unat_eq_0)
  have "unat (ucast (tc_elapsed_ticks (clock_run c obs)) :: u128) = min (ticks_elapsed ob obs) (2 ^ 64 - 1)"
    using clock_run_ticks [of c obs] c by (simp add: unat_ucast_up)
  moreover have "clock_phase (clock_run c obs) = bounded_phase (ucast (tc_elapsed_ticks (clock_run c obs))) (ucast d)"
    using clock_run_ticks [of c obs] c by (simp add: clock_phase_def)
  ultimately show ?thesis using bounded_phase_value [of "ucast d" "ucast (tc_elapsed_ticks (clock_run c obs))"] d
    by (simp del: of_nat_unat)
qed

definition demo_observation :: "u64 \<Rightarrow> u64 \<Rightarrow> bool \<Rightarrow> clock_observation" where
  "demo_observation tick beat paused = \<lparr>ob_tick = tick, ob_beat = \<lparr>bp_numerator = beat, bp_denominator = 1000\<rparr>,
     ob_paused = paused, ob_frozen = False\<rparr>"

theorem tick_phase_exact_witness:
  "\<exists>c. clock_start (rq_transition (demo_request 1 KDissolve)) (demo_observation 100 0 False) = Inr c \<and>
     phase_value (clock_phase (clock_run c [demo_observation 115 0 False, demo_observation 500 0 True])) = 1 / 4"
proof -
  obtain c where c: "clock_start (rq_transition (demo_request 1 KDissolve)) (demo_observation 100 0 False) = Inr c"
    by (simp add: clock_start_def transition_validate_def demo_request_def MAX_TRANSITION_REFERENCE_TICKS_def)
  from tick_phase_exact [OF c, of 60 "[demo_observation 115 0 False, demo_observation 500 0 True]"] c
  show ?thesis by (auto simp: demo_request_def demo_observation_def held_def)
qed

text \<open>Beat transitions are exact while their numbers fit: after any observations with non-zero
  denominators whose exact accumulated fraction, and its comparison with the duration, stay within
  128 bits, the phase of a transition of \<open>n / d\<close> beats is the elapsed beats divided by \<open>n / d\<close>, at
  most 1, where held observations and backward jumps contribute nothing.\<close>

theorem beat_phase_exact:
  assumes "clock_start t ob = Inr c" and "tr_duration t = RationalBeats n d" and "n \<noteq> 0"
    and "\<forall>x \<in> set (ob # obs). bp_denominator (ob_beat x) \<noteq> 0"
    and "beats_fit (0, 1) ob obs = Some (num, den)"
    and "num * unat d < 2 ^ 128" and "den * unat n < 2 ^ 128"
  shows "phase_value (clock_phase (clock_run c obs)) =
    min 1 (beats_elapsed ob obs / (of_nat (unat n) / of_nat (unat d)))"
proof -
  have c: "tc_duration c = RationalBeats n d" "tc_beat_numerator c = 0" "tc_beat_denominator c = 1" "tc_last c = ob"
    and d: "d \<noteq> 0"
    using assms(1,2) by (auto simp: clock_start_def rbind_Inr transition_validate_def split: if_splits)
  have run: "unat (tc_beat_numerator (clock_run c obs)) = num" "unat (tc_beat_denominator (clock_run c obs)) = den"
      "den \<noteq> 0" "(of_nat num :: rat) / of_nat den = beats_elapsed ob obs"
    using clock_run_beats [of c obs num den] assms(4,5) c by (auto simp del: of_nat_unat)
  let ?x = "sat_mul (tc_beat_numerator (clock_run c obs)) (ucast d)"
  let ?y = "sat_mul (tc_beat_denominator (clock_run c obs)) (ucast n)"
  have xy: "unat ?x = num * unat d" "unat ?y = den * unat n"
    using assms(6,7) by (simp_all add: unat_sat_mul unat_ucast_up run)
  have nz: "unat n \<noteq> 0" "unat d \<noteq> 0" using assms(3) d by (simp_all add: unat_eq_0)
  have "clock_phase (clock_run c obs) = bounded_phase ?x ?y"
    using clock_run_ticks [of c obs] c by (simp add: clock_phase_def)
  then have "phase_value (clock_phase (clock_run c obs)) = min 1 (of_nat (num * unat d) / of_nat (den * unat n))"
    using bounded_phase_value [of ?y ?x] xy run(3) nz by (simp del: of_nat_unat)
  also have "(of_nat (num * unat d) :: rat) / of_nat (den * unat n) =
      (of_nat num / of_nat den) / (of_nat (unat n) / of_nat (unat d))"
    using nz run(3) by (simp add: field_simps del: of_nat_unat)
  finally show ?thesis by (simp only: run(4))
qed

definition demo_beats :: prepared_transition where
  "demo_beats = \<lparr>tr_kind = KDissolve, tr_duration = RationalBeats 1024 1, tr_interruption = Refuse\<rparr>"

definition demo_clock :: transition_clock where
  "demo_clock = \<lparr>tc_duration = RationalBeats 1024 1, tc_elapsed_ticks = 0, tc_beat_numerator = 0,
      tc_beat_denominator = 1, tc_last = demo_observation 0 0 False\<rparr>"

lemma demo_beats_start: "clock_start demo_beats (demo_observation 0 0 False) = Inr demo_clock"
  by (simp add: clock_start_def transition_validate_def demo_beats_def demo_clock_def
      MAX_TRANSITION_BEAT_NUMERATOR_def MAX_TRANSITION_BEAT_DENOMINATOR_def)

theorem beat_phase_exact_witness:
  "phase_value (clock_phase (clock_run demo_clock
     [demo_observation 0 1000 False, demo_observation 0 2000 False])) = 2 / 1024"
proof -
  let ?obs = "[demo_observation 0 1000 False, demo_observation 0 2000 False]"
  have "beats_fit (0, 1) (demo_observation 0 0 False) ?obs = Some (2000000000000, 1000000000000)"
    by (simp add: demo_observation_def held_def)
  from beat_phase_exact [OF demo_beats_start _ _ _ this, of 1024 1] show ?thesis
    by (simp add: demo_beats_def demo_observation_def held_def beat_value_def)
qed

text \<open>C34. Saturation can only bring the end of a transition forward: for a transition of \<open>n / d\<close> beats
  and any observations with non-zero denominators, however far its numbers run past 128 bits, the phase
  is at least the elapsed beats divided by \<open>n / d\<close> (at most 1), it never moves back when more is
  observed, it never passes 1, and it is exactly that quotient as long as the accumulated fraction and
  its comparison with the duration stay within 128 bits. Held observations and backward jumps
  contribute nothing.\<close>

theorem beat_phase_bounds:
  assumes "clock_start t ob = Inr c" and "tr_duration t = RationalBeats n d" and "n \<noteq> 0"
    and "\<forall>x \<in> set (ob # obs @ later). bp_denominator (ob_beat x) \<noteq> 0"
  shows "min 1 (beats_elapsed ob obs / (of_nat (unat n) / of_nat (unat d)))
      \<le> phase_value (clock_phase (clock_run c obs)) \<and>
    phase_value (clock_phase (clock_run c obs)) \<le> phase_value (clock_phase (clock_run c (obs @ later))) \<and>
    phase_value (clock_phase (clock_run c (obs @ later))) \<le> 1 \<and>
    (\<forall>num den. beats_fit (0, 1) ob obs = Some (num, den) \<and> num * unat d < 2 ^ 128 \<and> den * unat n < 2 ^ 128 \<longrightarrow>
      phase_value (clock_phase (clock_run c obs)) =
        min 1 (beats_elapsed ob obs / (of_nat (unat n) / of_nat (unat d))))"
proof -
  have c: "tc_duration c = RationalBeats n d" "tc_beat_numerator c = 0" "tc_beat_denominator c = 1" "tc_last c = ob"
    and d: "d \<noteq> 0"
    using assms(1,2) by (auto simp: clock_start_def rbind_Inr transition_validate_def split: if_splits)
  have start: "ahead 0 (unat (tc_beat_numerator c)) (unat (tc_beat_denominator c))"
    using c by (simp add: ahead_def top128_def)
  have run: "clock_run c (obs @ later) = clock_run (clock_run c obs) later" by (simp add: clock_run_def)
  note dur = clock_run_ticks [THEN conjunct2]
  note first = clock_run_bounds [OF _ _ start c(1) assms(3) d, of obs]
  have one: "ahead (beats_elapsed ob obs) (unat (tc_beat_numerator (clock_run c obs)))
      (unat (tc_beat_denominator (clock_run c obs)))"
    using first assms(4) c(4) by auto
  have last: "tc_last (clock_run c obs) = last (ob # obs)"
    using c(4) by (induction obs rule: rev_induct) (simp_all add: clock_run_def)
  have "bp_denominator (ob_beat (last (ob # obs))) \<noteq> 0"
    using assms(4) last_in_set [of "ob # obs"] by (auto simp del: last_in_set last.simps)
  then have two: "ahead (beats_elapsed ob obs + beats_elapsed (last (ob # obs)) later)
        (unat (tc_beat_numerator (clock_run c (obs @ later)))) (unat (tc_beat_denominator (clock_run c (obs @ later)))) \<and>
      phase_value (clock_phase (clock_run c obs)) \<le> phase_value (clock_phase (clock_run c (obs @ later)))"
    using clock_run_bounds [OF _ _ one _ assms(3) d, of later] assms(4) c(1) dur last unfolding run by auto
  have phase: "phase_value (clock_phase (clock_run c xs)) = capped_phase (unat n) (unat d)
      (unat (tc_beat_numerator (clock_run c xs))) (unat (tc_beat_denominator (clock_run c xs)))"
    if "ahead r (unat (tc_beat_numerator (clock_run c xs))) (unat (tc_beat_denominator (clock_run c xs)))" for xs r
    using that by (intro phase_capped) (auto simp: dur c(1) assms(3) ahead_def)
  have "min 1 (beats_elapsed ob obs / (of_nat (unat n) / of_nat (unat d))) \<le> phase_value (clock_phase (clock_run c obs))"
    unfolding phase [OF one] by (rule capped_phase_ahead [OF one]) (use assms(3) d in \<open>simp_all add: unat_gt_0\<close>)
  moreover have "phase_value (clock_phase (clock_run c (obs @ later))) \<le> 1"
    unfolding phase [OF two [THEN conjunct1]] by (rule capped_phase_le_1)
  ultimately show ?thesis using two beat_phase_exact [OF assms(1-3), of obs] assms(4) by auto
qed

theorem beat_phase_bounds_witness:
  "5 / 1024000 \<le> phase_value (clock_phase (clock_run demo_clock
      (map (\<lambda>i. demo_observation 0 i False) [1, 2, 3, 4, 5]))) \<and>
   phase_value (clock_phase (clock_run demo_clock
      (map (\<lambda>i. demo_observation 0 i False) [1, 2, 3, 4, 5])))
    \<le> phase_value (clock_phase (clock_run demo_clock
      (map (\<lambda>i. demo_observation 0 i False) [1, 2, 3, 4, 5] @ [demo_observation 0 6 True, demo_observation 0 2 False])))"
proof -
  let ?obs = "map (\<lambda>i. demo_observation 0 i False) [1, 2, 3, 4, 5]"
  have "beats_elapsed (demo_observation 0 0 False) ?obs = 5 / 1000"
    by (simp add: demo_observation_def held_def beat_value_def)
  with beat_phase_bounds [OF demo_beats_start, of 1024 1 ?obs "[demo_observation 0 6 True, demo_observation 0 2 False]"]
  show ?thesis by (auto simp: demo_beats_def demo_observation_def)
qed

definition demo_at :: "u64 \<Rightarrow> u128 \<Rightarrow> u128 \<Rightarrow> transition_clock" where
  "demo_at i n e = \<lparr>tc_duration = RationalBeats 1024 1, tc_elapsed_ticks = 0, tc_beat_numerator = n,
      tc_beat_denominator = e, tc_last = demo_observation 0 i False\<rparr>"

lemma demo_step:
  "positive_rational_delta (ob_beat (demo_observation 0 i False)) (ob_beat (demo_observation 0 j False)) = Some (x, y) \<Longrightarrow>
   0 < unat (sat_mul e y) \<Longrightarrow>
   fst (clock_observe (demo_at i n e) (demo_observation 0 j False)) =
     demo_at j (sat_add (sat_mul n y) (sat_mul x e)) (sat_mul e y)"
  by (simp add: clock_observe_def demo_at_def sat_sub_def sat_add_def Let_def max_one_pos)
    (simp add: demo_observation_def)

lemma demo_steps:
  "fst (clock_observe (demo_at 0 0 1) (demo_observation 0 1 False)) = demo_at 1 (1000) (1000000)"
  "fst (clock_observe (demo_at 1 1000 1000000) (demo_observation 0 2 False)) = demo_at 2 (2000000000) (1000000000000)"
  "fst (clock_observe (demo_at 2 2000000000 1000000000000) (demo_observation 0 3 False)) = demo_at 3 (3000000000000000) (1000000000000000000)"
  "fst (clock_observe (demo_at 3 3000000000000000 1000000000000000000) (demo_observation 0 4 False)) = demo_at 4 (4000000000000000000000) (1000000000000000000000000)"
  "fst (clock_observe (demo_at 4 4000000000000000000000 1000000000000000000000000) (demo_observation 0 5 False)) = demo_at 5 (5000000000000000000000000000) (1000000000000000000000000000000)"
  "fst (clock_observe (demo_at 5 5000000000000000000000000000 1000000000000000000000000000000) (demo_observation 0 6 False)) = demo_at 6 (6000000000000000000000000000000000) (1000000000000000000000000000000000000)"
  "fst (clock_observe (demo_at 6 6000000000000000000000000000000000 1000000000000000000000000000000000000) (demo_observation 0 7 False)) = demo_at 7 (- 1) (- 1)"
  by (subst demo_step [where x = 1000 and y = 1000000];
      simp add: positive_rational_delta_def demo_observation_def sat_mul_def sat_add_def unat_max_word)+

text \<open>The bound is only one way: a beat transition can finish far too early: observed seven times, each a thousandth of a beat
  after the other, a transition of 1024 beats has the exact phase 5/1024000 after five observations and
  reads as complete after the seventh, because the unreduced denominators are multiplied into one
  number that saturates at 128 bits, and so does the numerator.\<close>

lemma beat_phase_saturates:
  "clock_start demo_beats (demo_observation 0 0 False) = Inr demo_clock \<and>
   phase_value (clock_phase (clock_run demo_clock
     (map (\<lambda>i. demo_observation 0 i False) [1, 2, 3, 4, 5]))) = 5 / 1024000 \<and>
   clock_phase (clock_run demo_clock
     (map (\<lambda>i. demo_observation 0 i False) [1, 2, 3, 4, 5, 6, 7])) = PHASE_ONE"
proof -
  have c: "demo_clock = demo_at 0 0 1" by (simp add: demo_clock_def demo_at_def)
  have five: "clock_run demo_clock (map (\<lambda>i. demo_observation 0 i False) [1, 2, 3, 4, 5]) =
      demo_at 5 5000000000000000000000000000 1000000000000000000000000000000"
    by (simp add: clock_run_def c demo_steps)
  have seven: "clock_run demo_clock (map (\<lambda>i. demo_observation 0 i False) [1, 2, 3, 4, 5, 6, 7]) = demo_at 7 (- 1) (- 1)"
    by (simp add: clock_run_def c demo_steps)
  have "sat_mul (- 1 :: u128) (ucast (1 :: u32)) = - 1" "sat_mul (- 1 :: u128) (ucast (1024 :: u32)) = - 1"
    by (simp_all add: sat_mul_def unat_max_word)
  then have one: "clock_phase (demo_at 7 (- 1) (- 1)) = PHASE_ONE"
    by (simp add: clock_phase_def demo_at_def bounded_phase_def)
  have "phase_value (clock_phase (demo_at 5 5000000000000000000000000000 1000000000000000000000000000000)) = 5 / 1024000"
    by (simp add: clock_phase_def demo_at_def bounded_phase_def sat_mul_def phase_value_def)
  with one show ?thesis unfolding five seven by (simp add: demo_beats_start)
qed

end
