(* ===== verification/Rust_Float.thy ===== *)
theory Rust_Float
  imports Prelude Complex_Main
begin

text \<open>
  Rust's \<open>f32\<close> at its bit pattern (IEEE 754 binary32).  A finite magnitude is a whole number of
  units of \<open>2 ^ -149\<close>, so comparison, \<open>clamp\<close>, multiplication, division and conversions are integer
  computations; results are rounded to nearest, ties to even.  A NaN result carries the
  canonical quiet pattern (Rust leaves NaN payloads unspecified; no code here reads them).
\<close>

type_synonym f32 = "32 word"

section \<open>Bit patterns\<close>

definition F32_ZERO :: f32 where "F32_ZERO = 0"
definition F32_ONE :: f32 where "F32_ONE = 0x3F800000"
definition F32_MINUS_ONE :: f32 where "F32_MINUS_ONE = 0xBF800000"
definition F32_HALF :: f32 where "F32_HALF = 0x3F000000"
definition F32_NAN :: f32 where "F32_NAN = 0x7FC00000"

definition f32_inf_bits :: nat where "f32_inf_bits = 0x7F800000"

definition f32_sign :: "f32 \<Rightarrow> bool" where "f32_sign x = (2 ^ 31 \<le> unat x)"
definition f32_magnitude :: "f32 \<Rightarrow> nat" where "f32_magnitude x = unat x mod 2 ^ 31"

definition f32_is_nan :: "f32 \<Rightarrow> bool" where "f32_is_nan x \<longleftrightarrow> f32_inf_bits < f32_magnitude x"
definition f32_is_finite :: "f32 \<Rightarrow> bool" where "f32_is_finite x \<longleftrightarrow> f32_magnitude x < f32_inf_bits"

definition f32_pack :: "bool \<Rightarrow> nat \<Rightarrow> f32" where
  "f32_pack s m = of_nat ((if s then 2 ^ 31 else 0) + m)"

section \<open>Comparison and clamping\<close>

text \<open>Among numbers the order of magnitudes is the order of their bit patterns; both zeros are equal.\<close>

definition f32_key :: "f32 \<Rightarrow> int" where
  "f32_key x = (if f32_sign x then - int (f32_magnitude x) else int (f32_magnitude x))"

definition f32_lt :: "f32 \<Rightarrow> f32 \<Rightarrow> bool" where
  "f32_lt x y \<longleftrightarrow> \<not> f32_is_nan x \<and> \<not> f32_is_nan y \<and> f32_key x < f32_key y"

definition f32_le :: "f32 \<Rightarrow> f32 \<Rightarrow> bool" where
  "f32_le x y \<longleftrightarrow> \<not> f32_is_nan x \<and> \<not> f32_is_nan y \<and> f32_key x \<le> f32_key y"

definition f32_eq :: "f32 \<Rightarrow> f32 \<Rightarrow> bool" where
  "f32_eq x y \<longleftrightarrow> \<not> f32_is_nan x \<and> \<not> f32_is_nan y \<and> f32_key x = f32_key y"

text \<open>\<open>f32::clamp\<close>: two comparisons, so a NaN and a negative zero pass through.\<close>

definition f32_clamp :: "f32 \<Rightarrow> f32 \<Rightarrow> f32 \<Rightarrow> f32" where
  "f32_clamp lo hi x =
     (let x1 = (if f32_lt x lo then lo else x) in if f32_lt hi x1 then hi else x1)"

definition f32_clamp01 :: "f32 \<Rightarrow> f32" where
  "f32_clamp01 = f32_clamp F32_ZERO F32_ONE"

lemma f32_magnitude_less: "f32_magnitude x < 2 ^ 31"
  by (simp add: f32_magnitude_def)

lemmas f32_consts = F32_ZERO_def F32_ONE_def F32_MINUS_ONE_def F32_HALF_def F32_NAN_def
  f32_inf_bits_def

lemma f32_keys [simp]:
  "f32_key F32_ZERO = 0" "f32_key F32_ONE = 0x3F800000" "f32_key F32_MINUS_ONE = - 0x3F800000"
  by (simp_all add: f32_key_def f32_sign_def f32_magnitude_def f32_consts)

lemma f32_const_finite [simp]:
  "f32_is_finite F32_ZERO" "f32_is_finite F32_ONE" "f32_is_finite F32_MINUS_ONE" "f32_is_finite F32_HALF"
  by (simp_all add: f32_is_finite_def f32_magnitude_def f32_consts)

lemma f32_finite_not_nan [simp]: "f32_is_finite x \<Longrightarrow> \<not> f32_is_nan x"
  by (simp add: f32_is_finite_def f32_is_nan_def)

lemma f32_le_refl [simp]: "f32_is_finite x \<Longrightarrow> f32_le x x"
  by (simp add: f32_le_def)

lemma f32_clamp_cases:
  "\<not> f32_is_nan lo \<Longrightarrow> \<not> f32_is_nan hi \<Longrightarrow> f32_key lo \<le> f32_key hi \<Longrightarrow>
   f32_clamp lo hi x = (if f32_is_nan x then x else if f32_key x < f32_key lo then lo
     else if f32_key hi < f32_key x then hi else x)"
  by (auto simp: f32_clamp_def f32_lt_def Let_def)

lemma f32_clamp_bounds:
  assumes "f32_is_finite lo" "f32_is_finite hi" "f32_le lo hi" "\<not> f32_is_nan x"
  shows "f32_is_finite (f32_clamp lo hi x) \<and> f32_le lo (f32_clamp lo hi x) \<and> f32_le (f32_clamp lo hi x) hi"
proof -
  have k: "f32_key lo \<le> f32_key hi" using assms(3) by (simp add: f32_le_def)
  have "f32_is_finite x" if "f32_key lo \<le> f32_key x" "f32_key x \<le> f32_key hi"
    using that assms unfolding f32_is_finite_def f32_key_def
    by (auto split: if_splits)
  then show ?thesis
    using assms k by (auto simp: f32_clamp_cases f32_le_def not_less)
qed

lemma f32_clamp01_cases:
  "f32_clamp01 x = (if f32_is_nan x then x else if f32_key x < 0 then F32_ZERO
     else if 0x3F800000 < f32_key x then F32_ONE else x)"
  by (simp add: f32_clamp01_def f32_clamp_cases)

lemma f32_clamp01_bounds:
  "\<not> f32_is_nan x \<Longrightarrow>
   f32_is_finite (f32_clamp01 x) \<and> f32_le F32_ZERO (f32_clamp01 x) \<and> f32_le (f32_clamp01 x) F32_ONE"
  unfolding f32_clamp01_def by (rule f32_clamp_bounds) (auto simp: f32_le_def)

lemma f32_clamp01_id: "f32_le F32_ZERO x \<Longrightarrow> f32_le x F32_ONE \<Longrightarrow> f32_clamp01 x = x"
  by (auto simp: f32_clamp01_cases f32_le_def)

lemma f32_clamp01_idem [simp]: "f32_clamp01 (f32_clamp01 x) = f32_clamp01 x"
  by (auto simp: f32_clamp01_cases)

text \<open>The numbers of the unit interval (a negative zero included).\<close>

definition f32_unit :: "f32 \<Rightarrow> bool" where
  "f32_unit v \<longleftrightarrow> f32_is_finite v \<and> f32_le F32_ZERO v \<and> f32_le v F32_ONE"

lemma f32_unit_key: "f32_unit v \<longleftrightarrow> 0 \<le> f32_key v \<and> f32_key v \<le> 0x3F800000"
proof -
  have "f32_is_finite v" if "0 \<le> f32_key v" "f32_key v \<le> 0x3F800000"
    using that by (auto simp: f32_is_finite_def f32_key_def f32_inf_bits_def split: if_splits)
  then show ?thesis by (auto simp: f32_unit_def f32_le_def)
qed

lemma f32_unit_consts [simp]: "f32_unit F32_ZERO" "f32_unit F32_ONE" "f32_unit F32_HALF"
  by (simp_all add: f32_unit_key) (simp add: f32_key_def f32_sign_def f32_magnitude_def f32_consts)

lemma f32_unit_clamp01 [simp]: "\<not> f32_is_nan v \<Longrightarrow> f32_unit (f32_clamp01 v)"
  using f32_clamp01_bounds [of v] by (simp add: f32_unit_def)

lemma f32_unit_finite: "f32_unit v \<Longrightarrow> f32_is_finite v"
  by (simp add: f32_unit_def)

lemma f32_clamp01_unit: "f32_unit v \<Longrightarrow> f32_clamp01 v = v"
  by (simp add: f32_unit_def f32_clamp01_id)

section \<open>Values and rounding\<close>

text \<open>The magnitude in units of \<open>2 ^ -149\<close>, and the rounding of a fraction of such units back to
  a magnitude: the quotient is cut to 24 significant bits, ties to even; a carry moves into the
  exponent field by itself, and everything past the largest number is infinity.\<close>

definition f32_units :: "nat \<Rightarrow> nat" where
  "f32_units m = (if m div 2 ^ 23 = 0 then m else (2 ^ 23 + m mod 2 ^ 23) * 2 ^ (m div 2 ^ 23 - 1))"

fun bit_length :: "nat \<Rightarrow> nat" where
  "bit_length n = (if n = 0 then 0 else Suc (bit_length (n div 2)))"

declare bit_length.simps [simp del]

definition round_half_even :: "nat \<Rightarrow> nat \<Rightarrow> nat" where
  "round_half_even a b =
     (let q = a div b; r = 2 * (a mod b) in if r < b \<or> (r = b \<and> even q) then q else q + 1)"

definition f32_round :: "nat \<Rightarrow> nat \<Rightarrow> nat" where
  "f32_round a b =
     (let k = bit_length (a div b) - 24
      in min f32_inf_bits (k * 2 ^ 23 + round_half_even a (b * 2 ^ k)))"

definition f32_of_nat :: "nat \<Rightarrow> f32" where
  "f32_of_nat n = f32_pack False (f32_round (n * 2 ^ 149) 1)"

definition f32_of_int :: "int \<Rightarrow> f32" where
  "f32_of_int i = (if i < 0 then f32_pack True (f32_round (nat (- i) * 2 ^ 149) 1) else f32_of_nat (nat i))"

definition f32_mul :: "f32 \<Rightarrow> f32 \<Rightarrow> f32" where
  "f32_mul x y =
     (let s = (f32_sign x \<noteq> f32_sign y); m = f32_magnitude x; n = f32_magnitude y in
      if f32_is_nan x \<or> f32_is_nan y then F32_NAN
      else if m = f32_inf_bits then (if n = 0 then F32_NAN else f32_pack s f32_inf_bits)
      else if n = f32_inf_bits then (if m = 0 then F32_NAN else f32_pack s f32_inf_bits)
      else f32_pack s (f32_round (f32_units m * f32_units n) (2 ^ 149)))"

definition f32_div :: "f32 \<Rightarrow> f32 \<Rightarrow> f32" where
  "f32_div x y =
     (let s = (f32_sign x \<noteq> f32_sign y); m = f32_magnitude x; n = f32_magnitude y in
      if f32_is_nan x \<or> f32_is_nan y then F32_NAN
      else if m = f32_inf_bits then (if n = f32_inf_bits then F32_NAN else f32_pack s f32_inf_bits)
      else if n = f32_inf_bits then f32_pack s 0
      else if n = 0 then (if m = 0 then F32_NAN else f32_pack s f32_inf_bits)
      else f32_pack s (f32_round (f32_units m * 2 ^ 149) (f32_units n)))"

text \<open>\<open>x.round() as u8\<close>: half away from zero, then the saturating cast (a NaN gives 0).\<close>

definition f32_round_as_u8 :: "f32 \<Rightarrow> u8" where
  "f32_round_as_u8 x =
     (if f32_is_nan x \<or> f32_sign x then 0
      else if f32_magnitude x = f32_inf_bits then 255
      else of_nat (min 255 ((2 * f32_units (f32_magnitude x) + 2 ^ 149) div 2 ^ 150)))"

section \<open>Rounding is to the nearest magnitude\<close>

lemma bit_length_bounds: "0 < n \<Longrightarrow> 2 ^ (bit_length n - 1) \<le> n \<and> n < 2 ^ bit_length n"
proof (induction n rule: bit_length.induct)
  case (1 n)
  show ?case
  proof (cases "n = 1")
    case True
    then show ?thesis by (simp add: bit_length.simps)
  next
    case False
    with "1.prems" have p: "0 < n div 2" by auto
    with "1" have ih: "2 ^ (bit_length (n div 2) - 1) \<le> n div 2" "n div 2 < 2 ^ bit_length (n div 2)" by auto
    have b: "bit_length n = Suc (bit_length (n div 2))" using "1.prems" by (subst bit_length.simps) simp
    have "bit_length (n div 2) \<noteq> 0" using p by (subst bit_length.simps) simp
    then obtain j where j: "bit_length (n div 2) = Suc j" by (cases "bit_length (n div 2)") auto
    have h: "2 ^ j \<le> n div 2" "n div 2 < 2 * 2 ^ j" using ih j by simp_all
    have "2 * (n div 2) \<le> n" "n < 2 * (n div 2) + 2" by linarith+
    with h have "2 * 2 ^ j \<le> n" "n < 4 * 2 ^ j" by linarith+
    then show ?thesis using b j by simp
  qed
qed

lemma round_half_even_error:
  assumes "0 < b"
  shows "2 * \<bar>int (round_half_even a b * b) - int a\<bar> \<le> int b"
proof -
  have d: "int a = int (a div b) * int b + int (a mod b)" by (metis div_mult_mod_eq of_nat_add of_nat_mult)
  have m: "a mod b < b" using assms by simp
  show ?thesis
  proof (cases "round_half_even a b = a div b")
    case True
    then have "2 * (a mod b) \<le> b" by (auto simp: round_half_even_def Let_def split: if_splits)
    with True d show ?thesis by (simp add: algebra_simps)
  next
    case False
    then have "round_half_even a b = a div b + 1" "b \<le> 2 * (a mod b)"
      by (auto simp: round_half_even_def Let_def split: if_splits)
    with d m show ?thesis by (simp add: algebra_simps)
  qed
qed

lemma round_half_even_bounds:
  assumes "0 < b" "l * b \<le> a" "a \<le> u * b"
  shows "l \<le> round_half_even a b \<and> round_half_even a b \<le> u"
proof -
  have l: "l \<le> a div b" using assms by (simp add: less_eq_div_iff_mult_less_eq)
  have u: "a div b \<le> u" using div_le_mono [OF assms(3), of b] assms(1) by simp
  have "round_half_even a b \<le> u"
  proof (cases "a div b = u")
    case True
    then have "a mod b = 0" using assms(3) div_mult_mod_eq [of a b] by (metis add_le_same_cancel1 le_zero_eq)
    with True assms(1) show ?thesis by (simp add: round_half_even_def)
  next
    case False
    with u show ?thesis by (auto simp: round_half_even_def Let_def)
  qed
  with l show ?thesis by (auto simp: round_half_even_def Let_def)
qed

text \<open>The magnitude field of a rounded significand: a carry runs into the exponent.\<close>

lemma f32_units_field:
  assumes "m \<le> 2 ^ 24" "k = 0 \<or> 2 ^ 23 \<le> m"
  shows "f32_units (k * 2 ^ 23 + m) = m * 2 ^ k"
proof -
  consider "m < 2 ^ 23" "k = 0" | "2 ^ 23 \<le> m" "m < 2 ^ 24" | "m = 2 ^ 24" using assms by fastforce
  then show ?thesis
  proof cases
    case 1
    then show ?thesis by (simp add: f32_units_def)
  next
    case 2
    define r where "r = m - 2 ^ 23"
    then have r: "m = 2 ^ 23 + r" "r < 2 ^ 23" using 2 by simp_all
    have "k * 2 ^ 23 + m = (k + 1) * 2 ^ 23 + r" using r(1) by simp
    then have "(k * 2 ^ 23 + m) div 2 ^ 23 = k + 1" "(k * 2 ^ 23 + m) mod 2 ^ 23 = r"
      using r(2) by (simp_all only: div_mult_self3 mod_mult_self3) auto
    with r show ?thesis by (simp add: f32_units_def)
  next
    case 3
    then have "k * 2 ^ 23 + m = (k + 2) * 2 ^ 23" by simp
    then show ?thesis using 3 by (simp only: f32_units_def) simp
  qed
qed

lemma f32_round_exact:
  assumes "0 < b" "f32_round a b < f32_inf_bits" and k: "k = bit_length (a div b) - 24"
  shows "f32_units (f32_round a b) = round_half_even a (b * 2 ^ k) * 2 ^ k"
    and "2 * \<bar>int (f32_units (f32_round a b) * b) - int a\<bar> \<le> int (b * 2 ^ k)"
proof -
  let ?m = "round_half_even a (b * 2 ^ k)"
  have "f32_round a b = k * 2 ^ 23 + ?m"
    using assms by (auto simp: f32_round_def Let_def min_def split: if_splits)
  moreover have "?m \<le> 2 ^ 24 \<and> (k = 0 \<or> 2 ^ 23 \<le> ?m)"
  proof (cases "a div b = 0")
    case True
    then have "k = 0" "a < b" using k assms(1) by (simp_all add: bit_length.simps div_eq_0_iff)
    then show ?thesis using round_half_even_bounds [of b 0 a "2 ^ 24"] assms(1) by simp
  next
    case False
    then have bl: "2 ^ (bit_length (a div b) - 1) \<le> a div b" "a div b < 2 ^ bit_length (a div b)"
      using bit_length_bounds [of "a div b"] by auto
    have up: "a \<le> 2 ^ 24 * (b * 2 ^ k)"
    proof -
      have "a div b < 2 ^ (k + 24)"
        using bl(2) k by (meson less_le_trans one_le_numeral power_increasing le_diff_conv order_refl)
      then have "a < b * 2 ^ (k + 24)" using assms(1) by (simp add: div_less_iff_less_mult mult.commute)
      then show ?thesis by (simp add: power_add ac_simps)
    qed
    show ?thesis
    proof (cases "k = 0")
      case True
      then show ?thesis using round_half_even_bounds [of "b * 2 ^ k" 0 a "2 ^ 24"] up assms(1) by simp
    next
      case nz: False
      then have "bit_length (a div b) - 1 = k + 23" using k by simp
      then have "2 ^ (k + 23) * b \<le> a" using bl(1) assms(1) by (simp add: less_eq_div_iff_mult_less_eq)
      then have "2 ^ 23 * (b * 2 ^ k) \<le> a" by (simp add: power_add ac_simps)
      then show ?thesis using round_half_even_bounds [of "b * 2 ^ k" "2 ^ 23" a "2 ^ 24"] up assms(1) by simp
    qed
  qed
  ultimately show u: "f32_units (f32_round a b) = ?m * 2 ^ k" using f32_units_field [of ?m k] by simp
  show "2 * \<bar>int (f32_units (f32_round a b) * b) - int a\<bar> \<le> int (b * 2 ^ k)"
    using round_half_even_error [of "b * 2 ^ k" a] assms(1) by (simp add: u ac_simps)
qed

section \<open>Small integers and quotients\<close>

lemma unat_f32_pack: "m < 2 ^ 31 \<Longrightarrow> unat (f32_pack s m) = (if s then 2 ^ 31 else 0) + m"
  unfolding f32_pack_def by (rule unat_of_nat_small) simp

lemma f32_pack_magnitude: "m < 2 ^ 31 \<Longrightarrow> f32_magnitude (f32_pack s m) = m"
  by (simp add: f32_magnitude_def unat_f32_pack)

lemma f32_pack_sign: "m < 2 ^ 31 \<Longrightarrow> f32_sign (f32_pack s m) = s"
  by (simp add: f32_sign_def unat_f32_pack)

lemma f32_round_inf: "f32_round a b \<le> f32_inf_bits"
  by (simp add: f32_round_def Let_def)

lemma f32_round_fits [simp]: "f32_round a b < 2 ^ 31"
  using f32_round_inf [of a b] by (simp add: f32_inf_bits_def)

lemmas f32_pack_round [simp] = f32_pack_magnitude [OF f32_round_fits] f32_pack_sign [OF f32_round_fits]

lemma f32_mul_not_nan:
  "f32_is_finite x \<Longrightarrow> f32_is_finite y \<Longrightarrow> \<not> f32_is_nan (f32_mul x y)"
  using f32_round_inf by (auto simp: f32_mul_def f32_is_finite_def f32_is_nan_def Let_def not_less)

lemma bit_length_le: "n < 2 ^ j \<Longrightarrow> bit_length n \<le> j"
proof (cases "n = 0")
  case True
  then show ?thesis by (simp add: bit_length.simps)
next
  case False
  assume "n < 2 ^ j"
  with False bit_length_bounds [of n] have "2 ^ (bit_length n - 1) < (2 :: nat) ^ j" by linarith
  then have "bit_length n - 1 < j" by (rule power_less_imp_less_exp [rotated]) simp
  then show ?thesis by simp
qed

text \<open>A fraction of at most \<open>2 ^ j\<close> units rounds to a magnitude of at most that, \<open>j\<close> from 23 on.\<close>

lemma f32_round_le_power:
  assumes "0 < b" "a \<le> b * 2 ^ (23 + e)"
  shows "f32_round a b \<le> (e + 1) * 2 ^ 23"
proof -
  define k where "k = bit_length (a div b) - 24"
  have m: "round_half_even a (b * 2 ^ k) \<le> u" if "a \<le> b * 2 ^ k * u" for u
    using round_half_even_bounds [of "b * 2 ^ k" 0 a u] that assms(1) by (simp add: ac_simps)
  have q: "a div b \<le> 2 ^ (23 + e)" using div_le_mono [OF assms(2), of b] assms(1) by simp
  show ?thesis
  proof (cases "k < e")
    case True
    have "a < b * 2 ^ (k + 24)"
    proof -
      have "a div b < 2 ^ (k + 24)"
      proof (cases "a div b = 0")
        case False
        then have "a div b < 2 ^ bit_length (a div b)" using bit_length_bounds [of "a div b"] by auto
        also have "\<dots> \<le> 2 ^ (k + 24)" by (rule power_increasing) (simp_all add: k_def)
        finally show ?thesis .
      qed simp
      then show ?thesis using assms(1) by (simp add: div_less_iff_less_mult mult.commute)
    qed
    then have "round_half_even a (b * 2 ^ k) \<le> 2 ^ 24" by (intro m) (simp add: power_add ac_simps)
    then have "k * 2 ^ 23 + round_half_even a (b * 2 ^ k) \<le> (k + 2) * 2 ^ 23" by simp
    also have "\<dots> \<le> (e + 1) * 2 ^ 23" using True by (intro mult_le_mono1) simp
    finally show ?thesis by (simp add: f32_round_def k_def [symmetric] Let_def)
  next
    case False
    have "a div b < 2 ^ (24 + e)" using q by (rule order_le_less_trans) simp
    then have "bit_length (a div b) \<le> 24 + e" by (rule bit_length_le)
    then have k: "k = e" using False by (simp add: k_def)
    have "round_half_even a (b * 2 ^ k) \<le> 2 ^ 23" using assms(2) by (intro m) (simp add: k power_add ac_simps)
    then show ?thesis by (simp add: f32_round_def k_def [symmetric] Let_def k)
  qed
qed

text \<open>The quotient of a smaller by a larger number is at most one.\<close>

lemma f32_div_le_one:
  assumes "f32_is_finite x" "f32_is_finite y" "\<not> f32_sign x" "\<not> f32_sign y"
    and "f32_units (f32_magnitude x) \<le> f32_units (f32_magnitude y)" "0 < f32_units (f32_magnitude y)"
  shows "f32_magnitude (f32_div x y) \<le> 0x3F800000 \<and> \<not> f32_sign (f32_div x y) \<and>
    f32_div x y = f32_pack False (f32_round (f32_units (f32_magnitude x) * 2 ^ 149) (f32_units (f32_magnitude y)))"
proof -
  have n: "f32_magnitude y \<noteq> 0"
  proof
    assume "f32_magnitude y = 0"
    with assms(6) show False by (simp add: f32_units_def)
  qed
  have "f32_div x y = f32_pack False (f32_round (f32_units (f32_magnitude x) * 2 ^ 149)
      (f32_units (f32_magnitude y)))"
    using assms n by (simp add: f32_div_def Let_def f32_is_finite_def f32_is_nan_def)
  moreover have "f32_round (f32_units (f32_magnitude x) * 2 ^ 149) (f32_units (f32_magnitude y)) \<le> (126 + 1) * 2 ^ 23"
    using assms(5,6) by (intro f32_round_le_power) simp_all
  ultimately show ?thesis by simp
qed

lemma f32_div_unit:
  assumes "f32_is_finite x" "f32_is_finite y" "\<not> f32_sign x" "\<not> f32_sign y"
    and "f32_units (f32_magnitude x) \<le> f32_units (f32_magnitude y)" "0 < f32_units (f32_magnitude y)"
  shows "f32_unit (f32_div x y)"
proof -
  have "f32_magnitude (f32_div x y) \<le> 0x3F800000" "\<not> f32_sign (f32_div x y)"
    using f32_div_le_one [OF assms] by blast+
  then show ?thesis by (simp add: f32_unit_key f32_key_def)
qed

text \<open>Naturals of at most 24 bits convert exactly.\<close>

lemma f32_of_nat_exact:
  assumes "n < 2 ^ 24"
  shows "f32_units (f32_magnitude (f32_of_nat n)) = n * 2 ^ 149"
    and "\<not> f32_sign (f32_of_nat n)" and "f32_is_finite (f32_of_nat n)"
proof -
  let ?a = "n * 2 ^ 149 :: nat"
  define k where "k = bit_length (?a div 1) - 24"
  have "?a \<le> 1 * 2 ^ (23 + 150)" using assms by simp
  then have le: "f32_round ?a 1 \<le> (150 + 1) * 2 ^ 23" by (intro f32_round_le_power) simp_all
  have "?a < 2 ^ 173" using assms by simp
  then have "bit_length (?a div 1) \<le> 173" using bit_length_le [of ?a 173] by simp
  then have k: "k \<le> 149" by (simp add: k_def)
  have d: "(1 * 2 ^ k :: nat) dvd ?a"
    using k by (metis dvd_triv_right dvd_trans le_imp_power_dvd mult_1)
  have u: "f32_units (f32_round ?a 1) = round_half_even ?a (1 * 2 ^ k) * 2 ^ k"
    using le by (intro f32_round_exact(1)) (simp_all add: f32_inf_bits_def k_def)
  have "round_half_even ?a (1 * 2 ^ k) = ?a div (1 * 2 ^ k)"
    using d by (simp add: round_half_even_def)
  with u d show "f32_units (f32_magnitude (f32_of_nat n)) = n * 2 ^ 149"
    by (simp add: f32_of_nat_def)
  show "\<not> f32_sign (f32_of_nat n)" by (simp add: f32_of_nat_def)
  show "f32_is_finite (f32_of_nat n)"
    using le by (simp add: f32_of_nat_def f32_is_finite_def f32_inf_bits_def)
qed

lemma abs_chain:
  assumes "2 * \<bar>y - z\<bar> \<le> a" "2 * \<bar>x - y\<bar> \<le> b" "a \<le> b"
  shows "2 * \<bar>x - z\<bar> \<le> 2 * (b :: int)"
  using assms abs_triangle_ineq [of "x - y" "y - z"] by simp

text \<open>Scaling a small integer down to the unit interval and back is exact after rounding.\<close>

lemma f32_scale_round_trip:
  assumes "r \<le> d" "0 < d" "d < 256"
  shows "f32_round_as_u8 (f32_mul (f32_clamp01 (f32_div (f32_of_nat r) (f32_of_nat d))) (f32_of_nat d)) = of_nat r"
proof -
  have small: "r < 2 ^ 24" "d < 2 ^ 24" using assms by simp_all
  note r = f32_of_nat_exact [OF small(1)] and dd = f32_of_nat_exact [OF small(2)]
  define U :: nat where "U = 2 ^ 149"
  note ru = r(1) [folded U_def] and du = dd(1) [folded U_def]
  have U: "0 < U" by (simp add: U_def)
  let ?q = "f32_div (f32_of_nat r) (f32_of_nat d)"
  have q: "f32_magnitude ?q \<le> 0x3F800000" "\<not> f32_sign ?q"
    and q3: "?q = f32_pack False (f32_round (r * U * U) (d * U))"
    using f32_div_le_one [OF r(3) dd(3) r(2) dd(2)] assms(1,2) U unfolding ru du U_def [symmetric] by auto
  have mq: "f32_magnitude ?q = f32_round (r * U * U) (d * U)" by (subst q3) simp
  have fin: "f32_is_finite ?q" "f32_clamp01 ?q = ?q" "\<not> f32_is_nan ?q"
    using q by (simp_all add: f32_is_finite_def f32_inf_bits_def f32_clamp01_cases f32_is_nan_def f32_key_def)
  define D where "D = f32_units (f32_magnitude ?q)"
  have "0 < d * U" using assms(2) U by simp
  have Dle: "f32_round (r * U * U) (d * U) < f32_inf_bits" using q mq by (simp add: f32_inf_bits_def)
  define k where "k = bit_length (r * U * U div (d * U)) - 24"
  have "r * U * U \<le> U * (d * U)" using assms(1) by simp
  then have "r * U * U div (d * U) \<le> U"
    using div_le_mono [of "r * U * U" "U * (d * U)" "d * U"] \<open>0 < d * U\<close> by simp
  then have "r * U * U div (d * U) < 2 ^ 150" by (simp add: U_def)
  then have k: "k \<le> 126" using bit_length_le [of "r * U * U div (d * U)" 150] by (simp add: k_def)
  have "2 * \<bar>int (D * (d * U)) - int (r * U * U)\<bar> \<le> int (d * U * 2 ^ k)"
    using f32_round_exact(2) [OF \<open>0 < d * U\<close> Dle k_def] by (simp only: D_def mq)
  also have "\<dots> \<le> int (d * U * 2 ^ 126)"
    using power_increasing [OF k, of "2 :: nat"] by (simp only: of_nat_le_iff mult_le_mono2)
  also have "int (D * (d * U)) - int (r * U * U) = (int (D * d) - int (r * U)) * int U" by (simp add: algebra_simps)
  finally have "2 * \<bar>int (D * d) - int (r * U)\<bar> * int U \<le> int (d * 2 ^ 126) * int U"
    by (simp only: abs_mult abs_of_nat) (simp add: ac_simps)
  then have D: "2 * \<bar>int (D * d) - int (r * U)\<bar> \<le> int (d * 2 ^ 126)"
    using U by simp
  define P where "P = f32_units (f32_round (D * (d * U)) U)"
  have mul: "f32_mul ?q (f32_of_nat d) = f32_pack False (f32_round (D * (d * U)) U)"
    using fin(1,3) dd(2,3) q unfolding f32_mul_def Let_def D_def [symmetric] du U_def [symmetric]
    by (simp add: f32_is_finite_def f32_is_nan_def)
  have "int (D * d) \<le> int (r * U) + int (d * 2 ^ 125)" using D by simp
  also have "\<dots> \<le> int (2 ^ 157 + 2 ^ 133)" using assms by (simp add: U_def)
  finally have "D * d \<le> 2 ^ 157 + 2 ^ 133" by (simp only: of_nat_le_iff)
  then have Dd: "D * d < 2 ^ 158" by simp
  then have "D * (d * U) \<le> U * 2 ^ (23 + 135)" by (simp add: ac_simps)
  then have "f32_round (D * (d * U)) U \<le> (135 + 1) * 2 ^ 23" using U by (rule f32_round_le_power [rotated])
  then have Ple: "f32_round (D * (d * U)) U < f32_inf_bits" by (simp add: f32_inf_bits_def)
  define j where "j = bit_length (D * (d * U) div U) - 24"
  have "D * (d * U) div U = D * d" using U by (simp add: mult.assoc [symmetric])
  then have j: "j \<le> 134" using bit_length_le [OF Dd] by (simp add: j_def)
  have "2 * \<bar>int (P * U) - int (D * (d * U))\<bar> \<le> int (U * 2 ^ j)"
    using f32_round_exact(2) [OF U Ple j_def] by (simp only: P_def)
  also have "\<dots> \<le> int (U * 2 ^ 134)"
    using power_increasing [OF j, of "2 :: nat"] by (simp only: of_nat_le_iff mult_le_mono2)
  also have "int (P * U) - int (D * (d * U)) = (int P - int (D * d)) * int U" by (simp add: algebra_simps)
  finally have "2 * \<bar>int P - int (D * d)\<bar> * int U \<le> int (2 ^ 134) * int U"
    by (simp only: abs_mult abs_of_nat) (simp add: ac_simps)
  then have P: "2 * \<bar>int P - int (D * d)\<bar> \<le> int (2 ^ 134)"
    using U by simp
  have "int (d * 2 ^ 126) \<le> int (2 ^ 134)" using assms(3) by simp
  with D P have "2 * \<bar>int P - int (r * U)\<bar> \<le> 2 * int (2 ^ 134)" by (rule abs_chain)
  then have "\<bar>int P - int (r * U)\<bar> < int (2 ^ 148)" by simp
  then have "r * U \<le> P + 2 ^ 148" "P < r * U + 2 ^ 148" by linarith+
  then have "r * 2 ^ 150 \<le> 2 * P + 2 ^ 149" "2 * P + 2 ^ 149 < (r + 1) * 2 ^ 150" by (simp_all add: U_def)
  then have "(2 * P + 2 ^ 149) div 2 ^ 150 = r" by (intro div_nat_eqI) (simp_all add: mult.commute)
  then show ?thesis
    using assms fin(2) mul Ple
    by (simp add: f32_round_as_u8_def P_def [symmetric] f32_is_nan_def)
qed

end
