(* ===== verification/Image_Routing.thy ===== *)
theory Image_Routing
  imports Rust_Float Scene_Performance
begin

text \<open>
  Image taps and matte routes of \<open>src/src/image_routing.rs\<close>: live routes name process-stable layer
  identities, saved routes name layer positions, and the two directions of the mapping, the
  tombstones of removed groups and the availability diagnosis are modelled whole.  The closures
  the caller passes (\<open>layer_at_position\<close>, \<open>position_of_layer\<close>) are function arguments.
\<close>

section \<open>Routes\<close>

type_synonym stable_layer_id = u64
type_synonym group_id = u64

definition stable_layer_id_new :: "u64 \<Rightarrow> stable_layer_id option" where
  "stable_layer_id_new v = (if v = 0 then None else Some v)"

datatype layer_image_stage = PreLocalEffects | PostLocalEffects

datatype image_input =
    SelectedLayer stable_layer_id layer_image_stage
  | MissingSelectedLayer layer_position layer_image_stage
  | OneBelow
  | AllBelow
  | CleanProgram
  | ProgramHistory
  | GroupOutput group_id
  | MissingGroupOutput group_id

datatype saved_image_input =
    SavedSelectedLayer layer_position layer_image_stage
  | SavedMissingSelectedLayer layer_position layer_image_stage
  | SavedOneBelow
  | SavedAllBelow
  | SavedCleanProgram
  | SavedProgramHistory
  | SavedGroupOutput group_id
  | SavedMissingGroupOutput group_id

datatype matte_channel = ChAlpha | ChLuma | ChRed | ChGreen | ChBlue

record layer_matte =
  lm_enabled :: bool
  lm_input :: image_input
  lm_channel :: matte_channel
  lm_invert :: bool
  lm_amount :: f32
  lm_threshold :: f32
  lm_softness :: f32

record layer_matte_config =
  mc_enabled :: bool
  mc_input :: saved_image_input
  mc_channel :: matte_channel
  mc_invert :: bool
  mc_amount :: f32
  mc_threshold :: f32
  mc_softness :: f32

text \<open>The literal \<open>0.1\<close> as an \<open>f32\<close>.\<close>

definition F32_TENTH :: f32 where "F32_TENTH = 0x3DCCCCCD"

definition matte_default :: layer_matte where
  "matte_default = \<lparr>lm_enabled = False, lm_input = OneBelow, lm_channel = ChAlpha, lm_invert = False,
     lm_amount = F32_ONE, lm_threshold = F32_HALF, lm_softness = F32_TENTH\<rparr>"

definition matte_config_default :: layer_matte_config where
  "matte_config_default = \<lparr>mc_enabled = False, mc_input = SavedOneBelow, mc_channel = ChAlpha,
     mc_invert = False, mc_amount = F32_ONE, mc_threshold = F32_HALF, mc_softness = F32_TENTH\<rparr>"

definition finite_clamp :: "f32 \<Rightarrow> f32 \<Rightarrow> f32" where
  "finite_clamp v fallback = (if f32_is_finite v then f32_clamp01 v else fallback)"

definition matte_sanitized :: "layer_matte \<Rightarrow> layer_matte" where
  "matte_sanitized m = m\<lparr>lm_amount := finite_clamp (lm_amount m) F32_ONE,
     lm_threshold := finite_clamp (lm_threshold m) F32_HALF,
     lm_softness := finite_clamp (lm_softness m) F32_TENTH\<rparr>"

definition matte_config_sanitized :: "layer_matte_config \<Rightarrow> layer_matte_config" where
  "matte_config_sanitized c = c\<lparr>mc_amount := finite_clamp (mc_amount c) F32_ONE,
     mc_threshold := finite_clamp (mc_threshold c) F32_HALF,
     mc_softness := finite_clamp (mc_softness c) F32_TENTH\<rparr>"

definition matte_mark_group_output_missing :: "layer_matte \<Rightarrow> group_id \<Rightarrow> layer_matte" where
  "matte_mark_group_output_missing m removed =
     (if lm_input m = GroupOutput removed then m\<lparr>lm_input := MissingGroupOutput removed\<rparr> else m)"

definition config_mark_group_output_missing :: "layer_matte_config \<Rightarrow> group_id \<Rightarrow> layer_matte_config" where
  "config_mark_group_output_missing c removed =
     (if mc_input c = SavedGroupOutput removed then c\<lparr>mc_input := SavedMissingGroupOutput removed\<rparr> else c)"

text \<open>The derived \<open>PartialEq\<close>, with the \<open>f32\<close> comparison.\<close>

definition is_legacy_disabled :: "layer_matte_config \<Rightarrow> bool" where
  "is_legacy_disabled c \<longleftrightarrow> (let d = matte_config_default in
     mc_enabled c = mc_enabled d \<and> mc_input c = mc_input d \<and> mc_channel c = mc_channel d \<and>
     mc_invert c = mc_invert d \<and> f32_eq (mc_amount c) (mc_amount d) \<and>
     f32_eq (mc_threshold c) (mc_threshold d) \<and> f32_eq (mc_softness c) (mc_softness d))"

text \<open>Deserialization: a missing field takes the default, then the whole record is sanitized.\<close>

record matte_config_raw =
  raw_enabled :: "bool option"
  raw_input :: "saved_image_input option"
  raw_channel :: "matte_channel option"
  raw_invert :: "bool option"
  raw_amount :: "f32 option"
  raw_threshold :: "f32 option"
  raw_softness :: "f32 option"

definition unwrap_or :: "'a option \<Rightarrow> 'a \<Rightarrow> 'a" where
  "unwrap_or x d = (case x of Some v \<Rightarrow> v | None \<Rightarrow> d)"

definition matte_config_deserialize :: "matte_config_raw \<Rightarrow> layer_matte_config" where
  "matte_config_deserialize raw = (let d = matte_config_default in matte_config_sanitized
     \<lparr>mc_enabled = unwrap_or (raw_enabled raw) (mc_enabled d),
      mc_input = unwrap_or (raw_input raw) (mc_input d),
      mc_channel = unwrap_or (raw_channel raw) (mc_channel d),
      mc_invert = unwrap_or (raw_invert raw) (mc_invert d),
      mc_amount = unwrap_or (raw_amount raw) (mc_amount d),
      mc_threshold = unwrap_or (raw_threshold raw) (mc_threshold d),
      mc_softness = unwrap_or (raw_softness raw) (mc_softness d)\<rparr>)"

section \<open>Diagnosis\<close>

datatype missing_image_input =
    MissSelectedLayer layer_position
  | MissLiveLayer stable_layer_id
  | MissOneBelow
  | MissAllBelow
  | MissProgramHistoryUninitialized
  | MissGroupOutputUnavailable group_id

datatype image_route_cycle = CleanProgramSameFrame

datatype image_route_diagnostic =
    DiagDisabled
  | DiagReady
  | DiagMissing missing_image_input
  | DiagCycle image_route_cycle

fun diagnostic_display :: "image_route_diagnostic \<Rightarrow> rstr" where
  "diagnostic_display DiagDisabled = lit ''matte disabled''"
| "diagnostic_display DiagReady = lit ''image input ready''"
| "diagnostic_display (DiagMissing (MissSelectedLayer saved)) =
     lit ''saved layer position '' @ decimal (unat saved) @ lit '' is missing; using transparent input''"
| "diagnostic_display (DiagMissing (MissLiveLayer layer)) =
     lit ''live layer '' @ decimal (unat layer) @ lit '' cannot be mapped; using transparent input''"
| "diagnostic_display (DiagMissing MissOneBelow) =
     lit ''there is no layer below; using transparent input''"
| "diagnostic_display (DiagMissing MissAllBelow) =
     lit ''there are no layers below; using transparent input''"
| "diagnostic_display (DiagMissing MissProgramHistoryUninitialized) =
     lit ''program history is not initialized; using transparent input''"
| "diagnostic_display (DiagMissing (MissGroupOutputUnavailable g)) =
     lit ''group output '' @ decimal (unat g) @ lit '' is unavailable; using transparent input''"
| "diagnostic_display (DiagCycle CleanProgramSameFrame) =
     lit ''same-frame clean program would form a cycle; use program history instead''"

record image_route_context =
  rc_available_layers :: "stable_layer_id list"
  rc_has_one_below :: bool
  rc_program_history_initialized :: bool

fun input_diagnose :: "image_input \<Rightarrow> image_route_context \<Rightarrow> image_route_diagnostic" where
  "input_diagnose (SelectedLayer layer_id stage) ctx =
     (if layer_id \<in> set (rc_available_layers ctx) then DiagReady
      else DiagMissing (MissLiveLayer layer_id))"
| "input_diagnose (MissingSelectedLayer saved_position stage) ctx =
     DiagMissing (MissSelectedLayer saved_position)"
| "input_diagnose OneBelow ctx = (if \<not> rc_has_one_below ctx then DiagMissing MissOneBelow else DiagReady)"
| "input_diagnose AllBelow ctx = (if \<not> rc_has_one_below ctx then DiagMissing MissAllBelow else DiagReady)"
| "input_diagnose ProgramHistory ctx =
     (if \<not> rc_program_history_initialized ctx then DiagMissing MissProgramHistoryUninitialized
      else DiagReady)"
| "input_diagnose (GroupOutput g) ctx = DiagMissing (MissGroupOutputUnavailable g)"
| "input_diagnose (MissingGroupOutput g) ctx = DiagMissing (MissGroupOutputUnavailable g)"
| "input_diagnose CleanProgram ctx = DiagCycle CleanProgramSameFrame"

definition matte_diagnose :: "layer_matte \<Rightarrow> image_route_context \<Rightarrow> image_route_diagnostic" where
  "matte_diagnose m ctx = (if lm_enabled m then input_diagnose (lm_input m) ctx else DiagDisabled)"

section \<open>Restore and capture\<close>

definition config_to_runtime ::
  "layer_matte_config \<Rightarrow> (layer_position \<Rightarrow> stable_layer_id option) \<Rightarrow> layer_matte" where
  "config_to_runtime c layer_at_position =
     (let v = matte_config_sanitized c in
      if \<not> mc_enabled v then matte_default
      else
        (let input = (case mc_input v of
             SavedSelectedLayer layer_position stage \<Rightarrow>
               (case layer_at_position layer_position of
                  None \<Rightarrow> MissingSelectedLayer layer_position stage
                | Some layer_id \<Rightarrow> SelectedLayer layer_id stage)
           | SavedMissingSelectedLayer saved_position stage \<Rightarrow> MissingSelectedLayer saved_position stage
           | SavedOneBelow \<Rightarrow> OneBelow
           | SavedAllBelow \<Rightarrow> AllBelow
           | SavedCleanProgram \<Rightarrow> CleanProgram
           | SavedProgramHistory \<Rightarrow> ProgramHistory
           | SavedGroupOutput g \<Rightarrow> GroupOutput g
           | SavedMissingGroupOutput g \<Rightarrow> MissingGroupOutput g)
         in \<lparr>lm_enabled = True, lm_input = input, lm_channel = mc_channel v, lm_invert = mc_invert v,
             lm_amount = mc_amount v, lm_threshold = mc_threshold v, lm_softness = mc_softness v\<rparr>))"

definition config_from_runtime ::
  "layer_matte \<Rightarrow> (stable_layer_id \<Rightarrow> layer_position option) \<Rightarrow> image_route_diagnostic + layer_matte_config"
  where
  "config_from_runtime matte position_of_layer =
     (let m = matte_sanitized matte in
      rbind (case lm_input m of
          SelectedLayer layer_id stage \<Rightarrow>
            rbind (ok_or (position_of_layer layer_id) (DiagMissing (MissLiveLayer layer_id)))
              (\<lambda>saved. Inr (SavedSelectedLayer saved stage))
        | MissingSelectedLayer saved_position stage \<Rightarrow> Inr (SavedMissingSelectedLayer saved_position stage)
        | OneBelow \<Rightarrow> Inr SavedOneBelow
        | AllBelow \<Rightarrow> Inr SavedAllBelow
        | CleanProgram \<Rightarrow> Inr SavedCleanProgram
        | ProgramHistory \<Rightarrow> Inr SavedProgramHistory
        | GroupOutput g \<Rightarrow> Inr (SavedGroupOutput g)
        | MissingGroupOutput g \<Rightarrow> Inr (SavedMissingGroupOutput g))
      (\<lambda>input. Inr
        \<lparr>mc_enabled = lm_enabled m, mc_input = input, mc_channel = lm_channel m, mc_invert = lm_invert m,
         mc_amount = lm_amount m, mc_threshold = lm_threshold m, mc_softness = lm_softness m\<rparr>))"

end
