(* ===== verification/Image_Routing_Laws.thy ===== *)
theory Image_Routing_Laws
  imports Image_Routing
begin

text \<open>
  What saving and restoring a matte route promises: weights are clamped once and for all, an enabled
  route whose donor is still known comes back as it was, an unknown donor is reported and never
  replaced, and a route that was missing once stays missing whatever layers move into its place.
\<close>

section \<open>Sanitizing\<close>

definition matte_weights_ok :: "layer_matte \<Rightarrow> bool" where
  "matte_weights_ok m \<longleftrightarrow> f32_unit (lm_amount m) \<and> f32_unit (lm_threshold m) \<and> f32_unit (lm_softness m)"

lemma f32_unit_tenth [simp]: "f32_unit F32_TENTH"
  by (simp add: f32_unit_key f32_key_def f32_sign_def f32_magnitude_def F32_TENTH_def)

lemma finite_clamp_unit [simp]: "f32_unit d \<Longrightarrow> f32_unit (finite_clamp v d)"
  by (simp add: finite_clamp_def)

lemma finite_clamp_fixed: "f32_unit v \<Longrightarrow> finite_clamp v d = v"
  by (simp add: f32_unit_finite finite_clamp_def f32_clamp01_unit)

lemma finite_clamp_idem [simp]: "f32_unit d \<Longrightarrow> finite_clamp (finite_clamp v d) d = finite_clamp v d"
  by (simp add: finite_clamp_fixed)

lemma sanitized_idem [simp]: "matte_sanitized (matte_sanitized m) = matte_sanitized m"
  by (simp add: matte_sanitized_def)

lemma config_sanitized_idem [simp]: "matte_config_sanitized (matte_config_sanitized c) = matte_config_sanitized c"
  by (simp add: matte_config_sanitized_def)

lemma sanitized_weights: "matte_weights_ok (matte_sanitized m)"
  by (simp add: matte_weights_ok_def matte_sanitized_def)

section \<open>The two directions\<close>

text \<open>The saved name of a live input, and the live reading of a saved one.\<close>

fun save_input :: "(stable_layer_id \<Rightarrow> layer_position option) \<Rightarrow> image_input \<Rightarrow> saved_image_input option" where
  "save_input pos (SelectedLayer l s) = map_option (\<lambda>p. SavedSelectedLayer p s) (pos l)"
| "save_input pos (MissingSelectedLayer p s) = Some (SavedMissingSelectedLayer p s)"
| "save_input pos OneBelow = Some SavedOneBelow"
| "save_input pos AllBelow = Some SavedAllBelow"
| "save_input pos CleanProgram = Some SavedCleanProgram"
| "save_input pos ProgramHistory = Some SavedProgramHistory"
| "save_input pos (GroupOutput g) = Some (SavedGroupOutput g)"
| "save_input pos (MissingGroupOutput g) = Some (SavedMissingGroupOutput g)"

fun load_input :: "(layer_position \<Rightarrow> stable_layer_id option) \<Rightarrow> saved_image_input \<Rightarrow> image_input" where
  "load_input live (SavedSelectedLayer p s) =
     (case live p of None \<Rightarrow> MissingSelectedLayer p s | Some l \<Rightarrow> SelectedLayer l s)"
| "load_input live (SavedMissingSelectedLayer p s) = MissingSelectedLayer p s"
| "load_input live SavedOneBelow = OneBelow"
| "load_input live SavedAllBelow = AllBelow"
| "load_input live SavedCleanProgram = CleanProgram"
| "load_input live SavedProgramHistory = ProgramHistory"
| "load_input live (SavedGroupOutput g) = GroupOutput g"
| "load_input live (SavedMissingGroupOutput g) = MissingGroupOutput g"

lemma load_save:
  "(\<And>l p. pos l = Some p \<Longrightarrow> live p = Some l) \<Longrightarrow> save_input pos i = Some s \<Longrightarrow> load_input live s = i"
  by (cases i) auto

lemma from_runtime_unfold:
  "config_from_runtime m pos = (case save_input pos (lm_input m) of
     None \<Rightarrow> (case lm_input m of SelectedLayer l s \<Rightarrow> Inl (DiagMissing (MissLiveLayer l)))
   | Some s \<Rightarrow> (let n = matte_sanitized m in Inr \<lparr>mc_enabled = lm_enabled n, mc_input = s,
       mc_channel = lm_channel n, mc_invert = lm_invert n, mc_amount = lm_amount n,
       mc_threshold = lm_threshold n, mc_softness = lm_softness n\<rparr>))"
  by (cases "lm_input m")
    (auto simp: config_from_runtime_def matte_sanitized_def Let_def ok_or_def split: option.splits)

lemma to_runtime_unfold:
  "config_to_runtime c live = (let v = matte_config_sanitized c in
     if mc_enabled c then \<lparr>lm_enabled = True, lm_input = load_input live (mc_input c),
       lm_channel = mc_channel v, lm_invert = mc_invert v, lm_amount = mc_amount v,
       lm_threshold = mc_threshold v, lm_softness = mc_softness v\<rparr>
     else matte_default)"
  by (cases "mc_input c")
    (auto simp: config_to_runtime_def matte_config_sanitized_def Let_def split: option.splits)

lemma restore_captured:
  assumes "config_from_runtime m pos = Inr c"
  obtains s where "save_input pos (lm_input m) = Some s"
    and "config_to_runtime c live = (if lm_enabled m then (matte_sanitized m)\<lparr>lm_input := load_input live s\<rparr>
           else matte_default)"
proof -
  obtain s where s: "save_input pos (lm_input m) = Some s"
    using assms by (cases "lm_input m") (auto simp: from_runtime_unfold split: option.splits)
  then have "config_to_runtime c live =
      (if lm_enabled m then (matte_sanitized m)\<lparr>lm_input := load_input live s\<rparr> else matte_default)"
    using assms
    by (cases m) (auto simp: from_runtime_unfold to_runtime_unfold Let_def matte_sanitized_def
        matte_config_sanitized_def)
  with s show ?thesis by (rule that)
qed

text \<open>Capturing a live matte route and restoring it where every captured donor is still at its
  position gives the route back, its three weights clamped into the unit interval; a disabled
  route comes back as the default one.  Capture refuses exactly a selected donor without a
  position, and names it.\<close>

theorem route_capture_restore:
  assumes "\<And>l p. pos l = Some p \<Longrightarrow> live p = Some l"
  shows "(case config_from_runtime m pos of
      Inr c \<Rightarrow> config_to_runtime c live = (if lm_enabled m then matte_sanitized m else matte_default) \<and>
        matte_weights_ok (config_to_runtime c live)
    | Inl d \<Rightarrow> \<exists>l s. lm_input m = SelectedLayer l s \<and> pos l = None \<and> d = DiagMissing (MissLiveLayer l))"
proof (cases "config_from_runtime m pos")
  case (Inl d)
  then show ?thesis by (cases "lm_input m") (auto simp: from_runtime_unfold Let_def split: option.splits)
next
  case (Inr c)
  obtain s where s: "save_input pos (lm_input m) = Some s"
    and r: "config_to_runtime c live = (if lm_enabled m then (matte_sanitized m)\<lparr>lm_input := load_input live s\<rparr>
           else matte_default)"
    using restore_captured [OF Inr] .
  have "load_input live s = lm_input m" using load_save [OF assms s] by simp
  then have e: "config_to_runtime c live = (if lm_enabled m then matte_sanitized m else matte_default)"
    using r by (simp add: matte_sanitized_def)
  have "matte_weights_ok matte_default" by (simp add: matte_weights_ok_def matte_default_def)
  with e sanitized_weights [of m] Inr show ?thesis by simp
qed

definition sample_matte :: layer_matte where
  "sample_matte = matte_default\<lparr>lm_enabled := True, lm_input := SelectedLayer 7 PostLocalEffects,
     lm_amount := 0x40000000\<rparr>"

theorem route_capture_restore_witness:
  "case config_from_runtime sample_matte [7 \<mapsto> 2] of
     Inr c \<Rightarrow> lm_amount (config_to_runtime c [2 \<mapsto> 7]) = F32_ONE
   | Inl d \<Rightarrow> False"
proof -
  have p: "[7 \<mapsto> 2] l = Some p \<Longrightarrow> [2 \<mapsto> 7] p = Some l"
    for l :: stable_layer_id and p :: layer_position by (simp split: if_splits)
  have "config_from_runtime sample_matte [7 \<mapsto> 2] \<noteq> Inl d" for d
    by (simp add: from_runtime_unfold sample_matte_def Let_def)
  moreover have "lm_enabled sample_matte" "lm_amount (matte_sanitized sample_matte) = F32_ONE"
    by (simp_all add: sample_matte_def matte_default_def matte_sanitized_def finite_clamp_def
        f32_clamp01_cases f32_is_finite_def f32_is_nan_def f32_key_def f32_sign_def f32_magnitude_def f32_consts)
  ultimately show ?thesis
    using route_capture_restore [of "[7 \<mapsto> 2]" "[2 \<mapsto> 7]" sample_matte, OF p]
    by (cases "config_from_runtime sample_matte [7 \<mapsto> 2]") auto
qed

section \<open>Tombstones\<close>

text \<open>One save and load of a show: capture in a world, then restore in another.\<close>

definition reload ::
  "layer_matte \<Rightarrow> (stable_layer_id \<Rightarrow> layer_position option) \<times> (layer_position \<Rightarrow> stable_layer_id option)
   \<Rightarrow> layer_matte" where
  "reload m w = (case config_from_runtime m (fst w) of Inl d \<Rightarrow> m | Inr c \<Rightarrow> config_to_runtime c (snd w))"

definition is_missing :: "image_input \<Rightarrow> bool" where
  "is_missing i \<longleftrightarrow> (\<exists>p s. i = MissingSelectedLayer p s) \<or> (\<exists>g. i = MissingGroupOutput g)"

lemma reload_missing:
  "lm_enabled m \<Longrightarrow> is_missing (lm_input m) \<Longrightarrow> reload m w = matte_sanitized m"
  by (cases w; cases m) (auto simp: is_missing_def reload_def from_runtime_unfold to_runtime_unfold Let_def
      matte_sanitized_def matte_config_sanitized_def)

lemma sanitized_missing [simp]:
  "lm_input (matte_sanitized m) = lm_input m" "lm_enabled (matte_sanitized m) = lm_enabled m"
  by (simp_all add: matte_sanitized_def)

text \<open>A missing route is never silently retargeted: once the donor of an enabled matte is missing,
  any number of saves and loads keeps exactly that tombstone, whatever layers the worlds put at
  the vacated position, and it is diagnosed as missing in every context.  Removing a group makes
  such a tombstone out of every route to its output.\<close>

theorem missing_route_never_retargets:
  assumes "lm_enabled m"
    and "is_missing (lm_input m) \<or> (\<exists>g. lm_input m = GroupOutput g \<and> m' = matte_mark_group_output_missing m g)"
    and "is_missing (lm_input m) \<longrightarrow> m' = m"
  shows "is_missing (lm_input (foldl reload m' ws)) \<and>
    lm_input (foldl reload m' ws) = lm_input m' \<and>
    (\<exists>x. matte_diagnose (foldl reload m' ws) ctx = DiagMissing x)"
proof -
  have m': "is_missing (lm_input m')" "lm_enabled m'"
    using assms by (auto simp: matte_mark_group_output_missing_def is_missing_def)
  then have "is_missing (lm_input (foldl reload m' ws)) \<and> lm_enabled (foldl reload m' ws) \<and>
      lm_input (foldl reload m' ws) = lm_input m'"
    by (induction ws arbitrary: m') (auto simp: reload_missing)
  moreover have "\<exists>x. input_diagnose i ctx = DiagMissing x" if "is_missing i" for i
    using that by (auto simp: is_missing_def)
  ultimately show ?thesis using m' by (simp add: matte_diagnose_def)
qed

theorem missing_route_never_retargets_witness:
  "lm_input (foldl reload (matte_mark_group_output_missing (sample_matte\<lparr>lm_input := GroupOutput 5\<rparr>) 5)
     [([7 \<mapsto> 2], [2 \<mapsto> 7]), (Map.empty, [0 \<mapsto> 5])]) = MissingGroupOutput 5"
  using missing_route_never_retargets [of "sample_matte\<lparr>lm_input := GroupOutput 5\<rparr>"
      "matte_mark_group_output_missing (sample_matte\<lparr>lm_input := GroupOutput 5\<rparr>) 5"
      "[([7 \<mapsto> 2], [2 \<mapsto> 7]), (Map.empty, [0 \<mapsto> 5])]"]
  by (simp add: sample_matte_def matte_default_def is_missing_def matte_mark_group_output_missing_def)

end
