(* ===== verification/Control_Profile.thy ===== *)
theory Control_Profile
  imports Image_Routing
begin

text \<open>
  The closed control vocabulary and the MIDI controller profiles of \<open>src/src/controller_profile.rs\<close>:
  parameters and addresses, the authored profile document with its validation, its resolution
  against the live layers and scenes, and the decoder from MIDI messages to control events with
  its hidden button states.  JSON is third-party code: its parser and printer are arguments
  (\<open>parse\<close>, \<open>print\<close>) of the byte-level operations.  Paths and files are not modelled.
\<close>

section \<open>Socket addresses of the standard library\<close>

datatype ip_addr = IpV4 u32 | IpV6 u128

datatype socket_addr = SocketV4 u32 u16 | SocketV6 u128 u16 u32 u32

fun socket_ip :: "socket_addr \<Rightarrow> ip_addr" where
  "socket_ip (SocketV4 a p) = IpV4 a"
| "socket_ip (SocketV6 a p f s) = IpV6 a"

fun socket_port :: "socket_addr \<Rightarrow> u16" where
  "socket_port (SocketV4 a p) = p"
| "socket_port (SocketV6 a p f s) = p"

fun ip_is_unspecified :: "ip_addr \<Rightarrow> bool" where
  "ip_is_unspecified (IpV4 a) = (a = 0)"
| "ip_is_unspecified (IpV6 a) = (a = 0)"

fun ip_is_multicast :: "ip_addr \<Rightarrow> bool" where
  "ip_is_multicast (IpV4 a) = (drop_bit 28 a = 14)"
| "ip_is_multicast (IpV6 a) = (drop_bit 120 a = 255)"

fun ip_is_loopback :: "ip_addr \<Rightarrow> bool" where
  "ip_is_loopback (IpV4 a) = (drop_bit 24 a = 127)"
| "ip_is_loopback (IpV6 a) = (a = 1)"

section \<open>Parameters, values and addresses\<close>

datatype automation_origin = OriginMidi | OriginOsc socket_addr | OriginHostAutomation

definition records_manual_history :: "automation_origin \<Rightarrow> bool" where
  "records_manual_history o' = False"

datatype automation_value = AvAbsolute f32 | AvDelta f32 | AvTrigger | AvGate bool

fun finite_bounded :: "automation_value \<Rightarrow> automation_value option" where
  "finite_bounded (AvAbsolute v) = (if f32_is_finite v then Some (AvAbsolute (f32_clamp01 v)) else None)"
| "finite_bounded (AvDelta v) =
     (if f32_is_finite v then Some (AvDelta (f32_clamp F32_MINUS_ONE F32_ONE v)) else None)"
| "finite_bounded AvTrigger = Some AvTrigger"
| "finite_bounded (AvGate b) = Some (AvGate b)"

datatype control_parameter =
    CpValue | CpAmount | CpWet | CpBypass | CpEnabled | CpOpacity | CpSpeed | CpRate | CpPositionX
    | CpPositionY | CpScaleX | CpScaleY | CpRotation | CpBrightness | CpContrast | CpSaturation
    | CpHue | CpThreshold | CpSoftness | CpVisibility | CpPaused | CpSolo | CpBusCrossfade
    | CpProgramFreeze | CpMediaFreeze | CpBlackout | CpPlay | CpSeekNormalized | CpBpm | CpTapTempo
    | CpDownbeat | CpClearMotionMemory | CpClearTemporalMemory | CpGestureX | CpGestureY
    | CpGesturePressure | CpGestureContact | CpBend1 | CpBend2 | CpBend3 | CpBend4 | CpBend5
    | CpBend6

fun control_key :: "control_parameter \<Rightarrow> rstr" where
  "control_key CpValue = lit ''value''"
| "control_key CpAmount = lit ''amount''"
| "control_key CpWet = lit ''wet''"
| "control_key CpBypass = lit ''bypass''"
| "control_key CpEnabled = lit ''enabled''"
| "control_key CpOpacity = lit ''opacity''"
| "control_key CpSpeed = lit ''speed''"
| "control_key CpRate = lit ''rate''"
| "control_key CpPositionX = lit ''position_x''"
| "control_key CpPositionY = lit ''position_y''"
| "control_key CpScaleX = lit ''scale_x''"
| "control_key CpScaleY = lit ''scale_y''"
| "control_key CpRotation = lit ''rotation''"
| "control_key CpBrightness = lit ''brightness''"
| "control_key CpContrast = lit ''contrast''"
| "control_key CpSaturation = lit ''saturation''"
| "control_key CpHue = lit ''hue''"
| "control_key CpThreshold = lit ''threshold''"
| "control_key CpSoftness = lit ''softness''"
| "control_key CpVisibility = lit ''visibility''"
| "control_key CpPaused = lit ''paused''"
| "control_key CpSolo = lit ''solo''"
| "control_key CpBusCrossfade = lit ''bus_crossfade''"
| "control_key CpProgramFreeze = lit ''program_freeze''"
| "control_key CpMediaFreeze = lit ''media_freeze''"
| "control_key CpBlackout = lit ''blackout''"
| "control_key CpPlay = lit ''play''"
| "control_key CpSeekNormalized = lit ''seek_normalized''"
| "control_key CpBpm = lit ''bpm''"
| "control_key CpTapTempo = lit ''tap_tempo''"
| "control_key CpDownbeat = lit ''downbeat''"
| "control_key CpClearMotionMemory = lit ''clear_motion_memory''"
| "control_key CpClearTemporalMemory = lit ''clear_temporal_memory''"
| "control_key CpGestureX = lit ''gesture_x''"
| "control_key CpGestureY = lit ''gesture_y''"
| "control_key CpGesturePressure = lit ''gesture_pressure''"
| "control_key CpGestureContact = lit ''gesture_contact''"
| "control_key CpBend1 = lit ''bend1''"
| "control_key CpBend2 = lit ''bend2''"
| "control_key CpBend3 = lit ''bend3''"
| "control_key CpBend4 = lit ''bend4''"
| "control_key CpBend5 = lit ''bend5''"
| "control_key CpBend6 = lit ''bend6''"

definition control_table :: "(rstr \<times> control_parameter) list" where
  "control_table =
    [(lit ''value'', CpValue), (lit ''amount'', CpAmount), (lit ''wet'', CpWet)
     , (lit ''bypass'', CpBypass), (lit ''enabled'', CpEnabled), (lit ''opacity'', CpOpacity)
     , (lit ''speed'', CpSpeed), (lit ''rate'', CpRate), (lit ''position_x'', CpPositionX)
     , (lit ''position_y'', CpPositionY), (lit ''scale_x'', CpScaleX), (lit ''scale_y'', CpScaleY)
     , (lit ''rotation'', CpRotation), (lit ''brightness'', CpBrightness)
     , (lit ''contrast'', CpContrast), (lit ''saturation'', CpSaturation), (lit ''hue'', CpHue)
     , (lit ''threshold'', CpThreshold), (lit ''softness'', CpSoftness)
     , (lit ''visibility'', CpVisibility), (lit ''paused'', CpPaused), (lit ''solo'', CpSolo)
     , (lit ''bus_crossfade'', CpBusCrossfade), (lit ''program_freeze'', CpProgramFreeze)
     , (lit ''media_freeze'', CpMediaFreeze), (lit ''blackout'', CpBlackout), (lit ''play'', CpPlay)
     , (lit ''seek_normalized'', CpSeekNormalized), (lit ''bpm'', CpBpm)
     , (lit ''tap_tempo'', CpTapTempo), (lit ''downbeat'', CpDownbeat)
     , (lit ''clear_motion_memory'', CpClearMotionMemory)
     , (lit ''clear_temporal_memory'', CpClearTemporalMemory), (lit ''gesture_x'', CpGestureX)
     , (lit ''gesture_y'', CpGestureY), (lit ''gesture_pressure'', CpGesturePressure)
     , (lit ''gesture_contact'', CpGestureContact), (lit ''bend1'', CpBend1)
     , (lit ''bend2'', CpBend2), (lit ''bend3'', CpBend3), (lit ''bend4'', CpBend4)
     , (lit ''bend5'', CpBend5), (lit ''bend6'', CpBend6)]"

definition control_parse :: "rstr \<Rightarrow> control_parameter option" where
  "control_parse v = map_of control_table v"

fun bend_index :: "control_parameter \<Rightarrow> nat option" where
  "bend_index CpBend1 = Some 0"
| "bend_index CpBend2 = Some 1"
| "bend_index CpBend3 = Some 2"
| "bend_index CpBend4 = Some 3"
| "bend_index CpBend5 = Some 4"
| "bend_index CpBend6 = Some 5"
| "bend_index _ = None"

type_synonym node_id = u64

definition node_id_new :: "u64 \<Rightarrow> node_id option" where
  "node_id_new v = (if v = 0 then None else Some v)"

definition group_id_new :: "u64 \<Rightarrow> group_id option" where
  "group_id_new v = (if v = 0 then None else Some v)"

datatype runtime_node_scope = RnMaster | RnLayer stable_layer_id | RnGroup group_id

datatype runtime_control_address =
    RcLegacyMidiSlot u8
  | RcMaster control_parameter
  | RcLayer stable_layer_id control_parameter
  | RcGroup group_id control_parameter
  | RcNode runtime_node_scope node_id control_parameter
  | RcTransport control_parameter
  | RcScenePrepare scene_id
  | RcSceneTrigger scene_id

fun runtime_is_scene_action :: "runtime_control_address \<Rightarrow> bool" where
  "runtime_is_scene_action (RcScenePrepare s) = True"
| "runtime_is_scene_action (RcSceneTrigger s) = True"
| "runtime_is_scene_action _ = False"

datatype saved_node_scope = SnMaster | SnLayer layer_position | SnGroup group_id

datatype saved_control_address =
    ScLegacyMidiSlot u8
  | ScMaster control_parameter
  | ScLayer layer_position control_parameter
  | ScGroup group_id control_parameter
  | ScNode saved_node_scope node_id control_parameter
  | ScTransport control_parameter
  | ScScenePrepare scene_id
  | ScSceneTrigger scene_id

fun saved_is_scene_action :: "saved_control_address \<Rightarrow> bool" where
  "saved_is_scene_action (ScScenePrepare s) = True"
| "saved_is_scene_action (ScSceneTrigger s) = True"
| "saved_is_scene_action _ = False"

datatype profile_error =
    PeDocumentBytes nat
  | PeActionBytes nat
  | PeJson rstr
  | PeVersion u16
  | PeProfileName
  | PeDeviceName
  | PeBindingCount nat
  | PeFeedbackCount nat
  | PeBindingId u16
  | PeChannel u8
  | PeMidiData u8
  | PePressThreshold u16
  | PeRelativeStep u16
  | PeNoteNeedsButton u16
  | PeButtonEncoding u16
  | PeSceneActionNeedsMomentary u16
  | PeLegacySlot u8
  | PeMissingLayer layer_position
  | PeMissingScene scene_id
  | PeNonFinite
  | PeIo rstr

fun address_resolve ::
  "saved_control_address \<Rightarrow> (layer_position \<Rightarrow> stable_layer_id option) \<Rightarrow> (scene_id \<Rightarrow> bool) \<Rightarrow>
   profile_error + runtime_control_address" where
  "address_resolve (ScLegacyMidiSlot slot) layer_at scene_exists =
     (if slot < 4 then Inr (RcLegacyMidiSlot slot) else Inl (PeLegacySlot slot))"
| "address_resolve (ScMaster p) layer_at scene_exists = Inr (RcMaster p)"
| "address_resolve (ScLayer pos p) layer_at scene_exists =
     rbind (ok_or (layer_at pos) (PeMissingLayer pos)) (\<lambda>layer. Inr (RcLayer layer p))"
| "address_resolve (ScGroup g p) layer_at scene_exists = Inr (RcGroup g p)"
| "address_resolve (ScNode scope n p) layer_at scene_exists =
     rbind (case scope of
         SnMaster \<Rightarrow> Inr RnMaster
       | SnLayer pos \<Rightarrow> rbind (ok_or (layer_at pos) (PeMissingLayer pos)) (\<lambda>layer. Inr (RnLayer layer))
       | SnGroup g \<Rightarrow> Inr (RnGroup g))
     (\<lambda>s. Inr (RcNode s n p))"
| "address_resolve (ScTransport p) layer_at scene_exists = Inr (RcTransport p)"
| "address_resolve (ScScenePrepare s) layer_at scene_exists =
     (if scene_exists s then Inr (RcScenePrepare s) else Inl (PeMissingScene s))"
| "address_resolve (ScSceneTrigger s) layer_at scene_exists =
     (if scene_exists s then Inr (RcSceneTrigger s) else Inl (PeMissingScene s))"

section \<open>Devices, channels and messages\<close>

definition CONTROLLER_PROFILE_VERSION :: u16 where "CONTROLLER_PROFILE_VERSION = 1"
definition CONTROLLER_PROFILE_MAX_BYTES :: nat where "CONTROLLER_PROFILE_MAX_BYTES = 256 * 1024"
definition CONTROLLER_PROFILE_MAX_NAME_BYTES :: nat where "CONTROLLER_PROFILE_MAX_NAME_BYTES = 96"
definition CONTROLLER_DEVICE_NAME_MAX_BYTES :: nat where "CONTROLLER_DEVICE_NAME_MAX_BYTES = 256"
definition CONTROLLER_PROFILE_MAX_BINDINGS :: nat where "CONTROLLER_PROFILE_MAX_BINDINGS = 256"
definition CONTROLLER_PROFILE_MAX_FEEDBACK_BINDINGS :: nat where
  "CONTROLLER_PROFILE_MAX_FEEDBACK_BINDINGS = 256"
definition CONTROLLER_RELATIVE_STEP_MAX :: f32 where "CONTROLLER_RELATIVE_STEP_MAX = F32_ONE"
definition CONTROLLER_PROFILE_ACTION_MAX_BYTES :: nat where
  "CONTROLLER_PROFILE_ACTION_MAX_BYTES = CONTROLLER_PROFILE_MAX_BYTES + 1024"

datatype midi_device_selector = FirstAvailable | ExactDevice rstr

fun device_matches :: "midi_device_selector \<Rightarrow> rstr \<Rightarrow> bool" where
  "device_matches FirstAvailable name = True"
| "device_matches (ExactDevice expected) name = (expected = name)"

fun device_validate :: "midi_device_selector \<Rightarrow> profile_error + unit" where
  "device_validate FirstAvailable = Inr ()"
| "device_validate (ExactDevice name) =
     (if name = [] \<or> CONTROLLER_DEVICE_NAME_MAX_BYTES < str_len name then Inl PeDeviceName
      else if list_ex char_is_control name then Inl PeDeviceName else Inr ())"

datatype midi_channel_filter = Omni | ExactChannel u8

fun channel_matches :: "midi_channel_filter \<Rightarrow> u8 \<Rightarrow> bool" where
  "channel_matches Omni c = True"
| "channel_matches (ExactChannel channel) c = (channel = c + 1)"

fun channel_validate :: "midi_channel_filter \<Rightarrow> profile_error + unit" where
  "channel_validate Omni = Inr ()"
| "channel_validate (ExactChannel channel) =
     (if \<not> (1 \<le> channel \<and> channel \<le> 16) then Inl (PeChannel channel) else Inr ())"

datatype midi_input_source = SrcControlChange u8 | SrcNote u8

fun source_number :: "midi_input_source \<Rightarrow> u8" where
  "source_number (SrcControlChange controller) = controller"
| "source_number (SrcNote note) = note"

definition source_validate :: "midi_input_source \<Rightarrow> profile_error + unit" where
  "source_validate s = (if source_number s \<le> 127 then Inr () else Inl (PeMidiData (source_number s)))"

datatype midi_value_encoding =
  EncAbsolute | EncRelativeTwosComplement | EncRelativeBinaryOffset | EncRelativeSignMagnitude

datatype midi_button_mode = Momentary | Toggle | Gate

datatype midi_output_message = OutControlChange u8 u8 | OutNote u8 u8

fun output_parts :: "midi_output_message \<Rightarrow> u8 \<times> u8 \<times> u8" where
  "output_parts (OutControlChange channel controller) = (channel, controller, 0xB0)"
| "output_parts (OutNote channel note) = (channel, note, 0x90)"

definition output_bytes :: "midi_output_message \<Rightarrow> f32 \<Rightarrow> profile_error + bytes" where
  "output_bytes m normalized =
     (if \<not> f32_is_finite normalized then Inl PeNonFinite
      else let v = f32_round_as_u8 (f32_mul (f32_clamp01 normalized) (f32_of_nat 127)) in
      case output_parts m of (channel, data, family) \<Rightarrow>
        if \<not> (1 \<le> channel \<and> channel \<le> 16) then Inl (PeChannel channel)
        else if 127 < data then Inl (PeMidiData data)
        else Inr [family OR (channel - 1), data, v])"

section \<open>The profile document\<close>

record controller_binding =
  cb_id :: u16
  cb_source :: midi_input_source
  cb_channel :: "midi_channel_filter option"
  cb_encoding :: midi_value_encoding
  cb_button_mode :: "midi_button_mode option"
  cb_press_threshold :: u8
  cb_relative_step :: f32
  cb_target :: saved_control_address
  cb_feedback :: "midi_output_message option"

definition controller_binding_default :: controller_binding where
  "controller_binding_default =
     \<lparr>cb_id = 1, cb_source = SrcControlChange 1, cb_channel = None, cb_encoding = EncAbsolute,
      cb_button_mode = None, cb_press_threshold = 64,
      cb_relative_step = f32_div F32_ONE (f32_of_nat 127),
      cb_target = ScLegacyMidiSlot 0, cb_feedback = None\<rparr>"

record profile_document =
  pd_version :: u16
  pd_name :: rstr
  pd_input :: midi_device_selector
  pd_output :: midi_device_selector
  pd_channel :: midi_channel_filter
  pd_bindings :: "controller_binding list"

definition legacy_four_cc :: profile_document where
  "legacy_four_cc =
     \<lparr>pd_version = CONTROLLER_PROFILE_VERSION, pd_name = lit ''Legacy four CC'',
      pd_input = FirstAvailable, pd_output = FirstAvailable, pd_channel = Omni,
      pd_bindings = map (\<lambda>slot. controller_binding_default
          \<lparr>cb_id := ucast slot + 1, cb_source := SrcControlChange (slot + 1),
           cb_target := ScLegacyMidiSlot slot\<rparr>) [0, 1, 2, 3]\<rparr>"

text \<open>The checks that follow the channel and threshold checks are the same for a saved and a
  resolved binding; the result is the new count of feedback bindings.\<close>

definition binding_law_check ::
  "u16 \<Rightarrow> midi_input_source \<Rightarrow> midi_value_encoding \<Rightarrow> midi_button_mode option \<Rightarrow> f32 \<Rightarrow> bool \<Rightarrow>
   midi_output_message option \<Rightarrow> nat \<Rightarrow> profile_error + nat" where
  "binding_law_check bid source encoding button step scene_action feedback count =
     (if \<not> f32_is_finite step \<or> \<not> (f32_le F32_ZERO step \<and> f32_le step CONTROLLER_RELATIVE_STEP_MAX) \<or>
         (encoding \<noteq> EncAbsolute \<and> f32_le step F32_ZERO) then Inl (PeRelativeStep bid)
      else if (case source of SrcNote n \<Rightarrow> True | _ \<Rightarrow> False) \<and> button = None
        then Inl (PeNoteNeedsButton bid)
      else if button \<noteq> None \<and> encoding \<noteq> EncAbsolute then Inl (PeButtonEncoding bid)
      else if scene_action \<and> button \<noteq> Some Momentary then Inl (PeSceneActionNeedsMomentary bid)
      else (case feedback of
          Some output \<Rightarrow> rbind (output_bytes output F32_ZERO) (\<lambda>_. Inr (count + 1))
        | None \<Rightarrow> Inr count))"

fun document_validate_bindings ::
  "u16 set \<Rightarrow> nat \<Rightarrow> controller_binding list \<Rightarrow> profile_error + nat" where
  "document_validate_bindings ids count [] = Inr count"
| "document_validate_bindings ids count (b # bs) =
     (if cb_id b = 0 \<or> cb_id b \<in> ids then Inl (PeBindingId (cb_id b))
      else rbind (source_validate (cb_source b)) (\<lambda>_.
        if \<not> (1 \<le> cb_press_threshold b \<and> cb_press_threshold b \<le> 127)
        then Inl (PePressThreshold (cb_id b))
        else rbind (case cb_channel b of Some c \<Rightarrow> channel_validate c | None \<Rightarrow> Inr ()) (\<lambda>_.
          rbind (binding_law_check (cb_id b) (cb_source b) (cb_encoding b) (cb_button_mode b)
                   (cb_relative_step b) (saved_is_scene_action (cb_target b)) (cb_feedback b) count)
            (\<lambda>count'. document_validate_bindings (insert (cb_id b) ids) count' bs))))"

definition profile_name_bad :: "rstr \<Rightarrow> bool" where
  "profile_name_bad name \<longleftrightarrow>
     name = [] \<or> CONTROLLER_PROFILE_MAX_NAME_BYTES < str_len name \<or> list_ex char_is_control name"

definition document_validate :: "profile_document \<Rightarrow> profile_error + unit" where
  "document_validate d =
     (if pd_version d \<noteq> CONTROLLER_PROFILE_VERSION then Inl (PeVersion (pd_version d))
      else if profile_name_bad (pd_name d) then Inl PeProfileName
      else rbind (device_validate (pd_input d)) (\<lambda>_. rbind (device_validate (pd_output d)) (\<lambda>_.
        rbind (channel_validate (pd_channel d)) (\<lambda>_.
        if CONTROLLER_PROFILE_MAX_BINDINGS < length (pd_bindings d)
        then Inl (PeBindingCount (length (pd_bindings d)))
        else rbind (document_validate_bindings {} 0 (pd_bindings d)) (\<lambda>feedback.
          if CONTROLLER_PROFILE_MAX_FEEDBACK_BINDINGS < feedback then Inl (PeFeedbackCount feedback)
          else Inr ())))))"

definition document_from_json ::
  "(bytes \<Rightarrow> rstr + profile_document) \<Rightarrow> bytes \<Rightarrow> profile_error + profile_document" where
  "document_from_json parse bs =
     (if CONTROLLER_PROFILE_MAX_BYTES < length bs then Inl (PeDocumentBytes (length bs))
      else rbind (case parse bs of Inl e \<Rightarrow> Inl (PeJson e) | Inr d \<Rightarrow> Inr d)
        (\<lambda>d. rbind (document_validate d) (\<lambda>_. Inr d)))"

definition document_to_json ::
  "(profile_document \<Rightarrow> rstr + bytes) \<Rightarrow> profile_document \<Rightarrow> profile_error + bytes" where
  "document_to_json print d =
     rbind (document_validate d) (\<lambda>_.
       rbind (case print d of Inl e \<Rightarrow> Inl (PeJson e) | Inr bs \<Rightarrow> Inr bs)
        (\<lambda>bs. if CONTROLLER_PROFILE_MAX_BYTES < length bs then Inl (PeDocumentBytes (length bs))
              else Inr bs))"

section \<open>Resolution\<close>

record resolved_binding =
  rb_id :: u16
  rb_source :: midi_input_source
  rb_channel :: midi_channel_filter
  rb_encoding :: midi_value_encoding
  rb_button_mode :: "midi_button_mode option"
  rb_press_threshold :: u8
  rb_relative_step :: f32
  rb_target :: runtime_control_address
  rb_feedback :: "midi_output_message option"

record resolved_profile =
  rp_name :: rstr
  rp_input :: midi_device_selector
  rp_output :: midi_device_selector
  rp_bindings :: "resolved_binding list"

fun resolve_bindings ::
  "midi_channel_filter \<Rightarrow> (layer_position \<Rightarrow> stable_layer_id option) \<Rightarrow> (scene_id \<Rightarrow> bool) \<Rightarrow>
   controller_binding list \<Rightarrow> profile_error + resolved_binding list" where
  "resolve_bindings channel layer_at scene_exists [] = Inr []"
| "resolve_bindings channel layer_at scene_exists (b # bs) =
     rbind (address_resolve (cb_target b) layer_at scene_exists) (\<lambda>target.
       rbind (resolve_bindings channel layer_at scene_exists bs) (\<lambda>rest. Inr
        (\<lparr>rb_id = cb_id b, rb_source = cb_source b, rb_channel = unwrap_or (cb_channel b) channel,
          rb_encoding = cb_encoding b, rb_button_mode = cb_button_mode b,
          rb_press_threshold = cb_press_threshold b, rb_relative_step = cb_relative_step b,
          rb_target = target, rb_feedback = cb_feedback b\<rparr> # rest)))"

definition resolve_with_scenes ::
  "profile_document \<Rightarrow> (layer_position \<Rightarrow> stable_layer_id option) \<Rightarrow> (scene_id \<Rightarrow> bool) \<Rightarrow>
   profile_error + resolved_profile" where
  "resolve_with_scenes d layer_at scene_exists =
     rbind (document_validate d) (\<lambda>_.
       rbind (resolve_bindings (pd_channel d) layer_at scene_exists (pd_bindings d)) (\<lambda>bindings. Inr
         \<lparr>rp_name = pd_name d, rp_input = pd_input d, rp_output = pd_output d, rp_bindings = bindings\<rparr>))"

definition resolve_profile ::
  "profile_document \<Rightarrow> (layer_position \<Rightarrow> stable_layer_id option) \<Rightarrow> profile_error + resolved_profile"
  where
  "resolve_profile d layer_at = resolve_with_scenes d layer_at (\<lambda>_. False)"

definition resolved_legacy_four_cc :: "profile_error + resolved_profile" where
  "resolved_legacy_four_cc = resolve_profile legacy_four_cc (\<lambda>_. None)"

fun resolved_validate_bindings ::
  "u16 set \<Rightarrow> nat \<Rightarrow> resolved_binding list \<Rightarrow> profile_error + nat" where
  "resolved_validate_bindings ids count [] = Inr count"
| "resolved_validate_bindings ids count (b # bs) =
     (if rb_id b = 0 \<or> rb_id b \<in> ids then Inl (PeBindingId (rb_id b))
      else rbind (source_validate (rb_source b)) (\<lambda>_. rbind (channel_validate (rb_channel b)) (\<lambda>_.
        if \<not> (1 \<le> rb_press_threshold b \<and> rb_press_threshold b \<le> 127)
        then Inl (PePressThreshold (rb_id b))
        else rbind (binding_law_check (rb_id b) (rb_source b) (rb_encoding b) (rb_button_mode b)
                      (rb_relative_step b) (runtime_is_scene_action (rb_target b)) (rb_feedback b) count)
          (\<lambda>count'. resolved_validate_bindings (insert (rb_id b) ids) count' bs))))"

definition resolved_validate :: "resolved_profile \<Rightarrow> profile_error + unit" where
  "resolved_validate r =
     (if profile_name_bad (rp_name r) then Inl PeProfileName
      else rbind (device_validate (rp_input r)) (\<lambda>_. rbind (device_validate (rp_output r)) (\<lambda>_.
        if CONTROLLER_PROFILE_MAX_BINDINGS < length (rp_bindings r)
        then Inl (PeBindingCount (length (rp_bindings r)))
        else rbind (resolved_validate_bindings {} 0 (rp_bindings r)) (\<lambda>feedback.
          if CONTROLLER_PROFILE_MAX_FEEDBACK_BINDINGS < feedback then Inl (PeFeedbackCount feedback)
          else Inr ()))))"

definition feedback_bytes :: "resolved_profile \<Rightarrow> runtime_control_address \<Rightarrow> f32 \<Rightarrow> (bytes \<times> u16) list"
  where
  "feedback_bytes r address v = List.map_filter (\<lambda>b.
     case rb_feedback b of
       None \<Rightarrow> None
     | Some message \<Rightarrow> if rb_target b = address
         then (case output_bytes message v of Inr bs \<Rightarrow> Some (bs, rb_id b) | Inl e \<Rightarrow> None)
         else None) (rp_bindings r)"

section \<open>Import, export and the prepared swap\<close>

datatype profile_action = ImportProfile profile_document | ExportProfile

definition action_decode_json ::
  "(bytes \<Rightarrow> rstr + profile_action) \<Rightarrow> bytes \<Rightarrow> profile_error + profile_action" where
  "action_decode_json parse bs =
     (if CONTROLLER_PROFILE_ACTION_MAX_BYTES < length bs then Inl (PeActionBytes (length bs))
      else case parse bs of Inl e \<Rightarrow> Inl (PeJson e) | Inr a \<Rightarrow> Inr a)"

definition action_check ::
  "(profile_document \<Rightarrow> rstr + bytes) \<Rightarrow> profile_action \<Rightarrow> profile_error + unit" where
  "action_check print_doc a =
     (case a of ImportProfile d \<Rightarrow> rbind (document_to_json print_doc d) (\<lambda>_. Inr ())
      | ExportProfile \<Rightarrow> Inr ())"

definition action_from_json ::
  "(bytes \<Rightarrow> rstr + profile_action) \<Rightarrow> (profile_document \<Rightarrow> rstr + bytes) \<Rightarrow> bytes \<Rightarrow>
   profile_error + profile_action" where
  "action_from_json parse print_doc bs =
     rbind (action_decode_json parse bs) (\<lambda>a. rbind (action_check print_doc a) (\<lambda>_. Inr a))"

definition action_to_json ::
  "(profile_action \<Rightarrow> rstr + bytes) \<Rightarrow> (profile_document \<Rightarrow> rstr + bytes) \<Rightarrow> profile_action \<Rightarrow>
   profile_error + bytes" where
  "action_to_json print print_doc a =
     rbind (action_check print_doc a) (\<lambda>_.
       rbind (case print a of Inl e \<Rightarrow> Inl (PeJson e) | Inr bs \<Rightarrow> Inr bs)
        (\<lambda>bs. if CONTROLLER_PROFILE_ACTION_MAX_BYTES < length bs then Inl (PeActionBytes (length bs))
              else Inr bs))"

record prepared_swap =
  sw_document :: profile_document
  sw_runtime :: resolved_profile

definition prepare_swap ::
  "profile_document \<Rightarrow> (layer_position \<Rightarrow> stable_layer_id option) \<Rightarrow> profile_error + prepared_swap" where
  "prepare_swap d layer_at =
     rbind (resolve_profile d layer_at) (\<lambda>r. Inr \<lparr>sw_document = d, sw_runtime = r\<rparr>)"

definition prepare_swap_with_scenes ::
  "profile_document \<Rightarrow> (layer_position \<Rightarrow> stable_layer_id option) \<Rightarrow> (scene_id \<Rightarrow> bool) \<Rightarrow>
   profile_error + prepared_swap" where
  "prepare_swap_with_scenes d layer_at scene_exists =
     rbind (resolve_with_scenes d layer_at scene_exists) (\<lambda>r. Inr \<lparr>sw_document = d, sw_runtime = r\<rparr>)"

definition prepare_json_import ::
  "(bytes \<Rightarrow> rstr + profile_document) \<Rightarrow> bytes \<Rightarrow> (layer_position \<Rightarrow> stable_layer_id option) \<Rightarrow>
   profile_error + prepared_swap" where
  "prepare_json_import parse bs layer_at =
     rbind (document_from_json parse bs) (\<lambda>d. prepare_swap d layer_at)"

definition prepare_json_import_with_scenes ::
  "(bytes \<Rightarrow> rstr + profile_document) \<Rightarrow> bytes \<Rightarrow> (layer_position \<Rightarrow> stable_layer_id option) \<Rightarrow>
   (scene_id \<Rightarrow> bool) \<Rightarrow> profile_error + prepared_swap" where
  "prepare_json_import_with_scenes parse bs layer_at scene_exists =
     rbind (document_from_json parse bs) (\<lambda>d. prepare_swap_with_scenes d layer_at scene_exists)"

end
