(* ===== verification/Controller_Decoder.thy ===== *)
theory Controller_Decoder
  imports Control_Profile
begin

text \<open>
  The decoder of \<open>src/src/controller_profile.rs\<close>: complete MIDI messages to control events, under a
  ceiling on the caller's event vector.  The hidden button states are a map from binding
  identities, the report counts what a message did.
\<close>

datatype midi_transport_event = MtStart | MtContinue | MtStop | MtClock

datatype controller_event_kind =
    EkControl u16 runtime_control_address automation_value
  | EkTransport midi_transport_event

record controller_event =
  ce_timestamp :: u64
  ce_origin :: automation_origin
  ce_kind :: controller_event_kind

record decode_report =
  dr_matched :: nat
  dr_emitted :: nat
  dr_dropped :: nat
  dr_state_changed :: bool

definition decode_report_default :: decode_report where
  "decode_report_default = \<lparr>dr_matched = 0, dr_emitted = 0, dr_dropped = 0, dr_state_changed = False\<rparr>"

definition is_well_formed_controller_midi :: "bytes \<Rightarrow> bool" where
  "is_well_formed_controller_midi message =
     (case message of [] \<Rightarrow> False
      | status # data \<Rightarrow>
          if status \<in> {0xF8, 0xFA, 0xFB, 0xFC} then length message = 1
          else if status AND 0xF0 \<in> {0x80, 0x90, 0xB0}
            then length message = 3 \<and> message ! 1 < 0x80 \<and> message ! 2 < 0x80
          else False)"

record button_state =
  bs_pressed :: bool
  bs_toggled :: bool

definition button_state_default :: button_state where
  "button_state_default = \<lparr>bs_pressed = False, bs_toggled = False\<rparr>"

record controller_decoder =
  cd_profile :: resolved_profile
  cd_buttons :: "u16 \<rightharpoonup> button_state"

definition decoder_new :: "resolved_profile \<Rightarrow> controller_decoder" where
  "decoder_new p = \<lparr>cd_profile = p, cd_buttons = Map.empty\<rparr>"

definition replace_profile :: "controller_decoder \<Rightarrow> resolved_profile \<Rightarrow> controller_decoder" where
  "replace_profile d p = d\<lparr>cd_profile := p, cd_buttons := Map.empty\<rparr>"

definition transport_of_status :: "u8 \<Rightarrow> midi_transport_event option" where
  "transport_of_status status =
     (if status = 0xFA then Some MtStart else if status = 0xFB then Some MtContinue
      else if status = 0xFC then Some MtStop else if status = 0xF8 then Some MtClock else None)"

fun relative_delta :: "midi_value_encoding \<Rightarrow> u8 \<Rightarrow> int" where
  "relative_delta EncAbsolute raw = 0"
| "relative_delta EncRelativeTwosComplement raw =
     (if 1 \<le> raw \<and> raw \<le> 63 then uint raw
      else if 65 \<le> raw \<and> raw \<le> 127 then uint raw - 128 else 0)"
| "relative_delta EncRelativeBinaryOffset raw = uint raw - 64"
| "relative_delta EncRelativeSignMagnitude raw =
     (let magnitude = uint (raw AND 0x3F) in if raw AND 0x40 = 0 then magnitude else - magnitude)"

definition decode_continuous :: "midi_value_encoding \<Rightarrow> u8 \<Rightarrow> f32 \<Rightarrow> automation_value option" where
  "decode_continuous encoding raw step =
     (if encoding = EncAbsolute
      then Some (AvAbsolute (f32_div (f32_of_nat (unat raw)) (f32_of_nat 127)))
      else let delta = relative_delta encoding raw in
        if delta \<noteq> 0
        then Some (AvDelta (f32_clamp F32_MINUS_ONE F32_ONE (f32_mul (f32_of_int delta) step)))
        else None)"

fun source_matches :: "midi_input_source \<Rightarrow> u8 \<Rightarrow> u8 \<Rightarrow> bool" where
  "source_matches (SrcControlChange controller) family number = (family = 0xB0 \<and> controller = number)"
| "source_matches (SrcNote note) family number = (family \<in> {0x80, 0x90} \<and> note = number)"

definition binding_matches :: "resolved_binding \<Rightarrow> u8 \<Rightarrow> u8 \<Rightarrow> u8 \<Rightarrow> bool" where
  "binding_matches b family channel number \<longleftrightarrow>
     channel_matches (rb_channel b) channel \<and> source_matches (rb_source b) family number"

fun source_pressed :: "midi_input_source \<Rightarrow> u8 \<Rightarrow> u8 \<Rightarrow> u8 \<Rightarrow> bool" where
  "source_pressed (SrcNote n) threshold family raw = (family = 0x90 \<and> 0 < raw)"
| "source_pressed (SrcControlChange c) threshold family raw = (threshold \<le> raw)"

text \<open>The button law: the value to emit and the candidate state, from the prior state.\<close>

definition button_edge ::
  "midi_button_mode \<Rightarrow> bool \<Rightarrow> button_state \<Rightarrow> automation_value option \<times> button_state" where
  "button_edge mode pressed prior =
     (let rising = (pressed \<and> \<not> bs_pressed prior);
          changed = (pressed \<noteq> bs_pressed prior);
          candidate = prior\<lparr>bs_pressed := pressed\<rparr>
      in case mode of
           Momentary \<Rightarrow> (if rising then Some AvTrigger else None, candidate)
         | Toggle \<Rightarrow> if rising
             then (Some (AvGate (\<not> bs_toggled candidate)),
                   candidate\<lparr>bs_toggled := \<not> bs_toggled candidate\<rparr>)
             else (None, candidate)
         | Gate \<Rightarrow> (if changed then Some (AvGate pressed) else None, candidate))"

definition binding_value ::
  "(u16 \<rightharpoonup> button_state) \<Rightarrow> u8 \<Rightarrow> u8 \<Rightarrow> resolved_binding \<Rightarrow>
   automation_value option \<times> (button_state \<times> button_state) option" where
  "binding_value buttons family raw b =
     (case rb_button_mode b of
        Some mode \<Rightarrow>
          (let pressed = source_pressed (rb_source b) (rb_press_threshold b) family raw;
               prior = unwrap_or (buttons (rb_id b)) button_state_default
           in case button_edge mode pressed prior of (v, candidate) \<Rightarrow> (v, Some (prior, candidate)))
      | None \<Rightarrow> (decode_continuous (rb_encoding b) raw (rb_relative_step b), None))"

definition commit_button ::
  "u16 \<Rightarrow> (button_state \<times> button_state) option \<Rightarrow> (u16 \<rightharpoonup> button_state) \<times> decode_report \<Rightarrow>
   (u16 \<rightharpoonup> button_state) \<times> decode_report" where
  "commit_button bid change st =
     (case change of
        None \<Rightarrow> st
      | Some (prior, candidate) \<Rightarrow>
          if candidate \<noteq> prior
          then ((fst st)(bid \<mapsto> candidate), (snd st)\<lparr>dr_state_changed := True\<rparr>) else st)"

type_synonym decode_state = "(u16 \<rightharpoonup> button_state) \<times> controller_event list \<times> decode_report"

text \<open>One turn of the loop over the bindings of the profile.\<close>

definition decode_binding ::
  "u64 \<Rightarrow> u8 \<Rightarrow> u8 \<Rightarrow> u8 \<Rightarrow> u8 \<Rightarrow> nat \<Rightarrow> decode_state \<Rightarrow> resolved_binding \<Rightarrow> decode_state" where
  "decode_binding timestamp family channel number raw limit st b =
     (case st of (buttons, output, report0) \<Rightarrow>
      if \<not> binding_matches b family channel number then st
      else
        (let report = report0\<lparr>dr_matched := dr_matched report0 + 1\<rparr> in
         case binding_value buttons family raw b of
           (Some v, change) \<Rightarrow>
             if length output < limit then
               (let event = \<lparr>ce_timestamp = timestamp, ce_origin = OriginMidi,
                      ce_kind = EkControl (rb_id b) (rb_target b) v\<rparr>
                in case commit_button (rb_id b) change
                     (buttons, report\<lparr>dr_emitted := dr_emitted report + 1\<rparr>) of
                   (buttons', report') \<Rightarrow> (buttons', output @ [event], report'))
             else (buttons, output, report\<lparr>dr_dropped := dr_dropped report + 1\<rparr>)
         | (None, change) \<Rightarrow>
             (case commit_button (rb_id b) change (buttons, report) of
                (buttons', report') \<Rightarrow> (buttons', output, report'))))"

definition decode_bounded ::
  "controller_decoder \<Rightarrow> u64 \<Rightarrow> bytes \<Rightarrow> controller_event list \<Rightarrow> nat \<Rightarrow>
   controller_decoder \<times> controller_event list \<times> decode_report" where
  "decode_bounded d timestamp message output limit =
     (if \<not> is_well_formed_controller_midi message then (d, output, decode_report_default)
      else let status = message ! 0 in
      case transport_of_status status of
        Some transport \<Rightarrow>
          if length output < limit
          then (d, output @ [\<lparr>ce_timestamp = timestamp, ce_origin = OriginMidi,
                              ce_kind = EkTransport transport\<rparr>],
                decode_report_default\<lparr>dr_matched := 1, dr_emitted := 1\<rparr>)
          else (d, output, decode_report_default\<lparr>dr_matched := 1, dr_dropped := 1\<rparr>)
      | None \<Rightarrow>
          (case foldl (decode_binding timestamp (status AND 0xF0) (status AND 0x0F) (message ! 1)
                         (message ! 2) limit)
                  (cd_buttons d, output, decode_report_default) (rp_bindings (cd_profile d)) of
             (buttons, output', report) \<Rightarrow> (d\<lparr>cd_buttons := buttons\<rparr>, output', report)))"

definition USIZE_MAX :: nat where "USIZE_MAX = 2 ^ 64 - 1"

definition decode_unbounded ::
  "controller_decoder \<Rightarrow> u64 \<Rightarrow> bytes \<Rightarrow> controller_event list \<Rightarrow> controller_decoder \<times> controller_event list"
  where
  "decode_unbounded d timestamp message output =
     (case decode_bounded d timestamp message output USIZE_MAX of (d', output', r) \<Rightarrow> (d', output'))"

end
