(* ===== verification/Controller_Laws.thy ===== *)
theory Controller_Laws
  imports Controller_Decoder
begin

text \<open>
  What controller profiles and their decoder promise: validation is a plain conjunction of laws, a
  resolved profile passes its own validation, a message is one transaction of events and hidden
  edges, buttons follow their edge laws over whole message sequences, and emitted values are
  bounded and survive the trip back to the device.
\<close>

section \<open>Validation as a conjunction of laws\<close>

definition channel_ok :: "midi_channel_filter \<Rightarrow> bool" where
  "channel_ok c \<longleftrightarrow> (case c of Omni \<Rightarrow> True | ExactChannel n \<Rightarrow> 1 \<le> n \<and> n \<le> 16)"

definition output_ok :: "midi_output_message \<Rightarrow> bool" where
  "output_ok m \<longleftrightarrow> (case output_parts m of (channel, data, family) \<Rightarrow> 1 \<le> channel \<and> channel \<le> 16 \<and> data \<le> 127)"

definition device_ok :: "midi_device_selector \<Rightarrow> bool" where
  "device_ok s \<longleftrightarrow> (case s of FirstAvailable \<Rightarrow> True
     | ExactDevice name \<Rightarrow> name \<noteq> [] \<and> str_len name \<le> 256 \<and> (\<forall>c \<in> set name. \<not> char_is_control c))"

definition law_ok ::
  "midi_input_source \<Rightarrow> midi_value_encoding \<Rightarrow> midi_button_mode option \<Rightarrow> f32 \<Rightarrow> bool \<Rightarrow>
   midi_output_message option \<Rightarrow> bool" where
  "law_ok source encoding button step scene_action feedback \<longleftrightarrow>
     f32_unit step \<and> (encoding \<noteq> EncAbsolute \<longrightarrow> f32_lt F32_ZERO step) \<and>
     (\<forall>n. source = SrcNote n \<longrightarrow> button \<noteq> None) \<and> (button \<noteq> None \<longrightarrow> encoding = EncAbsolute) \<and>
     (scene_action \<longrightarrow> button = Some Momentary) \<and> (\<forall>m. feedback = Some m \<longrightarrow> output_ok m)"

definition binding_ok :: "controller_binding \<Rightarrow> bool" where
  "binding_ok b \<longleftrightarrow> cb_id b \<noteq> 0 \<and> source_number (cb_source b) \<le> 127 \<and>
     1 \<le> cb_press_threshold b \<and> cb_press_threshold b \<le> 127 \<and>
     (\<forall>c. cb_channel b = Some c \<longrightarrow> channel_ok c) \<and>
     law_ok (cb_source b) (cb_encoding b) (cb_button_mode b) (cb_relative_step b)
       (saved_is_scene_action (cb_target b)) (cb_feedback b)"

definition resolved_binding_ok :: "resolved_binding \<Rightarrow> bool" where
  "resolved_binding_ok b \<longleftrightarrow> rb_id b \<noteq> 0 \<and> source_number (rb_source b) \<le> 127 \<and>
     1 \<le> rb_press_threshold b \<and> rb_press_threshold b \<le> 127 \<and> channel_ok (rb_channel b) \<and>
     law_ok (rb_source b) (rb_encoding b) (rb_button_mode b) (rb_relative_step b)
       (runtime_is_scene_action (rb_target b)) (rb_feedback b)"

lemma unit_Inr: "r = Inr () \<longleftrightarrow> (\<exists>x. r = Inr x)" for r :: "'e + unit"
  by auto

lemma channel_validate_ok: "channel_validate c = Inr x \<longleftrightarrow> channel_ok c"
  by (cases c) (auto simp: channel_ok_def)

lemma source_validate_ok: "source_validate s = Inr x \<longleftrightarrow> source_number s \<le> 127"
  by (auto simp: source_validate_def)

lemma device_validate_ok: "device_validate s = Inr x \<longleftrightarrow> device_ok s"
  by (cases s) (auto simp: device_ok_def CONTROLLER_DEVICE_NAME_MAX_BYTES_def list_ex_iff not_less)

lemma output_bytes_ok: "f32_is_finite v \<Longrightarrow> (\<exists>bs. output_bytes m v = Inr bs) \<longleftrightarrow> output_ok m"
  by (auto simp: output_bytes_def output_ok_def Let_def split: prod.splits)

lemma f32_not_le_zero: "f32_unit x \<Longrightarrow> \<not> f32_le x F32_ZERO \<longleftrightarrow> f32_lt F32_ZERO x"
  by (auto simp: f32_unit_def f32_le_def f32_lt_def)

lemma binding_law_ok:
  "binding_law_check bid source encoding button step sa feedback n = Inr m \<longleftrightarrow>
     law_ok source encoding button step sa feedback \<and> m = n + (if feedback = None then 0 else 1)"
proof -
  have o: "(\<exists>x. output_bytes f F32_ZERO = Inr x) \<longleftrightarrow> output_ok f" for f by (rule output_bytes_ok) simp
  have A: "(\<not> f32_is_finite step \<or> \<not> (f32_le F32_ZERO step \<and> f32_le step CONTROLLER_RELATIVE_STEP_MAX) \<or>
      (encoding \<noteq> EncAbsolute \<and> f32_le step F32_ZERO)) \<longleftrightarrow>
      \<not> (f32_unit step \<and> (encoding \<noteq> EncAbsolute \<longrightarrow> f32_lt F32_ZERO step))"
    using f32_not_le_zero [of step] by (auto simp: f32_unit_def CONTROLLER_RELATIVE_STEP_MAX_def)
  have B: "((case source of SrcNote n \<Rightarrow> True | _ \<Rightarrow> False) \<and> button = None) \<longleftrightarrow>
      \<not> (\<forall>n. source = SrcNote n \<longrightarrow> button \<noteq> None)"
    by (cases source) auto
  show ?thesis
    unfolding binding_law_check_def A B law_ok_def
    by (cases feedback) (auto simp: rbind_Inr o)
qed

definition feedback_count :: "midi_output_message option list \<Rightarrow> nat" where
  "feedback_count fs = length (filter (\<lambda>f. f \<noteq> None) fs)"

lemma document_bindings_ok:
  "document_validate_bindings ids n bs = Inr m \<longleftrightarrow>
     (\<forall>b \<in> set bs. binding_ok b \<and> cb_id b \<notin> ids) \<and> distinct (map cb_id bs) \<and>
     m = n + feedback_count (map cb_feedback bs)"
proof (induction bs arbitrary: ids n)
  case Nil
  show ?case by (auto simp: feedback_count_def)
next
  case (Cons b bs)
  have ch: "(case cb_channel b of None \<Rightarrow> Inr () | Some c \<Rightarrow> channel_validate c) = Inr x \<longleftrightarrow>
      (\<forall>c. cb_channel b = Some c \<longrightarrow> channel_ok c)" for x
    by (cases "cb_channel b") (simp_all add: channel_validate_ok)
  show ?case
    by (auto simp: rbind_Inr source_validate_ok ch binding_law_ok Cons.IH binding_ok_def feedback_count_def
        not_le image_iff simp flip: not_less)
qed

lemma resolved_bindings_ok:
  "resolved_validate_bindings ids n bs = Inr m \<longleftrightarrow>
     (\<forall>b \<in> set bs. resolved_binding_ok b \<and> rb_id b \<notin> ids) \<and> distinct (map rb_id bs) \<and>
     m = n + feedback_count (map rb_feedback bs)"
proof (induction bs arbitrary: ids n)
  case Nil
  show ?case by (auto simp: feedback_count_def)
next
  case (Cons b bs)
  show ?case
    by (auto simp: rbind_Inr source_validate_ok channel_validate_ok binding_law_ok Cons.IH
        resolved_binding_ok_def feedback_count_def not_le image_iff simp flip: not_less)
qed

lemma feedback_count_le: "feedback_count (map f bs) \<le> length bs"
  by (metis feedback_count_def length_filter_le length_map)

lemma document_validate_ok:
  "document_validate d = Inr () \<longleftrightarrow>
     pd_version d = 1 \<and> \<not> profile_name_bad (pd_name d) \<and> device_ok (pd_input d) \<and> device_ok (pd_output d) \<and>
     channel_ok (pd_channel d) \<and> length (pd_bindings d) \<le> 256 \<and> distinct (map cb_id (pd_bindings d)) \<and>
     (\<forall>b \<in> set (pd_bindings d). binding_ok b)"
proof -
  have fb: "m \<le> 256"
    if "document_validate_bindings {} 0 (pd_bindings d) = Inr m" "length (pd_bindings d) \<le> 256" for m
    using that feedback_count_le [of cb_feedback "pd_bindings d"] by (simp add: document_bindings_ok)
  have "document_validate d = Inr () \<longleftrightarrow>
     pd_version d = 1 \<and> \<not> profile_name_bad (pd_name d) \<and> device_ok (pd_input d) \<and> device_ok (pd_output d) \<and>
     channel_ok (pd_channel d) \<and> length (pd_bindings d) \<le> 256 \<and>
     (\<exists>m. document_validate_bindings {} 0 (pd_bindings d) = Inr m)"
    using fb by (auto simp: document_validate_def rbind_Inr device_validate_ok channel_validate_ok
        CONTROLLER_PROFILE_VERSION_def CONTROLLER_PROFILE_MAX_BINDINGS_def
        CONTROLLER_PROFILE_MAX_FEEDBACK_BINDINGS_def not_less)
  then show ?thesis by (auto simp: document_bindings_ok)
qed

lemma feedback_count_unreachable: "document_validate d \<noteq> Inl (PeFeedbackCount n)"
proof -
  have out: "output_bytes m v \<noteq> Inl (PeFeedbackCount k)" for m v k
    by (auto simp: output_bytes_def Let_def split: prod.splits)
  have law: "binding_law_check i s e bt st sa fb c \<noteq> Inl (PeFeedbackCount k)" for i s e bt st sa fb c k
    by (auto simp: binding_law_check_def rbind_Inl out split: option.splits)
  have ch: "channel_validate c \<noteq> Inl (PeFeedbackCount k)" for c k by (cases c) auto
  have dev: "device_validate c \<noteq> Inl (PeFeedbackCount k)" for c k by (cases c) auto
  have bs: "document_validate_bindings ids c bs \<noteq> Inl (PeFeedbackCount k)" for ids c bs k
    by (induction bs arbitrary: ids c)
      (auto simp: rbind_Inl law ch source_validate_def split: option.splits)
  have fb: "m \<le> 256"
    if "document_validate_bindings {} 0 (pd_bindings d) = Inr m" "length (pd_bindings d) \<le> 256" for m
    using that feedback_count_le [of cb_feedback "pd_bindings d"] by (simp add: document_bindings_ok)
  show ?thesis
    using fb by (auto simp: document_validate_def rbind_Inl dev ch bs CONTROLLER_PROFILE_MAX_BINDINGS_def
        CONTROLLER_PROFILE_MAX_FEEDBACK_BINDINGS_def not_less split: if_splits)
qed

text \<open>C39. A profile document is accepted exactly when its version and texts are good and its bindings
  obey the binding laws with pairwise different identities; the separate limit on feedback
  bindings can never be the reason of a refusal, since it equals the limit on bindings.\<close>

theorem profile_validation_exact:
  "(document_validate d = Inr () \<longleftrightarrow>
     pd_version d = 1 \<and> \<not> profile_name_bad (pd_name d) \<and> device_ok (pd_input d) \<and> device_ok (pd_output d) \<and>
     channel_ok (pd_channel d) \<and> length (pd_bindings d) \<le> 256 \<and> distinct (map cb_id (pd_bindings d)) \<and>
     (\<forall>b \<in> set (pd_bindings d). binding_ok b)) \<and>
   document_validate d \<noteq> Inl (PeFeedbackCount n)"
  using document_validate_ok feedback_count_unreachable by (intro conjI)

lemma f32_units_one: "f32_units (f32_magnitude F32_ONE) = 2 ^ 149" "\<not> f32_sign F32_ONE"
  by (simp_all add: f32_units_def f32_magnitude_def f32_sign_def F32_ONE_def)

lemma default_step_unit: "f32_unit (f32_div F32_ONE (f32_of_nat 127))"
  using f32_of_nat_exact [of 127] f32_units_one by (intro f32_div_unit) simp_all

lemma legacy_bindings_ok: "\<forall>b \<in> set (pd_bindings legacy_four_cc). binding_ok b"
  by (simp add: legacy_four_cc_def controller_binding_default_def binding_ok_def law_ok_def default_step_unit)

lemma legacy_fields:
  "pd_version legacy_four_cc = 1" "pd_input legacy_four_cc = FirstAvailable"
  "pd_output legacy_four_cc = FirstAvailable" "pd_channel legacy_four_cc = Omni"
  "map cb_id (pd_bindings legacy_four_cc) = [1, 2, 3, 4]" "length (pd_bindings legacy_four_cc) = 4"
  "\<not> profile_name_bad (pd_name legacy_four_cc)"
  by (simp_all add: legacy_four_cc_def CONTROLLER_PROFILE_VERSION_def profile_name_bad_def lit_def str_len_def
      utf8_def utf8_char.simps CONTROLLER_PROFILE_MAX_NAME_BYTES_def char_is_control_def)

theorem profile_validation_exact_witness:
  "document_validate legacy_four_cc = Inr () \<and>
   document_validate (legacy_four_cc\<lparr>pd_bindings := replicate 2 controller_binding_default\<rparr>) \<noteq> Inr ()"
proof
  show "document_validate legacy_four_cc = Inr ()"
    using profile_validation_exact [of legacy_four_cc] legacy_fields legacy_bindings_ok
    by (simp add: device_ok_def channel_ok_def)
  show "document_validate (legacy_four_cc\<lparr>pd_bindings := replicate 2 controller_binding_default\<rparr>) \<noteq> Inr ()"
    using profile_validation_exact [of "legacy_four_cc\<lparr>pd_bindings := replicate 2 controller_binding_default\<rparr>"]
    by (simp add: numeral_2_eq_2)
qed

section \<open>Resolution\<close>

lemma resolve_scene_action:
  "address_resolve t la se = Inr t' \<Longrightarrow> runtime_is_scene_action t' = saved_is_scene_action t"
  by (cases t) (auto simp: rbind_Inr split: if_splits)

lemma resolve_bindings_ok:
  "resolve_bindings ch la se bs = Inr rs \<Longrightarrow> channel_ok ch \<Longrightarrow> \<forall>b \<in> set bs. binding_ok b \<Longrightarrow>
   map rb_id rs = map cb_id bs \<and> map rb_feedback rs = map cb_feedback bs \<and>
   (\<forall>r \<in> set rs. resolved_binding_ok r) \<and>
   list_all2 (\<lambda>b r. address_resolve (cb_target b) la se = Inr (rb_target r)) bs rs"
proof (induction bs arbitrary: rs)
  case (Cons b bs)
  then obtain t rest where t: "address_resolve (cb_target b) la se = Inr t"
    and r: "resolve_bindings ch la se bs = Inr rest"
    and rs: "rs = \<lparr>rb_id = cb_id b, rb_source = cb_source b, rb_channel = unwrap_or (cb_channel b) ch,
          rb_encoding = cb_encoding b, rb_button_mode = cb_button_mode b,
          rb_press_threshold = cb_press_threshold b, rb_relative_step = cb_relative_step b,
          rb_target = t, rb_feedback = cb_feedback b\<rparr> # rest"
    by (auto simp: rbind_Inr)
  have "channel_ok (unwrap_or (cb_channel b) ch)"
    using Cons.prems by (cases "cb_channel b") (auto simp: unwrap_or_def binding_ok_def)
  with Cons.prems Cons.IH [OF r] t show ?case
    by (simp add: rs binding_ok_def resolved_binding_ok_def resolve_scene_action)
qed simp

text \<open>What resolution looks up: the layer positions and scenes that an address names, and the bound of a legacy slot.  The
  identities of groups and of nodes are copied, never looked up.\<close>

fun target_known :: "(layer_position \<Rightarrow> stable_layer_id option) \<Rightarrow> (scene_id \<Rightarrow> bool) \<Rightarrow> saved_control_address \<Rightarrow> bool"
  where
  "target_known la se (ScLegacyMidiSlot s) = (s < 4)"
| "target_known la se (ScLayer p c) = (la p \<noteq> None)"
| "target_known la se (ScNode (SnLayer p) n c) = (la p \<noteq> None)"
| "target_known la se (ScScenePrepare s) = se s"
| "target_known la se (ScSceneTrigger s) = se s"
| "target_known la se _ = True"

text \<open>The live form of a known target, and of a whole profile: layer positions become the stable identities found there,
  the channel of the profile stands in for a missing one, everything else is copied.\<close>

fun live_target :: "(layer_position \<Rightarrow> stable_layer_id option) \<Rightarrow> saved_control_address \<Rightarrow> runtime_control_address" where
  "live_target la (ScLegacyMidiSlot s) = RcLegacyMidiSlot s"
| "live_target la (ScMaster c) = RcMaster c"
| "live_target la (ScLayer p c) = RcLayer (the (la p)) c"
| "live_target la (ScGroup g c) = RcGroup g c"
| "live_target la (ScNode SnMaster n c) = RcNode RnMaster n c"
| "live_target la (ScNode (SnLayer p) n c) = RcNode (RnLayer (the (la p))) n c"
| "live_target la (ScNode (SnGroup g) n c) = RcNode (RnGroup g) n c"
| "live_target la (ScTransport c) = RcTransport c"
| "live_target la (ScScenePrepare s) = RcScenePrepare s"
| "live_target la (ScSceneTrigger s) = RcSceneTrigger s"

definition live_binding ::
  "(layer_position \<Rightarrow> stable_layer_id option) \<Rightarrow> midi_channel_filter \<Rightarrow> controller_binding \<Rightarrow> resolved_binding" where
  "live_binding la channel b = \<lparr>rb_id = cb_id b, rb_source = cb_source b,
     rb_channel = (case cb_channel b of None \<Rightarrow> channel | Some c \<Rightarrow> c), rb_encoding = cb_encoding b,
     rb_button_mode = cb_button_mode b, rb_press_threshold = cb_press_threshold b, rb_relative_step = cb_relative_step b,
     rb_target = live_target la (cb_target b), rb_feedback = cb_feedback b\<rparr>"

definition live_profile :: "(layer_position \<Rightarrow> stable_layer_id option) \<Rightarrow> profile_document \<Rightarrow> resolved_profile" where
  "live_profile la d = \<lparr>rp_name = pd_name d, rp_input = pd_input d, rp_output = pd_output d,
     rp_bindings = map (live_binding la (pd_channel d)) (pd_bindings d)\<rparr>"

lemma address_resolve_Inr: "address_resolve a la se = Inr t \<longleftrightarrow> target_known la se a \<and> t = live_target la a"
proof (cases a)
  case (ScNode scope n c)
  then show ?thesis by (cases scope) (auto simp: rbind_Inr ok_or_def split: option.splits)
qed (auto simp: rbind_Inr ok_or_def split: option.splits)

lemma resolve_bindings_Inr:
  "resolve_bindings channel la se bs = Inr rs \<longleftrightarrow>
     (\<forall>b \<in> set bs. target_known la se (cb_target b)) \<and> rs = map (live_binding la channel) bs"
  by (induction bs arbitrary: rs)
    (auto simp: rbind_Inr address_resolve_Inr live_binding_def unwrap_or_def split: option.splits)

text \<open>C40. What resolution does, exactly: a document resolves against a live world if and only if it is valid and every layer
  position and every scene that a binding names exists there and every legacy slot is one of the four (groups and nodes
  are not looked up, so a binding to an absent group resolves); the result is then the live form of the document, binding by binding, with the
  binding's own channel or else the profile's, its feedback and its target, and it passes its own validation.\<close>

theorem resolution_sound_complete:
  "(resolve_with_scenes d la se = Inr r \<longleftrightarrow>
     document_validate d = Inr () \<and> (\<forall>b \<in> set (pd_bindings d). target_known la se (cb_target b)) \<and> r = live_profile la d) \<and>
   (resolve_with_scenes d la se = Inr r \<longrightarrow> resolved_validate r = Inr ())"
proof (intro conjI impI)
  show "resolve_with_scenes d la se = Inr r \<longleftrightarrow>
     document_validate d = Inr () \<and> (\<forall>b \<in> set (pd_bindings d). target_known la se (cb_target b)) \<and> r = live_profile la d"
    by (auto simp: resolve_with_scenes_def rbind_Inr resolve_bindings_Inr live_profile_def)
next
  assume "resolve_with_scenes d la se = Inr r"
  then obtain rs where v: "document_validate d = Inr ()"
    and rs: "resolve_bindings (pd_channel d) la se (pd_bindings d) = Inr rs"
    and r: "r = \<lparr>rp_name = pd_name d, rp_input = pd_input d, rp_output = pd_output d, rp_bindings = rs\<rparr>"
    by (auto simp: resolve_with_scenes_def rbind_Inr)
  note ok = v [unfolded document_validate_def]
  have bs: "\<exists>m. document_validate_bindings {} 0 (pd_bindings d) = Inr m \<and> m \<le> 256"
    "channel_ok (pd_channel d)" "length (pd_bindings d) \<le> 256"
    "\<not> profile_name_bad (pd_name d)" "device_ok (pd_input d)" "device_ok (pd_output d)"
    using ok by (auto simp: rbind_Inr device_validate_ok channel_validate_ok not_less
        CONTROLLER_PROFILE_MAX_BINDINGS_def CONTROLLER_PROFILE_MAX_FEEDBACK_BINDINGS_def split: if_splits)
  have R: "map rb_id rs = map cb_id (pd_bindings d) \<and> map rb_feedback rs = map cb_feedback (pd_bindings d) \<and>
      (\<forall>r \<in> set rs. resolved_binding_ok r) \<and>
      list_all2 (\<lambda>b r. address_resolve (cb_target b) la se = Inr (rb_target r)) (pd_bindings d) rs"
    using resolve_bindings_ok [OF rs bs(2)] bs(1) by (auto simp: document_bindings_ok)
  then have "length rs = length (pd_bindings d)" by (metis length_map)
  moreover have "resolved_validate_bindings {} 0 rs = Inr (feedback_count (map rb_feedback rs))"
    using R bs(1) by (auto simp: resolved_bindings_ok document_bindings_ok)
  moreover have "feedback_count (map rb_feedback rs) \<le> 256"
    using R bs(1) by (auto simp: document_bindings_ok)
  ultimately show "resolved_validate r = Inr ()"
    using bs by (auto simp: r resolved_validate_def rbind_Inr device_validate_ok not_less
        CONTROLLER_PROFILE_MAX_BINDINGS_def CONTROLLER_PROFILE_MAX_FEEDBACK_BINDINGS_def)
qed

theorem resolution_sound_complete_witness:
  "resolve_with_scenes legacy_four_cc Map.empty (\<lambda>s. False) = Inr (live_profile Map.empty legacy_four_cc) \<and>
   resolved_validate (live_profile Map.empty legacy_four_cc) = Inr ()"
proof -
  have "document_validate legacy_four_cc = Inr ()"
    using legacy_fields legacy_bindings_ok by (simp add: document_validate_ok device_ok_def channel_ok_def)
  moreover have "\<forall>b \<in> set (pd_bindings legacy_four_cc). target_known Map.empty (\<lambda>s. False) (cb_target b)"
    by (simp add: legacy_four_cc_def)
  ultimately show ?thesis
    using resolution_sound_complete [of legacy_four_cc Map.empty "\<lambda>s. False" "live_profile Map.empty legacy_four_cc"] by blast
qed

end
