(* ===== verification/Decoder_Laws.thy ===== *)
theory Decoder_Laws
  imports Controller_Laws
begin

text \<open>
  The decoder as its specification: what one message does to all bindings at once, what a button
  says over a whole sequence of messages, and the values that leave the decoder.
\<close>

section \<open>One message\<close>

definition bstate :: "(u16 \<rightharpoonup> button_state) \<Rightarrow> u16 \<Rightarrow> button_state" where
  "bstate B i = unwrap_or (B i) button_state_default"

definition ctl_event :: "u64 \<Rightarrow> resolved_binding \<Rightarrow> automation_value \<Rightarrow> controller_event" where
  "ctl_event ts b v = \<lparr>ce_timestamp = ts, ce_origin = OriginMidi, ce_kind = EkControl (rb_id b) (rb_target b) v\<rparr>"

text \<open>What a binding says to a message in the button states \<open>B\<close>, and the state it wants to move to.\<close>

definition hit_value ::
  "u8 \<Rightarrow> u8 \<Rightarrow> u8 \<Rightarrow> u8 \<Rightarrow> (u16 \<rightharpoonup> button_state) \<Rightarrow> resolved_binding \<Rightarrow> automation_value option" where
  "hit_value fam ch num raw B b =
     (if binding_matches b fam ch num then fst (binding_value B fam raw b) else None)"

definition wanted_state :: "u8 \<Rightarrow> u8 \<Rightarrow> (u16 \<rightharpoonup> button_state) \<Rightarrow> resolved_binding \<Rightarrow> button_state" where
  "wanted_state fam raw B b =
     (case snd (binding_value B fam raw b) of Some (p, c) \<Rightarrow> c | None \<Rightarrow> bstate B (rb_id b))"

definition hit_events ::
  "u64 \<Rightarrow> u8 \<Rightarrow> u8 \<Rightarrow> u8 \<Rightarrow> u8 \<Rightarrow> (u16 \<rightharpoonup> button_state) \<Rightarrow> resolved_binding list \<Rightarrow> controller_event list" where
  "hit_events ts fam ch num raw B bs =
     List.map_filter (\<lambda>b. map_option (ctl_event ts b) (hit_value fam ch num raw B b)) bs"

definition next_buttons ::
  "u64 \<Rightarrow> u8 \<Rightarrow> u8 \<Rightarrow> u8 \<Rightarrow> u8 \<Rightarrow> (u16 \<rightharpoonup> button_state) \<Rightarrow> controller_event list \<Rightarrow> resolved_binding \<Rightarrow> button_state"
  where
  "next_buttons ts fam ch num raw B admitted b =
     (if binding_matches b fam ch num \<and>
         (\<forall>v. hit_value fam ch num raw B b = Some v \<longrightarrow> ctl_event ts b v \<in> set admitted)
      then wanted_state fam raw B b else bstate B (rb_id b))"

lemma hit_events_simps:
  "hit_events ts fam ch num raw B [] = []"
  "hit_events ts fam ch num raw B (b # bs) = (case hit_value fam ch num raw B b of
     None \<Rightarrow> hit_events ts fam ch num raw B bs
   | Some v \<Rightarrow> ctl_event ts b v # hit_events ts fam ch num raw B bs)"
  by (simp_all add: hit_events_def map_filter_simps split: option.splits)

lemma binding_value_cong: "B (rb_id b) = C (rb_id b) \<Longrightarrow> binding_value B fam raw b = binding_value C fam raw b"
  by (simp add: binding_value_def split: option.split)

lemma button_prior: "snd (binding_value B fam raw b) = Some (p, c) \<Longrightarrow> p = bstate B (rb_id b)"
  by (auto simp: binding_value_def bstate_def Let_def split: option.splits prod.splits)

lemma commit_button_spec:
  assumes "snd (binding_value B fam raw b) = change"
    and "commit_button (rb_id b) change (B, rep) = (B', rep')"
  shows "bstate B' (rb_id b) = wanted_state fam raw B b \<and> (\<forall>i. i \<noteq> rb_id b \<longrightarrow> B' i = B i) \<and>
    dr_matched rep' = dr_matched rep \<and> dr_emitted rep' = dr_emitted rep \<and> dr_dropped rep' = dr_dropped rep"
proof (cases change)
  case None
  then show ?thesis using assms by (auto simp: commit_button_def wanted_state_def)
next
  case (Some pc)
  obtain p c where pc: "pc = (p, c)" by (cases pc)
  then have p: "p = bstate B (rb_id b)" using button_prior assms(1) Some by simp
  show ?thesis
    using assms Some pc p
    by (cases "c = p") (auto simp: commit_button_def wanted_state_def bstate_def unwrap_or_def)
qed

text \<open>One turn of the loop, in the three ways it can go.\<close>

lemma decode_binding_cases:
  assumes "decode_binding ts fam ch num raw cap (B, out, rep) b = (B', out', rep')"
  shows "(\<forall>i. i \<noteq> rb_id b \<longrightarrow> B' i = B i) \<and>
    out' = out @ take (cap - length out) (hit_events ts fam ch num raw B [b]) \<and>
    dr_matched rep' = dr_matched rep + (if binding_matches b fam ch num then 1 else 0) \<and>
    dr_emitted rep' = dr_emitted rep + (length out' - length out) \<and>
    dr_emitted rep' + dr_dropped rep' =
      dr_emitted rep + dr_dropped rep + length (hit_events ts fam ch num raw B [b]) \<and>
    bstate B' (rb_id b) = next_buttons ts fam ch num raw B (drop (length out) out') b"
proof (cases "binding_matches b fam ch num")
  case False
  then show ?thesis using assms
    by (simp add: decode_binding_def hit_events_simps hit_value_def next_buttons_def)
next
  case M: True
  obtain v change where bv: "binding_value B fam raw b = (v, change)" by (cases "binding_value B fam raw b")
  then have ch: "snd (binding_value B fam raw b) = change" and hv: "hit_value fam ch num raw B b = v"
    using M by (simp_all add: hit_value_def)
  define rep1 where "rep1 = rep\<lparr>dr_matched := dr_matched rep + 1\<rparr>"
  show ?thesis
  proof (cases v)
    case None
    then have "commit_button (rb_id b) change (B, rep1) = (B', rep')" "out' = out"
      using assms M bv by (auto simp: decode_binding_def rep1_def Let_def split: prod.splits)
    with commit_button_spec [OF ch] M None hv show ?thesis
      by (auto simp: hit_events_simps next_buttons_def rep1_def)
  next
    case (Some x)
    show ?thesis
    proof (cases "length out < cap")
      case True
      then have "commit_button (rb_id b) change (B, rep1\<lparr>dr_emitted := dr_emitted rep1 + 1\<rparr>) = (B', rep')"
        "out' = out @ [ctl_event ts b x]"
        using assms M bv Some by (auto simp: decode_binding_def rep1_def Let_def ctl_event_def split: prod.splits)
      with commit_button_spec [OF ch] M Some hv True show ?thesis
        by (auto simp: hit_events_simps next_buttons_def rep1_def take_Cons' Suc_le_eq)
    next
      case False
      then show ?thesis
        using assms M bv Some hv
        by (auto simp: decode_binding_def Let_def hit_events_simps next_buttons_def)
    qed
  qed
qed

lemma hit_value_cong: "B (rb_id b) = C (rb_id b) \<Longrightarrow> hit_value fam ch num raw B b = hit_value fam ch num raw C b"
  by (simp add: hit_value_def binding_value_cong [of B b C])

lemma wanted_cong: "B (rb_id b) = C (rb_id b) \<Longrightarrow> wanted_state fam raw B b = wanted_state fam raw C b"
  by (simp add: wanted_state_def binding_value_cong [of B b C] bstate_def split: option.split)

lemma next_buttons_cong:
  "B (rb_id b) = C (rb_id b) \<Longrightarrow>
   next_buttons ts fam ch num raw B adm b = next_buttons ts fam ch num raw C adm b"
  by (auto simp: next_buttons_def hit_value_cong [of B b C] wanted_cong [of B b C] bstate_def)

lemma hit_events_cong:
  "\<forall>b \<in> set bs. B (rb_id b) = C (rb_id b) \<Longrightarrow>
   hit_events ts fam ch num raw B bs = hit_events ts fam ch num raw C bs"
  by (induction bs) (auto simp: hit_events_simps hit_value_cong [of B _ C] split: option.split)

lemma next_buttons_other:
  "\<forall>e \<in> set es. \<forall>v. e \<noteq> ctl_event ts b v \<Longrightarrow>
   next_buttons ts fam ch num raw B (es @ adm) b = next_buttons ts fam ch num raw B adm b"
  by (auto simp: next_buttons_def)

lemma hit_events_ids:
  "e \<in> set (hit_events ts fam ch num raw B bs) \<Longrightarrow> \<exists>b \<in> set bs. \<exists>v. e = ctl_event ts b v"
  by (induction bs) (auto simp: hit_events_simps split: option.splits)

lemma ctl_event_id: "ctl_event ts b v = ctl_event ts' b' v' \<Longrightarrow> rb_id b = rb_id b'"
  by (simp add: ctl_event_def)

text \<open>All bindings, one after the other, speak as if at once: distinct identities keep their states
  apart.\<close>

lemma decode_bindings_spec:
  assumes "distinct (map rb_id bs)"
    and "foldl (decode_binding ts fam ch num raw cap) (B, out, rep) bs = (B', out', rep')"
  shows "out' = out @ take (cap - length out) (hit_events ts fam ch num raw B bs) \<and>
    dr_matched rep' = dr_matched rep + length (filter (\<lambda>b. binding_matches b fam ch num) bs) \<and>
    dr_emitted rep' = dr_emitted rep + (length out' - length out) \<and>
    dr_emitted rep' + dr_dropped rep' =
      dr_emitted rep + dr_dropped rep + length (hit_events ts fam ch num raw B bs) \<and>
    (\<forall>b \<in> set bs. bstate B' (rb_id b) = next_buttons ts fam ch num raw B (drop (length out) out') b) \<and>
    (\<forall>i. i \<notin> rb_id ` set bs \<longrightarrow> B' i = B i)"
  using assms
proof (induction bs arbitrary: B out rep)
  case Nil
  then show ?case by (simp add: hit_events_simps)
next
  case (Cons b bs)
  obtain B1 out1 rep1 where st: "decode_binding ts fam ch num raw cap (B, out, rep) b = (B1, out1, rep1)"
    by (cases "decode_binding ts fam ch num raw cap (B, out, rep) b")
  note D = decode_binding_cases [OF st]
  have other: "rb_id c \<noteq> rb_id b" if "c \<in> set bs" for c
    using Cons.prems(1) imageI [OF that, of rb_id] by auto
  have eq: "\<forall>c \<in> set bs. B1 (rb_id c) = B (rb_id c)"
  proof
    fix c assume "c \<in> set bs"
    then have "rb_id c \<noteq> rb_id b" by (rule other)
    then show "B1 (rb_id c) = B (rb_id c)" using D by blast
  qed
  have I: "out' = out1 @ take (cap - length out1) (hit_events ts fam ch num raw B1 bs) \<and>
    dr_matched rep' = dr_matched rep1 + length (filter (\<lambda>b. binding_matches b fam ch num) bs) \<and>
    dr_emitted rep' = dr_emitted rep1 + (length out' - length out1) \<and>
    dr_emitted rep' + dr_dropped rep' =
      dr_emitted rep1 + dr_dropped rep1 + length (hit_events ts fam ch num raw B1 bs) \<and>
    (\<forall>b \<in> set bs. bstate B' (rb_id b) = next_buttons ts fam ch num raw B1 (drop (length out1) out') b) \<and>
    (\<forall>i. i \<notin> rb_id ` set bs \<longrightarrow> B' i = B1 i)"
    using Cons.prems st by (intro Cons.IH) simp_all
  let ?h = "hit_events ts fam ch num raw B [b]"
  have ev: "hit_events ts fam ch num raw B1 bs = hit_events ts fam ch num raw B bs"
    using eq by (rule hit_events_cong)
  have app: "hit_events ts fam ch num raw B (b # bs) = ?h @ hit_events ts fam ch num raw B bs"
    by (simp add: hit_events_simps split: option.splits)
  have o1: "out1 = out @ take (cap - length out) ?h" using D by simp
  have cut: "cap - length out1 = cap - length out - length ?h" by (auto simp: o1 min_def)
  have o: "out' = out @ take (cap - length out) ?h @
      take (cap - length out - length ?h) (hit_events ts fam ch num raw B bs)"
  proof -
    have "out' = out1 @ take (cap - length out1) (hit_events ts fam ch num raw B1 bs)" using I by blast
    then show ?thesis unfolding ev cut by (subst (asm) o1) simp
  qed
  have n1: "drop (length out) out' = take (cap - length out) ?h @ drop (length out1) out'"
    by (simp add: o o1)
  have tail: "next_buttons ts fam ch num raw B1 (drop (length out1) out') c =
      next_buttons ts fam ch num raw B (drop (length out) out') c" if c: "c \<in> set bs" for c
  proof -
    have "rb_id c \<noteq> rb_id b" using c by (rule other)
    then have "\<forall>e \<in> set (take (cap - length out) ?h). \<forall>v. e \<noteq> ctl_event ts c v"
      by (metis ctl_event_id hit_events_ids in_set_takeD empty_iff insert_iff list.set)
    then show ?thesis
      unfolding n1 by (subst next_buttons_other) (use eq c in \<open>auto intro: next_buttons_cong\<close>)
  qed
  have "bstate B' (rb_id b) = bstate B1 (rb_id b)" using I Cons.prems(1) by (simp add: bstate_def)
  also have "\<dots> = next_buttons ts fam ch num raw B (drop (length out) out1) b" using D by simp
  also have "\<dots> = next_buttons ts fam ch num raw B (drop (length out) out') b"
  proof -
    have "ctl_event ts b v \<notin> set (drop (length out1) out')" for v
    proof
      assume "ctl_event ts b v \<in> set (drop (length out1) out')"
      then have "ctl_event ts b v \<in> set (hit_events ts fam ch num raw B bs)"
        using I by (auto simp: ev dest: in_set_takeD)
      then obtain c w where "c \<in> set bs" "ctl_event ts b v = ctl_event ts c w" by (metis hit_events_ids)
      then show False using other [of c] ctl_event_id by metis
    qed
    then show ?thesis unfolding n1 by (simp add: next_buttons_def o1)
  qed
  finally have head: "bstate B' (rb_id b) = next_buttons ts fam ch num raw B (drop (length out) out') b" .
  have len: "length out' - length out = (length out1 - length out) + (length out' - length out1)"
    by (simp add: o o1)
  have m: "dr_matched rep1 = dr_matched rep + (if binding_matches b fam ch num then 1 else 0)"
    "dr_matched rep' = dr_matched rep1 + length (filter (\<lambda>b. binding_matches b fam ch num) bs)"
    and e: "dr_emitted rep1 = dr_emitted rep + (length out1 - length out)"
    "dr_emitted rep' = dr_emitted rep1 + (length out' - length out1)"
    and t: "dr_emitted rep1 + dr_dropped rep1 = dr_emitted rep + dr_dropped rep + length ?h"
    "dr_emitted rep' + dr_dropped rep' =
      dr_emitted rep1 + dr_dropped rep1 + length (hit_events ts fam ch num raw B1 bs)"
    and f: "\<And>i. i \<noteq> rb_id b \<Longrightarrow> B1 i = B i" "\<And>i. i \<notin> rb_id ` set bs \<Longrightarrow> B' i = B1 i"
    and g: "\<And>c. c \<in> set bs \<Longrightarrow> bstate B' (rb_id c) = next_buttons ts fam ch num raw B1 (drop (length out1) out') c"
    using D I by blast+
  show ?case
  proof (intro conjI ballI allI impI)
    show "out' = out @ take (cap - length out) (hit_events ts fam ch num raw B (b # bs))"
      unfolding app take_append by (rule o)
    show "dr_matched rep' = dr_matched rep + length (filter (\<lambda>b. binding_matches b fam ch num) (b # bs))"
      using m by simp
    show "dr_emitted rep' = dr_emitted rep + (length out' - length out)" using e len by linarith
    show "dr_emitted rep' + dr_dropped rep' =
        dr_emitted rep + dr_dropped rep + length (hit_events ts fam ch num raw B (b # bs))"
      unfolding app length_append using t unfolding ev by linarith
    show "bstate B' (rb_id c) = next_buttons ts fam ch num raw B (drop (length out) out') c"
      if "c \<in> set (b # bs)" for c
      using that head g [of c] tail [of c] by auto
    show "B' i = B i" if "i \<notin> rb_id ` set (b # bs)" for i
      using that f [of i] by simp
  qed
qed

lemma channel_message_spec:
  assumes "distinct (map rb_id (rp_bindings (cd_profile d)))"
    and "is_well_formed_controller_midi msg" "transport_of_status (msg ! 0) = None"
    and "decode_bounded d ts msg out cap = (d', out', rep)"
  shows "out' = out @ take (cap - length out) (hit_events ts (msg ! 0 AND 0xF0) (msg ! 0 AND 0x0F) (msg ! 1)
      (msg ! 2) (cd_buttons d) (rp_bindings (cd_profile d)))"
    and "cd_profile d' = cd_profile d"
    and "b \<in> set (rp_bindings (cd_profile d)) \<Longrightarrow> bstate (cd_buttons d') (rb_id b) =
      next_buttons ts (msg ! 0 AND 0xF0) (msg ! 0 AND 0x0F) (msg ! 1) (msg ! 2) (cd_buttons d)
        (drop (length out) out') b"
    and "dr_matched rep = length (filter (\<lambda>b. binding_matches b (msg ! 0 AND 0xF0) (msg ! 0 AND 0x0F) (msg ! 1))
      (rp_bindings (cd_profile d)))"
    and "dr_emitted rep = length out' - length out"
    and "dr_emitted rep + dr_dropped rep = length (hit_events ts (msg ! 0 AND 0xF0) (msg ! 0 AND 0x0F) (msg ! 1)
      (msg ! 2) (cd_buttons d) (rp_bindings (cd_profile d)))"
proof -
  obtain B' o' r' where f: "foldl (decode_binding ts (msg ! 0 AND 0xF0) (msg ! 0 AND 0x0F) (msg ! 1) (msg ! 2) cap)
      (cd_buttons d, out, decode_report_default) (rp_bindings (cd_profile d)) = (B', o', r')"
    by (metis prod_cases3)
  then have r: "d' = d\<lparr>cd_buttons := B'\<rparr>" "out' = o'" "rep = r'"
    using assms by (simp_all add: decode_bounded_def Let_def)
  have rep0: "dr_matched decode_report_default = 0" "dr_emitted decode_report_default = 0"
    "dr_dropped decode_report_default = 0" by (simp_all add: decode_report_default_def)
  note S = decode_bindings_spec [OF assms(1) f, folded r(2,3), unfolded rep0 add_0]
  show "out' = out @ take (cap - length out) (hit_events ts (msg ! 0 AND 0xF0) (msg ! 0 AND 0x0F) (msg ! 1)
      (msg ! 2) (cd_buttons d) (rp_bindings (cd_profile d)))" using S by blast
  show "cd_profile d' = cd_profile d" using r by simp
  show "bstate (cd_buttons d') (rb_id b) =
      next_buttons ts (msg ! 0 AND 0xF0) (msg ! 0 AND 0x0F) (msg ! 1) (msg ! 2) (cd_buttons d)
        (drop (length out) out') b" if "b \<in> set (rp_bindings (cd_profile d))"
    using S r that by simp
  show "dr_matched rep = length (filter (\<lambda>b. binding_matches b (msg ! 0 AND 0xF0) (msg ! 0 AND 0x0F) (msg ! 1))
      (rp_bindings (cd_profile d)))" using S by blast
  show "dr_emitted rep = length out' - length out" using S by blast
  show "dr_emitted rep + dr_dropped rep = length (hit_events ts (msg ! 0 AND 0xF0) (msg ! 0 AND 0x0F) (msg ! 1)
      (msg ! 2) (cd_buttons d) (rp_bindings (cd_profile d)))" using S by blast
qed

text \<open>One message is one transaction of events and hidden button edges.  A malformed message changes
  nothing.  A well-formed channel message appends the events of the matching bindings, in profile
  order, as far as there is room; the report counts them; a binding moves to the state it wants
  exactly when it had nothing to say or its event was admitted, so a refused event keeps its edge.\<close>

theorem message_is_one_transaction:
  assumes "distinct (map rb_id (rp_bindings (cd_profile d)))"
    and "decode_bounded d ts msg out cap = (d', out', rep)"
  shows "(\<not> is_well_formed_controller_midi msg \<longrightarrow> d' = d \<and> out' = out \<and> rep = decode_report_default) \<and>
    (is_well_formed_controller_midi msg \<and> transport_of_status (msg ! 0) = None \<longrightarrow>
      (let fam = msg ! 0 AND 0xF0; ch = msg ! 0 AND 0x0F; bs = rp_bindings (cd_profile d);
           evs = hit_events ts fam ch (msg ! 1) (msg ! 2) (cd_buttons d) bs;
           admitted = take (cap - length out) evs in
       out' = out @ admitted \<and> cd_profile d' = cd_profile d \<and>
       dr_matched rep = length (filter (\<lambda>b. binding_matches b fam ch (msg ! 1)) bs) \<and>
       dr_emitted rep = length admitted \<and> dr_emitted rep + dr_dropped rep = length evs \<and>
       (\<forall>b \<in> set bs. bstate (cd_buttons d') (rb_id b) =
          next_buttons ts fam ch (msg ! 1) (msg ! 2) (cd_buttons d) admitted b)))"
proof (intro conjI impI)
  assume "\<not> is_well_formed_controller_midi msg"
  then show "d' = d" "out' = out" "rep = decode_report_default"
    using assms(2) by (simp_all add: decode_bounded_def)
next
  assume "is_well_formed_controller_midi msg \<and> transport_of_status (msg ! 0) = None"
  then have w: "is_well_formed_controller_midi msg" "transport_of_status (msg ! 0) = None" by blast+
  note S = channel_message_spec [OF assms(1) w assms(2)]
  have adm: "drop (length out) out' = take (cap - length out) (hit_events ts (msg ! 0 AND 0xF0) (msg ! 0 AND 0x0F)
      (msg ! 1) (msg ! 2) (cd_buttons d) (rp_bindings (cd_profile d)))"
    by (subst S(1)) simp
  have len: "length out' - length out = length (drop (length out) out')" by simp
  show "let fam = msg ! 0 AND 0xF0; ch = msg ! 0 AND 0x0F; bs = rp_bindings (cd_profile d);
           evs = hit_events ts fam ch (msg ! 1) (msg ! 2) (cd_buttons d) bs;
           admitted = take (cap - length out) evs in
       out' = out @ admitted \<and> cd_profile d' = cd_profile d \<and>
       dr_matched rep = length (filter (\<lambda>b. binding_matches b fam ch (msg ! 1)) bs) \<and>
       dr_emitted rep = length admitted \<and> dr_emitted rep + dr_dropped rep = length evs \<and>
       (\<forall>b \<in> set bs. bstate (cd_buttons d') (rb_id b) =
          next_buttons ts fam ch (msg ! 1) (msg ! 2) (cd_buttons d) admitted b)"
    unfolding Let_def
    by (intro conjI ballI) (rule S(1) S(2) S(4) S(6) S(5) [unfolded len adm] S(3) [unfolded adm], assumption?)+
qed

section \<open>Redelivery\<close>

lemma binding_value_state:
  "bstate B (rb_id b) = bstate C (rb_id b) \<Longrightarrow> binding_value B fam raw b = binding_value C fam raw b"
  by (simp add: binding_value_def bstate_def split: option.split)

lemma button_edge_settled:
  "button_edge mode p st = (None, st') \<Longrightarrow> fst (button_edge mode p st') = None"
  by (cases mode) (auto simp: button_edge_def Let_def split: if_splits)

lemma settled_value:
  assumes "bstate C (rb_id b) = next_buttons ts fam ch num raw B [] b"
  shows "hit_value fam ch num raw C b = hit_value fam ch num raw B b"
proof (cases "binding_matches b fam ch num \<and> hit_value fam ch num raw B b = None")
  case False
  then have "bstate C (rb_id b) = bstate B (rb_id b)" using assms by (auto simp: next_buttons_def)
  then show ?thesis using binding_value_state [of C b B] by (simp add: hit_value_def)
next
  case True
  then have m: "binding_matches b fam ch num" by blast
  with True have v: "fst (binding_value B fam raw b) = None" by (simp add: hit_value_def)
  have st: "bstate C (rb_id b) = wanted_state fam raw B b" using assms True by (simp add: next_buttons_def)
  have "fst (binding_value C fam raw b) = None"
  proof (cases "rb_button_mode b")
    case None
    then show ?thesis using v by (simp add: binding_value_def)
  next
    case (Some mode)
    let ?p = "source_pressed (rb_source b) (rb_press_threshold b) fam raw"
    obtain x c where e: "button_edge mode ?p (bstate B (rb_id b)) = (x, c)" by fastforce
    have x: "x = None" and c: "bstate C (rb_id b) = c"
      using v st e Some by (simp_all add: binding_value_def wanted_state_def bstate_def)
    have "fst (button_edge mode ?p (bstate C (rb_id b))) = None"
      using e button_edge_settled unfolding x c by blast
    then show ?thesis using Some by (simp add: binding_value_def bstate_def Let_def case_prod_beta)
  qed
  with m v show ?thesis by (simp add: hit_value_def)
qed

lemma settled_events:
  "\<forall>b \<in> set bs. bstate C (rb_id b) = next_buttons ts fam ch num raw B [] b \<Longrightarrow>
   hit_events ts fam ch num raw C bs = hit_events ts fam ch num raw B bs"
proof (induction bs)
  case (Cons b bs)
  then have "hit_value fam ch num raw C b = hit_value fam ch num raw B b" by (intro settled_value) simp
  with Cons show ?case by (simp add: hit_events_simps split: option.split)
qed (simp add: hit_events_simps)

text \<open>A message refused for lack of room loses nothing: delivering it again to a decoder with room
  gives exactly the events it would have given the first time, in the same order.\<close>

theorem refused_message_redelivers:
  assumes "distinct (map rb_id (rp_bindings (cd_profile d)))"
    and "is_well_formed_controller_midi msg" and "transport_of_status (msg ! 0) = None"
    and "cap \<le> length out" and "decode_bounded d ts msg out cap = (d1, out1, rep1)"
    and "decode_bounded d1 ts msg [] room = (d2, out2, rep2)"
    and "decode_bounded d ts msg [] room = (d3, out3, rep3)"
  shows "out1 = out \<and> out2 = out3"
proof -
  note one = channel_message_spec [OF assms(1-3,5)]
  note three = channel_message_spec [OF assms(1-3,7)]
  have p: "cd_profile d1 = cd_profile d" by (rule one(2))
  have "distinct (map rb_id (rp_bindings (cd_profile d1)))" using assms(1) by (simp add: p)
  note two = channel_message_spec [OF this assms(2,3,6)]
  have o1: "out1 = out" using one(1) assms(4) by simp
  have "hit_events ts (msg ! 0 AND 0xF0) (msg ! 0 AND 0x0F) (msg ! 1) (msg ! 2) (cd_buttons d1)
      (rp_bindings (cd_profile d)) = hit_events ts (msg ! 0 AND 0xF0) (msg ! 0 AND 0x0F) (msg ! 1) (msg ! 2)
      (cd_buttons d) (rp_bindings (cd_profile d))"
    using one(3) o1 by (intro settled_events) simp
  then have "out2 = out3" using two(1) three(1) by (simp add: p)
  with o1 show ?thesis by simp
qed

section \<open>Sequences of messages\<close>

text \<open>The decoder over a sequence of timed messages, its output drained after each.\<close>

fun decoder_run :: "controller_decoder \<Rightarrow> (u64 \<times> bytes) list \<Rightarrow> controller_event list" where
  "decoder_run d [] = []"
| "decoder_run d (m # ms) =
     (case decode_unbounded d (fst m) (snd m) [] of (d', out) \<Rightarrow> out @ decoder_run d' ms)"

text \<open>The values of one binding among events, and the button positions a binding reads from messages.\<close>

definition event_value :: "u16 \<Rightarrow> controller_event \<Rightarrow> automation_value option" where
  "event_value i e = (case ce_kind e of EkControl j a v \<Rightarrow> if j = i then Some v else None | EkTransport t \<Rightarrow> None)"

definition values_of :: "u16 \<Rightarrow> controller_event list \<Rightarrow> automation_value list" where
  "values_of i es = List.map_filter (event_value i) es"

definition position_read :: "resolved_binding \<Rightarrow> bytes \<Rightarrow> bool option" where
  "position_read b msg =
     (if is_well_formed_controller_midi msg \<and> transport_of_status (msg ! 0) = None \<and>
         binding_matches b (msg ! 0 AND 0xF0) (msg ! 0 AND 0x0F) (msg ! 1)
      then Some (source_pressed (rb_source b) (rb_press_threshold b) (msg ! 0 AND 0xF0) (msg ! 2)) else None)"

definition positions :: "resolved_binding \<Rightarrow> (u64 \<times> bytes) list \<Rightarrow> bool list" where
  "positions b ms = List.map_filter (\<lambda>m. position_read b (snd m)) ms"

fun button_trace :: "midi_button_mode \<Rightarrow> button_state \<Rightarrow> bool list \<Rightarrow> automation_value list" where
  "button_trace mode st [] = []"
| "button_trace mode st (p # ps) =
     (case fst (button_edge mode p st) of None \<Rightarrow> [] | Some v \<Rightarrow> [v]) @
     button_trace mode (snd (button_edge mode p st)) ps"

lemma values_simps [simp]:
  "values_of i [] = []" "values_of i (xs @ ys) = values_of i xs @ values_of i ys"
  "values_of i (ctl_event ts b v # es) = (if rb_id b = i then [v] else []) @ values_of i es"
  by (auto simp: values_of_def map_filter_def event_value_def ctl_event_def)

lemma values_none: "i \<notin> rb_id ` set bs \<Longrightarrow> values_of i (hit_events ts fam ch num raw B bs) = []"
  by (induction bs) (auto simp: hit_events_simps split: option.split)

lemma values_hit:
  "distinct (map rb_id bs) \<Longrightarrow> b \<in> set bs \<Longrightarrow>
   values_of (rb_id b) (hit_events ts fam ch num raw B bs) =
     (case hit_value fam ch num raw B b of None \<Rightarrow> [] | Some v \<Rightarrow> [v])"
proof (induction bs)
  case (Cons c bs)
  show ?case
  proof (cases "b = c")
    case True
    with Cons.prems(1) have "values_of (rb_id b) (hit_events ts fam ch num raw B bs) = []"
      by (intro values_none) simp
    with True show ?thesis by (simp add: hit_events_simps split: option.split)
  next
    case False
    then have "b \<in> set bs" using Cons.prems(2) by simp
    moreover from this have "rb_id c \<noteq> rb_id b" using Cons.prems(1) imageI [of b "set bs" rb_id] by auto
    ultimately show ?thesis using Cons by (simp add: hit_events_simps split: option.split)
  qed
qed simp

lemma hit_events_length: "length (hit_events ts fam ch num raw B bs) \<le> length bs"
  by (induction bs) (auto simp: hit_events_simps split: option.split)

lemma button_value:
  assumes "rb_button_mode b = Some mode"
  shows "binding_value B fam raw b =
    (fst (button_edge mode (source_pressed (rb_source b) (rb_press_threshold b) fam raw) (bstate B (rb_id b))),
     Some (bstate B (rb_id b),
       snd (button_edge mode (source_pressed (rb_source b) (rb_press_threshold b) fam raw) (bstate B (rb_id b)))))"
  using assms by (simp add: binding_value_def bstate_def Let_def case_prod_beta)

lemma one_message_of_button:
  assumes dist: "distinct (map rb_id (rp_bindings (cd_profile d)))"
    and b: "b \<in> set (rp_bindings (cd_profile d))" and mode: "rb_button_mode b = Some mode"
    and fits: "length (rp_bindings (cd_profile d)) \<le> USIZE_MAX"
    and dec: "decode_unbounded d ts msg [] = (d', out)"
  shows "cd_profile d' = cd_profile d \<and>
    (case position_read b msg of
       None \<Rightarrow> values_of (rb_id b) out = [] \<and> bstate (cd_buttons d') (rb_id b) = bstate (cd_buttons d) (rb_id b)
     | Some p \<Rightarrow>
         values_of (rb_id b) out =
           (case fst (button_edge mode p (bstate (cd_buttons d) (rb_id b))) of None \<Rightarrow> [] | Some v \<Rightarrow> [v]) \<and>
         bstate (cd_buttons d') (rb_id b) = snd (button_edge mode p (bstate (cd_buttons d) (rb_id b))))"
proof -
  obtain rep where dec': "decode_bounded d ts msg [] USIZE_MAX = (d', out, rep)"
    using dec by (auto simp: decode_unbounded_def split: prod.splits)
  show ?thesis
  proof (cases "is_well_formed_controller_midi msg \<and> transport_of_status (msg ! 0) = None")
    case False
    then have n: "position_read b msg = None" by (auto simp: position_read_def)
    have "d' = d \<and> values_of (rb_id b) out = []"
      using False dec' by (auto simp: decode_bounded_def Let_def values_of_def map_filter_def event_value_def
          split: if_splits)
    with n show ?thesis by simp
  next
    case True
    then have w: "is_well_formed_controller_midi msg" "transport_of_status (msg ! 0) = None" by blast+
    note S = channel_message_spec [OF dist w dec']
    let ?fam = "msg ! 0 AND 0xF0" and ?ch = "msg ! 0 AND 0x0F"
    have all: "out = hit_events ts ?fam ?ch (msg ! 1) (msg ! 2) (cd_buttons d) (rp_bindings (cd_profile d))"
      using S(1) fits hit_events_length [of ts ?fam ?ch "msg ! 1" "msg ! 2" "cd_buttons d" "rp_bindings (cd_profile d)"]
      by simp
    have vals: "values_of (rb_id b) out =
        (case hit_value ?fam ?ch (msg ! 1) (msg ! 2) (cd_buttons d) b of None \<Rightarrow> [] | Some v \<Rightarrow> [v])"
      unfolding all by (rule values_hit [OF dist b])
    have adm: "ctl_event ts b v \<in> set out"
      if "hit_value ?fam ?ch (msg ! 1) (msg ! 2) (cd_buttons d) b = Some v" for v
      using that b unfolding all hit_events_def by (force simp: map_filter_def)
    have st: "bstate (cd_buttons d') (rb_id b) =
        (if binding_matches b ?fam ?ch (msg ! 1) then wanted_state ?fam (msg ! 2) (cd_buttons d) b
         else bstate (cd_buttons d) (rb_id b))"
      using S(3) [OF b] adm by (auto simp: next_buttons_def)
    show ?thesis
      using w S(2) vals st
      by (simp add: position_read_def hit_value_def wanted_state_def button_value [OF mode])
  qed
qed

lemma run_of_button:
  "distinct (map rb_id (rp_bindings (cd_profile d))) \<Longrightarrow> b \<in> set (rp_bindings (cd_profile d)) \<Longrightarrow>
   rb_button_mode b = Some mode \<Longrightarrow> length (rp_bindings (cd_profile d)) \<le> USIZE_MAX \<Longrightarrow>
   values_of (rb_id b) (decoder_run d ms) = button_trace mode (bstate (cd_buttons d) (rb_id b)) (positions b ms)"
proof (induction ms arbitrary: d)
  case Nil
  show ?case by (simp add: positions_def map_filter_simps)
next
  case (Cons m ms)
  obtain d' out where dec: "decode_unbounded d (fst m) (snd m) [] = (d', out)" by fastforce
  note one = one_message_of_button [OF Cons.prems dec]
  have "values_of (rb_id b) (decoder_run d' ms) =
      button_trace mode (bstate (cd_buttons d') (rb_id b)) (positions b ms)"
    using one Cons.prems by (intro Cons.IH) simp_all
  with one dec show ?case
    by (cases "position_read b (snd m)") (auto simp: positions_def map_filter_simps)
qed

text \<open>Rising edges and changes of a sequence of positions, from a first position.\<close>

fun rises :: "bool \<Rightarrow> bool list \<Rightarrow> nat" where
  "rises q [] = 0"
| "rises q (p # ps) = (if p \<and> \<not> q then 1 else 0) + rises p ps"

fun changes :: "bool \<Rightarrow> bool list \<Rightarrow> nat" where
  "changes q [] = 0"
| "changes q (p # ps) = (if p \<noteq> q then 1 else 0) + changes p ps"

definition alternating :: "bool \<Rightarrow> nat \<Rightarrow> automation_value list" where
  "alternating start n = map (\<lambda>k. AvGate (even k = start)) [0..<n]"

lemma alternating_simps [simp]:
  "alternating a 0 = []" "alternating a (Suc n) = AvGate a # alternating (\<not> a) n"
proof -
  show "alternating a 0 = []" by (simp add: alternating_def)
  have "[0..<Suc n] = 0 # map Suc [0..<n]" by (simp add: map_Suc_upt upt_conv_Cons)
  then show "alternating a (Suc n) = AvGate a # alternating (\<not> a) n" by (auto simp: alternating_def)
qed

lemma trace_momentary: "button_trace Momentary st ps = replicate (rises (bs_pressed st) ps) AvTrigger"
  by (induction ps arbitrary: st) (auto simp: button_edge_def Let_def)

lemma trace_toggle: "button_trace Toggle st ps = alternating (\<not> bs_toggled st) (rises (bs_pressed st) ps)"
  by (induction ps arbitrary: st) (auto simp: button_edge_def Let_def)

lemma trace_gate: "button_trace Gate st ps = alternating (\<not> bs_pressed st) (changes (bs_pressed st) ps)"
  by (induction ps arbitrary: st) (auto simp: button_edge_def Let_def)

text \<open>C36. Over any sequence of messages to a fresh decoder, a button says exactly what its mode promises
  of the positions its messages carry: a momentary button one trigger per rising edge, a toggle an
  alternating gate per rising edge, beginning with on, and a gate one value per change, press and
  release in turn.\<close>

theorem button_runs_follow_edges:
  assumes "distinct (map rb_id (rp_bindings p))" and "length (rp_bindings p) \<le> 256"
    and "b \<in> set (rp_bindings p)"
  shows "values_of (rb_id b) (decoder_run (decoder_new p) ms) =
    (case rb_button_mode b of
       Some Momentary \<Rightarrow> replicate (rises False (positions b ms)) AvTrigger
     | Some Toggle \<Rightarrow> alternating True (rises False (positions b ms))
     | Some Gate \<Rightarrow> alternating True (changes False (positions b ms))
     | None \<Rightarrow> values_of (rb_id b) (decoder_run (decoder_new p) ms))"
proof (cases "rb_button_mode b")
  case (Some mode)
  have fits: "length (rp_bindings (cd_profile (decoder_new p))) \<le> USIZE_MAX"
    using assms(2) by (simp add: decoder_new_def USIZE_MAX_def)
  have run: "values_of (rb_id b) (decoder_run (decoder_new p) ms) =
      button_trace mode (bstate (cd_buttons (decoder_new p)) (rb_id b)) (positions b ms)"
    using assms fits Some by (intro run_of_button) (simp_all add: decoder_new_def)
  have st: "bstate (cd_buttons (decoder_new p)) (rb_id b) = button_state_default"
    by (simp add: decoder_new_def bstate_def unwrap_or_def)
  show ?thesis
    using run Some by (cases mode)
      (simp_all add: st trace_momentary trace_toggle trace_gate button_state_default_def)
qed simp

definition sample_toggle :: resolved_binding where
  "sample_toggle = \<lparr>rb_id = 3, rb_source = SrcNote 60, rb_channel = Omni, rb_encoding = EncAbsolute,
     rb_button_mode = Some Toggle, rb_press_threshold = 64, rb_relative_step = F32_ONE,
     rb_target = RcMaster CpBlackout, rb_feedback = None\<rparr>"

definition sample_profile :: resolved_profile where
  "sample_profile = \<lparr>rp_name = lit ''p'', rp_input = FirstAvailable, rp_output = FirstAvailable,
     rp_bindings = [sample_toggle]\<rparr>"

lemma sample_profile_facts:
  "distinct (map rb_id (rp_bindings sample_profile))" "length (rp_bindings sample_profile) \<le> 256"
  "sample_toggle \<in> set (rp_bindings sample_profile)" "cd_profile (decoder_new sample_profile) = sample_profile"
  by (simp_all add: sample_profile_def decoder_new_def)

lemma sample_wire:
  "is_well_formed_controller_midi [0x90, 60, 100]" "transport_of_status 0x90 = None"
  "is_well_formed_controller_midi [0x80, 60, 0]" "transport_of_status 0x80 = None"
  by (simp_all add: is_well_formed_controller_midi_def transport_of_status_def)

theorem button_runs_follow_edges_witness:
  "values_of 3 (decoder_run (decoder_new sample_profile)
     [(1, [0x90, 60, 100]), (2, [0x80, 60, 0]), (3, [0x90, 60, 100])]) = [AvGate True, AvGate False]"
proof -
  have "positions sample_toggle [(1, [0x90, 60, 100]), (2, [0x80, 60, 0]), (3, [0x90, 60, 100])] =
      [True, False, True]"
    by (simp add: positions_def map_filter_simps position_read_def sample_wire binding_matches_def sample_toggle_def)
  moreover have "rb_button_mode sample_toggle = Some Toggle" "rb_id sample_toggle = 3"
    by (simp_all add: sample_toggle_def)
  ultimately show ?thesis
    using button_runs_follow_edges [OF sample_profile_facts(1-3),
        of "[(1, [0x90, 60, 100]), (2, [0x80, 60, 0]), (3, [0x90, 60, 100])]"]
    by (simp add: numeral_2_eq_2)
qed

lemma sample_decode:
  "decode_bounded (decoder_new sample_profile) 1 [0x90, 60, 100] [] 0 =
     (decoder_new sample_profile, [], decode_report_default\<lparr>dr_matched := 1, dr_dropped := 1\<rparr>)"
  by (simp add: decode_bounded_def sample_wire decoder_new_def sample_profile_def decode_binding_def
      binding_matches_def binding_value_def sample_toggle_def button_edge_def unwrap_or_def
      button_state_default_def decode_report_default_def Let_def)

theorem message_is_one_transaction_witness:
  "length (hit_events 1 0x90 0 60 100 Map.empty [sample_toggle]) = 1"
  using message_is_one_transaction [OF _ sample_decode]
  by (simp add: sample_profile_facts sample_wire Let_def decode_report_default_def decoder_new_def
      sample_profile_def)

theorem refused_message_redelivers_witness:
  "fst (snd (decode_bounded (fst (decode_bounded (decoder_new sample_profile) 1 [0x90, 60, 100] [] 0)) 1
      [0x90, 60, 100] [] 8)) =
   fst (snd (decode_bounded (decoder_new sample_profile) 1 [0x90, 60, 100] [] 8))"
proof -
  obtain d3 out3 rep3 where o: "decode_bounded (decoder_new sample_profile) 1 [0x90, 60, 100] [] 8 = (d3, out3, rep3)"
    by (metis prod_cases3)
  show ?thesis
    using refused_message_redelivers [OF _ sample_wire(1) _ _ sample_decode o o]
    by (simp add: sample_decode)
qed

section \<open>Values\<close>

lemma f32_clamp_signed:
  "\<not> f32_is_nan x \<Longrightarrow> f32_clamp F32_MINUS_ONE F32_ONE (f32_clamp F32_MINUS_ONE F32_ONE x) =
     f32_clamp F32_MINUS_ONE F32_ONE x \<and> f32_is_finite (f32_clamp F32_MINUS_ONE F32_ONE x)"
  using f32_clamp_bounds [of F32_MINUS_ONE F32_ONE x]
  by (auto simp: f32_clamp_cases f32_le_def)

lemma f32_of_int_finite:
  assumes "\<bar>i\<bar> < 2 ^ 24"
  shows "f32_is_finite (f32_of_int i)"
proof (cases "i < 0")
  case True
  have "nat (- i) < 2 ^ 24" using assms True by simp
  then have "f32_is_finite (f32_of_nat (nat (- i)))" by (rule f32_of_nat_exact(3))
  with True show ?thesis by (simp add: f32_of_int_def f32_of_nat_def f32_is_finite_def)
next
  case False
  have "nat i < 2 ^ 24" using assms False by simp
  with False show ?thesis by (simp add: f32_of_int_def f32_of_nat_exact(3))
qed

lemma relative_delta_bound: "\<bar>relative_delta e raw\<bar> < 2 ^ 24"
proof -
  have u: "0 \<le> uint w" "uint w < 256" for w :: u8
  proof -
    have "uint w < 2 ^ LENGTH(8)" by (rule unsigned_less)
    then show "uint w < 256" by simp
  qed simp
  have "- 255 \<le> relative_delta e raw \<and> relative_delta e raw \<le> 255"
    using u [of raw] u [of "raw AND 0x3F"]
    by (cases e; simp only: relative_delta.simps Let_def split: if_split) linarith+
  then show ?thesis by (auto simp: abs_less_iff)
qed

lemma continuous_bounded:
  assumes "raw < 128" "f32_is_finite step" "decode_continuous e raw step = Some v"
  shows "finite_bounded v = Some v"
proof (cases "e = EncAbsolute")
  case True
  have r: "unat raw < 2 ^ 24" "unat raw \<le> 127" using assms(1) by (simp_all add: word_less_nat_alt)
  have "f32_unit (f32_div (f32_of_nat (unat raw)) (f32_of_nat 127))"
    using f32_of_nat_exact [OF r(1)] f32_of_nat_exact [of 127] r(2) by (intro f32_div_unit) simp_all
  with True assms(3) show ?thesis by (auto simp: decode_continuous_def f32_unit_finite f32_clamp01_unit)
next
  case False
  then have "v = AvDelta (f32_clamp F32_MINUS_ONE F32_ONE (f32_mul (f32_of_int (relative_delta e raw)) step))"
    using assms(3) by (auto simp: decode_continuous_def Let_def split: if_splits)
  moreover have "\<not> f32_is_nan (f32_mul (f32_of_int (relative_delta e raw)) step)"
    using f32_of_int_finite [OF relative_delta_bound] assms(2) by (rule f32_mul_not_nan)
  ultimately show ?thesis using f32_clamp_signed by simp
qed

lemma hit_events_bounded:
  assumes "\<forall>b \<in> set bs. resolved_binding_ok b" "raw < 128" "e \<in> set (hit_events ts fam ch num raw B bs)"
  shows "\<exists>b \<in> set bs. \<exists>v. e = ctl_event ts b v \<and> finite_bounded v = Some v \<and>
    (runtime_is_scene_action (rb_target b) \<longrightarrow> v = AvTrigger)"
  using assms
proof (induction bs)
  case (Cons b bs)
  show ?case
  proof (cases "e \<in> set (hit_events ts fam ch num raw B bs)")
    case False
    then obtain v where v: "e = ctl_event ts b v" "fst (binding_value B fam raw b) = Some v"
      using Cons.prems(3) by (auto simp: hit_events_simps hit_value_def split: option.splits if_splits)
    have ok: "resolved_binding_ok b" using Cons.prems(1) by simp
    have "finite_bounded v = Some v \<and> (runtime_is_scene_action (rb_target b) \<longrightarrow> v = AvTrigger)"
    proof (cases "rb_button_mode b")
      case None
      then have "decode_continuous (rb_encoding b) raw (rb_relative_step b) = Some v"
        using v(2) by (simp add: binding_value_def)
      moreover have "f32_is_finite (rb_relative_step b)" "\<not> runtime_is_scene_action (rb_target b)"
        using ok None by (auto simp: resolved_binding_ok_def law_ok_def f32_unit_finite)
      ultimately show ?thesis using continuous_bounded [OF Cons.prems(2)] by blast
    next
      case (Some mode)
      moreover have "runtime_is_scene_action (rb_target b) \<longrightarrow> mode = Momentary"
        using ok Some by (auto simp: resolved_binding_ok_def law_ok_def)
      ultimately show ?thesis
        using v(2) by (cases mode) (auto simp: button_value button_edge_def Let_def split: if_splits)
    qed
    with v(1) show ?thesis by auto
  qed (use Cons in auto)
qed (simp add: hit_events_simps)

text \<open>Whatever a decoder with a validated profile emits for a channel message is a bounded value: the
  final bounding adapter leaves it unchanged, it carries the target of a binding of the profile,
  and a scene action is only ever a trigger.\<close>

theorem emitted_values_bounded:
  assumes "resolved_validate (cd_profile d) = Inr ()" and "is_well_formed_controller_midi msg"
    and "transport_of_status (msg ! 0) = None" and "decode_bounded d ts msg out cap = (d', out', rep)"
    and "e \<in> set (drop (length out) out')"
  shows "\<exists>b \<in> set (rp_bindings (cd_profile d)). \<exists>v. ce_kind e = EkControl (rb_id b) (rb_target b) v \<and>
    finite_bounded v = Some v \<and> (runtime_is_scene_action (rb_target b) \<longrightarrow> v = AvTrigger)"
proof -
  obtain m where "resolved_validate_bindings {} 0 (rp_bindings (cd_profile d)) = Inr m"
    using assms(1) by (auto simp: resolved_validate_def rbind_Inr split: if_splits)
  then have ok: "\<forall>b \<in> set (rp_bindings (cd_profile d)). resolved_binding_ok b"
    and dist: "distinct (map rb_id (rp_bindings (cd_profile d)))"
    by (simp_all add: resolved_bindings_ok)
  have raw: "msg ! 2 < 128"
    using assms(2,3) by (auto simp: is_well_formed_controller_midi_def transport_of_status_def split: list.splits if_splits)
  have "e \<in> set (hit_events ts (msg ! 0 AND 0xF0) (msg ! 0 AND 0x0F) (msg ! 1) (msg ! 2) (cd_buttons d)
      (rp_bindings (cd_profile d)))"
    using assms(5) channel_message_spec(1) [OF dist assms(2-4)] by (auto dest: in_set_takeD)
  then show ?thesis using hit_events_bounded [OF ok raw] by (fastforce simp: ctl_event_def)
qed

lemma sample_decode_room:
  "decode_bounded (decoder_new sample_profile) 1 [0x90, 60, 100] [] 1 =
     (\<lparr>cd_profile = sample_profile, cd_buttons = [3 \<mapsto> \<lparr>bs_pressed = True, bs_toggled = True\<rparr>]\<rparr>,
      [ctl_event 1 sample_toggle (AvGate True)],
      \<lparr>dr_matched = 1, dr_emitted = 1, dr_dropped = 0, dr_state_changed = True\<rparr>)"
  by (simp add: decode_bounded_def sample_wire decoder_new_def sample_profile_def decode_binding_def
      binding_matches_def binding_value_def sample_toggle_def button_edge_def unwrap_or_def
      button_state_default_def decode_report_default_def commit_button_def ctl_event_def Let_def)

lemma sample_profile_valid: "resolved_validate (cd_profile (decoder_new sample_profile)) = Inr ()"
proof -
  have "resolved_validate_bindings {} 0 [sample_toggle] = Inr 0"
    by (simp only: resolved_bindings_ok)
      (simp add: resolved_binding_ok_def sample_toggle_def law_ok_def channel_ok_def feedback_count_def)
  moreover have "\<not> profile_name_bad (lit ''p'')"
    by (simp add: profile_name_bad_def lit_def str_len_def utf8_def utf8_char.simps
        CONTROLLER_PROFILE_MAX_NAME_BYTES_def char_is_control_def)
  ultimately show ?thesis
    by (simp add: resolved_validate_def decoder_new_def sample_profile_def CONTROLLER_PROFILE_MAX_BINDINGS_def
        CONTROLLER_PROFILE_MAX_FEEDBACK_BINDINGS_def)
qed

theorem emitted_values_bounded_witness:
  "\<exists>v. ce_kind (ctl_event 1 sample_toggle (AvGate True)) = EkControl 3 (RcMaster CpBlackout) v \<and>
     finite_bounded v = Some v"
  using emitted_values_bounded [OF sample_profile_valid sample_wire(1) _ sample_decode_room]
  by (simp add: sample_wire sample_profile_def decoder_new_def sample_toggle_def ctl_event_def)

text \<open>A controller position survives the trip through the engine: the absolute value decoded from a
  seven-bit position, sent back through a valid feedback message, is the same seven-bit position
  on the same channel and number, for all 128 positions, rounding included.\<close>

theorem absolute_position_round_trip:
  assumes "raw < 128" and "output_ok m"
  shows "\<exists>v. decode_continuous EncAbsolute raw step = Some (AvAbsolute v) \<and>
    (case output_parts m of (channel, data, family) \<Rightarrow> output_bytes m v = Inr [family OR (channel - 1), data, raw])"
proof -
  let ?v = "f32_div (f32_of_nat (unat raw)) (f32_of_nat 127)"
  have r: "unat raw < 2 ^ 24" "unat raw \<le> 127" using assms(1) by (simp_all add: word_less_nat_alt)
  have fin: "f32_unit ?v"
    using f32_of_nat_exact [OF r(1)] f32_of_nat_exact [of 127] r(2) by (intro f32_div_unit) simp_all
  have "f32_round_as_u8 (f32_mul (f32_clamp01 ?v) (f32_of_nat 127)) = raw"
    using f32_scale_round_trip [OF r(2)] by simp
  with fin assms(2) show ?thesis
    by (cases m) (auto simp: decode_continuous_def output_bytes_def output_ok_def f32_unit_finite not_less)
qed

theorem absolute_position_round_trip_witness:
  "\<exists>v. output_bytes (OutControlChange 2 7) v = Inr [0xB1, 7, 100]"
  using absolute_position_round_trip [of 100 "OutControlChange 2 7"]
  by (auto simp: output_ok_def)

end
