(* ===== verification/Action_Correlation.thy ===== *)
theory Action_Correlation
  imports Prelude "HOL-Library.Multiset"
begin

text \<open>
  The payload-free action correlation of \<open>src/src/action_correlation.rs\<close>: the sequencer that mints
  identities, the fixed-capacity monitor of applied actions, its ring of completion receipts and
  its two duration windows.  An \<open>Instant\<close> is a number of nanoseconds on the monotonic clock.
\<close>

definition ACTION_TIMING_WINDOW :: nat where "ACTION_TIMING_WINDOW = 512"
definition MAX_CORRELATED_ACTIONS_IN_FLIGHT :: nat where "MAX_CORRELATED_ACTIONS_IN_FLIGHT = 512"

type_synonym instant = nat
type_synonym action_sequence = u64

definition action_sequence_from_nonzero :: "u64 \<Rightarrow> action_sequence option" where
  "action_sequence_from_nonzero v = (if v = 0 then None else Some v)"

datatype action_source =
  SrcBrowser | SrcPhone | SrcNative | SrcMidi | SrcOsc | SrcAutomation | SrcReplay

record 'p action_envelope =
  en_sequence :: action_sequence
  en_source :: action_source
  en_ingress :: instant
  en_payload :: 'p

record action_identity =
  id_sequence :: action_sequence
  id_source :: action_source
  id_ingress :: instant

definition envelope_identity :: "'p action_envelope \<Rightarrow> action_identity" where
  "envelope_identity e = \<lparr>id_sequence = en_sequence e, id_source = en_source e, id_ingress = en_ingress e\<rparr>"

definition envelope_map :: "('p \<Rightarrow> 'q) \<Rightarrow> 'p action_envelope \<Rightarrow> 'q action_envelope" where
  "envelope_map f e = \<lparr>en_sequence = en_sequence e, en_source = en_source e, en_ingress = en_ingress e,
     en_payload = f (en_payload e)\<rparr>"

text \<open>The shared sequencer is one atomic counter; minting is one atomic update.\<close>

definition sequencer_default :: u64 where "sequencer_default = 1"

definition envelope_at ::
  "u64 \<Rightarrow> action_source \<Rightarrow> instant \<Rightarrow> 'p \<Rightarrow> u64 \<times> 'p action_envelope" where
  "envelope_at counter source ingress payload =
     (if counter = - 1 then 1 else counter + 1,
      \<lparr>en_sequence = max counter 1, en_source = source, en_ingress = ingress, en_payload = payload\<rparr>)"

datatype action_disposition =
  Presented | Coalesced | Refused | Superseded | Quantized | NotYetPresented

record action_receipt =
  ar_sequence :: action_sequence
  ar_source :: action_source
  ar_disposition :: action_disposition
  ar_ingress_to_apply_us :: "u32 option"
  ar_apply_to_submit_us :: "u32 option"
  ar_submission_generation :: "u64 option"

record latency_percentiles =
  lp_p50 :: u32
  lp_p95 :: u32
  lp_p99 :: u32
  lp_samples :: u16

record timing_snapshot =
  ts_ingress_to_apply :: latency_percentiles
  ts_apply_to_submit :: latency_percentiles
  ts_last_presented_sequence :: u64
  ts_last_submission_generation :: u64
  ts_pending :: u16
  ts_uncorrelated_over_capacity :: u64

record pending_action =
  pa_sequence :: action_sequence
  pa_source :: action_source
  pa_ingress :: instant
  pa_applied :: instant

record stored_receipt =
  st_ordinal :: u64
  st_receipt :: action_receipt

record duration_window =
  dw_values :: "u32 list"
  dw_next :: nat
  dw_count :: nat

definition duration_window_default :: duration_window where
  "duration_window_default = \<lparr>dw_values = replicate ACTION_TIMING_WINDOW 0, dw_next = 0, dw_count = 0\<rparr>"

definition duration_micros_u32 :: "nat \<Rightarrow> u32" where
  "duration_micros_u32 ns = (if ns div 1000 < 2 ^ 32 then of_nat (ns div 1000) else - 1)"

definition window_record :: "duration_window \<Rightarrow> nat \<Rightarrow> duration_window" where
  "window_record w duration = w\<lparr>dw_values := (dw_values w)[dw_next w := duration_micros_u32 duration],
     dw_next := (dw_next w + 1) mod ACTION_TIMING_WINDOW,
     dw_count := min (dw_count w + 1) ACTION_TIMING_WINDOW\<rparr>"

definition percentile_of :: "u32 list \<Rightarrow> nat \<Rightarrow> u32" where
  "percentile_of vs percentile =
     (if vs = [] then 0
      else vs ! min ((length vs * percentile + 99) div 100 - 1) (length vs - 1))"

definition window_percentiles :: "duration_window \<Rightarrow> latency_percentiles" where
  "window_percentiles w =
     (let vs = sort (take (dw_count w) (dw_values w)) in
      \<lparr>lp_p50 = percentile_of vs 50, lp_p95 = percentile_of vs 95, lp_p99 = percentile_of vs 99,
       lp_samples = (if dw_count w < 2 ^ 16 then of_nat (dw_count w) else - 1)\<rparr>)"

section \<open>The monitor\<close>

record correlation_monitor =
  mo_pending :: "pending_action option list"
  mo_pending_count :: nat
  mo_receipts :: "stored_receipt option list"
  mo_next_receipt :: nat
  mo_receipt_count :: nat
  mo_next_ordinal :: u64
  mo_ingress_to_apply :: duration_window
  mo_apply_to_submit :: duration_window
  mo_last_presented :: u64
  mo_last_generation :: u64
  mo_uncorrelated :: u64

definition monitor_default :: correlation_monitor where
  "monitor_default =
     \<lparr>mo_pending = replicate MAX_CORRELATED_ACTIONS_IN_FLIGHT None, mo_pending_count = 0,
      mo_receipts = replicate ACTION_TIMING_WINDOW None, mo_next_receipt = 0, mo_receipt_count = 0,
      mo_next_ordinal = 1, mo_ingress_to_apply = duration_window_default,
      mo_apply_to_submit = duration_window_default, mo_last_presented = 0, mo_last_generation = 0,
      mo_uncorrelated = 0\<rparr>"

definition push_receipt :: "correlation_monitor \<Rightarrow> action_receipt \<Rightarrow> correlation_monitor" where
  "push_receipt m r = m\<lparr>mo_next_ordinal := sat_add (mo_next_ordinal m) 1,
     mo_receipts := (mo_receipts m)[mo_next_receipt m := Some \<lparr>st_ordinal = mo_next_ordinal m, st_receipt = r\<rparr>],
     mo_next_receipt := (mo_next_receipt m + 1) mod ACTION_TIMING_WINDOW,
     mo_receipt_count := min (mo_receipt_count m + 1) ACTION_TIMING_WINDOW\<rparr>"

definition terminal_receipt ::
  "action_sequence \<Rightarrow> action_source \<Rightarrow> action_disposition \<Rightarrow> action_receipt" where
  "terminal_receipt sequence source disposition =
     \<lparr>ar_sequence = sequence, ar_source = source, ar_disposition = disposition, ar_ingress_to_apply_us = None,
      ar_apply_to_submit_us = None, ar_submission_generation = None\<rparr>"

text \<open>\<open>record_terminal\<close> and \<open>terminalize_all_pending\<close> open with \<open>debug_assert_ne!(disposition, Presented)\<close>: a
  contract for their callers that release builds do not check, and that is not part of the model.\<close>

definition record_terminal ::
  "correlation_monitor \<Rightarrow> action_sequence \<Rightarrow> action_source \<Rightarrow> action_disposition \<Rightarrow> correlation_monitor"
  where
  "record_terminal m sequence source disposition = push_receipt m (terminal_receipt sequence source disposition)"

definition record_terminal_identity ::
  "correlation_monitor \<Rightarrow> action_identity \<Rightarrow> action_disposition \<Rightarrow> correlation_monitor" where
  "record_terminal_identity m i disposition = record_terminal m (id_sequence i) (id_source i) disposition"

text \<open>\<open>iter_mut().find(is_none)\<close> and the assignment to the slot it finds.\<close>

fun fill_free_slot :: "'a \<Rightarrow> 'a option list \<Rightarrow> 'a option list option" where
  "fill_free_slot x [] = None"
| "fill_free_slot x (None # slots) = Some (Some x # slots)"
| "fill_free_slot x (Some y # slots) = map_option ((#) (Some y)) (fill_free_slot x slots)"

definition over_capacity :: "correlation_monitor \<Rightarrow> action_identity \<Rightarrow> correlation_monitor" where
  "over_capacity m i =
     record_terminal (m\<lparr>mo_uncorrelated := sat_add (mo_uncorrelated m) 1\<rparr>) (id_sequence i) (id_source i)
       NotYetPresented"

definition record_apply_identity ::
  "correlation_monitor \<Rightarrow> action_identity \<Rightarrow> instant \<Rightarrow> correlation_monitor \<times> bool" where
  "record_apply_identity m i applied0 =
     (if MAX_CORRELATED_ACTIONS_IN_FLIGHT \<le> mo_pending_count m then (over_capacity m i, False)
      else let applied = max applied0 (id_ingress i) in
      case fill_free_slot \<lparr>pa_sequence = id_sequence i, pa_source = id_source i, pa_ingress = id_ingress i,
                            pa_applied = applied\<rparr> (mo_pending m) of
        None \<Rightarrow> (over_capacity m i, False)
      | Some slots \<Rightarrow>
          (m\<lparr>mo_ingress_to_apply := window_record (mo_ingress_to_apply m) (applied - id_ingress i),
             mo_pending := slots, mo_pending_count := mo_pending_count m + 1\<rparr>, True))"

text \<open>Taking the pending actions that satisfy a test out of their slots, in slot order.\<close>

fun somes :: "'a option list \<Rightarrow> 'a list" where
  "somes [] = []"
| "somes (None # xs) = somes xs"
| "somes (Some x # xs) = x # somes xs"

definition taken :: "(pending_action \<Rightarrow> bool) \<Rightarrow> pending_action option list \<Rightarrow> pending_action list" where
  "taken test slots = filter test (somes slots)"

definition kept :: "(pending_action \<Rightarrow> bool) \<Rightarrow> pending_action option list \<Rightarrow> pending_action option list" where
  "kept test slots =
     map (\<lambda>s. case s of Some p \<Rightarrow> if test p then None else Some p | None \<Rightarrow> None) slots"

definition terminalize_all_pending ::
  "correlation_monitor \<Rightarrow> action_disposition \<Rightarrow> correlation_monitor \<times> nat" where
  "terminalize_all_pending m disposition =
     (let completed = taken (\<lambda>p. True) (mo_pending m);
          m1 = m\<lparr>mo_pending := kept (\<lambda>p. True) (mo_pending m),
                  mo_pending_count := mo_pending_count m - length completed\<rparr>
      in (foldl (\<lambda>m p. record_terminal m (pa_sequence p) (pa_source p) disposition) m1 completed,
          length completed))"

definition presented_receipt :: "u64 \<Rightarrow> instant \<Rightarrow> pending_action \<Rightarrow> action_receipt" where
  "presented_receipt generation submitted0 p =
     (let submitted = max submitted0 (pa_applied p) in
      \<lparr>ar_sequence = pa_sequence p, ar_source = pa_source p, ar_disposition = Presented,
       ar_ingress_to_apply_us = Some (duration_micros_u32 (pa_applied p - pa_ingress p)),
       ar_apply_to_submit_us = Some (duration_micros_u32 (submitted - pa_applied p)),
       ar_submission_generation = Some generation\<rparr>)"

definition present_one :: "u64 \<Rightarrow> instant \<Rightarrow> correlation_monitor \<Rightarrow> pending_action \<Rightarrow> correlation_monitor" where
  "present_one generation submitted0 m p =
     (let submitted = max submitted0 (pa_applied p);
          m1 = m\<lparr>mo_apply_to_submit := window_record (mo_apply_to_submit m) (submitted - pa_applied p)\<rparr>;
          m2 = push_receipt m1 (presented_receipt generation submitted0 p)
      in m2\<lparr>mo_last_presented := max (mo_last_presented m2) (pa_sequence p)\<rparr>)"

definition record_submission ::
  "correlation_monitor \<Rightarrow> action_sequence \<Rightarrow> u64 \<Rightarrow> instant \<Rightarrow> correlation_monitor" where
  "record_submission m highest_applied generation submitted =
     (let test = (\<lambda>p. pa_sequence p \<le> highest_applied);
          completed = taken test (mo_pending m);
          m1 = m\<lparr>mo_pending := kept test (mo_pending m),
                  mo_pending_count := mo_pending_count m - length completed\<rparr>;
          m2 = foldl (present_one generation submitted) m1 completed
      in m2\<lparr>mo_last_generation := max (mo_last_generation m2) generation\<rparr>)"

definition monitor_snapshot :: "correlation_monitor \<Rightarrow> timing_snapshot" where
  "monitor_snapshot m =
     \<lparr>ts_ingress_to_apply = window_percentiles (mo_ingress_to_apply m),
      ts_apply_to_submit = window_percentiles (mo_apply_to_submit m),
      ts_last_presented_sequence = mo_last_presented m,
      ts_last_submission_generation = mo_last_generation m,
      ts_pending = (if mo_pending_count m < 2 ^ 16 then of_nat (mo_pending_count m) else - 1),
      ts_uncorrelated_over_capacity = mo_uncorrelated m\<rparr>"

definition stored_receipts :: "correlation_monitor \<Rightarrow> stored_receipt list" where
  "stored_receipts m =
     (let count = mo_receipt_count m;
          start = (if count = ACTION_TIMING_WINDOW then mo_next_receipt m else 0)
      in List.map_filter (\<lambda>offset. mo_receipts m ! ((start + offset) mod ACTION_TIMING_WINDOW)) [0..<count])"

definition receipts_after :: "correlation_monitor \<Rightarrow> u64 \<Rightarrow> (u64 \<times> action_receipt) list" where
  "receipts_after m ordinal =
     map (\<lambda>s. (st_ordinal s, st_receipt s)) (filter (\<lambda>s. ordinal < st_ordinal s) (stored_receipts m))"

end
