(* ===== verification/Correlation_Laws.thy ===== *)
theory Correlation_Laws
  imports Action_Correlation
begin

text \<open>
  The correlation monitor against an unbounded specification: the same slots of pending actions, and
  a log of every receipt ever completed.  The ring of 512 receipts is the end of that log, ordinals
  are positions in it, and every action is either pending or has exactly one receipt.
\<close>

section \<open>Specification\<close>

datatype monitor_op =
    OpApply action_identity instant
  | OpTerminal action_identity action_disposition
  | OpTerminalizeAll action_disposition
  | OpSubmit action_sequence u64 instant

fun monitor_step :: "correlation_monitor \<Rightarrow> monitor_op \<Rightarrow> correlation_monitor" where
  "monitor_step m (OpApply i t) = fst (record_apply_identity m i t)"
| "monitor_step m (OpTerminal i d) = record_terminal_identity m i d"
| "monitor_step m (OpTerminalizeAll d) = fst (terminalize_all_pending m d)"
| "monitor_step m (OpSubmit h g t) = record_submission m h g t"

type_synonym audit = "pending_action option list \<times> action_receipt list"

definition applied_action :: "action_identity \<Rightarrow> instant \<Rightarrow> pending_action" where
  "applied_action i t = \<lparr>pa_sequence = id_sequence i, pa_source = id_source i, pa_ingress = id_ingress i,
     pa_applied = max t (id_ingress i)\<rparr>"

definition closing :: "action_disposition \<Rightarrow> pending_action \<Rightarrow> action_receipt" where
  "closing d p = terminal_receipt (pa_sequence p) (pa_source p) d"

fun audit_step :: "audit \<Rightarrow> monitor_op \<Rightarrow> audit" where
  "audit_step (slots, log) (OpApply i t) =
     (case fill_free_slot (applied_action i t) slots of
        None \<Rightarrow> (slots, log @ [terminal_receipt (id_sequence i) (id_source i) NotYetPresented])
      | Some slots' \<Rightarrow> (slots', log))"
| "audit_step (slots, log) (OpTerminal i d) = (slots, log @ [terminal_receipt (id_sequence i) (id_source i) d])"
| "audit_step (slots, log) (OpTerminalizeAll d) =
     (kept (\<lambda>p. True) slots, log @ map (closing d) (taken (\<lambda>p. True) slots))"
| "audit_step (slots, log) (OpSubmit h g t) =
     (kept (\<lambda>p. pa_sequence p \<le> h) slots,
      log @ map (presented_receipt g t) (taken (\<lambda>p. pa_sequence p \<le> h) slots))"

definition audit_run :: "monitor_op list \<Rightarrow> audit" where
  "audit_run ops = foldl audit_step (replicate MAX_CORRELATED_ACTIONS_IN_FLIGHT None, []) ops"

definition monitor_run :: "monitor_op list \<Rightarrow> correlation_monitor" where
  "monitor_run ops = foldl monitor_step monitor_default ops"

section \<open>Slots\<close>

lemma somes_kept: "somes (kept t slots) = filter (\<lambda>p. \<not> t p) (somes slots)"
proof (induction slots)
  case (Cons s slots)
  then show ?case by (cases s) (simp_all add: kept_def)
qed (simp add: kept_def)

lemma kept_simps [simp]: "length (kept t slots) = length slots"
  by (simp add: kept_def)

lemma somes_split: "mset (somes slots) = mset (somes (kept t slots)) + mset (taken t slots)"
proof -
  have "mset (somes slots) = mset (filter (\<lambda>p. \<not> t p) (somes slots)) + mset (filter t (somes slots))"
    by (simp add: mset_filter)
  then show ?thesis by (simp add: somes_kept taken_def)
qed

lemma somes_length: "length (somes (kept t slots)) = length (somes slots) - length (taken t slots)"
  using arg_cong [OF somes_split [of slots t], of size] by simp

lemma fill_free_spec:
  "fill_free_slot x slots = Some slots' \<Longrightarrow>
   length slots' = length slots \<and> mset (somes slots') = add_mset x (mset (somes slots))"
proof (induction slots arbitrary: slots')
  case (Cons s slots)
  then show ?case by (cases s) auto
qed simp

lemma somes_le: "length (somes slots) \<le> length slots"
proof (induction slots)
  case (Cons s slots)
  then show ?case by (cases s) simp_all
qed simp

lemma fill_free_none: "fill_free_slot x slots = None \<longleftrightarrow> length (somes slots) = length slots"
proof (induction slots)
  case (Cons s slots)
  then show ?case using somes_le [of slots] by (cases s) auto
qed simp

section \<open>The ring\<close>

definition ordinal :: "nat \<Rightarrow> u64" where
  "ordinal k = (if k < 2 ^ 64 then of_nat k else - 1)"

lemma unat_ordinal: "unat (ordinal k) = min k (2 ^ 64 - 1)"
  by (auto simp: ordinal_def unat_of_nat_small unat_max_word)

lemma ordinal_Suc: "sat_add (ordinal k) 1 = ordinal (Suc k)"
  by (simp add: word_unat_eq_iff unat_ordinal rust_arith)

definition ring_holds :: "correlation_monitor \<Rightarrow> action_receipt list \<Rightarrow> bool" where
  "ring_holds m log \<longleftrightarrow>
     length (mo_receipts m) = 512 \<and> mo_next_receipt m = length log mod 512 \<and>
     mo_receipt_count m = min (length log) 512 \<and> mo_next_ordinal m = ordinal (length log + 1) \<and>
     (\<forall>k < length log. length log \<le> k + 512 \<longrightarrow>
        mo_receipts m ! (k mod 512) = Some \<lparr>st_ordinal = ordinal (k + 1), st_receipt = log ! k\<rparr>)"

lemma ring_default: "ring_holds monitor_default []"
  by (simp add: ring_holds_def monitor_default_def ACTION_TIMING_WINDOW_def ordinal_def)

lemma mod_apart: "k < n \<Longrightarrow> n < k + 512 \<Longrightarrow> k mod 512 \<noteq> n mod (512 :: nat)"
proof
  assume "k < n" "n < k + 512" "k mod 512 = n mod 512"
  then have "512 dvd n - k" by (metis mod_eq_dvd_iff_nat less_imp_le)
  with \<open>k < n\<close> \<open>n < k + 512\<close> show False by (auto dest: dvd_imp_le)
qed

lemma ring_push:
  assumes "ring_holds m log"
  shows "ring_holds (push_receipt m r) (log @ [r])"
proof -
  let ?m = "push_receipt m r" and ?n = "length log"
  have cell: "mo_receipts ?m ! (k mod 512) = Some \<lparr>st_ordinal = ordinal (k + 1), st_receipt = (log @ [r]) ! k\<rparr>"
    if "k < Suc ?n" "Suc ?n \<le> k + 512" for k
  proof (cases "k = ?n")
    case True
    then show ?thesis using assms by (simp add: ring_holds_def push_receipt_def)
  next
    case False
    then have "k < ?n" "?n < k + 512" using that by auto
    then show ?thesis using assms mod_apart [of k ?n]
      by (simp add: ring_holds_def push_receipt_def nth_append)
  qed
  have "(?n mod 512 + 1) mod 512 = Suc ?n mod 512" by (simp add: mod_Suc_eq)
  then show ?thesis
    using assms cell
    by (auto simp: ring_holds_def push_receipt_def ACTION_TIMING_WINDOW_def ordinal_Suc)
qed

lemma ring_cong:
  "mo_receipts m' = mo_receipts m \<Longrightarrow> mo_next_receipt m' = mo_next_receipt m \<Longrightarrow>
   mo_receipt_count m' = mo_receipt_count m \<Longrightarrow> mo_next_ordinal m' = mo_next_ordinal m \<Longrightarrow>
   ring_holds m' log = ring_holds m log"
  by (simp add: ring_holds_def)

lemma ring_read:
  assumes "ring_holds m log"
  shows "stored_receipts m =
    map (\<lambda>k. \<lparr>st_ordinal = ordinal (k + 1), st_receipt = log ! k\<rparr>) [length log - 512..<length log]"
proof -
  let ?n = "length log"
  define c where "c = min ?n 512"
  have count: "mo_receipt_count m = c" using assms by (simp add: ring_holds_def c_def)
  define start where "start = (if c = 512 then ?n mod 512 else 0)"
  have pos: "(start + j) mod 512 = (?n - c + j) mod 512" if "j < c" for j
  proof (cases "c = 512")
    case True
    then have "?n = (?n - c) + 512" by (simp add: c_def)
    then have "?n mod 512 = (?n - c) mod 512" by (metis mod_add_self2)
    then show ?thesis using True by (simp add: start_def mod_add_left_eq)
  next
    case False
    then show ?thesis by (simp add: start_def c_def)
  qed
  have cell: "mo_receipts m ! ((start + j) mod 512) =
      Some \<lparr>st_ordinal = ordinal (?n - c + j + 1), st_receipt = log ! (?n - c + j)\<rparr>" if "j < c" for j
  proof -
    have "?n - c + j < ?n" "?n \<le> ?n - c + j + 512" using that by (auto simp: c_def)
    then show ?thesis using assms pos [OF that] by (simp add: ring_holds_def)
  qed
  have "stored_receipts m = map (\<lambda>j. \<lparr>st_ordinal = ordinal (?n - c + j + 1), st_receipt = log ! (?n - c + j)\<rparr>) [0..<c]"
  proof -
    have st: "(if c = 512 then mo_next_receipt m else 0) = start"
      using assms by (simp add: start_def ring_holds_def)
    have "List.map_filter (\<lambda>j. mo_receipts m ! ((start + j) mod 512)) [0..<c] =
        map (\<lambda>j. \<lparr>st_ordinal = ordinal (?n - c + j + 1), st_receipt = log ! (?n - c + j)\<rparr>) [0..<c]"
      using cell by (simp add: map_filter_def cong: filter_cong)
    then show ?thesis by (simp add: stored_receipts_def ACTION_TIMING_WINDOW_def count st Let_def)
  qed
  also have "\<dots> = map (\<lambda>k. \<lparr>st_ordinal = ordinal (k + 1), st_receipt = log ! k\<rparr>) [?n - c..<?n]"
    by (rule nth_equalityI) (auto simp: c_def)
  finally show ?thesis by (simp add: c_def min_def split: if_splits)
qed

section \<open>The simulation\<close>

definition simulates :: "correlation_monitor \<Rightarrow> audit \<Rightarrow> bool" where
  "simulates m a \<longleftrightarrow> mo_pending m = fst a \<and> length (fst a) = 512 \<and>
     mo_pending_count m = length (somes (fst a)) \<and> ring_holds m (snd a)"

lemma simulates_default: "simulates monitor_default (replicate MAX_CORRELATED_ACTIONS_IN_FLIGHT None, [])"
proof -
  have "somes (replicate n None) = []" for n by (induction n) simp_all
  then show ?thesis
    using ring_default by (simp add: simulates_def monitor_default_def MAX_CORRELATED_ACTIONS_IN_FLIGHT_def)
qed

text \<open>Completing a list of taken actions pushes their receipts and touches no slot.\<close>

lemma complete_all:
  assumes "\<And>m p. mo_pending (f m p) = mo_pending m \<and> mo_pending_count (f m p) = mo_pending_count m"
    and "\<And>m p log. ring_holds m log \<Longrightarrow> ring_holds (f m p) (log @ [g p])"
    and "ring_holds m log"
  shows "mo_pending (foldl f m ps) = mo_pending m \<and> mo_pending_count (foldl f m ps) = mo_pending_count m \<and>
    ring_holds (foldl f m ps) (log @ map g ps)"
  using assms(3)
proof (induction ps arbitrary: m log)
  case (Cons p ps)
  have "ring_holds (f m p) (log @ [g p])" using Cons.prems by (rule assms(2))
  from Cons.IH [OF this] show ?case using assms(1) [of m p] by simp
qed simp

lemma push_slots:
  "mo_pending (push_receipt m r) = mo_pending m" "mo_pending_count (push_receipt m r) = mo_pending_count m"
  by (simp_all add: push_receipt_def)

lemma ring_present_one: "ring_holds m log \<Longrightarrow> ring_holds (present_one g t m p) (log @ [presented_receipt g t p])"
proof -
  assume r: "ring_holds m log"
  let ?m1 = "m\<lparr>mo_apply_to_submit := window_record (mo_apply_to_submit m) (max t (pa_applied p) - pa_applied p)\<rparr>"
  have "ring_holds ?m1 log" using r by (simp add: ring_holds_def)
  then have "ring_holds (push_receipt ?m1 (presented_receipt g t p)) (log @ [presented_receipt g t p])"
    by (rule ring_push)
  then show ?thesis by (simp add: present_one_def Let_def ring_holds_def)
qed

lemma simulates_step: "simulates m a \<Longrightarrow> simulates (monitor_step m op) (audit_step a op)"
proof -
  assume sim: "simulates m a"
  obtain slots log where a: "a = (slots, log)" by (cases a)
  have p: "mo_pending m = slots" "length slots = 512" "mo_pending_count m = length (somes slots)"
    and r: "ring_holds m log" using sim by (simp_all add: a simulates_def)
  show ?thesis
  proof (cases op)
    case (OpApply i t)
    have over: "simulates (over_capacity m i) (slots, log @ [terminal_receipt (id_sequence i) (id_source i) NotYetPresented])"
      using p ring_push [of "m\<lparr>mo_uncorrelated := sat_add (mo_uncorrelated m) 1\<rparr>" log] r
      by (simp add: simulates_def over_capacity_def record_terminal_def push_slots ring_holds_def)
    show ?thesis
    proof (cases "fill_free_slot (applied_action i t) slots")
      case None
      then have "mo_pending_count m = 512" using p by (simp add: fill_free_none)
      then show ?thesis using over None
        by (simp add: OpApply a record_apply_identity_def MAX_CORRELATED_ACTIONS_IN_FLIGHT_def)
    next
      case (Some slots')
      note F = fill_free_spec [OF Some]
      have "length (somes slots') = Suc (length (somes slots))" using arg_cong [OF F [THEN conjunct2], of size] by simp
      moreover have "length (somes slots) \<noteq> 512" using Some p fill_free_none [of "applied_action i t" slots] by simp
      then have "length (somes slots) < 512" using somes_le [of slots] p(2) by linarith
      ultimately show ?thesis using p r F Some
        by (simp add: OpApply a record_apply_identity_def MAX_CORRELATED_ACTIONS_IN_FLIGHT_def simulates_def
            Let_def applied_action_def ring_holds_def)
    qed
  next
    case (OpTerminal i d)
    then show ?thesis using p ring_push [OF r]
      by (simp add: a simulates_def record_terminal_identity_def record_terminal_def push_slots)
  next
    case (OpTerminalizeAll d)
    let ?c = "taken (\<lambda>p. True) slots"
    let ?m1 = "m\<lparr>mo_pending := kept (\<lambda>p. True) slots, mo_pending_count := mo_pending_count m - length ?c\<rparr>"
    have r1: "ring_holds ?m1 log" using r by (simp add: ring_holds_def)
    have "ring_holds m log \<Longrightarrow> ring_holds (record_terminal m (pa_sequence p) (pa_source p) d) (log @ [closing d p])"
      for m p log by (simp add: record_terminal_def closing_def ring_push)
    from complete_all [OF _ this r1, where ps = ?c] show ?thesis
      using p by (simp add: OpTerminalizeAll a simulates_def terminalize_all_pending_def Let_def record_terminal_def
          push_slots somes_length)
  next
    case (OpSubmit h g t)
    let ?t = "\<lambda>p. pa_sequence p \<le> h"
    let ?c = "taken ?t slots"
    let ?m1 = "m\<lparr>mo_pending := kept ?t slots, mo_pending_count := mo_pending_count m - length ?c\<rparr>"
    have r1: "ring_holds ?m1 log" using r by (simp add: ring_holds_def)
    have s: "mo_pending (present_one g t m p) = mo_pending m \<and> mo_pending_count (present_one g t m p) = mo_pending_count m"
      for m p by (simp add: present_one_def Let_def push_slots)
    note C = complete_all [OF s ring_present_one r1, where ps = ?c]
    show ?thesis
      using p C by (simp add: OpSubmit a simulates_def record_submission_def Let_def somes_length ring_holds_def)
  qed
qed

lemma simulates_run: "simulates (monitor_run ops) (audit_run ops)"
proof -
  have "simulates m a \<Longrightarrow> simulates (foldl monitor_step m ops) (foldl audit_step a ops)" for m a
    by (induction ops arbitrary: m a) (simp_all add: simulates_step)
  then show ?thesis using simulates_default by (simp add: monitor_run_def audit_run_def)
qed

section \<open>Conservation and polling\<close>

type_synonym action_key = "action_sequence \<times> action_source"

definition pending_key :: "pending_action \<Rightarrow> action_key" where
  "pending_key p = (pa_sequence p, pa_source p)"

definition receipt_key :: "action_receipt \<Rightarrow> action_key" where
  "receipt_key r = (ar_sequence r, ar_source r)"

fun op_keys :: "monitor_op \<Rightarrow> action_key multiset" where
  "op_keys (OpApply i t) = {#(id_sequence i, id_source i)#}"
| "op_keys (OpTerminal i d) = {#(id_sequence i, id_source i)#}"
| "op_keys _ = {#}"

definition audit_keys :: "audit \<Rightarrow> action_key multiset" where
  "audit_keys a = image_mset pending_key (mset (somes (fst a))) + image_mset receipt_key (mset (snd a))"

lemma key_of_receipts:
  "receipt_key (closing d p) = pending_key p" "receipt_key (presented_receipt g t p) = pending_key p"
  "receipt_key (terminal_receipt s src d) = (s, src)"
  by (simp_all add: receipt_key_def closing_def pending_key_def terminal_receipt_def presented_receipt_def Let_def)

lemma completing_conserves:
  assumes "\<And>p. receipt_key (f p) = pending_key p"
  shows "audit_keys (kept t slots, log @ map f (taken t slots)) = audit_keys (slots, log)"
proof -
  have "image_mset receipt_key (mset (map f (taken t slots))) = image_mset pending_key (mset (taken t slots))"
    by (simp add: assms image_mset.compositionality comp_def)
  then show ?thesis by (simp add: audit_keys_def somes_split [of slots t])
qed

lemma audit_step_keys: "audit_keys (audit_step a op) = audit_keys a + op_keys op"
proof -
  obtain slots log where a: "a = (slots, log)" by (cases a)
  show ?thesis
  proof (cases op)
    case (OpApply i t)
    show ?thesis
    proof (cases "fill_free_slot (applied_action i t) slots")
      case None
      then show ?thesis by (simp add: a OpApply audit_keys_def key_of_receipts)
    next
      case (Some slots')
      then show ?thesis using fill_free_spec [OF Some]
        by (simp add: a OpApply audit_keys_def pending_key_def applied_action_def)
    qed
  next
    case (OpTerminal i d)
    then show ?thesis by (simp add: a audit_keys_def key_of_receipts)
  next
    case (OpTerminalizeAll d)
    then show ?thesis by (simp add: a completing_conserves key_of_receipts)
  next
    case (OpSubmit h g t)
    then show ?thesis by (simp add: a completing_conserves key_of_receipts)
  qed
qed

lemma audit_run_keys: "audit_keys (audit_run ops) = (\<Sum>op\<leftarrow>ops. op_keys op)"
proof -
  have "audit_keys (foldl audit_step a ops) = audit_keys a + (\<Sum>op\<leftarrow>ops. op_keys op)" for a
    by (induction ops arbitrary: a) (simp_all add: audit_step_keys ac_simps)
  moreover have "somes (replicate n None) = []" for n :: nat by (induction n) simp_all
  ultimately show ?thesis by (simp add: audit_run_def audit_keys_def)
qed

text \<open>C37. The monitor loses and invents no action.  After any operations the fixed arrays hold exactly
  what the unbounded specification holds: the same pending slots, at most 512, counted right, and
  the last 512 receipts of its log; and every action ever given to the monitor, as often as it was
  given, is either still pending or has one receipt in that log.\<close>

theorem monitor_conserves_actions:
  "case audit_run ops of (slots, log) \<Rightarrow>
     mo_pending (monitor_run ops) = slots \<and> mo_pending_count (monitor_run ops) = length (somes slots) \<and>
     mo_pending_count (monitor_run ops) \<le> 512 \<and>
     map st_receipt (stored_receipts (monitor_run ops)) = drop (length log - 512) log \<and>
     image_mset pending_key (mset (somes slots)) + image_mset receipt_key (mset log) = (\<Sum>op\<leftarrow>ops. op_keys op)"
proof -
  obtain slots log where a: "audit_run ops = (slots, log)" by fastforce
  have sim: "simulates (monitor_run ops) (slots, log)" using simulates_run [of ops] by (simp add: a)
  then have "ring_holds (monitor_run ops) log" by (simp add: simulates_def)
  from ring_read [OF this] have "map st_receipt (stored_receipts (monitor_run ops)) =
      map ((!) log) [length log - 512..<length log]" by simp
  also have "\<dots> = drop (length log - 512) log"
    by (rule nth_equalityI) simp_all
  finally have "map st_receipt (stored_receipts (monitor_run ops)) = drop (length log - 512) log" .
  moreover have "image_mset pending_key (mset (somes slots)) + image_mset receipt_key (mset log) =
      (\<Sum>op\<leftarrow>ops. op_keys op)"
    using audit_run_keys [of ops] by (simp add: a audit_keys_def)
  ultimately show ?thesis using sim somes_le [of slots] by (simp add: a simulates_def)
qed

text \<open>Polling by completion order skips nothing: a reader that has seen the first \<open>n\<close> completions and
  asks again before 512 more have happened gets exactly the new receipts, in completion order,
  although actions may complete out of sequence order (ordinals are exact below their ceiling).\<close>

theorem polling_never_skips:
  assumes "audit_run ops = (slots, log)" and "n \<le> length log" and "length log \<le> n + 512"
    and "length log < 2 ^ 64 - 1"
  shows "map snd (receipts_after (monitor_run ops) (of_nat n)) = drop n log"
proof -
  have "ring_holds (monitor_run ops) log" using simulates_run [of ops] assms(1) by (simp add: simulates_def)
  note read = ring_read [OF this]
  let ?l = "length log - 512" and ?r = "length log"
  have lt: "(of_nat n :: u64) < ordinal (Suc k) \<longleftrightarrow> n \<le> k" if "k < ?r" for k
  proof -
    have "unat (of_nat n :: u64) = n" using assms(2,4) by (intro unat_of_nat_small) simp
    then show ?thesis using that assms(4) by (simp add: word_less_nat_alt unat_ordinal less_Suc_eq_le)
  qed
  have "map snd (receipts_after (monitor_run ops) (of_nat n)) =
      map ((!) log) (filter (\<lambda>k. (of_nat n :: u64) < ordinal (Suc k)) [?l..<?r])"
    by (simp add: receipts_after_def read filter_map comp_def)
  also have "filter (\<lambda>k. (of_nat n :: u64) < ordinal (Suc k)) [?l..<?r] = filter (\<lambda>k. n \<le> k) [?l..<?r]"
    by (intro filter_cong) (simp_all add: lt)
  also have "[?l..<?r] = [?l..<n] @ [n..<?r]" using assms(2,3) upt_add_eq_append [of ?l n "?r - n"] by simp
  also have "filter (\<lambda>k. n \<le> k) \<dots> = [n..<?r]" by (simp add: filter_empty_conv)
  also have "map ((!) log) [n..<?r] = drop n log" by (rule nth_equalityI) simp_all
  finally show ?thesis .
qed

definition sample_identity :: action_identity where
  "sample_identity = \<lparr>id_sequence = 9, id_source = SrcOsc, id_ingress = 100\<rparr>"

theorem polling_never_skips_witness:
  "map snd (receipts_after (monitor_run [OpTerminal sample_identity Refused, OpTerminal sample_identity Coalesced]) 1) =
     [terminal_receipt 9 SrcOsc Coalesced]"
  using polling_never_skips [of "[OpTerminal sample_identity Refused, OpTerminal sample_identity Coalesced]"
      "replicate 512 None" "[terminal_receipt 9 SrcOsc Refused, terminal_receipt 9 SrcOsc Coalesced]" 1]
  by (simp add: audit_run_def MAX_CORRELATED_ACTIONS_IN_FLIGHT_def sample_identity_def)

end
