(* ===== verification/Osc_Codec.thy ===== *)
theory Osc_Codec
  imports Control_Profile Byte_Codec
begin

text \<open>
  The wire side of \<open>src/src/osc.rs\<close>: the configuration document and its safety checks, control
  addresses as OSC paths, and the packet codec (strings padded to four bytes, one scalar per
  message, nested bundles).  Datagrams are byte lists, offsets are natural numbers; no addition of
  the source can overflow below the datagram limit.  JSON is an argument, sockets are not modelled.
\<close>

section \<open>Configuration\<close>

definition OSC_CONFIG_VERSION :: u16 where "OSC_CONFIG_VERSION = 1"
definition OSC_CONFIG_MAX_BYTES :: nat where "OSC_CONFIG_MAX_BYTES = 32 * 1024"
definition OSC_MAX_FEEDBACK_PEERS :: nat where "OSC_MAX_FEEDBACK_PEERS = 8"
definition OSC_MAX_DATAGRAM_BYTES :: nat where "OSC_MAX_DATAGRAM_BYTES = 16 * 1024"
definition OSC_MAX_RECEIVE_ATTEMPTS_PER_TICK :: nat where "OSC_MAX_RECEIVE_ATTEMPTS_PER_TICK = 64"
definition OSC_MAX_STRING_BYTES :: nat where "OSC_MAX_STRING_BYTES = 256"
definition OSC_MAX_BUNDLE_DEPTH :: nat where "OSC_MAX_BUNDLE_DEPTH = 4"
definition OSC_MAX_MESSAGES_PER_PACKET :: nat where "OSC_MAX_MESSAGES_PER_PACKET = 128"
definition OSC_EVENT_QUEUE_CAPACITY :: nat where "OSC_EVENT_QUEUE_CAPACITY = 1024"
definition OSC_FEEDBACK_KEYS_CAPACITY :: nat where "OSC_FEEDBACK_KEYS_CAPACITY = 512"
definition OSC_MAX_PACKETS_PER_SECOND :: u64 where "OSC_MAX_PACKETS_PER_SECOND = 2000"

datatype osc_bind_mode = OscLoopback u16 | OscLan u16 bool

definition bind_mode_default :: osc_bind_mode where "bind_mode_default = OscLoopback 9000"

fun bind_address :: "osc_bind_mode \<Rightarrow> socket_addr" where
  "bind_address (OscLoopback port) = SocketV4 0x7F000001 port"
| "bind_address (OscLan port enabled) = SocketV4 0 port"

fun lan_warning :: "osc_bind_mode \<Rightarrow> bool" where
  "lan_warning (OscLoopback port) = False"
| "lan_warning (OscLan port enabled) = enabled"

record osc_config =
  oc_version :: u16
  oc_bind :: osc_bind_mode
  oc_feedback_peers :: "socket_addr list"

definition osc_config_default :: osc_config where
  "osc_config_default = \<lparr>oc_version = OSC_CONFIG_VERSION, oc_bind = bind_mode_default, oc_feedback_peers = []\<rparr>"

datatype osc_error =
    OeConfigBytes nat
  | OeConfigJson rstr
  | OeConfigVersion u16
  | OeLanNotExplicitlyEnabled
  | OeFeedbackPeerCount nat
  | OeUnsafeFeedbackPeer socket_addr
  | OeDatagramBytes nat
  | OeStringBytes nat
  | OeBundleDepth nat
  | OeMessageCount nat
  | OeAddress
  | OeParameter
  | OeStableId
  | OeUnsupportedAddress
  | OeTypeTag
  | OeNonFinite
  | OeUtf8
  | OeMalformed
  | OeIo rstr

definition peer_unsafe :: "osc_bind_mode \<Rightarrow> socket_addr \<Rightarrow> bool" where
  "peer_unsafe bind peer \<longleftrightarrow>
     socket_port peer = 0 \<or> ip_is_unspecified (socket_ip peer) \<or> ip_is_multicast (socket_ip peer) \<or>
     socket_ip peer = IpV4 0xFFFFFFFF \<or>
     ((case bind of OscLoopback p \<Rightarrow> True | _ \<Rightarrow> False) \<and> \<not> ip_is_loopback (socket_ip peer))"

fun validate_peers :: "osc_bind_mode \<Rightarrow> socket_addr list \<Rightarrow> osc_error + unit" where
  "validate_peers bind [] = Inr ()"
| "validate_peers bind (p # ps) =
     (if peer_unsafe bind p then Inl (OeUnsafeFeedbackPeer p) else validate_peers bind ps)"

definition osc_config_validate :: "osc_config \<Rightarrow> osc_error + unit" where
  "osc_config_validate c =
     (if oc_version c \<noteq> OSC_CONFIG_VERSION then Inl (OeConfigVersion (oc_version c))
      else if (case oc_bind c of OscLan p enabled \<Rightarrow> \<not> enabled | _ \<Rightarrow> False)
        then Inl OeLanNotExplicitlyEnabled
      else if OSC_MAX_FEEDBACK_PEERS < length (oc_feedback_peers c)
        then Inl (OeFeedbackPeerCount (length (oc_feedback_peers c)))
      else validate_peers (oc_bind c) (oc_feedback_peers c))"

definition osc_config_from_json :: "(bytes \<Rightarrow> rstr + osc_config) \<Rightarrow> bytes \<Rightarrow> osc_error + osc_config" where
  "osc_config_from_json parse bs =
     (if OSC_CONFIG_MAX_BYTES < length bs then Inl (OeConfigBytes (length bs))
      else rbind (case parse bs of Inl e \<Rightarrow> Inl (OeConfigJson e) | Inr c \<Rightarrow> Inr c)
        (\<lambda>c. rbind (osc_config_validate c) (\<lambda>_. Inr c)))"

definition osc_config_to_json :: "(osc_config \<Rightarrow> rstr + bytes) \<Rightarrow> osc_config \<Rightarrow> osc_error + bytes" where
  "osc_config_to_json print c =
     rbind (osc_config_validate c) (\<lambda>_.
       rbind (case print c of Inl e \<Rightarrow> Inl (OeConfigJson e) | Inr bs \<Rightarrow> Inr bs)
        (\<lambda>bs. if OSC_CONFIG_MAX_BYTES < length bs then Inl (OeConfigBytes (length bs)) else Inr bs))"

section \<open>Control addresses as paths\<close>

definition address_path :: "runtime_control_address \<Rightarrow> osc_error + rstr" where
  "address_path a =
     (case a of
        RcLegacyMidiSlot s \<Rightarrow> Inl OeUnsupportedAddress
      | RcMaster p \<Rightarrow> Inr (lit ''/collide/v1/master/'' @ control_key p)
      | RcLayer layer p \<Rightarrow>
          Inr (lit ''/collide/v1/layer/'' @ decimal (unat layer) @ lit ''/'' @ control_key p)
      | RcGroup g p \<Rightarrow> Inr (lit ''/collide/v1/group/'' @ decimal (unat g) @ lit ''/'' @ control_key p)
      | RcNode RnMaster n p \<Rightarrow>
          Inr (lit ''/collide/v1/node/master/'' @ decimal (unat n) @ lit ''/'' @ control_key p)
      | RcNode (RnLayer layer) n p \<Rightarrow>
          Inr (lit ''/collide/v1/node/layer/'' @ decimal (unat layer) @ lit ''/'' @ decimal (unat n) @
               lit ''/'' @ control_key p)
      | RcNode (RnGroup g) n p \<Rightarrow>
          Inr (lit ''/collide/v1/node/group/'' @ decimal (unat g) @ lit ''/'' @ decimal (unat n) @
               lit ''/'' @ control_key p)
      | RcTransport p \<Rightarrow> Inr (lit ''/collide/v1/transport/'' @ control_key p)
      | RcScenePrepare s \<Rightarrow> Inr (lit ''/collide/v1/scene/'' @ decimal (unat s) @ lit ''/prepare'')
      | RcSceneTrigger s \<Rightarrow> Inr (lit ''/collide/v1/scene/'' @ decimal (unat s) @ lit ''/trigger''))"

definition format_control_address :: "runtime_control_address \<Rightarrow> osc_error + rstr" where
  "format_control_address a =
     rbind (address_path a) (\<lambda>path.
       if OSC_MAX_STRING_BYTES < str_len path then Inl (OeStringBytes (str_len path)) else Inr path)"

fun str_split :: "nat \<Rightarrow> rstr \<Rightarrow> rstr list" where
  "str_split sep [] = [[]]"
| "str_split sep (c # cs) =
     (if c = sep then [] # str_split sep cs
      else case str_split sep cs of [] \<Rightarrow> [[c]] | w # ws \<Rightarrow> (c # w) # ws)"

definition parse_u64 :: "rstr \<Rightarrow> osc_error + u64" where
  "parse_u64 v =
     (if v = [] \<or> 20 < str_len v \<or> \<not> list_all is_ascii_digit (utf8 v) then Inl OeStableId
      else if 2 ^ 64 \<le> decimal_value v then Inl OeStableId
      else Inr (of_nat (decimal_value v)))"

definition parse_scene_id :: "rstr \<Rightarrow> osc_error + scene_id" where
  "parse_scene_id v =
     rbind (parse_u64 v) (\<lambda>n.
       rbind (if unat n < 2 ^ 16 then Inr (ucast n) else Inl OeStableId) (\<lambda>w.
         ok_or (scene_id_new w) OeStableId))"

definition parse_parameter :: "rstr \<Rightarrow> osc_error + control_parameter" where
  "parse_parameter key = ok_or (control_parse key) OeParameter"

definition parse_id :: "(u64 \<Rightarrow> u64 option) \<Rightarrow> rstr \<Rightarrow> osc_error + u64" where
  "parse_id new v = rbind (parse_u64 v) (\<lambda>n. ok_or (new n) OeStableId)"

text \<open>The slice patterns of the \<open>match\<close>, on the segments after the fixed prefix.\<close>

definition parse_segments :: "rstr list \<Rightarrow> osc_error + runtime_control_address" where
  "parse_segments segs =
     (case segs of
        [a, key] \<Rightarrow>
          if a = lit ''master'' then rbind (parse_parameter key) (\<lambda>p. Inr (RcMaster p))
          else if a = lit ''transport'' then rbind (parse_parameter key) (\<lambda>p. Inr (RcTransport p))
          else Inl OeAddress
      | [a, i, key] \<Rightarrow>
          if a = lit ''layer'' then
            rbind (parse_id stable_layer_id_new i) (\<lambda>n. rbind (parse_parameter key) (\<lambda>p. Inr (RcLayer n p)))
          else if a = lit ''group'' then
            rbind (parse_id group_id_new i) (\<lambda>n. rbind (parse_parameter key) (\<lambda>p. Inr (RcGroup n p)))
          else if a = lit ''scene'' \<and> key = lit ''prepare'' then
            rbind (parse_scene_id i) (\<lambda>s. Inr (RcScenePrepare s))
          else if a = lit ''scene'' \<and> key = lit ''trigger'' then
            rbind (parse_scene_id i) (\<lambda>s. Inr (RcSceneTrigger s))
          else Inl OeAddress
      | [a, b, node, key] \<Rightarrow>
          if a = lit ''node'' \<and> b = lit ''master'' then
            rbind (parse_id node_id_new node) (\<lambda>n. rbind (parse_parameter key) (\<lambda>p.
              Inr (RcNode RnMaster n p)))
          else Inl OeAddress
      | [a, b, i, node, key] \<Rightarrow>
          if a = lit ''node'' \<and> b = lit ''layer'' then
            rbind (parse_id stable_layer_id_new i) (\<lambda>l. rbind (parse_id node_id_new node) (\<lambda>n.
              rbind (parse_parameter key) (\<lambda>p. Inr (RcNode (RnLayer l) n p))))
          else if a = lit ''node'' \<and> b = lit ''group'' then
            rbind (parse_id group_id_new i) (\<lambda>g. rbind (parse_id node_id_new node) (\<lambda>n.
              rbind (parse_parameter key) (\<lambda>p. Inr (RcNode (RnGroup g) n p))))
          else Inl OeAddress
      | _ \<Rightarrow> Inl OeAddress)"

definition parse_control_address :: "rstr \<Rightarrow> osc_error + runtime_control_address" where
  "parse_control_address path =
     (if OSC_MAX_STRING_BYTES < str_len path \<or> list_ex char_is_control path
      then Inl (OeStringBytes (str_len path))
      else let segments = str_split 47 path in
      if take 3 segments \<noteq> [[], lit ''collide'', lit ''v1''] then Inl OeAddress
      else parse_segments (drop 3 segments))"

section \<open>Decoding packets\<close>

record osc_event =
  oe_address :: runtime_control_address
  oe_value :: automation_value
  oe_origin :: automation_origin

record decoded_message =
  dm_address :: runtime_control_address
  dm_value :: f32

definition slice_get :: "bytes \<Rightarrow> nat \<Rightarrow> nat \<Rightarrow> bytes option" where
  "slice_get bs a b = (if a \<le> b \<and> b \<le> length bs then Some (take (b - a) (drop a bs)) else None)"

definition read_i32 :: "bytes \<Rightarrow> nat \<Rightarrow> osc_error + i32" where
  "read_i32 bs offset = rbind (ok_or (slice_get bs offset (offset + 4)) OeMalformed) (\<lambda>w. Inr (u32_of_be w))"

definition read_osc_string :: "bytes \<Rightarrow> nat \<Rightarrow> osc_error + (rstr \<times> nat)" where
  "read_osc_string bs offset =
     (if length bs < offset then Inl OeMalformed
      else let tail = drop offset bs; n = length (takeWhile (\<lambda>b. b \<noteq> 0) tail) in
      if n = length tail then Inl OeMalformed
      else if OSC_MAX_STRING_BYTES < n then Inl (OeStringBytes n)
      else case from_utf8 (take n tail) of
        None \<Rightarrow> Inl OeUtf8
      | Some v \<Rightarrow>
          (let padded = (n + 4) div 4 * 4; end_offset = offset + padded in
           if length bs < end_offset \<or> list_ex (\<lambda>b. b \<noteq> 0) (take (padded - (n + 1)) (drop (n + 1) tail))
           then Inl OeMalformed else Inr (v, end_offset)))"

definition decode_scalar :: "rstr \<Rightarrow> bytes \<Rightarrow> nat \<Rightarrow> osc_error + (f32 \<times> nat)" where
  "decode_scalar types bs offset =
     (if types = lit '',f'' then
        rbind (ok_or (slice_get bs offset (offset + 4)) OeMalformed) (\<lambda>w.
          let v = u32_of_be w in
          if \<not> f32_is_finite v then Inl OeNonFinite else Inr (f32_clamp01 v, offset + 4))
      else if types = lit '',i'' then
        rbind (read_i32 bs offset) (\<lambda>i. Inr (f32_of_int (max 0 (min 1 (sint i))), offset + 4))
      else if types = lit '',T'' then Inr (F32_ONE, offset)
      else if types = lit '',F'' then Inr (F32_ZERO, offset)
      else Inl OeTypeTag)"

definition decode_message :: "bytes \<Rightarrow> osc_error + decoded_message" where
  "decode_message bs =
     rbind (read_osc_string bs 0) (\<lambda>(address, offset0).
     rbind (read_osc_string bs offset0) (\<lambda>(types, offset).
     rbind (parse_control_address address) (\<lambda>a.
     rbind (decode_scalar types bs offset) (\<lambda>(v, expected_length).
       if expected_length \<noteq> length bs then Inl OeMalformed
       else Inr \<lparr>dm_address = a, dm_value = v\<rparr>))))"

definition BUNDLE_TAG :: bytes where "BUNDLE_TAG = utf8 (lit ''#bundle'') @ [0]"

function (sequential)
  decode_packet_inner :: "bytes \<Rightarrow> nat \<Rightarrow> decoded_message list \<Rightarrow> osc_error + decoded_message list" and
  decode_bundle :: "bytes \<Rightarrow> nat \<Rightarrow> nat \<Rightarrow> decoded_message list \<Rightarrow> osc_error + decoded_message list" where
  "decode_packet_inner bs depth messages =
     (if OSC_MAX_BUNDLE_DEPTH < depth then Inl (OeBundleDepth depth)
      else if OSC_MAX_MESSAGES_PER_PACKET \<le> length messages
        then Inl (OeMessageCount (length messages + 1))
      else if take 8 bs = BUNDLE_TAG then
        (if length bs < 16 then Inl OeMalformed else decode_bundle bs 16 depth messages)
      else rbind (decode_message bs) (\<lambda>m. Inr (messages @ [m])))"
| "decode_bundle bs offset depth messages =
     (if offset < length bs then
        (case read_i32 bs offset of
           Inl e \<Rightarrow> Inl e
         | Inr len \<Rightarrow>
             if sint len < 0 then Inl OeMalformed
             else (case slice_get bs (offset + 4) (offset + 4 + nat (sint len)) of
                 None \<Rightarrow> Inl OeMalformed
               | Some element \<Rightarrow>
                   (case decode_packet_inner element (depth + 1) messages of
                      Inl e \<Rightarrow> Inl e
                    | Inr messages' \<Rightarrow>
                        decode_bundle bs (offset + 4 + nat (sint len)) depth messages')))
      else Inr messages)"
  by pat_completeness auto
termination
  by (relation "measures [\<lambda>x. case x of Inl (bs, _) \<Rightarrow> length bs | Inr (bs, _) \<Rightarrow> length bs,
        \<lambda>x. case x of Inl (bs, _) \<Rightarrow> Suc (length bs) | Inr (bs, offset, _) \<Rightarrow> length bs - offset]")
    (auto simp: slice_get_def split: if_splits)

declare decode_packet_inner.simps [simp del] decode_bundle.simps [simp del]

definition message_event :: "socket_addr \<Rightarrow> decoded_message \<Rightarrow> osc_event" where
  "message_event peer m =
     \<lparr>oe_address = dm_address m,
      oe_value = (if runtime_is_scene_action (dm_address m)
        then (if f32_le F32_HALF (dm_value m) then AvTrigger else AvGate False)
        else AvAbsolute (dm_value m)),
      oe_origin = OriginOsc peer\<rparr>"

definition decode_packet :: "bytes \<Rightarrow> socket_addr \<Rightarrow> osc_error + osc_event list" where
  "decode_packet bs peer =
     (if OSC_MAX_DATAGRAM_BYTES < length bs then Inl (OeDatagramBytes (length bs))
      else rbind (decode_packet_inner bs 0 []) (\<lambda>messages. Inr (map (message_event peer) messages)))"

section \<open>Encoding feedback\<close>

definition pad4 :: "bytes \<Rightarrow> bytes" where
  "pad4 bs = bs @ replicate ((4 - length bs mod 4) mod 4) 0"

definition push_osc_string :: "bytes \<Rightarrow> rstr \<Rightarrow> osc_error + bytes" where
  "push_osc_string output v =
     (if OSC_MAX_STRING_BYTES < str_len v \<or> 0 \<in> set (utf8 v) then Inl (OeStringBytes (str_len v))
      else Inr (pad4 (output @ utf8 v @ [0])))"

definition encode_feedback :: "runtime_control_address \<Rightarrow> f32 \<Rightarrow> osc_error + bytes" where
  "encode_feedback address v =
     (if \<not> f32_is_finite v then Inl OeNonFinite
      else rbind (format_control_address address) (\<lambda>path.
        rbind (push_osc_string [] path) (\<lambda>bs.
        rbind (push_osc_string bs (lit '',f'')) (\<lambda>bs'.
          Inr (bs' @ u32_be (f32_clamp01 v))))))"

end
