(* ===== verification/Osc_Laws.thy ===== *)
theory Osc_Laws
  imports Osc_Codec Decoder_Laws
begin

text \<open>
  What the OSC codec promises: every control address a live show can have survives formatting and
  parsing, encoded feedback decodes to exactly the one event it describes, and whatever a packet
  decodes to is bounded in number and in value and names live identities only.
\<close>

section \<open>Paths\<close>

text \<open>The addresses that live code can hold: identities are not zero, and a path exists.\<close>

fun osc_address :: "runtime_control_address \<Rightarrow> bool" where
  "osc_address (RcLegacyMidiSlot s) = False"
| "osc_address (RcMaster p) = True"
| "osc_address (RcLayer l p) = (l \<noteq> 0)"
| "osc_address (RcGroup g p) = (g \<noteq> 0)"
| "osc_address (RcNode RnMaster n p) = (n \<noteq> 0)"
| "osc_address (RcNode (RnLayer l) n p) = (l \<noteq> 0 \<and> n \<noteq> 0)"
| "osc_address (RcNode (RnGroup g) n p) = (g \<noteq> 0 \<and> n \<noteq> 0)"
| "osc_address (RcTransport p) = True"
| "osc_address (RcScenePrepare s) = (s \<noteq> 0)"
| "osc_address (RcSceneTrigger s) = (s \<noteq> 0)"

lemma lit_simps [simp]: "lit [] = []" "lit (c # cs) = of_char c # lit cs"
  by (simp_all add: lit_def)

definition path_char :: "nat \<Rightarrow> bool" where
  "path_char c \<longleftrightarrow> 32 < c \<and> c < 0x7F"

definition word_char :: "nat \<Rightarrow> bool" where
  "word_char c \<longleftrightarrow> 47 < c \<and> c < 0x7F"

lemma word_path: "word_char c \<Longrightarrow> path_char c"
  by (simp add: word_char_def path_char_def)

lemma control_key_word: "\<forall>c \<in> set (control_key p). word_char c"
  by (cases p) (simp_all add: word_char_def)

lemma control_key_len: "length (control_key p) \<le> 24"
  by (cases p) simp_all

lemma control_parse_key [simp]: "control_parse (control_key p) = Some p"
  by (cases p) (simp_all add: control_parse_def control_table_def)

lemma decimal_word: "\<forall>c \<in> set (decimal n). word_char c"
  using decimal_digits by (fastforce simp: word_char_def)

lemma ascii_utf8: "\<forall>c \<in> set s. path_char c \<Longrightarrow> utf8 s = map of_nat s \<and> str_len s = length s"
proof -
  assume "\<forall>c \<in> set s. path_char c"
  then have "\<forall>c \<in> set s. c < 0x80" by (fastforce simp: path_char_def)
  then show ?thesis by (simp add: utf8_ascii str_len_ascii)
qed

lemma split_word: "\<forall>c \<in> set s. word_char c \<Longrightarrow> str_split 47 s = [s]"
  by (induction s) (auto simp: word_char_def)

lemma split_word_slash: "\<forall>c \<in> set s. word_char c \<Longrightarrow> str_split 47 (s @ 47 # t) = s # str_split 47 t"
  by (induction s) (auto simp: word_char_def)

lemma parse_u64_decimal [simp]: "parse_u64 (decimal (unat (w :: u64))) = Inr w"
proof -
  have w: "unat w < 2 ^ 64" using unat_lt2p [of w] by simp
  have a: "\<forall>c \<in> set (decimal (unat w)). path_char c" using decimal_word word_path by blast
  have "length (decimal (unat w)) \<le> 20" using w by (intro decimal_length) simp_all
  moreover have "list_all is_ascii_digit (map of_nat (decimal (unat w)))"
  proof -
    have "is_ascii_digit (of_nat c)" if "c \<in> set (decimal (unat w))" for c
    proof -
      have "48 \<le> c" "c \<le> 57" using decimal_digits [OF that] by simp_all
      then show ?thesis by (simp add: is_ascii_digit_def word_le_nat_alt unat_of_nat_u8)
    qed
    then show ?thesis by (simp add: list_all_iff)
  qed
  ultimately show ?thesis using w ascii_utf8 [OF a] by (simp add: parse_u64_def)
qed

lemma parse_ids [simp]:
  "parse_id stable_layer_id_new (decimal (unat w)) = (if w = 0 then Inl OeStableId else Inr w)"
  "parse_id group_id_new (decimal (unat w)) = (if w = 0 then Inl OeStableId else Inr w)"
  "parse_id node_id_new (decimal (unat w)) = (if w = 0 then Inl OeStableId else Inr w)"
  by (simp_all add: parse_id_def stable_layer_id_new_def group_id_new_def node_id_new_def)

lemma parse_scene_decimal [simp]:
  "parse_scene_id (decimal (unat (s :: u16))) = (if s = 0 then Inl OeStableId else Inr s)"
proof -
  have "parse_u64 (decimal (unat (ucast s :: u64))) = Inr (ucast s)" by (rule parse_u64_decimal)
  moreover have u: "unat (ucast s :: u64) = unat s" by (rule unat_ucast_up) simp
  moreover have "unat s < 2 ^ 16" using unat_lt2p [of s] by simp
  moreover have "ucast (ucast s :: u64) = s" by (rule word_unat_eq_iff [THEN iffD2]) (use calculation in \<open>simp add: unat_ucast [where 'a = 64 and 'b = 16] u\<close>)
  ultimately show ?thesis by (simp add: parse_scene_id_def scene_id_new_def)
qed

lemma parse_parameter_key [simp]: "parse_parameter (control_key p) = Inr p"
  by (simp add: parse_parameter_def)

lemma path_chars:
  "address_path a = Inr path \<Longrightarrow> (\<forall>c \<in> set path. path_char c) \<and> length path \<le> 100 \<and> (\<exists>r. path = 47 # r)"
proof -
  assume p: "address_path a = Inr path"
  have k: "\<forall>c \<in> set (control_key q). path_char c" "length (control_key q) \<le> 24" for q
    using control_key_word [of q] control_key_len [of q] word_path by auto
  have d: "\<forall>c \<in> set (decimal (unat w)). path_char c" "length (decimal (unat w)) \<le> 20" for w :: u64
    using decimal_word [of "unat w"] word_path unat_lt2p [of w] decimal_length [of "unat w" 20] by auto
  have e: "\<forall>c \<in> set (decimal (unat w)). path_char c" "length (decimal (unat w)) \<le> 20" for w :: u16
    using decimal_word [of "unat w"] word_path unat_lt2p [of w] decimal_length [of "unat w" 20] by auto
  show ?thesis
  proof (cases a)
    case (RcLayer l q)
    with p k [of q] d [of l] show ?thesis by (auto simp: address_path_def path_char_def)
  next
    case (RcGroup g q)
    with p k [of q] d [of g] show ?thesis by (auto simp: address_path_def path_char_def)
  next
    case (RcNode scope n q)
    show ?thesis
    proof (cases scope)
      case RnMaster
      with RcNode p k [of q] d [of n] show ?thesis by (auto simp: address_path_def path_char_def)
    next
      case (RnLayer l)
      with RcNode p k [of q] d [of n] d [of l] show ?thesis by (auto simp: address_path_def path_char_def)
    next
      case (RnGroup g)
      with RcNode p k [of q] d [of n] d [of g] show ?thesis by (auto simp: address_path_def path_char_def)
    qed
  next
    case (RcScenePrepare sid)
    with p e [of sid] show ?thesis by (auto simp: address_path_def path_char_def)
  next
    case (RcSceneTrigger sid)
    with p e [of sid] show ?thesis by (auto simp: address_path_def path_char_def)
  next
    case (RcMaster q)
    with p k [of q] show ?thesis by (auto simp: address_path_def path_char_def)
  next
    case (RcTransport q)
    with p k [of q] show ?thesis by (auto simp: address_path_def path_char_def)
  qed (use p in \<open>simp add: address_path_def\<close>)
qed

lemma format_is_path: "format_control_address a = address_path a"
proof (cases "address_path a")
  case (Inr path)
  with path_chars [OF Inr] ascii_utf8 [of path] show ?thesis
    by (simp add: format_control_address_def OSC_MAX_STRING_BYTES_def)
qed (simp add: format_control_address_def)

lemma parse_of_path:
  "\<forall>c \<in> set path. path_char c \<Longrightarrow> length path \<le> 100 \<Longrightarrow>
   str_split 47 path = [] # lit ''collide'' # lit ''v1'' # segs \<Longrightarrow>
   parse_control_address path = parse_segments segs"
  using ascii_utf8 [of path]
  by (auto simp: parse_control_address_def OSC_MAX_STRING_BYTES_def list_ex_iff path_char_def
      char_is_control_def)

text \<open>The segments of a path after its fixed prefix.\<close>

fun address_segments :: "runtime_control_address \<Rightarrow> rstr list" where
  "address_segments (RcLegacyMidiSlot s) = []"
| "address_segments (RcMaster p) = [lit ''master'', control_key p]"
| "address_segments (RcLayer l p) = [lit ''layer'', decimal (unat l), control_key p]"
| "address_segments (RcGroup g p) = [lit ''group'', decimal (unat g), control_key p]"
| "address_segments (RcNode RnMaster n p) = [lit ''node'', lit ''master'', decimal (unat n), control_key p]"
| "address_segments (RcNode (RnLayer l) n p) =
     [lit ''node'', lit ''layer'', decimal (unat l), decimal (unat n), control_key p]"
| "address_segments (RcNode (RnGroup g) n p) =
     [lit ''node'', lit ''group'', decimal (unat g), decimal (unat n), control_key p]"
| "address_segments (RcTransport p) = [lit ''transport'', control_key p]"
| "address_segments (RcScenePrepare s) = [lit ''scene'', decimal (unat s), lit ''prepare'']"
| "address_segments (RcSceneTrigger s) = [lit ''scene'', decimal (unat s), lit ''trigger'']"

lemma split_path:
  "address_path a = Inr path \<Longrightarrow> str_split 47 path = [] # lit ''collide'' # lit ''v1'' # address_segments a"
proof -
  assume p: "address_path a = Inr path"
  note splits = split_word [OF control_key_word] split_word_slash [OF decimal_word] split_word [OF decimal_word]
  show ?thesis
  proof (cases a)
    case (RcNode scope n q)
    with p show ?thesis by (cases scope) (auto simp: address_path_def splits)
  qed (use p in \<open>auto simp: address_path_def splits\<close>)
qed

lemma parse_segments_of: "osc_address a \<Longrightarrow> parse_segments (address_segments a) = Inr a"
proof (cases a)
  case (RcNode scope n q)
  assume "osc_address a"
  with RcNode show ?thesis by (cases scope) (simp_all add: parse_segments_def)
qed (simp_all add: parse_segments_def)

lemma parse_address_path: "address_path a = Inr path \<Longrightarrow> osc_address a \<Longrightarrow> parse_control_address path = Inr a"
  using parse_of_path [OF _ _ split_path] path_chars parse_segments_of by simp

lemma osc_address_path: "osc_address a \<Longrightarrow> \<exists>path. address_path a = Inr path"
  by (cases a rule: osc_address.cases) (simp_all add: address_path_def)

lemma parse_id_nonzero:
  "parse_id stable_layer_id_new v = Inr n \<Longrightarrow> n \<noteq> 0" "parse_id group_id_new v = Inr n \<Longrightarrow> n \<noteq> 0"
  "parse_id node_id_new v = Inr n \<Longrightarrow> n \<noteq> 0" "parse_scene_id v = Inr s \<Longrightarrow> s \<noteq> 0"
  by (auto simp: parse_id_def parse_scene_id_def rbind_Inr stable_layer_id_new_def group_id_new_def
      node_id_new_def scene_id_new_def split: if_splits)

lemma parse_segments_osc: "parse_segments segs = Inr a \<Longrightarrow> osc_address a"
  unfolding parse_segments_def
  by (auto simp: rbind_Inr dest: parse_id_nonzero split: list.splits if_splits)

lemma parse_osc: "parse_control_address path = Inr a \<Longrightarrow> osc_address a"
  by (auto simp: parse_control_address_def Let_def dest: parse_segments_osc split: if_splits)

text \<open>The OSC vocabulary is closed and stable: the addresses that have a path are exactly those with
  nonzero identities outside the legacy MIDI slots, each path parses back to its own address, and
  nothing else is ever parsed.\<close>

theorem osc_address_round_trip:
  "(osc_address a \<longleftrightarrow> (\<exists>path. parse_control_address path = Inr a)) \<and>
   (osc_address a \<longrightarrow> (\<exists>path. format_control_address a = Inr path \<and> length path \<le> 100 \<and>
      parse_control_address path = Inr a))"
proof -
  have "\<exists>path. format_control_address a = Inr path \<and> length path \<le> 100 \<and> parse_control_address path = Inr a"
    if ok: "osc_address a"
  proof -
    obtain path where p: "address_path a = Inr path" using osc_address_path [OF ok] by blast
    then show ?thesis using path_chars [OF p] parse_address_path [OF p ok] by (auto simp: format_is_path)
  qed
  then show ?thesis using parse_osc by blast
qed

theorem osc_address_round_trip_witness:
  "\<exists>path. parse_control_address path = Inr (RcNode (RnLayer 42) 9 CpWet) \<and> length path \<le> 100"
  using osc_address_round_trip [of "RcNode (RnLayer 42) 9 CpWet"] by auto

section \<open>Strings on the wire\<close>

definition wire :: "rstr \<Rightarrow> bytes" where
  "wire s = map of_nat s @ replicate ((length s + 4) div 4 * 4 - length s) 0"

lemma wire_length: "length (wire s) = (length s + 4) div 4 * 4"
proof -
  have "length s \<le> (length s + 4) div 4 * 4" by linarith
  then show ?thesis by (simp add: wire_def)
qed

lemma pad_arith:
  fixes p n :: nat
  assumes "p mod 4 = 0"
  shows "(n + 4) div 4 * 4 - n = Suc ((4 - Suc (p + n) mod 4) mod 4)"
proof -
  obtain k where k: "p = 4 * k" using assms by (metis mod_0_imp_dvd dvdE)
  obtain q r where n: "n = 4 * q + r" "r < 4" by (metis mult_div_mod_eq mod_less_divisor zero_less_numeral)
  have "Suc (p + n) mod 4 = Suc r mod 4" by (simp add: k n(1))
  moreover have "(n + 4) div 4 = q + 1" using n by simp
  moreover have "r = 0 \<or> r = 1 \<or> r = 2 \<or> r = 3" using n(2) by linarith
  ultimately show ?thesis using n by auto
qed

lemma push_wire:
  assumes "\<forall>c \<in> set s. path_char c" "length s \<le> 256" "length pre mod 4 = 0"
  shows "push_osc_string pre s = Inr (pre @ wire s)"
proof -
  have "0 \<notin> set (utf8 s)"
  proof
    assume "0 \<in> set (utf8 s)"
    then obtain c where c: "c \<in> set s" "(0 :: u8) = of_nat c" using ascii_utf8 [OF assms(1)] by auto
    then have "unat (of_nat c :: u8) = 0" by simp
    moreover have "32 < c" "c < 0x7F" using assms(1) c(1) by (auto simp: path_char_def)
    ultimately show False by (simp add: unat_of_nat_u8)
  qed
  moreover have "pad4 (pre @ map of_nat s @ [0]) = pre @ wire s"
    unfolding pad4_def wire_def pad_arith [OF assms(3), of "length s"] by simp
  ultimately show ?thesis
    using assms(2) ascii_utf8 [OF assms(1)] by (simp add: push_osc_string_def OSC_MAX_STRING_BYTES_def)
qed

lemma read_wire:
  assumes "\<forall>c \<in> set s. path_char c" "length s \<le> 256"
  shows "read_osc_string (pre @ wire s @ rest) (length pre) = Inr (s, length pre + length (wire s))"
proof -
  define z where "z = (length s + 4) div 4 * 4 - length s"
  have z: "0 < z" "length s + z = (length s + 4) div 4 * 4" by (auto simp: z_def)
  have nz: "(of_nat c :: u8) \<noteq> 0" if "c \<in> set s" for c
  proof -
    have "c < 0x7F" "32 < c" using assms(1) that by (auto simp: path_char_def)
    then have "unat (of_nat c :: u8) = c" by (simp add: unat_of_nat_u8)
    then show ?thesis using \<open>32 < c\<close> by (metis less_nat_zero_code unat_0)
  qed
  have tail: "drop (length pre) (pre @ wire s @ rest) = map of_nat s @ replicate z 0 @ rest"
    by (simp add: wire_def z_def)
  have tw: "takeWhile (\<lambda>b. b \<noteq> 0) (map of_nat s @ replicate z (0 :: u8) @ rest) = map of_nat s"
  proof -
    obtain y where "z = Suc y" using z(1) by (cases z) auto
    then show ?thesis using nz by (subst takeWhile_append2) auto
  qed
  have dec: "from_utf8 (map of_nat s) = Some s"
  proof -
    have "\<forall>c \<in> set s. scalar c" using assms(1) by (auto simp: path_char_def scalar_def)
    then show ?thesis using from_utf8_utf8 [of s] ascii_utf8 [OF assms(1)] by simp
  qed
  have pads: "\<not> list_ex (\<lambda>b. b \<noteq> 0) (take ((length s + 4) div 4 * 4 - (length s + 1))
      (drop (length s + 1) (map of_nat s @ replicate z (0 :: u8) @ rest)))"
    using z by (simp add: list_ex_iff)
  show ?thesis
    using assms(2) z pads
    by (simp add: read_osc_string_def tail tw dec Let_def OSC_MAX_STRING_BYTES_def wire_length del: drop_append)
qed

section \<open>Messages\<close>

lemma lit_f: "lit '',f'' = [44, 102]" "\<forall>c \<in> set (lit '',f''). path_char c"
  by (simp_all add: path_char_def)

lemma encode_wire:
  assumes "f32_is_finite v" "address_path a = Inr path"
  shows "encode_feedback a v = Inr (wire path @ wire (lit '',f'') @ u32_be (f32_clamp01 v))"
proof -
  have p: "\<forall>c \<in> set path. path_char c" "length path \<le> 256" using path_chars [OF assms(2)] by auto
  have "push_osc_string [] path = Inr (wire path)" using push_wire [OF p, of "[]"] by simp
  moreover have "push_osc_string (wire path) (lit '',f'') = Inr (wire path @ wire (lit '',f''))"
    using lit_f by (intro push_wire) (simp_all add: wire_length)
  ultimately show ?thesis using assms by (simp add: encode_feedback_def format_is_path)
qed

lemma clamp01_finite: "f32_is_finite v \<Longrightarrow> f32_is_finite (f32_clamp01 v)"
  using f32_clamp01_bounds [of v] by simp

lemma decode_wire:
  assumes "f32_is_finite v" "address_path a = Inr path" "osc_address a"
  shows "decode_message (wire path @ wire (lit '',f'') @ u32_be (f32_clamp01 v)) =
    Inr \<lparr>dm_address = a, dm_value = f32_clamp01 v\<rparr>"
proof -
  let ?w = "u32_be (f32_clamp01 v)" and ?f = "lit '',f''"
  have p: "\<forall>c \<in> set path. path_char c" "length path \<le> 256" using path_chars [OF assms(2)] by auto
  have r1: "read_osc_string (wire path @ wire ?f @ ?w) 0 = Inr (path, length (wire path))"
    using read_wire [OF p, of "[]" "wire ?f @ ?w"] by simp
  have r2: "read_osc_string (wire path @ wire ?f @ ?w) (length (wire path)) =
      Inr (?f, length (wire path) + length (wire ?f))"
    using lit_f by (intro read_wire) simp_all
  have s: "decode_scalar ?f (wire path @ wire ?f @ ?w) (length (wire path) + length (wire ?f)) =
      Inr (f32_clamp01 v, length (wire path) + length (wire ?f) + 4)"
    using clamp01_finite [OF assms(1)] by (simp add: decode_scalar_def slice_get_def)
  show ?thesis
    using parse_address_path [OF assms(2,3)] by (simp add: decode_message_def r1 r2 s del: lit_simps)
qed

lemma not_bundle: "path = 47 # r \<Longrightarrow> take 8 (wire path @ rest) \<noteq> BUNDLE_TAG"
  by (simp add: wire_def BUNDLE_TAG_def utf8_def utf8_char.simps)

lemma inner_wire:
  assumes "f32_is_finite v" "address_path a = Inr path" "osc_address a"
    and "depth \<le> 4" "length messages < 128"
  shows "decode_packet_inner (wire path @ wire (lit '',f'') @ u32_be (f32_clamp01 v)) depth messages =
    Inr (messages @ [\<lparr>dm_address = a, dm_value = f32_clamp01 v\<rparr>])"
proof -
  obtain r where "path = 47 # r" using path_chars [OF assms(2)] by blast
  note n = not_bundle [OF this]
  show ?thesis
    using assms(4,5) decode_wire [OF assms(1-3)] n
    by (subst decode_packet_inner.simps)
      (simp add: OSC_MAX_BUNDLE_DEPTH_def OSC_MAX_MESSAGES_PER_PACKET_def del: lit_simps take_append)
qed

lemma decode_packet_wire:
  assumes "osc_address a" "f32_is_finite v" "address_path a = Inr path"
  shows "decode_packet (wire path @ wire (lit '',f'') @ u32_be (f32_clamp01 v)) peer =
      Inr [message_event peer \<lparr>dm_address = a, dm_value = f32_clamp01 v\<rparr>]"
    and "length (wire path @ wire (lit '',f'') @ u32_be (f32_clamp01 v)) \<le> 120"
    and "length (wire path @ wire (lit '',f'') @ u32_be (f32_clamp01 v)) mod 4 = 0"
proof -
  let ?bs = "wire path @ wire (lit '',f'') @ u32_be (f32_clamp01 v)"
  have "length path \<le> 100" using path_chars [OF assms(3)] by blast
  then show len: "length ?bs \<le> 120" and "length ?bs mod 4 = 0" by (simp_all add: wire_length)
  have "decode_packet_inner ?bs 0 [] = Inr [\<lparr>dm_address = a, dm_value = f32_clamp01 v\<rparr>]"
    using inner_wire [OF assms(2,3,1), of 0 "[]"] by simp
  then show "decode_packet ?bs peer = Inr [message_event peer \<lparr>dm_address = a, dm_value = f32_clamp01 v\<rparr>]"
    using len by (simp add: decode_packet_def OSC_MAX_DATAGRAM_BYTES_def del: lit_simps)
qed

lemma encode_decodes:
  assumes "osc_address a" and "f32_is_finite v"
  shows "\<exists>bs. encode_feedback a v = Inr bs \<and> length bs \<le> 120 \<and> length bs mod 4 = 0 \<and>
    decode_packet bs peer = Inr [\<lparr>oe_address = a,
      oe_value = (if runtime_is_scene_action a
        then (if f32_le F32_HALF (f32_clamp01 v) then AvTrigger else AvGate False)
        else AvAbsolute (f32_clamp01 v)),
      oe_origin = OriginOsc peer\<rparr>]"
proof -
  obtain path where p: "address_path a = Inr path" using osc_address_path [OF assms(1)] by blast
  show ?thesis
    using encode_wire [OF assms(2) p] decode_packet_wire(1) [OF assms p, of peer] decode_packet_wire(2,3) [OF assms p]
    by (simp add: message_event_def del: lit_simps)
qed

text \<open>Feedback sent to a peer reads back as what it says: for every address with a path and every
  finite value, encoding succeeds, and decoding the packet gives exactly one event, at that address,
  from that peer, carrying the value clamped to the unit interval (a scene action becomes a trigger
  from one half on and an inert release below).\<close>

theorem feedback_round_trip:
  assumes "osc_address a" and "f32_is_finite v"
  shows "\<exists>bs. encode_feedback a v = Inr bs \<and> length bs \<le> 120 \<and> length bs mod 4 = 0 \<and>
    decode_packet bs peer = Inr [\<lparr>oe_address = a,
      oe_value = (if runtime_is_scene_action a
        then (if f32_le F32_HALF (f32_clamp01 v) then AvTrigger else AvGate False)
        else AvAbsolute (f32_clamp01 v)),
      oe_origin = OriginOsc peer\<rparr>]"
  by (rule encode_decodes [OF assms])

theorem feedback_round_trip_witness:
  "\<exists>bs. encode_feedback (RcSceneTrigger 4) F32_ONE = Inr bs \<and>
     decode_packet bs (SocketV4 0x7F000001 9010) =
       Inr [\<lparr>oe_address = RcSceneTrigger 4, oe_value = AvTrigger, oe_origin = OriginOsc (SocketV4 0x7F000001 9010)\<rparr>]"
proof -
  have "f32_clamp01 F32_ONE = F32_ONE" "f32_le F32_HALF F32_ONE"
    by (simp_all add: f32_clamp01_unit) (simp add: f32_le_def f32_is_nan_def f32_key_def f32_sign_def
        f32_magnitude_def f32_consts)
  then show ?thesis
    using feedback_round_trip [of "RcSceneTrigger 4" F32_ONE "SocketV4 0x7F000001 9010"] by auto
qed

section \<open>Bounds of a packet\<close>

definition message_ok :: "decoded_message \<Rightarrow> bool" where
  "message_ok m \<longleftrightarrow> osc_address (dm_address m) \<and> f32_unit (dm_value m)"

lemma f32_of_bit: "f32_unit (f32_of_int (max 0 (min 1 i)))"
proof -
  have "f32_of_int 0 = F32_ZERO" "f32_of_int 1 = F32_ONE"
    by (simp_all add: f32_of_int_def f32_of_nat_def f32_round_def f32_consts bit_length.simps f32_pack_def
        round_half_even_def)
  moreover have "max 0 (min 1 i) = 0 \<or> max 0 (min 1 i) = 1" by linarith
  ultimately show ?thesis by auto
qed

lemma decode_message_ok: "decode_message bs = Inr m \<Longrightarrow> message_ok m"
  by (auto simp: decode_message_def decode_scalar_def rbind_Inr message_ok_def Let_def f32_of_bit
      dest: parse_osc split: if_splits prod.splits)

lemma decode_inner_ok:
  "decode_packet_inner bs depth ms = Inr ms' \<Longrightarrow>
     \<exists>new. ms' = ms @ new \<and> (length ms \<le> 128 \<longrightarrow> length ms' \<le> 128) \<and> (\<forall>m \<in> set new. message_ok m)"
  "decode_bundle bs offset depth ms = Inr ms' \<Longrightarrow>
     \<exists>new. ms' = ms @ new \<and> (length ms \<le> 128 \<longrightarrow> length ms' \<le> 128) \<and> (\<forall>m \<in> set new. message_ok m)"
proof (induction bs depth ms and bs offset depth ms arbitrary: ms' and ms'
    rule: decode_packet_inner_decode_bundle.induct)
  case (1 bs depth ms)
  show ?case
  proof (cases "take 8 bs = BUNDLE_TAG")
    case True
    with "1.prems" have "decode_bundle bs 16 depth ms = Inr ms'" "\<not> OSC_MAX_BUNDLE_DEPTH < depth"
      "\<not> OSC_MAX_MESSAGES_PER_PACKET \<le> length ms" "\<not> length bs < 16"
      by (auto simp: decode_packet_inner.simps [of bs depth ms] split: if_splits)
    from "1.IH" [OF this(2,3) True this(4,1)] show ?thesis .
  next
    case False
    with "1.prems" obtain m where "decode_message bs = Inr m" "ms' = ms @ [m]" "length ms < 128"
      by (auto simp: decode_packet_inner.simps [of bs depth ms] rbind_Inr OSC_MAX_MESSAGES_PER_PACKET_def split: if_splits)
    then show ?thesis using decode_message_ok by auto
  qed
next
  case (2 bs offset depth ms)
  show ?case
  proof (cases "offset < length bs")
    case True
    obtain len element ms1 where r: "read_i32 bs offset = Inr len" "\<not> sint len < 0"
      and e: "slice_get bs (offset + 4) (offset + 4 + nat (sint len)) = Some element"
      and i: "decode_packet_inner element (depth + 1) ms = Inr ms1"
      and b: "decode_bundle bs (offset + 4 + nat (sint len)) depth ms1 = Inr ms'"
      using "2.prems" True by (auto simp: decode_bundle.simps [of bs offset depth ms] split: sum.splits if_splits option.splits)
    from "2.IH"(1) [OF True r(1,2) e i] obtain n1 where
      "ms1 = ms @ n1" "length ms \<le> 128 \<longrightarrow> length ms1 \<le> 128" "\<forall>m \<in> set n1. message_ok m" by blast
    moreover from "2.IH"(2) [OF True r(1,2) e i b] obtain n2 where
      "ms' = ms1 @ n2" "length ms1 \<le> 128 \<longrightarrow> length ms' \<le> 128" "\<forall>m \<in> set n2. message_ok m" by blast
    ultimately have "ms' = ms @ (n1 @ n2) \<and> (length ms \<le> 128 \<longrightarrow> length ms' \<le> 128) \<and>
        (\<forall>m \<in> set (n1 @ n2). message_ok m)" by auto
    then show ?thesis by blast
  next
    case False
    with "2.prems" have "ms' = ms" by (simp add: decode_bundle.simps [of bs offset depth ms])
    then show ?thesis by simp
  qed
qed

text \<open>A hostile datagram is bounded in every way: whatever decodes came from at most 16 KiB and gives
  at most 128 events, each from the sending peer, at an address with live nonzero identities, with
  a value the final bounding adapter leaves unchanged.\<close>

theorem packet_bounds:
  assumes "decode_packet bs peer = Inr evs"
  shows "length bs \<le> 16384 \<and> length evs \<le> 128 \<and>
    (\<forall>e \<in> set evs. oe_origin e = OriginOsc peer \<and> osc_address (oe_address e) \<and>
       finite_bounded (oe_value e) = Some (oe_value e))"
proof -
  obtain ms where ms: "decode_packet_inner bs 0 [] = Inr ms" and evs: "evs = map (message_event peer) ms"
    and len: "length bs \<le> 16384"
    using assms by (auto simp: decode_packet_def rbind_Inr OSC_MAX_DATAGRAM_BYTES_def split: if_splits)
  have "length ms \<le> 128" "\<forall>m \<in> set ms. message_ok m" using decode_inner_ok(1) [OF ms] by auto
  then show ?thesis
    using len by (auto simp: evs message_event_def message_ok_def f32_unit_finite f32_clamp01_unit)
qed

theorem packet_bounds_witness:
  "\<exists>bs e. decode_packet bs (SocketV4 1 2) = Inr [e] \<and> osc_address (oe_address e) \<and> length bs \<le> 16384"
proof -
  obtain path where p: "address_path (RcMaster CpHue) = Inr path" using osc_address_path [of "RcMaster CpHue"] by auto
  have "decode_packet (wire path @ wire (lit '',f'') @ u32_be (f32_clamp01 F32_HALF)) (SocketV4 1 2) =
      Inr [message_event (SocketV4 1 2) \<lparr>dm_address = RcMaster CpHue, dm_value = f32_clamp01 F32_HALF\<rparr>]"
    using p by (intro decode_packet_wire) simp_all
  from this packet_bounds [OF this] show ?thesis by (intro exI conjI) (assumption | simp)+
qed

section \<open>Bundles\<close>

text \<open>A bundle as a peer would write it: the tag, eight bytes of time tag, then each element with its
  length in front.\<close>

definition bundle_element :: "bytes \<Rightarrow> bytes" where
  "bundle_element p = u32_be (of_nat (length p)) @ p"

definition bundle_of :: "bytes \<Rightarrow> bytes list \<Rightarrow> bytes" where
  "bundle_of timetag ps = BUNDLE_TAG @ timetag @ concat (map bundle_element ps)"

definition decodes_at :: "nat \<Rightarrow> bytes \<Rightarrow> decoded_message \<Rightarrow> bool" where
  "decodes_at depth p m \<longleftrightarrow>
     (\<forall>ms. length ms < 128 \<longrightarrow> decode_packet_inner p depth ms = Inr (ms @ [m])) \<and> length p < 2 ^ 31"

lemma sint_small: "n < 2 ^ 31 \<Longrightarrow> sint (of_nat n :: 32 word) = int n"
proof -
  assume n: "n < 2 ^ 31"
  then have "uint (of_nat n :: 32 word) = int n" by (simp add: unsigned_of_nat take_bit_nat_eq_self)
  then show ?thesis using n by (simp add: sint_uint signed_take_bit_int_eq_self)
qed

lemma read_element:
  assumes "length p < 2 ^ 31"
  shows "read_i32 (pre @ bundle_element p @ rest) (length pre) = Inr (of_nat (length p))"
    and "slice_get (pre @ bundle_element p @ rest) (length pre + 4)
      (length pre + 4 + nat (sint (of_nat (length p) :: 32 word))) = Some p"
  using assms by (simp_all add: read_i32_def slice_get_def bundle_element_def sint_small)

lemma decode_bundle_elements:
  assumes "list_all2 (decodes_at (depth + 1)) ps ns" "length ms + length ns \<le> 128"
  shows "decode_bundle (pre @ concat (map bundle_element ps)) (length pre) depth ms = Inr (ms @ ns)"
  using assms
proof (induction ps ns arbitrary: pre ms rule: list_all2_induct)
  case Nil
  show ?case by (subst decode_bundle.simps) simp
next
  case (Cons p ps n ns)
  let ?bs = "pre @ bundle_element p @ concat (map bundle_element ps)"
  have p: "length p < 2 ^ 31" and d: "decode_packet_inner p (depth + 1) ms = Inr (ms @ [n])"
    using Cons.hyps(1) Cons.prems by (simp_all add: decodes_at_def)
  have "length (pre @ bundle_element p) = length pre + 4 + nat (sint (of_nat (length p) :: 32 word))"
    using p by (simp add: bundle_element_def sint_small)
  moreover have "decode_bundle ((pre @ bundle_element p) @ concat (map bundle_element ps))
      (length (pre @ bundle_element p)) depth (ms @ [n]) = Inr ((ms @ [n]) @ ns)"
    using Cons.prems by (intro Cons.IH) simp
  ultimately have tail: "decode_bundle ?bs (length pre + 4 + nat (sint (of_nat (length p) :: 32 word))) depth (ms @ [n]) =
      Inr (ms @ n # ns)" by (simp add: add.assoc)
  have "length pre < length ?bs" by (simp add: bundle_element_def)
  moreover have "\<not> sint (of_nat (length p) :: 32 word) < 0" using sint_small [OF p] by simp
  ultimately have "decode_bundle ?bs (length pre) depth ms = Inr (ms @ n # ns)"
    using read_element [OF p, of pre "concat (map bundle_element ps)"] d tail
    by (simp add: decode_bundle.simps [of ?bs "length pre" depth ms])
  then show ?case by simp
qed

text \<open>A bundle is its elements in order: up to 128 messages, each an encoded feedback packet, written
  into one bundle that fits the datagram limit, decode to the events of the messages one by one, in
  the same order, whatever the time tag.\<close>

theorem bundle_decodes_in_order:
  assumes "list_all2 (\<lambda>(a, v) p. osc_address a \<and> f32_is_finite v \<and> encode_feedback a v = Inr p) avs ps"
    and "length avs \<le> 128" and "length timetag = 8" and "length (bundle_of timetag ps) \<le> 16384"
  shows "decode_packet (bundle_of timetag ps) peer =
    Inr (map (\<lambda>(a, v). message_event peer \<lparr>dm_address = a, dm_value = f32_clamp01 v\<rparr>) avs)"
proof -
  let ?m = "\<lambda>(a, v). \<lparr>dm_address = a, dm_value = f32_clamp01 v\<rparr>"
  have one: "decodes_at 1 p (?m av)"
    if h: "(\<lambda>(a, v) p. osc_address a \<and> f32_is_finite v \<and> encode_feedback a v = Inr p) av p" for av p
  proof -
    obtain a v where av: "av = (a, v)" by (cases av)
    then have ok: "osc_address a" "f32_is_finite v" "encode_feedback a v = Inr p" using h by auto
    obtain path where path: "address_path a = Inr path" using osc_address_path [OF ok(1)] by blast
    have p: "p = wire path @ wire (lit '',f'') @ u32_be (f32_clamp01 v)"
      using ok(3) encode_wire [OF ok(2) path] by simp
    show ?thesis
      using inner_wire [OF ok(2) path ok(1), of 1] decode_packet_wire(2) [OF ok(1,2) path]
      by (simp add: av decodes_at_def p del: lit_simps length_append)
  qed
  have "list_all2 (\<lambda>av p. decodes_at 1 p (?m av)) avs ps"
    using assms(1) by (rule list_all2_mono) (rule one)
  then have "list_all2 (decodes_at (0 + 1)) ps (map ?m avs)"
    by (simp add: list_all2_conv_all_nth)
  moreover have "length (BUNDLE_TAG @ timetag) = 16"
    using assms(3) by (simp add: BUNDLE_TAG_def utf8_def utf8_char.simps)
  moreover have b: "decode_bundle ((BUNDLE_TAG @ timetag) @ concat (map bundle_element ps))
      (length (BUNDLE_TAG @ timetag)) 0 [] = Inr ([] @ map ?m avs)"
    using calculation(1) assms(2) by (intro decode_bundle_elements) simp_all
  ultimately have "decode_bundle (bundle_of timetag ps) 16 0 [] = Inr (map ?m avs)"
    by (simp add: bundle_of_def)
  moreover have "take 8 (bundle_of timetag ps) = BUNDLE_TAG" "16 \<le> length (bundle_of timetag ps)"
    using assms(3) by (simp_all add: bundle_of_def BUNDLE_TAG_def utf8_def utf8_char.simps)
  ultimately have "decode_packet_inner (bundle_of timetag ps) 0 [] = Inr (map ?m avs)"
    by (simp add: decode_packet_inner.simps [of "bundle_of timetag ps" 0 "[]"] OSC_MAX_MESSAGES_PER_PACKET_def)
  then show ?thesis
    using assms(4) by (simp add: decode_packet_def OSC_MAX_DATAGRAM_BYTES_def case_prod_beta)
qed

theorem bundle_decodes_in_order_witness:
  "\<exists>p. encode_feedback (RcMaster CpHue) F32_HALF = Inr p \<and>
     decode_packet (bundle_of (replicate 8 0) [p, p]) (SocketV4 1 2) =
       Inr (replicate 2 (message_event (SocketV4 1 2) \<lparr>dm_address = RcMaster CpHue, dm_value = f32_clamp01 F32_HALF\<rparr>))"
proof -
  obtain path where path: "address_path (RcMaster CpHue) = Inr path" using osc_address_path [of "RcMaster CpHue"] by auto
  let ?p = "wire path @ wire (lit '',f'') @ u32_be (f32_clamp01 F32_HALF)"
  have e: "encode_feedback (RcMaster CpHue) F32_HALF = Inr ?p" using path by (intro encode_wire) simp_all
  have "length ?p \<le> 120" using path by (intro decode_packet_wire(2)) simp_all
  then have len: "length (bundle_of (replicate 8 0) [?p, ?p]) \<le> 16384"
    by (simp add: bundle_of_def bundle_element_def BUNDLE_TAG_def utf8_def utf8_char.simps)
  show ?thesis
    using bundle_decodes_in_order [of "[(RcMaster CpHue, F32_HALF), (RcMaster CpHue, F32_HALF)]" "[?p, ?p]"
        "replicate 8 0", OF _ _ _ len] e
    by (intro exI [of _ ?p]) (simp add: numeral_2_eq_2 del: lit_simps)
qed

end
