(* ===== verification/Osc_Engine.thy ===== *)
theory Osc_Engine
  imports Osc_Codec Action_Correlation
begin

text \<open>
  The engine side of \<open>src/src/osc.rs\<close>: the bounded action queues with their displaced identities, the
  packet and feedback rate gates, the feedback map, echo suppression and the bounded receive
  batch.  Mutexes are taken with \<open>try_lock\<close>, so whether a lock was free is an argument of the
  operations; a lock that is waited for always succeeds.  Sockets are the list of what
  \<open>recv_from\<close> returns; an \<open>Instant\<close> is a number of nanoseconds.  Threads and start-up are not
  modelled: the operations are the steps the worker and the owner interleave.
\<close>

section \<open>Action queues\<close>

record osc_queues =
  oq_admitted :: "osc_event action_envelope list"
  oq_displaced :: "action_identity list"

definition queues_new :: osc_queues where
  "queues_new = \<lparr>oq_admitted = [], oq_displaced = []\<rparr>"

definition unresolved_len :: "osc_queues \<Rightarrow> nat" where
  "unresolved_len q = length (oq_admitted q) + length (oq_displaced q)"

fun displace_loop :: "osc_event action_envelope list \<Rightarrow> action_identity list \<Rightarrow> action_identity list" where
  "displace_loop [] displaced = displaced"
| "displace_loop (action # rest) displaced = displace_loop rest (displaced @ [envelope_identity action])"

definition displace_admitted :: "osc_queues \<Rightarrow> osc_queues" where
  "displace_admitted q = \<lparr>oq_admitted = [], oq_displaced = displace_loop (oq_admitted q) (oq_displaced q)\<rparr>"

text \<open>The output slice has \<open>n\<close> slots; the identities written into its prefix are returned.\<close>

definition drain_displaced :: "osc_queues \<Rightarrow> nat \<Rightarrow> osc_queues \<times> action_identity list" where
  "drain_displaced q n =
     (let count = min n (length (oq_displaced q))
      in (q\<lparr>oq_displaced := drop count (oq_displaced q)\<rparr>, take count (oq_displaced q)))"

section \<open>Counters\<close>

record osc_counters =
  ct_datagrams_received :: u64
  ct_messages_received :: u64
  ct_malformed :: u64
  ct_rate_dropped :: u64
  ct_queue_dropped :: u64
  ct_loop_suppressed :: u64
  ct_feedback_queued :: u64
  ct_feedback_coalesced :: u64
  ct_feedback_dropped :: u64
  ct_feedback_rate_limited :: u64
  ct_feedback_sent :: u64
  ct_feedback_send_errors :: u64

definition counters_default :: osc_counters where
  "counters_default = \<lparr>ct_datagrams_received = 0, ct_messages_received = 0, ct_malformed = 0,
     ct_rate_dropped = 0, ct_queue_dropped = 0, ct_loop_suppressed = 0, ct_feedback_queued = 0,
     ct_feedback_coalesced = 0, ct_feedback_dropped = 0, ct_feedback_rate_limited = 0,
     ct_feedback_sent = 0, ct_feedback_send_errors = 0\<rparr>"

text \<open>The shared atomic counters and the owner's local ones, combined for a snapshot.\<close>

definition counters_snapshot :: "osc_counters \<Rightarrow> osc_counters \<Rightarrow> osc_counters" where
  "counters_snapshot shared loc =
     \<lparr>ct_datagrams_received = sat_add (ct_datagrams_received shared) (ct_datagrams_received loc),
      ct_messages_received = sat_add (ct_messages_received shared) (ct_messages_received loc),
      ct_malformed = sat_add (ct_malformed shared) (ct_malformed loc),
      ct_rate_dropped = sat_add (ct_rate_dropped shared) (ct_rate_dropped loc),
      ct_queue_dropped = sat_add (ct_queue_dropped shared) (ct_queue_dropped loc),
      ct_loop_suppressed = sat_add (ct_loop_suppressed shared) (ct_loop_suppressed loc),
      ct_feedback_queued = ct_feedback_queued loc,
      ct_feedback_coalesced = ct_feedback_coalesced loc,
      ct_feedback_dropped = ct_feedback_dropped loc,
      ct_feedback_rate_limited = sat_add (ct_feedback_rate_limited shared) (ct_feedback_rate_limited loc),
      ct_feedback_sent = sat_add (ct_feedback_sent shared) (ct_feedback_sent loc),
      ct_feedback_send_errors = sat_add (ct_feedback_send_errors shared) (ct_feedback_send_errors loc)\<rparr>"

section \<open>The feedback map\<close>

text \<open>The derived \<open>Ord\<close> of the key \<open>(SocketAddr, RuntimeControlAddress)\<close> is the lexicographic order of
  these ranks: variant first, then the fields in order.\<close>

definition parameter_rank :: "control_parameter \<Rightarrow> nat" where
  "parameter_rank p = length (takeWhile (\<lambda>e. snd e \<noteq> p) control_table)"

fun socket_rank :: "socket_addr \<Rightarrow> nat list" where
  "socket_rank (SocketV4 a p) = [0, unat a, unat p, 0, 0]"
| "socket_rank (SocketV6 a p f s) = [1, unat a, unat p, unat f, unat s]"

fun scope_rank :: "runtime_node_scope \<Rightarrow> nat list" where
  "scope_rank RnMaster = [0, 0]"
| "scope_rank (RnLayer l) = [1, unat l]"
| "scope_rank (RnGroup g) = [2, unat g]"

fun address_rank :: "runtime_control_address \<Rightarrow> nat list" where
  "address_rank (RcLegacyMidiSlot s) = [0, unat s]"
| "address_rank (RcMaster p) = [1, parameter_rank p]"
| "address_rank (RcLayer l p) = [2, unat l, parameter_rank p]"
| "address_rank (RcGroup g p) = [3, unat g, parameter_rank p]"
| "address_rank (RcNode sc n p) = 4 # scope_rank sc @ [unat n, parameter_rank p]"
| "address_rank (RcTransport p) = [5, parameter_rank p]"
| "address_rank (RcScenePrepare s) = [6, unat s]"
| "address_rank (RcSceneTrigger s) = [7, unat s]"

fun rank_less :: "nat list \<Rightarrow> nat list \<Rightarrow> bool" where
  "rank_less [] [] = False"
| "rank_less [] (y # ys) = True"
| "rank_less (x # xs) [] = False"
| "rank_less (x # xs) (y # ys) = (x < y \<or> (x = y \<and> rank_less xs ys))"

type_synonym feedback_key = "socket_addr \<times> runtime_control_address"

definition key_rank :: "feedback_key \<Rightarrow> nat list" where
  "key_rank k = socket_rank (fst k) @ address_rank (snd k)"

record feedback_entry =
  fe_address :: runtime_control_address
  fe_value :: f32

type_synonym feedback_map = "(feedback_key \<times> feedback_entry) list"

fun feedback_insert :: "feedback_key \<Rightarrow> feedback_entry \<Rightarrow> feedback_map \<Rightarrow> feedback_map" where
  "feedback_insert k v [] = [(k, v)]"
| "feedback_insert k v (e # es) =
     (if fst e = k then (k, v) # es
      else if rank_less (key_rank k) (key_rank (fst e)) then (k, v) # e # es
      else e # feedback_insert k v es)"

record recent_feedback =
  rf_peer :: socket_addr
  rf_address :: runtime_control_address
  rf_value_bits :: u32
  rf_sent_at :: instant

section \<open>Shared state\<close>

record osc_shared =
  sh_queues :: osc_queues
  sh_feedback :: feedback_map
  sh_recent :: "recent_feedback list"
  sh_counters :: osc_counters
  sh_sequencer :: u64

definition shared_new :: "u64 \<Rightarrow> osc_shared" where
  "shared_new sequencer = \<lparr>sh_queues = queues_new, sh_feedback = [], sh_recent = [],
     sh_counters = counters_default, sh_sequencer = sequencer\<rparr>"

definition count :: "((u64 \<Rightarrow> u64) \<Rightarrow> osc_counters \<Rightarrow> osc_counters) \<Rightarrow> u64 \<Rightarrow> osc_shared \<Rightarrow> osc_shared" where
  "count field n s = s\<lparr>sh_counters := field (\<lambda>v. v + n) (sh_counters s)\<rparr>"

definition push_event_at :: "bool \<Rightarrow> instant \<Rightarrow> osc_event \<Rightarrow> osc_shared \<Rightarrow> osc_shared" where
  "push_event_at lock_free ingress event s =
     (if \<not> lock_free then count ct_queue_dropped_update 1 s
      else if OSC_EVENT_QUEUE_CAPACITY \<le> unresolved_len (sh_queues s)
        then count ct_queue_dropped_update 1 s
      else (case envelope_at (sh_sequencer s) SrcOsc ingress event of (counter, envelope) \<Rightarrow>
        s\<lparr>sh_queues := (sh_queues s)\<lparr>oq_admitted := oq_admitted (sh_queues s) @ [envelope]\<rparr>,
          sh_sequencer := counter\<rparr>))"

definition clear_protocol_queues :: "osc_shared \<Rightarrow> osc_shared" where
  "clear_protocol_queues s =
     s\<lparr>sh_queues := displace_admitted (sh_queues s), sh_feedback := [], sh_recent := []\<rparr>"

definition drain_displaced_action_identities :: "osc_shared \<Rightarrow> nat \<Rightarrow> osc_shared \<times> action_identity list" where
  "drain_displaced_action_identities s n =
     (case drain_displaced (sh_queues s) n of (q, out) \<Rightarrow> (s\<lparr>sh_queues := q\<rparr>, out))"

definition displaced_action_identity_count :: "osc_shared \<Rightarrow> nat" where
  "displaced_action_identity_count s = length (oq_displaced (sh_queues s))"

definition drain_events ::
  "bool \<Rightarrow> osc_shared \<Rightarrow> osc_event action_envelope list \<Rightarrow> osc_shared \<times> osc_event action_envelope list" where
  "drain_events lock_free s output =
     (if lock_free
      then (s\<lparr>sh_queues := (sh_queues s)\<lparr>oq_admitted := []\<rparr>\<rparr>, output @ oq_admitted (sh_queues s))
      else (s, output))"

section \<open>Rate gates\<close>

record packet_rate_window =
  pw_started :: instant
  pw_accepted :: u64

definition packet_window_new :: "instant \<Rightarrow> packet_rate_window" where
  "packet_window_new now = \<lparr>pw_started = now, pw_accepted = 0\<rparr>"

definition packet_admit :: "packet_rate_window \<Rightarrow> instant \<Rightarrow> packet_rate_window \<times> bool" where
  "packet_admit w0 now =
     (let w = (if 1000000000 \<le> now - pw_started w0 then \<lparr>pw_started = now, pw_accepted = 0\<rparr> else w0) in
      if OSC_MAX_PACKETS_PER_SECOND \<le> pw_accepted w then (w, False)
      else (w\<lparr>pw_accepted := sat_add (pw_accepted w) 1\<rparr>, True))"

record feedback_rate_gate =
  fg_last :: instant
  fg_interval :: nat

text \<open>\<open>Duration::from_secs_f64(1.0 / 120.0)\<close> in nanoseconds.\<close>

definition feedback_gate_ready :: "instant \<Rightarrow> feedback_rate_gate" where
  "feedback_gate_ready now =
     (let interval = 8333333 in
      \<lparr>fg_last = (if interval \<le> now then now - interval else now), fg_interval = interval\<rparr>)"

definition feedback_admit :: "feedback_rate_gate \<Rightarrow> instant \<Rightarrow> feedback_rate_gate \<times> bool" where
  "feedback_admit g now =
     (if now - fg_last g < fg_interval g then (g, False) else (g\<lparr>fg_last := now\<rparr>, True))"

section \<open>Queueing and sending feedback\<close>

record osc_engine =
  eg_config :: osc_config
  eg_shared :: osc_shared
  eg_running :: bool
  eg_local :: osc_counters

definition engine_new :: "osc_config \<Rightarrow> u64 \<Rightarrow> osc_error + osc_engine" where
  "engine_new config sequencer =
     rbind (osc_config_validate config) (\<lambda>_. Inr
       \<lparr>eg_config = config, eg_shared = shared_new sequencer, eg_running = False, eg_local = counters_default\<rparr>)"

text \<open>Starting spawns the worker (a refused spawn is an I/O error given as argument); stopping joins it
  and keeps every admitted identity.\<close>

definition engine_start :: "rstr option \<Rightarrow> osc_engine \<Rightarrow> osc_engine \<times> (osc_error + unit)" where
  "engine_start spawn_error e =
     (if eg_running e then (e, Inr ())
      else case osc_config_validate (eg_config e) of
        Inl err \<Rightarrow> (e, Inl err)
      | Inr _ \<Rightarrow> (case spawn_error of
          Some err \<Rightarrow> (e, Inl (OeIo err))
        | None \<Rightarrow> (e\<lparr>eg_running := True\<rparr>, Inr ())))"

definition engine_stop :: "osc_engine \<Rightarrow> osc_engine" where
  "engine_stop e = e\<lparr>eg_running := False, eg_shared := clear_protocol_queues (eg_shared e)\<rparr>"

definition apply_config :: "rstr option \<Rightarrow> osc_config \<Rightarrow> osc_engine \<Rightarrow> osc_engine \<times> (osc_error + unit)" where
  "apply_config spawn_error config e =
     (case osc_config_validate config of
        Inl err \<Rightarrow> (e, Inl err)
      | Inr _ \<Rightarrow>
          (let restart = eg_running e;
               e1 = (if restart then engine_stop e else e);
               e2 = e1\<lparr>eg_shared := clear_protocol_queues (eg_shared e1), eg_config := config\<rparr>
           in if restart then engine_start spawn_error e2 else (e2, Inr ())))"

definition local_bump :: "((u64 \<Rightarrow> u64) \<Rightarrow> osc_counters \<Rightarrow> osc_counters) \<Rightarrow> osc_engine \<Rightarrow> osc_engine" where
  "local_bump field e = e\<lparr>eg_local := field (\<lambda>v. sat_add v 1) (eg_local e)\<rparr>"

text \<open>One peer of the loop; the flag says whether the feedback lock was free at its turn.\<close>

definition queue_feedback_peer ::
  "runtime_control_address \<Rightarrow> f32 \<Rightarrow> automation_origin \<Rightarrow> osc_engine \<Rightarrow> socket_addr \<times> bool \<Rightarrow> osc_engine"
  where
  "queue_feedback_peer address v origin e pl =
     (case pl of (peer, lock_free) \<Rightarrow>
      if origin = OriginOsc peer then local_bump ct_loop_suppressed_update e
      else if \<not> lock_free then local_bump ct_feedback_dropped_update e
      else
        (let fb = sh_feedback (eg_shared e); key = (peer, address);
             known = (key \<in> fst ` set fb) in
         if \<not> known \<and> OSC_FEEDBACK_KEYS_CAPACITY \<le> length fb then local_bump ct_feedback_dropped_update e
         else
           (let e1 = (if known then local_bump ct_feedback_coalesced_update e else e);
                entry = \<lparr>fe_address = address, fe_value = f32_clamp01 v\<rparr>
            in local_bump ct_feedback_queued_update
                 (e1\<lparr>eg_shared := (eg_shared e1)\<lparr>sh_feedback := feedback_insert key entry fb\<rparr>\<rparr>))))"

definition queue_feedback ::
  "(nat \<Rightarrow> bool) \<Rightarrow> runtime_control_address \<Rightarrow> f32 \<Rightarrow> automation_origin \<Rightarrow> osc_engine \<Rightarrow> osc_engine" where
  "queue_feedback locks address v origin e =
     (if \<not> f32_is_finite v then local_bump ct_feedback_dropped_update e
      else (let peers = oc_feedback_peers (eg_config e) in
        foldl (queue_feedback_peer address v origin) e (zip peers (map locks [0..<length peers]))))"

text \<open>The feedback half of a worker tick: at most one packet.  \<open>send\<close> says whether the socket took it; the
  flags say whether the feedback lock was free for the look and for the removal, and the lock of
  the recent list after sending; the clock is read once for the rate gate and again after the send.  The packet that
  left is returned.\<close>

definition remember_feedback ::
  "socket_addr \<Rightarrow> feedback_entry \<Rightarrow> instant \<Rightarrow> recent_feedback list \<Rightarrow> recent_feedback list" where
  "remember_feedback peer entry now recent =
     (if length recent = OSC_FEEDBACK_KEYS_CAPACITY then tl recent else recent) @
     [\<lparr>rf_peer = peer, rf_address = fe_address entry, rf_value_bits = fe_value entry, rf_sent_at = now\<rparr>]"

definition feedback_tick ::
  "(socket_addr \<Rightarrow> bytes \<Rightarrow> bool) \<Rightarrow> bool \<times> bool \<times> bool \<Rightarrow> instant \<Rightarrow> instant \<Rightarrow> osc_shared \<times> feedback_rate_gate \<Rightarrow>
   (osc_shared \<times> feedback_rate_gate) \<times> (socket_addr \<times> bytes) option" where
  "feedback_tick send flags now sent_at sg =
     (case sg of (s, gate) \<Rightarrow> case flags of (look_free, pop_free, recent_free) \<Rightarrow>
      if \<not> look_free then ((s, gate), None)
      else case sh_feedback s of
        [] \<Rightarrow> ((s, gate), None)
      | ((peer, k), entry) # rest \<Rightarrow>
          (case feedback_admit gate now of
             (gate', False) \<Rightarrow> ((count ct_feedback_rate_limited_update 1 s, gate'), None)
           | (gate', True) \<Rightarrow>
               if \<not> pop_free then ((s, gate'), None) else
               (let s1 = s\<lparr>sh_feedback := rest\<rparr> in
                case encode_feedback (fe_address entry) (fe_value entry) of
                  Inl e \<Rightarrow> ((count ct_feedback_send_errors_update 1 s1, gate'), None)
                | Inr bs \<Rightarrow>
                    if \<not> send peer bs then ((count ct_feedback_send_errors_update 1 s1, gate'), None)
                    else
                      (let s2 = count ct_feedback_sent_update 1 s1;
                           s3 = (if recent_free
                             then s2\<lparr>sh_recent := remember_feedback peer entry sent_at (sh_recent s2)\<rparr> else s2)
                       in ((s3, gate'), Some (peer, bs))))))"

section \<open>Receiving\<close>

definition echo_value :: "osc_event \<Rightarrow> f32 option" where
  "echo_value event =
     (case oe_value event of
        AvAbsolute v \<Rightarrow> Some v
      | AvTrigger \<Rightarrow> if runtime_is_scene_action (oe_address event) then Some F32_ONE else None
      | AvGate b \<Rightarrow> if runtime_is_scene_action (oe_address event)
          then Some (if b then F32_ONE else F32_ZERO) else None
      | AvDelta d \<Rightarrow> None)"

definition is_osc_feedback_echo :: "bool \<Rightarrow> instant \<Rightarrow> osc_event \<Rightarrow> osc_shared \<Rightarrow> osc_shared \<times> bool" where
  "is_osc_feedback_echo recent_free now event s =
     (case oe_origin event of
        OriginOsc peer \<Rightarrow>
          (case echo_value event of
             None \<Rightarrow> (s, False)
           | Some v \<Rightarrow>
               if \<not> f32_is_finite v \<or> \<not> recent_free then (s, False)
               else (let recent = dropWhile (\<lambda>r. 100000000 < now - rf_sent_at r) (sh_recent s) in
                 (s\<lparr>sh_recent := recent\<rparr>,
                  list_ex (\<lambda>r. rf_peer r = peer \<and> rf_address r = oe_address event \<and> rf_value_bits r = v) recent)))
      | _ \<Rightarrow> (s, False))"

record arrival =
  av_bytes :: bytes
  av_peer :: socket_addr
  av_ingress :: instant

datatype recv_result = Arrived arrival | WouldBlock | RecvFailed rstr

text \<open>One event of a decoded datagram: an echo is suppressed, anything else is pushed.  The flags say
  whether the recent list and the queues were unlocked.\<close>

definition receive_event :: "instant \<Rightarrow> osc_shared \<Rightarrow> osc_event \<times> bool \<times> bool \<times> instant \<Rightarrow> osc_shared" where
  "receive_event ingress s ev =
     (case ev of (event, recent_free, queue_free, now) \<Rightarrow>
      case is_osc_feedback_echo recent_free now event s of
        (s', True) \<Rightarrow> count ct_loop_suppressed_update 1 s'
      | (s', False) \<Rightarrow> push_event_at queue_free ingress event s')"

definition receive_datagram ::
  "(nat \<Rightarrow> bool \<times> bool \<times> instant) \<Rightarrow> osc_shared \<times> packet_rate_window \<Rightarrow> arrival \<Rightarrow> osc_shared \<times> packet_rate_window"
  where
  "receive_datagram flags sw a =
     (case sw of (s0, w) \<Rightarrow>
      let s = count ct_datagrams_received_update 1 s0 in
      if OSC_MAX_DATAGRAM_BYTES < length (av_bytes a) then (count ct_malformed_update 1 s, w)
      else case packet_admit w (av_ingress a) of
        (w', False) \<Rightarrow> (count ct_rate_dropped_update 1 s, w')
      | (w', True) \<Rightarrow>
          (case decode_packet (av_bytes a) (av_peer a) of
             Inl e \<Rightarrow> (count ct_malformed_update 1 s, w')
           | Inr events \<Rightarrow>
               (foldl (receive_event (av_ingress a))
                  (count ct_messages_received_update (of_nat (length events)) s) (zip events (map flags [0..<length events])), w')))"

text \<open>The batch loop: each entry is the stop flag read before the call, what \<open>recv_from\<close> returned, and
  the lock outcomes for the events of that datagram.\<close>

type_synonym batch_input = "(bool \<times> recv_result \<times> (nat \<Rightarrow> bool \<times> bool \<times> instant)) list"

fun receive_osc_batch ::
  "nat \<Rightarrow> osc_shared \<times> packet_rate_window \<Rightarrow> batch_input \<Rightarrow>
   (osc_shared \<times> packet_rate_window) \<times> (rstr + nat)" where
  "receive_osc_batch attempts sw [] = (sw, Inr attempts)"
| "receive_osc_batch attempts sw ((stop, r, flags) # rest) =
     (if attempts < OSC_MAX_RECEIVE_ATTEMPTS_PER_TICK \<and> \<not> stop then
        (case r of
           Arrived a \<Rightarrow> receive_osc_batch (attempts + 1) (receive_datagram flags sw a) rest
         | WouldBlock \<Rightarrow> (sw, Inr attempts)
         | RecvFailed err \<Rightarrow> (sw, Inl err))
      else (sw, Inr attempts))"

end
