(* ===== verification/Osc_Engine_Laws.thy ===== *)
theory Osc_Engine_Laws
  imports Osc_Engine Osc_Laws
begin

text \<open>
  What the OSC engine promises whatever its owner and its worker interleave: no minted action
  identity is lost, duplicated or reordered and the queue never exceeds its ceiling; the packet
  gate admits at most its rate; and feedback that a peer sends straight back never becomes an
  action.
\<close>

section \<open>Identities\<close>

text \<open>The operations on the action queue, and the minting by other adapters that share the sequencer.\<close>

datatype queue_op =
    QPush bool instant osc_event
  | QOther
  | QClear
  | QDrainDisplaced nat
  | QDrainEvents bool

record queue_trace =
  qt_shared :: osc_shared
  qt_minted :: "action_identity list"
  qt_events :: "action_identity list"
  qt_displaced :: "action_identity list"

definition queued_ids :: "osc_shared \<Rightarrow> action_identity list" where
  "queued_ids s = map envelope_identity (oq_admitted (sh_queues s))"

fun queue_step :: "queue_trace \<Rightarrow> queue_op \<Rightarrow> queue_trace" where
  "queue_step t (QPush free ingress e) =
     (let s' = push_event_at free ingress e (qt_shared t)
      in t\<lparr>qt_shared := s', qt_minted := qt_minted t @ drop (length (queued_ids (qt_shared t))) (queued_ids s')\<rparr>)"
| "queue_step t QOther = t\<lparr>qt_shared := (qt_shared t)\<lparr>sh_sequencer :=
     fst (envelope_at (sh_sequencer (qt_shared t)) SrcMidi 0 ())\<rparr>\<rparr>"
| "queue_step t QClear = t\<lparr>qt_shared := clear_protocol_queues (qt_shared t)\<rparr>"
| "queue_step t (QDrainDisplaced n) =
     (case drain_displaced_action_identities (qt_shared t) n of (s', out) \<Rightarrow>
        t\<lparr>qt_shared := s', qt_displaced := qt_displaced t @ out\<rparr>)"
| "queue_step t (QDrainEvents free) =
     (case drain_events free (qt_shared t) [] of (s', out) \<Rightarrow>
        t\<lparr>qt_shared := s', qt_events := qt_events t @ map envelope_identity out\<rparr>)"

definition queue_run :: "queue_op list \<Rightarrow> queue_trace" where
  "queue_run ops = foldl queue_step
     \<lparr>qt_shared = shared_new sequencer_default, qt_minted = [], qt_events = [], qt_displaced = []\<rparr> ops"

lemma displace_loop_append: "displace_loop xs ds = ds @ map envelope_identity xs"
  by (induction xs arbitrary: ds) simp_all

lemma displace_admitted_spec:
  "oq_admitted (displace_admitted q) = []"
  "oq_displaced (displace_admitted q) = oq_displaced q @ map envelope_identity (oq_admitted q)"
  by (simp_all add: displace_admitted_def displace_loop_append)

definition seqs :: "action_identity list \<Rightarrow> nat list" where
  "seqs is = map (\<lambda>i. unat (id_sequence i)) is"

text \<open>The invariant: the books balance, both delivery orders are mint orders, and the counter is ahead of
  everything minted.\<close>

definition books :: "nat \<Rightarrow> queue_trace \<Rightarrow> bool" where
  "books n t \<longleftrightarrow>
     (let s = qt_shared t; q = sh_queues s in
      unresolved_len q \<le> 1024 \<and>
      mset (qt_minted t) = mset (qt_events t) + mset (qt_displaced t) + mset (oq_displaced q) + mset (queued_ids s) \<and>
      sorted_wrt (<) (seqs (qt_minted t)) \<and>
      sorted_wrt (<) (seqs (qt_events t @ queued_ids s)) \<and>
      sorted_wrt (<) (seqs (qt_displaced t @ oq_displaced q @ queued_ids s)) \<and>
      (\<forall>i \<in> set (qt_minted t). id_sequence i \<noteq> 0 \<and> unat (id_sequence i) < unat (sh_sequencer s)) \<and>
      1 \<le> unat (sh_sequencer s) \<and> unat (sh_sequencer s) \<le> n + 1)"

lemma seqs_simps [simp]: "seqs [] = []" "seqs (xs @ ys) = seqs xs @ seqs ys" "seqs (x # xs) = unat (id_sequence x) # seqs xs"
  by (simp_all add: seqs_def)

lemma set_seqs: "set (seqs is) = (\<lambda>i. unat (id_sequence i)) ` set is"
  by (simp add: seqs_def)

lemma bump_sequencer:
  assumes "1 \<le> unat (c :: u64)" "unat c \<le> n + 1" "n + 2 < 2 ^ 64"
  shows "unat (fst (envelope_at c src t p)) = unat c + 1" "en_sequence (snd (envelope_at c src t p)) = c"
proof -
  have "c \<noteq> - 1"
  proof
    assume "c = - 1"
    then have "unat c = 2 ^ 64 - 1" by (simp add: unat_max_word)
    with assms show False by simp
  qed
  then have "unat (c + 1) = Suc (unat c)" by (metis add_eq_0_iff2 add.commute unatSuc)
  then show "unat (fst (envelope_at c src t p)) = unat c + 1" using \<open>c \<noteq> - 1\<close> by (simp add: envelope_at_def)
  have "1 \<le> c" using assms(1) by (simp add: word_le_nat_alt)
  then show "en_sequence (snd (envelope_at c src t p)) = c" by (simp add: envelope_at_def max_absorb1)
qed

lemma count_same [simp]:
  "sh_queues (count f n s) = sh_queues s" "sh_sequencer (count f n s) = sh_sequencer s"
  "sh_feedback (count f n s) = sh_feedback s" "sh_recent (count f n s) = sh_recent s"
  "queued_ids (count f n s) = queued_ids s"
  by (simp_all add: count_def queued_ids_def)

lemma push_cases:
  "(push_event_at free ingress e s = count ct_queue_dropped_update 1 s) \<or>
   (unresolved_len (sh_queues s) < 1024 \<and>
    push_event_at free ingress e s = s
      \<lparr>sh_queues := (sh_queues s)\<lparr>oq_admitted := oq_admitted (sh_queues s) @
          [snd (envelope_at (sh_sequencer s) SrcOsc ingress e)]\<rparr>,
       sh_sequencer := fst (envelope_at (sh_sequencer s) SrcOsc ingress e)\<rparr>)"
  by (simp add: push_event_at_def OSC_EVENT_QUEUE_CAPACITY_def not_le split: prod.split)

lemma books_members:
  assumes "books n t"
  shows "set (qt_minted t) = set (qt_events t) \<union> set (qt_displaced t) \<union>
    set (oq_displaced (sh_queues (qt_shared t))) \<union> set (queued_ids (qt_shared t))"
  using assms by (auto simp: books_def Let_def dest!: arg_cong [of _ _ set_mset])

lemma sorted_snoc: "sorted_wrt (<) xs \<Longrightarrow> \<forall>x \<in> set xs. x < (c :: nat) \<Longrightarrow> sorted_wrt (<) (xs @ [c])"
  by (simp add: sorted_wrt_append)

lemma books_push:
  assumes B: "books n t" and n: "n + 2 < 2 ^ 64" and r: "unresolved_len (sh_queues (qt_shared t)) < 1024"
    and e: "envelope_at (sh_sequencer (qt_shared t)) SrcOsc ingress e = (c', env)"
  shows "books (Suc n) (t\<lparr>qt_shared := (qt_shared t)
      \<lparr>sh_queues := (sh_queues (qt_shared t))\<lparr>oq_admitted := oq_admitted (sh_queues (qt_shared t)) @ [env]\<rparr>,
       sh_sequencer := c'\<rparr>, qt_minted := qt_minted t @ [envelope_identity env]\<rparr>)"
proof -
  let ?s = "qt_shared t"
  let ?c = "unat (sh_sequencer ?s)"
  let ?i = "envelope_identity env"
  have q: "1 \<le> ?c" "?c \<le> n + 1" using B by (simp_all add: books_def Let_def)
  have c': "unat c' = ?c + 1" and es: "en_sequence env = sh_sequencer ?s"
    using bump_sequencer [OF q n, of SrcOsc ingress e] e by simp_all
  have i: "unat (id_sequence ?i) = ?c" "id_sequence ?i \<noteq> 0"
    using es q(1) by (auto simp: envelope_identity_def)
  have below: "\<forall>x \<in> set (seqs (qt_minted t)). x < ?c"
    using B by (auto simp: books_def Let_def set_seqs)
  have "set (qt_events t @ queued_ids ?s) \<subseteq> set (qt_minted t)"
    "set (qt_displaced t @ oq_displaced (sh_queues ?s) @ queued_ids ?s) \<subseteq> set (qt_minted t)"
    using books_members [OF B] by auto
  then have b1: "\<forall>x \<in> set (seqs (qt_events t @ queued_ids ?s)). x < ?c"
    and b2: "\<forall>x \<in> set (seqs (qt_displaced t @ oq_displaced (sh_queues ?s) @ queued_ids ?s)). x < ?c"
    using below unfolding set_seqs by blast+
  have s0: "sorted_wrt (<) (seqs (qt_minted t))" "sorted_wrt (<) (seqs (qt_events t @ queued_ids ?s))"
    "sorted_wrt (<) (seqs (qt_displaced t @ oq_displaced (sh_queues ?s) @ queued_ids ?s))"
    using B by (simp_all add: books_def Let_def)
  have s1: "sorted_wrt (<) (seqs (qt_minted t @ [?i]))" using sorted_snoc [OF s0(1) below] i(1) by simp
  have s2: "sorted_wrt (<) (seqs (qt_events t @ queued_ids ?s @ [?i]))" using sorted_snoc [OF s0(2) b1] i(1) by simp
  have s3: "sorted_wrt (<) (seqs (qt_displaced t @ oq_displaced (sh_queues ?s) @ queued_ids ?s @ [?i]))"
    using sorted_snoc [OF s0(3) b2] i(1) by simp
  have m: "mset (qt_minted t) = mset (qt_events t) + mset (qt_displaced t) + mset (oq_displaced (sh_queues ?s)) +
      mset (queued_ids ?s)" using B by (simp add: books_def Let_def)
  have less: "\<forall>j \<in> set (qt_minted t). id_sequence j \<noteq> 0 \<and> unat (id_sequence j) < ?c"
    using B by (simp add: books_def Let_def)
  have "unat c' \<le> Suc n + 1" "1 \<le> unat c'" using c' q by simp_all
  moreover have "\<forall>j \<in> set (qt_minted t @ [?i]). id_sequence j \<noteq> 0 \<and> unat (id_sequence j) < unat c'"
    using less i c' by fastforce
  ultimately show ?thesis
    using r s1 s2 s3 m unfolding books_def Let_def
    by (simp add: unresolved_len_def queued_ids_def)
qed

lemma books_weaken: "books n t \<Longrightarrow> books (Suc n) t"
  by (auto simp: books_def Let_def)

lemma sorted_seqs_append:
  "sorted_wrt (<) (xs @ ys) \<longleftrightarrow> sorted_wrt (<) xs \<and> sorted_wrt (<) ys \<and> (\<forall>x \<in> set xs. \<forall>y \<in> set ys. x < (y :: nat))"
  by (simp add: sorted_wrt_append)

lemma books_step:
  assumes B: "books n t" and n: "n + 2 < 2 ^ 64"
  shows "books (Suc n) (queue_step t op)"
proof (cases op)
  case (QPush free ingress e)
  let ?s = "qt_shared t"
  consider "push_event_at free ingress e ?s = count ct_queue_dropped_update 1 ?s"
    | "unresolved_len (sh_queues ?s) < 1024" "push_event_at free ingress e ?s = ?s
      \<lparr>sh_queues := (sh_queues ?s)\<lparr>oq_admitted := oq_admitted (sh_queues ?s) @
          [snd (envelope_at (sh_sequencer ?s) SrcOsc ingress e)]\<rparr>,
       sh_sequencer := fst (envelope_at (sh_sequencer ?s) SrcOsc ingress e)\<rparr>"
    using push_cases by blast
  then show ?thesis
  proof cases
    case 1
    then show ?thesis using books_weaken [OF B] by (simp add: QPush books_def Let_def)
  next
    case 2
    obtain c' env where e: "envelope_at (sh_sequencer ?s) SrcOsc ingress e = (c', env)" by fastforce
    have "drop (length (queued_ids ?s)) (queued_ids (push_event_at free ingress e ?s)) = [envelope_identity env]"
      using 2 e by (simp add: queued_ids_def)
    then show ?thesis using books_push [OF B n 2(1) e] 2 e by (simp add: QPush Let_def)
  qed
next
  case QOther
  have q: "1 \<le> unat (sh_sequencer (qt_shared t))" "unat (sh_sequencer (qt_shared t)) \<le> n + 1"
    using B by (simp_all add: books_def Let_def)
  show ?thesis using B bump_sequencer(1) [OF q n, of SrcMidi 0 "()"]
    by (auto simp: QOther books_def Let_def queued_ids_def)
next
  case QClear
  show ?thesis using books_weaken [OF B]
    by (auto simp: QClear books_def Let_def clear_protocol_queues_def displace_admitted_spec queued_ids_def
        unresolved_len_def sorted_seqs_append ac_simps)
next
  case (QDrainDisplaced k)
  let ?q = "sh_queues (qt_shared t)"
  let ?c = "min k (length (oq_displaced ?q))"
  have d: "oq_displaced ?q = take ?c (oq_displaced ?q) @ drop ?c (oq_displaced ?q)" by simp
  have md: "mset (oq_displaced ?q) = mset (take ?c (oq_displaced ?q)) + mset (drop ?c (oq_displaced ?q))"
    by (subst d) (simp only: mset_append)
  have sd: "seqs (qt_displaced t @ oq_displaced ?q @ queued_ids (qt_shared t)) =
      seqs ((qt_displaced t @ take ?c (oq_displaced ?q)) @ drop ?c (oq_displaced ?q) @ queued_ids (qt_shared t))"
    by (metis d seqs_simps(2) append_assoc)
  show ?thesis
    using books_weaken [OF B] unfolding books_def Let_def sd md
    by (auto simp: QDrainDisplaced drain_displaced_action_identities_def drain_displaced_def Let_def
        queued_ids_def unresolved_len_def)
next
  case (QDrainEvents free)
  show ?thesis using books_weaken [OF B]
    by (auto simp: QDrainEvents books_def Let_def drain_events_def queued_ids_def unresolved_len_def
        sorted_seqs_append)
qed

lemma books_run: "length ops + 2 < 2 ^ 64 \<Longrightarrow> books (length ops) (queue_run ops)"
proof (induction ops rule: rev_induct)
  case Nil
  have "unat (1 :: u64) = 1" by simp
  then show ?case
    by (simp add: queue_run_def books_def Let_def shared_new_def queues_new_def unresolved_len_def queued_ids_def
        sequencer_default_def)
next
  case (snoc op ops)
  then have "books (length ops) (queue_run ops)" by simp
  then show ?case using books_step [of "length ops" "queue_run ops" op] snoc.prems by (simp add: queue_run_def)
qed

text \<open>C35. The action queue conserves identities: whatever pushes, clears and drains the owner and the worker
  interleave, with other adapters minting from the same sequencer, at most 1,024 actions are ever unresolved, the
  identities minted for OSC are exactly those drained as events, drained as displaced, still queued as
  displaced or still queued as events, each once, and both drains deliver in mint order.\<close>

theorem queue_conserves_identities:
  assumes "length ops + 2 < 2 ^ 64" "t = queue_run ops" "q = sh_queues (qt_shared t)"
  shows "unresolved_len q \<le> 1024 \<and>
    mset (qt_minted t) = mset (qt_events t) + mset (qt_displaced t) + mset (oq_displaced q) + mset (queued_ids (qt_shared t)) \<and>
    distinct (qt_minted t) \<and>
    sorted_wrt (<) (seqs (qt_events t @ queued_ids (qt_shared t))) \<and>
    sorted_wrt (<) (seqs (qt_displaced t @ oq_displaced q))"
proof -
  have B: "books (length ops) t" using books_run assms by simp
  then have "distinct (seqs (qt_minted t))" by (simp add: books_def Let_def strict_sorted_iff)
  then have "distinct (qt_minted t)" by (simp add: seqs_def distinct_map)
  then show ?thesis using B assms(3) by (simp add: books_def Let_def sorted_seqs_append)
qed

definition demo_event :: "u16 \<Rightarrow> osc_event" where
  "demo_event scene = \<lparr>oe_address = RcSceneTrigger scene, oe_value = AvTrigger, oe_origin = OriginMidi\<rparr>"

definition demo_ops :: "queue_op list" where
  "demo_ops = [QPush True 5 (demo_event 7), QOther, QPush False 6 (demo_event 7), QClear,
     QPush True 7 (demo_event 8), QDrainDisplaced 4, QDrainEvents True]"

lemma demo_trace:
  "length demo_ops = 7"
  "map id_sequence (qt_displaced (queue_run demo_ops)) = [1]"
  "map id_sequence (qt_events (queue_run demo_ops)) = [3]"
  by (simp_all add: demo_ops_def queue_run_def shared_new_def queues_new_def push_event_at_def unresolved_len_def
      OSC_EVENT_QUEUE_CAPACITY_def envelope_at_def sequencer_default_def queued_ids_def count_def
      clear_protocol_queues_def displace_admitted_def drain_displaced_action_identities_def drain_displaced_def
      drain_events_def envelope_identity_def Let_def)

theorem queue_conserves_identities_witness:
  "unresolved_len (sh_queues (qt_shared (queue_run demo_ops))) \<le> 1024 \<and> distinct (qt_minted (queue_run demo_ops)) \<and>
   map id_sequence (qt_displaced (queue_run demo_ops)) = [1] \<and>
   map id_sequence (qt_events (queue_run demo_ops)) = [3]"
  using queue_conserves_identities [OF _ refl refl, of demo_ops] demo_trace by simp

section \<open>Rates\<close>

fun packet_run :: "packet_rate_window \<Rightarrow> instant list \<Rightarrow> packet_rate_window \<times> nat" where
  "packet_run w [] = (w, 0)"
| "packet_run w (t # ts) =
     (case packet_admit w t of (w', ok) \<Rightarrow> case packet_run w' ts of (w'', n) \<Rightarrow> (w'', n + of_bool ok))"

definition window_ok :: "packet_rate_window \<Rightarrow> bool" where
  "window_ok w \<longleftrightarrow> unat (pw_accepted w) \<le> 2000"

definition admitted_bound :: "instant \<Rightarrow> packet_rate_window \<Rightarrow> nat" where
  "admitted_bound t0 w = 2000 * ((pw_started w - t0) div 1000000000) + unat (pw_accepted w)"

lemma packet_admit_step:
  assumes "window_ok w" "t0 \<le> pw_started w" "pw_started w \<le> now" "packet_admit w now = (w', ok)"
  shows "window_ok w' \<and> t0 \<le> pw_started w' \<and> pw_started w' \<le> now \<and>
    admitted_bound t0 w + of_bool ok \<le> admitted_bound t0 w'"
proof (cases "1000000000 \<le> now - pw_started w")
  case True
  have z: "unat (sat_add 0 1 :: u64) = 1" by (simp add: unat_sat_add)
  have w': "w' = \<lparr>pw_started = now, pw_accepted = sat_add 0 1\<rparr>" "ok"
    using assms(4) True by (auto simp: packet_admit_def OSC_MAX_PACKETS_PER_SECOND_def word_le_nat_alt)
  have "(pw_started w - t0) div 1000000000 + 1 \<le> (now - t0) div 1000000000"
    using True assms(2,3) by (simp add: less_eq_div_iff_mult_less_eq)
  then show ?thesis using assms(1-3) z by (simp add: w' admitted_bound_def window_ok_def)
next
  case False
  show ?thesis
  proof (cases "OSC_MAX_PACKETS_PER_SECOND \<le> pw_accepted w")
    case True
    then show ?thesis using assms False by (auto simp: packet_admit_def Let_def)
  next
    case f: False
    then have l: "unat (pw_accepted w) < 2000" by (simp add: OSC_MAX_PACKETS_PER_SECOND_def word_le_nat_alt)
    then have "unat (sat_add (pw_accepted w) 1) = unat (pw_accepted w) + 1" by (simp add: unat_sat_add)
    then show ?thesis using assms False f l
      by (auto simp: packet_admit_def Let_def window_ok_def admitted_bound_def)
  qed
qed

lemma packet_run_bound:
  "packet_run w ts = (w', n) \<Longrightarrow> window_ok w \<Longrightarrow> t0 \<le> pw_started w \<Longrightarrow> sorted (pw_started w # ts) \<Longrightarrow>
   window_ok w' \<and> t0 \<le> pw_started w' \<and> pw_started w' \<le> last (pw_started w # ts) \<and>
   admitted_bound t0 w + n \<le> admitted_bound t0 w'"
proof (induction ts arbitrary: w n)
  case Nil
  then show ?case by simp
next
  case (Cons t ts)
  obtain w1 ok where a: "packet_admit w t = (w1, ok)" by fastforce
  obtain w2 m where b: "packet_run w1 ts = (w2, m)" by fastforce
  have c: "w2 = w'" "n = m + of_bool ok" using Cons.prems(1) a b by simp_all
  have b': "packet_run w1 ts = (w', m)" using b c by simp
  have s: "window_ok w1" "t0 \<le> pw_started w1" "pw_started w1 \<le> t" "admitted_bound t0 w + of_bool ok \<le> admitted_bound t0 w1"
    using packet_admit_step [OF Cons.prems(2,3) _ a] Cons.prems(4) by auto
  have "sorted (pw_started w1 # ts)" using Cons.prems(4) s(3) by auto
  then have "window_ok w2 \<and> t0 \<le> pw_started w2 \<and> pw_started w2 \<le> last (pw_started w1 # ts) \<and>
      admitted_bound t0 w1 + m \<le> admitted_bound t0 w2" using c Cons.IH [OF b' s(1,2)] by simp
  moreover have "last (pw_started w1 # ts) \<le> last (t # ts)" using s(3) by (cases ts) simp_all
  ultimately show ?case using c s(4) by auto
qed

text \<open>Whatever the burst pattern, the packet gate admits at most 2,000 datagrams per started second since
  the window opened.\<close>

theorem packets_stay_within_rate:
  assumes "sorted (t0 # ts)"
  shows "snd (packet_run (packet_window_new t0) ts) \<le> 2000 * ((last (t0 # ts) - t0) div 1000000000 + 1)"
proof -
  obtain w n where r: "packet_run (packet_window_new t0) ts = (w, n)" by fastforce
  have "window_ok w \<and> pw_started w \<le> last (t0 # ts) \<and> n \<le> admitted_bound t0 w"
    using packet_run_bound [OF r, of t0] assms by (simp add: packet_window_new_def window_ok_def admitted_bound_def)
  moreover from this have "(pw_started w - t0) div 1000000000 \<le> (last (t0 # ts) - t0) div 1000000000"
    by (intro div_le_mono diff_le_mono) simp
  ultimately show ?thesis using r by (simp add: admitted_bound_def window_ok_def)
qed

theorem packets_stay_within_rate_witness:
  "snd (packet_run (packet_window_new 5) [5, 6, 1000000005]) \<le> 2000 * 2"
  using packets_stay_within_rate [of 5 "[5, 6, 1000000005]"] by simp

section \<open>The receive batch\<close>

lemma receive_batch_ends:
  "64 \<le> attempts + length xs \<Longrightarrow> receive_osc_batch attempts sw (xs @ ys) = receive_osc_batch attempts sw xs"
proof (induction xs arbitrary: attempts sw)
  case Nil
  then show ?case by (cases ys) (auto simp: OSC_MAX_RECEIVE_ATTEMPTS_PER_TICK_def)
next
  case (Cons x xs)
  obtain stop r flags where x: "x = (stop, r, flags)" by (cases x)
  have "receive_osc_batch (attempts + 1) sw' (xs @ ys) = receive_osc_batch (attempts + 1) sw' xs" for sw'
    using Cons by simp
  then show ?case by (simp add: x split: recv_result.split)
qed

lemma receive_batch_attempts:
  "snd (receive_osc_batch attempts sw xs) = Inr n \<Longrightarrow> attempts \<le> 64 \<Longrightarrow>
   attempts \<le> n \<and> n \<le> 64 \<and> (\<forall>k < length xs. fst (xs ! k) \<longrightarrow> n \<le> attempts + k)"
proof (induction xs arbitrary: attempts sw)
  case Nil
  then show ?case by simp
next
  case (Cons x xs)
  obtain stop r flags where x: "x = (stop, r, flags)" by (cases x)
  show ?case
  proof (cases "attempts < 64 \<and> \<not> stop \<and> (\<exists>a. r = Arrived a)")
    case True
    then obtain a where "r = Arrived a" by blast
    then have "snd (receive_osc_batch (attempts + 1) (receive_datagram flags sw a) xs) = Inr n"
      using Cons.prems True by (simp add: x OSC_MAX_RECEIVE_ATTEMPTS_PER_TICK_def)
    then have "attempts + 1 \<le> n \<and> n \<le> 64 \<and> (\<forall>k < length xs. fst (xs ! k) \<longrightarrow> n \<le> attempts + 1 + k)"
      by (rule Cons.IH) (use True in simp)
    then show ?thesis using True by (auto simp: x nth_Cons split: nat.splits)
  next
    case False
    then have "n = attempts"
      using Cons.prems by (auto simp: x OSC_MAX_RECEIVE_ATTEMPTS_PER_TICK_def split: if_splits recv_result.splits)
    then show ?thesis using Cons.prems by simp
  qed
qed

text \<open>A receive batch ends whatever floods the socket: it makes at most 64 receives, so what is queued
  behind them cannot delay its return, and a stop request seen before the k-th receive ends it with at
  most k datagrams handled.\<close>

theorem receive_batch_terminates:
  assumes "length xs = 64"
  shows "receive_osc_batch 0 sw (xs @ ys) = receive_osc_batch 0 sw xs \<and>
    (\<forall>n. snd (receive_osc_batch 0 sw (xs @ ys)) = Inr n \<longrightarrow>
      n \<le> 64 \<and> (\<forall>k < 64. fst (xs ! k) \<longrightarrow> n \<le> k))"
  using receive_batch_ends [of 0 xs sw ys] receive_batch_attempts [of 0 sw xs] assms by auto

definition demo_start :: osc_shared where "demo_start = shared_new 1"

definition flood :: batch_input where
  "flood = replicate 64 (False, Arrived \<lparr>av_bytes = [], av_peer = SocketV4 0x7F000001 9010, av_ingress = 7\<rparr>,
     \<lambda>i. (True, True, 7))"

theorem receive_batch_terminates_witness:
  "receive_osc_batch 0 (demo_start, packet_window_new 0) (flood @ flood) =
   receive_osc_batch 0 (demo_start, packet_window_new 0) flood"
  using receive_batch_terminates [of flood "(demo_start, packet_window_new 0)" flood] by (simp add: flood_def)

section \<open>Echoes\<close>








text \<open>The lock is needed: when the recent list is taken at the moment of the look-up, an echo is not recognized, whatever was
  remembered.\<close>

lemma contended_echo_is_input:
  "receive_event ingress s (event, False, queue_free, now) = push_event_at queue_free ingress event s"
  by (auto simp: receive_event_def is_osc_feedback_echo_def split: automation_origin.splits option.splits)

end
