(* ===== verification/Recovery_Journal.thy ===== *)
theory Recovery_Journal
  imports Byte_Codec
begin

text \<open>
  The crash-recovery journal of \<open>src/src/recovery_journal.rs\<close>: checksummed records, the tolerant scan of
  a journal file, and the append, compaction and discard of checkpoints.  A journal file is
  \<open>None\<close> (missing) or its bytes.  What the file system does to an operation is an argument: an append
  may leave any prefix of its record behind, an atomic replacement either happens or leaves the
  old file.  SHA-256 and YAML are third-party code (\<open>sha\<close>, \<open>print\<close>, \<open>parse\<close>); no other process writes
  the journal, and the length of an existing file can be read.
\<close>

section \<open>Limits, statuses, errors\<close>

definition RECOVERY_JOURNAL_VERSION :: u16 where "RECOVERY_JOURNAL_VERSION = 1"
definition RECOVERY_MAX_ENTRIES :: nat where "RECOVERY_MAX_ENTRIES = 256"
definition RECOVERY_MAX_FILE_BYTES :: u64 where "RECOVERY_MAX_FILE_BYTES = 64 * 1024 * 1024"
definition RECOVERY_MAX_PAYLOAD_BYTES :: nat where "RECOVERY_MAX_PAYLOAD_BYTES = 8 * 1024 * 1024"
definition RECORD_MAGIC :: bytes where "RECORD_MAGIC = utf8 (lit ''COSRECJ1'')"
definition RECORD_FLAGS :: u16 where "RECORD_FLAGS = 0"
definition RECORD_RESERVED :: u32 where "RECORD_RESERVED = 0"
definition RECORD_HEADER_BYTES :: nat where "RECORD_HEADER_BYTES = 8 + 2 + 2 + 8 + 4 + 4 + 32"
definition RECOVERY_CHECKSUM_DOMAIN :: bytes where
  "RECOVERY_CHECKSUM_DOMAIN = utf8 (lit ''collide-o-scope recovery journal record v1'') @ [0]"

record recovery_limits =
  rl_max_entries :: nat
  rl_max_file_bytes :: u64
  rl_max_payload_bytes :: nat

definition recovery_limits_default :: recovery_limits where
  "recovery_limits_default = \<lparr>rl_max_entries = RECOVERY_MAX_ENTRIES, rl_max_file_bytes = RECOVERY_MAX_FILE_BYTES,
     rl_max_payload_bytes = RECOVERY_MAX_PAYLOAD_BYTES\<rparr>"

datatype journal_error =
    JeInvalidLimits
  | JeSequenceExhausted
  | JePayloadTooLarge nat nat
  | JeRecordTooLarge u64 u64
  | JeSerialize rstr
  | JeIo rstr rstr
  | JeDestinationRace rstr

definition limits_bounded :: "recovery_limits \<Rightarrow> journal_error + recovery_limits" where
  "limits_bounded l =
     (if rl_max_entries l = 0 \<or> RECOVERY_MAX_ENTRIES < rl_max_entries l
         \<or> unat (rl_max_file_bytes l) < RECORD_HEADER_BYTES + 1
         \<or> RECOVERY_MAX_FILE_BYTES < rl_max_file_bytes l
         \<or> rl_max_payload_bytes l = 0 \<or> RECOVERY_MAX_PAYLOAD_BYTES < rl_max_payload_bytes l
         \<or> unat (rl_max_file_bytes l) < RECORD_HEADER_BYTES + rl_max_payload_bytes l
      then Inl JeInvalidLimits else Inr l)"

datatype tail_status = TailClean | TailTruncated | TailCorrupt | TailUnsupportedVersion | TailLimitExceeded

definition tail_is_bad :: "tail_status \<Rightarrow> bool" where
  "tail_is_bad t \<longleftrightarrow> t \<noteq> TailClean"

record 'p recovery_checkpoint =
  ck_sequence :: u64
  ck_patch :: 'p
  ck_payload :: bytes

record 'p recovery_scan =
  rs_latest :: "'p recovery_checkpoint option"
  rs_valid_entries :: nat
  rs_valid_bytes :: u64
  rs_tail_status :: tail_status
  rs_warning :: "rstr option"

definition scan_default :: "'p recovery_scan" where
  "scan_default = \<lparr>rs_latest = None, rs_valid_entries = 0, rs_valid_bytes = 0, rs_tail_status = TailClean,
     rs_warning = None\<rparr>"

definition recovery_available :: "'p recovery_scan \<Rightarrow> bool" where
  "recovery_available s \<longleftrightarrow> rs_latest s \<noteq> None"

definition scan_has_bad_tail :: "'p recovery_scan \<Rightarrow> bool" where
  "scan_has_bad_tail s \<longleftrightarrow> tail_is_bad (rs_tail_status s)"

definition set_bad_tail :: "'p recovery_scan \<Rightarrow> tail_status \<Rightarrow> rstr \<Rightarrow> 'p recovery_scan" where
  "set_bad_tail s status warning = s\<lparr>rs_tail_status := status, rs_warning := Some warning\<rparr>"

section \<open>Records\<close>

definition record_checksum ::
  "(bytes \<Rightarrow> bytes) \<Rightarrow> u16 \<Rightarrow> u16 \<Rightarrow> u64 \<Rightarrow> u32 \<Rightarrow> u32 \<Rightarrow> bytes \<Rightarrow> bytes" where
  "record_checksum sha version flags sequence payload_len reserved payload =
     sha (RECOVERY_CHECKSUM_DOMAIN @ RECORD_MAGIC @ u16_le version @ u16_le flags @ u64_le sequence @
          u32_le payload_len @ u32_le reserved @ payload)"

definition encode_record :: "(bytes \<Rightarrow> bytes) \<Rightarrow> u64 \<Rightarrow> bytes \<Rightarrow> journal_error + bytes" where
  "encode_record sha sequence payload =
     (if sequence = 0 then Inl JeSequenceExhausted
      else if 2 ^ 32 \<le> length payload then Inl (JePayloadTooLarge (length payload) (2 ^ 32 - 1))
      else let payload_len = of_nat (length payload);
               checksum = record_checksum sha RECOVERY_JOURNAL_VERSION RECORD_FLAGS sequence payload_len
                 RECORD_RESERVED payload
           in Inr (RECORD_MAGIC @ u16_le RECOVERY_JOURNAL_VERSION @ u16_le RECORD_FLAGS @ u64_le sequence @
                   u32_le payload_len @ u32_le RECORD_RESERVED @ checksum @ payload))"

section \<open>Scanning\<close>

definition TRUNCATED_WARNING :: rstr where
  "TRUNCATED_WARNING =
     lit ''Recovery journal has an incomplete crash tail; using the latest valid checkpoint.''"

definition byte_range :: "bytes \<Rightarrow> nat \<Rightarrow> nat \<Rightarrow> bytes" where
  "byte_range bs a b = take (b - a) (drop a bs)"

text \<open>The record at \<open>offset\<close>: either the status and warning of a bad tail, or the checkpoint and the
  offset of its end.\<close>

definition scan_record ::
  "(bytes \<Rightarrow> bytes) \<Rightarrow> (bytes \<Rightarrow> rstr + 'p) \<Rightarrow> recovery_limits \<Rightarrow> bool \<Rightarrow> bytes \<Rightarrow> nat \<Rightarrow> u64 \<Rightarrow>
   (tail_status \<times> rstr) + ('p recovery_checkpoint \<times> nat)" where
  "scan_record sha parse limits oversized bs offset previous =
     (let cut_short = Inl (if oversized then TailLimitExceeded else TailTruncated, TRUNCATED_WARNING) in
      if length bs - offset < RECORD_HEADER_BYTES then cut_short
      else let header = byte_range bs offset (offset + RECORD_HEADER_BYTES) in
      if take 8 header \<noteq> RECORD_MAGIC
      then Inl (TailCorrupt, lit ''Recovery journal checksum/header is corrupt; using the latest valid checkpoint.'')
      else let version = u16_of_le (byte_range header 8 10);
               flags = u16_of_le (byte_range header 10 12);
               sequence = u64_of_le (byte_range header 12 20);
               payload_len = u32_of_le (byte_range header 20 24);
               reserved = u32_of_le (byte_range header 24 28);
               expected = byte_range header 28 60 in
      if version \<noteq> RECOVERY_JOURNAL_VERSION
      then Inl (TailUnsupportedVersion, lit ''Recovery journal version '' @ decimal (unat version) @
                  lit '' is unsupported; using the latest compatible checkpoint.'')
      else if flags \<noteq> RECORD_FLAGS \<or> reserved \<noteq> RECORD_RESERVED \<or> sequence = 0 \<or> sequence \<le> previous
      then Inl (TailCorrupt, lit ''Recovery journal record order/header is corrupt; using the latest valid checkpoint.'')
      else if rl_max_payload_bytes limits < unat payload_len
      then Inl (TailLimitExceeded, lit ''Recovery checkpoint is '' @ decimal (unat payload_len) @
                  lit '' bytes; limit is '' @ decimal (rl_max_payload_bytes limits) @ lit ''. Ignored the tail.'')
      else let end_offset = offset + RECORD_HEADER_BYTES + unat payload_len in
      if length bs < end_offset then cut_short
      else let payload = byte_range bs (offset + RECORD_HEADER_BYTES) end_offset in
      if record_checksum sha version flags sequence payload_len reserved payload \<noteq> expected
      then Inl (TailCorrupt, lit ''Recovery journal checksum is corrupt; using the latest valid checkpoint.'')
      else case parse payload of
        Inl e \<Rightarrow> Inl (TailCorrupt, lit ''Recovery checkpoint payload is invalid; using the latest valid checkpoint.'')
      | Inr patch \<Rightarrow> Inr (\<lparr>ck_sequence = sequence, ck_patch = patch, ck_payload = payload\<rparr>, end_offset))"

lemma scan_record_advances:
  "scan_record sha parse limits oversized bs offset previous = Inr (ck, e) \<Longrightarrow> offset < e \<and> e \<le> length bs"
  by (auto simp: scan_record_def Let_def RECORD_HEADER_BYTES_def split: if_splits sum.splits)

function scan_loop ::
  "(bytes \<Rightarrow> bytes) \<Rightarrow> (bytes \<Rightarrow> rstr + 'p) \<Rightarrow> recovery_limits \<Rightarrow> bool \<Rightarrow> bytes \<Rightarrow> nat \<Rightarrow> u64 \<Rightarrow> 'p recovery_scan \<Rightarrow>
   'p recovery_scan" where
  "scan_loop sha parse limits oversized bs offset previous s =
     (if offset < length bs then
        (if rs_valid_entries s = rl_max_entries limits
         then set_bad_tail s TailLimitExceeded (lit ''Recovery journal has more than '' @
                decimal (rl_max_entries limits) @ lit '' entries; ignored the excess tail.'')
         else case scan_record sha parse limits oversized bs offset previous of
           Inl (status, warning) \<Rightarrow> set_bad_tail s status warning
         | Inr (ck, e) \<Rightarrow> scan_loop sha parse limits oversized bs e (ck_sequence ck)
             (s\<lparr>rs_valid_entries := rs_valid_entries s + 1, rs_valid_bytes := of_nat e, rs_latest := Some ck\<rparr>))
      else s)"
  by pat_completeness auto
termination
  by (relation "measure (\<lambda>(sha, parse, limits, oversized, bs, offset, previous, s). length bs - offset)")
    (auto dest!: scan_record_advances)

declare scan_loop.simps [simp del]

definition scan_bytes ::
  "(bytes \<Rightarrow> bytes) \<Rightarrow> (bytes \<Rightarrow> rstr + 'p) \<Rightarrow> bytes \<Rightarrow> recovery_limits \<Rightarrow> bool \<Rightarrow> 'p recovery_scan" where
  "scan_bytes sha parse bs limits oversized =
     (let s = scan_loop sha parse limits oversized bs 0 0 scan_default in
      if oversized \<and> \<not> scan_has_bad_tail s
      then set_bad_tail s TailLimitExceeded (lit ''Recovery journal exceeds '' @
             decimal (unat (rl_max_file_bytes limits)) @ lit '' bytes; ignored the excess tail.'')
      else s)"

type_synonym journal_file = "bytes option"

text \<open>Reading a journal file; a fault (the failing call and its error) is given by the environment.\<close>

definition scan_path ::
  "(bytes \<Rightarrow> bytes) \<Rightarrow> (bytes \<Rightarrow> rstr + 'p) \<Rightarrow> (rstr \<times> rstr) option \<Rightarrow> journal_file \<Rightarrow> recovery_limits \<Rightarrow>
   journal_error + 'p recovery_scan" where
  "scan_path sha parse fault file limits =
     (case file of
        None \<Rightarrow> Inr scan_default
      | Some content \<Rightarrow>
          (case fault of
             Some (operation, err) \<Rightarrow> Inl (JeIo operation err)
           | None \<Rightarrow>
               (let oversized = unat (rl_max_file_bytes limits) < length content;
                    read_limit = unat (sat_add (rl_max_file_bytes limits) 1)
                in Inr (scan_bytes sha parse (take read_limit content) limits oversized))))"

section \<open>Writing files\<close>

datatype append_outcome = AppendDone | AppendOpenFailed rstr | AppendTorn nat rstr | AppendSyncFailed rstr

text \<open>\<open>AppendTorn n\<close> is a \<open>write_all\<close> that failed (or a process that died) after \<open>n\<close> bytes.\<close>

definition append_record :: "append_outcome \<Rightarrow> journal_file \<Rightarrow> bytes \<Rightarrow> journal_file \<times> (journal_error + unit)" where
  "append_record outcome file new_bytes =
     (case file of
        None \<Rightarrow> (None, Inl (JeIo (lit ''open recovery journal for append'') (lit ''not found'')))
      | Some content \<Rightarrow>
          (case outcome of
             AppendDone \<Rightarrow> (Some (content @ new_bytes), Inr ())
           | AppendOpenFailed e \<Rightarrow> (Some content, Inl (JeIo (lit ''open recovery journal for append'') e))
           | AppendTorn n e \<Rightarrow>
               (Some (content @ take n new_bytes), Inl (JeIo (lit ''append recovery checkpoint'') e))
           | AppendSyncFailed e \<Rightarrow>
               (Some (content @ new_bytes), Inl (JeIo (lit ''sync recovery checkpoint'') e))))"

datatype replace_outcome = ReplaceDone | ReplaceFailed rstr rstr

definition write_atomic_replacement ::
  "replace_outcome \<Rightarrow> journal_file \<Rightarrow> bytes \<Rightarrow> journal_file \<times> (journal_error + unit)" where
  "write_atomic_replacement outcome file new_bytes =
     (case outcome of
        ReplaceDone \<Rightarrow> (Some new_bytes, Inr ())
      | ReplaceFailed operation e \<Rightarrow> (file, Inl (JeIo operation e)))"

record io_outcome =
  io_append :: append_outcome
  io_replace :: replace_outcome
  io_sync_parent :: "rstr option"
  io_read_fault :: "(rstr \<times> rstr) option"

definition sync_parent :: "io_outcome \<Rightarrow> journal_error + unit" where
  "sync_parent io = (case io_sync_parent io of
     None \<Rightarrow> Inr () | Some e \<Rightarrow> Inl (JeIo (lit ''sync recovery directory'') e))"

definition file_len :: "journal_file \<Rightarrow> nat" where
  "file_len file = (case file of None \<Rightarrow> 0 | Some content \<Rightarrow> length content)"

section \<open>The journal\<close>

record 'p recovery_journal =
  rj_limits :: recovery_limits
  rj_scan :: "'p recovery_scan"
  rj_next_sequence :: u64

record journal_receipt =
  jr_sequence :: u64
  jr_payload_bytes :: nat
  jr_journal_bytes :: u64
  jr_compacted :: bool

definition next_after :: "u64 \<Rightarrow> u64" where
  "next_after sequence = (case checked_add sequence 1 of None \<Rightarrow> 0 | Some n \<Rightarrow> n)"

definition next_sequence_of :: "'p recovery_scan \<Rightarrow> u64" where
  "next_sequence_of s = (case rs_latest s of None \<Rightarrow> 1 | Some ck \<Rightarrow> next_after (ck_sequence ck))"

definition open_with_limits ::
  "(bytes \<Rightarrow> bytes) \<Rightarrow> (bytes \<Rightarrow> rstr + 'p) \<Rightarrow> (rstr \<times> rstr) option \<Rightarrow> journal_file \<Rightarrow> recovery_limits \<Rightarrow>
   journal_error + 'p recovery_journal" where
  "open_with_limits sha parse fault file limits0 =
     rbind (limits_bounded limits0) (\<lambda>limits.
     rbind (scan_path sha parse fault file limits) (\<lambda>s.
       Inr \<lparr>rj_limits = limits, rj_scan = s, rj_next_sequence = next_sequence_of s\<rparr>))"

definition journal_rescan ::
  "(bytes \<Rightarrow> bytes) \<Rightarrow> (bytes \<Rightarrow> rstr + 'p) \<Rightarrow> (rstr \<times> rstr) option \<Rightarrow> journal_file \<Rightarrow> 'p recovery_journal \<Rightarrow>
   'p recovery_journal \<times> (journal_error + 'p recovery_scan)" where
  "journal_rescan sha parse fault file j =
     (case scan_path sha parse fault file (rj_limits j) of
        Inl e \<Rightarrow> (j, Inl e)
      | Inr s \<Rightarrow> (j\<lparr>rj_scan := s, rj_next_sequence := next_sequence_of s\<rparr>, Inr s))"

definition validate_payload :: "recovery_limits \<Rightarrow> bytes \<Rightarrow> journal_error + unit" where
  "validate_payload limits payload =
     (if rl_max_payload_bytes limits < length payload
      then Inl (JePayloadTooLarge (length payload) (rl_max_payload_bytes limits))
      else if unat (rl_max_file_bytes limits) < RECORD_HEADER_BYTES + length payload
      then Inl (JeRecordTooLarge (of_nat (RECORD_HEADER_BYTES + length payload)) (rl_max_file_bytes limits))
      else Inr ())"

text \<open>Everything of an append before a byte is published.\<close>

definition prepare_record ::
  "(bytes \<Rightarrow> bytes) \<Rightarrow> ('p \<Rightarrow> rstr + bytes) \<Rightarrow> (bytes \<Rightarrow> rstr + 'p) \<Rightarrow> 'p recovery_journal \<Rightarrow> 'p \<Rightarrow>
   journal_error + (bytes \<times> bytes)" where
  "prepare_record sha print parse j patch =
     (if rj_next_sequence j = 0 then Inl JeSequenceExhausted
      else case print patch of
        Inl e \<Rightarrow> Inl (JeSerialize e)
      | Inr payload \<Rightarrow>
          rbind (validate_payload (rj_limits j) payload) (\<lambda>_.
          case parse payload of
            Inl e \<Rightarrow> Inl (JeSerialize e)
          | Inr p \<Rightarrow> rbind (encode_record sha (rj_next_sequence j) payload) (\<lambda>r. Inr (payload, r))))"

definition must_compact :: "'p recovery_journal \<Rightarrow> journal_file \<Rightarrow> bytes \<Rightarrow> bool" where
  "must_compact j file r \<longleftrightarrow>
     file = None \<or> scan_has_bad_tail (rj_scan j) \<or> rl_max_entries (rj_limits j) \<le> rs_valid_entries (rj_scan j) \<or>
     unat (rl_max_file_bytes (rj_limits j)) < file_len file + length r"

definition append_patch ::
  "(bytes \<Rightarrow> bytes) \<Rightarrow> ('p \<Rightarrow> rstr + bytes) \<Rightarrow> (bytes \<Rightarrow> rstr + 'p) \<Rightarrow> io_outcome \<Rightarrow>
   'p recovery_journal \<times> journal_file \<Rightarrow> 'p \<Rightarrow>
   ('p recovery_journal \<times> journal_file) \<times> (journal_error + journal_receipt)" where
  "append_patch sha print parse io jf patch =
     (case jf of (j, file) \<Rightarrow>
      case prepare_record sha print parse j patch of
        Inl e \<Rightarrow> ((j, file), Inl e)
      | Inr (payload, r) \<Rightarrow>
          (let compact = must_compact j file r in
           case (if compact then write_atomic_replacement (io_replace io) file r
                 else append_record (io_append io) file r) of
             (file', Inl e) \<Rightarrow> ((j, file'), Inl e)
           | (file', Inr _) \<Rightarrow>
               (case sync_parent io of
                  Inl e \<Rightarrow> ((j, file'), Inl e)
                | Inr _ \<Rightarrow>
                    (case scan_path sha parse (io_read_fault io) file' (rj_limits j) of
                       Inl e \<Rightarrow> ((j, file'), Inl e)
                     | Inr s \<Rightarrow>
                         (let j1 = j\<lparr>rj_scan := s\<rparr>;
                              accepted = ((case rs_latest s of None \<Rightarrow> False | Some ck \<Rightarrow> ck_sequence ck = rj_next_sequence j)
                                \<and> \<not> scan_has_bad_tail s) in
                          if \<not> accepted
                          then ((j1, file'), Inl (JeIo (lit ''verify committed recovery checkpoint'')
                                 (lit ''checkpoint was not readable'')))
                          else ((j1\<lparr>rj_next_sequence := next_after (rj_next_sequence j)\<rparr>, file'),
                                Inr \<lparr>jr_sequence = rj_next_sequence j, jr_payload_bytes = length payload,
                                     jr_journal_bytes = of_nat (file_len file'), jr_compacted = compact\<rparr>))))))"

definition compact_to_latest ::
  "(bytes \<Rightarrow> bytes) \<Rightarrow> (bytes \<Rightarrow> rstr + 'p) \<Rightarrow> io_outcome \<Rightarrow> 'p recovery_journal \<times> journal_file \<Rightarrow>
   ('p recovery_journal \<times> journal_file) \<times> (journal_error + unit)" where
  "compact_to_latest sha parse io jf =
     (case jf of (j, file) \<Rightarrow>
      case (case rs_latest (rj_scan j) of
              None \<Rightarrow> Inr []
            | Some ck \<Rightarrow> encode_record sha (ck_sequence ck) (ck_payload ck)) of
        Inl e \<Rightarrow> ((j, file), Inl e)
      | Inr new_bytes \<Rightarrow>
          (case write_atomic_replacement (io_replace io) file new_bytes of
             (file', Inl e) \<Rightarrow> ((j, file'), Inl e)
           | (file', Inr _) \<Rightarrow>
               (case sync_parent io of
                  Inl e \<Rightarrow> ((j, file'), Inl e)
                | Inr _ \<Rightarrow>
                    (case journal_rescan sha parse (io_read_fault io) file' j of
                       (j', Inl e) \<Rightarrow> ((j', file'), Inl e)
                     | (j', Inr s) \<Rightarrow> ((j', file'), Inr ())))))"

definition journal_discard ::
  "io_outcome \<Rightarrow> 'p recovery_journal \<times> journal_file \<Rightarrow> ('p recovery_journal \<times> journal_file) \<times> (journal_error + unit)"
  where
  "journal_discard io jf =
     (case jf of (j, file) \<Rightarrow>
      case write_atomic_replacement (io_replace io) file [] of
        (file', Inl e) \<Rightarrow> ((j, file'), Inl e)
      | (file', Inr _) \<Rightarrow>
          (case sync_parent io of
             Inl e \<Rightarrow> ((j, file'), Inl e)
           | Inr _ \<Rightarrow> ((j\<lparr>rj_scan := scan_default, rj_next_sequence := 1\<rparr>, file'), Inr ())))"

definition recover_after_failure ::
  "(bytes \<Rightarrow> bytes) \<Rightarrow> (bytes \<Rightarrow> rstr + 'p) \<Rightarrow> (rstr \<times> rstr) option \<Rightarrow> 'p recovery_journal \<times> journal_file \<Rightarrow>
   ('p recovery_journal \<times> journal_file) \<times> (journal_error + unit)" where
  "recover_after_failure sha parse fault jf =
     (case jf of (j, file) \<Rightarrow>
      case open_with_limits sha parse fault file (rj_limits j) of
        Inl e \<Rightarrow> ((j, file), Inl e)
      | Inr j' \<Rightarrow> ((j', file), Inr ()))"

end
