(* ===== verification/Recovery_Writer.thy ===== *)
theory Recovery_Writer
  imports Recovery_Journal
begin

text \<open>
  The dedicated journal writer of \<open>src/src/recovery_journal.rs\<close>: a producer that replaces the one pending
  request, and a worker that owns the journal.  Every critical section of the mutex is one
  operation; \<open>writer_step\<close> interleaves them, where the worker's control point says which of its sections
  comes next.  The \<open>RecoveryWriterBackend\<close> trait is the record \<open>backend_ops\<close>, whose operations take what
  the environment does to them.  Threads, clocks and the text of the status line are not modelled.
\<close>

section \<open>Texts\<close>

definition RECOVERY_WRITER_STATUS_MAX_BYTES :: nat where "RECOVERY_WRITER_STATUS_MAX_BYTES = 512"

text \<open>The longest prefix of whole characters that fits into \<open>n\<close> bytes.\<close>

fun truncate_chars :: "nat \<Rightarrow> rstr \<Rightarrow> rstr" where
  "truncate_chars n [] = []"
| "truncate_chars n (c # cs) =
     (let k = length (utf8_char c) in if k \<le> n then c # truncate_chars (n - k) cs else [])"

definition bounded_status :: "rstr \<Rightarrow> rstr" where
  "bounded_status status =
     (if str_len status \<le> RECOVERY_WRITER_STATUS_MAX_BYTES then status
      else truncate_chars (RECOVERY_WRITER_STATUS_MAX_BYTES - 3) status @ lit ''...'')"

fun journal_error_text :: "journal_error \<Rightarrow> rstr" where
  "journal_error_text JeInvalidLimits = lit ''recovery journal limits exceed the hard bounds''"
| "journal_error_text JeSequenceExhausted = lit ''recovery journal sequence is exhausted''"
| "journal_error_text (JePayloadTooLarge n limit) =
     lit ''recovery checkpoint is '' @ decimal n @ lit '' bytes; limit is '' @ decimal limit"
| "journal_error_text (JeRecordTooLarge n limit) =
     lit ''recovery journal record is '' @ decimal (unat n) @ lit '' bytes; file limit is '' @ decimal (unat limit)"
| "journal_error_text (JeSerialize e) = lit ''serialize recovery checkpoint: '' @ e"
| "journal_error_text (JeIo operation e) = operation @ lit '': '' @ e"
| "journal_error_text (JeDestinationRace path) =
     lit ''recovery journal destination appeared during atomic publication: '' @ path"

section \<open>State\<close>

datatype 'p writer_operation = WoCheckpoint 'p | WoDiscard

record 'p writer_request =
  wq_id :: u64
  wq_operation :: "'p writer_operation"

record 'p writer_shared =
  ws_pending :: "'p writer_request option"
  ws_in_flight :: "u64 option"
  ws_durable_scan :: "'p recovery_scan"
  ws_accepting :: bool
  ws_shutdown_requested :: bool
  ws_initialized :: bool
  ws_worker_stopped :: bool
  ws_revision :: u64
  ws_last_durable :: "u64 option"
  ws_last_failed :: "u64 option"
  ws_last_receipt :: "journal_receipt option"
  ws_submitted :: u64
  ws_superseded :: u64
  ws_failed :: u64
  ws_max_observed_jobs :: nat
  ws_error :: "rstr option"

definition writer_shared_default :: "'p writer_shared" where
  "writer_shared_default = \<lparr>ws_pending = None, ws_in_flight = None, ws_durable_scan = scan_default,
     ws_accepting = True, ws_shutdown_requested = False, ws_initialized = False, ws_worker_stopped = False,
     ws_revision = 1, ws_last_durable = None, ws_last_failed = None, ws_last_receipt = None, ws_submitted = 0,
     ws_superseded = 0, ws_failed = 0, ws_max_observed_jobs = 0, ws_error = None\<rparr>"

definition bump_revision :: "'p writer_shared \<Rightarrow> 'p writer_shared" where
  "bump_revision s = s\<lparr>ws_revision := max (ws_revision s + 1) 1\<rparr>"

record ('p, 'b, 'e) backend_ops =
  bo_latest :: "'b \<Rightarrow> 'p recovery_scan"
  bo_append :: "'e \<Rightarrow> 'b \<Rightarrow> 'p \<Rightarrow> 'b \<times> (journal_error + journal_receipt)"
  bo_discard :: "'e \<Rightarrow> 'b \<Rightarrow> 'b \<times> (journal_error + unit)"
  bo_recover :: "'e \<Rightarrow> 'b \<Rightarrow> 'b \<times> (journal_error + unit)"

definition journal_backend ::
  "(bytes \<Rightarrow> bytes) \<Rightarrow> ('p \<Rightarrow> rstr + bytes) \<Rightarrow> (bytes \<Rightarrow> rstr + 'p) \<Rightarrow>
   ('p, 'p recovery_journal \<times> journal_file, io_outcome) backend_ops" where
  "journal_backend sha print parse =
     \<lparr>bo_latest = (\<lambda>jf. rj_scan (fst jf)),
      bo_append = append_patch sha print parse,
      bo_discard = journal_discard,
      bo_recover = (\<lambda>io. recover_after_failure sha parse (io_read_fault io))\<rparr>"

section \<open>The producer\<close>

datatype request_error = RqIdExhausted | RqShuttingDown | RqUnavailable

record enqueue_receipt =
  er_request_id :: u64
  er_superseded :: "u64 option"
  er_durable_sequence :: "u64 option"

text \<open>Taking the next identity (which is consumed also when the request is then refused).\<close>

definition take_request_id :: "u64 \<Rightarrow> (u64 \<times> u64) option" where
  "take_request_id current =
     (case checked_add current 1 of
        None \<Rightarrow> None
      | Some n \<Rightarrow> if n \<noteq> 0 then Some (n, current) else None)"

definition writer_request ::
  "'p writer_operation \<Rightarrow> u64 \<times> 'p writer_shared \<Rightarrow> (u64 \<times> 'p writer_shared) \<times> (request_error + enqueue_receipt)"
  where
  "writer_request operation ns =
     (case ns of (next_id, s) \<Rightarrow>
      case take_request_id next_id of
        None \<Rightarrow> ((next_id, s), Inl RqIdExhausted)
      | Some (next_id', rid) \<Rightarrow>
          if \<not> ws_accepting s
          then ((next_id', s), Inl (if ws_shutdown_requested s then RqShuttingDown else RqUnavailable))
          else
            (let superseded = map_option wq_id (ws_pending s);
                 s1 = (if superseded \<noteq> None then s\<lparr>ws_superseded := sat_add (ws_superseded s) 1\<rparr> else s);
                 jobs = of_bool (ws_in_flight s \<noteq> None) + 1;
                 s2 = s1\<lparr>ws_pending := Some \<lparr>wq_id = rid, wq_operation = operation\<rparr>,
                         ws_submitted := sat_add (ws_submitted s1) 1,
                         ws_max_observed_jobs := max (ws_max_observed_jobs s1) jobs\<rparr>
             in ((next_id', bump_revision s2),
                 Inr \<lparr>er_request_id = rid, er_superseded = superseded,
                      er_durable_sequence = map_option ck_sequence (rs_latest (ws_durable_scan s2))\<rparr>)))"

text \<open>The opening section of \<open>flush_with_deadline\<close> and of \<open>drop\<close>.\<close>

definition request_shutdown :: "'p writer_shared \<Rightarrow> 'p writer_shared" where
  "request_shutdown s = bump_revision (s\<lparr>ws_accepting := False, ws_shutdown_requested := True\<rparr>)"

record flush_receipt =
  fr_completed :: bool
  fr_durable_sequence :: "u64 option"
  fr_in_flight :: "u64 option"
  fr_pending :: "u64 option"

definition flush_receipt_of :: "'p writer_shared \<Rightarrow> flush_receipt" where
  "flush_receipt_of s =
     \<lparr>fr_completed = ws_worker_stopped s,
      fr_durable_sequence = map_option ck_sequence (rs_latest (ws_durable_scan s)),
      fr_in_flight = ws_in_flight s, fr_pending = map_option wq_id (ws_pending s)\<rparr>"

section \<open>Status\<close>

datatype writer_lifecycle =
  WlStarting | WlIdle | WlPending | WlWriting | WlFlushing | WlFailed | WlUnavailable | WlStopped

definition writer_lifecycle_of :: "'p writer_shared \<Rightarrow> writer_lifecycle" where
  "writer_lifecycle_of s =
     (if ws_worker_stopped s then
        (if ws_error s \<noteq> None then WlUnavailable else if ws_initialized s then WlStopped else WlUnavailable)
      else if \<not> ws_initialized s then WlStarting
      else if ws_in_flight s \<noteq> None then (if ws_shutdown_requested s then WlFlushing else WlWriting)
      else if ws_pending s \<noteq> None then (if ws_shutdown_requested s then WlFlushing else WlPending)
      else if ws_last_failed s \<noteq> None \<and> ws_error s \<noteq> None then WlFailed
      else if ws_shutdown_requested s then WlFlushing
      else WlIdle)"

record writer_status =
  st_revision :: u64
  st_lifecycle :: writer_lifecycle
  st_in_flight :: "u64 option"
  st_pending :: "u64 option"
  st_last_durable :: "u64 option"
  st_durable_sequence :: "u64 option"
  st_last_failed :: "u64 option"
  st_submitted :: u64
  st_superseded :: u64
  st_failed :: u64
  st_queue_depth :: nat
  st_max_observed_jobs :: nat
  st_error :: "rstr option"
  st_last_receipt :: "journal_receipt option"

definition snapshot_status :: "'p writer_shared \<Rightarrow> writer_status" where
  "snapshot_status s =
     \<lparr>st_revision = ws_revision s, st_lifecycle = writer_lifecycle_of s, st_in_flight = ws_in_flight s,
      st_pending = map_option wq_id (ws_pending s), st_last_durable = ws_last_durable s,
      st_durable_sequence = map_option ck_sequence (rs_latest (ws_durable_scan s)),
      st_last_failed = ws_last_failed s, st_submitted = ws_submitted s, st_superseded = ws_superseded s,
      st_failed = ws_failed s,
      st_queue_depth = of_bool (ws_in_flight s \<noteq> None) + of_bool (ws_pending s \<noteq> None),
      st_max_observed_jobs = ws_max_observed_jobs s, st_error = ws_error s, st_last_receipt = ws_last_receipt s\<rparr>"

section \<open>The worker\<close>

definition worker_unavailable :: "journal_error \<Rightarrow> 'p writer_shared \<Rightarrow> 'p writer_shared" where
  "worker_unavailable e s =
     (let s1 = s\<lparr>ws_accepting := False, ws_worker_stopped := True,
                 ws_error := Some (bounded_status (journal_error_text e))\<rparr>
      in bump_revision (case ws_pending s1 of
           None \<Rightarrow> s1
         | Some q \<Rightarrow> s1\<lparr>ws_pending := None, ws_last_failed := Some (wq_id q), ws_failed := sat_add (ws_failed s1) 1\<rparr>))"

definition worker_ready :: "'p recovery_scan \<Rightarrow> 'p writer_shared \<Rightarrow> 'p writer_shared" where
  "worker_ready scan s = bump_revision
     (s\<lparr>ws_durable_scan := scan, ws_error := map_option bounded_status (rs_warning scan), ws_initialized := True\<rparr>)"

definition worker_stop :: "'p writer_shared \<Rightarrow> 'p writer_shared" where
  "worker_stop s = bump_revision (s\<lparr>ws_accepting := False, ws_worker_stopped := True\<rparr>)"

definition worker_take :: "'p writer_request \<Rightarrow> 'p writer_shared \<Rightarrow> 'p writer_shared" where
  "worker_take q s = bump_revision (s\<lparr>ws_pending := None, ws_in_flight := Some (wq_id q)\<rparr>)"

definition worker_checkpointed ::
  "u64 \<Rightarrow> 'p recovery_scan \<Rightarrow> journal_receipt \<Rightarrow> 'p writer_shared \<Rightarrow> 'p writer_shared" where
  "worker_checkpointed rid scan receipt s = bump_revision
     (s\<lparr>ws_in_flight := None, ws_durable_scan := scan, ws_last_durable := Some rid, ws_last_receipt := Some receipt,
        ws_last_failed := None, ws_error := None\<rparr>)"

definition worker_discarded :: "'p recovery_scan \<Rightarrow> 'p writer_shared \<Rightarrow> 'p writer_shared" where
  "worker_discarded scan s = bump_revision
     (s\<lparr>ws_in_flight := None, ws_durable_scan := scan, ws_last_durable := None, ws_last_receipt := None,
        ws_last_failed := None, ws_error := None\<rparr>)"

text \<open>A failure is published first; the journal is reopened without the lock, and the outcome of that is
  published in a second section.\<close>

definition worker_failed :: "u64 \<Rightarrow> journal_error \<Rightarrow> 'p writer_shared \<Rightarrow> 'p writer_shared" where
  "worker_failed rid e s =
     s\<lparr>ws_in_flight := None, ws_last_failed := Some rid, ws_failed := sat_add (ws_failed s) 1,
       ws_error := Some (bounded_status (journal_error_text e))\<rparr>"

definition worker_reopened :: "journal_error option \<Rightarrow> 'p writer_shared \<Rightarrow> 'p writer_shared" where
  "worker_reopened e s = bump_revision
     (case e of
        None \<Rightarrow> s
      | Some err \<Rightarrow> s\<lparr>ws_error := Some (bounded_status
          ((case ws_error s of None \<Rightarrow> lit ''append failed'' | Some t \<Rightarrow> t) @
           lit ''; worker rescan failed: '' @ journal_error_text err))\<rparr>)"

definition worker_panicked :: "'p writer_shared \<Rightarrow> 'p writer_shared" where
  "worker_panicked s =
     (let in_flight = ws_in_flight s; pending = map_option wq_id (ws_pending s);
          s1 = s\<lparr>ws_accepting := False, ws_shutdown_requested := True, ws_worker_stopped := True,
                 ws_in_flight := None, ws_pending := None\<rparr>;
          s2 = (case (case pending of Some p \<Rightarrow> Some p | None \<Rightarrow> in_flight) of
                  None \<Rightarrow> s1
                | Some rid \<Rightarrow> s1\<lparr>ws_last_failed := Some rid,
                    ws_failed := sat_add (ws_failed s1) (of_bool (in_flight \<noteq> None) + of_bool (pending \<noteq> None))\<rparr>)
      in bump_revision (s2\<lparr>ws_error := Some (lit ''recovery worker stopped after an internal panic'')\<rparr>))"

section \<open>Interleaving\<close>

datatype 'p worker_point = WkStarting | WkWaiting | WkRunning "'p writer_request" | WkReopening | WkEnded

record ('p, 'b) writer =
  wr_next_id :: u64
  wr_shared :: "'p writer_shared"
  wr_backend :: "'b option"
  wr_point :: "'p worker_point"

definition writer_start :: "('p, 'b) writer" where
  "writer_start = \<lparr>wr_next_id = 1, wr_shared = writer_shared_default, wr_backend = None, wr_point = WkStarting\<rparr>"

text \<open>\<open>WeWorker\<close> is the worker's next section; it carries what opening the journal gave and what the
  environment does to the backend call, as far as the section makes one.\<close>

datatype ('p, 'b, 'e) writer_event =
    WeRequest "'p writer_operation"
  | WeShutdown
  | WeWorker "journal_error + 'b" 'e
  | WePanic

definition run_request ::
  "('p, 'b, 'e) backend_ops \<Rightarrow> 'e \<Rightarrow> 'p writer_request \<Rightarrow> 'b \<Rightarrow> ('p, 'b) writer \<Rightarrow> ('p, 'b) writer" where
  "run_request ops e q b w =
     (case wq_operation q of
        WoCheckpoint patch \<Rightarrow>
          (case bo_append ops e b patch of
             (b', Inr receipt) \<Rightarrow>
               w\<lparr>wr_shared := worker_checkpointed (wq_id q) (bo_latest ops b') receipt (wr_shared w),
                 wr_backend := Some b', wr_point := WkWaiting\<rparr>
           | (b', Inl err) \<Rightarrow>
               w\<lparr>wr_shared := worker_failed (wq_id q) err (wr_shared w), wr_backend := Some b', wr_point := WkReopening\<rparr>)
      | WoDiscard \<Rightarrow>
          (case bo_discard ops e b of
             (b', Inr _) \<Rightarrow>
               w\<lparr>wr_shared := worker_discarded (bo_latest ops b') (wr_shared w), wr_backend := Some b',
                 wr_point := WkWaiting\<rparr>
           | (b', Inl err) \<Rightarrow>
               w\<lparr>wr_shared := worker_failed (wq_id q) err (wr_shared w), wr_backend := Some b', wr_point := WkReopening\<rparr>))"

fun writer_step :: "('p, 'b, 'e) backend_ops \<Rightarrow> ('p, 'b) writer \<Rightarrow> ('p, 'b, 'e) writer_event \<Rightarrow> ('p, 'b) writer" where
  "writer_step ops w (WeRequest operation) =
     (case writer_request operation (wr_next_id w, wr_shared w) of
        ((next_id, s), r) \<Rightarrow> w\<lparr>wr_next_id := next_id, wr_shared := s\<rparr>)"
| "writer_step ops w WeShutdown = w\<lparr>wr_shared := request_shutdown (wr_shared w)\<rparr>"
| "writer_step ops w (WeWorker opened e) =
     (case wr_point w of
        WkStarting \<Rightarrow>
          (case opened of
             Inl err \<Rightarrow> w\<lparr>wr_shared := worker_unavailable err (wr_shared w), wr_point := WkEnded\<rparr>
           | Inr b \<Rightarrow> w\<lparr>wr_shared := worker_ready (bo_latest ops b) (wr_shared w), wr_backend := Some b,
                        wr_point := WkWaiting\<rparr>)
      | WkWaiting \<Rightarrow>
          (case ws_pending (wr_shared w) of
             Some q \<Rightarrow> w\<lparr>wr_shared := worker_take q (wr_shared w), wr_point := WkRunning q\<rparr>
           | None \<Rightarrow>
               if ws_shutdown_requested (wr_shared w)
               then w\<lparr>wr_shared := worker_stop (wr_shared w), wr_point := WkEnded\<rparr> else w)
      | WkRunning q \<Rightarrow>
          (case wr_backend w of None \<Rightarrow> w | Some b \<Rightarrow> run_request ops e q b w)
      | WkReopening \<Rightarrow>
          (case wr_backend w of
             None \<Rightarrow> w
           | Some b \<Rightarrow>
               (case bo_recover ops e b of (b', r) \<Rightarrow>
                  w\<lparr>wr_shared := worker_reopened (case r of Inl err \<Rightarrow> Some err | Inr _ \<Rightarrow> None) (wr_shared w),
                    wr_backend := Some b', wr_point := WkWaiting\<rparr>))
      | WkEnded \<Rightarrow> w)"
| "writer_step ops w WePanic =
     (if wr_point w = WkEnded then w
      else w\<lparr>wr_shared := worker_panicked (wr_shared w), wr_point := WkEnded\<rparr>)"

end
