(* ===== verification/Recovery_Journal_Laws.thy ===== *)
theory Recovery_Journal_Laws
  imports Recovery_Journal
begin

text \<open>
  What the recovery journal promises: a torn or corrupt tail never costs a preceding checkpoint; an
  append interrupted at any point leaves either the old or the new checkpoint to recover, and the
  new one whenever it was acknowledged; on a healthy file system an append succeeds.
\<close>

section \<open>Records\<close>

definition digest32 :: "(bytes \<Rightarrow> bytes) \<Rightarrow> bool" where
  "digest32 sha \<longleftrightarrow> (\<forall>x. length (sha x) = 32)"

definition record_bytes :: "(bytes \<Rightarrow> bytes) \<Rightarrow> u64 \<Rightarrow> bytes \<Rightarrow> bytes" where
  "record_bytes sha sequence payload =
     RECORD_MAGIC @ u16_le RECOVERY_JOURNAL_VERSION @ u16_le RECORD_FLAGS @ u64_le sequence @
     u32_le (of_nat (length payload)) @ u32_le RECORD_RESERVED @
     record_checksum sha RECOVERY_JOURNAL_VERSION RECORD_FLAGS sequence (of_nat (length payload)) RECORD_RESERVED payload @
     payload"

lemma encode_record_bytes:
  "encode_record sha sequence payload = Inr r \<longleftrightarrow>
     sequence \<noteq> 0 \<and> length payload < 2 ^ 32 \<and> r = record_bytes sha sequence payload"
  by (auto simp: encode_record_def record_bytes_def Let_def not_le)

lemma length_magic [simp]: "length RECORD_MAGIC = 8"
  by (simp add: RECORD_MAGIC_def lit_def utf8_char_ascii)

lemma length_record_bytes: "digest32 sha \<Longrightarrow> length (record_bytes sha sequence payload) = 60 + length payload"
  by (simp add: record_bytes_def record_checksum_def digest32_def)

text \<open>A record a scan with these limits can accept after \<open>previous\<close>.\<close>

definition readable :: "(bytes \<Rightarrow> rstr + 'p) \<Rightarrow> recovery_limits \<Rightarrow> u64 \<Rightarrow> u64 \<Rightarrow> bytes \<Rightarrow> 'p \<Rightarrow> bool" where
  "readable parse limits previous sequence payload patch \<longleftrightarrow>
     previous < sequence \<and> length payload < 2 ^ 32 \<and> length payload \<le> rl_max_payload_bytes limits \<and>
     parse payload = Inr patch"

lemma header_fields:
  assumes d: "digest32 sha" and l: "length payload < 2 ^ 32"
    and h_def: "h = take 60 (record_bytes sha sequence payload @ rest)"
  shows "take 8 h = RECORD_MAGIC" "u16_of_le (byte_range h 8 10) = RECOVERY_JOURNAL_VERSION"
    "u16_of_le (byte_range h 10 12) = RECORD_FLAGS" "u64_of_le (byte_range h 12 20) = sequence"
    "u32_of_le (byte_range h 20 24) = of_nat (length payload)" "u32_of_le (byte_range h 24 28) = RECORD_RESERVED"
    "byte_range h 28 60 = record_checksum sha RECOVERY_JOURNAL_VERSION RECORD_FLAGS sequence
       (of_nat (length payload)) RECORD_RESERVED payload"
  using d by (simp_all add: h_def record_bytes_def byte_range_def record_checksum_def digest32_def)

lemma byte_range_drop: "byte_range bs (n + a) (n + b) = byte_range (drop n bs) a b"
  by (simp add: byte_range_def add.commute)

lemma scan_record_hit:
  assumes d: "digest32 sha" and r: "readable parse limits previous sequence payload patch"
  shows "scan_record sha parse limits oversized (pre @ record_bytes sha sequence payload @ rest) (length pre) previous =
    Inr (\<lparr>ck_sequence = sequence, ck_patch = patch, ck_payload = payload\<rparr>, length pre + 60 + length payload)"
proof -
  let ?bs = "pre @ record_bytes sha sequence payload @ rest"
  have l: "length payload < 2 ^ 32" using r by (simp add: readable_def)
  have h: "byte_range ?bs (length pre) (length pre + 60) = take 60 (record_bytes sha sequence payload @ rest)"
    by (simp add: byte_range_def)
  have p: "byte_range ?bs (length pre + 60) (length pre + 60 + length payload) = payload"
    using d by (simp add: byte_range_def record_bytes_def record_checksum_def digest32_def)
  have u: "unat (of_nat (length payload) :: u32) = length payload"
    using l by (intro unat_of_nat_small) simp
  have "sequence \<noteq> 0" using r by (auto simp: readable_def)
  then show ?thesis
    using r header_fields [OF d l refl, of sequence rest] length_record_bytes [OF d, of sequence payload]
    by (simp add: scan_record_def RECORD_HEADER_BYTES_def h p u Let_def readable_def not_le)
qed

lemma scan_record_torn:
  assumes d: "digest32 sha" and r: "readable parse limits previous sequence payload patch"
    and n: "n < 60 + length payload"
  shows "scan_record sha parse limits oversized (pre @ take n (record_bytes sha sequence payload)) (length pre) previous =
    Inl (if oversized then TailLimitExceeded else TailTruncated, TRUNCATED_WARNING)"
proof (cases "n < 60")
  case True
  then show ?thesis
    using length_record_bytes [OF d, of sequence payload] by (simp add: scan_record_def RECORD_HEADER_BYTES_def Let_def)
next
  case False
  let ?bs = "pre @ take n (record_bytes sha sequence payload)"
  have l: "length payload < 2 ^ 32" using r by (simp add: readable_def)
  have h: "byte_range ?bs (length pre) (length pre + 60) = take 60 (record_bytes sha sequence payload @ [])"
    using False by (simp add: byte_range_def min_def)
  have u: "unat (of_nat (length payload) :: u32) = length payload"
    using l by (intro unat_of_nat_small) simp
  have len: "length ?bs = length pre + n" using n length_record_bytes [OF d, of sequence payload] by simp
  have "sequence \<noteq> 0" using r by (auto simp: readable_def)
  then show ?thesis
    using r header_fields [OF d l refl, of sequence "[]"] n False
    unfolding scan_record_def len RECORD_HEADER_BYTES_def
    by (simp add: h u Let_def readable_def not_le)
qed

lemma scan_record_bad: "scan_record sha parse limits oversized bs offset previous = Inl (status, w) \<Longrightarrow> status \<noteq> TailClean"
  by (auto simp: scan_record_def Let_def split: if_splits sum.splits)

lemma byte_range_append: "b \<le> length bs \<Longrightarrow> byte_range (bs @ t) a b = byte_range bs a b"
  by (cases "a \<le> b") (simp_all add: byte_range_def)

lemma scan_record_append:
  assumes "scan_record sha parse limits ov bs offset previous = Inr (ck, e)"
  shows "scan_record sha parse limits ov' (bs @ t) offset previous = Inr (ck, e)"
proof -
  have b: "offset < e" "e \<le> length bs" using scan_record_advances [OF assms] by simp_all
  have l: "\<not> length bs - offset < RECORD_HEADER_BYTES"
    using assms by (auto simp: scan_record_def Let_def split: if_splits)
  then have h: "byte_range (bs @ t) offset (offset + RECORD_HEADER_BYTES) = byte_range bs offset (offset + RECORD_HEADER_BYTES)"
    using b by (intro byte_range_append) simp
  have pl: "byte_range (bs @ t) (offset + RECORD_HEADER_BYTES) k = byte_range bs (offset + RECORD_HEADER_BYTES) k"
    if "\<not> length bs < k" for k
    using that by (intro byte_range_append) simp
  show ?thesis
    using assms l unfolding scan_record_def Let_def h
    by (auto simp: pl split: if_splits sum.splits)
qed

lemma scan_record_checkpoint:
  assumes "scan_record sha parse limits ov bs offset previous = Inr (ck, e)"
  shows "previous < ck_sequence ck" "parse (ck_payload ck) = Inr (ck_patch ck)"
    "length (ck_payload ck) \<le> rl_max_payload_bytes limits" "length (ck_payload ck) < 2 ^ 32"
proof -
  have *: "previous < ck_sequence ck \<and> parse (ck_payload ck) = Inr (ck_patch ck) \<and>
      length (ck_payload ck) \<le> rl_max_payload_bytes limits \<and> length (ck_payload ck) < 2 ^ 32"
  proof -
    let ?n = "u32_of_le (byte_range (byte_range bs offset (offset + RECORD_HEADER_BYTES)) 20 24)"
    have "previous < ck_sequence ck \<and> parse (ck_payload ck) = Inr (ck_patch ck) \<and>
        unat ?n \<le> rl_max_payload_bytes limits \<and>
        ck_payload ck = byte_range bs (offset + RECORD_HEADER_BYTES) (offset + RECORD_HEADER_BYTES + unat ?n)"
      using assms by (auto simp: scan_record_def Let_def not_le split: if_splits sum.splits)
    moreover from this have "length (ck_payload ck) \<le> unat ?n" by (simp add: byte_range_def)
    moreover have "unat ?n < 2 ^ 32" using unat_lt2p [of ?n] by simp
    ultimately show ?thesis by linarith
  qed
  then show "previous < ck_sequence ck" "parse (ck_payload ck) = Inr (ck_patch ck)"
    "length (ck_payload ck) \<le> rl_max_payload_bytes limits" "length (ck_payload ck) < 2 ^ 32" by simp_all
qed

section \<open>Scans\<close>

definition scanned_sequence :: "'p recovery_scan \<Rightarrow> u64" where
  "scanned_sequence s = (case rs_latest s of None \<Rightarrow> 0 | Some ck \<Rightarrow> ck_sequence ck)"

lemma set_bad_tail_simps [simp]:
  "rs_latest (set_bad_tail s st w) = rs_latest s" "rs_tail_status (set_bad_tail s st w) = st"
  "rs_valid_entries (set_bad_tail s st w) = rs_valid_entries s" "rs_valid_bytes (set_bad_tail s st w) = rs_valid_bytes s"
  by (simp_all add: set_bad_tail_def)

lemma scan_loop_end: "length bs \<le> offset \<Longrightarrow> scan_loop sha parse limits ov bs offset previous s = s"
  by (simp add: scan_loop.simps)

lemma scan_loop_extend:
  "rs_tail_status (scan_loop sha parse limits ov bs offset previous s) = TailClean \<Longrightarrow>
   offset \<le> length bs \<Longrightarrow> previous = scanned_sequence s \<Longrightarrow>
   scan_loop sha parse limits ov' (bs @ t) offset previous s =
   scan_loop sha parse limits ov' (bs @ t) (length bs)
     (scanned_sequence (scan_loop sha parse limits ov bs offset previous s)) (scan_loop sha parse limits ov bs offset previous s)"
proof (induction sha parse limits ov bs offset previous s rule: scan_loop.induct)
  case (1 sha parse limits ov bs offset previous s)
  show ?case
  proof (cases "offset < length bs")
    case False
    then show ?thesis using "1.prems" by (simp add: scan_loop_end)
  next
    case True
    have m: "rs_valid_entries s \<noteq> rl_max_entries limits"
      using "1.prems"(1) True by (auto simp: scan_loop.simps [of sha parse limits ov bs offset previous s])
    obtain ck e where r: "scan_record sha parse limits ov bs offset previous = Inr (ck, e)"
    proof (cases "scan_record sha parse limits ov bs offset previous")
      case (Inl x)
      then obtain st w where "scan_record sha parse limits ov bs offset previous = Inl (st, w)" by (cases x) auto
      then show thesis
        using "1.prems"(1) True m scan_record_bad [of sha parse limits ov bs offset previous st w]
        by (simp add: scan_loop.simps [of sha parse limits ov bs offset previous s])
    next
      case (Inr x)
      then show thesis using that by (cases x) auto
    qed
    let ?s = "s\<lparr>rs_valid_entries := rs_valid_entries s + 1, rs_valid_bytes := of_nat e, rs_latest := Some ck\<rparr>"
    have u: "scan_loop sha parse limits ov bs offset previous s = scan_loop sha parse limits ov bs e (ck_sequence ck) ?s"
      using True m r by (simp add: scan_loop.simps [of sha parse limits ov bs offset previous s])
    have u': "scan_loop sha parse limits ov' (bs @ t) offset previous s =
        scan_loop sha parse limits ov' (bs @ t) e (ck_sequence ck) ?s"
      using True m scan_record_append [OF r]
      by (simp add: scan_loop.simps [of sha parse limits ov' "bs @ t" offset previous s])
    have "scan_loop sha parse limits ov' (bs @ t) e (ck_sequence ck) ?s =
        scan_loop sha parse limits ov' (bs @ t) (length bs)
          (scanned_sequence (scan_loop sha parse limits ov bs e (ck_sequence ck) ?s))
          (scan_loop sha parse limits ov bs e (ck_sequence ck) ?s)"
      by (rule "1.IH" [OF True m r refl])
        (use "1.prems"(1) u scan_record_advances [OF r] in \<open>simp_all add: scanned_sequence_def\<close>)
    then show ?thesis by (simp only: u u')
  qed
qed

text \<open>One more record, or a strict prefix of one, behind a file that scans clean.\<close>

lemma scan_loop_one_more:
  assumes d: "digest32 sha" and r: "readable parse limits (scanned_sequence s) sequence payload patch"
    and m: "rs_valid_entries s < rl_max_entries limits"
  shows "scan_loop sha parse limits ov (bs @ record_bytes sha sequence payload) (length bs) (scanned_sequence s) s =
    s\<lparr>rs_valid_entries := rs_valid_entries s + 1, rs_valid_bytes := of_nat (length bs + 60 + length payload),
      rs_latest := Some \<lparr>ck_sequence = sequence, ck_patch = patch, ck_payload = payload\<rparr>\<rparr>"
  using scan_record_hit [OF d r, of ov bs "[]"] m length_record_bytes [OF d, of sequence payload]
  by (simp add: scan_loop.simps [of sha parse limits ov "bs @ record_bytes sha sequence payload" "length bs"] scan_loop_end)

lemma scan_loop_torn:
  assumes d: "digest32 sha" and r: "readable parse limits (scanned_sequence s) sequence payload patch"
    and m: "rs_valid_entries s < rl_max_entries limits" and n: "0 < n" "n < 60 + length payload"
  shows "scan_loop sha parse limits ov (bs @ take n (record_bytes sha sequence payload)) (length bs) (scanned_sequence s) s =
    set_bad_tail s (if ov then TailLimitExceeded else TailTruncated) TRUNCATED_WARNING"
  using scan_record_torn [OF d r n(2), of ov bs] m n length_record_bytes [OF d, of sequence payload]
  by (simp add: scan_loop.simps [of sha parse limits ov "bs @ take n (record_bytes sha sequence payload)" "length bs"])

section \<open>Files\<close>

definition limits_ok :: "recovery_limits \<Rightarrow> bool" where
  "limits_ok l \<longleftrightarrow> limits_bounded l = Inr l"

lemma limits_okD:
  assumes "limits_ok l"
  shows "0 < rl_max_entries l" "unat (rl_max_file_bytes l) < 2 ^ 64 - 1" "rl_max_payload_bytes l < 2 ^ 32"
    "60 + rl_max_payload_bytes l \<le> unat (rl_max_file_bytes l)"
proof -
  have "rl_max_file_bytes l \<le> RECOVERY_MAX_FILE_BYTES"
    using assms by (auto simp: limits_ok_def limits_bounded_def not_less split: if_splits)
  then have "unat (rl_max_file_bytes l) \<le> unat RECOVERY_MAX_FILE_BYTES" by (simp add: word_le_nat_alt)
  then show "unat (rl_max_file_bytes l) < 2 ^ 64 - 1" by (simp add: RECOVERY_MAX_FILE_BYTES_def)
  show "0 < rl_max_entries l" "rl_max_payload_bytes l < 2 ^ 32" "60 + rl_max_payload_bytes l \<le> unat (rl_max_file_bytes l)"
    using assms by (auto simp: limits_ok_def limits_bounded_def RECOVERY_MAX_PAYLOAD_BYTES_def RECORD_HEADER_BYTES_def
        split: if_splits)
qed

definition fits :: "recovery_limits \<Rightarrow> bytes \<Rightarrow> bool" where
  "fits l content \<longleftrightarrow> length content \<le> unat (rl_max_file_bytes l)"

lemma scan_path_fits:
  "limits_ok l \<Longrightarrow> fits l content \<Longrightarrow>
   scan_path sha parse None (Some content) l = Inr (scan_loop sha parse l False content 0 0 scan_default)"
  using limits_okD(2) [of l]
  by (simp add: scan_path_def fits_def scan_bytes_def unat_sat_add not_less Let_def)

lemma scan_path_clean:
  assumes "limits_ok l" "scan_path sha parse None (Some content) l = Inr s" "\<not> scan_has_bad_tail s"
  shows "fits l content" "scan_loop sha parse l False content 0 0 scan_default = s" "rs_tail_status s = TailClean"
proof -
  have "fits l content"
    using assms(2,3) by (auto simp: scan_path_def fits_def scan_bytes_def Let_def scan_has_bad_tail_def tail_is_bad_def
        split: if_splits)
  then show "fits l content" "scan_loop sha parse l False content 0 0 scan_default = s" "rs_tail_status s = TailClean"
    using scan_path_fits [OF assms(1), of content sha parse] assms(2,3)
    by (auto simp: scan_has_bad_tail_def tail_is_bad_def)
qed

text \<open>A journal in step with its file, as opening it leaves it.\<close>

definition in_sync :: "(bytes \<Rightarrow> bytes) \<Rightarrow> (bytes \<Rightarrow> rstr + 'p) \<Rightarrow> 'p recovery_journal \<times> journal_file \<Rightarrow> bool" where
  "in_sync sha parse jf \<longleftrightarrow>
     limits_ok (rj_limits (fst jf)) \<and> scan_path sha parse None (snd jf) (rj_limits (fst jf)) = Inr (rj_scan (fst jf)) \<and>
     rj_next_sequence (fst jf) = next_sequence_of (rj_scan (fst jf))"

lemma open_in_sync: "open_with_limits sha parse fault disk l = Inr j \<Longrightarrow> in_sync sha parse (j, disk) \<and> rj_limits j = l"
  by (cases disk) (auto simp: open_with_limits_def rbind_Inr in_sync_def limits_ok_def scan_path_def limits_bounded_def
      split: if_splits option.splits)

lemma reopen_total:
  "limits_ok l \<Longrightarrow> \<exists>j. open_with_limits sha parse None disk l = Inr j \<and>
     scan_path sha parse None disk l = Inr (rj_scan j) \<and> rj_next_sequence j = next_sequence_of (rj_scan j)"
  by (cases disk) (simp_all add: open_with_limits_def limits_ok_def scan_path_def Let_def)

lemma next_sequence_follows:
  assumes "next_sequence_of s \<noteq> 0"
  shows "scanned_sequence s < next_sequence_of s"
proof (cases "rs_latest s")
  case None
  then show ?thesis by (simp add: scanned_sequence_def next_sequence_of_def)
next
  case (Some ck)
  then obtain n where "checked_add (ck_sequence ck) 1 = Some n"
    using assms by (auto simp: next_sequence_of_def next_after_def split: option.splits)
  moreover from this have "unat n = unat (ck_sequence ck) + 1"
    by (auto simp: checked_add_def unat_word_ariths split: if_splits)
  ultimately show ?thesis using Some by (simp add: scanned_sequence_def next_sequence_of_def next_after_def word_less_nat_alt)
qed

lemma scan_default_simps [simp]:
  "rs_latest scan_default = None" "rs_valid_entries scan_default = 0" "rs_tail_status scan_default = TailClean"
  "scanned_sequence scan_default = 0"
  by (simp_all add: scan_default_def scanned_sequence_def)

text \<open>What a record written after the latest checkpoint becomes on the next scan.\<close>

definition new_checkpoint :: "'p recovery_journal \<Rightarrow> 'p \<Rightarrow> bytes \<Rightarrow> 'p recovery_checkpoint" where
  "new_checkpoint j patch payload =
     \<lparr>ck_sequence = rj_next_sequence j, ck_patch = patch, ck_payload = payload\<rparr>"

lemma prepare_record_spec:
  assumes "prepare_record sha print parse j patch = Inr (payload, r)"
  obtains p where "print patch = Inr payload" "parse payload = Inr p" "rj_next_sequence j \<noteq> 0"
    "length payload \<le> rl_max_payload_bytes (rj_limits j)"
    "60 + length payload \<le> unat (rl_max_file_bytes (rj_limits j))"
    "length payload < 2 ^ 32" "r = record_bytes sha (rj_next_sequence j) payload"
  using assms that
  by (auto simp: prepare_record_def rbind_Inr validate_payload_def encode_record_bytes RECORD_HEADER_BYTES_def
      split: if_splits sum.splits)

lemma scan_replaced:
  assumes d: "digest32 sha" and l: "limits_ok l"
    and p: "sequence \<noteq> 0" "parse payload = Inr p" "length payload \<le> rl_max_payload_bytes l" "length payload < 2 ^ 32"
  shows "scan_path sha parse None (Some (record_bytes sha sequence payload)) l =
    Inr \<lparr>rs_latest = Some \<lparr>ck_sequence = sequence, ck_patch = p, ck_payload = payload\<rparr>, rs_valid_entries = 1,
      rs_valid_bytes = of_nat (60 + length payload), rs_tail_status = TailClean, rs_warning = None\<rparr>"
proof -
  have r: "readable parse l (scanned_sequence scan_default) sequence payload p"
    using p by (simp add: readable_def word_greater_zero_iff)
  have "fits l (record_bytes sha sequence payload)"
    using limits_okD(4) [OF l] p(3) by (simp add: fits_def length_record_bytes [OF d])
  from scan_path_fits [OF l this, of sha parse] show ?thesis
    using scan_loop_one_more [OF d r, of False "[]"] limits_okD(1) [OF l] by (simp add: scan_default_def scanned_sequence_def)
qed

lemma scan_appended:
  assumes d: "digest32 sha" and l: "limits_ok l"
    and c: "scan_path sha parse None (Some content) l = Inr s" "\<not> scan_has_bad_tail s"
    and m: "rs_valid_entries s < rl_max_entries l"
    and f: "length content + 60 + length payload \<le> unat (rl_max_file_bytes l)"
    and r: "readable parse l (scanned_sequence s) sequence payload p"
  shows "n < 60 + length payload \<Longrightarrow>
      \<exists>s'. scan_path sha parse None (Some (content @ take n (record_bytes sha sequence payload))) l = Inr s' \<and>
        rs_latest s' = rs_latest s"
    and "scan_path sha parse None (Some (content @ record_bytes sha sequence payload)) l =
      Inr (s\<lparr>rs_valid_entries := rs_valid_entries s + 1, rs_valid_bytes := of_nat (length content + 60 + length payload),
        rs_latest := Some \<lparr>ck_sequence = sequence, ck_patch = p, ck_payload = payload\<rparr>\<rparr>)"
proof -
  note cl = scan_path_clean [OF l c]
  have ext: "scan_loop sha parse l False (content @ t) 0 0 scan_default =
      scan_loop sha parse l False (content @ t) (length content) (scanned_sequence s) s" for t
    using scan_loop_extend [of sha parse l False content 0 0 scan_default False t] cl by simp
  have fit: "fits l (content @ take n (record_bytes sha sequence payload))" for n
    using f by (simp add: fits_def length_record_bytes [OF d])
  have fit2: "fits l (content @ record_bytes sha sequence payload)"
    using f by (simp add: fits_def length_record_bytes [OF d])
  show "\<exists>s'. scan_path sha parse None (Some (content @ take n (record_bytes sha sequence payload))) l = Inr s' \<and>
        rs_latest s' = rs_latest s" if "n < 60 + length payload"
  proof (cases "n = 0")
    case True
    then show ?thesis using c(1) by simp
  next
    case False
    then show ?thesis
      using scan_path_fits [OF l fit, of sha parse n] ext scan_loop_torn [OF d r m, of n False content] that by simp
  qed
  show "scan_path sha parse None (Some (content @ record_bytes sha sequence payload)) l =
      Inr (s\<lparr>rs_valid_entries := rs_valid_entries s + 1, rs_valid_bytes := of_nat (length content + 60 + length payload),
        rs_latest := Some \<lparr>ck_sequence = sequence, ck_patch = p, ck_payload = payload\<rparr>\<rparr>)"
    using scan_path_fits [OF l fit2, of sha parse] ext scan_loop_one_more [OF d r m, of False content] by simp
qed

section \<open>A torn or corrupt tail\<close>

definition log_bytes :: "(bytes \<Rightarrow> bytes) \<Rightarrow> (u64 \<times> bytes) list \<Rightarrow> bytes" where
  "log_bytes sha es = concat (map (\<lambda>(sequence, payload). record_bytes sha sequence payload) es)"

fun log_ok :: "(bytes \<Rightarrow> rstr + 'p) \<Rightarrow> recovery_limits \<Rightarrow> u64 \<Rightarrow> (u64 \<times> bytes) list \<Rightarrow> bool" where
  "log_ok parse l previous [] = True"
| "log_ok parse l previous ((sequence, payload) # es) =
     (\<not> isl (parse payload) \<and> readable parse l previous sequence payload (projr (parse payload)) \<and> log_ok parse l sequence es)"

definition last_sequence :: "u64 \<Rightarrow> (u64 \<times> bytes) list \<Rightarrow> u64" where
  "last_sequence previous es = (if es = [] then previous else fst (last es))"

definition entry_checkpoint :: "(bytes \<Rightarrow> rstr + 'p) \<Rightarrow> u64 \<times> bytes \<Rightarrow> 'p recovery_checkpoint" where
  "entry_checkpoint parse e = \<lparr>ck_sequence = fst e, ck_patch = projr (parse (snd e)), ck_payload = snd e\<rparr>"

lemma log_ok_snoc:
  "log_ok parse l previous (es @ [(sequence, payload)]) \<longleftrightarrow>
     log_ok parse l previous es \<and> \<not> isl (parse payload) \<and>
     readable parse l (last_sequence previous es) sequence payload (projr (parse payload))"
  by (induction parse l previous es rule: log_ok.induct) (auto simp: last_sequence_def)

lemma scan_log:
  assumes d: "digest32 sha"
  shows "log_ok parse l 0 es \<Longrightarrow> length es \<le> rl_max_entries l \<Longrightarrow>
    scan_loop sha parse l False (log_bytes sha es) 0 0 scan_default =
    \<lparr>rs_latest = (if es = [] then None else Some (entry_checkpoint parse (last es))), rs_valid_entries = length es,
     rs_valid_bytes = of_nat (length (log_bytes sha es)), rs_tail_status = TailClean, rs_warning = None\<rparr>"
proof (induction es rule: rev_induct)
  case Nil
  show ?case by (simp add: log_bytes_def scan_loop_end scan_default_def)
next
  case (snoc e es)
  obtain sequence payload where e: "e = (sequence, payload)" by fastforce
  let ?s = "scan_loop sha parse l False (log_bytes sha es) 0 0 scan_default"
  have ok: "log_ok parse l 0 es" "readable parse l (last_sequence 0 es) sequence payload (projr (parse payload))"
    using snoc.prems(1) by (simp_all add: e log_ok_snoc)
  have ih: "?s = \<lparr>rs_latest = (if es = [] then None else Some (entry_checkpoint parse (last es))), rs_valid_entries = length es,
     rs_valid_bytes = of_nat (length (log_bytes sha es)), rs_tail_status = TailClean, rs_warning = None\<rparr>"
    using snoc ok by simp
  have q: "scanned_sequence ?s = last_sequence 0 es"
    by (simp add: ih scanned_sequence_def last_sequence_def entry_checkpoint_def)
  have log: "log_bytes sha (es @ [e]) = log_bytes sha es @ record_bytes sha sequence payload"
    by (simp add: log_bytes_def e)
  have "scan_loop sha parse l False (log_bytes sha (es @ [e])) 0 0 scan_default =
      scan_loop sha parse l False (log_bytes sha es @ record_bytes sha sequence payload) (length (log_bytes sha es))
        (scanned_sequence ?s) ?s"
    unfolding log by (rule scan_loop_extend) (simp_all add: ih)
  also have "\<dots> = ?s\<lparr>rs_valid_entries := rs_valid_entries ?s + 1,
      rs_valid_bytes := of_nat (length (log_bytes sha es) + 60 + length payload),
      rs_latest := Some \<lparr>ck_sequence = sequence, ck_patch = projr (parse payload), ck_payload = payload\<rparr>\<rparr>"
    by (rule scan_loop_one_more [OF d]) (use ok(2) q snoc.prems(2) ih in simp_all)
  finally show ?case
    unfolding ih log by (simp add: e entry_checkpoint_def length_record_bytes [OF d])
qed

lemma scan_loop_mono:
  "previous = scanned_sequence s \<Longrightarrow>
   scanned_sequence s \<le> scanned_sequence (scan_loop sha parse limits ov bs offset previous s) \<and>
   rs_valid_entries s \<le> rs_valid_entries (scan_loop sha parse limits ov bs offset previous s)"
proof (induction sha parse limits ov bs offset previous s rule: scan_loop.induct)
  case (1 sha parse limits ov bs offset previous s)
  show ?case
  proof (cases "offset < length bs \<and> rs_valid_entries s \<noteq> rl_max_entries limits")
    case False
    then show ?thesis
      by (auto simp: scan_loop.simps [of sha parse limits ov bs offset previous s] scanned_sequence_def)
  next
    case True
    show ?thesis
    proof (cases "scan_record sha parse limits ov bs offset previous")
      case (Inl x)
      then show ?thesis
        using True by (auto simp: scan_loop.simps [of sha parse limits ov bs offset previous s] scanned_sequence_def
            split: prod.split)
    next
      case (Inr x)
      then obtain ck e where r: "scan_record sha parse limits ov bs offset previous = Inr (ck, e)" by (cases x) auto
      let ?s = "s\<lparr>rs_valid_entries := rs_valid_entries s + 1, rs_valid_bytes := of_nat e, rs_latest := Some ck\<rparr>"
      have "scanned_sequence ?s \<le> scanned_sequence (scan_loop sha parse limits ov bs e (ck_sequence ck) ?s) \<and>
          rs_valid_entries ?s \<le> rs_valid_entries (scan_loop sha parse limits ov bs e (ck_sequence ck) ?s)"
        using True by (intro "1.IH" [OF _ _ r refl]) (simp_all add: scanned_sequence_def)
      moreover have "scanned_sequence s \<le> scanned_sequence ?s"
        using scan_record_checkpoint(1) [OF r] "1.prems" by (simp add: scanned_sequence_def)
      ultimately show ?thesis
        using True r by (auto simp: scan_loop.simps [of sha parse limits ov bs offset previous s])
    qed
  qed
qed

text \<open>C31. A bad tail never costs a checkpoint.  A file of records, oldest first, followed by any bytes
  whatever still recovers a checkpoint at least as new as the last record; and when the bytes are a
  strict prefix of one more record, as a crash during an append leaves them, exactly the last record is
  recovered, all records and their bytes are counted, and the tail is reported exactly when there is one.\<close>

theorem bad_tail_costs_nothing:
  assumes "digest32 sha" "limits_ok l" "log_ok parse l 0 es" "es \<noteq> []" "length es < rl_max_entries l"
    and "fits l (log_bytes sha es @ tail)" "scan_path sha parse None (Some (log_bytes sha es @ tail)) l = Inr s"
  shows "fst (last es) \<le> scanned_sequence s \<and> length es \<le> rs_valid_entries s \<and>
    (log_ok parse l 0 (es @ [(sequence, payload)]) \<and> tail = take n (record_bytes sha sequence payload) \<and>
       n < 60 + length payload \<longrightarrow>
     rs_latest s = Some (entry_checkpoint parse (last es)) \<and> rs_valid_entries s = length es \<and>
     rs_valid_bytes s = of_nat (length (log_bytes sha es)) \<and> (scan_has_bad_tail s \<longleftrightarrow> tail \<noteq> []))"
proof -
  let ?s0 = "scan_loop sha parse l False (log_bytes sha es) 0 0 scan_default"
  note log = scan_log [OF assms(1,3) less_imp_le [OF assms(5)]]
  have q: "scanned_sequence ?s0 = fst (last es)" using assms(4) by (simp add: log scanned_sequence_def entry_checkpoint_def)
  have s: "s = scan_loop sha parse l False (log_bytes sha es @ tail) (length (log_bytes sha es)) (scanned_sequence ?s0) ?s0"
    using scan_path_fits [OF assms(2,6), of sha parse] assms(7)
      scan_loop_extend [of sha parse l False "log_bytes sha es" 0 0 scan_default False tail] by (simp add: log)
  have mono: "scanned_sequence ?s0 \<le> scanned_sequence s \<and> rs_valid_entries ?s0 \<le> rs_valid_entries s"
    unfolding s by (rule scan_loop_mono) (rule refl)
  then have "fst (last es) \<le> scanned_sequence s" "length es \<le> rs_valid_entries s" by (simp_all only: q) (simp add: log)
  moreover have "rs_latest s = Some (entry_checkpoint parse (last es)) \<and> rs_valid_entries s = length es \<and>
     rs_valid_bytes s = of_nat (length (log_bytes sha es)) \<and> (scan_has_bad_tail s \<longleftrightarrow> tail \<noteq> [])"
    if t: "log_ok parse l 0 (es @ [(sequence, payload)])" "tail = take n (record_bytes sha sequence payload)"
      "n < 60 + length payload"
  proof (cases "n = 0")
    case True
    then have "s = ?s0" using s t(2) by (simp add: scan_loop_end)
    then show ?thesis using assms(4) True t(2) by (simp add: log scan_has_bad_tail_def tail_is_bad_def)
  next
    case False
    have r: "readable parse l (scanned_sequence ?s0) sequence payload (projr (parse payload))"
      using t(1) assms(4) q by (simp add: log_ok_snoc last_sequence_def)
    have "s = set_bad_tail ?s0 TailTruncated TRUNCATED_WARNING"
      using scan_loop_torn [OF assms(1) r, of n False "log_bytes sha es"] False t(2,3) s assms(5) by (simp add: log)
    moreover have "tail \<noteq> []" using False t(2) length_record_bytes [OF assms(1), of sequence payload] by auto
    ultimately show ?thesis using assms(4) by (simp add: log scan_has_bad_tail_def tail_is_bad_def)
  qed
  ultimately show ?thesis by blast
qed

definition demo_sha :: "bytes \<Rightarrow> bytes" where "demo_sha x = replicate 32 (of_nat (length x))"

definition demo_parse :: "bytes \<Rightarrow> rstr + bytes" where
  "demo_parse bs = (if bs = [] then Inl (lit ''empty'') else Inr bs)"

lemma demo_sha_digest: "digest32 demo_sha"
  by (simp add: digest32_def demo_sha_def)

lemma default_limits_ok: "limits_ok recovery_limits_default"
  by (simp add: limits_ok_def limits_bounded_def recovery_limits_default_def RECOVERY_MAX_ENTRIES_def
      RECOVERY_MAX_FILE_BYTES_def RECOVERY_MAX_PAYLOAD_BYTES_def RECORD_HEADER_BYTES_def)

theorem bad_tail_costs_nothing_witness:
  "\<exists>s. scan_path demo_sha demo_parse None
       (Some (log_bytes demo_sha [(1, [7]), (2, [8])] @ take 60 (record_bytes demo_sha 5 [9]))) recovery_limits_default = Inr s \<and>
     rs_latest s = Some \<lparr>ck_sequence = 2, ck_patch = [8], ck_payload = [8]\<rparr> \<and> scan_has_bad_tail s"
proof -
  let ?es = "[(1, [7]), (2, [8])] :: (u64 \<times> bytes) list"
  let ?tail = "take 60 (record_bytes demo_sha 5 [9])"
  have r: "readable demo_parse recovery_limits_default a b [c] [c] \<longleftrightarrow> a < b" for a b c
    by (simp add: readable_def demo_parse_def recovery_limits_default_def RECOVERY_MAX_PAYLOAD_BYTES_def)
  have ok: "log_ok demo_parse recovery_limits_default 0 ?es" "log_ok demo_parse recovery_limits_default 0 (?es @ [(5, [9])])"
    by (simp_all add: r demo_parse_def)
  have f: "fits recovery_limits_default (log_bytes demo_sha ?es @ ?tail)"
    by (simp add: fits_def log_bytes_def length_record_bytes [OF demo_sha_digest] recovery_limits_default_def
        RECOVERY_MAX_FILE_BYTES_def)
  note s = scan_path_fits [OF default_limits_ok f, of demo_sha demo_parse]
  have t: "?tail \<noteq> []" using length_record_bytes [OF demo_sha_digest, of 5 "[9]"] by auto
  show ?thesis
    using bad_tail_costs_nothing [OF demo_sha_digest default_limits_ok ok(1) _ _ f s, of 5 "[9]" 60] ok(2) s t
    by (simp add: entry_checkpoint_def demo_parse_def recovery_limits_default_def RECOVERY_MAX_ENTRIES_def)
qed

section \<open>Appends\<close>

lemma must_compact_append:
  assumes "\<not> must_compact j disk r"
  obtains content where "disk = Some content" "\<not> scan_has_bad_tail (rj_scan j)"
    "rs_valid_entries (rj_scan j) < rl_max_entries (rj_limits j)"
    "length content + length r \<le> unat (rl_max_file_bytes (rj_limits j))"
  using assms by (cases disk) (auto simp: must_compact_def file_len_def)

text \<open>What publishing a prepared record leaves on the disk, whatever the file system does.\<close>

lemma publish_outcomes:
  assumes d: "digest32 sha" and sync: "in_sync sha parse (j, disk)"
    and prep: "prepare_record sha print parse j patch = Inr (payload, r)"
    and pub: "(if must_compact j disk r then write_atomic_replacement ro disk r else append_record ao disk r) = (disk', res)"
  shows "\<exists>s. scan_path sha parse None disk' (rj_limits j) = Inr s \<and>
    (rs_latest s = rs_latest (rj_scan j) \<and> res \<noteq> Inr () \<or>
     rs_latest s = Some (new_checkpoint j (projr (parse payload)) payload) \<and> \<not> scan_has_bad_tail s)"
proof -
  from prep obtain p where p: "print patch = Inr payload" "parse payload = Inr p" "rj_next_sequence j \<noteq> 0"
    "length payload \<le> rl_max_payload_bytes (rj_limits j)"
    "60 + length payload \<le> unat (rl_max_file_bytes (rj_limits j))" "length payload < 2 ^ 32"
    "r = record_bytes sha (rj_next_sequence j) payload"
    by (rule prepare_record_spec)
  have l: "limits_ok (rj_limits j)" and old: "scan_path sha parse None disk (rj_limits j) = Inr (rj_scan j)"
    and nx: "rj_next_sequence j = next_sequence_of (rj_scan j)"
    using sync by (simp_all add: in_sync_def)
  show ?thesis
  proof (cases "must_compact j disk r")
    case True
    then show ?thesis
      using pub old scan_replaced [where parse = parse and payload = payload and p = p, OF d l p(3,2,4,6)] p(2,7)
      by (auto simp: write_atomic_replacement_def new_checkpoint_def scan_has_bad_tail_def tail_is_bad_def
          split: replace_outcome.splits)
  next
    case False
    then obtain content where c: "disk = Some content" "\<not> scan_has_bad_tail (rj_scan j)"
      "rs_valid_entries (rj_scan j) < rl_max_entries (rj_limits j)"
      "length content + length r \<le> unat (rl_max_file_bytes (rj_limits j))"
      by (rule must_compact_append)
    have f: "length content + 60 + length payload \<le> unat (rl_max_file_bytes (rj_limits j))"
      using c(4) by (simp add: p(7) length_record_bytes [OF d])
    have rd: "readable parse (rj_limits j) (scanned_sequence (rj_scan j)) (rj_next_sequence j) payload p"
      using next_sequence_follows [of "rj_scan j"] p nx by (simp add: readable_def)
    note app = scan_appended [OF d l old [unfolded c(1)] c(2,3) f rd]
    have full: "\<exists>s. scan_path sha parse None (Some (content @ r)) (rj_limits j) = Inr s \<and>
        rs_latest s = Some (new_checkpoint j (projr (parse payload)) payload) \<and> \<not> scan_has_bad_tail s"
      using app(2) c(2) p(2) by (simp add: p(7) new_checkpoint_def scan_has_bad_tail_def)
    show ?thesis
    proof (cases ao)
      case (AppendTorn n e)
      then have disk': "disk' = Some (content @ take n r)" "res \<noteq> Inr ()" using pub False c(1) by (auto simp: append_record_def)
      show ?thesis
      proof (cases "n < 60 + length payload")
        case True
        then show ?thesis using app(1) [of n] disk' p(7) by auto
      next
        case ge: False
        then have "take n r = r" by (simp add: p(7) length_record_bytes [OF d])
        then show ?thesis using full disk' by auto
      qed
    next
      case (AppendOpenFailed e)
      then show ?thesis using pub False c(1) old by (auto simp: append_record_def)
    qed (use pub False c(1) full in \<open>auto simp: append_record_def\<close>)
  qed
qed

lemma append_crash:
  assumes "digest32 sha" and "in_sync sha parse (j, disk)"
    and "append_patch sha print parse io (j, disk) patch = ((j', disk'), r)"
  shows "\<exists>s. scan_path sha parse None disk' (rj_limits j) = Inr s \<and>
    (rs_latest s = rs_latest (rj_scan j) \<or>
     (\<exists>payload p. print patch = Inr payload \<and> parse payload = Inr p \<and> rs_latest s = Some (new_checkpoint j p payload))) \<and>
    scanned_sequence (rj_scan j) \<le> scanned_sequence s \<and>
    (\<forall>receipt. r = Inr receipt \<longrightarrow>
       (\<exists>payload p. print patch = Inr payload \<and> parse payload = Inr p \<and> rs_latest s = Some (new_checkpoint j p payload)) \<and>
       jr_sequence receipt = rj_next_sequence j \<and> scanned_sequence (rj_scan j) < jr_sequence receipt \<and>
       in_sync sha parse (j', disk'))"
proof (cases "prepare_record sha print parse j patch")
  case (Inl e)
  then have "disk' = disk" "r = Inl e" using assms(3) by (auto simp: append_patch_def)
  then show ?thesis using assms(2) by (auto simp: in_sync_def)
next
  case (Inr x)
  obtain payload rec where prep: "prepare_record sha print parse j patch = Inr (payload, rec)" using Inr by (cases x) auto
  from prep obtain p where p: "print patch = Inr payload" "parse payload = Inr p" "rj_next_sequence j \<noteq> 0"
    by (rule prepare_record_spec)
  obtain d1 res where pub: "(if must_compact j disk rec then write_atomic_replacement (io_replace io) disk rec
      else append_record (io_append io) disk rec) = (d1, res)" by fastforce
  obtain s where s: "scan_path sha parse None d1 (rj_limits j) = Inr s"
    "rs_latest s = rs_latest (rj_scan j) \<and> res \<noteq> Inr () \<or> rs_latest s = Some (new_checkpoint j p payload) \<and> \<not> scan_has_bad_tail s"
    using publish_outcomes [OF assms(1,2) prep pub] p(2) by auto
  have disk': "disk' = d1" using assms(3) prep pub
    by (auto simp: append_patch_def Let_def split: sum.splits option.splits if_splits)
  have acked: "rs_latest s = Some (new_checkpoint j p payload) \<and> jr_sequence receipt = rj_next_sequence j \<and>
      in_sync sha parse (j', disk')" if "r = Inr receipt" for receipt
  proof -
    have res: "res = Inr ()" and q: "scan_path sha parse (io_read_fault io) d1 (rj_limits j) = Inr (rj_scan j')"
      "rj_limits j' = rj_limits j" "rj_next_sequence j' = next_after (rj_next_sequence j)"
      "jr_sequence receipt = rj_next_sequence j"
      using assms(3) prep pub that by (auto simp: append_patch_def Let_def split: sum.splits option.splits if_splits)
    have "rj_scan j' = s" using q(1) s(1) by (auto simp: scan_path_def split: option.splits prod.splits)
    then show ?thesis
      using s res q assms(2) disk' by (auto simp: in_sync_def next_sequence_of_def new_checkpoint_def)
  qed
  have "scanned_sequence (rj_scan j) < rj_next_sequence j"
    using next_sequence_follows [of "rj_scan j"] p(3) assms(2) by (simp add: in_sync_def)
  then have "scanned_sequence (rj_scan j) \<le> scanned_sequence s"
    using s(2) by (auto simp: scanned_sequence_def new_checkpoint_def)
  then show ?thesis using \<open>scanned_sequence (rj_scan j) < rj_next_sequence j\<close> s p acked disk' by auto
qed

text \<open>C5. An append is atomic under crashes.  Whatever happens to the writes, the directory sync and the
  reading back, and also when the process dies in between, the file then recovers either the checkpoint
  it recovered before or the new one, complete, and never an older one; and when the append reports success, it is the new one,
  with the announced and larger sequence, and the journal is in step with its file.\<close>

theorem append_is_crash_safe:
  assumes "digest32 sha" and "in_sync sha parse (j, disk)"
    and "append_patch sha print parse io (j, disk) patch = ((j', disk'), r)"
  shows "\<exists>s. scan_path sha parse None disk' (rj_limits j) = Inr s \<and>
    (rs_latest s = rs_latest (rj_scan j) \<or>
     (\<exists>payload p. print patch = Inr payload \<and> parse payload = Inr p \<and> rs_latest s = Some (new_checkpoint j p payload))) \<and>
    scanned_sequence (rj_scan j) \<le> scanned_sequence s \<and>
    (\<forall>receipt. r = Inr receipt \<longrightarrow>
       (\<exists>payload p. print patch = Inr payload \<and> parse payload = Inr p \<and> rs_latest s = Some (new_checkpoint j p payload)) \<and>
       jr_sequence receipt = rj_next_sequence j \<and> scanned_sequence (rj_scan j) < jr_sequence receipt \<and>
       in_sync sha parse (j', disk'))"
  using append_crash [OF assms] .

text \<open>On a disk that works every printable patch within the limits is acknowledged.\<close>

definition healthy_io :: io_outcome where
  "healthy_io = \<lparr>io_append = AppendDone, io_replace = ReplaceDone, io_sync_parent = None, io_read_fault = None\<rparr>"

lemma healthy_append:
  assumes d: "digest32 sha" and sync: "in_sync sha parse (j, disk)"
    and prep: "prepare_record sha print parse j patch = Inr (payload, rec)"
  shows "\<exists>j' disk' receipt. append_patch sha print parse healthy_io (j, disk) patch = ((j', disk'), Inr receipt)"
proof -
  from prep obtain p where p: "parse payload = Inr p" by (rule prepare_record_spec)
  obtain d1 res where pub: "(if must_compact j disk rec then write_atomic_replacement ReplaceDone disk rec
      else append_record AppendDone disk rec) = (d1, res)" by fastforce
  have res: "res = Inr ()"
    using pub must_compact_append [of j disk rec]
    by (cases disk) (auto simp: write_atomic_replacement_def append_record_def must_compact_def split: if_splits)
  obtain s where s: "scan_path sha parse None d1 (rj_limits j) = Inr s"
    "rs_latest s = Some (new_checkpoint j p payload)" "\<not> scan_has_bad_tail s"
    using publish_outcomes [OF d sync prep pub] p res by auto
  then show ?thesis
    using prep pub res
    by (auto simp: append_patch_def healthy_io_def sync_parent_def Let_def new_checkpoint_def)
qed

section \<open>Runs\<close>

text \<open>The writer's discipline: after a failed append the journal is reopened.\<close>

definition journal_step ::
  "(bytes \<Rightarrow> bytes) \<Rightarrow> ('p \<Rightarrow> rstr + bytes) \<Rightarrow> (bytes \<Rightarrow> rstr + 'p) \<Rightarrow> 'p recovery_journal \<times> journal_file \<Rightarrow>
   'p \<times> io_outcome \<Rightarrow> 'p recovery_journal \<times> journal_file" where
  "journal_step sha print parse jf op =
     (case append_patch sha print parse (snd op) jf (fst op) of
        (jf', Inr receipt) \<Rightarrow> jf'
      | (jf', Inl e) \<Rightarrow> fst (recover_after_failure sha parse None jf'))"

definition journal_inv ::
  "(bytes \<Rightarrow> bytes) \<Rightarrow> (bytes \<Rightarrow> rstr + 'p) \<Rightarrow> 'p recovery_journal \<times> journal_file \<Rightarrow> bool" where
  "journal_inv sha parse jf \<longleftrightarrow> digest32 sha \<and> in_sync sha parse jf"

definition not_older :: "'p recovery_journal \<times> journal_file \<Rightarrow> 'p recovery_journal \<times> journal_file \<Rightarrow> bool" where
  "not_older a b \<longleftrightarrow> rj_limits (fst b) = rj_limits (fst a) \<and>
     scanned_sequence (rj_scan (fst a)) \<le> scanned_sequence (rj_scan (fst b))"

lemma append_keeps_limits:
  "append_patch sha print parse io (j, disk) patch = ((j', disk'), r) \<Longrightarrow> rj_limits j' = rj_limits j"
  by (auto simp: append_patch_def Let_def split: sum.splits prod.splits if_splits)

lemma journal_step_spec:
  assumes "journal_inv sha parse jf"
  shows "journal_inv sha parse (journal_step sha print parse jf op)" "not_older jf (journal_step sha print parse jf op)"
proof -
  obtain j disk where jf: "jf = (j, disk)" by fastforce
  obtain j1 d1 r where a: "append_patch sha print parse (snd op) (j, disk) (fst op) = ((j1, d1), r)"
    by (metis prod.exhaust)
  have h: "digest32 sha" "in_sync sha parse (j, disk)" using assms by (simp_all add: journal_inv_def jf)
  note lim = append_keeps_limits [OF a]
  obtain s where s: "scan_path sha parse None d1 (rj_limits j) = Inr s"
    "scanned_sequence (rj_scan j) \<le> scanned_sequence s"
    and ack: "\<And>receipt. r = Inr receipt \<Longrightarrow> in_sync sha parse (j1, d1)"
    using append_crash [OF h a] by blast
  have ok: "limits_ok (rj_limits j)" using h(2) by (simp add: in_sync_def)
  have "journal_inv sha parse (journal_step sha print parse jf op) \<and> not_older jf (journal_step sha print parse jf op)"
  proof (cases r)
    case (Inr receipt)
    then have "journal_step sha print parse jf op = (j1, d1)" using a by (simp add: journal_step_def jf)
    moreover have "rj_scan j1 = s" using ack [OF Inr] s(1) lim by (simp add: in_sync_def)
    ultimately show ?thesis using ack [OF Inr] h(1) s(2) lim by (simp add: journal_inv_def not_older_def jf)
  next
    case (Inl e)
    obtain j2 where o: "open_with_limits sha parse None d1 (rj_limits j) = Inr j2" using reopen_total [OF ok] by blast
    then have "journal_step sha print parse jf op = (j2, d1)"
      using a Inl lim by (simp add: journal_step_def jf recover_after_failure_def)
    moreover have "in_sync sha parse (j2, d1)" "rj_limits j2 = rj_limits j" using open_in_sync [OF o] by simp_all
    moreover from this have "rj_scan j2 = s" using s(1) by (simp add: in_sync_def)
    ultimately show ?thesis using h(1) s(2) by (simp add: journal_inv_def not_older_def jf)
  qed
  then show "journal_inv sha parse (journal_step sha print parse jf op)" "not_older jf (journal_step sha print parse jf op)"
    by simp_all
qed

lemma not_older_refl: "not_older a a"
  by (simp add: not_older_def)

lemma not_older_trans: "not_older a b \<Longrightarrow> not_older b c \<Longrightarrow> not_older a c"
  by (auto simp: not_older_def)

interpretation journal: monotone_machine "journal_step sha print parse" "journal_inv sha parse" not_older
  for sha print parse
  by unfold_locales (blast intro: journal_step_spec not_older_refl not_older_trans)+

text \<open>C6. What was acknowledged stays recoverable: after a successful append, any number of further
  appends, each interrupted or not (the writer reopens the journal after a failure), leave a file whose
  recovered checkpoint is at least as new as the acknowledged one; and while the disk works, every
  further patch that can be printed within the limits is acknowledged itself.\<close>

theorem acknowledged_stays_recoverable:
  assumes "digest32 sha" and "in_sync sha parse (j, disk)"
    and "append_patch sha print parse io (j, disk) patch = (jf, Inr receipt)"
    and "foldl (journal_step sha print parse) jf ops = (j', disk')"
  shows "(\<exists>s. scan_path sha parse None disk' (rj_limits j) = Inr s \<and> jr_sequence receipt \<le> scanned_sequence s) \<and>
    (prepare_record sha print parse j' patch' = Inr (payload, rec) \<longrightarrow>
       \<not> isl (snd (append_patch sha print parse healthy_io (j', disk') patch')))"
proof -
  obtain j1 d1 where jf: "jf = (j1, d1)" by fastforce
  obtain s where s: "scan_path sha parse None d1 (rj_limits j) = Inr s" "in_sync sha parse (j1, d1)"
    "jr_sequence receipt = scanned_sequence s"
    using append_crash [OF assms(1,2) assms(3) [unfolded jf]] by (auto simp: scanned_sequence_def new_checkpoint_def)
  have l: "rj_limits j1 = rj_limits j" using append_keeps_limits [OF assms(3) [unfolded jf]] .
  have i: "journal_inv sha parse (j1, d1)" using assms(1) s(2) by (simp add: journal_inv_def)
  have "journal_inv sha parse (j', disk')" "not_older (j1, d1) (j', disk')"
    using journal.inv_run [OF i, of print ops] journal.le_run [OF i, of print ops] assms(4) by (simp_all add: jf)
  moreover have "rj_scan j1 = s" using s(1,2) l by (simp add: in_sync_def)
  moreover have "snd (append_patch sha print parse healthy_io (j', disk') patch') = Inr receipt'"
    if "append_patch sha print parse healthy_io (j', disk') patch' = (x, Inr receipt')" for x receipt'
    using that by simp
  ultimately show ?thesis
    using s(3) l healthy_append [of sha parse j' disk' print patch' payload rec]
    by (fastforce simp: journal_inv_def not_older_def in_sync_def)
qed

definition demo_journal :: "bytes recovery_journal" where
  "demo_journal = \<lparr>rj_limits = recovery_limits_default, rj_scan = scan_default, rj_next_sequence = 1\<rparr>"

lemma demo_in_sync: "in_sync demo_sha demo_parse (demo_journal, None)"
  using default_limits_ok by (simp add: in_sync_def demo_journal_def scan_path_def next_sequence_of_def)

lemma demo_prepared: "prepare_record demo_sha Inr demo_parse demo_journal [7] = Inr ([7], record_bytes demo_sha 1 [7])"
  by (simp add: prepare_record_def demo_journal_def demo_parse_def validate_payload_def recovery_limits_default_def
      RECOVERY_MAX_PAYLOAD_BYTES_def RECOVERY_MAX_FILE_BYTES_def RECORD_HEADER_BYTES_def encode_record_bytes rbind_Inr)

lemma demo_append:
  obtains j1 d1 receipt where "append_patch demo_sha Inr demo_parse healthy_io (demo_journal, None) [7] = ((j1, d1), Inr receipt)"
  using healthy_append [OF demo_sha_digest demo_in_sync demo_prepared] by auto

lemma demo_append_latest:
  obtains j1 d1 receipt where
    "append_patch demo_sha Inr demo_parse healthy_io (demo_journal, None) [7] = ((j1, d1), Inr receipt)"
    "rs_latest (rj_scan j1) \<noteq> None"
proof -
  obtain j1 d1 receipt where a: "append_patch demo_sha Inr demo_parse healthy_io (demo_journal, None) [7] = ((j1, d1), Inr receipt)"
    by (rule demo_append)
  then have "rs_latest (rj_scan j1) \<noteq> None"
    by (auto simp: append_patch_def Let_def split: sum.splits prod.splits option.splits if_splits)
  then show thesis using a that by blast
qed

theorem append_is_crash_safe_witness:
  "\<exists>j1 d1 receipt s. append_patch demo_sha Inr demo_parse healthy_io (demo_journal, None) [7] = ((j1, d1), Inr receipt) \<and>
     scan_path demo_sha demo_parse None d1 recovery_limits_default = Inr s \<and>
     rs_latest s = Some \<lparr>ck_sequence = 1, ck_patch = [7], ck_payload = [7]\<rparr>"
proof -
  obtain j1 d1 receipt where a: "append_patch demo_sha Inr demo_parse healthy_io (demo_journal, None) [7] = ((j1, d1), Inr receipt)"
    by (rule demo_append)
  then show ?thesis
    using append_is_crash_safe [OF demo_sha_digest demo_in_sync a]
    by (auto simp: demo_journal_def new_checkpoint_def demo_parse_def)
qed

theorem acknowledged_stays_recoverable_witness:
  "\<exists>jf receipt s j' disk'. append_patch demo_sha Inr demo_parse healthy_io (demo_journal, None) [7] = (jf, Inr receipt) \<and>
     foldl (journal_step demo_sha Inr demo_parse) jf
       [([8], healthy_io\<lparr>io_append := AppendTorn 5 []\<rparr>), ([9], healthy_io\<lparr>io_sync_parent := Some []\<rparr>)] = (j', disk') \<and>
     scan_path demo_sha demo_parse None disk' recovery_limits_default = Inr s \<and> jr_sequence receipt \<le> scanned_sequence s"
proof -
  obtain jf receipt where a: "append_patch demo_sha Inr demo_parse healthy_io (demo_journal, None) [7] = (jf, Inr receipt)"
    using demo_append by metis
  obtain j' disk' where f: "foldl (journal_step demo_sha Inr demo_parse) jf
       [([8], healthy_io\<lparr>io_append := AppendTorn 5 []\<rparr>), ([9], healthy_io\<lparr>io_sync_parent := Some []\<rparr>)] = (j', disk')"
    by fastforce
  show ?thesis
    using acknowledged_stays_recoverable [OF demo_sha_digest demo_in_sync a f] a f
    by (auto simp: demo_journal_def)
qed

end
