(* ===== verification/Recovery_Writer_Laws.thy ===== *)
theory Recovery_Writer_Laws
  imports Recovery_Writer Recovery_Journal_Laws "HOL-Library.Multiset"
begin

text \<open>
  What the journal writer promises under every interleaving of producer and worker: each accepted
  request meets exactly one fate, the newest one is the one that waits, a shutdown drains what was
  accepted, and the checkpoint it reports as durable can be recovered from the disk.
\<close>

section \<open>Fates of requests\<close>

datatype fate = Superseded | Checkpointed | Discarded | FailedRequest

record ('p, 'b) writer_trace =
  wt_writer :: "('p, 'b) writer"
  wt_accepted :: "u64 list"
  wt_fates :: "(u64 \<times> fate) list"

definition accepted_by :: "('p, 'b) writer \<Rightarrow> ('p, 'b, 'e) writer_event \<Rightarrow> u64 list" where
  "accepted_by w ev =
     (case ev of
        WeRequest operation \<Rightarrow>
          (case writer_request operation (wr_next_id w, wr_shared w) of
             (ns, Inr r) \<Rightarrow> [er_request_id r] | (ns, Inl e) \<Rightarrow> [])
      | _ \<Rightarrow> [])"

definition pending_ids :: "'p writer_shared \<Rightarrow> u64 list" where
  "pending_ids s = (case ws_pending s of None \<Rightarrow> [] | Some q \<Rightarrow> [wq_id q])"

definition flight_ids :: "'p writer_shared \<Rightarrow> u64 list" where
  "flight_ids s = (case ws_in_flight s of None \<Rightarrow> [] | Some i \<Rightarrow> [i])"

definition fates_of :: "('p, 'b, 'e) backend_ops \<Rightarrow> ('p, 'b) writer \<Rightarrow> ('p, 'b, 'e) writer_event \<Rightarrow> (u64 \<times> fate) list"
  where
  "fates_of ops w ev =
     (case ev of
        WeRequest operation \<Rightarrow>
          (case writer_request operation (wr_next_id w, wr_shared w) of
             (ns, Inr r) \<Rightarrow> (case er_superseded r of None \<Rightarrow> [] | Some i \<Rightarrow> [(i, Superseded)])
           | (ns, Inl e) \<Rightarrow> [])
      | WeShutdown \<Rightarrow> []
      | WeWorker opened e \<Rightarrow>
          (case wr_point w of
             WkStarting \<Rightarrow> (case opened of
                 Inl err \<Rightarrow> map (\<lambda>i. (i, FailedRequest)) (pending_ids (wr_shared w)) | Inr b \<Rightarrow> [])
           | WkRunning q \<Rightarrow>
               (case wr_backend w of
                  None \<Rightarrow> []
                | Some b \<Rightarrow>
                    [(wq_id q,
                      case wq_operation q of
                        WoCheckpoint p \<Rightarrow> (case bo_append ops e b p of
                            (b', Inr r) \<Rightarrow> Checkpointed | (b', Inl err) \<Rightarrow> FailedRequest)
                      | WoDiscard \<Rightarrow> (case bo_discard ops e b of
                            (b', Inr r) \<Rightarrow> Discarded | (b', Inl err) \<Rightarrow> FailedRequest))])
           | _ \<Rightarrow> [])
      | WePanic \<Rightarrow>
          (if wr_point w = WkEnded then []
           else map (\<lambda>i. (i, FailedRequest)) (flight_ids (wr_shared w) @ pending_ids (wr_shared w))))"

definition trace_step ::
  "('p, 'b, 'e) backend_ops \<Rightarrow> ('p, 'b) writer_trace \<Rightarrow> ('p, 'b, 'e) writer_event \<Rightarrow> ('p, 'b) writer_trace" where
  "trace_step ops t ev =
     \<lparr>wt_writer = writer_step ops (wt_writer t) ev,
      wt_accepted = wt_accepted t @ accepted_by (wt_writer t) ev,
      wt_fates = wt_fates t @ fates_of ops (wt_writer t) ev\<rparr>"

definition trace_run :: "('p, 'b, 'e) backend_ops \<Rightarrow> ('p, 'b, 'e) writer_event list \<Rightarrow> ('p, 'b) writer_trace" where
  "trace_run ops evs = foldl (trace_step ops) \<lparr>wt_writer = writer_start, wt_accepted = [], wt_fates = []\<rparr> evs"

definition count_fate :: "fate \<Rightarrow> (u64 \<times> fate) list \<Rightarrow> nat" where
  "count_fate f xs = length (filter (\<lambda>x. snd x = f) xs)"

lemma count_fate_simps [simp]:
  "count_fate f [] = 0" "count_fate f (xs @ ys) = count_fate f xs + count_fate f ys"
  "count_fate f (x # xs) = of_bool (snd x = f) + count_fate f xs"
  by (simp_all add: count_fate_def)

lemma count_fate_map: "count_fate f (map (\<lambda>i. (i, g)) xs) = (if f = g then length xs else 0)"
  by (induction xs) auto

lemma count_fate_le: "count_fate f xs \<le> length xs"
  by (simp add: count_fate_def)

text \<open>The accounting invariant after at most \<open>n\<close> events.\<close>

definition accounted :: "nat \<Rightarrow> ('p, 'b) writer_trace \<Rightarrow> bool" where
  "accounted n t \<longleftrightarrow>
     (let w = wt_writer t; s = wr_shared w in
      mset (wt_accepted t) = mset (map fst (wt_fates t)) + mset (flight_ids s) + mset (pending_ids s) \<and>
      length (wt_accepted t) \<le> n \<and>
      sorted_wrt (<) (map unat (wt_accepted t)) \<and>
      (\<forall>i \<in> set (wt_accepted t). i < wr_next_id w) \<and>
      (\<forall>q. ws_pending s = Some q \<longrightarrow> wt_accepted t \<noteq> [] \<and> wq_id q = last (wt_accepted t)) \<and>
      (case wr_point w of WkRunning q \<Rightarrow> ws_in_flight s = Some (wq_id q) \<and> wr_backend w \<noteq> None | _ \<Rightarrow> ws_in_flight s = None) \<and>
      (wr_point w \<in> {WkWaiting, WkReopening} \<longrightarrow> wr_backend w \<noteq> None) \<and>
      (wr_point w = WkEnded \<longrightarrow> ws_pending s = None \<and> \<not> ws_accepting s) \<and>
      unat (ws_submitted s) = length (wt_accepted t) \<and>
      unat (ws_superseded s) = count_fate Superseded (wt_fates t) \<and>
      unat (ws_failed s) = count_fate FailedRequest (wt_fates t) \<and>
      ws_max_observed_jobs s \<le> 2)"

lemma bump_revision_simps [simp]:
  "ws_pending (bump_revision s) = ws_pending s" "ws_in_flight (bump_revision s) = ws_in_flight s"
  "ws_durable_scan (bump_revision s) = ws_durable_scan s" "ws_accepting (bump_revision s) = ws_accepting s"
  "ws_shutdown_requested (bump_revision s) = ws_shutdown_requested s"
  "ws_worker_stopped (bump_revision s) = ws_worker_stopped s" "ws_submitted (bump_revision s) = ws_submitted s"
  "ws_superseded (bump_revision s) = ws_superseded s" "ws_failed (bump_revision s) = ws_failed s"
  "ws_max_observed_jobs (bump_revision s) = ws_max_observed_jobs s"
  "pending_ids (bump_revision s) = pending_ids s" "flight_ids (bump_revision s) = flight_ids s"
  by (simp_all add: bump_revision_def pending_ids_def flight_ids_def)

lemmas worker_sections = worker_unavailable_def worker_ready_def worker_stop_def worker_take_def
  worker_checkpointed_def worker_discarded_def worker_failed_def worker_reopened_def worker_panicked_def

lemma accounted_lengths:
  assumes "accounted n t"
  shows "length (wt_fates t) + length (flight_ids (wr_shared (wt_writer t))) + length (pending_ids (wr_shared (wt_writer t)))
    = length (wt_accepted t)" "length (wt_fates t) \<le> n"
proof -
  have "size (mset (wt_accepted t)) = size (mset (map fst (wt_fates t)) + mset (flight_ids (wr_shared (wt_writer t))) +
      mset (pending_ids (wr_shared (wt_writer t))))" using assms by (simp add: accounted_def Let_def)
  then show *: "length (wt_fates t) + length (flight_ids (wr_shared (wt_writer t))) +
      length (pending_ids (wr_shared (wt_writer t))) = length (wt_accepted t)"
    by simp
  then show "length (wt_fates t) \<le> n" using assms by (simp add: accounted_def Let_def)
qed

lemma sat_add_one: "unat (a :: u64) < 2 ^ 64 - 1 \<Longrightarrow> unat (sat_add a 1) = unat a + 1"
  by (simp add: unat_sat_add)

lemma take_request_id_Some:
  assumes "take_request_id c = Some (c', i)"
  shows "i = c" "c < c'"
proof -
  have "i = c \<and> checked_add c 1 = Some c'" using assms by (auto simp: take_request_id_def split: option.splits if_splits)
  then show "i = c" "c < c'" by (auto simp: checked_add_def word_less_nat_alt unat_word_ariths split: if_splits)
qed

lemma accounted_request:
  assumes A: "accounted n t" and n: "n + 2 < 2 ^ 64"
  shows "accounted (Suc n) (trace_step ops t (WeRequest operation))"
proof -
  let ?w = "wt_writer t"
  let ?s = "wr_shared ?w"
  note len = accounted_lengths [OF A]
  consider "take_request_id (wr_next_id ?w) = None"
    | c i where "take_request_id (wr_next_id ?w) = Some (c, i)" "\<not> ws_accepting ?s"
    | c i where "take_request_id (wr_next_id ?w) = Some (c, i)" "ws_accepting ?s"
    by (cases "take_request_id (wr_next_id ?w)") auto
  then show ?thesis
  proof cases
    case 1
    then show ?thesis using A by (simp add: trace_step_def accepted_by_def fates_of_def writer_request_def accounted_def Let_def)
  next
    case (2 c i)
    then show ?thesis using A take_request_id_Some [OF 2(1)]
      by (auto simp: trace_step_def accepted_by_def fates_of_def writer_request_def accounted_def Let_def
          intro: less_trans split: worker_point.splits)
  next
    case (3 c i)
    note ci = take_request_id_Some [OF 3(1)]
    have ended: "wr_point ?w \<noteq> WkEnded" using A 3(2) by (auto simp: accounted_def Let_def)
    have sub: "unat (sat_add (ws_submitted ?s) 1) = length (wt_accepted t) + 1"
      using A n by (subst sat_add_one) (auto simp: accounted_def Let_def)
    have sup: "unat (sat_add (ws_superseded ?s) 1) = count_fate Superseded (wt_fates t) + 1"
      using A n len(2) count_fate_le [of Superseded "wt_fates t"] by (subst sat_add_one) (auto simp: accounted_def Let_def)
    have srt: "sorted_wrt (<) (map unat (wt_accepted t @ [i]))"
      using A ci(1) by (auto simp: accounted_def Let_def sorted_wrt_append word_less_nat_alt)
    have bnd: "\<forall>j \<in> set (wt_accepted t @ [i]). j < c"
      using A ci by (auto simp: accounted_def Let_def intro: less_trans)
    show ?thesis
    proof (cases "ws_pending ?s")
      case None
      then show ?thesis using A 3 ci sub srt bnd ended
        by (auto simp: trace_step_def accepted_by_def fates_of_def writer_request_def accounted_def Let_def
            pending_ids_def flight_ids_def split: worker_point.splits)
    next
      case (Some q)
      then show ?thesis using A 3 ci sub sup srt bnd ended
        by (auto simp: trace_step_def accepted_by_def fates_of_def writer_request_def accounted_def Let_def
            pending_ids_def flight_ids_def split: worker_point.splits)
    qed
  qed
qed

lemma accounted_worker:
  assumes A: "accounted n t" and n: "n + 2 < 2 ^ 64"
  shows "accounted (Suc n) (trace_step ops t (WeWorker opened e))"
proof -
  let ?w = "wt_writer t"
  let ?s = "wr_shared ?w"
  note len = accounted_lengths [OF A]
  have failed: "unat (sat_add (ws_failed ?s) 1) = count_fate FailedRequest (wt_fates t) + 1"
    using A n len(2) count_fate_le [of FailedRequest "wt_fates t"] by (subst sat_add_one) (auto simp: accounted_def Let_def)
  show ?thesis
  proof (cases "wr_point ?w")
    case WkStarting
    then show ?thesis using A failed
      by (cases opened; cases "ws_pending ?s")
        (simp_all add: trace_step_def accepted_by_def fates_of_def accounted_def Let_def worker_sections
          pending_ids_def flight_ids_def)
  next
    case WkWaiting
    then show ?thesis using A
      by (cases "ws_pending ?s")
        (simp_all add: trace_step_def accepted_by_def fates_of_def accounted_def Let_def worker_sections
          pending_ids_def flight_ids_def)
  next
    case (WkRunning q)
    then obtain b where b: "wr_backend ?w = Some b" using A by (auto simp: accounted_def Let_def)
    show ?thesis
    proof (cases "wq_operation q")
      case (WoCheckpoint p)
      obtain b' r where a: "bo_append ops e b p = (b', r)" by fastforce
      show ?thesis using A failed WkRunning b WoCheckpoint a
        by (cases r)
          (simp_all add: trace_step_def accepted_by_def fates_of_def accounted_def Let_def worker_sections run_request_def
            pending_ids_def flight_ids_def)
    next
      case WoDiscard
      obtain b' r where a: "bo_discard ops e b = (b', r)" by fastforce
      show ?thesis using A failed WkRunning b WoDiscard a
        by (cases r)
          (simp_all add: trace_step_def accepted_by_def fates_of_def accounted_def Let_def worker_sections run_request_def
            pending_ids_def flight_ids_def)
    qed
  next
    case WkReopening
    then obtain b where b: "wr_backend ?w = Some b" using A by (auto simp: accounted_def Let_def)
    obtain b' r where a: "bo_recover ops e b = (b', r)" by fastforce
    show ?thesis using A WkReopening b a
      by (cases r)
        (simp_all add: trace_step_def accepted_by_def fates_of_def accounted_def Let_def worker_sections
          pending_ids_def flight_ids_def)
  next
    case WkEnded
    then show ?thesis using A by (simp add: trace_step_def accepted_by_def fates_of_def accounted_def Let_def)
  qed
qed

lemma accounted_panic:
  assumes A: "accounted n t" and n: "n + 2 < 2 ^ 64"
  shows "accounted (Suc n) (trace_step ops t WePanic)"
proof -
  let ?w = "wt_writer t"
  let ?s = "wr_shared ?w"
  note len = accounted_lengths [OF A]
  have small: "unat (ws_failed ?s) + k < 2 ^ 64"
    if "k \<le> length (flight_ids ?s) + length (pending_ids ?s)" for k
  proof -
    have "length (wt_accepted t) \<le> n" "unat (ws_failed ?s) \<le> length (wt_fates t)"
      using A count_fate_le [of FailedRequest "wt_fates t"] by (simp_all add: accounted_def Let_def)
    then show ?thesis using len(1) that n by linarith
  qed
  show ?thesis
  proof (cases "wr_point ?w = WkEnded")
    case True
    then show ?thesis using A by (simp add: trace_step_def accepted_by_def fates_of_def accounted_def Let_def)
  next
    case False
    have "unat (sat_add (ws_failed ?s) (of_bool (ws_in_flight ?s \<noteq> None) + of_bool (ws_pending ?s \<noteq> None))) =
        unat (ws_failed ?s) + length (flight_ids ?s) + length (pending_ids ?s)"
      using small [OF le_refl] by (cases "ws_in_flight ?s"; cases "ws_pending ?s") (simp_all add: unat_sat_add flight_ids_def pending_ids_def)
    then show ?thesis using A False
      by (cases "ws_in_flight ?s"; cases "ws_pending ?s")
        (simp_all add: trace_step_def accepted_by_def fates_of_def accounted_def Let_def worker_sections
          pending_ids_def flight_ids_def ac_simps)
  qed
qed

lemma accounted_step:
  assumes "accounted n t" "n + 2 < 2 ^ 64"
  shows "accounted (Suc n) (trace_step ops t ev)"
proof (cases ev)
  case WeShutdown
  then show ?thesis using assms(1)
    by (auto simp: trace_step_def accepted_by_def fates_of_def accounted_def Let_def request_shutdown_def
        pending_ids_def flight_ids_def split: worker_point.splits)
qed (use assms accounted_request accounted_worker accounted_panic in simp_all)

lemma accounted_run: "length evs + 2 < 2 ^ 64 \<Longrightarrow> accounted (length evs) (trace_run ops evs)"
proof (induction evs rule: rev_induct)
  case Nil
  show ?case
    by (simp add: trace_run_def accounted_def Let_def writer_start_def writer_shared_default_def pending_ids_def flight_ids_def)
next
  case (snoc ev evs)
  then show ?case using accounted_step [of "length evs" "trace_run ops evs" ops ev] by (simp add: trace_run_def)
qed

text \<open>C29. Every request accepted by the recovery writer meets exactly one fate: whatever the producer, the
  worker, its journal and a panic interleave, the accepted requests, each once, are those superseded,
  written, discarded or failed, the one in flight and the one pending; the pending one is the newest
  accepted; at most two are open; the counters are exact; and a worker that ended leaves none open.\<close>

theorem every_request_meets_one_fate:
  assumes "length evs + 2 < 2 ^ 64" and "t = trace_run ops evs" and "s = wr_shared (wt_writer t)"
  shows "mset (wt_accepted t) = mset (map fst (wt_fates t)) + mset (flight_ids s) + mset (pending_ids s) \<and>
    distinct (wt_accepted t) \<and>
    (\<forall>q. ws_pending s = Some q \<longrightarrow> wq_id q = last (wt_accepted t)) \<and>
    st_queue_depth (snapshot_status s) \<le> 2 \<and> ws_max_observed_jobs s \<le> 2 \<and>
    unat (ws_submitted s) = length (wt_accepted t) \<and> unat (ws_superseded s) = count_fate Superseded (wt_fates t) \<and>
    unat (ws_failed s) = count_fate FailedRequest (wt_fates t) \<and>
    (wr_point (wt_writer t) = WkEnded \<longrightarrow> mset (wt_accepted t) = mset (map fst (wt_fates t)))"
proof -
  have A: "accounted (length evs) t" using accounted_run assms(1,2) by simp
  have "distinct (map unat (wt_accepted t))" using A by (simp add: accounted_def Let_def strict_sorted_iff)
  then have "distinct (wt_accepted t)" by (simp add: distinct_map)
  then show ?thesis using A assms(3)
    by (auto simp: accounted_def Let_def snapshot_status_def flight_ids_def pending_ids_def)
qed

lemma every_request_meets_one_fate_witness:
  "\<exists>t. t = trace_run (journal_backend demo_sha Inr demo_parse)
       [WeRequest WoDiscard, WeRequest (WoCheckpoint [7]), WePanic] \<and>
     wt_fates t = [(1, Superseded), (2, FailedRequest)] \<and>
     mset (wt_accepted t) = mset (map fst (wt_fates t))"
proof -
  let ?ops = "journal_backend demo_sha Inr demo_parse"
  let ?evs = "[WeRequest WoDiscard, WeRequest (WoCheckpoint [7]), WePanic]"
  have "wt_fates (trace_run ?ops ?evs) = [(1, Superseded), (2, FailedRequest)]"
    "wr_point (wt_writer (trace_run ?ops ?evs)) = WkEnded"
    by (simp_all add: trace_run_def trace_step_def fates_of_def accepted_by_def writer_start_def writer_shared_default_def
        writer_request_def take_request_id_def checked_add_def bump_revision_def worker_panicked_def
        pending_ids_def flight_ids_def)
  moreover have "length ?evs + 2 < 2 ^ 64" by simp
  ultimately show ?thesis using every_request_meets_one_fate [of ?evs, OF _ refl refl, of ?ops] by blast
qed

section \<open>Shutdown\<close>

definition draining :: "('p, 'b) writer \<Rightarrow> bool" where
  "draining w \<longleftrightarrow> \<not> ws_accepting (wr_shared w) \<and> ws_shutdown_requested (wr_shared w) \<and>
     (wr_point w \<noteq> WkStarting \<and> wr_point w \<noteq> WkEnded \<longrightarrow> wr_backend w \<noteq> None)"

definition drain_left :: "('p, 'b) writer \<Rightarrow> nat" where
  "drain_left w =
     (let p = 3 * length (pending_ids (wr_shared w)) in
      case wr_point w of WkStarting \<Rightarrow> p + 2 | WkWaiting \<Rightarrow> p + 1 | WkRunning q \<Rightarrow> p + 3 | WkReopening \<Rightarrow> p + 2 | WkEnded \<Rightarrow> 0)"

definition is_worker_event :: "('p, 'b, 'e) writer_event \<Rightarrow> bool" where
  "is_worker_event ev = (case ev of WeWorker opened e \<Rightarrow> True | _ \<Rightarrow> False)"

lemma drain_left_le: "drain_left w \<le> 6"
  by (cases "wr_point w"; cases "ws_pending (wr_shared w)") (simp_all add: drain_left_def pending_ids_def)

lemma drain_left_zero: "drain_left w = 0 \<longleftrightarrow> wr_point w = WkEnded"
  by (simp add: drain_left_def Let_def split: worker_point.splits)

lemma drain_step:
  assumes "draining w"
  shows "draining (writer_step ops w ev) \<and>
    drain_left (writer_step ops w ev) + of_bool (is_worker_event ev) \<le> max (drain_left w) (of_bool (is_worker_event ev))"
proof (cases ev)
  case (WeRequest operation)
  then show ?thesis using assms
    by (auto simp: draining_def drain_left_def is_worker_event_def writer_request_def split: option.splits prod.splits)
next
  case WeShutdown
  then show ?thesis using assms
    by (auto simp: draining_def drain_left_def is_worker_event_def request_shutdown_def pending_ids_def)
next
  case WePanic
  then show ?thesis using assms
    by (auto simp: draining_def drain_left_def is_worker_event_def worker_panicked_def Let_def split: option.splits)
next
  case (WeWorker opened e)
  show ?thesis
  proof (cases "wr_point w")
    case WkStarting
    then show ?thesis using assms
      by (cases opened; cases "ws_pending (wr_shared w)")
        (auto simp: WeWorker draining_def drain_left_def is_worker_event_def worker_sections pending_ids_def Let_def)
  next
    case WkWaiting
    then show ?thesis using assms
      by (cases "ws_pending (wr_shared w)"; cases "wr_backend w")
        (auto simp: WeWorker draining_def drain_left_def is_worker_event_def worker_sections pending_ids_def Let_def)
  next
    case (WkRunning q)
    then obtain b where b: "wr_backend w = Some b" using assms by (auto simp: draining_def)
    show ?thesis
    proof (cases "wq_operation q")
      case (WoCheckpoint p)
      obtain b' r where "bo_append ops e b p = (b', r)" by fastforce
      then show ?thesis using assms WkRunning b WoCheckpoint
        by (cases r) (auto simp: WeWorker draining_def drain_left_def is_worker_event_def worker_sections run_request_def
            pending_ids_def Let_def)
    next
      case WoDiscard
      obtain b' r where "bo_discard ops e b = (b', r)" by fastforce
      then show ?thesis using assms WkRunning b WoDiscard
        by (cases r) (auto simp: WeWorker draining_def drain_left_def is_worker_event_def worker_sections run_request_def
            pending_ids_def Let_def)
    qed
  next
    case WkReopening
    then obtain b where b: "wr_backend w = Some b" using assms by (auto simp: draining_def)
    obtain b' r where "bo_recover ops e b = (b', r)" by fastforce
    then show ?thesis using assms WkReopening b
      by (cases r) (auto simp: WeWorker draining_def drain_left_def is_worker_event_def worker_sections pending_ids_def Let_def)
  next
    case WkEnded
    then show ?thesis using assms by (auto simp: WeWorker draining_def drain_left_def is_worker_event_def)
  qed
qed

lemma drain_run:
  "draining w \<Longrightarrow>
   drain_left (foldl (writer_step ops) w evs) \<le> drain_left w - length (filter is_worker_event evs)"
proof (induction evs arbitrary: w)
  case (Cons ev evs)
  have "drain_left (foldl (writer_step ops) (writer_step ops w ev) evs) \<le>
      drain_left (writer_step ops w ev) - length (filter is_worker_event evs)"
    using Cons drain_step by blast
  then show ?case using drain_step [OF Cons.prems, of ops ev] by (cases "is_worker_event ev") auto
qed simp

lemma trace_run_writer: "wt_writer (trace_run ops evs) = foldl (writer_step ops) writer_start evs"
  by (induction evs rule: rev_induct) (simp_all add: trace_run_def trace_step_def)

text \<open>C30. A shutdown of the recovery writer drains and returns: from any reachable state, once the shutdown is
  requested, six further sections of the worker - whatever requests, shutdowns, I/O failures or panics
  fall between them - end the worker with every accepted request settled.\<close>

theorem shutdown_drains:
  assumes "length (before @ WeShutdown # after) + 2 < 2 ^ 64"
    and "6 \<le> length (filter is_worker_event after)"
    and "t = trace_run ops (before @ WeShutdown # after)"
  shows "wr_point (wt_writer t) = WkEnded \<and> mset (wt_accepted t) = mset (map fst (wt_fates t))"
proof -
  have A: "accounted (length before) (trace_run ops before)" using assms(1) by (intro accounted_run) simp
  let ?w = "writer_step ops (foldl (writer_step ops) writer_start before) WeShutdown"
  have "draining ?w"
    using A by (cases "wr_point ?w") (auto simp: draining_def request_shutdown_def trace_run_writer accounted_def Let_def)
  then have "drain_left (foldl (writer_step ops) ?w after) \<le> drain_left ?w - length (filter is_worker_event after)"
    by (rule drain_run)
  then have "drain_left (wt_writer t) = 0" using drain_left_le [of ?w] assms(2,3) by (simp add: trace_run_writer)
  then have e: "wr_point (wt_writer t) = WkEnded" by (simp add: drain_left_zero)
  have "accounted (length (before @ WeShutdown # after)) t" using accounted_run assms(1,3) by blast
  then show ?thesis using e by (auto simp: accounted_def Let_def pending_ids_def flight_ids_def)
qed

lemma shutdown_drains_witness:
  "\<exists>t. t = trace_run (journal_backend demo_sha Inr demo_parse)
       ([WeRequest WoDiscard] @ WeShutdown # replicate 6 (WeWorker (Inl JeInvalidLimits) healthy_io)) \<and>
     wr_point (wt_writer t) = WkEnded \<and> mset (wt_accepted t) = mset (map fst (wt_fates t))"
  using shutdown_drains [of "[WeRequest WoDiscard]" "replicate 6 (WeWorker (Inl JeInvalidLimits) healthy_io)" _
      "journal_backend demo_sha Inr demo_parse"]
  by (simp add: is_worker_event_def del: append.simps)

section \<open>What the writer claims to be durable\<close>

text \<open>A discard that fails half-way: it reports an error, but it has already changed the backend (its empty file was
  published).  A discard that fails before it touches anything is harmless.\<close>

definition discard_fails_midway :: "('p, 'b, 'e) backend_ops \<Rightarrow> ('p, 'b) writer \<Rightarrow> ('p, 'b, 'e) writer_event \<Rightarrow> bool" where
  "discard_fails_midway ops w ev =
     (case ev of
        WeWorker opened e \<Rightarrow>
          (case wr_point w of
             WkRunning q \<Rightarrow>
               (case wq_operation q of
                  WoDiscard \<Rightarrow>
                    (case wr_backend w of
                       None \<Rightarrow> False
                     | Some b \<Rightarrow> isl (snd (bo_discard ops e b)) \<and> fst (bo_discard ops e b) \<noteq> b)
                | WoCheckpoint p \<Rightarrow> False)
           | _ \<Rightarrow> False)
      | _ \<Rightarrow> False)"

fun some_discard_fails_midway :: "('p, 'b, 'e) backend_ops \<Rightarrow> ('p, 'b) writer \<Rightarrow> ('p, 'b, 'e) writer_event list \<Rightarrow> bool" where
  "some_discard_fails_midway ops w [] = False"
| "some_discard_fails_midway ops w (ev # evs) =
     (discard_fails_midway ops w ev \<or> some_discard_fails_midway ops (writer_step ops w ev) evs)"

text \<open>
  The contract of a journal backend, stated by a predicate \<open>safe c b\<close>: a checkpoint of sequence \<open>c\<close> or newer
  can be recovered.  A successful append or discard makes the backend's own latest checkpoint safe, and
  neither a failed append nor a reopening endangers what was safe.
\<close>

locale claim_backend =
  fixes ops :: "('p, 'b, 'e) backend_ops" and safe :: "u64 \<Rightarrow> 'b \<Rightarrow> bool"
  assumes append_ok: "safe c b \<Longrightarrow> bo_append ops e b p = (b', Inr r) \<Longrightarrow> safe (scanned_sequence (bo_latest ops b')) b'"
    and append_failed: "safe c b \<Longrightarrow> bo_append ops e b p = (b', Inl err) \<Longrightarrow> safe c b'"
    and discard_ok: "safe c b \<Longrightarrow> bo_discard ops e b = (b', Inr u) \<Longrightarrow> safe (scanned_sequence (bo_latest ops b')) b'"
    and recover_any: "safe c b \<Longrightarrow> bo_recover ops e b = (b', v) \<Longrightarrow> safe c b'"
begin

definition opens_safely :: "('p, 'b, 'e) writer_event \<Rightarrow> bool" where
  "opens_safely ev = (case ev of WeWorker (Inr b) e \<Rightarrow> safe (scanned_sequence (bo_latest ops b)) b | _ \<Rightarrow> True)"

definition claim_ok :: "('p, 'b) writer \<Rightarrow> bool" where
  "claim_ok w \<longleftrightarrow>
     (case wr_backend w of
        None \<Rightarrow> rs_latest (ws_durable_scan (wr_shared w)) = None
      | Some b \<Rightarrow> safe (scanned_sequence (ws_durable_scan (wr_shared w))) b)"

lemma claim_step:
  assumes C: "claim_ok w" and o: "opens_safely ev" and d: "\<not> discard_fails_midway ops w ev"
  shows "claim_ok (writer_step ops w ev)"
proof (cases ev)
  case (WeRequest operation)
  have "ws_durable_scan (snd (fst (writer_request operation ns))) = ws_durable_scan (snd ns)" for ns
    by (auto simp: writer_request_def Let_def split: prod.splits option.splits)
  from this [of "(wr_next_id w, wr_shared w)"] show ?thesis using C
    by (auto simp: WeRequest claim_ok_def split: prod.splits option.splits)
next
  case WeShutdown
  then show ?thesis using C by (auto simp: claim_ok_def request_shutdown_def split: option.splits)
next
  case WePanic
  then show ?thesis using C
    by (auto simp: claim_ok_def worker_panicked_def Let_def split: option.splits)
next
  case (WeWorker opened e)
  show ?thesis
  proof (cases "wr_point w")
    case WkStarting
    then show ?thesis using C o
      by (cases opened; cases "ws_pending (wr_shared w)"; cases "wr_backend w")
        (simp_all add: WeWorker claim_ok_def opens_safely_def worker_sections Let_def)
  next
    case WkWaiting
    then show ?thesis using C
      by (cases "ws_pending (wr_shared w)"; cases "wr_backend w") (simp_all add: WeWorker claim_ok_def worker_sections)
  next
    case (WkRunning q)
    show ?thesis
    proof (cases "wr_backend w")
      case None
      then show ?thesis using C WkRunning by (simp add: WeWorker)
    next
      case (Some b)
      then have s: "safe (scanned_sequence (ws_durable_scan (wr_shared w))) b" using C by (simp add: claim_ok_def)
      show ?thesis
      proof (cases "wq_operation q")
        case (WoCheckpoint p)
        obtain b' r where a: "bo_append ops e b p = (b', r)" by fastforce
        then show ?thesis using s WkRunning Some WoCheckpoint append_ok [OF s] append_failed [OF s]
          by (cases r) (simp_all add: WeWorker claim_ok_def run_request_def worker_sections)
      next
        case WoDiscard
        obtain b' r where a: "bo_discard ops e b = (b', r)" by fastforce
        then show ?thesis using s WkRunning Some WoDiscard discard_ok [OF s] d
          by (cases r) (simp_all add: WeWorker claim_ok_def run_request_def worker_sections discard_fails_midway_def)
      qed
    qed
  next
    case WkReopening
    show ?thesis
    proof (cases "wr_backend w")
      case None
      then show ?thesis using C WkReopening by (simp add: WeWorker)
    next
      case (Some b)
      then have s: "safe (scanned_sequence (ws_durable_scan (wr_shared w))) b" using C by (simp add: claim_ok_def)
      obtain b' r where a: "bo_recover ops e b = (b', r)" by fastforce
      then show ?thesis using s WkReopening Some recover_any [OF s]
        by (cases r) (simp_all add: WeWorker claim_ok_def worker_sections)
    qed
  next
    case WkEnded
    then show ?thesis using C by (simp add: WeWorker)
  qed
qed

lemma claim_run:
  "claim_ok w \<Longrightarrow> \<forall>ev \<in> set evs. opens_safely ev \<Longrightarrow> \<not> some_discard_fails_midway ops w evs \<Longrightarrow>
   claim_ok (foldl (writer_step ops) w evs)"
  by (induction evs arbitrary: w) (auto intro: claim_step)

lemma claim_start: "claim_ok writer_start"
  by (simp add: claim_ok_def writer_start_def writer_shared_default_def)

end

text \<open>The journal meets the contract, also while it is out of step with its file.\<close>

lemma scan_loop_grows:
  "previous = scanned_sequence s \<Longrightarrow>
   scanned_sequence (scan_loop sha parse limits ov bs offset previous s) \<le>
   scanned_sequence (scan_loop sha parse limits ov' (bs @ t) offset previous s)"
proof (induction sha parse limits ov bs offset previous s rule: scan_loop.induct)
  case (1 sha parse limits ov bs offset previous s)
  note grow = scan_loop_mono [of previous s sha parse limits ov' "bs @ t" offset]
  show ?case
  proof (cases "offset < length bs \<and> rs_valid_entries s \<noteq> rl_max_entries limits")
    case False
    then have "scanned_sequence (scan_loop sha parse limits ov bs offset previous s) = scanned_sequence s"
      by (auto simp: scan_loop.simps [of sha parse limits ov bs offset previous s] scanned_sequence_def)
    then show ?thesis using grow "1.prems" by simp
  next
    case True
    show ?thesis
    proof (cases "scan_record sha parse limits ov bs offset previous")
      case (Inl x)
      then have "scanned_sequence (scan_loop sha parse limits ov bs offset previous s) = scanned_sequence s"
        using True by (cases x) (auto simp: scan_loop.simps [of sha parse limits ov bs offset previous s] scanned_sequence_def)
      then show ?thesis using grow "1.prems" by simp
    next
      case (Inr x)
      then obtain ck e where r: "scan_record sha parse limits ov bs offset previous = Inr (ck, e)" by (cases x) auto
      let ?s = "s\<lparr>rs_valid_entries := rs_valid_entries s + 1, rs_valid_bytes := of_nat e, rs_latest := Some ck\<rparr>"
      have "scanned_sequence (scan_loop sha parse limits ov bs e (ck_sequence ck) ?s) \<le>
          scanned_sequence (scan_loop sha parse limits ov' (bs @ t) e (ck_sequence ck) ?s)"
        using True by (intro "1.IH" [OF _ _ r refl]) (simp_all add: scanned_sequence_def)
      then show ?thesis
        using True r scan_record_append [OF r, of ov' t]
        by (simp add: scan_loop.simps [of sha parse limits ov bs offset previous s]
            scan_loop.simps [of sha parse limits ov' "bs @ t" offset previous s])
    qed
  qed
qed

definition journal_safe ::
  "(bytes \<Rightarrow> bytes) \<Rightarrow> (bytes \<Rightarrow> rstr + 'p) \<Rightarrow> u64 \<Rightarrow> 'p recovery_journal \<times> journal_file \<Rightarrow> bool" where
  "journal_safe sha parse c jf \<longleftrightarrow>
     digest32 sha \<and> limits_ok (rj_limits (fst jf)) \<and>
     (\<exists>s. scan_path sha parse None (snd jf) (rj_limits (fst jf)) = Inr s \<and> c \<le> scanned_sequence s) \<and>
     (c < rj_next_sequence (fst jf) \<or> rj_next_sequence (fst jf) = 0)"

lemma next_after_greater: "next_after c \<noteq> 0 \<Longrightarrow> c < next_after c"
  by (auto simp: next_after_def checked_add_def word_less_nat_alt unat_word_ariths split: if_splits)

lemma publish_keeps_safe:
  assumes S: "journal_safe sha parse c (j, disk)"
    and prep: "prepare_record sha print parse j patch = Inr (payload, r)"
    and pub: "(if must_compact j disk r then write_atomic_replacement ro disk r else append_record ao disk r) = (disk', res)"
  shows "journal_safe sha parse c (j, disk')"
proof -
  from prep obtain p where p: "parse payload = Inr p" "rj_next_sequence j \<noteq> 0"
    "length payload \<le> rl_max_payload_bytes (rj_limits j)" "length payload < 2 ^ 32"
    "r = record_bytes sha (rj_next_sequence j) payload"
    by (rule prepare_record_spec)
  have d: "digest32 sha" and l: "limits_ok (rj_limits j)" and c: "c < rj_next_sequence j"
    using S p(2) by (auto simp: journal_safe_def)
  obtain s where s: "scan_path sha parse None disk (rj_limits j) = Inr s" "c \<le> scanned_sequence s"
    using S by (auto simp: journal_safe_def)
  show ?thesis
  proof (cases "must_compact j disk r")
    case True
    then have "disk' = disk \<or> disk' = Some r"
      using pub by (auto simp: write_atomic_replacement_def split: replace_outcome.splits)
    moreover have "journal_safe sha parse c (j, Some r)"
      using scan_replaced [where parse = parse and payload = payload and p = p, OF d l p(2,1,3,4)] p(5) d l c
      by (simp add: journal_safe_def scanned_sequence_def)
    ultimately show ?thesis using S by auto
  next
    case False
    then obtain content where k: "disk = Some content"
      "length content + length r \<le> unat (rl_max_file_bytes (rj_limits j))"
      using must_compact_append by metis
    have "\<exists>t. disk' = Some (content @ t) \<and> length t \<le> length r"
      using pub False k(1) by (auto simp: append_record_def split: append_outcome.splits)
    then obtain t where t: "disk' = Some (content @ t)" "length t \<le> length r" by blast
    have f: "fits (rj_limits j) content" "fits (rj_limits j) (content @ t)" using k(2) t(2) by (simp_all add: fits_def)
    have "c \<le> scanned_sequence (scan_loop sha parse (rj_limits j) False (content @ t) 0 0 scan_default)"
      using s scan_loop_grows [of 0 scan_default sha parse "rj_limits j" False content 0 False t]
        scan_path_fits [OF l f(1), of sha parse] k(1) by auto
    then show ?thesis using S c scan_path_fits [OF l f(2), of sha parse] by (simp add: journal_safe_def t(1))
  qed
qed

lemma append_safe:
  assumes S: "journal_safe sha parse c (j, disk)"
    and a: "append_patch sha print parse io (j, disk) patch = ((j', disk'), r)"
  shows "journal_safe sha parse (case r of Inl e \<Rightarrow> c | Inr receipt \<Rightarrow> scanned_sequence (rj_scan j')) (j', disk')"
proof (cases "prepare_record sha print parse j patch")
  case (Inl e)
  then show ?thesis using a S by (auto simp: append_patch_def)
next
  case (Inr x)
  obtain payload rec where prep: "prepare_record sha print parse j patch = Inr (payload, rec)" using Inr by (cases x) auto
  obtain d1 res where pub: "(if must_compact j disk rec then write_atomic_replacement (io_replace io) disk rec
      else append_record (io_append io) disk rec) = (d1, res)" by fastforce
  note safe = publish_keeps_safe [OF S prep pub]
  have limits: "limits_ok (rj_limits j)" "digest32 sha" using S by (simp_all add: journal_safe_def)
  show ?thesis
  proof (cases r)
    case (Inl e)
    have "disk' = d1 \<and> rj_limits j' = rj_limits j \<and> rj_next_sequence j' = rj_next_sequence j"
      using a prep pub Inl by (auto simp: append_patch_def Let_def split: sum.splits option.splits if_splits)
    then show ?thesis using safe Inl by (simp add: journal_safe_def)
  next
    case (Inr receipt)
    have q: "disk' = d1" "scan_path sha parse (io_read_fault io) d1 (rj_limits j) = Inr (rj_scan j')"
      "rj_limits j' = rj_limits j" "rj_next_sequence j' = next_after (rj_next_sequence j)"
      "scanned_sequence (rj_scan j') = rj_next_sequence j"
      using a prep pub Inr by (auto simp: append_patch_def Let_def scanned_sequence_def split: sum.splits option.splits if_splits)
    have "scan_path sha parse None d1 (rj_limits j) = Inr (rj_scan j')"
      using q(2) by (auto simp: scan_path_def split: option.splits prod.splits)
    then show ?thesis using q limits Inr next_after_greater [of "rj_next_sequence j"]
      by (auto simp: journal_safe_def)
  qed
qed

interpretation journal_claims: claim_backend "journal_backend sha print parse" "journal_safe sha parse"
  for sha print parse
proof
  fix c b e p b' r
  assume "journal_safe sha parse c b" "bo_append (journal_backend sha print parse) e b p = (b', Inr r)"
  then show "journal_safe sha parse (scanned_sequence (bo_latest (journal_backend sha print parse) b')) b'"
    using append_safe [of sha parse c "fst b" "snd b" print e p "fst b'" "snd b'" "Inr r"] by (simp add: journal_backend_def)
next
  fix c b e p b' err
  assume "journal_safe sha parse c b" "bo_append (journal_backend sha print parse) e b p = (b', Inl err)"
  then show "journal_safe sha parse c b'"
    using append_safe [of sha parse c "fst b" "snd b" print e p "fst b'" "snd b'" "Inl err"] by (simp add: journal_backend_def)
next
  fix c b e b' u
  assume "journal_safe sha parse c b" "bo_discard (journal_backend sha print parse) e b = (b', Inr u)"
  then show "journal_safe sha parse (scanned_sequence (bo_latest (journal_backend sha print parse) b')) b'"
    by (auto simp: journal_backend_def journal_discard_def journal_safe_def write_atomic_replacement_def scan_path_def
        split: prod.splits sum.splits replace_outcome.splits)
next
  fix c b e b' v
  assume S: "journal_safe sha parse c b" and r: "bo_recover (journal_backend sha print parse) e b = (b', v)"
  obtain j disk where b: "b = (j, disk)" by fastforce
  show "journal_safe sha parse c b'"
  proof (cases "open_with_limits sha parse (io_read_fault e) disk (rj_limits j)")
    case (Inl err)
    then show ?thesis using S r by (auto simp: journal_backend_def recover_after_failure_def b)
  next
    case (Inr j2)
    then have b': "b' = (j2, disk)" using r by (auto simp: journal_backend_def recover_after_failure_def b)
    have "in_sync sha parse (j2, disk)" "rj_limits j2 = rj_limits j" using open_in_sync [OF Inr] by simp_all
    then show ?thesis using S next_sequence_follows [of "rj_scan j2"]
      by (auto simp: journal_safe_def in_sync_def b b')
  qed
qed

lemma journal_backend_latest [simp]: "bo_latest (journal_backend sha print parse) jf = rj_scan (fst jf)"
  by (simp add: journal_backend_def)

text \<open>C7. The writer never claims more than the disk gives back: in every interleaving, with every kind of
  I/O failure, whatever checkpoint the writer reports as durable, the journal file then recovers a
  checkpoint of that sequence or a newer one.  The one exception is a discard that failed half-way, after its
  empty file had already replaced the old one; a discard that failed before that is covered.\<close>

theorem durable_claim_is_on_disk:
  assumes "digest32 sha" and "limits_ok l"
    and "\<forall>jf io. WeWorker (Inr jf) io \<in> set evs \<longrightarrow> open_with_limits sha parse None (snd jf) l = Inr (fst jf)"
    and "\<not> some_discard_fails_midway (journal_backend sha print parse) writer_start evs"
    and "w = foldl (writer_step (journal_backend sha print parse)) writer_start evs"
    and "rs_latest (ws_durable_scan (wr_shared w)) = Some ck"
  shows "\<exists>j disk s. wr_backend w = Some (j, disk) \<and> scan_path sha parse None disk (rj_limits j) = Inr s \<and>
    ck_sequence ck \<le> scanned_sequence s"
proof -
  have opened: "journal_claims.opens_safely sha print parse ev" if "ev \<in> set evs" for ev
  proof (cases ev)
    case (WeWorker opened io)
    show ?thesis
    proof (cases opened)
      case (Inr jf)
      then have "open_with_limits sha parse None (snd jf) l = Inr (fst jf)" using assms(3) that WeWorker by blast
      then have "in_sync sha parse jf" "rj_limits (fst jf) = l" using open_in_sync by fastforce+
      then show ?thesis using assms(1,2) next_sequence_follows [of "rj_scan (fst jf)"] WeWorker Inr
        by (auto simp: journal_claims.opens_safely_def journal_safe_def in_sync_def)
    qed (simp add: WeWorker journal_claims.opens_safely_def)
  qed (simp_all add: journal_claims.opens_safely_def)
  have "journal_claims.claim_ok sha parse w"
    unfolding assms(5) using opened assms(4) by (intro journal_claims.claim_run journal_claims.claim_start) auto
  then obtain j disk s where "wr_backend w = Some (j, disk)" "scan_path sha parse None disk (rj_limits j) = Inr s"
    "scanned_sequence (ws_durable_scan (wr_shared w)) \<le> scanned_sequence s"
    using assms(6) by (auto simp: journal_claims.claim_ok_def journal_safe_def split: option.splits)
  then show ?thesis using assms(6) by (auto simp: scanned_sequence_def split: option.splits)
qed

lemma durable_claim_is_on_disk_witness:
  "\<exists>w ck j disk s. w = foldl (writer_step (journal_backend demo_sha Inr demo_parse)) writer_start
       [WeRequest (WoCheckpoint [7]), WeWorker (Inr (demo_journal, None)) healthy_io,
        WeWorker (Inr (demo_journal, None)) healthy_io, WeWorker (Inr (demo_journal, None)) healthy_io] \<and>
     rs_latest (ws_durable_scan (wr_shared w)) = Some ck \<and>
     wr_backend w = Some (j, disk) \<and> scan_path demo_sha demo_parse None disk (rj_limits j) = Inr s \<and>
     ck_sequence ck \<le> scanned_sequence s"
proof -
  let ?ops = "journal_backend demo_sha Inr demo_parse"
  let ?work = "WeWorker (Inr (demo_journal, None)) healthy_io"
  let ?evs = "[WeRequest (WoCheckpoint [7]), ?work, ?work, ?work]"
  obtain j1 d1 receipt where a: "append_patch demo_sha Inr demo_parse healthy_io (demo_journal, None) [7] = ((j1, d1), Inr receipt)"
    and latest: "rs_latest (rj_scan j1) \<noteq> None"
    by (rule demo_append_latest)
  have pre: "foldl (writer_step ?ops) writer_start [WeRequest (WoCheckpoint [7]), ?work, ?work] = w1 \<Longrightarrow>
      wr_point w1 = WkRunning \<lparr>wq_id = 1, wq_operation = WoCheckpoint [7]\<rparr> \<and> wr_backend w1 = Some (demo_journal, None)" for w1
    by (auto simp: writer_start_def writer_shared_default_def writer_request_def take_request_id_def checked_add_def
        worker_ready_def worker_take_def bump_revision_def)
  obtain ck where ck: "rs_latest (ws_durable_scan (wr_shared (foldl (writer_step ?ops) writer_start ?evs))) = Some ck"
    using pre [OF refl] a latest by (auto simp: run_request_def worker_checkpointed_def journal_backend_def)
  have opens: "open_with_limits demo_sha demo_parse None None recovery_limits_default = Inr demo_journal"
    using default_limits_ok
    by (simp add: open_with_limits_def limits_ok_def rbind_Inr demo_journal_def scan_path_def next_sequence_of_def)
  have nd: "\<not> some_discard_fails_midway ?ops writer_start ?evs"
    using pre [OF refl]
    by (simp add: discard_fails_midway_def writer_start_def writer_shared_default_def writer_request_def take_request_id_def
        checked_add_def worker_ready_def worker_take_def bump_revision_def)
  have healthy: "\<forall>jf io. WeWorker (Inr jf) io \<in> set ?evs \<longrightarrow>
      open_with_limits demo_sha demo_parse None (snd jf) recovery_limits_default = Inr (fst jf)"
    using opens by simp
  show ?thesis
    using durable_claim_is_on_disk [OF demo_sha_digest default_limits_ok healthy nd refl ck] ck by blast
qed

text \<open>The premise about discards is needed: when the directory sync of a discard fails after its empty file was
  published, the writer still reports the checkpoint as durable, although the file holds none.\<close>

lemma failed_discard_leaves_the_claim:
  assumes "wr_point w = WkRunning \<lparr>wq_id = i, wq_operation = WoDiscard\<rparr>" and "wr_backend w = Some (j, disk)"
    and "io_replace io = ReplaceDone" and "io_sync_parent io = Some e"
    and "w' = writer_step (journal_backend sha print parse) w (WeWorker opened io)"
  shows "ws_durable_scan (wr_shared w') = ws_durable_scan (wr_shared w) \<and> wr_backend w' = Some (j, Some [])"
  using assms by (simp add: run_request_def journal_backend_def journal_discard_def write_atomic_replacement_def
      sync_parent_def worker_failed_def)

end
