(* ===== verification/Image_Graph.thy ===== *)
theory Image_Graph
  imports Image_Routing "HOL-Library.AList"
begin

text \<open>
  The image dependency graph of \<open>src/src/visual_rack.rs\<close>: scopes that produce and consume images, taps
  of the current or of the previous frame, ordering edges, and the validation that rejects
  same-frame cycles and orders producers before consumers.  \<open>BTreeMap\<close>s are association lists in key
  order and \<open>BTreeSet\<close>s sorted lists without repetition.  A panic (an \<open>expect\<close> that fails, a degree below
  zero) is the value \<open>None\<close>.
\<close>

section \<open>Scopes and edges\<close>

datatype visual_scope = ScMaster | ScLayer stable_layer_id | ScGroup group_id | ScProgram

text \<open>The derived order: constructors in declaration order, then the identity.\<close>

fun scope_rank :: "visual_scope \<Rightarrow> nat" where
  "scope_rank ScMaster = 0" | "scope_rank (ScLayer i) = 1" | "scope_rank (ScGroup i) = 2" | "scope_rank ScProgram = 3"

fun scope_ident :: "visual_scope \<Rightarrow> u64" where
  "scope_ident ScMaster = 0" | "scope_ident (ScLayer i) = i" | "scope_ident (ScGroup i) = i" | "scope_ident ScProgram = 0"

lemma scope_key_inject: "scope_rank a = scope_rank b \<Longrightarrow> scope_ident a = scope_ident b \<Longrightarrow> a = b"
  by (cases a; cases b) auto

instantiation visual_scope :: linorder
begin

definition less_eq_visual_scope :: "visual_scope \<Rightarrow> visual_scope \<Rightarrow> bool" where
  "less_eq_visual_scope a b \<longleftrightarrow>
     scope_rank a < scope_rank b \<or> scope_rank a = scope_rank b \<and> scope_ident a \<le> scope_ident b"

definition less_visual_scope :: "visual_scope \<Rightarrow> visual_scope \<Rightarrow> bool" where
  "less_visual_scope a b \<longleftrightarrow>
     scope_rank a < scope_rank b \<or> scope_rank a = scope_rank b \<and> scope_ident a < scope_ident b"

instance
  by standard (auto simp: less_eq_visual_scope_def less_visual_scope_def intro: scope_key_inject)

end

datatype edge_timing = CurrentFrame | PreviousFrame

record image_dependency =
  dep_consumer :: visual_scope
  dep_producer :: visual_scope
  dep_timing :: edge_timing

record ordering_edge =
  oe_producer :: visual_scope
  oe_consumer :: visual_scope

datatype graph_mode = GmAdvanced | GmLegacyM1TransparentProgram

datatype graph_diagnostic =
    GdMissingProducer visual_scope visual_scope
  | GdLegacyCurrentProgramTransparent visual_scope

datatype graph_error =
    GeTooManyScopes nat nat
  | GeTooManyDependencies nat nat
  | GeTooManyCurrentTaps nat nat
  | GeTooManyPreviousTaps nat nat
  | GeDuplicateScope visual_scope
  | GeMissingConsumer visual_scope
  | GeCurrentProgramInput visual_scope
  | GeCurrentCycle "visual_scope list"

record graph_plan =
  gp_order :: "visual_scope list"
  gp_current_taps :: nat
  gp_previous_taps :: nat
  gp_diagnostics :: "graph_diagnostic list"

definition MAX_CURRENT_IMAGE_TAPS :: nat where "MAX_CURRENT_IMAGE_TAPS = 64"
definition MAX_PREVIOUS_IMAGE_TAPS :: nat where "MAX_PREVIOUS_IMAGE_TAPS = 8"
definition MAX_IMAGE_DEPENDENCIES :: nat where
  "MAX_IMAGE_DEPENDENCIES = MAX_CURRENT_IMAGE_TAPS + MAX_PREVIOUS_IMAGE_TAPS"
definition MAX_GRAPH_SCOPES :: nat where "MAX_GRAPH_SCOPES = 274"

section \<open>Collecting edges\<close>

text \<open>The scopes in set order; the first repeated one is an error.\<close>

fun insert_scopes :: "visual_scope list \<Rightarrow> visual_scope list \<Rightarrow> graph_error + visual_scope list" where
  "insert_scopes known [] = Inr known"
| "insert_scopes known (s # ss) =
     (if s \<in> set known then Inl (GeDuplicateScope s) else insert_scopes (insort s known) ss)"

record edge_state =
  eg_current :: nat
  eg_previous :: nat
  eg_diagnostics :: "graph_diagnostic list"
  eg_adjacency :: "(visual_scope \<times> visual_scope list) list"
  eg_indegree :: "(visual_scope \<times> nat) list"

definition edges_start :: "visual_scope list \<Rightarrow> edge_state" where
  "edges_start known = \<lparr>eg_current = 0, eg_previous = 0, eg_diagnostics = [],
     eg_adjacency = map (\<lambda>s. (s, [])) known, eg_indegree = map (\<lambda>s. (s, 0)) known\<rparr>"

definition link_scopes :: "visual_scope \<Rightarrow> visual_scope \<Rightarrow> edge_state \<Rightarrow> edge_state option" where
  "link_scopes producer consumer st =
     (case map_of (eg_adjacency st) producer of
        None \<Rightarrow> None
      | Some consumers \<Rightarrow>
          if consumer \<in> set consumers then Some st
          else (case map_of (eg_indegree st) consumer of
             None \<Rightarrow> None
           | Some degree \<Rightarrow>
               Some (st\<lparr>eg_adjacency := AList.update producer (insort consumer consumers) (eg_adjacency st),
                        eg_indegree := AList.update consumer (degree + 1) (eg_indegree st)\<rparr>)))"

text \<open>What both loops do with a same-frame edge; \<open>tap\<close> is 1 where the edge counts as a tap.\<close>

definition collect_edge ::
  "visual_scope list \<Rightarrow> graph_mode \<Rightarrow> nat \<Rightarrow> visual_scope \<Rightarrow> visual_scope \<Rightarrow> edge_state \<Rightarrow>
   (graph_error + edge_state) option" where
  "collect_edge known mode tap producer consumer st =
     (if producer = ScProgram then
        (if mode = GmAdvanced then Some (Inl (GeCurrentProgramInput consumer))
         else Some (Inr (st\<lparr>eg_diagnostics := eg_diagnostics st @ [GdLegacyCurrentProgramTransparent consumer]\<rparr>)))
      else if producer \<notin> set known
      then Some (Inr (st\<lparr>eg_diagnostics := eg_diagnostics st @ [GdMissingProducer consumer producer]\<rparr>))
      else map_option Inr (link_scopes producer consumer (st\<lparr>eg_current := eg_current st + tap\<rparr>)))"

fun collect_dependencies ::
  "visual_scope list \<Rightarrow> graph_mode \<Rightarrow> image_dependency list \<Rightarrow> edge_state \<Rightarrow> (graph_error + edge_state) option" where
  "collect_dependencies known mode [] st = Some (Inr st)"
| "collect_dependencies known mode (d # ds) st =
     (if dep_consumer d \<notin> set known then Some (Inl (GeMissingConsumer (dep_consumer d)))
      else if dep_timing d = PreviousFrame
      then collect_dependencies known mode ds (st\<lparr>eg_previous := eg_previous st + 1\<rparr>)
      else (case collect_edge known mode 1 (dep_producer d) (dep_consumer d) st of
              None \<Rightarrow> None
            | Some (Inl e) \<Rightarrow> Some (Inl e)
            | Some (Inr st') \<Rightarrow> collect_dependencies known mode ds st'))"

fun collect_ordering ::
  "visual_scope list \<Rightarrow> graph_mode \<Rightarrow> ordering_edge list \<Rightarrow> edge_state \<Rightarrow> (graph_error + edge_state) option" where
  "collect_ordering known mode [] st = Some (Inr st)"
| "collect_ordering known mode (d # ds) st =
     (if oe_consumer d \<notin> set known then Some (Inl (GeMissingConsumer (oe_consumer d)))
      else (case collect_edge known mode 0 (oe_producer d) (oe_consumer d) st of
              None \<Rightarrow> None
            | Some (Inl e) \<Rightarrow> Some (Inl e)
            | Some (Inr st') \<Rightarrow> collect_ordering known mode ds st'))"

section \<open>Ordering\<close>

type_synonym kahn_state = "(visual_scope \<times> nat) list \<times> visual_scope list"

text \<open>One scope was ordered: its consumers lose a degree, and those without any become ready.\<close>

fun release_consumers :: "visual_scope list \<Rightarrow> kahn_state \<Rightarrow> kahn_state option" where
  "release_consumers [] st = Some st"
| "release_consumers (c # cs) (indegree, ready) =
     (case map_of indegree c of
        Some (Suc d) \<Rightarrow>
          release_consumers cs (AList.update c d indegree, if d = 0 then insort_insert c ready else ready)
      | _ \<Rightarrow> None)"

lemma update_degree_sum:
  "map_of m k = Some (Suc d) \<Longrightarrow> Suc (\<Sum>x\<leftarrow>AList.update k d m. snd x) = (\<Sum>x\<leftarrow>m. snd x)"
  by (induction m) (auto split: if_splits)

lemma length_insort_insert: "length (insort_insert x xs) \<le> Suc (length xs)"
  by (simp add: insort_insert_key_def)

lemma release_measure:
  "release_consumers cs (i, r) = Some (i', r') \<Longrightarrow>
   (\<Sum>x\<leftarrow>i'. snd x) + length r' \<le> (\<Sum>x\<leftarrow>i. snd x) + length r"
proof (induction cs arbitrary: i r)
  case (Cons c cs)
  from Cons.prems obtain d where d: "map_of i c = Some (Suc d)"
    and rest: "release_consumers cs (AList.update c d i, if d = 0 then insort_insert c r else r) = Some (i', r')"
    by (auto split: option.splits nat.splits)
  show ?case
    using Cons.IH [OF rest] update_degree_sum [OF d] length_insort_insert [of c r] by (auto split: if_splits)
qed simp

function order_scopes ::
  "(visual_scope \<times> visual_scope list) list \<Rightarrow> kahn_state \<Rightarrow> visual_scope list \<Rightarrow>
   ((visual_scope \<times> nat) list \<times> visual_scope list) option" where
  "order_scopes adjacency (indegree, ready) order =
     (case ready of
        [] \<Rightarrow> Some (indegree, order)
      | s # rest \<Rightarrow>
          (case map_of adjacency s of
             None \<Rightarrow> None
           | Some consumers \<Rightarrow>
               (case release_consumers consumers (indegree, rest) of
                  None \<Rightarrow> None
                | Some st \<Rightarrow> order_scopes adjacency st (order @ [s]))))"
  by pat_completeness auto
termination
  by (relation "measure (\<lambda>(adjacency, (indegree, ready), order). (\<Sum>x\<leftarrow>indegree. snd x) + length ready)")
    (auto dest!: release_measure)

declare order_scopes.simps [simp del]

definition validate_with_ordering_edges ::
  "visual_scope list \<Rightarrow> image_dependency list \<Rightarrow> ordering_edge list \<Rightarrow> graph_mode \<Rightarrow>
   (graph_error + graph_plan) option" where
  "validate_with_ordering_edges scopes dependencies ordering_edges mode =
     (if MAX_GRAPH_SCOPES < length scopes then Some (Inl (GeTooManyScopes (length scopes) MAX_GRAPH_SCOPES))
      else if MAX_IMAGE_DEPENDENCIES < length dependencies
      then Some (Inl (GeTooManyDependencies (length dependencies) MAX_IMAGE_DEPENDENCIES))
      else case insert_scopes [] (scopes @ [ScProgram]) of
        Inl e \<Rightarrow> Some (Inl e)
      | Inr known \<Rightarrow>
          (case collect_dependencies known mode dependencies (edges_start known) of
             None \<Rightarrow> None
           | Some (Inl e) \<Rightarrow> Some (Inl e)
           | Some (Inr st) \<Rightarrow>
               if MAX_CURRENT_IMAGE_TAPS < eg_current st
               then Some (Inl (GeTooManyCurrentTaps (eg_current st) MAX_CURRENT_IMAGE_TAPS))
               else if MAX_PREVIOUS_IMAGE_TAPS < eg_previous st
               then Some (Inl (GeTooManyPreviousTaps (eg_previous st) MAX_PREVIOUS_IMAGE_TAPS))
               else (case collect_ordering known mode ordering_edges st of
                  None \<Rightarrow> None
                | Some (Inl e) \<Rightarrow> Some (Inl e)
                | Some (Inr st') \<Rightarrow>
                    (case order_scopes (eg_adjacency st')
                        (eg_indegree st', map fst (filter (\<lambda>x. snd x = 0) (eg_indegree st'))) [] of
                       None \<Rightarrow> None
                     | Some (indegree, order) \<Rightarrow>
                         if length order \<noteq> length known
                         then Some (Inl (GeCurrentCycle (map fst (filter (\<lambda>x. snd x \<noteq> 0) indegree))))
                         else Some (Inr \<lparr>gp_order = order, gp_current_taps = eg_current st',
                                gp_previous_taps = eg_previous st', gp_diagnostics = eg_diagnostics st'\<rparr>)))))"

definition graph_validate ::
  "visual_scope list \<Rightarrow> image_dependency list \<Rightarrow> graph_mode \<Rightarrow> (graph_error + graph_plan) option" where
  "graph_validate scopes dependencies mode = validate_with_ordering_edges scopes dependencies [] mode"

end
