(* ===== verification/Image_Graph_Laws.thy ===== *)
theory Image_Graph_Laws
  imports Image_Graph
begin

text \<open>
  What the image graph promises: validation accepts exactly the bounded graphs without a same-frame
  cycle, its order is the one that always takes the least scope whose producers are all done, and a
  refusal names exactly the scopes that a cycle feeds.
\<close>

section \<open>The graph that a list of dependencies means\<close>

text \<open>A same-frame edge counts when both its ends are known; a current tap of the program or of a
  scope that is not there is left out.\<close>

definition live_dependency :: "visual_scope set \<Rightarrow> image_dependency \<Rightarrow> bool" where
  "live_dependency known d \<longleftrightarrow>
     dep_timing d = CurrentFrame \<and> dep_producer d \<noteq> ScProgram \<and> dep_producer d \<in> known"

definition current_edges ::
  "visual_scope set \<Rightarrow> image_dependency list \<Rightarrow> ordering_edge list \<Rightarrow> (visual_scope \<times> visual_scope) set" where
  "current_edges known dependencies extra =
     {(dep_producer d, dep_consumer d) | d. d \<in> set dependencies \<and> live_dependency known d} \<union>
     {(oe_producer d, oe_consumer d) | d. d \<in> set extra \<and> oe_producer d \<noteq> ScProgram \<and> oe_producer d \<in> known}"

definition current_taps_of :: "visual_scope set \<Rightarrow> image_dependency list \<Rightarrow> nat" where
  "current_taps_of known dependencies = length (filter (live_dependency known) dependencies)"

definition previous_taps_of :: "image_dependency list \<Rightarrow> nat" where
  "previous_taps_of dependencies = length (filter (\<lambda>d. dep_timing d = PreviousFrame) dependencies)"

text \<open>Scopes that a same-frame cycle feeds, directly or through other scopes.\<close>

definition fed_by_cycle :: "(visual_scope \<times> visual_scope) set \<Rightarrow> visual_scope \<Rightarrow> bool" where
  "fed_by_cycle E s \<longleftrightarrow> (\<exists>t. (t, t) \<in> E\<^sup>+ \<and> (t, s) \<in> E\<^sup>*)"

lemma fed_by_cycle_step: "fed_by_cycle E s \<Longrightarrow> (s, t) \<in> E \<Longrightarrow> fed_by_cycle E t"
  by (auto simp: fed_by_cycle_def intro: rtrancl.rtrancl_into_rtrancl)

lemma acyclic_not_fed: "acyclic E \<Longrightarrow> \<not> fed_by_cycle E s"
  by (auto simp: fed_by_cycle_def acyclic_def)

lemma closed_under_producers_fed:
  assumes "finite E" "finite R" "s \<in> R" and pred: "\<And>x. x \<in> R \<Longrightarrow> \<exists>y \<in> R. (y, x) \<in> E"
  shows "fed_by_cycle E s"
proof -
  let ?A = "{x \<in> R. (x, s) \<in> E\<^sup>*}"
  let ?E = "E \<inter> ?A \<times> ?A"
  have "\<not> acyclic ?E"
  proof
    assume "acyclic ?E"
    then have "wf ?E" using assms(1) by (intro finite_acyclic_wf) auto
    moreover have "s \<in> ?A" using assms(3) by simp
    ultimately obtain z where z: "z \<in> ?A" "\<And>y. (y, z) \<in> ?E \<Longrightarrow> y \<notin> ?A" by (rule wfE_min) blast
    obtain y where "y \<in> R" "(y, z) \<in> E" using pred z(1) by blast
    moreover from this have "y \<in> ?A" using z(1) by (auto intro: converse_rtrancl_into_rtrancl)
    ultimately show False using z by blast
  qed
  then obtain t where t: "(t, t) \<in> ?E\<^sup>+" by (auto simp: acyclic_def)
  then have "t \<in> ?A" by (cases rule: converse_tranclE) auto
  moreover have "(t, t) \<in> E\<^sup>+" using t by (rule trancl_mono_subset [THEN subsetD, rotated]) auto
  ultimately show ?thesis by (auto simp: fed_by_cycle_def)
qed

section \<open>Collecting edges\<close>

definition adjacency_of :: "edge_state \<Rightarrow> (visual_scope \<times> visual_scope) set" where
  "adjacency_of st = {(p, c). \<exists>cs. map_of (eg_adjacency st) p = Some cs \<and> c \<in> set cs}"

text \<open>The collected maps describe one graph over the known scopes.\<close>

definition edges_ok :: "visual_scope list \<Rightarrow> edge_state \<Rightarrow> bool" where
  "edges_ok known st \<longleftrightarrow>
     map fst (eg_adjacency st) = known \<and> map fst (eg_indegree st) = known \<and>
     (\<forall>p cs. map_of (eg_adjacency st) p = Some cs \<longrightarrow> distinct cs \<and> set cs \<subseteq> set known) \<and>
     (\<forall>c \<in> set known. map_of (eg_indegree st) c = Some (card {p. (p, c) \<in> adjacency_of st}))"

lemma edges_okD:
  assumes "edges_ok known st"
  shows "map fst (eg_adjacency st) = known" "map fst (eg_indegree st) = known"
    "map_of (eg_adjacency st) p = Some cs \<Longrightarrow> distinct cs" "map_of (eg_adjacency st) p = Some cs \<Longrightarrow> set cs \<subseteq> set known"
    "c \<in> set known \<Longrightarrow> map_of (eg_indegree st) c = Some (card {p. (p, c) \<in> adjacency_of st})"
  using assms unfolding edges_ok_def by blast+

lemma edges_ok_cong:
  "eg_adjacency st' = eg_adjacency st \<Longrightarrow> eg_indegree st' = eg_indegree st \<Longrightarrow>
   edges_ok known st' = edges_ok known st \<and> adjacency_of st' = adjacency_of st"
  by (simp only: edges_ok_def adjacency_of_def simp_thms)

lemma AList_update_keys: "k \<in> fst ` set m \<Longrightarrow> map fst (AList.update k v m) = map fst m"
  by (induction m) auto

lemma AList_map_of: "map_of (AList.update k v m) = (map_of m)(k \<mapsto> v)"
  by (simp add: AList.update_conv fun_eq_iff)

lemma map_of_known: "map fst m = known \<Longrightarrow> k \<in> set known \<Longrightarrow> \<exists>v. map_of m k = Some v"
  by (metis image_set map_of_eq_None_iff not_None_eq)

lemma known_key: "map fst m = known \<Longrightarrow> k \<in> fst ` set m \<longleftrightarrow> k \<in> set known"
  by (metis image_set)

lemma adjacency_finite:
  assumes "edges_ok known st"
  shows "adjacency_of st \<subseteq> set known \<times> set known"
proof
  fix e
  assume "e \<in> adjacency_of st"
  then obtain p c cs where e: "e = (p, c)" "map_of (eg_adjacency st) p = Some cs" "c \<in> set cs"
    by (auto simp: adjacency_of_def)
  have "map fst (eg_adjacency st) = known" using assms unfolding edges_ok_def by blast
  then have "p \<in> set known" using map_of_SomeD [OF e(2)] by force
  moreover have "set cs \<subseteq> set known" using assms e(2) unfolding edges_ok_def by blast
  ultimately show "e \<in> set known \<times> set known" using e by auto
qed

lemma map_of_same: "map_of (map (\<lambda>s. (s, v)) xs) k = (if k \<in> set xs then Some v else None)"
  by (induction xs) auto

lemma adjacency_start: "adjacency_of (edges_start known) = {}"
  by (simp add: adjacency_of_def edges_start_def map_of_same)

lemma edges_ok_start: "edges_ok known (edges_start known)"
  unfolding edges_ok_def adjacency_start by (simp add: edges_start_def map_of_same comp_def)

lemma link_scopes_spec:
  assumes ok: "edges_ok known st" and p: "producer \<in> set known" and c: "consumer \<in> set known"
  obtains st' where "link_scopes producer consumer st = Some st'" "edges_ok known st'"
    "adjacency_of st' = insert (producer, consumer) (adjacency_of st)"
    "eg_current st' = eg_current st" "eg_previous st' = eg_previous st" "eg_diagnostics st' = eg_diagnostics st"
proof -
  have keys: "map fst (eg_adjacency st) = known" "map fst (eg_indegree st) = known" by (rule edges_okD [OF ok])+
  obtain cs where cs: "map_of (eg_adjacency st) producer = Some cs" using map_of_known [OF keys(1) p] by blast
  have good: "distinct cs" "set cs \<subseteq> set known" using ok cs unfolding edges_ok_def by blast+
  obtain d where d: "map_of (eg_indegree st) consumer = Some d" "d = card {q. (q, consumer) \<in> adjacency_of st}"
    using ok c unfolding edges_ok_def by blast
  show ?thesis
  proof (cases "consumer \<in> set cs")
    case True
    then have "(producer, consumer) \<in> adjacency_of st" "link_scopes producer consumer st = Some st"
      using cs by (simp_all add: adjacency_of_def link_scopes_def)
    then show ?thesis using ok that [of st] insert_absorb by metis
  next
    case False
    define st2 where "st2 = st\<lparr>eg_adjacency := AList.update producer (insort consumer cs) (eg_adjacency st),
                  eg_indegree := AList.update consumer (d + 1) (eg_indegree st)\<rparr>"
    have st2: "eg_adjacency st2 = AList.update producer (insort consumer cs) (eg_adjacency st)"
      "eg_indegree st2 = AList.update consumer (d + 1) (eg_indegree st)"
      "eg_current st2 = eg_current st" "eg_previous st2 = eg_previous st" "eg_diagnostics st2 = eg_diagnostics st"
      by (simp_all add: st2_def)
    have adj: "adjacency_of st2 = insert (producer, consumer) (adjacency_of st)"
      using cs by (auto simp: adjacency_of_def AList_map_of set_insort_key st2(1) split: if_splits)
    have fin: "finite {q. (q, x) \<in> adjacency_of st}" for x
      by (rule finite_subset [of _ "set known"]) (use adjacency_finite [OF ok] in auto)
    have new: "(producer, consumer) \<notin> adjacency_of st" using cs False by (auto simp: adjacency_of_def)
    have ins: "{q. (q, consumer) \<in> adjacency_of st2} = insert producer {q. (q, consumer) \<in> adjacency_of st}"
      "x \<noteq> consumer \<Longrightarrow> {q. (q, x) \<in> adjacency_of st2} = {q. (q, x) \<in> adjacency_of st}" for x
      by (auto simp: adj)
    have keys': "producer \<in> fst ` set (eg_adjacency st)" "consumer \<in> fst ` set (eg_indegree st)"
      using known_key [OF keys(1)] known_key [OF keys(2)] p c by simp_all
    have deg: "map_of (eg_indegree st2) x = Some (card {q. (q, x) \<in> adjacency_of st2})" if "x \<in> set known" for x
      using edges_okD(5) [OF ok that] new fin [of consumer] d
      by (cases "x = consumer") (simp_all add: AList_map_of ins st2(2))
    have "edges_ok known st2"
      unfolding edges_ok_def
    proof (intro conjI allI impI ballI deg)
      show "map fst (eg_adjacency st2) = known" using keys(1) keys'(1) by (simp add: AList_update_keys st2(1))
      show "map fst (eg_indegree st2) = known" using keys(2) keys'(2) by (simp add: AList_update_keys st2(2))
      fix q ds
      assume "map_of (eg_adjacency st2) q = Some ds"
      then have "q = producer \<and> ds = insort consumer cs \<or> map_of (eg_adjacency st) q = Some ds"
        by (auto simp: AList_map_of st2(1) split: if_splits)
      then have "distinct ds \<and> set ds \<subseteq> set known"
      proof
        assume "q = producer \<and> ds = insort consumer cs"
        then show ?thesis using good False c by (auto simp: distinct_insort set_insort_key)
      next
        assume "map_of (eg_adjacency st) q = Some ds"
        then show ?thesis using edges_okD(3,4) [OF ok] by blast
      qed
      then show "distinct ds" "set ds \<subseteq> set known" by blast+
    qed
    moreover have "link_scopes producer consumer st = Some st2" using cs False d by (simp add: link_scopes_def st2_def)
    ultimately show ?thesis using that adj st2(3-5) by blast
  qed
qed

text \<open>One collected edge: a program input is refused or noted, an unknown producer is noted, anything else
  joins the graph.\<close>

definition noted_diagnostics ::
  "visual_scope set \<Rightarrow> (visual_scope \<times> visual_scope) list \<Rightarrow> graph_diagnostic list" where
  "noted_diagnostics known edges = concat (map (\<lambda>(p, c).
     if p = ScProgram then [GdLegacyCurrentProgramTransparent c]
     else if p \<notin> known then [GdMissingProducer c p] else []) edges)"

definition edge_set :: "visual_scope set \<Rightarrow> (visual_scope \<times> visual_scope) list \<Rightarrow> (visual_scope \<times> visual_scope) set" where
  "edge_set known edges = {e \<in> set edges. fst e \<noteq> ScProgram \<and> fst e \<in> known}"

lemma noted_append: "noted_diagnostics k (xs @ ys) = noted_diagnostics k xs @ noted_diagnostics k ys"
  by (simp add: noted_diagnostics_def)

lemma edge_set_Cons:
  "edge_set k (e # es) = (if fst e \<noteq> ScProgram \<and> fst e \<in> k then insert e (edge_set k es) else edge_set k es)"
  by (auto simp: edge_set_def)

lemma collect_edge_spec:
  assumes ok: "edges_ok known st" and c: "consumer \<in> set known"
  shows "(producer = ScProgram \<and> mode = GmAdvanced \<and>
          collect_edge known mode tap producer consumer st = Some (Inl (GeCurrentProgramInput consumer))) \<or>
    \<not> (producer = ScProgram \<and> mode = GmAdvanced) \<and>
    (\<exists>st'. collect_edge known mode tap producer consumer st = Some (Inr st') \<and> edges_ok known st' \<and>
       adjacency_of st' = adjacency_of st \<union> edge_set (set known) [(producer, consumer)] \<and>
       eg_current st' = eg_current st + (if producer \<noteq> ScProgram \<and> producer \<in> set known then tap else 0) \<and>
       eg_previous st' = eg_previous st \<and>
       eg_diagnostics st' = eg_diagnostics st @ noted_diagnostics (set known) [(producer, consumer)])"
proof -
  have keep: "edges_ok known (st\<lparr>eg_diagnostics := x\<rparr>)" "adjacency_of (st\<lparr>eg_diagnostics := x\<rparr>) = adjacency_of st"
    "edges_ok known (st\<lparr>eg_current := n\<rparr>)" "adjacency_of (st\<lparr>eg_current := n\<rparr>) = adjacency_of st" for x n
    using ok edges_ok_cong [of "st\<lparr>eg_diagnostics := x\<rparr>" st known] edges_ok_cong [of "st\<lparr>eg_current := n\<rparr>" st known]
    by simp_all
  show ?thesis
  proof (cases "producer \<noteq> ScProgram \<and> producer \<in> set known")
    case False
    then show ?thesis
      by (auto simp: collect_edge_def keep noted_diagnostics_def edge_set_def)
  next
    case True
    obtain st' where "link_scopes producer consumer (st\<lparr>eg_current := eg_current st + tap\<rparr>) = Some st'"
      "edges_ok known st'" "adjacency_of st' = insert (producer, consumer) (adjacency_of st)"
      "eg_current st' = eg_current st + tap" "eg_previous st' = eg_previous st" "eg_diagnostics st' = eg_diagnostics st"
      using True by (elim conjE, elim link_scopes_spec [OF keep(3) _ c, of producer "eg_current st + tap"]) (simp add: keep(4))
    moreover have "edge_set (set known) [(producer, consumer)] = {(producer, consumer)}"
      "noted_diagnostics (set known) [(producer, consumer)] = []"
      using True by (auto simp: edge_set_def noted_diagnostics_def)
    ultimately show ?thesis using True
      by (intro disjI2 conjI exI [of _ st']) (simp_all add: collect_edge_def)
  qed
qed

text \<open>Both loops at once: taps are edges with weight 1, ordering edges have weight 0.\<close>

definition taps_list :: "image_dependency list \<Rightarrow> (visual_scope \<times> visual_scope) list" where
  "taps_list ds = map (\<lambda>d. (dep_producer d, dep_consumer d)) (filter (\<lambda>d. dep_timing d = CurrentFrame) ds)"

definition order_list :: "ordering_edge list \<Rightarrow> (visual_scope \<times> visual_scope) list" where
  "order_list ds = map (\<lambda>d. (oe_producer d, oe_consumer d)) ds"

definition program_free :: "graph_mode \<Rightarrow> (visual_scope \<times> visual_scope) list \<Rightarrow> bool" where
  "program_free mode edges \<longleftrightarrow> mode = GmAdvanced \<longrightarrow> ScProgram \<notin> fst ` set edges"

lemma timing_cases: "x \<noteq> PreviousFrame \<longleftrightarrow> x = CurrentFrame"
  by (cases x) auto

lemma collect_dependencies_spec:
  assumes "edges_ok known st"
  shows "(\<exists>e. collect_dependencies known mode ds st = Some (Inl e) \<and> (\<forall>xs. e \<noteq> GeCurrentCycle xs) \<and>
        \<not> (dep_consumer ` set ds \<subseteq> set known \<and> program_free mode (taps_list ds))) \<or>
    dep_consumer ` set ds \<subseteq> set known \<and> program_free mode (taps_list ds) \<and>
    (\<exists>st'. collect_dependencies known mode ds st = Some (Inr st') \<and> edges_ok known st' \<and>
       adjacency_of st' = adjacency_of st \<union> edge_set (set known) (taps_list ds) \<and>
       eg_current st' = eg_current st + current_taps_of (set known) ds \<and>
       eg_previous st' = eg_previous st + previous_taps_of ds \<and>
       eg_diagnostics st' = eg_diagnostics st @ noted_diagnostics (set known) (taps_list ds))"
  using assms
proof (induction ds arbitrary: st)
  case Nil
  then show ?case
    by (simp add: taps_list_def edge_set_def current_taps_of_def previous_taps_of_def noted_diagnostics_def program_free_def)
next
  case (Cons d ds)
  show ?case
  proof (cases "dep_consumer d \<in> set known")
    case False
    then show ?thesis by simp
  next
    case known: True
    show ?thesis
    proof (cases "dep_timing d = PreviousFrame")
      case True
      have "edges_ok known (st\<lparr>eg_previous := eg_previous st + 1\<rparr>)"
        "adjacency_of (st\<lparr>eg_previous := eg_previous st + 1\<rparr>) = adjacency_of st"
        using Cons.prems edges_ok_cong [of "st\<lparr>eg_previous := eg_previous st + 1\<rparr>" st known] by simp_all
      with Cons.IH [OF this(1)] known True show ?thesis
        by (simp add: taps_list_def current_taps_of_def previous_taps_of_def live_dependency_def)
    next
      case now: False
      let ?e = "(dep_producer d, dep_consumer d)"
      have taps: "taps_list (d # ds) = ?e # taps_list ds" "previous_taps_of (d # ds) = previous_taps_of ds"
        "current_taps_of (set known) (d # ds) = (if dep_producer d \<noteq> ScProgram \<and> dep_producer d \<in> set known then 1 else 0) +
          current_taps_of (set known) ds"
        using now by (simp_all add: taps_list_def previous_taps_of_def current_taps_of_def live_dependency_def timing_cases)
      from collect_edge_spec [OF Cons.prems known, where producer = "dep_producer d" and mode = mode and tap = 1]
      show ?thesis
      proof (elim disjE conjE exE)
        assume "dep_producer d = ScProgram" "mode = GmAdvanced"
          "collect_edge known mode 1 (dep_producer d) (dep_consumer d) st = Some (Inl (GeCurrentProgramInput (dep_consumer d)))"
        then show ?thesis using known now by (simp add: taps program_free_def)
      next
        fix st1
        assume s: "\<not> (dep_producer d = ScProgram \<and> mode = GmAdvanced)"
          "collect_edge known mode 1 (dep_producer d) (dep_consumer d) st = Some (Inr st1)" "edges_ok known st1"
          "adjacency_of st1 = adjacency_of st \<union> edge_set (set known) [?e]"
          "eg_current st1 = eg_current st + (if dep_producer d \<noteq> ScProgram \<and> dep_producer d \<in> set known then 1 else 0)"
          "eg_previous st1 = eg_previous st"
          "eg_diagnostics st1 = eg_diagnostics st @ noted_diagnostics (set known) [?e]"
        have pf: "program_free mode (taps_list (d # ds)) \<longleftrightarrow> program_free mode (taps_list ds)"
          using s(1) by (auto simp: taps program_free_def)
        have es: "edge_set (set known) (taps_list (d # ds)) = edge_set (set known) [?e] \<union> edge_set (set known) (taps_list ds)"
          by (auto simp: taps edge_set_def)
        have nd: "noted_diagnostics (set known) (taps_list (d # ds)) =
            noted_diagnostics (set known) [?e] @ noted_diagnostics (set known) (taps_list ds)"
          unfolding taps(1) using noted_append [of "set known" "[?e]" "taps_list ds"] by simp
        have run: "collect_dependencies known mode (d # ds) st = collect_dependencies known mode ds st1"
          using known now s(2) by simp
        show ?thesis
          unfolding run pf es nd taps(2,3) using Cons.IH [OF s(3)] known s(4-7) by (simp add: Un_assoc ac_simps)
      qed
    qed
  qed
qed

lemma collect_ordering_spec:
  assumes "edges_ok known st"
  shows "(\<exists>e. collect_ordering known mode ds st = Some (Inl e) \<and> (\<forall>xs. e \<noteq> GeCurrentCycle xs) \<and>
        \<not> (oe_consumer ` set ds \<subseteq> set known \<and> program_free mode (order_list ds))) \<or>
    oe_consumer ` set ds \<subseteq> set known \<and> program_free mode (order_list ds) \<and>
    (\<exists>st'. collect_ordering known mode ds st = Some (Inr st') \<and> edges_ok known st' \<and>
       adjacency_of st' = adjacency_of st \<union> edge_set (set known) (order_list ds) \<and>
       eg_current st' = eg_current st \<and> eg_previous st' = eg_previous st \<and>
       eg_diagnostics st' = eg_diagnostics st @ noted_diagnostics (set known) (order_list ds))"
  using assms
proof (induction ds arbitrary: st)
  case Nil
  then show ?case by (simp add: order_list_def edge_set_def noted_diagnostics_def program_free_def)
next
  case (Cons d ds)
  show ?case
  proof (cases "oe_consumer d \<in> set known")
    case False
    then show ?thesis by simp
  next
    case known: True
    let ?e = "(oe_producer d, oe_consumer d)"
    have taps: "order_list (d # ds) = ?e # order_list ds" by (simp add: order_list_def)
    from collect_edge_spec [OF Cons.prems known, where producer = "oe_producer d" and mode = mode and tap = 0]
    show ?thesis
    proof (elim disjE conjE exE)
      assume "oe_producer d = ScProgram" "mode = GmAdvanced"
        "collect_edge known mode 0 (oe_producer d) (oe_consumer d) st = Some (Inl (GeCurrentProgramInput (oe_consumer d)))"
      then show ?thesis using known by (simp add: taps program_free_def)
    next
      fix st1
      assume s: "\<not> (oe_producer d = ScProgram \<and> mode = GmAdvanced)"
        "collect_edge known mode 0 (oe_producer d) (oe_consumer d) st = Some (Inr st1)" "edges_ok known st1"
        "adjacency_of st1 = adjacency_of st \<union> edge_set (set known) [?e]"
        "eg_current st1 = eg_current st + (if oe_producer d \<noteq> ScProgram \<and> oe_producer d \<in> set known then 0 else 0)"
        "eg_previous st1 = eg_previous st"
        "eg_diagnostics st1 = eg_diagnostics st @ noted_diagnostics (set known) [?e]"
      have pf: "program_free mode (order_list (d # ds)) \<longleftrightarrow> program_free mode (order_list ds)"
        using s(1) by (auto simp: taps program_free_def)
      have es: "edge_set (set known) (order_list (d # ds)) = edge_set (set known) [?e] \<union> edge_set (set known) (order_list ds)"
        by (auto simp: taps edge_set_def)
      have nd: "noted_diagnostics (set known) (order_list (d # ds)) =
          noted_diagnostics (set known) [?e] @ noted_diagnostics (set known) (order_list ds)"
        unfolding taps(1) using noted_append [of "set known" "[?e]" "order_list ds"] by simp
      have run: "collect_ordering known mode (d # ds) st = collect_ordering known mode ds st1"
        using known s(2) by simp
      show ?thesis
        unfolding run pf es nd using Cons.IH [OF s(3)] known s(4-7) by (simp add: Un_assoc)
    qed
  qed
qed

section \<open>Ordering\<close>

lemma insert_scopes_spec:
  assumes "sorted known" "distinct known"
  shows "(\<exists>e. insert_scopes known ss = Inl e \<and> (\<forall>xs. e \<noteq> GeCurrentCycle xs) \<and> \<not> (distinct ss \<and> set ss \<inter> set known = {})) \<or>
    distinct ss \<and> set ss \<inter> set known = {} \<and>
    (\<exists>k. insert_scopes known ss = Inr k \<and> sorted k \<and> distinct k \<and> set k = set known \<union> set ss)"
  using assms
proof (induction ss arbitrary: known)
  case Nil
  then show ?case by simp
next
  case (Cons s ss)
  show ?case
  proof (cases "s \<in> set known")
    case True
    then show ?thesis by simp
  next
    case False
    then have "sorted (insort s known)" "distinct (insort s known)"
      using Cons.prems by (simp_all add: sorted_insort distinct_insort)
    from Cons.IH [OF this] show ?thesis using False by (auto simp: set_insort_key)
  qed
qed

text \<open>The scopes that may come next when those in \<open>done\<close> were ordered.\<close>

definition ready_after :: "(visual_scope \<times> visual_scope) set \<Rightarrow> visual_scope set \<Rightarrow> visual_scope set \<Rightarrow> visual_scope set" where
  "ready_after E known done = {s \<in> known. s \<notin> done \<and> (\<forall>p. (p, s) \<in> E \<longrightarrow> p \<in> done)}"

text \<open>An order that always takes the least scope that may come next; no other list is one.\<close>

definition greedy_order :: "(visual_scope \<times> visual_scope) set \<Rightarrow> visual_scope set \<Rightarrow> visual_scope list \<Rightarrow> bool" where
  "greedy_order E known xs \<longleftrightarrow>
     (\<forall>i < length xs. xs ! i \<in> ready_after E known (set (take i xs)) \<and>
        (\<forall>s \<in> ready_after E known (set (take i xs)). xs ! i \<le> s))"

lemma greedy_order_snoc:
  "greedy_order E known (xs @ [x]) \<longleftrightarrow>
     greedy_order E known xs \<and> x \<in> ready_after E known (set xs) \<and> (\<forall>s \<in> ready_after E known (set xs). x \<le> s)"
  by (auto simp: greedy_order_def nth_append less_Suc_eq)

definition kahn_ok ::
  "(visual_scope \<times> visual_scope) set \<Rightarrow> visual_scope list \<Rightarrow> kahn_state \<Rightarrow> visual_scope list \<Rightarrow> bool" where
  "kahn_ok E known st order \<longleftrightarrow>
     map fst (fst st) = known \<and>
     (\<forall>c \<in> set known. map_of (fst st) c = Some (card {p. (p, c) \<in> E \<and> p \<notin> set order})) \<and>
     sorted (snd st) \<and> distinct (snd st) \<and> set (snd st) = ready_after E (set known) (set order) \<and>
     distinct order \<and> set order \<subseteq> set known \<and> greedy_order E (set known) order"

lemma insort_insert_facts:
  "sorted xs \<Longrightarrow> distinct xs \<Longrightarrow>
   sorted (insort_insert x xs) \<and> distinct (insort_insert x xs) \<and> set (insort_insert x xs) = insert x (set xs)"
  by (simp add: sorted_insort_insert distinct_insort_insert set_insort_insert)

lemma release_spec:
  assumes "distinct cs" "\<And>c. c \<in> set cs \<Longrightarrow> \<exists>d. map_of i c = Some (Suc d)" "sorted r" "distinct r"
  shows "\<exists>i' r'. release_consumers cs (i, r) = Some (i', r') \<and> map fst i' = map fst i \<and>
    (\<forall>k. map_of i' k = (if k \<in> set cs then map_option (\<lambda>d. d - 1) (map_of i k) else map_of i k)) \<and>
    sorted r' \<and> distinct r' \<and> set r' = set r \<union> {c \<in> set cs. map_of i c = Some 1}"
  using assms
proof (induction cs arbitrary: i r)
  case Nil
  then show ?case by simp
next
  case (Cons c cs)
  obtain d where d: "map_of i c = Some (Suc d)" using Cons.prems(2) by fastforce
  let ?i = "AList.update c d i"
  let ?r = "if d = 0 then insort_insert c r else r"
  have keys: "map fst ?i = map fst i"
    by (rule AList_update_keys) (use d in \<open>force dest: map_of_SomeD\<close>)
  have r: "sorted ?r" "distinct ?r" "set ?r = (if d = 0 then insert c (set r) else set r)"
    using insort_insert_facts [OF Cons.prems(3,4), of c] Cons.prems(3,4) by auto
  have "\<And>x. x \<in> set cs \<Longrightarrow> \<exists>d. map_of ?i x = Some (Suc d)"
    using Cons.prems(1,2) by (auto simp: AList_map_of)
  from Cons.IH [OF _ this r(1,2)] Cons.prems(1) obtain i' r' where
    s: "release_consumers cs (?i, ?r) = Some (i', r')" "map fst i' = map fst ?i"
      "\<And>k. map_of i' k = (if k \<in> set cs then map_option (\<lambda>d. d - 1) (map_of ?i k) else map_of ?i k)"
      "sorted r'" "distinct r'" "set r' = set ?r \<union> {x \<in> set cs. map_of ?i x = Some 1}"
    by auto
  have "release_consumers (c # cs) (i, r) = Some (i', r')" using d s(1) by simp
  moreover have "map_of i' k = (if k \<in> set (c # cs) then map_option (\<lambda>d. d - 1) (map_of i k) else map_of i k)" for k
    using Cons.prems(1) d by (auto simp: s(3) AList_map_of)
  moreover have "set r' = set r \<union> {x \<in> set (c # cs). map_of i x = Some 1}"
    using Cons.prems(1) d by (auto simp: s(6) r(3) AList_map_of)
  ultimately show ?case using s(2,4,5) keys by auto
qed

lemma kahn_ok_step:
  assumes K: "kahn_ok E known (i, s # rest) order" and fin: "E \<subseteq> set known \<times> set known"
    and cs: "distinct cs" "\<And>c. c \<in> set cs \<longleftrightarrow> (s, c) \<in> E"
  shows "\<exists>st. release_consumers cs (i, rest) = Some st \<and> kahn_ok E known st (order @ [s])"
proof -
  have k: "map fst i = known" "sorted rest" "distinct rest" "s \<notin> set rest" "\<forall>x \<in> set rest. s \<le> x"
    "insert s (set rest) = ready_after E (set known) (set order)"
    "distinct order" "set order \<subseteq> set known" "greedy_order E (set known) order"
    using K by (auto simp: kahn_ok_def)
  have deg: "map_of i c = Some (card {p. (p, c) \<in> E \<and> p \<notin> set order})" if "c \<in> set known" for c
    using K that by (simp add: kahn_ok_def)
  have s: "s \<in> set known" "s \<notin> set order" "\<And>p. (p, s) \<in> E \<Longrightarrow> p \<in> set order"
    using k(6) by (auto simp: ready_after_def)
  have finite: "finite {p. (p, c) \<in> E \<and> p \<notin> X}" for c X
    by (rule finite_subset [of _ "set known"]) (use fin in auto)
  have split: "{p. (p, c) \<in> E \<and> p \<notin> set order} =
      (if (s, c) \<in> E then insert s {p. (p, c) \<in> E \<and> p \<notin> set (order @ [s])}
       else {p. (p, c) \<in> E \<and> p \<notin> set (order @ [s])})" for c
    using s(2) by auto
  have card: "card {p. (p, c) \<in> E \<and> p \<notin> set order} =
      (if (s, c) \<in> E then Suc (card {p. (p, c) \<in> E \<and> p \<notin> set (order @ [s])})
       else card {p. (p, c) \<in> E \<and> p \<notin> set (order @ [s])})" for c
    using finite [of c "set (order @ [s])"] by (subst split) auto
  have known: "c \<in> set known" if "(s, c) \<in> E" for c using that fin by blast
  have pos: "\<exists>d. map_of i c = Some (Suc d)" if "c \<in> set cs" for c
    using that cs(2) card [of c] deg [OF known] by auto
  obtain i' r' where r: "release_consumers cs (i, rest) = Some (i', r')" "map fst i' = map fst i"
    "\<And>k. map_of i' k = (if k \<in> set cs then map_option (\<lambda>d. d - 1) (map_of i k) else map_of i k)"
    "sorted r'" "distinct r'" "set r' = set rest \<union> {c \<in> set cs. map_of i c = Some 1}"
    using release_spec [OF cs(1) pos k(2,3)] by blast
  have deg': "map_of i' c = Some (card {p. (p, c) \<in> E \<and> p \<notin> set (order @ [s])})" if "c \<in> set known" for c
    using that by (simp only: r(3) cs(2) deg card) auto
  have none: "card {p. (p, c) \<in> E \<and> p \<notin> set (order @ [s])} = 0 \<longleftrightarrow> (\<forall>p. (p, c) \<in> E \<longrightarrow> p \<in> set (order @ [s]))" for c
    using finite [of c "set (order @ [s])"] by auto
  have "set r' = ready_after E (set known) (set (order @ [s]))"
  proof (intro set_eqI)
    fix x
    have one: "map_of i x = Some 1 \<longleftrightarrow> (\<forall>p. (p, x) \<in> E \<longrightarrow> p \<in> set (order @ [s]))" if "(s, x) \<in> E"
      using that deg [OF known [OF that]] card [of x] none [of x] by simp
    have self: "(s, s) \<notin> E" using s by blast
    have rest: "x \<in> set rest \<longleftrightarrow> x \<in> ready_after E (set known) (set order) \<and> x \<noteq> s" using k(4,6) by blast
    have fresh: "x \<notin> set order" if "(s, x) \<in> E"
    proof
      assume "x \<in> set order"
      then obtain n where n: "n < length order" "order ! n = x" by (auto simp: in_set_conv_nth)
      then have "s \<in> set (take n order)" using k(9) that by (auto simp: greedy_order_def ready_after_def)
      then show False using s(2) by (auto dest: in_set_takeD)
    qed
    show "x \<in> set r' \<longleftrightarrow> x \<in> ready_after E (set known) (set (order @ [s]))"
      using one rest self fresh known by (auto simp: r(6) cs(2) ready_after_def)
  qed
  moreover have "greedy_order E (set known) (order @ [s])"
    using k(5,6,9) by (auto simp: greedy_order_snoc)
  ultimately have "kahn_ok E known (i', r') (order @ [s])"
    using r(2,4,5) k(1,7,8) s(1,2) deg' by (simp add: kahn_ok_def)
  then show ?thesis using r(1) by blast
qed

lemma order_scopes_spec:
  assumes "kahn_ok E known (i, r) order" and "E \<subseteq> set known \<times> set known"
    and "map fst adjacency = known"
    and "\<And>p cs. map_of adjacency p = Some cs \<Longrightarrow> distinct cs \<and> (\<forall>c. c \<in> set cs \<longleftrightarrow> (p, c) \<in> E)"
  shows "\<exists>i' order'. order_scopes adjacency (i, r) order = Some (i', order') \<and> kahn_ok E known (i', []) order'"
  using assms
proof (induction adjacency "(i, r)" order arbitrary: i r rule: order_scopes.induct)
  case (1 adjacency i r order)
  show ?case
  proof (cases r)
    case Nil
    then show ?thesis using "1.prems"(1) by (simp add: order_scopes.simps [of adjacency i "[]" order])
  next
    case (Cons s rest)
    have "s \<in> set known" using "1.prems"(1) Cons by (auto simp: kahn_ok_def ready_after_def)
    then obtain cs where cs: "map_of adjacency s = Some cs" using map_of_known [OF "1.prems"(3)] by blast
    have good: "distinct cs" "\<And>c. c \<in> set cs \<longleftrightarrow> (s, c) \<in> E" using "1.prems"(4) [OF cs] by blast+
    obtain i1 r1 where st: "release_consumers cs (i, rest) = Some (i1, r1)" "kahn_ok E known (i1, r1) (order @ [s])"
      using kahn_ok_step [OF "1.prems"(1) [unfolded Cons] "1.prems"(2) good] by auto
    have "order_scopes adjacency (i, r) order = order_scopes adjacency (i1, r1) (order @ [s])"
      unfolding order_scopes.simps [of adjacency i r order] using Cons cs st(1) by simp
    moreover have "\<exists>i' order'. order_scopes adjacency (i1, r1) (order @ [s]) = Some (i', order') \<and>
        kahn_ok E known (i', []) order'"
      using "1.hyps" [OF Cons cs st] "1.prems"(2-4) by blast
    ultimately show ?thesis by simp
  qed
qed

section \<open>Validation\<close>

definition known_scopes :: "visual_scope list \<Rightarrow> visual_scope set" where
  "known_scopes scopes = insert ScProgram (set scopes)"

text \<open>Everything validation asks for except the absence of cycles.\<close>

definition graph_admissible ::
  "visual_scope list \<Rightarrow> image_dependency list \<Rightarrow> ordering_edge list \<Rightarrow> graph_mode \<Rightarrow> bool" where
  "graph_admissible scopes dependencies extra mode \<longleftrightarrow>
     length scopes \<le> 274 \<and> length dependencies \<le> 72 \<and> distinct scopes \<and> ScProgram \<notin> set scopes \<and>
     dep_consumer ` set dependencies \<subseteq> known_scopes scopes \<and> oe_consumer ` set extra \<subseteq> known_scopes scopes \<and>
     program_free mode (taps_list dependencies @ order_list extra) \<and>
     current_taps_of (known_scopes scopes) dependencies \<le> 64 \<and> previous_taps_of dependencies \<le> 8"

lemma current_edges_sets:
  "current_edges K ds es = edge_set K (taps_list ds) \<union> edge_set K (order_list es)"
  by (auto simp: current_edges_def edge_set_def taps_list_def order_list_def live_dependency_def)

lemma degree_filter:
  "map fst i = k \<Longrightarrow> distinct k \<Longrightarrow> map fst (filter (\<lambda>x. P (snd x)) i) = filter (\<lambda>c. P (the (map_of i c))) k"
proof -
  assume k: "map fst i = k" "distinct k"
  have "filter (\<lambda>c. P (the (map_of i c))) k = map fst (filter (\<lambda>x. P (the (map_of i (fst x)))) i)"
    using k(1) by (auto simp: filter_map comp_def)
  also have "\<dots> = map fst (filter (\<lambda>x. P (snd x)) i)"
    using k by (intro arg_cong [of _ _ "map fst"] filter_cong) auto
  finally show ?thesis by simp
qed

lemma validate_cases:
  fixes scopes dependencies extra mode
  defines "K \<equiv> known_scopes scopes" and "E \<equiv> current_edges (known_scopes scopes) dependencies extra"
    and "result \<equiv> validate_with_ordering_edges scopes dependencies extra mode"
  shows "(\<exists>e. result = Some (Inl e) \<and> (\<forall>xs. e \<noteq> GeCurrentCycle xs) \<and> \<not> graph_admissible scopes dependencies extra mode) \<or>
    graph_admissible scopes dependencies extra mode \<and>
    (\<exists>k i order. sorted k \<and> distinct k \<and> set k = K \<and> E \<subseteq> K \<times> K \<and> kahn_ok E k (i, []) order \<and>
       result = Some (if length order \<noteq> length k then Inl (GeCurrentCycle (map fst (filter (\<lambda>x. snd x \<noteq> 0) i)))
         else Inr \<lparr>gp_order = order, gp_current_taps = current_taps_of K dependencies,
           gp_previous_taps = previous_taps_of dependencies,
           gp_diagnostics = noted_diagnostics K (taps_list dependencies @ order_list extra)\<rparr>))"
proof (cases "length scopes \<le> 274 \<and> length dependencies \<le> 72 \<and> distinct (scopes @ [ScProgram])")
  case False
  then show ?thesis
    using insert_scopes_spec [of "[]" "scopes @ [ScProgram]"]
    by (auto simp: result_def validate_with_ordering_edges_def graph_admissible_def MAX_GRAPH_SCOPES_def
        MAX_IMAGE_DEPENDENCIES_def MAX_CURRENT_IMAGE_TAPS_def MAX_PREVIOUS_IMAGE_TAPS_def)
next
  case True
  then obtain k where k: "insert_scopes [] (scopes @ [ScProgram]) = Inr k" "sorted k" "distinct k" "set k = K"
    using insert_scopes_spec [of "[]" "scopes @ [ScProgram]"] by (auto simp: K_def known_scopes_def)
  have r: "result = (case collect_dependencies k mode dependencies (edges_start k) of
             None \<Rightarrow> None
           | Some (Inl e) \<Rightarrow> Some (Inl e)
           | Some (Inr st) \<Rightarrow>
               if 64 < eg_current st then Some (Inl (GeTooManyCurrentTaps (eg_current st) 64))
               else if 8 < eg_previous st then Some (Inl (GeTooManyPreviousTaps (eg_previous st) 8))
               else (case collect_ordering k mode extra st of
                  None \<Rightarrow> None
                | Some (Inl e) \<Rightarrow> Some (Inl e)
                | Some (Inr st') \<Rightarrow>
                    (case order_scopes (eg_adjacency st')
                        (eg_indegree st', map fst (filter (\<lambda>x. snd x = 0) (eg_indegree st'))) [] of
                       None \<Rightarrow> None
                     | Some (indegree, order) \<Rightarrow>
                         if length order \<noteq> length k
                         then Some (Inl (GeCurrentCycle (map fst (filter (\<lambda>x. snd x \<noteq> 0) indegree))))
                         else Some (Inr \<lparr>gp_order = order, gp_current_taps = eg_current st',
                                gp_previous_taps = eg_previous st', gp_diagnostics = eg_diagnostics st'\<rparr>))))"
    unfolding result_def validate_with_ordering_edges_def MAX_GRAPH_SCOPES_def
        MAX_IMAGE_DEPENDENCIES_def MAX_CURRENT_IMAGE_TAPS_def MAX_PREVIOUS_IMAGE_TAPS_def
    using True k(1) by simp
  have adm: "graph_admissible scopes dependencies extra mode \<longleftrightarrow>
      dep_consumer ` set dependencies \<subseteq> set k \<and> program_free mode (taps_list dependencies) \<and>
      current_taps_of (set k) dependencies \<le> 64 \<and> previous_taps_of dependencies \<le> 8 \<and>
      oe_consumer ` set extra \<subseteq> set k \<and> program_free mode (order_list extra)"
    using True by (auto simp: graph_admissible_def k(4) K_def known_scopes_def program_free_def)
  from collect_dependencies_spec [OF edges_ok_start, where known = k and mode = mode and ds = dependencies]
  show ?thesis
  proof (elim disjE conjE exE)
    fix e
    assume "collect_dependencies k mode dependencies (edges_start k) = Some (Inl e)" "\<forall>xs. e \<noteq> GeCurrentCycle xs"
      "\<not> (dep_consumer ` set dependencies \<subseteq> set k \<and> program_free mode (taps_list dependencies))"
    then show ?thesis using r adm by auto
  next
    fix st
    assume d: "dep_consumer ` set dependencies \<subseteq> set k" "program_free mode (taps_list dependencies)"
      "collect_dependencies k mode dependencies (edges_start k) = Some (Inr st)" "edges_ok k st"
      "adjacency_of st = adjacency_of (edges_start k) \<union> edge_set (set k) (taps_list dependencies)"
      "eg_current st = eg_current (edges_start k) + current_taps_of (set k) dependencies"
      "eg_previous st = eg_previous (edges_start k) + previous_taps_of dependencies"
      "eg_diagnostics st = eg_diagnostics (edges_start k) @ noted_diagnostics (set k) (taps_list dependencies)"
    have start: "eg_current (edges_start k) = 0" "eg_previous (edges_start k) = 0" "eg_diagnostics (edges_start k) = []"
      by (simp_all add: edges_start_def)
    show ?thesis
    proof (cases "current_taps_of (set k) dependencies \<le> 64 \<and> previous_taps_of dependencies \<le> 8")
      case False
      then show ?thesis using r adm d(3,6,7) start by auto
    next
      case few: True
      from collect_ordering_spec [OF d(4), where mode = mode and ds = extra]
      show ?thesis
      proof (elim disjE conjE exE)
        fix e
        assume "collect_ordering k mode extra st = Some (Inl e)" "\<forall>xs. e \<noteq> GeCurrentCycle xs"
          "\<not> (oe_consumer ` set extra \<subseteq> set k \<and> program_free mode (order_list extra))"
        then show ?thesis using r adm d(3,6,7) few start by auto
      next
        fix st'
        assume o: "oe_consumer ` set extra \<subseteq> set k" "program_free mode (order_list extra)"
          "collect_ordering k mode extra st = Some (Inr st')" "edges_ok k st'"
          "adjacency_of st' = adjacency_of st \<union> edge_set (set k) (order_list extra)"
          "eg_current st' = eg_current st" "eg_previous st' = eg_previous st"
          "eg_diagnostics st' = eg_diagnostics st @ noted_diagnostics (set k) (order_list extra)"
        have E: "adjacency_of st' = E"
          by (simp add: o(5) d(5) adjacency_start E_def current_edges_sets k(4) K_def)
        have sub: "E \<subseteq> set k \<times> set k" using adjacency_finite [OF o(4)] E by simp
        note keys = edges_okD(1,2) [OF o(4)]
        have adj: "distinct cs \<and> (\<forall>c. c \<in> set cs \<longleftrightarrow> (p, c) \<in> E)" if "map_of (eg_adjacency st') p = Some cs" for p cs
          using edges_okD(3) [OF o(4) that] that by (simp add: adjacency_of_def flip: E)
        have deg: "map_of (eg_indegree st') c = Some (card {p. (p, c) \<in> E})" if "c \<in> set k" for c
          using edges_okD(5) [OF o(4) that] E by simp
        have fin: "finite {p. (p, c) \<in> E}" for c
          by (rule finite_subset [of _ "set k"]) (use sub in auto)
        have ready: "map fst (filter (\<lambda>x. snd x = 0) (eg_indegree st')) = filter (\<lambda>c. the (map_of (eg_indegree st') c) = 0) k"
          using degree_filter [OF keys(2) k(3), of "\<lambda>n. n = 0"] by simp
        have "set (map fst (filter (\<lambda>x. snd x = 0) (eg_indegree st'))) = ready_after E (set k) {}"
          unfolding ready using deg fin by (auto simp: ready_after_def)
        then have "kahn_ok E k (eg_indegree st', map fst (filter (\<lambda>x. snd x = 0) (eg_indegree st'))) []"
          using keys(2) deg k(2,3) unfolding kahn_ok_def ready
          by (simp add: greedy_order_def sorted_filter [where f = id, simplified])
        then obtain i order where run: "order_scopes (eg_adjacency st')
            (eg_indegree st', map fst (filter (\<lambda>x. snd x = 0) (eg_indegree st'))) [] = Some (i, order)"
          "kahn_ok E k (i, []) order"
          using order_scopes_spec [OF _ sub keys(1) adj] by blast
        have "result = Some (if length order \<noteq> length k then Inl (GeCurrentCycle (map fst (filter (\<lambda>x. snd x \<noteq> 0) i)))
         else Inr \<lparr>gp_order = order, gp_current_taps = current_taps_of K dependencies,
           gp_previous_taps = previous_taps_of dependencies,
           gp_diagnostics = noted_diagnostics K (taps_list dependencies @ order_list extra)\<rparr>)"
          using r d(3,6-8) few start o(3,6-8) run(1) by (simp add: k(4) noted_append)
        moreover have "graph_admissible scopes dependencies extra mode" using adm d(1,2) few o(1,2) by blast
        ultimately show ?thesis using k(2-4) sub run(2) by blast
      qed
    qed
  qed
qed

lemma greedy_producers_first:
  assumes "greedy_order E K xs" "j < length xs" "(p, xs ! j) \<in> E"
  shows "p \<in> set (take j xs)"
  using assms by (auto simp: greedy_order_def ready_after_def)

lemma producers_first_acyclic:
  assumes first: "\<And>j p. j < length xs \<Longrightarrow> (p, xs ! j) \<in> E \<Longrightarrow> p \<in> set (take j xs)"
    and "distinct xs" "E \<subseteq> set xs \<times> set xs"
  shows "acyclic E"
proof -
  define pos where "pos s = (LEAST i. i < length xs \<and> xs ! i = s)" for s
  have at: "pos (xs ! i) = i" if "i < length xs" for i
    unfolding pos_def using that assms(2) by (intro Least_equality) (auto simp: nth_eq_iff_index_eq)
  have "E \<subseteq> measure pos"
  proof
    fix e
    assume e: "e \<in> E"
    then obtain p s where ps: "e = (p, s)" "s \<in> set xs" using assms(3) by (cases e) auto
    then obtain j where j: "j < length xs" "xs ! j = s" by (auto simp: in_set_conv_nth)
    have "p \<in> set (take j xs)" using first [OF j(1)] e ps j(2) by blast
    then obtain i where "i < j" "xs ! i = p" using j(1) by (auto simp: in_set_conv_nth)
    then show "e \<in> measure pos" using at j ps(1) by auto
  qed
  then show ?thesis by (meson acyclic_subset wf_acyclic wf_measure)
qed

text \<open>When nothing is ready any more, what is left is exactly what cycles feed.\<close>

lemma kahn_end:
  assumes "kahn_ok E k (i, []) order" "E \<subseteq> set k \<times> set k" "distinct k"
  shows "set k - set order = {s \<in> set k. fed_by_cycle E s}"
    "length order = length k \<longleftrightarrow> acyclic E"
    "set (map fst (filter (\<lambda>x. snd x \<noteq> 0) i)) = set k - set order"
    "map fst (filter (\<lambda>x. snd x \<noteq> 0) i) = filter (\<lambda>s. s \<notin> set order) k"
proof -
  have K: "map fst i = k" "ready_after E (set k) (set order) = {}" "distinct order" "set order \<subseteq> set k"
    "greedy_order E (set k) order"
    using assms(1) by (auto simp: kahn_ok_def)
  have deg: "map_of i c = Some (card {p. (p, c) \<in> E \<and> p \<notin> set order})" if "c \<in> set k" for c
    using assms(1) that by (simp add: kahn_ok_def)
  have finE: "finite E" using assms(2) by (rule finite_subset) simp
  have fin: "finite {p. (p, c) \<in> E \<and> p \<notin> set order}" for c
    by (rule finite_subset [of _ "set k"]) (use assms(2) in auto)
  have closed: "p \<in> set order" if h: "(p, s) \<in> E" "s \<in> set order" for p s
  proof -
    obtain j where "j < length order" "order ! j = s" using h(2) by (auto simp: in_set_conv_nth)
    then have "p \<in> set (take j order)" using greedy_producers_first [OF K(5)] h(1) by blast
    then show ?thesis by (rule in_set_takeD)
  qed
  have acyc: "acyclic (E \<inter> set order \<times> set order)"
    by (rule producers_first_acyclic [of order])
      (use K(3) greedy_producers_first [OF K(5)] in auto)
  have inside: "(t, s) \<in> (E \<inter> set order \<times> set order)\<^sup>+ \<and> t \<in> set order" if "(t, s) \<in> E\<^sup>+" "s \<in> set order" for t s
    using that by (induction rule: converse_trancl_induct)
      (auto dest: closed intro: trancl_into_trancl2 r_into_trancl)
  have "s \<notin> set order" if h: "fed_by_cycle E s" for s
  proof
    assume s: "s \<in> set order"
    obtain t where t: "(t, t) \<in> E\<^sup>+" "(t, s) \<in> E\<^sup>*" using h by (auto simp: fed_by_cycle_def)
    have "t \<in> set order" using t(2) s inside by (metis rtranclD)
    then show False using inside [OF t(1)] acyc by (auto simp: acyclic_def)
  qed
  moreover have "fed_by_cycle E s" if "s \<in> set k - set order" for s
  proof (rule closed_under_producers_fed [of E "set k - set order"])
    fix x
    assume "x \<in> set k - set order"
    then show "\<exists>y \<in> set k - set order. (y, x) \<in> E" using K(2) assms(2) by (auto simp: ready_after_def)
  qed (use finE that in auto)
  ultimately show left: "set k - set order = {s \<in> set k. fed_by_cycle E s}" by blast
  have same: "length order = length k \<longleftrightarrow> set order = set k"
  proof
    assume "length order = length k"
    then have "card (set order) = card (set k)" using K(3) assms(3) by (simp add: distinct_card)
    then show "set order = set k" using K(4) by (intro card_subset_eq) auto
  next
    assume "set order = set k"
    then show "length order = length k" using K(3) assms(3) by (metis distinct_card)
  qed
  show "length order = length k \<longleftrightarrow> acyclic E"
  proof
    assume "length order = length k"
    then have "E \<inter> set order \<times> set order = E" using same assms(2) by auto
    then show "acyclic E" using acyc by simp
  next
    assume "acyclic E"
    then have "set k - set order = {}" using left acyclic_not_fed by auto
    then show "length order = length k" using same K(4) by auto
  qed
  have "map fst (filter (\<lambda>x. snd x \<noteq> 0) i) = filter (\<lambda>c. the (map_of i c) \<noteq> 0) k"
    using degree_filter [OF K(1) assms(3), of "\<lambda>n. n \<noteq> 0"] by simp
  also have "\<dots> = filter (\<lambda>s. s \<notin> set order) k"
  proof (rule filter_cong [OF refl])
    fix c
    assume c: "c \<in> set k"
    have "c \<in> set order \<longleftrightarrow> {p. (p, c) \<in> E \<and> p \<notin> set order} = {}"
      using closed K(2) c by (auto simp: ready_after_def)
    then show "the (map_of i c) \<noteq> 0 \<longleftrightarrow> c \<notin> set order" using deg [OF c] fin [of c] by auto
  qed
  finally show f: "map fst (filter (\<lambda>x. snd x \<noteq> 0) i) = filter (\<lambda>s. s \<notin> set order) k" .
  show "set (map fst (filter (\<lambda>x. snd x \<noteq> 0) i)) = set k - set order" unfolding f by auto
qed

text \<open>C9. Validation of the image graph is total and exact: it never panics, and it accepts exactly the
  graphs within the bounds, with distinct scopes, known consumers and no same-frame program input (in
  advanced mode), whose same-frame edges have no cycle; taps of the previous frame never matter.\<close>

theorem graph_validation_exact:
  "validate_with_ordering_edges scopes dependencies extra mode \<noteq> None \<and>
   ((\<exists>plan. validate_with_ordering_edges scopes dependencies extra mode = Some (Inr plan)) \<longleftrightarrow>
    graph_admissible scopes dependencies extra mode \<and>
    acyclic (current_edges (known_scopes scopes) dependencies extra))"
  using validate_cases [of scopes dependencies extra mode] kahn_end(2) by (auto split: if_splits)

text \<open>An accepted image graph is ordered completely and deterministically: the order holds every scope
  once, no scope before one it consumes from, and it always takes the least scope whose producers are
  all done; the plan counts exactly the current and previous taps and notes every edge left out.\<close>

theorem graph_order_greedy:
  assumes "validate_with_ordering_edges scopes dependencies extra mode = Some (Inr plan)"
    and "K = known_scopes scopes" and "E = current_edges K dependencies extra"
  shows "set (gp_order plan) = K \<and> distinct (gp_order plan) \<and>
    (\<forall>i j. i < length (gp_order plan) \<longrightarrow> j < length (gp_order plan) \<longrightarrow> (gp_order plan ! i, gp_order plan ! j) \<in> E \<longrightarrow> i < j) \<and>
    greedy_order E K (gp_order plan) \<and>
    gp_current_taps plan = current_taps_of K dependencies \<and> gp_previous_taps plan = previous_taps_of dependencies \<and>
    gp_diagnostics plan = noted_diagnostics K (taps_list dependencies @ order_list extra)"
proof -
  obtain k i order where s: "distinct k" "set k = K" "E \<subseteq> K \<times> K" "kahn_ok E k (i, []) order" "length order = length k"
    "plan = \<lparr>gp_order = order, gp_current_taps = current_taps_of K dependencies,
           gp_previous_taps = previous_taps_of dependencies,
           gp_diagnostics = noted_diagnostics K (taps_list dependencies @ order_list extra)\<rparr>"
    using validate_cases [of scopes dependencies extra mode] assms by (auto split: if_splits)
  have o: "distinct order" "set order \<subseteq> K" "greedy_order E K order" using s(2,4) by (auto simp: kahn_ok_def)
  have "set k - set order = {}" using kahn_end(1,2) [OF s(4) _ s(1)] s(2,3,5) acyclic_not_fed by auto
  then have all: "set order = K" using o(2) s(2) by blast
  have "i < j" if h: "i < length order" "j < length order" "(order ! i, order ! j) \<in> E" for i j
  proof -
    obtain n where "n < j" "order ! n = order ! i"
      using greedy_producers_first [OF o(3) h(2,3)] h(2) by (auto simp: in_set_conv_nth)
    then show ?thesis using o(1) h(1,2) by (metis less_trans nth_eq_iff_index_eq)
  qed
  then show ?thesis using s(6) o all by simp
qed

definition demo_tap :: "visual_scope \<Rightarrow> visual_scope \<Rightarrow> edge_timing \<Rightarrow> image_dependency" where
  "demo_tap producer consumer timing = \<lparr>dep_consumer = consumer, dep_producer = producer, dep_timing = timing\<rparr>"

lemma demo_order:
  "validate_with_ordering_edges [ScMaster, ScLayer 1]
     [demo_tap (ScLayer 1) ScMaster CurrentFrame, demo_tap ScMaster (ScLayer 1) PreviousFrame] [] GmAdvanced =
   Some (Inr \<lparr>gp_order = [ScLayer 1, ScMaster, ScProgram], gp_current_taps = 1, gp_previous_taps = 1, gp_diagnostics = []\<rparr>)"
  by code_simp

lemma graph_order_greedy_witness:
  "\<exists>plan. validate_with_ordering_edges [ScMaster, ScLayer 1]
       [demo_tap (ScLayer 1) ScMaster CurrentFrame, demo_tap ScMaster (ScLayer 1) PreviousFrame] [] GmAdvanced = Some (Inr plan) \<and>
     gp_order plan = [ScLayer 1, ScMaster, ScProgram] \<and>
     set (gp_order plan) = known_scopes [ScMaster, ScLayer 1] \<and> distinct (gp_order plan)"
  using demo_order graph_order_greedy [OF demo_order refl refl] by simp

text \<open>A refusal for a cycle names the culprits exactly: the reported scopes are, in key order and without
  repetition, those that a same-frame cycle feeds directly or through other scopes, and there is one.\<close>

theorem graph_cycle_report:
  assumes "validate_with_ordering_edges scopes dependencies extra mode = Some (Inl (GeCurrentCycle xs))"
    and "K = known_scopes scopes" and "E = current_edges K dependencies extra"
  shows "sorted xs \<and> distinct xs \<and> set xs = {s \<in> K. fed_by_cycle E s} \<and> xs \<noteq> []"
proof -
  obtain k i order where s: "sorted k" "distinct k" "set k = K" "E \<subseteq> K \<times> K" "kahn_ok E k (i, []) order"
    "length order \<noteq> length k" "xs = map fst (filter (\<lambda>x. snd x \<noteq> 0) i)"
    using validate_cases [of scopes dependencies extra mode] assms by (auto split: if_splits)
  note e = kahn_end [OF s(5) s(4) [folded s(3)] s(2)]
  have "set xs = {s \<in> K. fed_by_cycle E s}" using e(1,3) s(3,7) by simp
  moreover have "sorted xs" "distinct xs"
    unfolding s(7) e(4) using s(1,2) by (simp_all add: sorted_filter [where f = id, simplified])
  moreover have "xs \<noteq> []"
  proof
    assume "xs = []"
    then have "set k - set order = {}" using e(3) s(7) by simp
    moreover have "set order \<subseteq> set k" "distinct order" using s(5) by (auto simp: kahn_ok_def)
    ultimately have "card (set order) = card (set k)" by (metis Diff_eq_empty_iff subset_antisym)
    then show False using s(2,6) \<open>distinct order\<close> by (simp add: distinct_card)
  qed
  ultimately show ?thesis by blast
qed

lemma demo_cycle:
  "validate_with_ordering_edges [ScMaster, ScLayer 1, ScLayer 2, ScGroup 1]
     [demo_tap (ScLayer 1) (ScLayer 2) CurrentFrame, demo_tap (ScLayer 2) (ScLayer 1) CurrentFrame,
      demo_tap (ScLayer 2) ScMaster CurrentFrame] [] GmAdvanced =
   Some (Inl (GeCurrentCycle [ScMaster, ScLayer 1, ScLayer 2]))"
  by code_simp

lemma graph_cycle_report_witness:
  "\<exists>K E. K = known_scopes [ScMaster, ScLayer 1, ScLayer 2, ScGroup 1] \<and>
     E = current_edges K [demo_tap (ScLayer 1) (ScLayer 2) CurrentFrame, demo_tap (ScLayer 2) (ScLayer 1) CurrentFrame,
      demo_tap (ScLayer 2) ScMaster CurrentFrame] [] \<and>
     {s \<in> K. fed_by_cycle E s} = {ScMaster, ScLayer 1, ScLayer 2}"
  using graph_cycle_report [OF demo_cycle refl refl] by auto

end
