(* ===== verification/Rack_Nodes.thy ===== *)
theory Rack_Nodes
  imports Image_Graph Byte_Codec
begin

text \<open>
  The nodes of a visual rack (\<open>src/src/visual_rack.rs\<close>, and the routes of \<open>src/src/symmetry.rs\<close>): image
  taps and motion donors in their saved form (a layer position) and their live form (a stable
  layer identity), the two directions between them, tombstones of removed layers and groups, node
  kinds with their resource budgets.  A kind is one datatype for both forms, over the type \<open>'t\<close> of its
  taps and \<open>'m\<close> of its motion donors.  \<open>'x\<close> stands for the parameter structs of the shader kinds (\<open>f32\<close>
  values that no operation here reads), and the argument \<open>clean\<close> for their sanitizers.
\<close>

section \<open>Image taps\<close>

type_synonym node_id = u64

datatype saved_image_source =
    SsSelectedLayer layer_position layer_image_stage
  | SsMissingSelectedLayer layer_position layer_image_stage
  | SsOneBelow
  | SsAllBelow
  | SsGroupOutput group_id
  | SsMissingGroupOutput group_id
  | SsCleanProgram
  | SsGestureCanvas
  | SsProgramTap

datatype resolved_image_source =
    RsSelectedLayer stable_layer_id layer_position layer_image_stage
  | RsMissingSelectedLayer layer_position layer_image_stage
  | RsOneBelow
  | RsAllBelow
  | RsGroupOutput group_id
  | RsMissingGroupOutput group_id
  | RsCleanProgram
  | RsGestureCanvas
  | RsProgramTap

record saved_tap =
  sp_source :: saved_image_source
  sp_timing :: edge_timing

record resolved_tap =
  rp_source :: resolved_image_source
  rp_timing :: edge_timing

type_synonym layer_lookup = "layer_position \<Rightarrow> stable_layer_id option"
type_synonym position_lookup = "stable_layer_id \<Rightarrow> layer_position option"

definition tap_to_runtime :: "layer_lookup \<Rightarrow> (group_id \<Rightarrow> bool) \<Rightarrow> saved_tap \<Rightarrow> resolved_tap" where
  "tap_to_runtime layer_at_position group_exists t =
     \<lparr>rp_source =
        (case sp_source t of
           SsSelectedLayer p stage \<Rightarrow>
             (case layer_at_position p of
                None \<Rightarrow> RsMissingSelectedLayer p stage
              | Some i \<Rightarrow> RsSelectedLayer i p stage)
         | SsMissingSelectedLayer p stage \<Rightarrow> RsMissingSelectedLayer p stage
         | SsOneBelow \<Rightarrow> RsOneBelow
         | SsAllBelow \<Rightarrow> RsAllBelow
         | SsGroupOutput g \<Rightarrow> if group_exists g then RsGroupOutput g else RsMissingGroupOutput g
         | SsMissingGroupOutput g \<Rightarrow> RsMissingGroupOutput g
         | SsCleanProgram \<Rightarrow> RsCleanProgram
         | SsGestureCanvas \<Rightarrow> RsGestureCanvas
         | SsProgramTap \<Rightarrow> RsProgramTap),
      rp_timing = sp_timing t\<rparr>"

definition tap_to_saved :: "position_lookup \<Rightarrow> resolved_tap \<Rightarrow> saved_tap" where
  "tap_to_saved position_of_layer t =
     \<lparr>sp_source =
        (case rp_source t of
           RsSelectedLayer i p stage \<Rightarrow>
             (case position_of_layer i of
                None \<Rightarrow> SsMissingSelectedLayer p stage
              | Some q \<Rightarrow> SsSelectedLayer q stage)
         | RsMissingSelectedLayer p stage \<Rightarrow> SsMissingSelectedLayer p stage
         | RsOneBelow \<Rightarrow> SsOneBelow
         | RsAllBelow \<Rightarrow> SsAllBelow
         | RsGroupOutput g \<Rightarrow> SsGroupOutput g
         | RsMissingGroupOutput g \<Rightarrow> SsMissingGroupOutput g
         | RsCleanProgram \<Rightarrow> SsCleanProgram
         | RsGestureCanvas \<Rightarrow> SsGestureCanvas
         | RsProgramTap \<Rightarrow> SsProgramTap),
      sp_timing = rp_timing t\<rparr>"

definition saved_tap_group :: "saved_tap \<Rightarrow> group_id option" where
  "saved_tap_group t = (case sp_source t of SsGroupOutput g \<Rightarrow> Some g | SsMissingGroupOutput g \<Rightarrow> Some g | _ \<Rightarrow> None)"

definition saved_tap_layer :: "saved_tap \<Rightarrow> layer_position option" where
  "saved_tap_layer t = (case sp_source t of SsSelectedLayer p stage \<Rightarrow> Some p | _ \<Rightarrow> None)"

definition resolved_tap_group :: "resolved_tap \<Rightarrow> group_id option" where
  "resolved_tap_group t = (case rp_source t of RsGroupOutput g \<Rightarrow> Some g | RsMissingGroupOutput g \<Rightarrow> Some g | _ \<Rightarrow> None)"

definition resolved_tap_layer :: "resolved_tap \<Rightarrow> stable_layer_id option" where
  "resolved_tap_layer t = (case rp_source t of RsSelectedLayer i p stage \<Rightarrow> Some i | _ \<Rightarrow> None)"

definition tap_mark_layer_missing :: "stable_layer_id \<Rightarrow> resolved_tap \<Rightarrow> resolved_tap" where
  "tap_mark_layer_missing removed t =
     (case rp_source t of
        RsSelectedLayer i p stage \<Rightarrow> if i = removed then t\<lparr>rp_source := RsMissingSelectedLayer p stage\<rparr> else t
      | _ \<Rightarrow> t)"

definition tap_mark_group_missing :: "group_id \<Rightarrow> resolved_tap \<Rightarrow> resolved_tap" where
  "tap_mark_group_missing removed t =
     (if rp_source t = RsGroupOutput removed then t\<lparr>rp_source := RsMissingGroupOutput removed\<rparr> else t)"

definition saved_mark_group_missing :: "group_id \<Rightarrow> saved_tap \<Rightarrow> saved_tap" where
  "saved_mark_group_missing removed t =
     (if sp_source t = SsGroupOutput removed then t\<lparr>sp_source := SsMissingGroupOutput removed\<rparr> else t)"

section \<open>Motion donors\<close>

datatype saved_motion_donor = SmNone | SmSelected layer_position | SmMissing layer_position

datatype motion_donor = MdNone | MdSelected stable_layer_id layer_position | MdMissing layer_position

fun motion_to_runtime :: "layer_lookup \<Rightarrow> saved_motion_donor \<Rightarrow> motion_donor" where
  "motion_to_runtime layer_at_position SmNone = MdNone"
| "motion_to_runtime layer_at_position (SmSelected p) =
     (case layer_at_position p of None \<Rightarrow> MdMissing p | Some i \<Rightarrow> MdSelected i p)"
| "motion_to_runtime layer_at_position (SmMissing p) = MdMissing p"

fun motion_from_runtime :: "position_lookup \<Rightarrow> motion_donor \<Rightarrow> saved_motion_donor" where
  "motion_from_runtime position_of_layer MdNone = SmNone"
| "motion_from_runtime position_of_layer (MdSelected i p) =
     (case position_of_layer i of None \<Rightarrow> SmMissing p | Some q \<Rightarrow> SmSelected q)"
| "motion_from_runtime position_of_layer (MdMissing p) = SmMissing p"

fun saved_motion_layer :: "saved_motion_donor \<Rightarrow> layer_position option" where
  "saved_motion_layer (SmSelected p) = Some p"
| "saved_motion_layer m = None"

fun motion_layer :: "motion_donor \<Rightarrow> stable_layer_id option" where
  "motion_layer (MdSelected i p) = Some i"
| "motion_layer m = None"

fun motion_mark_layer_missing :: "stable_layer_id \<Rightarrow> motion_donor \<Rightarrow> motion_donor" where
  "motion_mark_layer_missing removed (MdSelected i p) = (if i = removed then MdMissing p else MdSelected i p)"
| "motion_mark_layer_missing removed m = m"

section \<open>Parameters with routes\<close>

definition F32_TWO :: f32 where "F32_TWO = 0x40000000"
definition F32_FOUR :: f32 where "F32_FOUR = 0x40800000"

definition clamp_finite :: "f32 \<Rightarrow> f32 \<Rightarrow> f32 \<Rightarrow> f32 \<Rightarrow> f32" where
  "clamp_finite v fallback lo hi = (if f32_is_finite v then f32_clamp lo hi v else fallback)"

record 't rack_matte =
  rm_tap :: 't
  rm_channel :: matte_channel
  rm_invert :: bool
  rm_amount :: f32
  rm_threshold :: f32
  rm_softness :: f32

definition rack_matte_sanitized :: "'t rack_matte \<Rightarrow> 't rack_matte" where
  "rack_matte_sanitized m = m\<lparr>rm_amount := clamp_finite (rm_amount m) F32_ONE F32_ZERO F32_ONE,
     rm_threshold := clamp_finite (rm_threshold m) F32_HALF F32_ZERO F32_ONE,
     rm_softness := clamp_finite (rm_softness m) F32_TENTH F32_ZERO F32_HALF\<rparr>"

datatype ('t, 'x) mask_params = MpRectangle 'x | MpEllipse 'x | MpImage "'t rack_matte"

datatype displace_boundary = DbTransparent | DbMirror | DbWrap | DbHold

record 't displace_params =
  dp_tap :: 't
  dp_amount_x :: f32
  dp_amount_y :: f32
  dp_boundary :: displace_boundary

definition displace_sanitized :: "'t displace_params \<Rightarrow> 't displace_params" where
  "displace_sanitized d = d\<lparr>dp_amount_x := clamp_finite (dp_amount_x d) F32_ZERO F32_MINUS_ONE F32_ONE,
     dp_amount_y := clamp_finite (dp_amount_y d) F32_ZERO F32_MINUS_ONE F32_ONE\<rparr>"

datatype residual_block = RbFour | RbEight | RbSixteen | RbThirtyTwo | RbSixtyFour
datatype residual_quantization = RqOff | RqCoarse | RqMedium | RqFine

definition RESIDUAL_ALGORITHM_VERSION :: u16 where "RESIDUAL_ALGORITHM_VERSION = 1"

record 't residual_params =
  rd_version :: u16
  rd_structure :: 't
  rd_detail :: 't
  rd_block :: residual_block
  rd_quantization :: residual_quantization
  rd_mix :: f32
  rd_gain :: f32
  rd_seed :: u32

definition residual_sanitized :: "'t residual_params \<Rightarrow> 't residual_params" where
  "residual_sanitized r = r\<lparr>rd_version := RESIDUAL_ALGORITHM_VERSION,
     rd_mix := clamp_finite (rd_mix r) F32_ZERO F32_ZERO F32_ONE,
     rd_gain := clamp_finite (rd_gain r) F32_ONE F32_ZERO F32_FOUR\<rparr>"

text \<open>\<open>sy_values\<close> are the fields of the symmetry parameters other than the routes.\<close>

record ('t, 'm, 'x) symmetry_params =
  sy_values :: 'x
  sy_donors :: "'t \<times> 't"
  sy_motion :: "'m \<times> 'm"

section \<open>Kinds\<close>

datatype node_kind_tag =
    NtLegacyCanonical | NtLegacyTemporal | NtTransform | NtDigitalColor | NtKey | NtCellular | NtShift | NtGrain
  | NtMask | NtDisplace | NtSymmetry | NtResidual | NtStudy | NtScanProcessor | NtBlockDct | NtPixelSort | NtAvalanche

datatype ('t, 'm, 'x) node_kind =
    NkLegacyCanonical
  | NkLegacyTemporal
  | NkTransform 'x
  | NkDigitalColor 'x
  | NkKey 'x
  | NkCellular 'x
  | NkShift 'x
  | NkGrain 'x
  | NkMask "('t, 'x) mask_params"
  | NkDisplace "'t displace_params"
  | NkSymmetry "('t, 'm, 'x) symmetry_params"
  | NkResidual "'t residual_params"
  | NkStudy "bytes option"
  | NkScanProcessor 'x
  | NkBlockDct 'x
  | NkPixelSort 'x
  | NkAvalanche 'x

type_synonym 'x saved_kind = "(saved_tap, saved_motion_donor, 'x) node_kind"
type_synonym 'x runtime_kind = "(resolved_tap, motion_donor, 'x) node_kind"
type_synonym 'x cleaner = "node_kind_tag \<Rightarrow> 'x \<Rightarrow> 'x"

fun kind_tag :: "('t, 'm, 'x) node_kind \<Rightarrow> node_kind_tag" where
  "kind_tag NkLegacyCanonical = NtLegacyCanonical"
| "kind_tag NkLegacyTemporal = NtLegacyTemporal"
| "kind_tag (NkTransform x) = NtTransform"
| "kind_tag (NkDigitalColor x) = NtDigitalColor"
| "kind_tag (NkKey x) = NtKey"
| "kind_tag (NkCellular x) = NtCellular"
| "kind_tag (NkShift x) = NtShift"
| "kind_tag (NkGrain x) = NtGrain"
| "kind_tag (NkMask m) = NtMask"
| "kind_tag (NkDisplace d) = NtDisplace"
| "kind_tag (NkSymmetry s) = NtSymmetry"
| "kind_tag (NkResidual r) = NtResidual"
| "kind_tag (NkStudy d) = NtStudy"
| "kind_tag (NkScanProcessor x) = NtScanProcessor"
| "kind_tag (NkBlockDct x) = NtBlockDct"
| "kind_tag (NkPixelSort x) = NtPixelSort"
| "kind_tag (NkAvalanche x) = NtAvalanche"

fun mask_sanitized :: "'x cleaner \<Rightarrow> ('t, 'x) mask_params \<Rightarrow> ('t, 'x) mask_params" where
  "mask_sanitized clean (MpRectangle x) = MpRectangle (clean NtMask x)"
| "mask_sanitized clean (MpEllipse x) = MpEllipse (clean NtMask x)"
| "mask_sanitized clean (MpImage m) = MpImage (rack_matte_sanitized m)"

definition symmetry_sanitized :: "'x cleaner \<Rightarrow> ('t, 'm, 'x) symmetry_params \<Rightarrow> ('t, 'm, 'x) symmetry_params" where
  "symmetry_sanitized clean s = s\<lparr>sy_values := clean NtSymmetry (sy_values s)\<rparr>"

fun kind_sanitized :: "'x cleaner \<Rightarrow> ('t, 'm, 'x) node_kind \<Rightarrow> ('t, 'm, 'x) node_kind" where
  "kind_sanitized clean (NkTransform x) = NkTransform (clean NtTransform x)"
| "kind_sanitized clean (NkDigitalColor x) = NkDigitalColor (clean NtDigitalColor x)"
| "kind_sanitized clean (NkKey x) = NkKey (clean NtKey x)"
| "kind_sanitized clean (NkCellular x) = NkCellular (clean NtCellular x)"
| "kind_sanitized clean (NkShift x) = NkShift (clean NtShift x)"
| "kind_sanitized clean (NkGrain x) = NkGrain (clean NtGrain x)"
| "kind_sanitized clean (NkMask m) = NkMask (mask_sanitized clean m)"
| "kind_sanitized clean (NkDisplace d) = NkDisplace (displace_sanitized d)"
| "kind_sanitized clean (NkSymmetry s) = NkSymmetry (symmetry_sanitized clean s)"
| "kind_sanitized clean (NkResidual r) = NkResidual (residual_sanitized r)"
| "kind_sanitized clean (NkScanProcessor x) = NkScanProcessor (clean NtScanProcessor x)"
| "kind_sanitized clean (NkBlockDct x) = NkBlockDct (clean NtBlockDct x)"
| "kind_sanitized clean (NkPixelSort x) = NkPixelSort (clean NtPixelSort x)"
| "kind_sanitized clean (NkAvalanche x) = NkAvalanche (clean NtAvalanche x)"
| "kind_sanitized clean NkLegacyCanonical = NkLegacyCanonical"
| "kind_sanitized clean NkLegacyTemporal = NkLegacyTemporal"
| "kind_sanitized clean (NkStudy d) = NkStudy d"

section \<open>Resolving and capturing routes\<close>

text \<open>A parameter struct with another tap or donor and otherwise the same fields.\<close>

definition matte_with_tap :: "('t \<Rightarrow> 'u) \<Rightarrow> 't rack_matte \<Rightarrow> 'u rack_matte" where
  "matte_with_tap f m = \<lparr>rm_tap = f (rm_tap m), rm_channel = rm_channel m, rm_invert = rm_invert m,
     rm_amount = rm_amount m, rm_threshold = rm_threshold m, rm_softness = rm_softness m\<rparr>"

definition displace_with_tap :: "('t \<Rightarrow> 'u) \<Rightarrow> 't displace_params \<Rightarrow> 'u displace_params" where
  "displace_with_tap f d = \<lparr>dp_tap = f (dp_tap d), dp_amount_x = dp_amount_x d, dp_amount_y = dp_amount_y d,
     dp_boundary = dp_boundary d\<rparr>"

definition residual_with_taps :: "('t \<Rightarrow> 'u) \<Rightarrow> 't residual_params \<Rightarrow> 'u residual_params" where
  "residual_with_taps f r = \<lparr>rd_version = rd_version r, rd_structure = f (rd_structure r), rd_detail = f (rd_detail r),
     rd_block = rd_block r, rd_quantization = rd_quantization r, rd_mix = rd_mix r, rd_gain = rd_gain r, rd_seed = rd_seed r\<rparr>"

definition symmetry_with_routes ::
  "('t \<Rightarrow> 'u) \<Rightarrow> ('m \<Rightarrow> 'n) \<Rightarrow> ('t, 'm, 'x) symmetry_params \<Rightarrow> ('u, 'n, 'x) symmetry_params" where
  "symmetry_with_routes f g s = \<lparr>sy_values = sy_values s, sy_donors = map_prod f f (sy_donors s),
     sy_motion = map_prod g g (sy_motion s)\<rparr>"

definition matte_resolve_routes ::
  "layer_lookup \<Rightarrow> (group_id \<Rightarrow> bool) \<Rightarrow> saved_tap rack_matte \<Rightarrow> resolved_tap rack_matte" where
  "matte_resolve_routes layers groups m = matte_with_tap (tap_to_runtime layers groups) (rack_matte_sanitized m)"

definition matte_capture_routes :: "position_lookup \<Rightarrow> resolved_tap rack_matte \<Rightarrow> saved_tap rack_matte" where
  "matte_capture_routes positions m = rack_matte_sanitized (matte_with_tap (tap_to_saved positions) m)"

definition displace_resolve_routes ::
  "layer_lookup \<Rightarrow> (group_id \<Rightarrow> bool) \<Rightarrow> saved_tap displace_params \<Rightarrow> resolved_tap displace_params" where
  "displace_resolve_routes layers groups d = displace_with_tap (tap_to_runtime layers groups) (displace_sanitized d)"

definition displace_capture_routes :: "position_lookup \<Rightarrow> resolved_tap displace_params \<Rightarrow> saved_tap displace_params" where
  "displace_capture_routes positions d = displace_sanitized (displace_with_tap (tap_to_saved positions) d)"

definition residual_resolve_routes ::
  "layer_lookup \<Rightarrow> (group_id \<Rightarrow> bool) \<Rightarrow> saved_tap residual_params \<Rightarrow> resolved_tap residual_params" where
  "residual_resolve_routes layers groups r = residual_with_taps (tap_to_runtime layers groups) (residual_sanitized r)"

definition residual_capture_routes :: "position_lookup \<Rightarrow> resolved_tap residual_params \<Rightarrow> saved_tap residual_params" where
  "residual_capture_routes positions r = residual_sanitized (residual_with_taps (tap_to_saved positions) r)"

definition symmetry_resolve_routes ::
  "'x cleaner \<Rightarrow> layer_lookup \<Rightarrow> (group_id \<Rightarrow> bool) \<Rightarrow> (saved_tap, saved_motion_donor, 'x) symmetry_params \<Rightarrow>
   (resolved_tap, motion_donor, 'x) symmetry_params" where
  "symmetry_resolve_routes clean layers groups s =
     symmetry_with_routes (tap_to_runtime layers groups) (motion_to_runtime layers) (symmetry_sanitized clean s)"

definition symmetry_capture_routes ::
  "'x cleaner \<Rightarrow> position_lookup \<Rightarrow> (resolved_tap, motion_donor, 'x) symmetry_params \<Rightarrow>
   (saved_tap, saved_motion_donor, 'x) symmetry_params" where
  "symmetry_capture_routes clean positions s =
     symmetry_sanitized clean (symmetry_with_routes (tap_to_saved positions) (motion_from_runtime positions) s)"

definition mask_resolve ::
  "'x cleaner \<Rightarrow> layer_lookup \<Rightarrow> (group_id \<Rightarrow> bool) \<Rightarrow> (saved_tap, 'x) mask_params \<Rightarrow> (resolved_tap, 'x) mask_params" where
  "mask_resolve clean layers groups saved =
     (case mask_sanitized clean saved of
        MpRectangle x \<Rightarrow> MpRectangle x
      | MpEllipse x \<Rightarrow> MpEllipse x
      | MpImage m \<Rightarrow> MpImage (matte_resolve_routes layers groups m))"

fun mask_capture ::
  "'x cleaner \<Rightarrow> position_lookup \<Rightarrow> (resolved_tap, 'x) mask_params \<Rightarrow> (saved_tap, 'x) mask_params" where
  "mask_capture clean positions (MpRectangle x) = MpRectangle (clean NtMask x)"
| "mask_capture clean positions (MpEllipse x) = MpEllipse (clean NtMask x)"
| "mask_capture clean positions (MpImage m) = MpImage (matte_capture_routes positions m)"

text \<open>\<open>kind_resolve_clean\<close> is the match of \<open>resolve\<close>, which first sanitizes the saved kind.\<close>

fun kind_resolve_clean ::
  "'x cleaner \<Rightarrow> layer_lookup \<Rightarrow> (group_id \<Rightarrow> bool) \<Rightarrow> 'x saved_kind \<Rightarrow> 'x runtime_kind" where
  "kind_resolve_clean clean layers groups NkLegacyCanonical = NkLegacyCanonical"
| "kind_resolve_clean clean layers groups NkLegacyTemporal = NkLegacyTemporal"
| "kind_resolve_clean clean layers groups (NkTransform x) = NkTransform x"
| "kind_resolve_clean clean layers groups (NkDigitalColor x) = NkDigitalColor x"
| "kind_resolve_clean clean layers groups (NkKey x) = NkKey x"
| "kind_resolve_clean clean layers groups (NkCellular x) = NkCellular x"
| "kind_resolve_clean clean layers groups (NkShift x) = NkShift x"
| "kind_resolve_clean clean layers groups (NkGrain x) = NkGrain x"
| "kind_resolve_clean clean layers groups (NkMask m) = NkMask (mask_resolve clean layers groups m)"
| "kind_resolve_clean clean layers groups (NkDisplace d) = NkDisplace (displace_resolve_routes layers groups d)"
| "kind_resolve_clean clean layers groups (NkSymmetry s) = NkSymmetry (symmetry_resolve_routes clean layers groups s)"
| "kind_resolve_clean clean layers groups (NkResidual r) = NkResidual (residual_resolve_routes layers groups r)"
| "kind_resolve_clean clean layers groups (NkStudy d) = NkStudy d"
| "kind_resolve_clean clean layers groups (NkScanProcessor x) = NkScanProcessor (clean NtScanProcessor x)"
| "kind_resolve_clean clean layers groups (NkBlockDct x) = NkBlockDct (clean NtBlockDct x)"
| "kind_resolve_clean clean layers groups (NkPixelSort x) = NkPixelSort (clean NtPixelSort x)"
| "kind_resolve_clean clean layers groups (NkAvalanche x) = NkAvalanche (clean NtAvalanche x)"

definition kind_resolve :: "'x cleaner \<Rightarrow> layer_lookup \<Rightarrow> (group_id \<Rightarrow> bool) \<Rightarrow> 'x saved_kind \<Rightarrow> 'x runtime_kind" where
  "kind_resolve clean layers groups k = kind_resolve_clean clean layers groups (kind_sanitized clean k)"

fun kind_capture :: "'x cleaner \<Rightarrow> position_lookup \<Rightarrow> 'x runtime_kind \<Rightarrow> 'x saved_kind" where
  "kind_capture clean positions NkLegacyCanonical = NkLegacyCanonical"
| "kind_capture clean positions NkLegacyTemporal = NkLegacyTemporal"
| "kind_capture clean positions (NkTransform x) = NkTransform (clean NtTransform x)"
| "kind_capture clean positions (NkDigitalColor x) = NkDigitalColor (clean NtDigitalColor x)"
| "kind_capture clean positions (NkKey x) = NkKey (clean NtKey x)"
| "kind_capture clean positions (NkCellular x) = NkCellular (clean NtCellular x)"
| "kind_capture clean positions (NkShift x) = NkShift (clean NtShift x)"
| "kind_capture clean positions (NkGrain x) = NkGrain (clean NtGrain x)"
| "kind_capture clean positions (NkMask m) = NkMask (mask_capture clean positions m)"
| "kind_capture clean positions (NkDisplace d) = NkDisplace (displace_capture_routes positions d)"
| "kind_capture clean positions (NkSymmetry s) = NkSymmetry (symmetry_capture_routes clean positions s)"
| "kind_capture clean positions (NkResidual r) = NkResidual (residual_capture_routes positions r)"
| "kind_capture clean positions (NkStudy d) = NkStudy d"
| "kind_capture clean positions (NkScanProcessor x) = NkScanProcessor (clean NtScanProcessor x)"
| "kind_capture clean positions (NkBlockDct x) = NkBlockDct (clean NtBlockDct x)"
| "kind_capture clean positions (NkPixelSort x) = NkPixelSort (clean NtPixelSort x)"
| "kind_capture clean positions (NkAvalanche x) = NkAvalanche (clean NtAvalanche x)"

section \<open>Routes of a kind\<close>

text \<open>Slots in order; an absent route is \<open>None\<close>.\<close>

fun kind_groups :: "('t \<Rightarrow> group_id option) \<Rightarrow> ('t, 'm, 'x) node_kind \<Rightarrow> group_id option list" where
  "kind_groups group_of (NkMask (MpImage m)) = [group_of (rm_tap m), None]"
| "kind_groups group_of (NkDisplace d) = [group_of (dp_tap d), None]"
| "kind_groups group_of (NkResidual r) = [group_of (rd_structure r), group_of (rd_detail r)]"
| "kind_groups group_of (NkSymmetry s) = [group_of (fst (sy_donors s)), group_of (snd (sy_donors s))]"
| "kind_groups group_of k = [None, None]"

fun kind_layers :: "('t \<Rightarrow> 'l option) \<Rightarrow> ('m \<Rightarrow> 'l option) \<Rightarrow> ('t, 'm, 'x) node_kind \<Rightarrow> 'l option list" where
  "kind_layers layer_of motion_of (NkMask (MpImage m)) = [layer_of (rm_tap m), None, None, None]"
| "kind_layers layer_of motion_of (NkDisplace d) = [layer_of (dp_tap d), None, None, None]"
| "kind_layers layer_of motion_of (NkResidual r) = [layer_of (rd_structure r), layer_of (rd_detail r), None, None]"
| "kind_layers layer_of motion_of (NkSymmetry s) =
     [layer_of (fst (sy_donors s)), layer_of (snd (sy_donors s)),
      motion_of (fst (sy_motion s)), motion_of (snd (sy_motion s))]"
| "kind_layers layer_of motion_of k = [None, None, None, None]"

text \<open>One edit of every route of a kind.\<close>

fun kind_edit_routes :: "('t \<Rightarrow> 't) \<Rightarrow> ('m \<Rightarrow> 'm) \<Rightarrow> ('t, 'm, 'x) node_kind \<Rightarrow> ('t, 'm, 'x) node_kind" where
  "kind_edit_routes f g (NkMask (MpImage m)) = NkMask (MpImage (m\<lparr>rm_tap := f (rm_tap m)\<rparr>))"
| "kind_edit_routes f g (NkDisplace d) = NkDisplace (d\<lparr>dp_tap := f (dp_tap d)\<rparr>)"
| "kind_edit_routes f g (NkSymmetry s) =
     NkSymmetry (s\<lparr>sy_donors := map_prod f f (sy_donors s), sy_motion := map_prod g g (sy_motion s)\<rparr>)"
| "kind_edit_routes f g (NkResidual r) =
     NkResidual (r\<lparr>rd_structure := f (rd_structure r), rd_detail := f (rd_detail r)\<rparr>)"
| "kind_edit_routes f g k = k"

definition kind_mark_layer_missing :: "stable_layer_id \<Rightarrow> 'x runtime_kind \<Rightarrow> 'x runtime_kind" where
  "kind_mark_layer_missing removed = kind_edit_routes (tap_mark_layer_missing removed) (motion_mark_layer_missing removed)"

definition kind_mark_group_missing :: "group_id \<Rightarrow> 'x runtime_kind \<Rightarrow> 'x runtime_kind" where
  "kind_mark_group_missing removed = kind_edit_routes (tap_mark_group_missing removed) id"

definition saved_kind_mark_group_missing :: "group_id \<Rightarrow> 'x saved_kind \<Rightarrow> 'x saved_kind" where
  "saved_kind_mark_group_missing removed = kind_edit_routes (saved_mark_group_missing removed) id"

section \<open>Resource budgets\<close>

fun signature_code :: "node_kind_tag \<Rightarrow> u8" where
  "signature_code NtLegacyCanonical = 1" | "signature_code NtLegacyTemporal = 2" | "signature_code NtTransform = 3"
| "signature_code NtDigitalColor = 4" | "signature_code NtKey = 5" | "signature_code NtCellular = 6"
| "signature_code NtShift = 7" | "signature_code NtGrain = 8" | "signature_code NtMask = 9"
| "signature_code NtDisplace = 10" | "signature_code NtResidual = 11" | "signature_code NtSymmetry = 12"
| "signature_code NtStudy = 13" | "signature_code NtScanProcessor = 14" | "signature_code NtBlockDct = 15"
| "signature_code NtPixelSort = 16" | "signature_code NtAvalanche = 17"

definition occupies_dedicated_pass :: "node_kind_tag \<Rightarrow> bool" where
  "occupies_dedicated_pass tag \<longleftrightarrow>
     (case tag of NtSymmetry \<Rightarrow> True | NtStudy \<Rightarrow> True | NtScanProcessor \<Rightarrow> True | NtBlockDct \<Rightarrow> True
      | NtPixelSort \<Rightarrow> True | NtAvalanche \<Rightarrow> True | _ \<Rightarrow> False)"

record node_budget =
  nb_passes :: u8
  nb_lookups :: u8
  nb_samples :: u8
  nb_textures :: u8
  nb_taps :: u8
  nb_reduced_passes :: u8
  nb_reduced_surfaces :: u8

record kind_descriptor =
  kd_tag :: node_kind_tag
  kd_key :: rstr
  kd_title :: rstr
  kd_budget :: node_budget

definition PREMULTIPLIED_BILINEAR_TEXTURE_OPS :: u8 where "PREMULTIPLIED_BILINEAR_TEXTURE_OPS = 4"

definition descriptor ::
  "node_kind_tag \<Rightarrow> string \<Rightarrow> string \<Rightarrow> u8 \<Rightarrow> u8 \<Rightarrow> u8 \<Rightarrow> u8 \<Rightarrow> u8 \<Rightarrow> u8 \<Rightarrow> u8 \<Rightarrow> kind_descriptor" where
  "descriptor tag key title passes lookups samples textures taps reduced_passes reduced_surfaces =
     \<lparr>kd_tag = tag, kd_key = lit key, kd_title = lit title,
      kd_budget = \<lparr>nb_passes = passes, nb_lookups = lookups, nb_samples = samples, nb_textures = textures,
        nb_taps = taps, nb_reduced_passes = reduced_passes, nb_reduced_surfaces = reduced_surfaces\<rparr>\<rparr>"

definition NODE_KIND_DESCRIPTORS :: "kind_descriptor list" where
  "NODE_KIND_DESCRIPTORS =
    [
     descriptor NtLegacyCanonical ''legacy_canonical'' ''Legacy Canonical'' 1 12 (12) 1 0 0 0,
     descriptor NtLegacyTemporal ''legacy_temporal'' ''Legacy Temporal'' 1 6 (9) 3 1 0 0,
     descriptor NtTransform ''transform'' ''Transform'' 1 2 (PREMULTIPLIED_BILINEAR_TEXTURE_OPS * 2) 1 0 0 0,
     descriptor NtDigitalColor ''digital_color'' ''Digital / Color'' 1 4 (PREMULTIPLIED_BILINEAR_TEXTURE_OPS * 4) 1 0 0 0,
     descriptor NtKey ''key'' ''Key'' 1 1 (PREMULTIPLIED_BILINEAR_TEXTURE_OPS) 1 0 0 0,
     descriptor NtCellular ''cellular'' ''Cellular'' 1 2 (PREMULTIPLIED_BILINEAR_TEXTURE_OPS * 2) 1 0 0 0,
     descriptor NtShift ''shift'' ''Shift'' 1 2 (PREMULTIPLIED_BILINEAR_TEXTURE_OPS * 2) 1 0 0 0,
     descriptor NtGrain ''grain'' ''Grain'' 1 1 (PREMULTIPLIED_BILINEAR_TEXTURE_OPS) 1 0 0 0,
     descriptor NtMask ''mask'' ''Mask'' 1 2 (PREMULTIPLIED_BILINEAR_TEXTURE_OPS + 1) 2 1 0 0,
     descriptor NtDisplace ''displace'' ''Displace'' 1 3 (PREMULTIPLIED_BILINEAR_TEXTURE_OPS * 3) 2 1 0 0,
     descriptor NtResidual ''residual'' ''Residual Counterpoint'' 1 3 (PREMULTIPLIED_BILINEAR_TEXTURE_OPS * 3) 3 2 2 2,
     descriptor NtSymmetry ''symmetry'' ''Symmetry Field'' 1 4 (PREMULTIPLIED_BILINEAR_TEXTURE_OPS * 2 + 2) 8 2 0 0,
     descriptor NtStudy ''study'' ''Study'' 1 8 (8) 3 0 0 0,
     descriptor NtScanProcessor ''scan_processor'' ''Scan Processor'' 2 2 (2) 2 0 0 0,
     descriptor NtBlockDct ''block_dct'' ''Block DCT'' 4 17 (17) 2 0 0 0,
     descriptor NtPixelSort ''pixel_sort'' ''Pixel Sort'' 1 34 (34) 1 0 0 0,
     descriptor NtAvalanche ''avalanche'' ''Filter Avalanche'' 1 65 (65) 2 0 0 0]"

text \<open>The registry lookup; \<open>None\<close> is the failing \<open>expect\<close>.\<close>

definition node_kind_descriptor :: "node_kind_tag \<Rightarrow> kind_descriptor option" where
  "node_kind_descriptor tag = find (\<lambda>d. kd_tag d = tag) NODE_KIND_DESCRIPTORS"

end
