(* ===== verification/List_Edit.thy ===== *)
theory List_Edit
  imports Prelude "HOL-Library.Multiset"
begin

text \<open>
  Index-based edits of a \<open>Vec\<close> (\<open>insert\<close>, \<open>remove\<close>, \<open>position\<close>, and a move as a removal and an insertion)
  and identities handed out by a cursor that zero marks as exhausted, as the racks and the
  composition trees use them.  The locale states what both promise of their identities.
\<close>

section \<open>Vectors\<close>

definition vec_insert :: "nat \<Rightarrow> 'a \<Rightarrow> 'a list \<Rightarrow> 'a list" where
  "vec_insert i x xs = take i xs @ x # drop i xs"

definition vec_remove :: "nat \<Rightarrow> 'a list \<Rightarrow> 'a list" where
  "vec_remove i xs = take i xs @ drop (Suc i) xs"

definition vec_move :: "nat \<Rightarrow> nat \<Rightarrow> 'a list \<Rightarrow> 'a list" where
  "vec_move i j xs = vec_insert j (xs ! i) (vec_remove i xs)"

fun vec_position :: "('a \<Rightarrow> bool) \<Rightarrow> 'a list \<Rightarrow> nat option" where
  "vec_position P [] = None"
| "vec_position P (x # xs) = (if P x then Some 0 else map_option Suc (vec_position P xs))"

lemma vec_position_Some:
  "vec_position P xs = Some i \<Longrightarrow> i < length xs \<and> P (xs ! i) \<and> (\<forall>j < i. \<not> P (xs ! j))"
  by (induction xs arbitrary: i) (auto split: if_splits simp: less_Suc_eq_0_disj)

lemma vec_position_None: "vec_position P xs = None \<longleftrightarrow> (\<forall>x \<in> set xs. \<not> P x)"
  by (induction xs) auto

lemma set_vec_insert [simp]: "set (vec_insert i x xs) = insert x (set xs)"
  by (metis (no_types, lifting) Un_insert_right append_take_drop_id list.simps(15) set_append vec_insert_def)

lemma mset_vec_insert [simp]: "mset (vec_insert i x xs) = add_mset x (mset xs)"
  by (metis (no_types, lifting) append_take_drop_id mset.simps(2) mset_append union_mset_add_mset_right vec_insert_def)

lemma length_vec_insert [simp]: "length (vec_insert i x xs) = Suc (length xs)"
  by (simp add: vec_insert_def)

lemma map_vec_insert: "map f (vec_insert i x xs) = vec_insert i (f x) (map f xs)"
  by (simp add: vec_insert_def take_map drop_map)

lemma vec_remove_split: "i < length xs \<Longrightarrow> xs = take i xs @ xs ! i # drop (Suc i) xs"
  by (simp add: id_take_nth_drop)

lemma mset_vec_remove: "i < length xs \<Longrightarrow> add_mset (xs ! i) (mset (vec_remove i xs)) = mset xs"
proof -
  assume "i < length xs"
  then have "mset xs = mset (take i xs @ xs ! i # drop (Suc i) xs)" by (simp flip: vec_remove_split)
  then show ?thesis by (simp add: vec_remove_def)
qed

lemma mset_vec_remove': "i < length xs \<Longrightarrow> mset (vec_remove i xs) = mset xs - {#xs ! i#}"
  using mset_vec_remove by (metis add_mset_diff_bothsides diff_empty)

lemma length_vec_remove [simp]: "i < length xs \<Longrightarrow> length (vec_remove i xs) = length xs - 1"
  by (simp add: vec_remove_def)

lemma map_vec_remove: "map f (vec_remove i xs) = vec_remove i (map f xs)"
  by (simp add: vec_remove_def take_map drop_map)

lemma set_vec_remove_subset: "set (vec_remove i xs) \<subseteq> set xs"
  by (auto simp: vec_remove_def dest: in_set_takeD in_set_dropD)

lemma distinct_vec_remove: "distinct xs \<Longrightarrow> distinct (vec_remove i xs)"
  by (auto simp: vec_remove_def set_take_disj_set_drop_if_distinct)

lemma distinct_vec_insert: "distinct (vec_insert i x xs) \<longleftrightarrow> distinct (x # xs)"
  by (metis distinct_count_atmost_1 mset.simps(2) mset_vec_insert set_mset_mset)

lemma vec_remove_insert: "i \<le> length xs \<Longrightarrow> vec_remove i (vec_insert i x xs) = xs"
  by (simp add: vec_remove_def vec_insert_def)

lemma vec_insert_remove: "i < length xs \<Longrightarrow> vec_insert i (xs ! i) (vec_remove i xs) = xs"
  by (simp add: vec_insert_def vec_remove_def min_def flip: vec_remove_split)

lemma mset_vec_move [simp]: "i < length xs \<Longrightarrow> mset (vec_move i j xs) = mset xs"
  by (simp add: vec_move_def mset_vec_remove)

lemma set_vec_move [simp]: "i < length xs \<Longrightarrow> set (vec_move i j xs) = set xs"
  by (metis mset_eq_setD mset_vec_move)

lemma length_vec_move [simp]: "i < length xs \<Longrightarrow> length (vec_move i j xs) = length xs"
  by (metis mset_vec_move size_mset)

lemma map_vec_move: "i < length xs \<Longrightarrow> map f (vec_move i j xs) = vec_move i j (map f xs)"
  by (simp add: vec_move_def map_vec_insert map_vec_remove)

lemma nth_vec_insert: "j \<le> length xs \<Longrightarrow> vec_insert j x xs ! j = x"
  by (simp add: vec_insert_def nth_append)

section \<open>Identity cursors\<close>

text \<open>The successor of an identity; zero stands for an exhausted cursor.\<close>

definition cursor_after :: "u64 \<Rightarrow> u64" where
  "cursor_after i = (case checked_add i 1 of None \<Rightarrow> 0 | Some n \<Rightarrow> n)"

definition cursor_beyond :: "u64 \<Rightarrow> u64 set \<Rightarrow> bool" where
  "cursor_beyond next ids \<longleftrightarrow> next = 0 \<or> (\<forall>i \<in> ids. i < next)"

lemma cursor_after_cases: "cursor_after i = (if i = - 1 then 0 else i + 1)"
proof (cases "i = - 1")
  case True
  then show ?thesis by (simp add: cursor_after_def checked_add_def)
next
  case False
  then have "unat i \<noteq> unat (- 1 :: u64)" by (simp add: word_unat_eq_iff)
  then have "unat i < 2 ^ 64 - 1" using unat_lt2p [of i] unat_max_word [where 'a = 64] by simp
  then show ?thesis using False by (simp add: cursor_after_def checked_add_def)
qed

lemma cursor_after_greater: "cursor_after i \<noteq> 0 \<Longrightarrow> i < cursor_after i"
  by (auto simp: cursor_after_def checked_add_def word_less_nat_alt unat_word_ariths split: if_splits)

lemma cursor_beyond_after: "cursor_beyond next ids \<Longrightarrow> next \<noteq> 0 \<Longrightarrow> cursor_beyond (cursor_after next) (insert next ids)"
  using cursor_after_greater [of "next"] by (auto simp: cursor_beyond_def intro: less_trans)

section \<open>Allocators\<close>

text \<open>A machine that hands out identities from its cursor.  \<open>seen\<close> are the identities it holds in any role;
  a cursor beyond all of them that only moves forward never hands out one of them again.\<close>

definition alloc_run :: "('s \<Rightarrow> 'x \<Rightarrow> 's \<times> u64 option) \<Rightarrow> 's \<Rightarrow> 'x list \<Rightarrow> 's" where
  "alloc_run step s xs = foldl (\<lambda>s x. fst (step s x)) s xs"

fun issued_ids :: "('s \<Rightarrow> 'x \<Rightarrow> 's \<times> u64 option) \<Rightarrow> 's \<Rightarrow> 'x list \<Rightarrow> u64 list" where
  "issued_ids step s [] = []"
| "issued_ids step s (x # xs) =
     (case snd (step s x) of None \<Rightarrow> [] | Some i \<Rightarrow> [i]) @ issued_ids step (fst (step s x)) xs"

fun ever_seen :: "('s \<Rightarrow> 'x \<Rightarrow> 's \<times> u64 option) \<Rightarrow> ('s \<Rightarrow> u64 set) \<Rightarrow> 's \<Rightarrow> 'x list \<Rightarrow> u64 set" where
  "ever_seen step seen s [] = seen s"
| "ever_seen step seen s (x # xs) = seen s \<union> ever_seen step seen (fst (step s x)) xs"

locale id_allocator = invariant_machine "\<lambda>s x. fst (step s x)" inv
  for step :: "'s \<Rightarrow> 'x \<Rightarrow> 's \<times> u64 option" and inv :: "'s \<Rightarrow> bool" +
  fixes seen :: "'s \<Rightarrow> u64 set" and cursor :: "'s \<Rightarrow> u64"
  assumes beyond: "inv s \<Longrightarrow> cursor_beyond (cursor s) (seen s)"
    and issue: "inv s \<Longrightarrow> step s x = (s', Some i) \<Longrightarrow> i = cursor s \<and> i \<noteq> 0 \<and> cursor_beyond (cursor s') {i}"
    and forward: "inv s \<Longrightarrow> step s x = (s', r) \<Longrightarrow> cursor s' = 0 \<or> cursor s \<noteq> 0 \<and> cursor s \<le> cursor s'"
begin

lemma beyond_forward:
  "inv s \<Longrightarrow> cursor_beyond (cursor s) X \<Longrightarrow> cursor_beyond (cursor (fst (step s x))) X"
  using forward [of s x "fst (step s x)" "snd (step s x)"] by (auto simp: cursor_beyond_def intro: less_le_trans)

lemma beyond_run:
  "inv s \<Longrightarrow> cursor_beyond (cursor s) X \<Longrightarrow> cursor_beyond (cursor (alloc_run step s xs)) X"
  unfolding alloc_run_def by (induction xs arbitrary: s) (auto intro: beyond_forward inv_step)

lemma beyond_history:
  "inv s \<Longrightarrow> cursor_beyond (cursor (alloc_run step s xs)) (ever_seen step seen s xs \<union> set (issued_ids step s xs))"
proof (induction xs arbitrary: s)
  case Nil
  then show ?case by (simp add: alloc_run_def beyond)
next
  case (Cons x xs)
  have run: "alloc_run step s (x # xs) = alloc_run step (fst (step s x)) xs" by (simp add: alloc_run_def)
  have new: "cursor_beyond (cursor (fst (step s x))) (set_option (snd (step s x)))"
  proof (cases "snd (step s x)")
    case (Some i)
    then show ?thesis using issue [OF Cons.prems, of x "fst (step s x)" i] by (metis option.set(2) prod.collapse)
  qed (simp add: cursor_beyond_def)
  have "cursor_beyond (cursor (alloc_run step (fst (step s x)) xs)) (seen s)"
    "cursor_beyond (cursor (alloc_run step (fst (step s x)) xs)) (set_option (snd (step s x)))"
    "cursor_beyond (cursor (alloc_run step (fst (step s x)) xs)) (ever_seen step seen (fst (step s x)) xs \<union> set (issued_ids step (fst (step s x)) xs))"
    using Cons inv_step beyond_run beyond_forward beyond new by blast+
  then show ?case by (auto simp: run cursor_beyond_def split: option.splits)
qed

lemma issued_fresh:
  assumes "inv s" "snd (step (alloc_run step s xs) x) = Some i"
  shows "i \<notin> ever_seen step seen s xs \<union> set (issued_ids step s xs)"
proof -
  have "inv (alloc_run step s xs)" unfolding alloc_run_def using assms(1) by (rule inv_run)
  then have "i = cursor (alloc_run step s xs) \<and> i \<noteq> 0" using issue assms(2) by (metis prod.collapse)
  then show ?thesis using beyond_history [OF assms(1), of xs] by (auto simp: cursor_beyond_def)
qed

lemma issued_append: "issued_ids step s (xs @ ys) = issued_ids step s xs @ issued_ids step (alloc_run step s xs) ys"
  by (induction xs arbitrary: s) (simp_all add: alloc_run_def)

lemma issued_distinct: "inv s \<Longrightarrow> distinct (issued_ids step s xs)"
proof (induction xs rule: rev_induct)
  case (snoc x xs)
  then show ?case using issued_fresh [OF snoc.prems, of xs x]
    by (auto simp: issued_append split: option.splits)
qed simp

end

end
