(* ===== verification/Visual_Rack.thy ===== *)
theory Visual_Rack
  imports Rack_Nodes List_Edit
begin

text \<open>
  The racks of \<open>src/src/visual_rack.rs\<close>: at most eight nodes with identities from a cursor, the frozen
  legacy markers, the resource budget with its ceilings, and the resource plan of a whole frame.
  \<open>VisualRack\<close> and \<open>RuntimeVisualRack\<close> are the two instances of one record; the operations they share
  word for word are one definition, and those of the runtime rack only wrap its errors.
\<close>

section \<open>Constants and errors\<close>

definition MAX_NODES_PER_RACK :: nat where "MAX_NODES_PER_RACK = 8"
definition MAX_LOGICAL_TEXTURE_LOOKUPS_PER_RACK :: u32 where "MAX_LOGICAL_TEXTURE_LOOKUPS_PER_RACK = 32"
definition MAX_LOGICAL_TEXTURE_LOOKUPS_PER_FRAME :: u32 where "MAX_LOGICAL_TEXTURE_LOOKUPS_PER_FRAME = 1024"
definition MAX_TEXTURE_SAMPLES_PER_RACK :: u32 where
  "MAX_TEXTURE_SAMPLES_PER_RACK = MAX_LOGICAL_TEXTURE_LOOKUPS_PER_RACK * ucast PREMULTIPLIED_BILINEAR_TEXTURE_OPS"
definition MAX_TEXTURE_SAMPLES_PER_FRAME :: u32 where
  "MAX_TEXTURE_SAMPLES_PER_FRAME = MAX_LOGICAL_TEXTURE_LOOKUPS_PER_FRAME * ucast PREMULTIPLIED_BILINEAR_TEXTURE_OPS"
definition MAX_SAMPLED_TEXTURES_PER_PASS :: u32 where "MAX_SAMPLED_TEXTURES_PER_PASS = 3"
definition MAX_SAMPLED_TEXTURES_PER_DEDICATED_PASS :: u32 where "MAX_SAMPLED_TEXTURES_PER_DEDICATED_PASS = 8"
definition MAX_LOGICAL_TEXTURE_LOOKUPS_PER_DEDICATED_PASS :: u32 where
  "MAX_LOGICAL_TEXTURE_LOOKUPS_PER_DEDICATED_PASS = 65"
definition MAX_CREATIVE_GPU_BYTES :: u64 where "MAX_CREATIVE_GPU_BYTES = 512 * 1024 * 1024"
definition BASE_CREATIVE_SURFACE_LAYERS :: u32 where "BASE_CREATIVE_SURFACE_LAYERS = 6"
definition LEGACY_CANONICAL :: node_id where "LEGACY_CANONICAL = 1"
definition LEGACY_TEMPORAL :: node_id where "LEGACY_TEMPORAL = 2"
definition FIRST_AUTHORED :: node_id where "FIRST_AUTHORED = 3"

definition node_id_new :: "u64 \<Rightarrow> node_id option" where
  "node_id_new value = (if value = 0 then None else Some value)"

datatype rack_scope = RackLayer | RackMaster | RackGroup

datatype rack_error =
    ReTooManyNodes nat
  | ReDuplicateNodeId node_id
  | ReReservedNodeId node_id node_kind_tag
  | ReLegacyMarkerId node_kind_tag node_id
  | ReMutableLegacyMarker node_id
  | ReLegacyTemporalOnLayer
  | ReLegacyMarkerOnGroup node_kind_tag
  | ReInvalidNextNodeId u64 u64
  | ReNodeIdExhausted
  | ReUnknownNode node_id
  | ReInvalidMoveIndex nat nat
  | ReResourceOverflow
  | ReRackLogicalLookupBudget u32 u32
  | ReRackSampleBudget u32 u32
  | RePassTextureBudget u32 u32
  | ReDedicatedPassTextureBudget u32 u32
  | ReDescriptorPanic

text \<open>\<open>ReDescriptorPanic\<close> stands for the \<open>expect\<close> of the registry lookup; it is shown not to occur.\<close>

datatype runtime_rack_error = RrInvalidRack rack_error | RrNotImageMask node_id
datatype route_capture_error = RcInvalidRack rack_error

section \<open>Nodes and budgets\<close>

datatype node_blend =
    BlNormal | BlScreen | BlMultiply | BlDifference | BlAdd | BlSubtract | BlDarken | BlLighten | BlOverlay
  | BlSoftLight | BlHardLight | BlExclusion | BlDodge | BlBurn | BlAlphaCut

record ('t, 'm, 'x) visual_node =
  vn_id :: node_id
  vn_enabled :: bool
  vn_wet :: f32
  vn_blend :: node_blend
  vn_kind :: "('t, 'm, 'x) node_kind"

definition node_authored :: "'x cleaner \<Rightarrow> node_id \<Rightarrow> ('t, 'm, 'x) node_kind \<Rightarrow> ('t, 'm, 'x) visual_node" where
  "node_authored clean i kind = \<lparr>vn_id = i, vn_enabled = True, vn_wet = F32_ONE, vn_blend = BlNormal,
     vn_kind = kind_sanitized clean kind\<rparr>"

definition node_sanitized :: "'x cleaner \<Rightarrow> ('t, 'm, 'x) visual_node \<Rightarrow> ('t, 'm, 'x) visual_node" where
  "node_sanitized clean n = n\<lparr>vn_wet := clamp_finite (vn_wet n) F32_ONE F32_ZERO F32_ONE,
     vn_kind := kind_sanitized clean (vn_kind n)\<rparr>"

definition is_exact_legacy_marker :: "('t, 'm, 'x) visual_node \<Rightarrow> node_kind_tag \<Rightarrow> bool" where
  "is_exact_legacy_marker n expected \<longleftrightarrow>
     vn_enabled n \<and> f32_eq (vn_wet n) F32_ONE \<and> vn_blend n = BlNormal \<and> kind_tag (vn_kind n) = expected"

record rack_budget =
  rb_passes :: u32
  rb_lookups :: u32
  rb_samples :: u32
  rb_textures :: u32
  rb_dedicated_textures :: u32
  rb_ordinary_lookups :: u32
  rb_ordinary_samples :: u32
  rb_dedicated_lookups :: u32
  rb_taps :: u32
  rb_reduced_passes :: u32
  rb_reduced_surfaces :: u32

definition rack_budget_default :: rack_budget where
  "rack_budget_default = \<lparr>rb_passes = 0, rb_lookups = 0, rb_samples = 0, rb_textures = 0, rb_dedicated_textures = 0,
     rb_ordinary_lookups = 0, rb_ordinary_samples = 0, rb_dedicated_lookups = 0, rb_taps = 0, rb_reduced_passes = 0,
     rb_reduced_surfaces = 0\<rparr>"

definition charge_sampled_textures :: "rack_budget \<Rightarrow> node_kind_tag \<Rightarrow> u8 \<Rightarrow> rack_budget" where
  "charge_sampled_textures b tag textures =
     (if occupies_dedicated_pass tag then b\<lparr>rb_dedicated_textures := max (rb_dedicated_textures b) (ucast textures)\<rparr>
      else b\<lparr>rb_textures := max (rb_textures b) (ucast textures)\<rparr>)"

definition add_u8 :: "u32 \<Rightarrow> u8 \<Rightarrow> rack_error + u32" where
  "add_u8 acc n = ok_or (checked_add acc (ucast n)) ReResourceOverflow"

text \<open>The body of the budget loop for one enabled node.\<close>

definition charge_node :: "rack_budget \<Rightarrow> node_kind_tag \<Rightarrow> rack_error + rack_budget" where
  "charge_node b tag =
     rbind (ok_or (node_kind_descriptor tag) ReDescriptorPanic) (\<lambda>d. let n = kd_budget d in
     rbind (add_u8 (rb_passes b) (nb_passes n)) (\<lambda>passes.
     rbind (add_u8 (rb_lookups b) (nb_lookups n)) (\<lambda>lookups.
     rbind (add_u8 (rb_samples b) (nb_samples n)) (\<lambda>samples.
     let b1 = b\<lparr>rb_passes := passes, rb_lookups := lookups, rb_samples := samples\<rparr> in
     rbind (if occupies_dedicated_pass tag
            then Inr (b1\<lparr>rb_dedicated_lookups := max (rb_dedicated_lookups b1) (ucast (nb_lookups n))\<rparr>)
            else rbind (add_u8 (rb_ordinary_lookups b1) (nb_lookups n)) (\<lambda>ordinary.
                 rbind (add_u8 (rb_ordinary_samples b1) (nb_samples n)) (\<lambda>ordinary_samples.
                 Inr (b1\<lparr>rb_ordinary_lookups := ordinary, rb_ordinary_samples := ordinary_samples\<rparr>)))) (\<lambda>b2.
     let b3 = charge_sampled_textures b2 tag (nb_textures n) in
     rbind (add_u8 (rb_taps b3) (nb_taps n)) (\<lambda>taps.
     rbind (add_u8 (rb_reduced_passes b3) (nb_reduced_passes n)) (\<lambda>reduced_passes.
     rbind (add_u8 (rb_reduced_surfaces b3) (nb_reduced_surfaces n)) (\<lambda>reduced_surfaces.
     Inr (b3\<lparr>rb_taps := taps, rb_reduced_passes := reduced_passes, rb_reduced_surfaces := reduced_surfaces\<rparr>)))))))))"

fun charge_nodes :: "rack_budget \<Rightarrow> node_kind_tag list \<Rightarrow> rack_error + rack_budget" where
  "charge_nodes b [] = Inr b"
| "charge_nodes b (t # ts) = rbind (charge_node b t) (\<lambda>b'. charge_nodes b' ts)"

definition validate_dedicated_pass_textures :: "u32 \<Rightarrow> rack_error + unit" where
  "validate_dedicated_pass_textures textures =
     (if MAX_SAMPLED_TEXTURES_PER_DEDICATED_PASS < textures
      then Inl (ReDedicatedPassTextureBudget textures MAX_SAMPLED_TEXTURES_PER_DEDICATED_PASS) else Inr ())"

definition check_ceilings :: "rack_budget \<Rightarrow> rack_error + rack_budget" where
  "check_ceilings b =
     (if MAX_LOGICAL_TEXTURE_LOOKUPS_PER_RACK < rb_ordinary_lookups b
      then Inl (ReRackLogicalLookupBudget (rb_ordinary_lookups b) MAX_LOGICAL_TEXTURE_LOOKUPS_PER_RACK)
      else if MAX_TEXTURE_SAMPLES_PER_RACK < rb_ordinary_samples b
      then Inl (ReRackSampleBudget (rb_ordinary_samples b) MAX_TEXTURE_SAMPLES_PER_RACK)
      else if MAX_LOGICAL_TEXTURE_LOOKUPS_PER_DEDICATED_PASS < rb_dedicated_lookups b
      then Inl (ReRackLogicalLookupBudget (rb_dedicated_lookups b) MAX_LOGICAL_TEXTURE_LOOKUPS_PER_DEDICATED_PASS)
      else if MAX_SAMPLED_TEXTURES_PER_PASS < rb_textures b
      then Inl (RePassTextureBudget (rb_textures b) MAX_SAMPLED_TEXTURES_PER_PASS)
      else rbind (validate_dedicated_pass_textures (rb_dedicated_textures b)) (\<lambda>_. Inr b))"

section \<open>Racks\<close>

record ('t, 'm, 'x) rack =
  rk_nodes :: "('t, 'm, 'x) visual_node list"
  rk_next :: u64

type_synonym 'x saved_rack = "(saved_tap, saved_motion_donor, 'x) rack"
type_synonym 'x runtime_rack = "(resolved_tap, motion_donor, 'x) rack"

definition enabled_tags :: "('t, 'm, 'x) visual_node list \<Rightarrow> node_kind_tag list" where
  "enabled_tags nodes = map (\<lambda>n. kind_tag (vn_kind n)) (filter vn_enabled nodes)"

definition resource_budget :: "('t, 'm, 'x) rack \<Rightarrow> rack_error + rack_budget" where
  "resource_budget r = rbind (charge_nodes rack_budget_default (enabled_tags (rk_nodes r))) check_ceilings"

definition rack_empty :: "('t, 'm, 'x) rack" where
  "rack_empty = \<lparr>rk_nodes = [], rk_next = FIRST_AUTHORED\<rparr>"

definition synthetic_legacy :: "'x cleaner \<Rightarrow> rack_scope \<Rightarrow> ('t, 'm, 'x) rack" where
  "synthetic_legacy clean scope =
     (if scope = RackGroup then rack_empty
      else \<lparr>rk_nodes = node_authored clean LEGACY_CANONICAL NkLegacyCanonical #
              (if scope = RackMaster then [node_authored clean LEGACY_TEMPORAL NkLegacyTemporal] else []),
            rk_next = FIRST_AUTHORED\<rparr>)"

definition validate_legacy_marker :: "('t, 'm, 'x) visual_node \<Rightarrow> rack_error + unit" where
  "validate_legacy_marker n =
     (let tag = kind_tag (vn_kind n);
          expected = (if tag = NtLegacyCanonical then Some LEGACY_CANONICAL
                      else if tag = NtLegacyTemporal then Some LEGACY_TEMPORAL else None) in
      if vn_id n = LEGACY_CANONICAL \<and> tag \<noteq> NtLegacyCanonical
      then Inl (ReReservedNodeId (vn_id n) NtLegacyCanonical)
      else if vn_id n = LEGACY_TEMPORAL \<and> tag \<noteq> NtLegacyTemporal
      then Inl (ReReservedNodeId (vn_id n) NtLegacyTemporal)
      else case expected of
        None \<Rightarrow> Inr ()
      | Some i \<Rightarrow>
          if vn_id n \<noteq> i then Inl (ReLegacyMarkerId tag i)
          else if \<not> is_exact_legacy_marker n tag then Inl (ReMutableLegacyMarker (vn_id n))
          else Inr ())"

fun scan_nodes :: "node_id list \<Rightarrow> u64 \<Rightarrow> ('t, 'm, 'x) visual_node list \<Rightarrow> rack_error + u64" where
  "scan_nodes ids greatest [] = Inr greatest"
| "scan_nodes ids greatest (n # ns) =
     (if vn_id n \<in> set ids then Inl (ReDuplicateNodeId (vn_id n))
      else rbind (validate_legacy_marker n) (\<lambda>_. scan_nodes (vn_id n # ids) (max greatest (vn_id n)) ns))"

definition rack_try_from_parts ::
  "'x cleaner \<Rightarrow> ('t, 'm, 'x) visual_node list \<Rightarrow> u64 option \<Rightarrow> rack_error + ('t, 'm, 'x) rack" where
  "rack_try_from_parts clean nodes next_node_id =
     (if MAX_NODES_PER_RACK < length nodes then Inl (ReTooManyNodes MAX_NODES_PER_RACK)
      else rbind (scan_nodes [] LEGACY_TEMPORAL nodes) (\<lambda>greatest.
        let inferred = cursor_after greatest;
            next = (case next_node_id of None \<Rightarrow> inferred | Some n \<Rightarrow> n) in
        if next \<noteq> 0 \<and> next \<le> greatest \<or> next = 0 \<and> greatest \<noteq> - 1
        then Inl (ReInvalidNextNodeId next greatest)
        else let r = \<lparr>rk_nodes = map (node_sanitized clean) nodes, rk_next = next\<rparr> in
          rbind (resource_budget r) (\<lambda>_. Inr r)))"

definition rack_get :: "('t, 'm, 'x) rack \<Rightarrow> node_id \<Rightarrow> ('t, 'm, 'x) visual_node option" where
  "rack_get r i = find (\<lambda>n. vn_id n = i) (rk_nodes r)"

definition observe_node_reference :: "('t, 'm, 'x) rack \<Rightarrow> node_id \<Rightarrow> ('t, 'm, 'x) rack" where
  "observe_node_reference r i =
     (if rk_next r \<noteq> 0 \<and> rk_next r \<le> i then r\<lparr>rk_next := cursor_after i\<rparr> else r)"

definition validate_for_scope :: "('t, 'm, 'x) rack \<Rightarrow> rack_scope \<Rightarrow> rack_error + unit" where
  "validate_for_scope r scope =
     (let canonical = vec_position (\<lambda>n. kind_tag (vn_kind n) = NtLegacyCanonical) (rk_nodes r);
          temporal = vec_position (\<lambda>n. kind_tag (vn_kind n) = NtLegacyTemporal) (rk_nodes r) in
      if scope = RackGroup \<and> canonical \<noteq> None then Inl (ReLegacyMarkerOnGroup NtLegacyCanonical)
      else if scope = RackGroup \<and> temporal \<noteq> None then Inl (ReLegacyMarkerOnGroup NtLegacyTemporal)
      else if scope = RackLayer \<and> temporal \<noteq> None then Inl ReLegacyTemporalOnLayer
      else rbind (resource_budget r) (\<lambda>_. Inr ()))"

definition rack_insert ::
  "'x cleaner \<Rightarrow> ('t, 'm, 'x) rack \<Rightarrow> nat \<Rightarrow> ('t, 'm, 'x) node_kind \<Rightarrow> ('t, 'm, 'x) rack \<times> (rack_error + node_id)" where
  "rack_insert clean r index kind =
     (if length (rk_nodes r) = MAX_NODES_PER_RACK then (r, Inl (ReTooManyNodes MAX_NODES_PER_RACK))
      else if length (rk_nodes r) < index then (r, Inl (ReInvalidMoveIndex index (length (rk_nodes r))))
      else if kind = NkLegacyCanonical \<or> kind = NkLegacyTemporal
      then (r, Inl (ReLegacyMarkerId (kind_tag kind)
              (if kind = NkLegacyCanonical then LEGACY_CANONICAL else LEGACY_TEMPORAL)))
      else case node_id_new (rk_next r) of
        None \<Rightarrow> (r, Inl ReNodeIdExhausted)
      | Some i \<Rightarrow>
          (let r1 = r\<lparr>rk_next := cursor_after (rk_next r)\<rparr>;
               r2 = r1\<lparr>rk_nodes := vec_insert index (node_authored clean i kind) (rk_nodes r1)\<rparr>
           in case resource_budget r2 of
                Inl e \<Rightarrow> (r2\<lparr>rk_nodes := vec_remove index (rk_nodes r2)\<rparr>, Inl e)
              | Inr b \<Rightarrow> (r2, Inr i)))"

definition rack_push ::
  "'x cleaner \<Rightarrow> ('t, 'm, 'x) rack \<Rightarrow> ('t, 'm, 'x) node_kind \<Rightarrow> ('t, 'm, 'x) rack \<times> (rack_error + node_id)" where
  "rack_push clean r kind = rack_insert clean r (length (rk_nodes r)) kind"

definition rack_remove :: "('t, 'm, 'x) rack \<Rightarrow> node_id \<Rightarrow> ('t, 'm, 'x) rack \<times> ('t, 'm, 'x) visual_node option" where
  "rack_remove r i =
     (if i = LEGACY_CANONICAL \<or> i = LEGACY_TEMPORAL then (r, None)
      else case vec_position (\<lambda>n. vn_id n = i) (rk_nodes r) of
        None \<Rightarrow> (r, None)
      | Some index \<Rightarrow> (r\<lparr>rk_nodes := vec_remove index (rk_nodes r)\<rparr>, Some (rk_nodes r ! index)))"

definition rack_move_node ::
  "('t, 'm, 'x) rack \<Rightarrow> node_id \<Rightarrow> nat \<Rightarrow> rack_scope \<Rightarrow> ('t, 'm, 'x) rack \<times> (rack_error + unit)" where
  "rack_move_node r i new_index scope =
     (if length (rk_nodes r) \<le> new_index then (r, Inl (ReInvalidMoveIndex new_index (length (rk_nodes r))))
      else case vec_position (\<lambda>n. vn_id n = i) (rk_nodes r) of
        None \<Rightarrow> (r, Inl (ReUnknownNode i))
      | Some old_index \<Rightarrow>
          (let r1 = r\<lparr>rk_nodes := vec_move old_index new_index (rk_nodes r)\<rparr>
           in case validate_for_scope r1 scope of
                Inl e \<Rightarrow> (r1\<lparr>rk_nodes := vec_move new_index old_index (rk_nodes r1)\<rparr>, Inl e)
              | Inr _ \<Rightarrow> (r1, Inr ())))"

section \<open>Topology signatures\<close>

definition FNV_OFFSET :: u64 where "FNV_OFFSET = 0xcbf29ce484222325"
definition FNV_PRIME :: u64 where "FNV_PRIME = 0x100000001b3"

definition signature_step :: "u64 \<Rightarrow> u64 \<Rightarrow> u64" where
  "signature_step hash value = foldl (\<lambda>h b. (h XOR ucast b) * FNV_PRIME) hash (u64_le value)"

definition topology_signature :: "('t, 'm, 'x) rack \<Rightarrow> u64" where
  "topology_signature r =
     foldl (\<lambda>h n. signature_step (signature_step h (vn_id n)) (ucast (signature_code (kind_tag (vn_kind n)))))
       FNV_OFFSET (rk_nodes r)"

section \<open>Routes of a rack\<close>

definition rack_referenced_groups :: "('t \<Rightarrow> group_id option) \<Rightarrow> ('t, 'm, 'x) rack \<Rightarrow> group_id list" where
  "rack_referenced_groups group_of r =
     concat (map (\<lambda>n. concat (map (\<lambda>g. case g of None \<Rightarrow> [] | Some i \<Rightarrow> [i]) (kind_groups group_of (vn_kind n)))) (rk_nodes r))"

definition rack_selected_layers :: "('t \<Rightarrow> 'l option) \<Rightarrow> ('m \<Rightarrow> 'l option) \<Rightarrow> ('t, 'm, 'x) rack \<Rightarrow> 'l list" where
  "rack_selected_layers layer_of motion_of r =
     concat (map (\<lambda>n. concat (map (\<lambda>g. case g of None \<Rightarrow> [] | Some i \<Rightarrow> [i]) (kind_layers layer_of motion_of (vn_kind n))))
       (rk_nodes r))"

definition rack_edit_kinds :: "(('t, 'm, 'x) node_kind \<Rightarrow> ('t, 'm, 'x) node_kind) \<Rightarrow> ('t, 'm, 'x) rack \<Rightarrow> ('t, 'm, 'x) rack" where
  "rack_edit_kinds f r = r\<lparr>rk_nodes := map (\<lambda>n. n\<lparr>vn_kind := f (vn_kind n)\<rparr>) (rk_nodes r)\<rparr>"

definition saved_rack_mark_group_missing :: "group_id \<Rightarrow> 'x saved_rack \<Rightarrow> 'x saved_rack" where
  "saved_rack_mark_group_missing removed = rack_edit_kinds (saved_kind_mark_group_missing removed)"

definition rack_mark_group_missing :: "group_id \<Rightarrow> 'x runtime_rack \<Rightarrow> 'x runtime_rack" where
  "rack_mark_group_missing removed = rack_edit_kinds (kind_mark_group_missing removed)"

definition rack_mark_layer_missing :: "stable_layer_id \<Rightarrow> 'x runtime_rack \<Rightarrow> 'x runtime_rack" where
  "rack_mark_layer_missing removed = rack_edit_kinds (kind_mark_layer_missing removed)"

definition node_with_kind :: "('t, 'm, 'x) node_kind \<Rightarrow> ('u, 'n, 'x) visual_node \<Rightarrow> ('t, 'm, 'x) visual_node" where
  "node_with_kind k n = \<lparr>vn_id = vn_id n, vn_enabled = vn_enabled n, vn_wet = vn_wet n, vn_blend = vn_blend n, vn_kind = k\<rparr>"

definition rack_resolve_routes ::
  "'x cleaner \<Rightarrow> layer_lookup \<Rightarrow> (group_id \<Rightarrow> bool) \<Rightarrow> 'x saved_rack \<Rightarrow> 'x runtime_rack" where
  "rack_resolve_routes clean layers groups r =
     \<lparr>rk_nodes = map (\<lambda>n. node_with_kind (kind_resolve clean layers groups (vn_kind n)) n) (rk_nodes r),
      rk_next = rk_next r\<rparr>"

section \<open>The runtime rack\<close>

definition runtime_result :: "rack_error + 'a \<Rightarrow> runtime_rack_error + 'a" where
  "runtime_result x = (case x of Inl e \<Rightarrow> Inl (RrInvalidRack e) | Inr v \<Rightarrow> Inr v)"

definition runtime_rack_try_from_parts ::
  "'x cleaner \<Rightarrow> (resolved_tap, motion_donor, 'x) visual_node list \<Rightarrow> u64 option \<Rightarrow> runtime_rack_error + 'x runtime_rack" where
  "runtime_rack_try_from_parts clean nodes next = runtime_result (rack_try_from_parts clean nodes next)"

definition runtime_resource_budget :: "'x runtime_rack \<Rightarrow> runtime_rack_error + rack_budget" where
  "runtime_resource_budget r = runtime_result (resource_budget r)"

definition runtime_validate_for_scope :: "'x runtime_rack \<Rightarrow> rack_scope \<Rightarrow> runtime_rack_error + unit" where
  "runtime_validate_for_scope r scope = runtime_result (validate_for_scope r scope)"

definition runtime_rack_insert ::
  "'x cleaner \<Rightarrow> 'x runtime_rack \<Rightarrow> nat \<Rightarrow> 'x runtime_kind \<Rightarrow> 'x runtime_rack \<times> (runtime_rack_error + node_id)" where
  "runtime_rack_insert clean r index kind = apsnd runtime_result (rack_insert clean r index kind)"

definition runtime_rack_move_node ::
  "'x runtime_rack \<Rightarrow> node_id \<Rightarrow> nat \<Rightarrow> rack_scope \<Rightarrow> 'x runtime_rack \<times> (runtime_rack_error + unit)" where
  "runtime_rack_move_node r i new_index scope = apsnd runtime_result (rack_move_node r i new_index scope)"

definition image_mask_route :: "'x runtime_rack \<Rightarrow> node_id \<Rightarrow> resolved_tap option" where
  "image_mask_route r i =
     (case rack_get r i of
        Some n \<Rightarrow> (case vn_kind n of NkMask (MpImage m) \<Rightarrow> Some (rm_tap m) | _ \<Rightarrow> None)
      | None \<Rightarrow> None)"

text \<open>The node changed in place is the first one with that identity.\<close>

definition set_image_mask_route ::
  "'x runtime_rack \<Rightarrow> node_id \<Rightarrow> resolved_tap \<Rightarrow> 'x runtime_rack \<times> (runtime_rack_error + unit)" where
  "set_image_mask_route r i t =
     (case vec_position (\<lambda>n. vn_id n = i) (rk_nodes r) of
        None \<Rightarrow> (r, Inl (RrInvalidRack (ReUnknownNode i)))
      | Some k \<Rightarrow>
          (case vn_kind (rk_nodes r ! k) of
             NkMask (MpImage m) \<Rightarrow>
               (r\<lparr>rk_nodes := (rk_nodes r)[k := (rk_nodes r ! k)\<lparr>vn_kind := NkMask (MpImage (m\<lparr>rm_tap := t\<rparr>))\<rparr>]\<rparr>, Inr ())
           | _ \<Rightarrow> (r, Inl (RrNotImageMask i))))"

definition rack_capture_routes ::
  "'x cleaner \<Rightarrow> position_lookup \<Rightarrow> 'x runtime_rack \<Rightarrow> route_capture_error + 'x saved_rack" where
  "rack_capture_routes clean positions r =
     (case rack_try_from_parts clean (map (\<lambda>n. node_with_kind (kind_capture clean positions (vn_kind n)) n) (rk_nodes r))
        (Some (rk_next r)) of
        Inl e \<Rightarrow> Inl (RcInvalidRack e)
      | Inr saved \<Rightarrow> Inr saved)"

section \<open>The resource plan of a frame\<close>

record creative_limits =
  cl_max_dimension :: u32
  cl_max_array_layers :: u32
  cl_max_sampled_textures :: u32
  cl_uniform_alignment :: u32
  cl_max_bytes :: u64

definition creative_limits_default :: creative_limits where
  "creative_limits_default = \<lparr>cl_max_dimension = 8192, cl_max_array_layers = 256,
     cl_max_sampled_textures = MAX_SAMPLED_TEXTURES_PER_PASS, cl_uniform_alignment = 256,
     cl_max_bytes = MAX_CREATIVE_GPU_BYTES\<rparr>"

datatype preflight_error =
    PfZeroDimension
  | PfDimensionLimit "u32 \<times> u32" u32
  | PfRack nat rack_error
  | PfFrameLogicalLookupBudget u32 u32
  | PfFrameSampleBudget u32 u32
  | PfSampledTextureLimit u32 u32
  | PfTextureArrayLayerLimit u32 u32
  | PfArithmeticOverflow
  | PfCreativeMemoryBudget u64 u64

definition validate_frame_texture_budgets :: "u32 \<Rightarrow> u32 \<Rightarrow> preflight_error + unit" where
  "validate_frame_texture_budgets lookups operations =
     (if MAX_LOGICAL_TEXTURE_LOOKUPS_PER_FRAME < lookups
      then Inl (PfFrameLogicalLookupBudget lookups MAX_LOGICAL_TEXTURE_LOOKUPS_PER_FRAME)
      else if MAX_TEXTURE_SAMPLES_PER_FRAME < operations
      then Inl (PfFrameSampleBudget operations MAX_TEXTURE_SAMPLES_PER_FRAME)
      else Inr ())"

record creative_plan =
  cp_output_size :: "u32 \<times> u32"
  cp_passes :: u32
  cp_lookups :: u32
  cp_samples :: u32
  cp_layers :: u32
  cp_rgba16_layers :: u32
  cp_compat8_layers :: u32
  cp_bytes :: u64

record frame_totals =
  ft_passes :: u32
  ft_lookups :: u32
  ft_samples :: u32
  ft_textures :: u32
  ft_dedicated_textures :: u32

text \<open>The loop over the racks; \<open>i\<close> is the index of the first one left.\<close>

fun total_racks :: "nat \<Rightarrow> ('t, 'm, 'x) rack list \<Rightarrow> frame_totals \<Rightarrow> preflight_error + frame_totals" where
  "total_racks i [] t = Inr t"
| "total_racks i (r # rs) t =
     (case resource_budget r of
        Inl e \<Rightarrow> Inl (PfRack i e)
      | Inr b \<Rightarrow>
          rbind (ok_or (checked_add (ft_passes t) (rb_passes b)) PfArithmeticOverflow) (\<lambda>passes.
          rbind (ok_or (checked_add (ft_lookups t) (rb_lookups b)) PfArithmeticOverflow) (\<lambda>lookups.
          rbind (ok_or (checked_add (ft_samples t) (rb_samples b)) PfArithmeticOverflow) (\<lambda>samples.
          total_racks (Suc i) rs
            \<lparr>ft_passes = passes, ft_lookups = lookups, ft_samples = samples,
             ft_textures = max (ft_textures t) (rb_textures b),
             ft_dedicated_textures = max (ft_dedicated_textures t) (rb_dedicated_textures b)\<rparr>))))"

definition u32_of_nat :: "nat \<Rightarrow> u32 option" where
  "u32_of_nat n = (if n < 2 ^ 32 then Some (of_nat n) else None)"

definition obind :: "'a option \<Rightarrow> ('a \<Rightarrow> 'b option) \<Rightarrow> 'b option" where
  "obind x f = (case x of None \<Rightarrow> None | Some v \<Rightarrow> f v)"

definition preflight_with_surface_formats ::
  "u32 \<times> u32 \<Rightarrow> ('t, 'm, 'x) rack list \<Rightarrow> graph_plan \<Rightarrow> u32 \<Rightarrow> u32 \<Rightarrow> creative_limits \<Rightarrow> preflight_error + creative_plan" where
  "preflight_with_surface_formats dims racks graph additional_rgba16 additional_compat8 limits =
     (if fst dims = 0 \<or> snd dims = 0 then Inl PfZeroDimension
      else if cl_max_dimension limits < fst dims \<or> cl_max_dimension limits < snd dims
      then Inl (PfDimensionLimit dims (cl_max_dimension limits))
      else
        rbind (total_racks 0 racks \<lparr>ft_passes = 0, ft_lookups = 0, ft_samples = 0, ft_textures = 0, ft_dedicated_textures = 0\<rparr>) (\<lambda>t.
        rbind (validate_frame_texture_budgets (ft_lookups t) (ft_samples t)) (\<lambda>_.
        let texture_limit = min (cl_max_sampled_textures limits) MAX_SAMPLED_TEXTURES_PER_PASS in
        if texture_limit < ft_textures t then Inl (PfSampledTextureLimit (ft_textures t) texture_limit)
        else if cl_max_sampled_textures limits < ft_dedicated_textures t
        then Inl (PfSampledTextureLimit (ft_dedicated_textures t) (cl_max_sampled_textures limits))
        else
          rbind (ok_or (obind (obind (u32_of_nat (gp_current_taps graph + gp_previous_taps graph))
                   (\<lambda>v. checked_add v BASE_CREATIVE_SURFACE_LAYERS)) (\<lambda>v. checked_add v additional_rgba16)) PfArithmeticOverflow) (\<lambda>rgba16.
          rbind (ok_or (checked_add rgba16 additional_compat8) PfArithmeticOverflow) (\<lambda>layers.
          if cl_max_array_layers limits < layers then Inl (PfTextureArrayLayerLimit layers (cl_max_array_layers limits))
          else
            rbind (ok_or (checked_mul (ucast (fst dims) :: u64) (ucast (snd dims))) PfArithmeticOverflow) (\<lambda>pixels.
            rbind (ok_or (obind (checked_mul pixels 8) (\<lambda>b. checked_mul b (ucast rgba16))) PfArithmeticOverflow) (\<lambda>rgba16_bytes.
            rbind (ok_or (obind (checked_mul pixels 4) (\<lambda>b. checked_mul b (ucast additional_compat8))) PfArithmeticOverflow) (\<lambda>compat8_bytes.
            rbind (ok_or (checked_add rgba16_bytes compat8_bytes) PfArithmeticOverflow) (\<lambda>creative_bytes.
            let byte_limit = min (cl_max_bytes limits) MAX_CREATIVE_GPU_BYTES in
            if byte_limit < creative_bytes then Inl (PfCreativeMemoryBudget creative_bytes byte_limit)
            else Inr \<lparr>cp_output_size = dims, cp_passes = ft_passes t, cp_lookups = ft_lookups t, cp_samples = ft_samples t,
                   cp_layers = layers, cp_rgba16_layers = rgba16, cp_compat8_layers = additional_compat8,
                   cp_bytes = creative_bytes\<rparr>)))))))))"

definition creative_preflight ::
  "u32 \<times> u32 \<Rightarrow> ('t, 'm, 'x) rack list \<Rightarrow> graph_plan \<Rightarrow> creative_limits \<Rightarrow> preflight_error + creative_plan" where
  "creative_preflight dims racks graph limits = preflight_with_surface_formats dims racks graph 0 0 limits"

definition preflight_with_additional_surfaces ::
  "u32 \<times> u32 \<Rightarrow> ('t, 'm, 'x) rack list \<Rightarrow> graph_plan \<Rightarrow> u32 \<Rightarrow> creative_limits \<Rightarrow> preflight_error + creative_plan" where
  "preflight_with_additional_surfaces dims racks graph additional limits =
     preflight_with_surface_formats dims racks graph additional 0 limits"

end
