(* ===== verification/Visual_Rack_Laws.thy ===== *)
theory Visual_Rack_Laws
  imports Visual_Rack
begin

text \<open>
  Laws of the visual racks: the resource budget in closed form, the invariant of every edited rack and
  its allocator of identities (an interpretation of \<open>id_allocator\<close>), the exact acceptance of
  the frame's resource plan, and the two directions of the routes.
\<close>

section \<open>The descriptor table\<close>

definition tag_budget :: "node_kind_tag \<Rightarrow> node_budget" where
  "tag_budget t = kd_budget (the (node_kind_descriptor t))"

lemma node_kind_descriptor_total: "\<exists>d. node_kind_descriptor t = Some d \<and> kd_tag d = t"
  by (cases t; simp add: node_kind_descriptor_def NODE_KIND_DESCRIPTORS_def descriptor_def)

lemma node_kind_descriptor_budget: "node_kind_descriptor t = Some d \<Longrightarrow> kd_budget d = tag_budget t"
  by (simp add: tag_budget_def)

lemma tag_budget_ordinary:
  "\<not> occupies_dedicated_pass t \<Longrightarrow>
     unat (nb_samples (tag_budget t)) \<le> 4 * unat (nb_lookups (tag_budget t)) \<and> unat (nb_textures (tag_budget t)) \<le> 3"
  by (cases t; simp add: tag_budget_def node_kind_descriptor_def NODE_KIND_DESCRIPTORS_def descriptor_def
      PREMULTIPLIED_BILINEAR_TEXTURE_OPS_def occupies_dedicated_pass_def)

lemma tag_budget_dedicated:
  "unat (nb_lookups (tag_budget t)) \<le> 65 \<and> unat (nb_textures (tag_budget t)) \<le> 8"
  by (cases t; simp add: tag_budget_def node_kind_descriptor_def NODE_KIND_DESCRIPTORS_def descriptor_def
      PREMULTIPLIED_BILINEAR_TEXTURE_OPS_def)

lemma tag_budget_passes: "unat (nb_passes (tag_budget t)) \<le> unat (nb_lookups (tag_budget t))"
  by (cases t; simp add: tag_budget_def node_kind_descriptor_def NODE_KIND_DESCRIPTORS_def descriptor_def
      PREMULTIPLIED_BILINEAR_TEXTURE_OPS_def)

section \<open>The budget in closed form\<close>

definition budget_sum :: "(node_budget \<Rightarrow> u8) \<Rightarrow> node_kind_tag list \<Rightarrow> nat" where
  "budget_sum f ts = (\<Sum>t\<leftarrow>ts. unat (f (tag_budget t)))"

definition budget_max :: "(node_budget \<Rightarrow> u8) \<Rightarrow> node_kind_tag list \<Rightarrow> nat" where
  "budget_max f ts = foldl (\<lambda>m t. max m (unat (f (tag_budget t)))) 0 ts"

abbreviation ordinary :: "node_kind_tag list \<Rightarrow> node_kind_tag list" where
  "ordinary \<equiv> filter (\<lambda>t. \<not> occupies_dedicated_pass t)"

abbreviation dedicated :: "node_kind_tag list \<Rightarrow> node_kind_tag list" where
  "dedicated \<equiv> filter occupies_dedicated_pass"

definition budget_of :: "node_kind_tag list \<Rightarrow> rack_budget" where
  "budget_of ts = \<lparr>rb_passes = of_nat (budget_sum nb_passes ts), rb_lookups = of_nat (budget_sum nb_lookups ts),
     rb_samples = of_nat (budget_sum nb_samples ts),
     rb_textures = of_nat (budget_max nb_textures (ordinary ts)),
     rb_dedicated_textures = of_nat (budget_max nb_textures (dedicated ts)),
     rb_ordinary_lookups = of_nat (budget_sum nb_lookups (ordinary ts)),
     rb_ordinary_samples = of_nat (budget_sum nb_samples (ordinary ts)),
     rb_dedicated_lookups = of_nat (budget_max nb_lookups (dedicated ts)),
     rb_taps = of_nat (budget_sum nb_taps ts), rb_reduced_passes = of_nat (budget_sum nb_reduced_passes ts),
     rb_reduced_surfaces = of_nat (budget_sum nb_reduced_surfaces ts)\<rparr>"

lemma budget_sum_simps [simp]:
  "budget_sum f [] = 0" "budget_sum f (t # ts) = unat (f (tag_budget t)) + budget_sum f ts"
  "budget_sum f (ts @ us) = budget_sum f ts + budget_sum f us"
  by (simp_all add: budget_sum_def)

lemma budget_max_simps [simp]:
  "budget_max f [] = 0" "budget_max f (ts @ [t]) = max (budget_max f ts) (unat (f (tag_budget t)))"
  by (simp_all add: budget_max_def)

lemma unat_u8: "unat (w :: u8) < 256"
  using unat_lt2p [of w] by simp

lemma budget_sum_small: "budget_sum f ts \<le> 255 * length ts"
proof (induction ts)
  case (Cons t ts)
  then show ?case using unat_u8 [of "f (tag_budget t)"] by simp
qed simp

lemma budget_max_small: "budget_max f ts \<le> 255"
proof (induction ts rule: rev_induct)
  case (snoc t ts)
  then show ?case using unat_u8 [of "f (tag_budget t)"] by simp
qed simp

lemma budget_max_bound: "(\<And>t. t \<in> set ts \<Longrightarrow> unat (f (tag_budget t)) \<le> n) \<Longrightarrow> budget_max f ts \<le> n"
  by (induction ts rule: rev_induct) simp_all

lemma budget_sum_filter: "budget_sum f (filter P ts) \<le> budget_sum f ts"
  by (induction ts) auto

lemma budget_sum_mset: "mset ts = mset us \<Longrightarrow> budget_sum f ts = budget_sum f us"
  unfolding budget_sum_def by (metis mset_map sum_mset_sum_list)

lemma add_u8_of_nat:
  "n + unat w < 2 ^ 32 \<Longrightarrow> add_u8 (of_nat n) w = Inr (of_nat (n + unat w))"
  by (simp add: add_u8_def checked_add_def unat_of_nat_small unat_ucast_up)

lemma max_of_nat_u32:
  "m < 2 ^ 32 \<Longrightarrow> n < 2 ^ 32 \<Longrightarrow> max (of_nat m :: u32) (of_nat n) = of_nat (max m n)"
  by (simp add: max_def word_le_nat_alt unat_of_nat_small)

lemma ucast_u8_u32: "(ucast (w :: u8) :: u32) = of_nat (unat w)"
  by simp

lemma charge_node_of:
  assumes "length ts < 2 ^ 20"
  shows "charge_node (budget_of ts) t = Inr (budget_of (ts @ [t]))"
proof -
  obtain d where d: "node_kind_descriptor t = Some d" "kd_budget d = tag_budget t"
    using node_kind_descriptor_total node_kind_descriptor_budget by metis
  have add: "add_u8 (of_nat (budget_sum f us)) w = Inr (of_nat (budget_sum f us + unat w))"
    if "length us \<le> length ts" for f us w
    using budget_sum_small [of f us] unat_u8 [of w] that assms by (intro add_u8_of_nat) simp
  have len: "length (filter P ts) \<le> length ts" for P by simp
  have mx: "max (of_nat (budget_max f us)) (ucast (w :: u8) :: u32) = of_nat (max (budget_max f us) (unat w))" for f us w
    using budget_max_small [of f us] unat_u8 [of w] by (subst ucast_u8_u32) (intro max_of_nat_u32, simp_all)
  show ?thesis
    unfolding charge_node_def
    by (cases "occupies_dedicated_pass t")
      (simp_all add: d budget_of_def add len mx charge_sampled_textures_def Let_def del: of_nat_add)
qed

lemma charge_nodes_of:
  "length ts + length us < 2 ^ 20 \<Longrightarrow> charge_nodes (budget_of ts) us = Inr (budget_of (ts @ us))"
proof (induction us arbitrary: ts)
  case (Cons u us)
  from Cons.prems have "charge_node (budget_of ts) u = Inr (budget_of (ts @ [u]))" by (intro charge_node_of) simp
  then show ?case using Cons.IH [of "ts @ [u]"] Cons.prems by simp
qed simp

lemma budget_of_Nil: "budget_of [] = rack_budget_default"
  by (simp add: budget_of_def rack_budget_default_def)

lemma u32_nat_less: "m < 2 ^ 32 \<Longrightarrow> n < 2 ^ 32 \<Longrightarrow> (of_nat m :: u32) < of_nat n \<longleftrightarrow> m < n"
  by (simp add: word_less_nat_alt unat_of_nat_small)

lemma ordinary_samples_le: "budget_sum nb_samples (ordinary ts) \<le> 4 * budget_sum nb_lookups (ordinary ts)"
  by (induction ts) (use tag_budget_ordinary in force)+

lemma check_ceilings_of:
  assumes "length ts < 2 ^ 20"
  shows "check_ceilings (budget_of ts) =
    (if 32 < budget_sum nb_lookups (ordinary ts)
     then Inl (ReRackLogicalLookupBudget (of_nat (budget_sum nb_lookups (ordinary ts))) 32)
     else Inr (budget_of ts))"
proof -
  let ?l = "budget_sum nb_lookups (ordinary ts)"
  have small: "budget_sum f (filter P ts) < 2 ^ 32" for f P
    using le_trans [OF budget_sum_filter budget_sum_small, of f P ts] assms by simp
  have below: "(x :: u32) < of_nat n \<longleftrightarrow> unat x < n" if "n < 2 ^ 32" for x n
    using that by (simp add: word_less_nat_alt unat_of_nat_small)
  have at_most: "\<not> (x :: u32) < of_nat n" if "n \<le> unat x" for x n
  proof -
    have "n < 2 ^ 32" using that unat_lt2p [of x] by simp
    with that below show ?thesis by simp
  qed
  have dl: "budget_max nb_lookups (dedicated ts) \<le> 65" and dt: "budget_max nb_textures (dedicated ts) \<le> 8"
    using tag_budget_dedicated by (auto intro: budget_max_bound)
  have ot: "budget_max nb_textures (ordinary ts) \<le> 3"
    using tag_budget_ordinary by (auto intro: budget_max_bound)
  have rest: "\<not> MAX_LOGICAL_TEXTURE_LOOKUPS_PER_DEDICATED_PASS < rb_dedicated_lookups (budget_of ts)"
    "\<not> MAX_SAMPLED_TEXTURES_PER_PASS < rb_textures (budget_of ts)"
    "validate_dedicated_pass_textures (rb_dedicated_textures (budget_of ts)) = Inr ()"
    using at_most [of _ 65] at_most [of _ 3] at_most [of _ 8] dl dt ot
    by (simp_all add: MAX_LOGICAL_TEXTURE_LOOKUPS_PER_DEDICATED_PASS_def MAX_SAMPLED_TEXTURES_PER_PASS_def
        validate_dedicated_pass_textures_def MAX_SAMPLED_TEXTURES_PER_DEDICATED_PASS_def budget_of_def)
  have samples: "\<not> MAX_TEXTURE_SAMPLES_PER_RACK < rb_ordinary_samples (budget_of ts)" if "?l \<le> 32"
    using at_most [of _ 128] that ordinary_samples_le [of ts]
    by (simp add: MAX_TEXTURE_SAMPLES_PER_RACK_def MAX_LOGICAL_TEXTURE_LOOKUPS_PER_RACK_def
        PREMULTIPLIED_BILINEAR_TEXTURE_OPS_def budget_of_def)
  show ?thesis
  proof (cases "32 < ?l")
    case True
    then show ?thesis using below [OF small, of 32]
      by (simp add: check_ceilings_def budget_of_def MAX_LOGICAL_TEXTURE_LOOKUPS_PER_RACK_def)
  next
    case False
    then have "\<not> MAX_LOGICAL_TEXTURE_LOOKUPS_PER_RACK < rb_ordinary_lookups (budget_of ts)"
      using below [OF small, of 32] by (simp add: budget_of_def MAX_LOGICAL_TEXTURE_LOOKUPS_PER_RACK_def)
    then show ?thesis using False samples rest by (simp add: check_ceilings_def)
  qed
qed

definition ordinary_lookups :: "('t, 'm, 'x) rack \<Rightarrow> nat" where
  "ordinary_lookups r = budget_sum nb_lookups (ordinary (enabled_tags (rk_nodes r)))"

lemma length_enabled_tags: "length (enabled_tags ns) \<le> length ns"
  by (simp add: enabled_tags_def)

lemma resource_budget_of:
  assumes "length (rk_nodes r) < 2 ^ 20"
  shows "resource_budget r =
    (if 32 < ordinary_lookups r then Inl (ReRackLogicalLookupBudget (of_nat (ordinary_lookups r)) 32)
     else Inr (budget_of (enabled_tags (rk_nodes r))))"
proof -
  have "length (enabled_tags (rk_nodes r)) < 2 ^ 20" using assms length_enabled_tags le_less_trans by metis
  then show ?thesis
    using charge_nodes_of [of "[]" "enabled_tags (rk_nodes r)"] check_ceilings_of [of "enabled_tags (rk_nodes r)"]
    by (simp add: resource_budget_def budget_of_Nil ordinary_lookups_def)
qed

section \<open>Loading and editing keep one invariant\<close>

definition rack_ids :: "('t, 'm, 'x) rack \<Rightarrow> node_id list" where
  "rack_ids r = map vn_id (rk_nodes r)"

definition rack_ok :: "('t, 'm, 'x) rack \<Rightarrow> bool" where
  "rack_ok r \<longleftrightarrow> length (rk_nodes r) \<le> MAX_NODES_PER_RACK \<and> distinct (rack_ids r) \<and>
     (\<forall>n \<in> set (rk_nodes r). validate_legacy_marker n = Inr ()) \<and>
     cursor_beyond (rk_next r) (insert LEGACY_TEMPORAL (set (rack_ids r))) \<and> ordinary_lookups r \<le> 32"

lemma kind_tag_sanitized [simp]: "kind_tag (kind_sanitized clean k) = kind_tag k"
  by (cases k) simp_all

lemma node_sanitized_fields [simp]:
  "vn_id (node_sanitized clean n) = vn_id n" "vn_enabled (node_sanitized clean n) = vn_enabled n"
  "vn_blend (node_sanitized clean n) = vn_blend n" "kind_tag (vn_kind (node_sanitized clean n)) = kind_tag (vn_kind n)"
  by (simp_all add: node_sanitized_def)

lemma f32_eq_one_clamped: "f32_eq w F32_ONE \<Longrightarrow> clamp_finite w F32_ONE F32_ZERO F32_ONE = w"
proof -
  assume "f32_eq w F32_ONE"
  then have k: "f32_key w = 0x3F800000" by (simp add: f32_eq_def)
  then have "f32_magnitude w = 0x3F800000" by (auto simp: f32_key_def split: if_splits)
  then have "f32_is_finite w" by (simp add: f32_is_finite_def f32_inf_bits_def)
  then show ?thesis by (simp add: clamp_finite_def f32_clamp_def f32_lt_def k Let_def)
qed

lemma exact_marker_sanitized: "is_exact_legacy_marker n t \<Longrightarrow> is_exact_legacy_marker (node_sanitized clean n) t"
  by (simp add: is_exact_legacy_marker_def f32_eq_one_clamped) (simp add: node_sanitized_def f32_eq_one_clamped)

lemma validate_marker_sanitized:
  "validate_legacy_marker n = Inr () \<Longrightarrow> validate_legacy_marker (node_sanitized clean n) = Inr ()"
  using exact_marker_sanitized [of n "kind_tag (vn_kind n)" clean]
  by (auto simp: validate_legacy_marker_def Let_def split: if_splits)

lemma enabled_tags_sanitized [simp]: "enabled_tags (map (node_sanitized clean) ns) = enabled_tags ns"
  by (simp add: enabled_tags_def filter_map o_def)

lemma scan_nodes_Inr:
  "scan_nodes ids g ns = Inr h \<longleftrightarrow>
     distinct (map vn_id ns) \<and> set ids \<inter> vn_id ` set ns = {} \<and> (\<forall>n \<in> set ns. validate_legacy_marker n = Inr ()) \<and>
     h = foldl max g (map vn_id ns)"
proof (induction ids g ns rule: scan_nodes.induct)
  case (2 ids g n ns)
  then show ?case by (auto simp: rbind_Inr)
qed auto

lemma foldl_max_le: "foldl max (g :: u64) xs < b \<longleftrightarrow> g < b \<and> (\<forall>x \<in> set xs. x < b)"
  by (induction xs arbitrary: g) auto

lemma foldl_max_in: "foldl max (g :: u64) xs \<in> insert g (set xs)"
  by (induction xs arbitrary: g) (fastforce simp: max_def)+

lemma cursor_after_zero: "cursor_after g = 0 \<longleftrightarrow> g = - 1"
  by (auto simp: cursor_after_cases add_eq_0_iff2)

lemma resource_budget_ok:
  "length (rk_nodes r) \<le> MAX_NODES_PER_RACK \<Longrightarrow> (\<exists>b. resource_budget r = Inr b) \<longleftrightarrow> ordinary_lookups r \<le> 32"
  by (subst resource_budget_of) (auto simp: MAX_NODES_PER_RACK_def)

lemma loaded_rack_ok:
  assumes "rack_try_from_parts clean ns next_id = Inr r"
  shows "rack_ok r"
proof -
  from assms obtain g where scan: "scan_nodes [] LEGACY_TEMPORAL ns = Inr g" and len: "length ns \<le> MAX_NODES_PER_RACK"
    by (auto simp: rack_try_from_parts_def rbind_Inr split: if_splits)
  let ?next = "case next_id of None \<Rightarrow> cursor_after g | Some n \<Rightarrow> n"
  from assms scan have r: "r = \<lparr>rk_nodes = map (node_sanitized clean) ns, rk_next = ?next\<rparr>"
    and "next": "\<not> (?next \<noteq> 0 \<and> ?next \<le> g \<or> ?next = 0 \<and> g \<noteq> - 1)"
    and budget: "\<exists>b. resource_budget r = Inr b"
    by (auto simp: rack_try_from_parts_def rbind_Inr Let_def split: if_splits)
  from scan have d: "distinct (map vn_id ns)" and v: "\<forall>n \<in> set ns. validate_legacy_marker n = Inr ()"
    and g: "g = foldl max LEGACY_TEMPORAL (map vn_id ns)" by (auto simp: scan_nodes_Inr)
  from "next" have "cursor_beyond ?next (insert LEGACY_TEMPORAL (vn_id ` set ns))"
    using foldl_max_le [of LEGACY_TEMPORAL "map vn_id ns" ?next] by (auto simp: cursor_beyond_def g not_le)
  then show ?thesis
    using d v len budget resource_budget_ok [of r]
    by (auto simp: rack_ok_def r rack_ids_def o_def validate_marker_sanitized image_image)
qed

lemma max_minus_1: "max (a :: u64) b = - 1 \<longleftrightarrow> a = - 1 \<or> b = - 1"
proof -
  have top: "x = - 1 \<longleftrightarrow> - 1 \<le> x" for x :: u64 by (simp add: word_order.extremum_unique)
  show ?thesis unfolding top [of "max a b"] top [of a] top [of b] by (rule le_max_iff_disj)
qed

lemma foldl_max_minus_1: "foldl max (g :: u64) xs = - 1 \<longleftrightarrow> g = - 1 \<or> - 1 \<in> set xs"
proof (induction xs arbitrary: g)
  case (Cons x xs)
  then show ?case unfolding foldl_Cons Cons.IH max_minus_1 by auto
qed simp

lemma rack_ok_loads:
  assumes "rack_ok r"
  shows "rack_try_from_parts clean (rk_nodes r) (Some (rk_next r)) =
    (if rk_next r \<noteq> 0 \<or> - 1 \<in> set (rack_ids r)
     then Inr (r\<lparr>rk_nodes := map (node_sanitized clean) (rk_nodes r)\<rparr>)
     else Inl (ReInvalidNextNodeId 0 (foldl max LEGACY_TEMPORAL (rack_ids r))))"
proof -
  let ?r = "\<lparr>rk_nodes = map (node_sanitized clean) (rk_nodes r), rk_next = rk_next r\<rparr>"
  let ?g = "foldl max LEGACY_TEMPORAL (rack_ids r)"
  have scan: "scan_nodes [] LEGACY_TEMPORAL (rk_nodes r) = Inr ?g"
    using assms(1) by (auto simp: scan_nodes_Inr rack_ok_def rack_ids_def)
  have "?g < rk_next r" if "rk_next r \<noteq> 0" using assms that by (auto simp: rack_ok_def foldl_max_le cursor_beyond_def)
  moreover have "?g = - 1 \<longleftrightarrow> - 1 \<in> set (rack_ids r)" by (simp add: foldl_max_minus_1 LEGACY_TEMPORAL_def)
  moreover have "\<exists>b. resource_budget ?r = Inr b"
    using assms(1) resource_budget_ok [of ?r] by (simp add: rack_ok_def ordinary_lookups_def)
  ultimately show ?thesis
    using assms scan by (auto simp: rack_try_from_parts_def Let_def rack_ok_def not_less [symmetric])
qed

lemma ordinary_lookups_mset: "mset (rk_nodes r) = mset (rk_nodes s) \<Longrightarrow> ordinary_lookups r = ordinary_lookups s"
  unfolding ordinary_lookups_def enabled_tags_def
  by (intro budget_sum_mset) (metis mset_filter mset_map)

lemma ordinary_lookups_add:
  "mset (rk_nodes s) = add_mset n (mset (rk_nodes r)) \<Longrightarrow> ordinary_lookups r \<le> ordinary_lookups s"
proof -
  assume a: "mset (rk_nodes s) = add_mset n (mset (rk_nodes r))"
  have "ordinary_lookups s = ordinary_lookups \<lparr>rk_nodes = n # rk_nodes r, rk_next = 0\<rparr>"
    using a by (intro ordinary_lookups_mset) simp
  then show ?thesis by (simp add: ordinary_lookups_def enabled_tags_def)
qed

section \<open>Edits\<close>

text \<open>One edit of a rack: its result is the error, or the identity it issued if it issues one.\<close>

datatype ('t, 'm, 'x) rack_op =
    RoInsert nat "('t, 'm, 'x) node_kind"
  | RoRemove node_id
  | RoMove node_id nat rack_scope
  | RoObserve node_id

fun rack_edit :: "'x cleaner \<Rightarrow> ('t, 'm, 'x) rack \<Rightarrow> ('t, 'm, 'x) rack_op \<Rightarrow> ('t, 'm, 'x) rack \<times> (rack_error + node_id option)" where
  "rack_edit clean r (RoInsert index kind) =
     (case rack_insert clean r index kind of (r', Inl e) \<Rightarrow> (r', Inl e) | (r', Inr i) \<Rightarrow> (r', Inr (Some i)))"
| "rack_edit clean r (RoRemove i) = (fst (rack_remove r i), Inr None)"
| "rack_edit clean r (RoMove i index scope) =
     (case rack_move_node r i index scope of (r', Inl e) \<Rightarrow> (r', Inl e) | (r', Inr u) \<Rightarrow> (r', Inr None))"
| "rack_edit clean r (RoObserve i) = (observe_node_reference r i, Inr None)"

lemma cursor_beyond_mono: "cursor_beyond n A \<Longrightarrow> B \<subseteq> A \<Longrightarrow> cursor_beyond n B"
  by (auto simp: cursor_beyond_def)

lemma cursor_after_le: "n \<le> i \<Longrightarrow> cursor_after i \<noteq> 0 \<Longrightarrow> n < cursor_after i"
  using cursor_after_greater [of i] by simp

lemma cursor_beyond_observe:
  assumes "cursor_beyond n A" "n \<noteq> 0" "n \<le> i"
  shows "cursor_beyond (cursor_after i) (insert i A)"
proof -
  have "x < cursor_after i" if "cursor_after i \<noteq> 0" "x = i \<or> x < n" for x
    using cursor_after_greater [OF that(1)] that(2) assms(3) by auto
  then show ?thesis using assms(1,2) unfolding cursor_beyond_def by blast
qed

lemma rack_ok_cursor:
  "rack_ok r \<Longrightarrow> cursor_beyond n (insert LEGACY_TEMPORAL (set (rack_ids r))) \<Longrightarrow> rack_ok (r\<lparr>rk_next := n\<rparr>)"
  by (simp add: rack_ok_def rack_ids_def ordinary_lookups_def)

lemma rack_ok_observe:
  assumes "rack_ok r"
  shows "rack_ok (observe_node_reference r i)"
proof -
  have b: "cursor_beyond (rk_next r) (insert LEGACY_TEMPORAL (set (rack_ids r)))" using assms by (simp add: rack_ok_def)
  show ?thesis
    using assms rack_ok_cursor [OF assms cursor_beyond_mono [OF cursor_beyond_observe [OF b]], of i]
    by (auto simp: observe_node_reference_def)
qed

lemma rack_ids_mset: "mset (rk_nodes r) = mset (rk_nodes s) \<Longrightarrow> mset (rack_ids r) = mset (rack_ids s)"
  unfolding rack_ids_def by (metis mset_map)

text \<open>A permutation of the nodes keeps everything the invariant speaks of.\<close>

lemma rack_ok_permuted:
  assumes "rack_ok r" "mset (rk_nodes s) = mset (rk_nodes r)" "rk_next s = rk_next r"
  shows "rack_ok s"
proof -
  have "set (rk_nodes s) = set (rk_nodes r)" "length (rk_nodes s) = length (rk_nodes r)"
    "set (rack_ids s) = set (rack_ids r)" "distinct (rack_ids s) = distinct (rack_ids r)"
    using assms(2) rack_ids_mset [OF assms(2)] by (metis mset_eq_setD, metis mset_eq_length, metis mset_eq_setD,
      metis mset_eq_imp_distinct_iff)
  then show ?thesis using assms ordinary_lookups_mset [OF assms(2)] by (simp add: rack_ok_def)
qed

lemma rack_ok_remove: "rack_ok r \<Longrightarrow> rack_ok (fst (rack_remove r i))"
proof (cases "vec_position (\<lambda>n. vn_id n = i) (rk_nodes r)")
  case (Some k)
  assume r: "rack_ok r"
  from Some have k: "k < length (rk_nodes r)" using vec_position_Some by blast
  let ?r = "r\<lparr>rk_nodes := vec_remove k (rk_nodes r)\<rparr>"
  have "ordinary_lookups ?r \<le> ordinary_lookups r"
    using mset_vec_remove [OF k] by (intro ordinary_lookups_add [of _ "rk_nodes r ! k"]) simp
  then have "rack_ok ?r"
    using r k set_vec_remove_subset [of k "rk_nodes r"] set_vec_remove_subset [of k "rack_ids r"]
    by (auto simp: rack_ok_def rack_ids_def map_vec_remove distinct_vec_remove elim!: cursor_beyond_mono)
  with Some r show ?thesis by (simp add: rack_remove_def)
qed (simp add: rack_remove_def)

lemma rack_move_cases:
  "rack_move_node r i index scope = (r', res) \<Longrightarrow>
     (case res of Inl e \<Rightarrow> r' = r | Inr u \<Rightarrow> mset (rk_nodes r') = mset (rk_nodes r) \<and> rk_next r' = rk_next r)"
proof -
  assume a: "rack_move_node r i index scope = (r', res)"
  show ?thesis
  proof (cases "index < length (rk_nodes r)")
    case index: True
    show ?thesis
    proof (cases "vec_position (\<lambda>n. vn_id n = i) (rk_nodes r)")
      case None
      then show ?thesis using a index by (auto simp: rack_move_node_def)
    next
      case (Some k)
      then have k: "k < length (rk_nodes r)" using vec_position_Some by blast
      have "vec_move index k (vec_move k index (rk_nodes r)) = rk_nodes r"
        using k index by (simp add: vec_move_def nth_vec_insert vec_remove_insert vec_insert_remove less_imp_le)
      then show ?thesis using a index Some k
        by (auto simp: rack_move_node_def Let_def split: sum.splits)
    qed
  qed (use a in \<open>auto simp: rack_move_node_def\<close>)
qed

lemma rack_insert_cases:
  "rack_insert clean r index kind = (r', res) \<Longrightarrow>
     (case res of
        Inl e \<Rightarrow> rk_nodes r' = rk_nodes r \<and> (rk_next r' = rk_next r \<or> rk_next r \<noteq> 0 \<and> rk_next r' = cursor_after (rk_next r))
      | Inr i \<Rightarrow> i = rk_next r \<and> i \<noteq> 0 \<and> length (rk_nodes r) \<noteq> MAX_NODES_PER_RACK \<and> index \<le> length (rk_nodes r) \<and>
          kind \<noteq> NkLegacyCanonical \<and> kind \<noteq> NkLegacyTemporal \<and>
          r' = r\<lparr>rk_next := cursor_after i, rk_nodes := vec_insert index (node_authored clean i kind) (rk_nodes r)\<rparr> \<and>
          (\<exists>b. resource_budget r' = Inr b))"
  by (auto simp: rack_insert_def node_id_new_def Let_def vec_remove_insert split: if_splits sum.splits)

lemma authored_marker_ok:
  assumes "kind \<noteq> NkLegacyCanonical" "kind \<noteq> NkLegacyTemporal" "LEGACY_TEMPORAL < i"
  shows "validate_legacy_marker (node_authored clean i kind) = Inr ()"
proof -
  have "i \<noteq> LEGACY_CANONICAL" "i \<noteq> LEGACY_TEMPORAL"
    using assms(3) by (auto simp: LEGACY_CANONICAL_def LEGACY_TEMPORAL_def)
  moreover have "kind_tag kind \<noteq> NtLegacyCanonical" "kind_tag kind \<noteq> NtLegacyTemporal"
    using assms by (cases kind; simp)+
  ultimately show ?thesis by (simp add: validate_legacy_marker_def node_authored_def Let_def)
qed

lemma rack_ok_insert:
  assumes "rack_ok r"
  shows "rack_ok (fst (rack_insert clean r index kind))"
proof -
  obtain r' res where ins: "rack_insert clean r index kind = (r', res)" by force
  note c = rack_insert_cases [OF ins]
  have beyond: "cursor_beyond (rk_next r) (insert LEGACY_TEMPORAL (set (rack_ids r)))"
    using assms by (simp add: rack_ok_def)
  have "rack_ok r'"
  proof (cases res)
    case (Inl e)
    with c have "rk_nodes r' = rk_nodes r"
      and n: "rk_next r' = rk_next r \<or> rk_next r \<noteq> 0 \<and> rk_next r' = cursor_after (rk_next r)" by auto
    moreover have "cursor_beyond (rk_next r') (insert LEGACY_TEMPORAL (set (rack_ids r)))"
      using n beyond cursor_beyond_after [OF beyond] by (auto elim: cursor_beyond_mono)
    ultimately show ?thesis using assms by (simp add: rack_ok_def rack_ids_def ordinary_lookups_def)
  next
    case (Inr i)
    with c have i: "i = rk_next r" "i \<noteq> 0" and len: "length (rk_nodes r) \<noteq> MAX_NODES_PER_RACK"
      and k: "kind \<noteq> NkLegacyCanonical" "kind \<noteq> NkLegacyTemporal"
      and r': "r' = r\<lparr>rk_next := cursor_after i, rk_nodes := vec_insert index (node_authored clean i kind) (rk_nodes r)\<rparr>"
      and b: "\<exists>b. resource_budget r' = Inr b" by auto
    have ids: "rack_ids r' = vec_insert index i (rack_ids r)"
      by (simp add: r' rack_ids_def map_vec_insert node_authored_def)
    have above: "LEGACY_TEMPORAL < i" "\<forall>j \<in> set (rack_ids r). j < i" using beyond i by (auto simp: cursor_beyond_def)
    have "length (rk_nodes r') \<le> MAX_NODES_PER_RACK" using assms len by (simp add: r' rack_ok_def)
    moreover have "distinct (rack_ids r')" using above assms by (auto simp: ids distinct_vec_insert rack_ok_def)
    moreover have "cursor_beyond (rk_next r') (insert LEGACY_TEMPORAL (set (rack_ids r')))"
    proof -
      have "rk_next r' = cursor_after i" by (simp add: r')
      then show ?thesis using cursor_beyond_after [OF beyond] i by (simp add: ids insert_commute)
    qed
    moreover have "\<forall>n \<in> set (rk_nodes r'). validate_legacy_marker n = Inr ()"
      using assms authored_marker_ok [OF k above(1)] by (auto simp: r' rack_ok_def)
    ultimately show ?thesis using b resource_budget_ok by (auto simp: rack_ok_def)
  qed
  then show ?thesis by (simp add: ins)
qed

lemma rack_ok_edit: "rack_ok r \<Longrightarrow> rack_ok (fst (rack_edit clean r op))"
proof (cases op)
  case (RoInsert index kind)
  assume "rack_ok r"
  then show ?thesis using RoInsert rack_ok_insert [of r clean index kind] by (auto split: prod.splits sum.splits)
next
  case (RoMove i index scope)
  assume r: "rack_ok r"
  obtain r' res where m: "rack_move_node r i index scope = (r', res)" by force
  have "rack_ok r'" using rack_move_cases [OF m] r rack_ok_permuted by (cases res) auto
  then show ?thesis using m RoMove by (cases res) auto
qed (auto intro: rack_ok_remove rack_ok_observe)

section \<open>Identities of a rack\<close>

text \<open>The rack with the references observed so far: the allocator must stay clear of both.\<close>

fun observed_by :: "('t, 'm, 'x) rack_op \<Rightarrow> node_id list" where
  "observed_by (RoObserve i) = [i]"
| "observed_by op = []"

definition rack_alloc ::
  "'x cleaner \<Rightarrow> ('t, 'm, 'x) rack \<times> node_id list \<Rightarrow> ('t, 'm, 'x) rack_op \<Rightarrow> (('t, 'm, 'x) rack \<times> node_id list) \<times> node_id option" where
  "rack_alloc clean s op =
     (case rack_edit clean (fst s) op of
        (r, Inl e) \<Rightarrow> ((r, observed_by op @ snd s), None)
      | (r, Inr issued) \<Rightarrow> ((r, observed_by op @ snd s), issued))"

definition rack_seen :: "('t, 'm, 'x) rack \<times> node_id list \<Rightarrow> node_id set" where
  "rack_seen s = set (rack_ids (fst s)) \<union> set (snd s)"

definition rack_alloc_ok :: "('t, 'm, 'x) rack \<times> node_id list \<Rightarrow> bool" where
  "rack_alloc_ok s \<longleftrightarrow> rack_ok (fst s) \<and> cursor_beyond (rk_next (fst s)) (set (snd s))"

lemma rack_alloc_fst [simp]: "fst (fst (rack_alloc clean s op)) = fst (rack_edit clean (fst s) op)"
  by (simp add: rack_alloc_def split: prod.split sum.split)

lemma rack_alloc_snd [simp]: "snd (fst (rack_alloc clean s op)) = observed_by op @ snd s"
  by (simp add: rack_alloc_def split: prod.split sum.split)

lemma rack_remove_next [simp]: "rk_next (fst (rack_remove r i)) = rk_next r"
  by (simp add: rack_remove_def split: option.split)

text \<open>Every edit leaves the cursor or moves it behind the identity issued, retired or observed.\<close>

lemma rack_edit_cursor:
  assumes "cursor_beyond (rk_next r) A"
  shows "cursor_beyond (rk_next (fst (rack_edit clean r op))) (set (observed_by op) \<union> A)"
proof (cases op)
  case (RoInsert index kind)
  obtain r' res where ins: "rack_insert clean r index kind = (r', res)" by force
  have "rk_next r' = rk_next r \<or> rk_next r \<noteq> 0 \<and> rk_next r' = cursor_after (rk_next r)"
    using rack_insert_cases [OF ins] by (cases res) auto
  then have "cursor_beyond (rk_next r') A"
    using assms cursor_beyond_mono [OF cursor_beyond_after [OF assms] subset_insertI] by auto
  then show ?thesis using ins RoInsert by (cases res) auto
next
  case (RoMove i index scope)
  obtain r' res where m: "rack_move_node r i index scope = (r', res)" by force
  have "rk_next r' = rk_next r" using rack_move_cases [OF m] by (cases res) auto
  then show ?thesis using m RoMove assms by (cases res) auto
next
  case (RoObserve i)
  then show ?thesis using assms cursor_beyond_observe [OF assms, of i]
    by (auto simp: observe_node_reference_def cursor_beyond_def)
qed (use assms in simp)

lemma rack_edit_forward:
  "rk_next (fst (rack_edit clean r op)) = 0 \<or>
   rk_next r \<noteq> 0 \<and> rk_next r \<le> rk_next (fst (rack_edit clean r op))"
proof (cases "rk_next r = 0")
  case True
  show ?thesis
  proof (cases op)
    case (RoInsert index kind)
    then show ?thesis using True rack_insert_cases [of clean r index kind]
      by (cases "rack_insert clean r index kind"; cases "snd (rack_insert clean r index kind)") auto
  next
    case (RoMove i index scope)
    then show ?thesis using True rack_move_cases [of r i index scope]
      by (cases "rack_move_node r i index scope"; cases "snd (rack_move_node r i index scope)") auto
  qed (use True in \<open>auto simp: observe_node_reference_def\<close>)
next
  case False
  have "cursor_beyond (rk_next r) {x. x < rk_next r}" by (simp add: cursor_beyond_def)
  from rack_edit_cursor [OF this, of clean op]
  have b: "rk_next (fst (rack_edit clean r op)) = 0 \<or> (\<forall>x < rk_next r. x < rk_next (fst (rack_edit clean r op)))"
    by (auto simp: cursor_beyond_def)
  then show ?thesis using False by (meson leI less_irrefl)
qed

lemma rack_edit_issued:
  assumes "rack_edit clean r op = (r', Inr (Some i))"
  shows "i = rk_next r \<and> i \<noteq> 0 \<and> cursor_beyond (rk_next r') {i}"
proof -
  from assms obtain index kind where op: "op = RoInsert index kind" by (cases op) (auto split: prod.splits sum.splits)
  with assms have "rack_insert clean r index kind = (r', Inr i)" by (auto split: prod.splits sum.splits)
  from rack_insert_cases [OF this] have i: "i = rk_next r" "i \<noteq> 0" and r': "rk_next r' = cursor_after i" by auto
  have "cursor_beyond i {}" by (simp add: cursor_beyond_def)
  from cursor_beyond_after [OF this i(2)] show ?thesis using i r' by simp
qed

interpretation rack_machine: invariant_machine "\<lambda>s op. fst (rack_alloc clean s op)" rack_alloc_ok
  for clean :: "'x cleaner"
proof
  fix s :: "('t, 'm, 'x) rack \<times> node_id list" and op
  assume "rack_alloc_ok s"
  then show "rack_alloc_ok (fst (rack_alloc clean s op))"
    using rack_ok_edit [of "fst s" clean op] rack_edit_cursor [of "fst s" "set (snd s)" clean op]
    by (simp add: rack_alloc_ok_def)
qed

interpretation rack_allocator: id_allocator "rack_alloc clean" rack_alloc_ok rack_seen "\<lambda>s. rk_next (fst s)"
  for clean :: "'x cleaner"
proof
  fix s :: "('t, 'm, 'x) rack \<times> node_id list" and op s' i r
  assume ok: "rack_alloc_ok s"
  then show "cursor_beyond (rk_next (fst s)) (rack_seen s)"
    by (auto simp: rack_alloc_ok_def rack_ok_def rack_seen_def cursor_beyond_def)
  show "i = rk_next (fst s) \<and> i \<noteq> 0 \<and> cursor_beyond (rk_next (fst s')) {i}" if "rack_alloc clean s op = (s', Some i)"
    using that rack_edit_issued [of clean "fst s" op "fst s'" i]
    by (auto simp: rack_alloc_def split: prod.splits sum.splits)
  show "rk_next (fst s') = 0 \<or> rk_next (fst s) \<noteq> 0 \<and> rk_next (fst s) \<le> rk_next (fst s')"
    if "rack_alloc clean s op = (s', r)"
    using that rack_edit_forward [of clean "fst s" op] by (metis fst_conv rack_alloc_fst)
qed

section \<open>Properties of edited racks\<close>

lemma rack_history_ok:
  "rack_try_from_parts clean ns start = Inr r \<Longrightarrow> rack_alloc_ok (alloc_run (rack_alloc clean) (r, []) ops)"
proof -
  assume "rack_try_from_parts clean ns start = Inr r"
  then have "rack_alloc_ok (r, [])" using loaded_rack_ok by (auto simp: rack_alloc_ok_def cursor_beyond_def)
  then show ?thesis unfolding alloc_run_def by (rule rack_machine.inv_run)
qed

text \<open>A rack of one transform node, with the cursor given.\<close>

definition example_rack :: "u64 \<Rightarrow> (saved_tap, saved_motion_donor, unit) rack" where
  "example_rack next_id = \<lparr>rk_nodes = [node_authored (\<lambda>t x. x) 3 (NkTransform ())], rk_next = next_id\<rparr>"

lemma example_rack_loads:
  "rack_try_from_parts (\<lambda>t x. x) [node_authored (\<lambda>t x. x) 3 (NkTransform ())] (Some 7) = Inr (example_rack 7)"
  by (simp add: rack_try_from_parts_def MAX_NODES_PER_RACK_def validate_legacy_marker_def node_authored_def
      LEGACY_CANONICAL_def LEGACY_TEMPORAL_def max_def example_rack_def node_sanitized_def f32_eq_one_clamped f32_eq_def
      resource_budget_of ordinary_lookups_def enabled_tags_def tag_budget_def node_kind_descriptor_def
      NODE_KIND_DESCRIPTORS_def descriptor_def occupies_dedicated_pass_def)

text \<open>The resource budget of a rack is exact: with at most eight nodes none of its checked sums overflows, no
  descriptor is missing, and of its five ceilings only the one on ordinary texture lookups can be hit.
  It fails exactly when the enabled ordinary nodes look up more than 32 texels, and then names that sum;
  otherwise every field is the plain sum or maximum over the enabled nodes.\<close>

theorem rack_budget_exact:
  assumes "length (rk_nodes r) \<le> MAX_NODES_PER_RACK"
  shows "resource_budget r =
    (if 32 < ordinary_lookups r then Inl (ReRackLogicalLookupBudget (of_nat (ordinary_lookups r)) 32)
     else Inr (budget_of (enabled_tags (rk_nodes r))))"
  using assms by (intro resource_budget_of) (simp add: MAX_NODES_PER_RACK_def)

theorem rack_budget_exact_witness: "resource_budget (example_rack 7) = Inr (budget_of [NtTransform])"
  by (subst rack_budget_exact)
    (simp_all add: example_rack_def MAX_NODES_PER_RACK_def ordinary_lookups_def enabled_tags_def node_authored_def
      tag_budget_def node_kind_descriptor_def NODE_KIND_DESCRIPTORS_def descriptor_def occupies_dedicated_pass_def)

text \<open>C18. No identity is handed out twice: after any edits of a loaded rack, the identity the next insertion
  issues is none that a node of the rack ever had, that was issued before (also for a node since removed), or
  that was observed as a reference held elsewhere.\<close>

theorem rack_ids_never_reused:
  assumes "rack_try_from_parts clean ns start = Inr r"
    and "snd (rack_alloc clean (alloc_run (rack_alloc clean) (r, []) ops) op) = Some i"
  shows "i \<notin> ever_seen (rack_alloc clean) rack_seen (r, []) ops \<union> set (issued_ids (rack_alloc clean) (r, []) ops)"
  using rack_history_ok [OF assms(1), of "[]"] assms(2)
  by (intro rack_allocator.issued_fresh) (simp_all add: alloc_run_def)

text \<open>C19. Saving an edited rack: after any edits of a loaded rack, the constructor that every save and load goes
  through accepts its nodes and cursor, and only sanitizes the parameters, unless the cursor is exhausted while
  the node with the greatest identity is gone; such a rack is refused.\<close>

theorem edited_rack_reloads:
  assumes "rack_try_from_parts clean ns start = Inr r"
    and "fst (alloc_run (rack_alloc clean) (r, []) ops) = r'"
  shows "rack_try_from_parts clean (rk_nodes r') (Some (rk_next r')) =
    (if rk_next r' \<noteq> 0 \<or> - 1 \<in> set (rack_ids r')
     then Inr (r'\<lparr>rk_nodes := map (node_sanitized clean) (rk_nodes r')\<rparr>)
     else Inl (ReInvalidNextNodeId 0 (foldl max LEGACY_TEMPORAL (rack_ids r'))))"
  using rack_history_ok [OF assms(1), of ops] assms(2) by (intro rack_ok_loads) (auto simp: rack_alloc_ok_def)

lemmas example_rack_simps = example_rack_def rack_alloc_def alloc_run_def rack_remove_def rack_insert_def node_id_new_def
  resource_budget_of ordinary_lookups_def enabled_tags_def tag_budget_def node_kind_descriptor_def NODE_KIND_DESCRIPTORS_def
  descriptor_def occupies_dedicated_pass_def node_authored_def LEGACY_CANONICAL_def LEGACY_TEMPORAL_def MAX_NODES_PER_RACK_def
  vec_remove_def vec_insert_def observe_node_reference_def cursor_after_cases

theorem edited_rack_reloads_witness:
  "rack_try_from_parts (\<lambda>t x. x) (rk_nodes (example_rack 0)) (Some 0) = Inl (ReInvalidNextNodeId 0 3)"
proof -
  have "fst (alloc_run (rack_alloc (\<lambda>t x. x)) (example_rack 7, []) [RoObserve (- 1)]) = example_rack 0"
    by (simp add: example_rack_simps)
  from edited_rack_reloads [OF example_rack_loads this] show ?thesis
    by (simp add: example_rack_def rack_ids_def node_authored_def LEGACY_TEMPORAL_def max_def)
qed

text \<open>A refused edit changes no node: an insertion or a move that reports an error leaves the nodes and their
  order as they were, also where the error is found after the vector has been edited.\<close>

theorem refused_edit_keeps_nodes:
  assumes "rack_edit clean r op = (r', Inl e)"
  shows "rk_nodes r' = rk_nodes r"
proof (cases op)
  case (RoInsert index kind)
  with assms have "rack_insert clean r index kind = (r', Inl e)" by (auto split: prod.splits sum.splits)
  from rack_insert_cases [OF this] show ?thesis by simp
next
  case (RoMove i index scope)
  with assms have "rack_move_node r i index scope = (r', Inl e)" by (auto split: prod.splits sum.splits)
  from rack_move_cases [OF this] show ?thesis by simp
qed (use assms in auto)

theorem rack_ids_never_reused_witness:
  "7 \<notin> ever_seen (rack_alloc (\<lambda>t x. x)) rack_seen (example_rack 7, []) [RoRemove 3]"
proof -
  have "snd (rack_alloc (\<lambda>t x. x) (alloc_run (rack_alloc (\<lambda>t x. x)) (example_rack 7, []) [RoRemove 3])
      (RoInsert 0 (NkKey ()))) = Some 7"
    by (simp add: example_rack_simps)
  from rack_ids_never_reused [OF example_rack_loads this] show ?thesis by simp
qed

theorem refused_edit_keeps_nodes_witness:
  "rk_nodes (fst (rack_edit (\<lambda>t x. x) (example_rack 7) (RoMove 3 1 RackLayer))) = rk_nodes (example_rack 7)"
proof -
  have "rack_edit (\<lambda>t x. x) (example_rack 7) (RoMove 3 1 RackLayer) = (example_rack 7, Inl (ReInvalidMoveIndex 1 1))"
    by (simp add: rack_move_node_def example_rack_def)
  from refused_edit_keeps_nodes [OF this] this show ?thesis by (simp only: fst_conv)
qed

section \<open>The resource plan of a frame\<close>

definition frame_sum :: "(node_budget \<Rightarrow> u8) \<Rightarrow> ('t, 'm, 'x) rack list \<Rightarrow> nat" where
  "frame_sum f racks = (\<Sum>r\<leftarrow>racks. budget_sum f (enabled_tags (rk_nodes r)))"

definition rgba16_layers :: "graph_plan \<Rightarrow> u32 \<Rightarrow> nat" where
  "rgba16_layers graph additional = gp_current_taps graph + gp_previous_taps graph + 6 + unat additional"

definition frame_bytes :: "u32 \<times> u32 \<Rightarrow> graph_plan \<Rightarrow> u32 \<Rightarrow> u32 \<Rightarrow> nat" where
  "frame_bytes dims graph rgba16 compat8 =
     unat (fst dims) * unat (snd dims) * (8 * rgba16_layers graph rgba16 + 4 * unat compat8)"

text \<open>What a frame must satisfy, on natural numbers and without intermediate sums.\<close>

definition frame_fits ::
  "u32 \<times> u32 \<Rightarrow> ('t, 'm, 'x) rack list \<Rightarrow> graph_plan \<Rightarrow> u32 \<Rightarrow> u32 \<Rightarrow> creative_limits \<Rightarrow> bool" where
  "frame_fits dims racks graph rgba16 compat8 limits \<longleftrightarrow>
     0 < fst dims \<and> 0 < snd dims \<and> fst dims \<le> cl_max_dimension limits \<and> snd dims \<le> cl_max_dimension limits \<and>
     (\<forall>r \<in> set racks. ordinary_lookups r \<le> 32) \<and> frame_sum nb_lookups racks \<le> 1024 \<and>
     (\<forall>r \<in> set racks. budget_max nb_textures (ordinary (enabled_tags (rk_nodes r))) \<le> unat (cl_max_sampled_textures limits)) \<and>
     (\<forall>r \<in> set racks. budget_max nb_textures (dedicated (enabled_tags (rk_nodes r))) \<le> unat (cl_max_sampled_textures limits)) \<and>
     rgba16_layers graph rgba16 + unat compat8 \<le> unat (cl_max_array_layers limits) \<and>
     frame_bytes dims graph rgba16 compat8 \<le> min (unat (cl_max_bytes limits)) (512 * 1024 * 1024)"

definition plan_of :: "u32 \<times> u32 \<Rightarrow> ('t, 'm, 'x) rack list \<Rightarrow> graph_plan \<Rightarrow> u32 \<Rightarrow> u32 \<Rightarrow> creative_plan" where
  "plan_of dims racks graph rgba16 compat8 = \<lparr>cp_output_size = dims, cp_passes = of_nat (frame_sum nb_passes racks),
     cp_lookups = of_nat (frame_sum nb_lookups racks), cp_samples = of_nat (frame_sum nb_samples racks),
     cp_layers = of_nat (rgba16_layers graph rgba16 + unat compat8), cp_rgba16_layers = of_nat (rgba16_layers graph rgba16),
     cp_compat8_layers = compat8, cp_bytes = of_nat (frame_bytes dims graph rgba16 compat8)\<rparr>"

lemma frame_sum_simps [simp]:
  "frame_sum f [] = 0" "frame_sum f (r # rs) = budget_sum f (enabled_tags (rk_nodes r)) + frame_sum f rs"
  by (simp_all add: frame_sum_def)

lemma tag_budget_samples: "unat (nb_samples (tag_budget t)) \<le> 4 * unat (nb_lookups (tag_budget t))"
  by (cases t; simp add: tag_budget_def node_kind_descriptor_def NODE_KIND_DESCRIPTORS_def descriptor_def
      PREMULTIPLIED_BILINEAR_TEXTURE_OPS_def)

lemma budget_sum_le:
  assumes "\<And>t. unat (f (tag_budget t)) \<le> k * unat (g (tag_budget t))"
  shows "budget_sum f ts \<le> k * budget_sum g ts"
proof (induction ts)
  case (Cons t ts)
  then show ?case using assms [of t] by (simp add: distrib_left)
qed simp

lemma frame_sum_le:
  assumes "\<And>t. unat (f (tag_budget t)) \<le> k * unat (g (tag_budget t))"
  shows "frame_sum f racks \<le> k * frame_sum g racks"
proof (induction racks)
  case (Cons r racks)
  then show ?case using budget_sum_le [of f k g, OF assms, of "enabled_tags (rk_nodes r)"] by (simp add: distrib_left)
qed simp

lemma frame_sum_samples: "frame_sum nb_samples racks \<le> 4 * frame_sum nb_lookups racks"
  by (intro frame_sum_le tag_budget_samples)

lemma frame_sum_passes: "frame_sum nb_passes racks \<le> frame_sum nb_lookups racks"
  using frame_sum_le [of nb_passes 1 nb_lookups] tag_budget_passes by simp

definition small_rack :: "('t, 'm, 'x) rack \<Rightarrow> bool" where
  "small_rack r \<longleftrightarrow> length (rk_nodes r) \<le> MAX_NODES_PER_RACK"

lemma small_rack_budget:
  assumes "small_rack r"
  shows "resource_budget r = Inr b \<longleftrightarrow> ordinary_lookups r \<le> 32 \<and> b = budget_of (enabled_tags (rk_nodes r))"
proof -
  have "length (rk_nodes r) < 2 ^ 20" using assms by (simp add: small_rack_def MAX_NODES_PER_RACK_def)
  from resource_budget_of [OF this] show ?thesis by auto
qed

lemma unat_budget_sum: "small_rack r \<Longrightarrow> unat (of_nat (budget_sum f (enabled_tags (rk_nodes r))) :: u32) = budget_sum f (enabled_tags (rk_nodes r))"
proof -
  assume "small_rack r"
  then have "budget_sum f (enabled_tags (rk_nodes r)) \<le> 255 * 8"
    using budget_sum_small [of f "enabled_tags (rk_nodes r)"] length_enabled_tags [of "rk_nodes r"]
    by (simp add: small_rack_def MAX_NODES_PER_RACK_def)
  then show ?thesis by (intro unat_of_nat_small) simp
qed

lemma checked_add_nat:
  "checked_add (of_nat m :: u32) (of_nat n) = Some v \<longleftrightarrow> m + n < 2 ^ 32 \<and> v = of_nat (m + n)"
  if "m < 2 ^ 32" "n < 2 ^ 32"
  using that by (auto simp: checked_add_def unat_of_nat_small)

text \<open>The totals a frame's racks add to those of the racks before them.\<close>

definition totals_after :: "frame_totals \<Rightarrow> ('t, 'm, 'x) rack list \<Rightarrow> frame_totals" where
  "totals_after t racks = \<lparr>ft_passes = of_nat (unat (ft_passes t) + frame_sum nb_passes racks),
     ft_lookups = of_nat (unat (ft_lookups t) + frame_sum nb_lookups racks),
     ft_samples = of_nat (unat (ft_samples t) + frame_sum nb_samples racks),
     ft_textures = foldl max (ft_textures t) (map (\<lambda>r. rb_textures (budget_of (enabled_tags (rk_nodes r)))) racks),
     ft_dedicated_textures = foldl max (ft_dedicated_textures t)
       (map (\<lambda>r. rb_dedicated_textures (budget_of (enabled_tags (rk_nodes r)))) racks)\<rparr>"

lemma checked_add_sum:
  "small_rack r \<Longrightarrow> checked_add a (of_nat (budget_sum f (enabled_tags (rk_nodes r))) :: u32) = Some v \<longleftrightarrow>
     unat a + budget_sum f (enabled_tags (rk_nodes r)) < 2 ^ 32 \<and> v = of_nat (unat a + budget_sum f (enabled_tags (rk_nodes r)))"
  by (auto simp: checked_add_def unat_budget_sum)

lemma total_racks_exact:
  assumes "\<forall>r \<in> set racks. small_rack r"
  shows "total_racks i racks t = Inr t' \<longleftrightarrow>
    (\<forall>r \<in> set racks. ordinary_lookups r \<le> 32) \<and> unat (ft_passes t) + frame_sum nb_passes racks < 2 ^ 32 \<and>
    unat (ft_lookups t) + frame_sum nb_lookups racks < 2 ^ 32 \<and> unat (ft_samples t) + frame_sum nb_samples racks < 2 ^ 32 \<and>
    t' = totals_after t racks"
  using assms
proof (induction i racks t rule: total_racks.induct)
  case (1 i t)
  then show ?case using unat_lt2p [of "ft_passes t"] unat_lt2p [of "ft_lookups t"] unat_lt2p [of "ft_samples t"]
    by (auto simp: totals_after_def)
next
  case (2 i r rs t)
  let ?s = "\<lambda>f. budget_sum f (enabled_tags (rk_nodes r))" and ?b = "budget_of (enabled_tags (rk_nodes r))"
  from 2(2) have r: "small_rack r" and rs: "\<forall>r \<in> set rs. small_rack r" by auto
  show ?case
  proof (cases "ordinary_lookups r \<le> 32 \<and> unat (ft_passes t) + ?s nb_passes < 2 ^ 32 \<and>
      unat (ft_lookups t) + ?s nb_lookups < 2 ^ 32 \<and> unat (ft_samples t) + ?s nb_samples < 2 ^ 32")
    case True
    then have b: "resource_budget r = Inr ?b" using small_rack_budget [OF r] by simp
    let ?t = "\<lparr>ft_passes = of_nat (unat (ft_passes t) + ?s nb_passes), ft_lookups = of_nat (unat (ft_lookups t) + ?s nb_lookups),
      ft_samples = of_nat (unat (ft_samples t) + ?s nb_samples), ft_textures = max (ft_textures t) (rb_textures ?b),
      ft_dedicated_textures = max (ft_dedicated_textures t) (rb_dedicated_textures ?b)\<rparr>"
    have ch: "checked_add (ft_passes t) (rb_passes ?b) = Some (ft_passes ?t)"
      "checked_add (ft_lookups t) (rb_lookups ?b) = Some (ft_lookups ?t)"
      "checked_add (ft_samples t) (rb_samples ?b) = Some (ft_samples ?t)"
      using True checked_add_sum [OF r] by (simp_all add: budget_of_def del: of_nat_add)
    have "total_racks i (r # rs) t = total_racks (Suc i) rs ?t"
      using b ch by (simp del: of_nat_add)
    moreover have "total_racks (Suc i) rs ?t = Inr t' \<longleftrightarrow>
      (\<forall>r \<in> set rs. ordinary_lookups r \<le> 32) \<and> unat (ft_passes ?t) + frame_sum nb_passes rs < 2 ^ 32 \<and>
      unat (ft_lookups ?t) + frame_sum nb_lookups rs < 2 ^ 32 \<and> unat (ft_samples ?t) + frame_sum nb_samples rs < 2 ^ 32 \<and>
      t' = totals_after ?t rs"
      using 2(1) [OF b, of "ft_passes ?t" "ft_lookups ?t" "ft_samples ?t"] rs by simp
    moreover have u: "unat (ft_passes ?t) = unat (ft_passes t) + ?s nb_passes"
      "unat (ft_lookups ?t) = unat (ft_lookups t) + ?s nb_lookups" "unat (ft_samples ?t) = unat (ft_samples t) + ?s nb_samples"
      using True by (simp_all add: unat_of_nat_small del: of_nat_add)
    moreover have "totals_after ?t rs = totals_after t (r # rs)"
      unfolding totals_after_def u by (simp add: add.assoc del: of_nat_add)
    ultimately show ?thesis using True by (auto simp: add.assoc)
  next
    case False
    then have "total_racks i (r # rs) t \<noteq> Inr t'"
      using small_rack_budget [OF r] checked_add_sum [OF r]
      by (auto simp: rbind_Inr budget_of_def split: sum.splits simp del: of_nat_add)
    then show ?thesis using False by auto
  qed
qed

definition frame_start :: frame_totals where
  "frame_start = \<lparr>ft_passes = 0, ft_lookups = 0, ft_samples = 0, ft_textures = 0, ft_dedicated_textures = 0\<rparr>"

lemma foldl_max_u32_le: "foldl max (g :: u32) xs \<le> b \<longleftrightarrow> g \<le> b \<and> (\<forall>x \<in> set xs. x \<le> b)"
  by (induction xs arbitrary: g) auto

lemma budget_max_word_le: "(of_nat (budget_max f ts) :: u32) \<le> b \<longleftrightarrow> budget_max f ts \<le> unat b"
proof -
  have "unat (of_nat (budget_max f ts) :: u32) = budget_max f ts"
    using budget_max_small [of f ts] by (intro unat_of_nat_small) simp
  then show ?thesis by (simp add: word_le_nat_alt)
qed

lemma totals_textures:
  "ft_textures (totals_after frame_start racks) \<le> b \<longleftrightarrow>
     (\<forall>r \<in> set racks. budget_max nb_textures (ordinary (enabled_tags (rk_nodes r))) \<le> unat b)"
  "ft_dedicated_textures (totals_after frame_start racks) \<le> b \<longleftrightarrow>
     (\<forall>r \<in> set racks. budget_max nb_textures (dedicated (enabled_tags (rk_nodes r))) \<le> unat b)"
  by (simp_all add: totals_after_def frame_start_def foldl_max_u32_le budget_of_def budget_max_word_le)

lemma total_racks_frame:
  assumes "\<forall>r \<in> set racks. small_rack r" "\<forall>r \<in> set racks. ordinary_lookups r \<le> 32" "frame_sum nb_lookups racks \<le> 1024"
  shows "total_racks 0 racks frame_start = Inr (totals_after frame_start racks)"
    and "validate_frame_texture_budgets (ft_lookups (totals_after frame_start racks)) (ft_samples (totals_after frame_start racks)) = Inr ()"
proof -
  have n: "frame_sum nb_passes racks \<le> 1024" "frame_sum nb_samples racks \<le> 4096"
    using frame_sum_passes [of racks] frame_sum_samples [of racks] assms(3) by simp_all
  show "total_racks 0 racks frame_start = Inr (totals_after frame_start racks)"
    using n assms total_racks_exact [OF assms(1)] by (simp add: frame_start_def)
  have "unat (of_nat (frame_sum nb_lookups racks) :: u32) = frame_sum nb_lookups racks"
    "unat (of_nat (frame_sum nb_samples racks) :: u32) = frame_sum nb_samples racks"
    using n assms(3) by (intro unat_of_nat_small; simp)+
  then show "validate_frame_texture_budgets (ft_lookups (totals_after frame_start racks))
      (ft_samples (totals_after frame_start racks)) = Inr ()"
    using n assms(3)
    by (simp add: validate_frame_texture_budgets_def totals_after_def frame_start_def word_less_nat_alt
        MAX_LOGICAL_TEXTURE_LOOKUPS_PER_FRAME_def MAX_TEXTURE_SAMPLES_PER_FRAME_def PREMULTIPLIED_BILINEAR_TEXTURE_OPS_def)
qed

lemma total_racks_frame_conv:
  assumes "\<forall>r \<in> set racks. small_rack r" "total_racks 0 racks frame_start = Inr t"
    "validate_frame_texture_budgets (ft_lookups t) (ft_samples t) = Inr ()"
  shows "t = totals_after frame_start racks" "\<forall>r \<in> set racks. ordinary_lookups r \<le> 32" "frame_sum nb_lookups racks \<le> 1024"
proof -
  from total_racks_exact [OF assms(1)] assms(2)
  show t: "t = totals_after frame_start racks" and "\<forall>r \<in> set racks. ordinary_lookups r \<le> 32"
    by blast+
  from total_racks_exact [OF assms(1)] assms(2) have "frame_sum nb_lookups racks < 2 ^ 32" by (simp add: frame_start_def)
  then have "unat (of_nat (frame_sum nb_lookups racks) :: u32) = frame_sum nb_lookups racks" by (intro unat_of_nat_small) simp
  then show "frame_sum nb_lookups racks \<le> 1024"
    using assms(3)
    by (auto simp: validate_frame_texture_budgets_def t totals_after_def frame_start_def word_less_nat_alt
        MAX_LOGICAL_TEXTURE_LOOKUPS_PER_FRAME_def split: if_splits)
qed

text \<open>The surface ledger alone.\<close>

lemma layer_count:
  "obind (obind (u32_of_nat n) (\<lambda>v. checked_add v BASE_CREATIVE_SURFACE_LAYERS)) (\<lambda>v. checked_add v a) = Some v \<longleftrightarrow>
     n + 6 + unat a < 2 ^ 32 \<and> v = of_nat (n + 6 + unat a)"
proof -
  have "unat (of_nat n + 6 :: u32) = n + 6" if "n + 6 < 2 ^ 32"
    using unat_of_nat_small [of "n + 6", where 'a = 32] that by simp
  then show ?thesis
    by (auto simp: obind_def u32_of_nat_def checked_add_def BASE_CREATIVE_SURFACE_LAYERS_def unat_of_nat_small
        split: option.splits if_splits)
qed

lemma checked_mul_u64:
  "m < 2 ^ 64 \<Longrightarrow> checked_mul (of_nat m :: u64) w = Some v \<longleftrightarrow> m * unat w < 2 ^ 64 \<and> v = of_nat (m * unat w)"
  by (auto simp: checked_mul_def unat_of_nat_small)

lemma pixel_count:
  "checked_mul (ucast (w :: u32) :: u64) (ucast (h :: u32)) = Some v \<longleftrightarrow> v = of_nat (unat w * unat h)"
proof -
  have "unat w * unat h \<le> (2 ^ 32 - 1) * (2 ^ 32 - 1)"
    using unat_lt2p [of w] unat_lt2p [of h] by (intro mult_le_mono) simp_all
  then show ?thesis by (auto simp: checked_mul_def unat_ucast_up)
qed

lemma pixels_small: "unat (w :: u32) * unat (h :: u32) < 2 ^ 64"
proof -
  have "unat w * unat h \<le> (2 ^ 32 - 1) * (2 ^ 32 - 1)"
    using unat_lt2p [of w] unat_lt2p [of h] by (intro mult_le_mono) simp_all
  then show ?thesis by simp
qed

lemma surface_bytes:
  assumes "m < 2 ^ 64"
  shows "obind (checked_mul (of_nat m :: u64) k) (\<lambda>b. checked_mul b (ucast (l :: u32))) = Some v \<longleftrightarrow>
    m * unat k < 2 ^ 64 \<and> m * unat k * unat l < 2 ^ 64 \<and> v = of_nat (m * unat k * unat l)"
proof (cases "m * unat k < 2 ^ 64")
  case True
  then have "checked_mul (of_nat m :: u64) k = Some (of_nat (m * unat k))" using checked_mul_u64 [OF assms] by blast
  then show ?thesis using True checked_mul_u64 [OF True, of "ucast l" v] by (simp add: obind_def unat_ucast_up)
next
  case False
  then have "checked_mul (of_nat m :: u64) k = None" using checked_mul_u64 [OF assms, of k] by (metis not_None_eq)
  then show ?thesis using False by (simp add: obind_def)
qed

lemma checked_add_nat64:
  "m < 2 ^ 64 \<Longrightarrow> n < 2 ^ 64 \<Longrightarrow>
     checked_add (of_nat m :: u64) (of_nat n) = Some v \<longleftrightarrow> m + n < 2 ^ 64 \<and> v = of_nat (m + n)"
  by (auto simp: checked_add_def unat_of_nat_small)

text \<open>The surface ledger: its four checked products and sums succeed exactly when the whole sum fits.\<close>

definition ledger ::
  "u32 \<times> u32 \<Rightarrow> nat \<Rightarrow> u32 \<Rightarrow> u32 \<Rightarrow> (u32 \<Rightarrow> u32 \<Rightarrow> u64 \<Rightarrow> preflight_error + 'r) \<Rightarrow> u32 \<Rightarrow> preflight_error + 'r" where
  "ledger dims taps a16 a8 done limit =
     rbind (ok_or (obind (obind (u32_of_nat taps) (\<lambda>v. checked_add v BASE_CREATIVE_SURFACE_LAYERS)) (\<lambda>v. checked_add v a16)) PfArithmeticOverflow) (\<lambda>rgba16.
     rbind (ok_or (checked_add rgba16 a8) PfArithmeticOverflow) (\<lambda>layers.
     if limit < layers then Inl (PfTextureArrayLayerLimit layers limit)
     else
       rbind (ok_or (checked_mul (ucast (fst dims) :: u64) (ucast (snd dims))) PfArithmeticOverflow) (\<lambda>pixels.
       rbind (ok_or (obind (checked_mul pixels 8) (\<lambda>b. checked_mul b (ucast rgba16))) PfArithmeticOverflow) (\<lambda>rgba16_bytes.
       rbind (ok_or (obind (checked_mul pixels 4) (\<lambda>b. checked_mul b (ucast a8))) PfArithmeticOverflow) (\<lambda>compat8_bytes.
       rbind (ok_or (checked_add rgba16_bytes compat8_bytes) PfArithmeticOverflow) (\<lambda>creative_bytes.
       done rgba16 layers creative_bytes))))))"

lemma ledger_exact:
  fixes dims :: "u32 \<times> u32" and limit :: u32 and a16 a8 :: u32 and taps :: nat
  defines "R \<equiv> taps + 6 + unat a16" and "W \<equiv> unat (fst dims) * unat (snd dims)"
  shows "ledger dims taps a16 a8 done limit = Inr p \<longleftrightarrow>
    R + unat a8 \<le> unat limit \<and> W * 8 < 2 ^ 64 \<and> W * (8 * R + 4 * unat a8) < 2 ^ 64 \<and>
    done (of_nat R) (of_nat (R + unat a8)) (of_nat (W * (8 * R + 4 * unat a8))) = Inr p"
proof (cases "R + unat a8 \<le> unat limit \<and> W * 8 < 2 ^ 64 \<and> W * (8 * R + 4 * unat a8) < 2 ^ 64")
  case True
  then have R: "R < 2 ^ 32" "R + unat a8 < 2 ^ 32" and limit: "\<not> limit < of_nat (R + unat a8)"
    using unat_lt2p [of limit] by (simp_all add: word_less_nat_alt unat_of_nat_small del: of_nat_add)
  have bytes: "W * 8 * R < 2 ^ 64" "W * 4 < 2 ^ 64" "W * 4 * unat a8 < 2 ^ 64"
    "W * 8 * R + W * 4 * unat a8 = W * (8 * R + 4 * unat a8)"
    using True by (simp_all add: algebra_simps)
  have "obind (obind (u32_of_nat taps) (\<lambda>v. checked_add v BASE_CREATIVE_SURFACE_LAYERS)) (\<lambda>v. checked_add v a16) = Some (of_nat R)"
    unfolding layer_count using R by (simp add: R_def)
  moreover have "checked_add (of_nat R) a8 = Some (of_nat (R + unat a8))"
    using R by (simp add: checked_add_def unat_of_nat_small)
  moreover have "checked_mul (ucast (fst dims) :: u64) (ucast (snd dims)) = Some (of_nat W)"
    unfolding pixel_count by (simp add: W_def)
  moreover have "obind (checked_mul (of_nat W :: u64) 8) (\<lambda>b. checked_mul b (ucast (of_nat R :: u32))) = Some (of_nat (W * 8 * R))"
    unfolding surface_bytes [OF pixels_small [of "fst dims" "snd dims", folded W_def]] using True bytes R
    by (simp add: unat_of_nat_small del: of_nat_mult)
  moreover have "obind (checked_mul (of_nat W :: u64) 4) (\<lambda>b. checked_mul b (ucast a8)) = Some (of_nat (W * 4 * unat a8))"
    unfolding surface_bytes [OF pixels_small [of "fst dims" "snd dims", folded W_def]] using bytes
    by (simp del: of_nat_mult)
  moreover have "checked_add (of_nat (W * 8 * R) :: u64) (of_nat (W * 4 * unat a8)) = Some (of_nat (W * (8 * R + 4 * unat a8)))"
    using checked_add_nat64 [OF bytes(1,3)] bytes(4) True by (simp only:)
  ultimately show ?thesis using True limit by (simp add: ledger_def del: of_nat_mult of_nat_add)
next
  case False
  have "ledger dims taps a16 a8 done limit \<noteq> Inr p"
  proof
    assume "ledger dims taps a16 a8 done limit = Inr p"
    then obtain rgba16 layers pixels rb cb bs where
      "obind (obind (u32_of_nat taps) (\<lambda>v. checked_add v BASE_CREATIVE_SURFACE_LAYERS)) (\<lambda>v. checked_add v a16) = Some rgba16"
      and l: "checked_add rgba16 a8 = Some layers" and limit: "\<not> limit < layers"
      and px: "checked_mul (ucast (fst dims) :: u64) (ucast (snd dims)) = Some pixels"
      and rb: "obind (checked_mul pixels 8) (\<lambda>b. checked_mul b (ucast rgba16)) = Some rb"
      and cb: "obind (checked_mul pixels 4) (\<lambda>b. checked_mul b (ucast a8)) = Some cb"
      and bs: "checked_add rb cb = Some bs"
      by (auto simp: ledger_def rbind_Inr split: if_splits)
    then have R: "R < 2 ^ 32" and rgba16: "rgba16 = of_nat R" unfolding layer_count by (simp_all add: R_def)
    have px: "pixels = of_nat W" using px unfolding pixel_count by (simp add: W_def)
    note W = pixels_small [of "fst dims" "snd dims", folded W_def]
    have uR: "R < 2 ^ LENGTH(32)" using R by simp
    have 1: "W * 8 < 2 ^ 64" "W * 8 * R < 2 ^ 64" "rb = of_nat (W * 8 * R)"
      using rb unfolding px rgba16 surface_bytes [OF W] unat_of_nat_small [OF uR] by (simp_all del: of_nat_mult)
    have 2: "W * 4 * unat a8 < 2 ^ 64" "cb = of_nat (W * 4 * unat a8)"
      using cb unfolding px surface_bytes [OF W] by simp_all
    have 3: "W * 8 * R + W * 4 * unat a8 < 2 ^ 64"
      using bs checked_add_nat64 [OF 1(2) 2(1)] unfolding 1(3) 2(2) by blast
    have "R + unat a8 \<le> unat limit"
      using unat_checked_add [OF l] limit R by (simp add: rgba16 unat_of_nat_small word_le_nat_alt not_less)
    with False 1(1) 3 show False by (simp add: algebra_simps)
  qed
  then show ?thesis using False by blast
qed

lemma preflight_ledger:
  "preflight_with_surface_formats dims racks graph a16 a8 limits =
     (if fst dims = 0 \<or> snd dims = 0 then Inl PfZeroDimension
      else if cl_max_dimension limits < fst dims \<or> cl_max_dimension limits < snd dims
      then Inl (PfDimensionLimit dims (cl_max_dimension limits))
      else rbind (total_racks 0 racks frame_start) (\<lambda>t.
        rbind (validate_frame_texture_budgets (ft_lookups t) (ft_samples t)) (\<lambda>_.
        if min (cl_max_sampled_textures limits) 3 < ft_textures t
        then Inl (PfSampledTextureLimit (ft_textures t) (min (cl_max_sampled_textures limits) 3))
        else if cl_max_sampled_textures limits < ft_dedicated_textures t
        then Inl (PfSampledTextureLimit (ft_dedicated_textures t) (cl_max_sampled_textures limits))
        else ledger dims (gp_current_taps graph + gp_previous_taps graph) a16 a8 (\<lambda>rgba16 layers bytes.
          if min (cl_max_bytes limits) (512 * 1024 * 1024) < bytes
          then Inl (PfCreativeMemoryBudget bytes (min (cl_max_bytes limits) (512 * 1024 * 1024)))
          else Inr \<lparr>cp_output_size = dims, cp_passes = ft_passes t, cp_lookups = ft_lookups t, cp_samples = ft_samples t,
                 cp_layers = layers, cp_rgba16_layers = rgba16, cp_compat8_layers = a8, cp_bytes = bytes\<rparr>)
          (cl_max_array_layers limits))))"
  by (simp only: preflight_with_surface_formats_def ledger_def Let_def frame_start_def MAX_CREATIVE_GPU_BYTES_def
      MAX_SAMPLED_TEXTURES_PER_PASS_def)

lemma u64_min_le: "n < 2 ^ 64 \<Longrightarrow> min (c :: u64) d < of_nat n \<longleftrightarrow> min (unat c) (unat d) < n"
  by (auto simp: min_def word_less_nat_alt word_le_nat_alt unat_of_nat_small)

lemma texture_checks:
  "\<not> min (cl_max_sampled_textures limits) 3 < ft_textures (totals_after frame_start racks) \<longleftrightarrow>
     (\<forall>r \<in> set racks. budget_max nb_textures (ordinary (enabled_tags (rk_nodes r))) \<le> unat (cl_max_sampled_textures limits))"
proof -
  have "budget_max nb_textures (ordinary ts) \<le> 3" for ts
    using tag_budget_ordinary by (auto intro: budget_max_bound)
  then have "ft_textures (totals_after frame_start racks) \<le> 3" by (simp add: totals_textures)
  then have "\<not> min (cl_max_sampled_textures limits) 3 < ft_textures (totals_after frame_start racks) \<longleftrightarrow>
      ft_textures (totals_after frame_start racks) \<le> cl_max_sampled_textures limits"
    by (auto simp: not_less min_less_iff_disj)
  then show ?thesis by (simp add: totals_textures)
qed

lemma plan_totals:
  "ft_passes (totals_after frame_start racks) = of_nat (frame_sum nb_passes racks)"
  "ft_lookups (totals_after frame_start racks) = of_nat (frame_sum nb_lookups racks)"
  "ft_samples (totals_after frame_start racks) = of_nat (frame_sum nb_samples racks)"
  by (simp_all add: totals_after_def frame_start_def)

text \<open>C20. The resource plan of a frame is exact: with racks of at most eight nodes it is granted exactly when the
  natural-number inequalities of \<open>frame_fits\<close> hold (dimensions, lookups, textures per stage, array layers, and
  the bytes of all surfaces within the adapter's limit and 512 MiB), so no checked intermediate product
  refuses a frame that fits; and every field of a granted plan is the exact total, unwrapped.\<close>

theorem creative_preflight_exact:
  assumes "\<forall>r \<in> set racks. length (rk_nodes r) \<le> MAX_NODES_PER_RACK"
  shows "preflight_with_surface_formats dims racks graph rgba16 compat8 limits = Inr p \<longleftrightarrow>
    frame_fits dims racks graph rgba16 compat8 limits \<and> p = plan_of dims racks graph rgba16 compat8"
proof -
  let ?T = "totals_after frame_start racks"
  let ?R = "rgba16_layers graph rgba16" and ?W = "unat (fst dims) * unat (snd dims)"
  let ?B = "frame_bytes dims graph rgba16 compat8"
  have small: "\<forall>r \<in> set racks. small_rack r" using assms by (simp add: small_rack_def)
  define tail where "tail = (\<lambda>rgba16 layers bytes.
          if min (cl_max_bytes limits) (512 * 1024 * 1024) < bytes
          then Inl (PfCreativeMemoryBudget bytes (min (cl_max_bytes limits) (512 * 1024 * 1024)))
          else Inr \<lparr>cp_output_size = dims, cp_passes = ft_passes ?T, cp_lookups = ft_lookups ?T, cp_samples = ft_samples ?T,
                 cp_layers = layers, cp_rgba16_layers = rgba16, cp_compat8_layers = compat8, cp_bytes = bytes\<rparr>)"
  have R: "?R = gp_current_taps graph + gp_previous_taps graph + 6 + unat rgba16" by (simp add: rgba16_layers_def)
  have "tail (of_nat ?R) (of_nat (?R + unat compat8)) (of_nat ?B) = Inr p \<longleftrightarrow>
      ?B \<le> min (unat (cl_max_bytes limits)) (512 * 1024 * 1024) \<and> p = plan_of dims racks graph rgba16 compat8"
    if "?B < 2 ^ 64"
    using u64_min_le [OF that, of "cl_max_bytes limits" "512 * 1024 * 1024"]
    by (auto simp: tail_def plan_of_def plan_totals not_less)
  moreover have "?W * 8 < 2 ^ 64 \<and> ?B < 2 ^ 64" if "?B \<le> min (unat (cl_max_bytes limits)) (512 * 1024 * 1024)"
  proof -
    have "?W * 8 \<le> ?B" by (auto simp: frame_bytes_def R intro!: mult_le_mono2)
    then show ?thesis using that by simp
  qed
  ultimately have ledger: "ledger dims (gp_current_taps graph + gp_previous_taps graph) rgba16 compat8 tail (cl_max_array_layers limits) = Inr p \<longleftrightarrow>
      ?R + unat compat8 \<le> unat (cl_max_array_layers limits) \<and>
      ?B \<le> min (unat (cl_max_bytes limits)) (512 * 1024 * 1024) \<and> p = plan_of dims racks graph rgba16 compat8"
    unfolding ledger_exact R [symmetric] frame_bytes_def [symmetric] by blast
  show ?thesis
  proof (cases "fst dims = 0 \<or> snd dims = 0 \<or> cl_max_dimension limits < fst dims \<or> cl_max_dimension limits < snd dims")
    case True
    then show ?thesis by (auto simp: preflight_ledger frame_fits_def not_le)
  next
    case dims: False
    show ?thesis
    proof (cases "(\<forall>r \<in> set racks. ordinary_lookups r \<le> 32) \<and> frame_sum nb_lookups racks \<le> 1024")
      case True
      then have "preflight_with_surface_formats dims racks graph rgba16 compat8 limits = Inr p \<longleftrightarrow>
        \<not> min (cl_max_sampled_textures limits) 3 < ft_textures ?T \<and> \<not> cl_max_sampled_textures limits < ft_dedicated_textures ?T \<and>
        ledger dims (gp_current_taps graph + gp_previous_taps graph) rgba16 compat8 tail (cl_max_array_layers limits) = Inr p"
        using dims total_racks_frame [OF small] by (auto simp: preflight_ledger tail_def split del: if_split split: if_split)
      then show ?thesis
        unfolding ledger texture_checks using True dims
        by (auto simp: frame_fits_def totals_textures not_less word_gt_0)
    next
      case False
      then have "preflight_with_surface_formats dims racks graph rgba16 compat8 limits \<noteq> Inr p"
        using total_racks_frame_conv [OF small] by (auto simp: preflight_ledger rbind_Inr split: if_splits)
      then show ?thesis using False by (auto simp: frame_fits_def)
    qed
  qed
qed

theorem creative_preflight_exact_witness:
  "preflight_with_surface_formats (1920, 1080) [example_rack 7]
     \<lparr>gp_order = [], gp_current_taps = 2, gp_previous_taps = 0, gp_diagnostics = []\<rparr> 3 0 creative_limits_default =
   Inr \<lparr>cp_output_size = (1920, 1080), cp_passes = 1, cp_lookups = 2, cp_samples = 8, cp_layers = 11,
     cp_rgba16_layers = 11, cp_compat8_layers = 0, cp_bytes = 182476800\<rparr>"
  by (subst creative_preflight_exact)
    (simp_all add: example_rack_simps frame_fits_def plan_of_def rgba16_layers_def frame_bytes_def budget_max_def
      creative_limits_default_def MAX_CREATIVE_GPU_BYTES_def MAX_SAMPLED_TEXTURES_PER_PASS_def
      PREMULTIPLIED_BILINEAR_TEXTURE_OPS_def word_le_nat_alt)

section \<open>Routes\<close>

text \<open>A route that names a missing layer or group becomes a tombstone; every other one is itself.\<close>

definition settle_tap :: "layer_lookup \<Rightarrow> (group_id \<Rightarrow> bool) \<Rightarrow> saved_tap \<Rightarrow> saved_tap" where
  "settle_tap layers groups t =
     (case sp_source t of
        SsSelectedLayer p stage \<Rightarrow> if layers p = None then t\<lparr>sp_source := SsMissingSelectedLayer p stage\<rparr> else t
      | SsGroupOutput g \<Rightarrow> if groups g then t else t\<lparr>sp_source := SsMissingGroupOutput g\<rparr>
      | _ \<Rightarrow> t)"

fun settle_motion :: "layer_lookup \<Rightarrow> saved_motion_donor \<Rightarrow> saved_motion_donor" where
  "settle_motion layers (SmSelected p) = (if layers p = None then SmMissing p else SmSelected p)"
| "settle_motion layers m = m"

definition lookups_agree :: "layer_lookup \<Rightarrow> position_lookup \<Rightarrow> bool" where
  "lookups_agree layers positions \<longleftrightarrow> (\<forall>p i. layers p = Some i \<longrightarrow> positions i = Some p)"

lemma tap_round_trip:
  "lookups_agree layers positions \<Longrightarrow> tap_to_saved positions (tap_to_runtime layers groups t) = settle_tap layers groups t"
  by (cases t) (auto simp: tap_to_saved_def tap_to_runtime_def settle_tap_def lookups_agree_def
      split: saved_image_source.splits option.splits)

lemma motion_round_trip:
  "lookups_agree layers positions \<Longrightarrow> motion_from_runtime positions (motion_to_runtime layers m) = settle_motion layers m"
  by (cases m) (auto simp: lookups_agree_def split: option.splits)

lemma with_tap_sanitized [simp]:
  "rack_matte_sanitized (matte_with_tap f m) = matte_with_tap f (rack_matte_sanitized m)"
  "displace_sanitized (displace_with_tap f d) = displace_with_tap f (displace_sanitized d)"
  "residual_sanitized (residual_with_taps f r) = residual_with_taps f (residual_sanitized r)"
  "symmetry_sanitized clean (symmetry_with_routes f g s) = symmetry_with_routes f g (symmetry_sanitized clean s)"
  by (simp_all add: matte_with_tap_def rack_matte_sanitized_def displace_with_tap_def displace_sanitized_def
      residual_with_taps_def residual_sanitized_def symmetry_with_routes_def symmetry_sanitized_def)

lemma with_tap_compose [simp]:
  "matte_with_tap f (matte_with_tap g m) = matte_with_tap (f \<circ> g) m"
  "displace_with_tap f (displace_with_tap g d) = displace_with_tap (f \<circ> g) d"
  "residual_with_taps f (residual_with_taps g r) = residual_with_taps (f \<circ> g) r"
  "symmetry_with_routes f h (symmetry_with_routes g k s) = symmetry_with_routes (f \<circ> g) (h \<circ> k) s"
  by (simp_all add: matte_with_tap_def displace_with_tap_def residual_with_taps_def symmetry_with_routes_def prod.map_comp)

lemma with_tap_update:
  "matte_with_tap f m = m\<lparr>rm_tap := f (rm_tap m)\<rparr>" "displace_with_tap f d = d\<lparr>dp_tap := f (dp_tap d)\<rparr>"
  "residual_with_taps f r = r\<lparr>rd_structure := f (rd_structure r), rd_detail := f (rd_detail r)\<rparr>"
  "symmetry_with_routes f g s = s\<lparr>sy_donors := map_prod f f (sy_donors s), sy_motion := map_prod g g (sy_motion s)\<rparr>"
  for m :: "'t rack_matte" and d :: "'t displace_params" and r :: "'t residual_params" and s :: "('t, 'm, 'x) symmetry_params"
  by (simp_all add: matte_with_tap_def displace_with_tap_def residual_with_taps_def symmetry_with_routes_def)

lemma kind_sanitized_edit: "kind_sanitized clean (kind_edit_routes f g k) = kind_edit_routes f g (kind_sanitized clean k)"
proof (cases k)
  case (NkMask m)
  then show ?thesis by (cases m) (simp_all flip: with_tap_update)
qed (simp_all flip: with_tap_update)

lemma kind_tag_edit [simp]: "kind_tag (kind_edit_routes f g k) = kind_tag k"
proof (cases k)
  case (NkMask m)
  then show ?thesis by (cases m) simp_all
qed simp_all

lemma kind_round_trip:
  assumes "kind_sanitized clean k = k"
  shows "kind_capture clean positions (kind_resolve clean layers groups k) =
    kind_edit_routes (tap_to_saved positions \<circ> tap_to_runtime layers groups) (motion_from_runtime positions \<circ> motion_to_runtime layers) k"
proof (cases k)
  case (NkMask m)
  then show ?thesis using assms
    by (cases m) (simp_all add: kind_resolve_def mask_resolve_def matte_resolve_routes_def matte_capture_routes_def,
        simp add: with_tap_update)
qed (use assms in \<open>simp_all add: kind_resolve_def displace_resolve_routes_def displace_capture_routes_def
      residual_resolve_routes_def residual_capture_routes_def symmetry_resolve_routes_def symmetry_capture_routes_def,
      simp_all add: with_tap_update\<close>)

lemma enabled_tags_cong:
  "map vn_enabled ns = map vn_enabled ms \<Longrightarrow> map (\<lambda>n. kind_tag (vn_kind n)) ns = map (\<lambda>n. kind_tag (vn_kind n)) ms \<Longrightarrow>
     enabled_tags ns = enabled_tags ms"
proof (induction ns arbitrary: ms)
  case (Cons n ns)
  then obtain m ms' where "ms = m # ms'" by (cases ms) auto
  with Cons.prems Cons.IH [of ms'] show ?case by (auto simp: enabled_tags_def)
qed (simp add: enabled_tags_def)

text \<open>An edit of the kinds that keeps their tags keeps the invariant.\<close>

lemma rack_ok_edit_kinds:
  assumes "rack_ok r" "\<And>k. kind_tag (f k) = kind_tag k"
  shows "rack_ok (rack_edit_kinds f r)"
proof -
  have "validate_legacy_marker (n\<lparr>vn_kind := f (vn_kind n)\<rparr>) = validate_legacy_marker n" for n
    by (simp add: validate_legacy_marker_def is_exact_legacy_marker_def assms(2) Let_def)
  moreover have "ordinary_lookups (rack_edit_kinds f r) = ordinary_lookups r"
    unfolding ordinary_lookups_def by (rule arg_cong [OF enabled_tags_cong]) (simp_all add: rack_edit_kinds_def o_def assms(2))
  ultimately show ?thesis using assms(1) by (simp add: rack_ok_def rack_edit_kinds_def rack_ids_def o_def)
qed

lemma loaded_rack_saves:
  assumes "rack_try_from_parts clean ns start = Inr r"
  shows "rk_next r \<noteq> 0 \<or> - 1 \<in> set (rack_ids r)"
proof -
  from assms obtain g where g: "scan_nodes [] LEGACY_TEMPORAL ns = Inr g"
    and n: "\<not> (rk_next r = 0 \<and> g \<noteq> - 1)" and r: "rk_nodes r = map (node_sanitized clean) ns"
    by (auto simp: rack_try_from_parts_def rbind_Inr Let_def split: if_splits)
  from g have "g = foldl max LEGACY_TEMPORAL (map vn_id ns)" by (simp add: scan_nodes_Inr)
  moreover have "foldl max LEGACY_TEMPORAL (map vn_id ns) = - 1 \<longleftrightarrow> - 1 \<in> set (map vn_id ns)"
    unfolding foldl_max_minus_1 by (simp add: LEGACY_TEMPORAL_def)
  ultimately show ?thesis using n by (auto simp: r rack_ids_def o_def)
qed

lemma node_with_kind_edit:
  "node_with_kind k n = n\<lparr>vn_kind := k\<rparr>" for n :: "('t, 'm, 'x) visual_node"
  by (simp add: node_with_kind_def)

lemma node_with_kind_twice [simp]:
  "node_with_kind k (node_with_kind j n) = node_with_kind k n" "vn_kind (node_with_kind k n) = k"
  by (simp_all add: node_with_kind_def)

lemma capture_of_resolved:
  assumes "\<forall>n \<in> set (rk_nodes r). kind_sanitized clean (vn_kind n) = vn_kind n"
  shows "map (\<lambda>n. node_with_kind (kind_capture clean positions (vn_kind n)) n) (rk_nodes (rack_resolve_routes clean layers groups r)) =
    rk_nodes (rack_edit_kinds (kind_edit_routes (tap_to_saved positions \<circ> tap_to_runtime layers groups)
      (motion_from_runtime positions \<circ> motion_to_runtime layers)) r)"
  using assms by (simp add: rack_resolve_routes_def rack_edit_kinds_def kind_round_trip node_with_kind_edit)

text \<open>Saving what was just loaded changes no live route: a loaded rack with sanitized parameters, resolved to layer
  identities and captured again under the same layer order, is the same rack node by node, except that a route
  to a layer or group that does not exist has become its tombstone.\<close>

theorem rack_routes_round_trip:
  assumes "rack_try_from_parts clean ns start = Inr r" "\<forall>n \<in> set (rk_nodes r). node_sanitized clean n = n"
    and "lookups_agree layers positions"
  shows "rack_capture_routes clean positions (rack_resolve_routes clean layers groups r) =
    Inr (rack_edit_kinds (kind_edit_routes (settle_tap layers groups) (settle_motion layers)) r)"
proof -
  let ?f = "kind_edit_routes (settle_tap layers groups) (settle_motion layers)"
  let ?s = "rack_edit_kinds ?f r"
  have wet: "clamp_finite (vn_wet n) F32_ONE F32_ZERO F32_ONE = vn_wet n" and kind: "kind_sanitized clean (vn_kind n) = vn_kind n"
    if "n \<in> set (rk_nodes r)" for n
  proof -
    have "node_sanitized clean n = n" using that assms(2) by blast
    then show "clamp_finite (vn_wet n) F32_ONE F32_ZERO F32_ONE = vn_wet n" "kind_sanitized clean (vn_kind n) = vn_kind n"
      by (simp_all add: node_sanitized_def) (metis visual_node.select_convs(3,5) visual_node.surjective visual_node.update_convs(3,5))+
  qed
  have settle: "tap_to_saved positions \<circ> tap_to_runtime layers groups = settle_tap layers groups"
    "motion_from_runtime positions \<circ> motion_to_runtime layers = settle_motion layers"
    using assms(3) by (auto simp: tap_round_trip motion_round_trip)
  have "rack_ok ?s" using loaded_rack_ok [OF assms(1)] by (rule rack_ok_edit_kinds) simp
  moreover have "rk_next ?s \<noteq> 0 \<or> - 1 \<in> set (rack_ids ?s)"
    using loaded_rack_saves [OF assms(1)] by (simp add: rack_edit_kinds_def rack_ids_def o_def)
  moreover have "map (node_sanitized clean) (rk_nodes ?s) = rk_nodes ?s"
    by (simp add: rack_edit_kinds_def node_sanitized_def kind_sanitized_edit wet kind)
  ultimately have "rack_try_from_parts clean (rk_nodes ?s) (Some (rk_next ?s)) = Inr ?s"
    by (simp add: rack_ok_loads)
  moreover have "rk_next (rack_resolve_routes clean layers groups r) = rk_next ?s"
    by (simp add: rack_resolve_routes_def rack_edit_kinds_def)
  ultimately show ?thesis
    using capture_of_resolved [of r clean positions layers groups] kind by (simp add: rack_capture_routes_def settle)
qed

theorem rack_routes_round_trip_witness:
  "rack_capture_routes (\<lambda>t x. x) (\<lambda>i. None) (rack_resolve_routes (\<lambda>t x. x) (\<lambda>p. None) (\<lambda>g. False) (example_rack 7)) =
    Inr (example_rack 7)"
proof -
  have "\<forall>n \<in> set (rk_nodes (example_rack 7)). node_sanitized (\<lambda>t x. x) n = n"
    by (simp add: example_rack_def node_authored_def node_sanitized_def f32_eq_one_clamped f32_eq_def)
  from rack_routes_round_trip [OF example_rack_loads this, of "\<lambda>p. None" "\<lambda>i. None" "\<lambda>g. False"]
  show ?thesis by (simp add: lookups_agree_def rack_edit_kinds_def example_rack_def node_authored_def)
qed

text \<open>The layers a rack names, slot by slot.\<close>

definition layer_slots :: "('t \<Rightarrow> 'l option) \<Rightarrow> ('m \<Rightarrow> 'l option) \<Rightarrow> ('t, 'm, 'x) rack \<Rightarrow> 'l option list" where
  "layer_slots layer_of motion_of r = concat (map (\<lambda>n. kind_layers layer_of motion_of (vn_kind n)) (rk_nodes r))"

lemma selected_layers_slots: "set (rack_selected_layers layer_of motion_of r) = {l. Some l \<in> set (layer_slots layer_of motion_of r)}"
  by (fastforce simp: rack_selected_layers_def layer_slots_def split: option.splits)

lemma removed_tap_stays:
  "resolved_tap_layer t = Some removed \<Longrightarrow>
     resolved_tap_layer (tap_to_runtime layers groups (tap_to_saved positions (tap_mark_layer_missing removed t))) = None"
  by (simp add: resolved_tap_layer_def tap_mark_layer_missing_def tap_to_saved_def tap_to_runtime_def
      split: resolved_image_source.splits)

lemma removed_motion_stays:
  "motion_layer m = Some removed \<Longrightarrow>
     motion_layer (motion_to_runtime layers (motion_from_runtime positions (motion_mark_layer_missing removed m))) = None"
  by (cases m) simp_all

lemma sanitized_routes [simp]:
  "rm_tap (rack_matte_sanitized m) = rm_tap m" "dp_tap (displace_sanitized d) = dp_tap d"
  "rd_structure (residual_sanitized r) = rd_structure r" "rd_detail (residual_sanitized r) = rd_detail r"
  "sy_donors (symmetry_sanitized clean s) = sy_donors s" "sy_motion (symmetry_sanitized clean s) = sy_motion s"
  by (simp_all add: rack_matte_sanitized_def displace_sanitized_def residual_sanitized_def symmetry_sanitized_def)

lemma with_tap_routes [simp]:
  "rm_tap (matte_with_tap f m) = f (rm_tap m)" "dp_tap (displace_with_tap f d) = f (dp_tap d)"
  "rd_structure (residual_with_taps f r) = f (rd_structure r)" "rd_detail (residual_with_taps f r) = f (rd_detail r)"
  "sy_donors (symmetry_with_routes f g s) = map_prod f f (sy_donors s)"
  "sy_motion (symmetry_with_routes f g s) = map_prod g g (sy_motion s)"
  by (simp_all add: matte_with_tap_def displace_with_tap_def residual_with_taps_def symmetry_with_routes_def)

lemma removed_kind_stays:
  "list_all2 (\<lambda>before after. before = Some removed \<longrightarrow> after = None)
     (kind_layers resolved_tap_layer motion_layer k)
     (kind_layers resolved_tap_layer motion_layer
       (kind_resolve clean layers groups (kind_sanitized clean (kind_capture clean positions (kind_mark_layer_missing removed k)))))"
proof (cases k)
  case (NkMask m)
  then show ?thesis
    by (cases m) (simp_all add: kind_mark_layer_missing_def kind_resolve_def mask_resolve_def matte_resolve_routes_def
        matte_capture_routes_def removed_tap_stays)
qed (simp_all add: kind_mark_layer_missing_def kind_resolve_def displace_resolve_routes_def displace_capture_routes_def
      residual_resolve_routes_def residual_capture_routes_def symmetry_resolve_routes_def symmetry_capture_routes_def
      removed_tap_stays removed_motion_stays prod.map_comp)

text \<open>C21. A removed layer is never retargeted: after its removal is marked, the rack is saved, and the patch is loaded
  again against any layers, every route slot that named the removed layer names none, whatever layer has taken its
  position since.\<close>

theorem removed_layer_never_retargets:
  assumes "rack_capture_routes clean positions (rack_mark_layer_missing removed r) = Inr s"
  shows "list_all2 (\<lambda>before after. before = Some removed \<longrightarrow> after = None)
    (layer_slots resolved_tap_layer motion_layer r)
    (layer_slots resolved_tap_layer motion_layer (rack_resolve_routes clean layers groups s))"
proof -
  let ?P = "\<lambda>before after. before = Some removed \<longrightarrow> after = None"
  let ?n = "\<lambda>n. node_sanitized clean (node_with_kind (kind_capture clean positions (kind_mark_layer_missing removed (vn_kind n)))
      (n\<lparr>vn_kind := kind_mark_layer_missing removed (vn_kind n)\<rparr>))"
  have s: "rk_nodes s = map ?n (rk_nodes r)"
    using assms by (auto simp: rack_capture_routes_def rack_try_from_parts_def rbind_Inr Let_def rack_mark_layer_missing_def
        rack_edit_kinds_def o_def split: sum.splits if_splits)
  have "list_all2 (list_all2 ?P) (map (\<lambda>n. kind_layers resolved_tap_layer motion_layer (vn_kind n)) (rk_nodes r))
     (map (\<lambda>n. kind_layers resolved_tap_layer motion_layer (kind_resolve clean layers groups (vn_kind (?n n)))) (rk_nodes r))"
    by (simp add: list_all2_map1 list_all2_map2 list_all2_same node_sanitized_def node_with_kind_def removed_kind_stays)
  then show ?thesis
    by (simp add: layer_slots_def rack_resolve_routes_def s o_def concat_transfer [THEN rel_funD] del: node_sanitized_fields)
qed

definition example_routed :: "(resolved_tap, motion_donor, unit) rack" where
  "example_routed = \<lparr>rk_nodes = [node_authored (\<lambda>t x. x) 3 (NkDisplace \<lparr>dp_tap = \<lparr>rp_source = RsSelectedLayer 5 0 PreLocalEffects,
     rp_timing = CurrentFrame\<rparr>, dp_amount_x = 0, dp_amount_y = 0, dp_boundary = DbHold\<rparr>)], rk_next = 4\<rparr>"

theorem removed_layer_never_retargets_witness:
  "\<exists>s. rack_capture_routes (\<lambda>t x. x) (\<lambda>i. Some 0) (rack_mark_layer_missing 5 example_routed) = Inr s \<and>
     layer_slots resolved_tap_layer motion_layer example_routed = [Some 5, None, None, None] \<and>
     hd (layer_slots resolved_tap_layer motion_layer (rack_resolve_routes (\<lambda>t x. x) (\<lambda>p. Some 9) (\<lambda>g. True) s)) = None"
proof -
  have slots: "layer_slots resolved_tap_layer motion_layer example_routed = [Some 5, None, None, None]"
    by (simp add: layer_slots_def example_routed_def node_authored_def resolved_tap_layer_def)
  have "\<exists>s. rack_capture_routes (\<lambda>t x. x) (\<lambda>i. Some 0) (rack_mark_layer_missing 5 example_routed) = Inr s"
    by (simp add: example_routed_def example_rack_simps rack_mark_layer_missing_def rack_edit_kinds_def rack_capture_routes_def
        node_with_kind_def kind_mark_layer_missing_def displace_capture_routes_def displace_with_tap_def rack_try_from_parts_def
        validate_legacy_marker_def max_def node_sanitized_def)
  then obtain s where s: "rack_capture_routes (\<lambda>t x. x) (\<lambda>i. Some 0) (rack_mark_layer_missing 5 example_routed) = Inr s" ..
  from removed_layer_never_retargets [OF s, of "\<lambda>p. Some 9" "\<lambda>g. True"]
  show ?thesis using s slots by (auto simp: list_all2_Cons1)
qed

end
