(* ===== verification/Composition.thy ===== *)
theory Composition
  imports Visual_Rack
begin

text \<open>
  The composition tree of \<open>src/src/composition.rs\<close>: an ordered root of layers and one-level groups, with
  group identities from a cursor.  \<open>CompositionTree\<close> names layers by saved position and \<open>RuntimeComposition\<close> by
  stable identity; both implement the same operations, so they are the two instances of one record over
  the type \<open>'l\<close> of layers, \<open>'t\<close> of image taps and \<open>'m\<close> of motion donors.  \<open>'s\<close> and \<open>'b\<close> stand for
  \<open>SpatialTransform\<close> and \<open>BusMixerState\<close>, structs of numbers that no operation here reads; their
  sanitizers and default values are the record \<open>env\<close>.  The error of a group's rack is \<open>RackError\<close> in both forms
  (the live form only wraps it).  \<open>CePanic\<close> stands for a failing \<open>expect\<close>; it is shown not to occur.
\<close>

section \<open>Data\<close>

definition MAX_GROUPS :: nat where "MAX_GROUPS = 16"
definition MAX_COMPOSITION_LAYERS :: nat where "MAX_COMPOSITION_LAYERS = 256"
definition MAX_GROUP_NAME_BYTES :: nat where "MAX_GROUP_NAME_BYTES = 64"

datatype bus_assignment = BusA | BusB | BusProgram

definition bus_all :: "bus_assignment list" where "bus_all = [BusProgram, BusA, BusB]"

fun bus_key :: "bus_assignment \<Rightarrow> rstr" where
  "bus_key BusProgram = lit ''program''"
| "bus_key BusA = lit ''a''"
| "bus_key BusB = lit ''b''"

definition bus_try_from_key :: "rstr \<Rightarrow> bus_assignment option" where
  "bus_try_from_key key = find (\<lambda>b. bus_key b = key) bus_all"

datatype 'l root_item = RootLayer 'l bus_assignment | RootGroup group_id

datatype 'l root_key = KeyLayer 'l | KeyGroup group_id

fun root_item_key :: "'l root_item \<Rightarrow> 'l root_key" where
  "root_item_key (RootLayer l bus) = KeyLayer l"
| "root_item_key (RootGroup g) = KeyGroup g"

datatype 'l composition_error =
    CeTooManyGroups nat nat
  | CeTooManyLayers nat nat
  | CeGroupNameTooLong nat nat
  | CeDuplicateGroupId group_id
  | CeDuplicateRootItem "'l root_key"
  | CeDuplicateLayer 'l
  | CeUnknownGroup group_id
  | CeUnrootedGroup group_id
  | CeUnknownLayer 'l
  | CeMissingLayer 'l
  | CeInvalidNextGroupId u64 u64
  | CeGroupIdExhausted
  | CeInvalidMoveIndex nat nat
  | CeGroupRack group_id rack_error
  | CePanic

record ('l, 't, 'm, 'x, 's) group =
  gr_id :: group_id
  gr_name :: rstr
  gr_members :: "'l list"
  gr_opacity :: f32
  gr_transform :: 's
  gr_rack :: "('t, 'm, 'x) rack"
  gr_matte :: "'t rack_matte option"
  gr_solo :: bool
  gr_bypass :: bool
  gr_bus :: bus_assignment

record ('l, 't, 'm, 'x, 's, 'b) tree =
  ct_groups :: "('l, 't, 'm, 'x, 's) group list"
  ct_root :: "'l root_item list"
  ct_next :: u64
  ct_crossfade :: f32
  ct_mixer :: 'b

type_synonym ('x, 's, 'b) composition_tree = "(layer_position, saved_tap, saved_motion_donor, 'x, 's, 'b) tree"
type_synonym ('x, 's, 'b) runtime_composition = "(stable_layer_id, resolved_tap, motion_donor, 'x, 's, 'b) tree"

record ('s, 'b) tree_env =
  en_transform_clean :: "'s \<Rightarrow> 's"
  en_transform_default :: 's
  en_mixer_clean :: "'b \<Rightarrow> 'b"
  en_mixer_default :: 'b

definition group_name_new :: "rstr \<Rightarrow> 'l composition_error + rstr" where
  "group_name_new value =
     (if MAX_GROUP_NAME_BYTES < str_len value then Inl (CeGroupNameTooLong (str_len value) MAX_GROUP_NAME_BYTES)
      else Inr value)"

fun insert_layers :: "'l list \<Rightarrow> 'l list \<Rightarrow> 'l composition_error + 'l list" where
  "insert_layers seen [] = Inr seen"
| "insert_layers seen (l # ls) =
     (if l \<in> set seen then Inl (CeDuplicateLayer l) else insert_layers (l # seen) ls)"

definition group_members_try_from_vec :: "'l list \<Rightarrow> 'l composition_error + 'l list" where
  "group_members_try_from_vec entries =
     (if MAX_COMPOSITION_LAYERS < length entries then Inl (CeTooManyLayers (length entries) MAX_COMPOSITION_LAYERS)
      else rbind (insert_layers [] entries) (\<lambda>seen. Inr entries))"

definition move_layer :: "'l list \<Rightarrow> 'l \<Rightarrow> nat \<Rightarrow> 'l list \<times> ('l composition_error + unit)" where
  "move_layer members layer new_index =
     (if length members \<le> new_index then (members, Inl (CeInvalidMoveIndex new_index (length members)))
      else case vec_position (\<lambda>c. c = layer) members of
        None \<Rightarrow> (members, Inl (CeUnknownLayer layer))
      | Some old_index \<Rightarrow> (vec_move old_index new_index members, Inr ()))"

definition finite_unit :: "f32 \<Rightarrow> f32 \<Rightarrow> f32" where
  "finite_unit v fallback = (if f32_is_finite v then f32_clamp F32_ZERO F32_ONE v else fallback)"

definition group_empty :: "('s, 'b) tree_env \<Rightarrow> group_id \<Rightarrow> rstr \<Rightarrow> ('l, 't, 'm, 'x, 's) group" where
  "group_empty env i name = \<lparr>gr_id = i, gr_name = name, gr_members = [], gr_opacity = F32_ONE,
     gr_transform = en_transform_default env, gr_rack = rack_empty, gr_matte = None, gr_solo = False,
     gr_bypass = False, gr_bus = BusProgram\<rparr>"

definition check_group_rack :: "('l, 't, 'm, 'x, 's) group \<Rightarrow> 'l composition_error + unit" where
  "check_group_rack g =
     (case validate_for_scope (gr_rack g) RackGroup of Inl e \<Rightarrow> Inl (CeGroupRack (gr_id g) e) | Inr u \<Rightarrow> Inr ())"

definition group_sanitized ::
  "('s, 'b) tree_env \<Rightarrow> ('l, 't, 'm, 'x, 's) group \<Rightarrow> 'l composition_error + ('l, 't, 'm, 'x, 's) group" where
  "group_sanitized env g =
     (let g1 = g\<lparr>gr_opacity := finite_unit (gr_opacity g) F32_ONE, gr_transform := en_transform_clean env (gr_transform g),
                 gr_matte := map_option rack_matte_sanitized (gr_matte g)\<rparr>
      in rbind (check_group_rack g1) (\<lambda>u. Inr g1))"

fun sanitize_groups ::
  "('s, 'b) tree_env \<Rightarrow> ('l, 't, 'm, 'x, 's) group list \<Rightarrow> 'l composition_error + ('l, 't, 'm, 'x, 's) group list" where
  "sanitize_groups env [] = Inr []"
| "sanitize_groups env (g # gs) =
     rbind (group_sanitized env g) (\<lambda>g'. rbind (sanitize_groups env gs) (\<lambda>gs'. Inr (g' # gs')))"

text \<open>\<open>group_of\<close> is the group named by a tap.\<close>

definition group_references :: "('t \<Rightarrow> group_id option) \<Rightarrow> ('l, 't, 'm, 'x, 's) group \<Rightarrow> group_id list" where
  "group_references group_of g = rack_referenced_groups group_of (gr_rack g) @
     (case gr_matte g of None \<Rightarrow> [] | Some m \<Rightarrow> (case group_of (rm_tap m) of None \<Rightarrow> [] | Some i \<Rightarrow> [i]))"

text \<open>One edit of every route of a group.\<close>

definition group_edit_routes ::
  "('t \<Rightarrow> 't) \<Rightarrow> ('m \<Rightarrow> 'm) \<Rightarrow> ('l, 't, 'm, 'x, 's) group \<Rightarrow> ('l, 't, 'm, 'x, 's) group" where
  "group_edit_routes f h g = g\<lparr>gr_rack := rack_edit_kinds (kind_edit_routes f h) (gr_rack g),
     gr_matte := map_option (\<lambda>m. m\<lparr>rm_tap := f (rm_tap m)\<rparr>) (gr_matte g)\<rparr>"

section \<open>Validation\<close>

definition tree_group :: "('l, 't, 'm, 'x, 's, 'b) tree \<Rightarrow> group_id \<Rightarrow> ('l, 't, 'm, 'x, 's) group option" where
  "tree_group t i = find (\<lambda>g. gr_id g = i) (ct_groups t)"

definition contains_group :: "('l, 't, 'm, 'x, 's, 'b) tree \<Rightarrow> group_id \<Rightarrow> bool" where
  "contains_group t i \<longleftrightarrow> tree_group t i \<noteq> None"

fun scan_groups :: "group_id list \<Rightarrow> ('l, 't, 'm, 'x, 's) group list \<Rightarrow> 'l composition_error + group_id list" where
  "scan_groups ids [] = Inr ids"
| "scan_groups ids (g # gs) =
     (if gr_id g \<in> set ids then Inl (CeDuplicateGroupId (gr_id g))
      else rbind (check_group_rack g) (\<lambda>u. scan_groups (gr_id g # ids) gs))"

record 'l root_scan =
  rs_keys :: "'l root_key list"
  rs_layers :: "'l list"
  rs_rooted :: "group_id list"

fun scan_root ::
  "('l, 't, 'm, 'x, 's, 'b) tree \<Rightarrow> group_id list \<Rightarrow> 'l root_scan \<Rightarrow> 'l root_item list \<Rightarrow> 'l composition_error + 'l root_scan" where
  "scan_root t ids st [] = Inr st"
| "scan_root t ids st (item # items) =
     (if root_item_key item \<in> set (rs_keys st) then Inl (CeDuplicateRootItem (root_item_key item))
      else let st1 = st\<lparr>rs_keys := root_item_key item # rs_keys st\<rparr> in
        case item of
          RootLayer l bus \<Rightarrow>
            if l \<in> set (rs_layers st1) then Inl (CeDuplicateLayer l)
            else scan_root t ids (st1\<lparr>rs_layers := l # rs_layers st1\<rparr>) items
        | RootGroup i \<Rightarrow>
            if i \<notin> set ids then Inl (CeUnknownGroup i)
            else (case tree_group t i of
                None \<Rightarrow> Inl CePanic
              | Some g \<Rightarrow>
                  rbind (insert_layers (rs_layers st1) (gr_members g)) (\<lambda>layers.
                  scan_root t ids (st1\<lparr>rs_rooted := i # rs_rooted st1, rs_layers := layers\<rparr>) items)))"

definition validate_structure :: "('l, 't, 'm, 'x, 's, 'b) tree \<Rightarrow> 'l composition_error + unit" where
  "validate_structure t =
     rbind (scan_groups [] (ct_groups t)) (\<lambda>ids.
     rbind (scan_root t ids \<lparr>rs_keys = [], rs_layers = [], rs_rooted = []\<rparr> (ct_root t)) (\<lambda>st.
     case find (\<lambda>i. i \<notin> set (rs_rooted st)) (sort ids) of
       Some unrooted \<Rightarrow> Inl (CeUnrootedGroup unrooted)
     | None \<Rightarrow> Inr ()))"

section \<open>Flattening\<close>

record 'l flattened_layer =
  fl_layer :: 'l
  fl_group :: "group_id option"
  fl_bus :: bus_assignment
  fl_admitted :: bool

record group_span =
  fg_group :: group_id
  fg_start :: nat
  fg_len :: nat
  fg_bus :: bus_assignment
  fg_admitted :: bool
  fg_bypass :: bool

record 'l flattened =
  fc_layers :: "'l flattened_layer list"
  fc_groups :: "group_span list"

fun flatten_items ::
  "('l, 't, 'm, 'x, 's, 'b) tree \<Rightarrow> bool \<Rightarrow> 'l flattened \<Rightarrow> 'l root_item list \<Rightarrow> 'l flattened option" where
  "flatten_items t any_solo acc [] = Some acc"
| "flatten_items t any_solo acc (RootLayer l bus # items) =
     flatten_items t any_solo
       (acc\<lparr>fc_layers := fc_layers acc @ [\<lparr>fl_layer = l, fl_group = None, fl_bus = bus, fl_admitted = (\<not> any_solo)\<rparr>]\<rparr>) items"
| "flatten_items t any_solo acc (RootGroup i # items) =
     (case tree_group t i of
        None \<Rightarrow> None
      | Some g \<Rightarrow>
          (let start = length (fc_layers acc);
               admitted = (\<not> any_solo \<or> gr_solo g)
           in flatten_items t any_solo
             (acc\<lparr>fc_layers := fc_layers acc @
                    map (\<lambda>l. \<lparr>fl_layer = l, fl_group = Some (gr_id g), fl_bus = gr_bus g, fl_admitted = admitted\<rparr>) (gr_members g),
                  fc_groups := fc_groups acc @ [\<lparr>fg_group = i, fg_start = start, fg_len = length (gr_members g),
                    fg_bus = gr_bus g, fg_admitted = admitted, fg_bypass = gr_bypass g\<rparr>]\<rparr>) items))"

definition flatten_unchecked :: "('l, 't, 'm, 'x, 's, 'b) tree \<Rightarrow> 'l flattened option" where
  "flatten_unchecked t =
     flatten_items t (\<exists>g \<in> set (ct_groups t). gr_solo g) \<lparr>fc_layers = [], fc_groups = []\<rparr> (ct_root t)"

definition tree_flatten :: "('l, 't, 'm, 'x, 's, 'b) tree \<Rightarrow> 'l composition_error + 'l flattened" where
  "tree_flatten t = rbind (validate_structure t) (\<lambda>u. ok_or (flatten_unchecked t) CePanic)"

definition validate_for_layers ::
  "('l::linorder, 't, 'm, 'x, 's, 'b) tree \<Rightarrow> 'l list \<Rightarrow> 'l composition_error + unit" where
  "validate_for_layers t expected_layers =
     rbind (validate_structure t) (\<lambda>u.
     rbind (insert_layers [] expected_layers) (\<lambda>expected.
     rbind (ok_or (flatten_unchecked t) CePanic) (\<lambda>flat.
     let actual = map fl_layer (fc_layers flat) in
     case find (\<lambda>l. l \<notin> set expected) (sort actual) of
       Some l \<Rightarrow> Inl (CeUnknownLayer l)
     | None \<Rightarrow> (case find (\<lambda>l. l \<notin> set actual) (sort expected) of
         Some l \<Rightarrow> Inl (CeMissingLayer l)
       | None \<Rightarrow> Inr ()))))"

section \<open>Construction\<close>

fun root_groups :: "'l root_item list \<Rightarrow> group_id list" where
  "root_groups [] = []"
| "root_groups (RootGroup i # items) = i # root_groups items"
| "root_groups (RootLayer l bus # items) = root_groups items"

definition greatest_group :: "('t \<Rightarrow> group_id option) \<Rightarrow> ('l, 't, 'm, 'x, 's) group list \<Rightarrow> 'l root_item list \<Rightarrow> u64" where
  "greatest_group group_of groups roots =
     foldl max (foldl max (foldl max 0 (map gr_id groups)) (concat (map (group_references group_of) groups))) (root_groups roots)"

definition tree_try_from_parts ::
  "('t \<Rightarrow> group_id option) \<Rightarrow> ('s, 'b) tree_env \<Rightarrow> ('l, 't, 'm, 'x, 's) group list \<Rightarrow> 'l root_item list \<Rightarrow> u64 option \<Rightarrow> f32 \<Rightarrow>
   'l composition_error + ('l, 't, 'm, 'x, 's, 'b) tree" where
  "tree_try_from_parts group_of env groups roots next_group_id bus_crossfade =
     (if MAX_GROUPS < length groups then Inl (CeTooManyGroups (length groups) MAX_GROUPS)
      else rbind (sanitize_groups env groups) (\<lambda>groups.
        let greatest = greatest_group group_of groups roots;
            inferred = cursor_after greatest;
            next = (case next_group_id of None \<Rightarrow> max inferred 1 | Some n \<Rightarrow> n) in
        if next \<noteq> 0 \<and> next \<le> greatest \<or> next = 0 \<and> greatest \<noteq> - 1
        then Inl (CeInvalidNextGroupId next greatest)
        else let t = \<lparr>ct_groups = groups, ct_root = roots, ct_next = next,
                      ct_crossfade = finite_unit bus_crossfade F32_HALF, ct_mixer = en_mixer_default env\<rparr> in
          rbind (validate_structure t) (\<lambda>u. Inr t)))"

definition with_mixer :: "('s, 'b) tree_env \<Rightarrow> ('l, 't, 'm, 'x, 's, 'b) tree \<Rightarrow> 'b \<Rightarrow> ('l, 't, 'm, 'x, 's, 'b) tree" where
  "with_mixer env t mixer = t\<lparr>ct_mixer := en_mixer_clean env mixer\<rparr>"

definition set_mixer :: "('s, 'b) tree_env \<Rightarrow> ('l, 't, 'm, 'x, 's, 'b) tree \<Rightarrow> 'b \<Rightarrow> ('l, 't, 'm, 'x, 's, 'b) tree" where
  "set_mixer env t mixer = t\<lparr>ct_mixer := en_mixer_clean env mixer\<rparr>"

definition set_bus_crossfade :: "('l, 't, 'm, 'x, 's, 'b) tree \<Rightarrow> f32 \<Rightarrow> ('l, 't, 'm, 'x, 's, 'b) tree" where
  "set_bus_crossfade t value = t\<lparr>ct_crossfade := finite_unit value F32_HALF\<rparr>"

definition legacy_for_layers ::
  "('s, 'b) tree_env \<Rightarrow> layer_position list \<Rightarrow> layer_position composition_error + ('x, 's, 'b) composition_tree" where
  "legacy_for_layers env layers =
     (let t = \<lparr>ct_groups = [], ct_root = map (\<lambda>l. RootLayer l BusProgram) layers, ct_next = 1, ct_crossfade = F32_HALF,
               ct_mixer = en_mixer_default env\<rparr>
      in rbind (validate_for_layers t layers) (\<lambda>u. Inr t))"

section \<open>Edits\<close>

definition observe_group_reference :: "('l, 't, 'm, 'x, 's, 'b) tree \<Rightarrow> group_id \<Rightarrow> ('l, 't, 'm, 'x, 's, 'b) tree" where
  "observe_group_reference t i = (if ct_next t \<noteq> 0 \<and> ct_next t \<le> i then t\<lparr>ct_next := cursor_after i\<rparr> else t)"

definition insert_empty_group ::
  "('s, 'b) tree_env \<Rightarrow> ('l, 't, 'm, 'x, 's, 'b) tree \<Rightarrow> rstr \<Rightarrow> nat \<Rightarrow>
   ('l, 't, 'm, 'x, 's, 'b) tree \<times> ('l composition_error + group_id)" where
  "insert_empty_group env t name root_index =
     (if length (ct_groups t) = MAX_GROUPS then (t, Inl (CeTooManyGroups (length (ct_groups t) + 1) MAX_GROUPS))
      else if length (ct_root t) < root_index then (t, Inl (CeInvalidMoveIndex root_index (length (ct_root t))))
      else case node_id_new (ct_next t) of
        None \<Rightarrow> (t, Inl CeGroupIdExhausted)
      | Some i \<Rightarrow> (t\<lparr>ct_next := cursor_after (ct_next t), ct_groups := ct_groups t @ [group_empty env i name],
                     ct_root := vec_insert root_index (RootGroup i) (ct_root t)\<rparr>, Inr i))"

fun insert_members :: "nat \<Rightarrow> bus_assignment \<Rightarrow> 'l list \<Rightarrow> 'l root_item list \<Rightarrow> 'l root_item list" where
  "insert_members i bus [] roots = roots"
| "insert_members i bus (l # ls) roots = insert_members (Suc i) bus ls (vec_insert i (RootLayer l bus) roots)"

text \<open>\<open>mark\<close> is the invalidation of a tap for a removed group.\<close>

definition tree_remove_group ::
  "(group_id \<Rightarrow> 't \<Rightarrow> 't) \<Rightarrow> ('l, 't, 'm, 'x, 's, 'b) tree \<Rightarrow> group_id \<Rightarrow>
   ('l, 't, 'm, 'x, 's, 'b) tree \<times> ('l composition_error + ('l, 't, 'm, 'x, 's) group)" where
  "tree_remove_group mark t i =
     (case vec_position (\<lambda>g. gr_id g = i) (ct_groups t) of
        None \<Rightarrow> (t, Inl (CeUnknownGroup i))
      | Some group_index \<Rightarrow>
          (case vec_position (\<lambda>item. root_item_key item = KeyGroup i) (ct_root t) of
             None \<Rightarrow> (t, Inl (CeUnrootedGroup i))
           | Some root_index \<Rightarrow>
               (let g = ct_groups t ! group_index;
                    roots = insert_members root_index (gr_bus g) (gr_members g) (vec_remove root_index (ct_root t));
                    groups = map (group_edit_routes (mark i) id) (vec_remove group_index (ct_groups t))
                in (t\<lparr>ct_groups := groups, ct_root := roots\<rparr>, Inr g))))"

definition saved_remove_group_ungroup ::
  "('x, 's, 'b) composition_tree \<Rightarrow> group_id \<Rightarrow>
   ('x, 's, 'b) composition_tree \<times> (layer_position composition_error + (layer_position, saved_tap, saved_motion_donor, 'x, 's) group)" where
  "saved_remove_group_ungroup = tree_remove_group saved_mark_group_missing"

definition remove_group_ungroup ::
  "('x, 's, 'b) runtime_composition \<Rightarrow> group_id \<Rightarrow>
   ('x, 's, 'b) runtime_composition \<times> (stable_layer_id composition_error + (stable_layer_id, resolved_tap, motion_donor, 'x, 's) group)" where
  "remove_group_ungroup = tree_remove_group tap_mark_group_missing"

definition mark_layer_output_missing ::
  "('x, 's, 'b) runtime_composition \<Rightarrow> stable_layer_id \<Rightarrow> ('x, 's, 'b) runtime_composition" where
  "mark_layer_output_missing t removed =
     t\<lparr>ct_groups := map (group_edit_routes (tap_mark_layer_missing removed) (motion_mark_layer_missing removed)) (ct_groups t)\<rparr>"

definition move_root_item ::
  "('l, 't, 'm, 'x, 's, 'b) tree \<Rightarrow> 'l root_key \<Rightarrow> nat \<Rightarrow> ('l, 't, 'm, 'x, 's, 'b) tree \<times> ('l composition_error + unit)" where
  "move_root_item t key new_index =
     (if length (ct_root t) \<le> new_index then (t, Inl (CeInvalidMoveIndex new_index (length (ct_root t))))
      else case vec_position (\<lambda>item. root_item_key item = key) (ct_root t) of
        None \<Rightarrow> (t, Inl (case key of KeyLayer l \<Rightarrow> CeUnknownLayer l | KeyGroup i \<Rightarrow> CeUnknownGroup i))
      | Some old_index \<Rightarrow> (t\<lparr>ct_root := vec_move old_index new_index (ct_root t)\<rparr>, Inr ()))"

definition move_group_member ::
  "('l, 't, 'm, 'x, 's, 'b) tree \<Rightarrow> group_id \<Rightarrow> 'l \<Rightarrow> nat \<Rightarrow> ('l, 't, 'm, 'x, 's, 'b) tree \<times> ('l composition_error + unit)" where
  "move_group_member t i layer new_index =
     (case vec_position (\<lambda>g. gr_id g = i) (ct_groups t) of
        None \<Rightarrow> (t, Inl (CeUnknownGroup i))
      | Some k \<Rightarrow>
          (case move_layer (gr_members (ct_groups t ! k)) layer new_index of
             (members, res) \<Rightarrow>
               (t\<lparr>ct_groups := (ct_groups t)[k := (ct_groups t ! k)\<lparr>gr_members := members\<rparr>]\<rparr>, res)))"

datatype output_status = OsAvailable bool | OsMissing

definition group_output_status :: "('l, 't, 'm, 'x, 's, 'b) tree \<Rightarrow> group_id \<Rightarrow> output_status" where
  "group_output_status t i = (case tree_group t i of None \<Rightarrow> OsMissing | Some g \<Rightarrow> OsAvailable (gr_members g = []))"

section \<open>Resolving and capturing\<close>

datatype ('a, 'c) mapping_error =
    MeMissing 'a
  | MeDuplicate 'c 'a 'a
  | MeInvalidSource "'a composition_error"
  | MeInvalidTarget "'c composition_error"
  | MeRoutes group_id route_capture_error

text \<open>
  Both directions map every layer named in the tree once, in ascending order, and refuse two that map to one.
  \<open>MeMissing\<close> and \<open>MeDuplicate\<close> are \<open>MissingSavedLayer\<close> and \<open>DuplicateLiveLayer\<close> of one direction, \<open>MissingLiveLayer\<close> and
  \<open>DuplicateSavedPosition\<close> of the other; source and target are the saved and the live form, or the reverse.
\<close>

fun first_clash :: "('a \<Rightarrow> 'c option) \<Rightarrow> ('c \<times> 'a) list \<Rightarrow> 'a list \<Rightarrow> ('c \<times> 'a \<times> 'a) option" where
  "first_clash f seen [] = None"
| "first_clash f seen (a # as) =
     (case f a of
        None \<Rightarrow> first_clash f seen as
      | Some c \<Rightarrow> (case map_of seen c of Some first \<Rightarrow> Some (c, first, a) | None \<Rightarrow> first_clash f ((c, a) # seen) as))"

definition named_layers ::
  "('t \<Rightarrow> 'l option) \<Rightarrow> ('m \<Rightarrow> 'l option) \<Rightarrow> ('l, 't, 'm, 'x, 's) group list \<Rightarrow> 'l list" where
  "named_layers layer_of motion_of groups =
     concat (map (\<lambda>g. rack_selected_layers layer_of motion_of (gr_rack g) @
       (case gr_matte g of None \<Rightarrow> [] | Some m \<Rightarrow> (case layer_of (rm_tap m) of None \<Rightarrow> [] | Some l \<Rightarrow> [l]))) groups)"

definition build_lookup ::
  "('a::linorder \<Rightarrow> 'c option) \<Rightarrow> 'a list \<Rightarrow> 'a list \<Rightarrow> ('a, 'c) mapping_error + ('a \<Rightarrow> 'c option)" where
  "build_lookup f members named =
     (let every = remdups (sort (members @ named)) in
      case first_clash f [] every of
        Some (c, first, second) \<Rightarrow> Inl (MeDuplicate c first second)
      | None \<Rightarrow>
          (let resolved = (\<lambda>a. if a \<in> set every then f a else None) in
           case find (\<lambda>a. resolved a = None) (remdups (sort members)) of
             Some a \<Rightarrow> Inl (MeMissing a)
           | None \<Rightarrow> Inr resolved))"

fun map_groups :: "('g \<Rightarrow> 'e + 'h) \<Rightarrow> 'g list \<Rightarrow> 'e + 'h list" where
  "map_groups f [] = Inr []"
| "map_groups f (g # gs) = rbind (f g) (\<lambda>h. rbind (map_groups f gs) (\<lambda>hs. Inr (h # hs)))"

definition lift_source :: "'a composition_error + 'r \<Rightarrow> ('a, 'c) mapping_error + 'r" where
  "lift_source x = (case x of Inl e \<Rightarrow> Inl (MeInvalidSource e) | Inr v \<Rightarrow> Inr v)"

definition lift_target :: "'c composition_error + 'r \<Rightarrow> ('a, 'c) mapping_error + 'r" where
  "lift_target x = (case x of Inl e \<Rightarrow> Inl (MeInvalidTarget e) | Inr v \<Rightarrow> Inr v)"

text \<open>The mapped root; \<open>None\<close> is a failing \<open>expect\<close>.\<close>

fun map_root :: "('a \<Rightarrow> 'c option) \<Rightarrow> 'a root_item list \<Rightarrow> 'c root_item list option" where
  "map_root f [] = Some []"
| "map_root f (RootLayer l bus # items) =
     obind (f l) (\<lambda>c. map_option (Cons (RootLayer c bus)) (map_root f items))"
| "map_root f (RootGroup i # items) = map_option (Cons (RootGroup i)) (map_root f items)"

definition resolve_group ::
  "'x cleaner \<Rightarrow> (layer_position \<Rightarrow> stable_layer_id option) \<Rightarrow> (group_id \<Rightarrow> bool) \<Rightarrow>
   (layer_position, saved_tap, saved_motion_donor, 'x, 's) group \<Rightarrow>
   (layer_position, stable_layer_id) mapping_error + (stable_layer_id, resolved_tap, motion_donor, 'x, 's) group" where
  "resolve_group clean resolved groups g =
     rbind (ok_or (those (map resolved (gr_members g))) (MeInvalidTarget CePanic)) (\<lambda>members.
     rbind (lift_target (group_members_try_from_vec members)) (\<lambda>members.
     Inr \<lparr>gr_id = gr_id g, gr_name = gr_name g, gr_members = members, gr_opacity = gr_opacity g,
          gr_transform = gr_transform g, gr_rack = rack_resolve_routes clean resolved groups (gr_rack g),
          gr_matte = map_option (matte_resolve_routes resolved groups) (gr_matte g),
          gr_solo = gr_solo g, gr_bypass = gr_bypass g, gr_bus = gr_bus g\<rparr>))"

definition tree_resolve ::
  "'x cleaner \<Rightarrow> ('s, 'b) tree_env \<Rightarrow> (layer_position \<Rightarrow> stable_layer_id option) \<Rightarrow> ('x, 's, 'b) composition_tree \<Rightarrow>
   (layer_position, stable_layer_id) mapping_error + ('x, 's, 'b) runtime_composition" where
  "tree_resolve clean env layer_at_position t =
     rbind (lift_source (tree_flatten t)) (\<lambda>flat.
     rbind (build_lookup layer_at_position (map fl_layer (fc_layers flat))
       (named_layers saved_tap_layer saved_motion_layer (ct_groups t))) (\<lambda>resolved.
     rbind (map_groups (resolve_group clean resolved (contains_group t)) (ct_groups t)) (\<lambda>groups.
     rbind (ok_or (map_root resolved (ct_root t)) (MeInvalidTarget CePanic)) (\<lambda>roots.
     rbind (lift_target (tree_try_from_parts resolved_tap_group env groups roots (Some (ct_next t)) (ct_crossfade t))) (\<lambda>r.
     Inr (with_mixer env r (ct_mixer t)))))))"

definition capture_group ::
  "'x cleaner \<Rightarrow> (stable_layer_id \<Rightarrow> layer_position option) \<Rightarrow>
   (stable_layer_id, resolved_tap, motion_donor, 'x, 's) group \<Rightarrow>
   (stable_layer_id, layer_position) mapping_error + (layer_position, saved_tap, saved_motion_donor, 'x, 's) group" where
  "capture_group clean captured g =
     rbind (ok_or (those (map captured (gr_members g))) (MeInvalidTarget CePanic)) (\<lambda>members.
     rbind (lift_target (group_members_try_from_vec members)) (\<lambda>members.
     rbind (case rack_capture_routes clean captured (gr_rack g) of Inl e \<Rightarrow> Inl (MeRoutes (gr_id g) e) | Inr r \<Rightarrow> Inr r) (\<lambda>rack.
     Inr \<lparr>gr_id = gr_id g, gr_name = gr_name g, gr_members = members, gr_opacity = gr_opacity g,
          gr_transform = gr_transform g, gr_rack = rack,
          gr_matte = map_option (matte_capture_routes captured) (gr_matte g),
          gr_solo = gr_solo g, gr_bypass = gr_bypass g, gr_bus = gr_bus g\<rparr>)))"

definition tree_capture ::
  "'x cleaner \<Rightarrow> ('s, 'b) tree_env \<Rightarrow> (stable_layer_id \<Rightarrow> layer_position option) \<Rightarrow> ('x, 's, 'b) runtime_composition \<Rightarrow>
   (stable_layer_id, layer_position) mapping_error + ('x, 's, 'b) composition_tree" where
  "tree_capture clean env position_of_layer t =
     rbind (lift_source (tree_flatten t)) (\<lambda>flat.
     rbind (build_lookup position_of_layer (map fl_layer (fc_layers flat))
       (named_layers resolved_tap_layer motion_layer (ct_groups t))) (\<lambda>captured.
     rbind (map_groups (capture_group clean captured) (ct_groups t)) (\<lambda>groups.
     rbind (ok_or (map_root captured (ct_root t)) (MeInvalidTarget CePanic)) (\<lambda>roots.
     rbind (lift_target (tree_try_from_parts saved_tap_group env groups roots (Some (ct_next t)) (ct_crossfade t))) (\<lambda>r.
     Inr (with_mixer env r (ct_mixer t)))))))"

end
