(* ===== verification/Composition_Laws.thy ===== *)
theory Composition_Laws
  imports Composition Visual_Rack_Laws
begin

text \<open>
  Laws of the composition tree: validation against a plain conjunction, flattening in closed form,
  the invariant of every edited tree (no edit loses, repeats or, where it only regroups, reorders a layer), group
  identities as an instance of \<open>id_allocator\<close> in the locale \<open>tap_form\<close>, which is interpreted for the
  saved and for the live tree, and the way of a tree through saving and loading.
\<close>

section \<open>Well-formed trees\<close>

fun item_layers :: "('l, 't, 'm, 'x, 's, 'b) tree \<Rightarrow> 'l root_item \<Rightarrow> 'l list" where
  "item_layers t (RootLayer l bus) = [l]"
| "item_layers t (RootGroup i) = (case tree_group t i of None \<Rightarrow> [] | Some g \<Rightarrow> gr_members g)"

definition tree_layers :: "('l, 't, 'm, 'x, 's, 'b) tree \<Rightarrow> 'l list" where
  "tree_layers t = concat (map (item_layers t) (ct_root t))"

definition group_ids :: "('l, 't, 'm, 'x, 's, 'b) tree \<Rightarrow> group_id list" where
  "group_ids t = map gr_id (ct_groups t)"

definition tree_wf :: "('l, 't, 'm, 'x, 's, 'b) tree \<Rightarrow> bool" where
  "tree_wf t \<longleftrightarrow> distinct (group_ids t) \<and> (\<forall>g \<in> set (ct_groups t). check_group_rack g = Inr ()) \<and>
     distinct (root_groups (ct_root t)) \<and> set (root_groups (ct_root t)) = set (group_ids t) \<and> distinct (tree_layers t)"

lemma insert_layers_Inr:
  "insert_layers seen ls = Inr out \<longleftrightarrow> distinct ls \<and> set ls \<inter> set seen = {} \<and> out = rev ls @ seen"
  by (induction seen ls rule: insert_layers.induct) auto

lemma scan_groups_Inr:
  "scan_groups ids gs = Inr out \<longleftrightarrow> distinct (map gr_id gs) \<and> gr_id ` set gs \<inter> set ids = {} \<and>
     (\<forall>g \<in> set gs. check_group_rack g = Inr ()) \<and> out = rev (map gr_id gs) @ ids"
  by (induction ids gs rule: scan_groups.induct) (auto simp: rbind_Inr)

lemma find_first: "find P xs = (case vec_position P xs of None \<Rightarrow> None | Some i \<Rightarrow> Some (xs ! i))"
  by (induction xs) (auto split: option.splits)

lemma tree_group_Some: "tree_group t i = Some g \<Longrightarrow> g \<in> set (ct_groups t) \<and> gr_id g = i"
  by (auto simp: tree_group_def find_Some_iff)

lemma tree_group_None: "tree_group t i = None \<longleftrightarrow> i \<notin> set (group_ids t)"
  by (auto simp: tree_group_def find_None_iff group_ids_def)

lemma tree_group_id: "distinct (group_ids t) \<Longrightarrow> g \<in> set (ct_groups t) \<Longrightarrow> tree_group t (gr_id g) = Some g"
proof -
  assume d: "distinct (group_ids t)" and g: "g \<in> set (ct_groups t)"
  then have "tree_group t (gr_id g) \<noteq> None" by (simp add: tree_group_None group_ids_def)
  then obtain h where h: "tree_group t (gr_id g) = Some h" by blast
  then have "h = g" using tree_group_Some [OF h] d g by (auto simp: group_ids_def distinct_map inj_on_def)
  with h show ?thesis by simp
qed

lemma key_in_items [simp]:
  "KeyLayer l \<in> root_item_key ` set items \<longleftrightarrow> (\<exists>b. RootLayer l b \<in> set items)"
  "KeyGroup i \<in> root_item_key ` set items \<longleftrightarrow> RootGroup i \<in> set items"
proof -
  have "KeyLayer l = root_item_key item \<longleftrightarrow> (\<exists>b. item = RootLayer l b)" "KeyGroup i = root_item_key item \<longleftrightarrow> item = RootGroup i"
    for item :: "'a root_item" by (cases item; auto)+
  then show "KeyLayer l \<in> root_item_key ` set items \<longleftrightarrow> (\<exists>b. RootLayer l b \<in> set items)"
    "KeyGroup i \<in> root_item_key ` set items \<longleftrightarrow> RootGroup i \<in> set items" by (auto simp: image_iff)
qed

lemma root_groups_set: "set (root_groups items) = {i. RootGroup i \<in> set items}"
  by (induction items rule: root_groups.induct) auto

lemma root_groups_append [simp]: "root_groups (xs @ ys) = root_groups xs @ root_groups ys"
  by (induction xs rule: root_groups.induct) auto

lemma scan_root_Inr:
  assumes "set ids = set (group_ids t)"
  shows "scan_root t ids st items = Inr st' \<longleftrightarrow>
    distinct (map root_item_key items) \<and> root_item_key ` set items \<inter> set (rs_keys st) = {} \<and>
    set (root_groups items) \<subseteq> set (group_ids t) \<and>
    distinct (concat (map (item_layers t) items)) \<and> set (concat (map (item_layers t) items)) \<inter> set (rs_layers st) = {} \<and>
    st' = \<lparr>rs_keys = rev (map root_item_key items) @ rs_keys st, rs_layers = rev (concat (map (item_layers t) items)) @ rs_layers st,
      rs_rooted = rev (root_groups items) @ rs_rooted st\<rparr>"
proof (induction items arbitrary: st)
  case Nil
  show ?case by auto
next
  case (Cons item items)
  show ?case
  proof (cases item)
    case (RootLayer l bus)
    show ?thesis unfolding RootLayer by (auto simp: Cons.IH Let_def)
  next
    case (RootGroup i)
    show ?thesis
    proof (cases "tree_group t i")
      case None
      then show ?thesis using RootGroup by (auto simp: tree_group_None assms)
    next
      case (Some g)
      then have "i \<in> set (group_ids t)" using tree_group_None [of t i] by simp
      then show ?thesis unfolding RootGroup using Some
        by (auto simp: Cons.IH Let_def rbind_Inr insert_layers_Inr assms)
    qed
  qed
qed

lemma distinct_keys:
  assumes "distinct (concat (map (item_layers t) items))" "distinct (root_groups items)"
  shows "distinct (map root_item_key items)"
  using assms
proof (induction items)
  case (Cons item items)
  show ?case
  proof (cases item)
    case (RootLayer l bus)
    with Cons.prems have "l \<notin> set (item_layers t x)" if "x \<in> set items" for x using that by auto
    then have "RootLayer l b \<notin> set items" for b by force
    then show ?thesis using RootLayer Cons by simp
  next
    case (RootGroup i)
    then show ?thesis using Cons by (simp add: root_groups_set)
  qed
qed simp

lemma validate_structure_wf: "validate_structure t = Inr () \<longleftrightarrow> tree_wf t"
proof -
  have sorted: "find (\<lambda>i. i \<notin> R) (sort xs) = None \<longleftrightarrow> set xs \<subseteq> R" for R :: "group_id set" and xs
    by (auto simp: find_None_iff)
  have unrooted: "(case x of None \<Rightarrow> Inr () | Some i \<Rightarrow> Inl (CeUnrootedGroup i)) = Inr () \<longleftrightarrow> x = None" for x :: "group_id option"
    by (cases x) auto
  have "validate_structure t = Inr () \<longleftrightarrow>
    distinct (group_ids t) \<and> (\<forall>g \<in> set (ct_groups t). check_group_rack g = Inr ()) \<and>
    distinct (map root_item_key (ct_root t)) \<and> set (root_groups (ct_root t)) \<subseteq> set (group_ids t) \<and>
    distinct (tree_layers t) \<and> set (group_ids t) \<subseteq> set (root_groups (ct_root t))"
    unfolding validate_structure_def rbind_Inr scan_groups_Inr
    by (auto simp: scan_root_Inr group_ids_def tree_layers_def sorted unrooted)
  moreover have "distinct (map root_item_key items) \<Longrightarrow> distinct (root_groups items)" for items :: "'a root_item list"
    by (induction items rule: root_groups.induct) (auto simp: root_groups_set)
  ultimately show ?thesis
    using distinct_keys [of t "ct_root t"] by (auto simp: tree_wf_def tree_layers_def)
qed

section \<open>Flattening in closed form\<close>

abbreviation any_solo :: "('l, 't, 'm, 'x, 's, 'b) tree \<Rightarrow> bool" where
  "any_solo t \<equiv> \<exists>g \<in> set (ct_groups t). gr_solo g"

definition group_block :: "bool \<Rightarrow> ('l, 't, 'm, 'x, 's) group \<Rightarrow> 'l flattened_layer list" where
  "group_block solo g = map (\<lambda>l. \<lparr>fl_layer = l, fl_group = Some (gr_id g), fl_bus = gr_bus g,
     fl_admitted = (\<not> solo \<or> gr_solo g)\<rparr>) (gr_members g)"

fun item_block :: "('l, 't, 'm, 'x, 's, 'b) tree \<Rightarrow> bool \<Rightarrow> 'l root_item \<Rightarrow> 'l flattened_layer list" where
  "item_block t solo (RootLayer l bus) = [\<lparr>fl_layer = l, fl_group = None, fl_bus = bus, fl_admitted = (\<not> solo)\<rparr>]"
| "item_block t solo (RootGroup i) = (case tree_group t i of None \<Rightarrow> [] | Some g \<Rightarrow> group_block solo g)"

fun item_spans :: "('l, 't, 'm, 'x, 's, 'b) tree \<Rightarrow> bool \<Rightarrow> nat \<Rightarrow> 'l root_item list \<Rightarrow> group_span list" where
  "item_spans t solo start [] = []"
| "item_spans t solo start (RootLayer l bus # items) = item_spans t solo (Suc start) items"
| "item_spans t solo start (RootGroup i # items) =
     (case tree_group t i of
        None \<Rightarrow> []
      | Some g \<Rightarrow> \<lparr>fg_group = i, fg_start = start, fg_len = length (gr_members g), fg_bus = gr_bus g,
            fg_admitted = (\<not> solo \<or> gr_solo g), fg_bypass = gr_bypass g\<rparr> #
          item_spans t solo (start + length (gr_members g)) items)"

lemma group_block_layers [simp]: "map fl_layer (group_block solo g) = gr_members g" "length (group_block solo g) = length (gr_members g)"
  by (simp_all add: group_block_def o_def)

lemma item_block_layers [simp]: "map fl_layer (item_block t solo item) = item_layers t item"
  by (cases item) (simp_all split: option.split)

lemma flatten_items_closed:
  "set (root_groups items) \<subseteq> set (group_ids t) \<Longrightarrow> flatten_items t solo acc items =
     Some \<lparr>fc_layers = fc_layers acc @ concat (map (item_block t solo) items),
           fc_groups = fc_groups acc @ item_spans t solo (length (fc_layers acc)) items\<rparr>"
proof (induction t solo acc items rule: flatten_items.induct)
  case (3 t solo acc i items)
  then have "i \<in> set (group_ids t)" by simp
  then obtain g where g: "tree_group t i = Some g" using tree_group_None by (cases "tree_group t i") auto
  have "flatten_items t solo acc (RootGroup i # items) =
    flatten_items t solo (acc\<lparr>fc_layers := fc_layers acc @ group_block solo g,
      fc_groups := fc_groups acc @ [\<lparr>fg_group = i, fg_start = length (fc_layers acc), fg_len = length (gr_members g),
        fg_bus = gr_bus g, fg_admitted = (\<not> solo \<or> gr_solo g), fg_bypass = gr_bypass g\<rparr>]\<rparr>) items"
    by (simp add: g Let_def group_block_def)
  then show ?case using 3(1) [OF g refl refl] 3(2) by (simp add: g Let_def group_block_def)
qed simp_all

lemma flatten_closed:
  assumes "tree_wf t"
  shows "tree_flatten t = Inr \<lparr>fc_layers = concat (map (item_block t (any_solo t)) (ct_root t)),
    fc_groups = item_spans t (any_solo t) 0 (ct_root t)\<rparr>"
  using assms validate_structure_wf [of t] flatten_items_closed [of "ct_root t" t]
  by (simp add: tree_flatten_def flatten_unchecked_def tree_wf_def)

lemma flatten_wf: "tree_flatten t = Inr f \<Longrightarrow> tree_wf t"
  using validate_structure_wf [of t] by (auto simp: tree_flatten_def rbind_Inr)

lemma flatten_layers: "tree_flatten t = Inr f \<Longrightarrow> map fl_layer (fc_layers f) = tree_layers t"
  using flatten_wf [of t f] flatten_closed [of t] by (auto simp: map_concat tree_layers_def o_def)

lemma span_block:
  "sp \<in> set (item_spans t solo start items) \<Longrightarrow>
     start \<le> fg_start sp \<and> (\<exists>g. tree_group t (fg_group sp) = Some g \<and> RootGroup (fg_group sp) \<in> set items \<and>
       fg_len sp = length (gr_members g) \<and>
       take (fg_len sp) (drop (fg_start sp - start) (concat (map (item_block t solo) items))) = group_block solo g)"
proof (induction t solo start items rule: item_spans.induct)
  case (2 t solo start l bus items)
  then obtain g where "Suc start \<le> fg_start sp" "tree_group t (fg_group sp) = Some g" "RootGroup (fg_group sp) \<in> set items"
    "fg_len sp = length (gr_members g)"
    "take (fg_len sp) (drop (fg_start sp - Suc start) (concat (map (item_block t solo) items))) = group_block solo g" by auto
  then show ?case by (auto simp: Suc_diff_Suc drop_Cons')
next
  case (3 t solo start i items)
  from 3(2) obtain h where h: "tree_group t i = Some h" by (cases "tree_group t i") auto
  show ?case
  proof (cases "sp \<in> set (item_spans t solo (start + length (gr_members h)) items)")
    case True
    with 3(1) [OF h] show ?thesis by (auto simp: h)
  next
    case False
    with 3(2) h show ?thesis by auto
  qed
qed simp

text \<open>The layers of a group are its block and nothing else.\<close>

lemma block_filter:
  assumes "distinct (root_groups items)" "tree_group t i = Some g" "RootGroup i \<in> set items"
  shows "filter (\<lambda>l. fl_group l = Some i) (concat (map (item_block t solo) items)) = group_block solo g"
  using assms
proof (induction items)
  case (Cons item items)
  have other: "filter (\<lambda>l. fl_group l = Some i) (item_block t solo x) = []" if "x \<noteq> RootGroup i" for x
  proof (cases x)
    case (RootGroup j)
    then show ?thesis using that tree_group_Some [of t j]
      by (cases "tree_group t j") (auto simp: group_block_def filter_empty_conv)
  qed simp
  show ?case
  proof (cases "item = RootGroup i")
    case True
    with Cons.prems have "RootGroup i \<notin> set items" by (auto simp: root_groups_set)
    then have "\<forall>x \<in> set items. filter (\<lambda>l. fl_group l = Some i) (item_block t solo x) = []"
      using other by metis
    then have "filter (\<lambda>l. fl_group l = Some i) (concat (map (item_block t solo) items)) = []"
      by (simp add: filter_concat)
    moreover have "filter (\<lambda>l. fl_group l = Some i) (group_block solo g) = group_block solo g"
      using tree_group_Some [OF Cons.prems(2)] by (simp add: group_block_def filter_map o_def)
    ultimately show ?thesis using True Cons.prems by simp
  next
    case False
    then have "distinct (root_groups items)" using Cons.prems by (cases item) auto
    with False Cons show ?thesis using other [OF False] by auto
  qed
qed simp

text \<open>The span that flattening reports for a group is exactly that group: the layers from its start on, as many
  as its length says, are the members in order with the bus and the admission of the group, and no other layer of
  the flattened composition belongs to it.\<close>

theorem flatten_spans_exact:
  assumes "tree_flatten t = Inr f" "sp \<in> set (fc_groups f)"
  shows "\<exists>g. tree_group t (fg_group sp) = Some g \<and>
    take (fg_len sp) (drop (fg_start sp) (fc_layers f)) = group_block (any_solo t) g \<and>
    filter (\<lambda>l. fl_group l = Some (fg_group sp)) (fc_layers f) = group_block (any_solo t) g"
proof -
  have wf: "tree_wf t" using assms(1) by (rule flatten_wf)
  with assms flatten_closed [OF wf] have f: "fc_layers f = concat (map (item_block t (any_solo t)) (ct_root t))"
    and sp: "sp \<in> set (item_spans t (any_solo t) 0 (ct_root t))" by auto
  from span_block [OF sp] obtain g where g: "tree_group t (fg_group sp) = Some g" "RootGroup (fg_group sp) \<in> set (ct_root t)"
    "take (fg_len sp) (drop (fg_start sp) (concat (map (item_block t (any_solo t)) (ct_root t)))) = group_block (any_solo t) g"
    by auto
  moreover have "filter (\<lambda>l. fl_group l = Some (fg_group sp)) (fc_layers f) = group_block (any_solo t) g"
    using wf g by (simp add: f block_filter tree_wf_def)
  ultimately show ?thesis using f by simp
qed

text \<open>Validation is exact: a tree passes exactly when its groups have distinct identities and legal racks, the root
  holds every group once, and no layer occurs twice, directly or as a member.\<close>

theorem composition_validation_exact: "validate_structure t = Inr () \<longleftrightarrow> tree_wf t"
  by (rule validate_structure_wf)

section \<open>Edits of routes and of membership\<close>

lemma vec_position_map: "vec_position P (map f xs) = vec_position (\<lambda>x. P (f x)) xs"
  by (induction xs) auto

lemma validate_for_scope_edit:
  assumes "\<And>k. kind_tag (f k) = kind_tag k"
  shows "validate_for_scope (rack_edit_kinds f r) scope = validate_for_scope r scope"
proof -
  have "enabled_tags (rk_nodes (rack_edit_kinds f r)) = enabled_tags (rk_nodes r)"
    by (rule enabled_tags_cong) (simp_all add: rack_edit_kinds_def o_def assms)
  then have "resource_budget (rack_edit_kinds f r) = resource_budget r" by (simp add: resource_budget_def)
  moreover have "vec_position (\<lambda>n. kind_tag (vn_kind n) = tag) (rk_nodes (rack_edit_kinds f r)) =
      vec_position (\<lambda>n. kind_tag (vn_kind n) = tag) (rk_nodes r)" for tag
    by (simp add: rack_edit_kinds_def vec_position_map assms)
  ultimately show ?thesis by (simp only: validate_for_scope_def)
qed

lemma group_edit_fields [simp]:
  "gr_id (group_edit_routes f h g) = gr_id g" "gr_members (group_edit_routes f h g) = gr_members g"
  "gr_bus (group_edit_routes f h g) = gr_bus g" "gr_solo (group_edit_routes f h g) = gr_solo g"
  by (simp_all add: group_edit_routes_def)

lemma check_rack_edit [simp]: "check_group_rack (group_edit_routes f h g) = check_group_rack g"
  by (simp add: check_group_rack_def group_edit_routes_def validate_for_scope_edit split: sum.split)

lemma check_rack_cong: "gr_rack g = gr_rack h \<Longrightarrow> gr_id g = gr_id h \<Longrightarrow> check_group_rack g = check_group_rack h"
  by (simp add: check_group_rack_def split: sum.split)

lemma kind_groups_edit:
  assumes "\<And>t. group_of (f t) = group_of t"
  shows "kind_groups group_of (kind_edit_routes f h k) = kind_groups group_of k"
proof (cases k)
  case (NkMask m)
  then show ?thesis by (cases m) (simp_all add: assms)
qed (simp_all add: assms)

lemma group_references_edit:
  "(\<And>t. group_of (f t) = group_of t) \<Longrightarrow> group_references group_of (group_edit_routes f h g) = group_references group_of g"
  by (simp add: group_references_def group_edit_routes_def rack_referenced_groups_def rack_edit_kinds_def o_def
      kind_groups_edit split: option.split)

definition tree_refs :: "('t \<Rightarrow> group_id option) \<Rightarrow> ('l, 't, 'm, 'x, 's, 'b) tree \<Rightarrow> group_id set" where
  "tree_refs group_of t = set (group_ids t) \<union> (\<Union>g \<in> set (ct_groups t). set (group_references group_of g))"

lemma resource_budget_empty: "resource_budget rack_empty = Inr rack_budget_default"
  by (simp add: resource_budget_of ordinary_lookups_def enabled_tags_def budget_of_Nil rack_empty_def)

lemma validate_empty_rack [simp]: "validate_for_scope rack_empty RackGroup = Inr ()"
  unfolding validate_for_scope_def resource_budget_empty by (simp add: rack_empty_def)

lemma group_empty_legal [simp]: "check_group_rack (group_empty env i name) = Inr ()" "gr_id (group_empty env i name) = i"
  "gr_members (group_empty env i name) = []" "group_references group_of (group_empty env i name) = []"
  by (simp_all add: check_group_rack_def group_empty_def group_references_def rack_referenced_groups_def)
    (simp add: rack_empty_def)

lemma insert_members_closed:
  "i \<le> length xs \<Longrightarrow> insert_members i bus ls xs = take i xs @ map (\<lambda>l. RootLayer l bus) ls @ drop i xs"
proof (induction ls arbitrary: i xs)
  case (Cons l ls)
  then have "insert_members (Suc i) bus ls (vec_insert i (RootLayer l bus) xs) =
    take (Suc i) (vec_insert i (RootLayer l bus) xs) @ map (\<lambda>l. RootLayer l bus) ls @ drop (Suc i) (vec_insert i (RootLayer l bus) xs)"
    by (intro Cons.IH) simp
  then show ?case using Cons.prems by (simp add: vec_insert_def)
qed simp

text \<open>Trees whose groups have the same members carry the same layers.\<close>

lemma item_layers_cong:
  "(\<And>i. map_option gr_members (tree_group t' i) = map_option gr_members (tree_group t i)) \<Longrightarrow> item_layers t' item = item_layers t item"
proof (cases item)
  case (RootGroup i)
  assume "\<And>i. map_option gr_members (tree_group t' i) = map_option gr_members (tree_group t i)"
  from this [of i] show ?thesis using RootGroup by (cases "tree_group t' i"; cases "tree_group t i") auto
qed simp

lemma tree_group_map:
  assumes "\<And>g. gr_id (f g) = gr_id g" "ct_groups t' = map f (ct_groups t)"
  shows "tree_group t' i = map_option f (tree_group t i)"
proof -
  have "find (\<lambda>g. gr_id g = i) (map f gs) = map_option f (find (\<lambda>g. gr_id g = i) gs)" for gs
    by (induction gs) (simp_all add: assms(1))
  then show ?thesis by (simp add: tree_group_def assms(2))
qed

lemma vec_position_nth: "vec_position P xs = Some i \<Longrightarrow> i < length xs \<and> P (xs ! i)"
  using vec_position_Some by blast

lemma find_remove:
  "i < length xs \<Longrightarrow> \<not> P (xs ! i) \<Longrightarrow> find P (vec_remove i xs) = find P xs"
proof -
  assume i: "i < length xs" "\<not> P (xs ! i)"
  have skip: "find P (as @ bs) = (case find P as of None \<Rightarrow> find P bs | Some x \<Rightarrow> Some x)" for as bs
    by (induction as) auto
  have "find P xs = find P (take i xs @ [xs ! i] @ drop (Suc i) xs)" using vec_remove_split [OF i(1)] by simp
  then show ?thesis using i(2) by (simp only: skip vec_remove_def) (simp split: option.split)
qed

section \<open>Every edit keeps the tree\<close>

datatype 'l tree_op =
    ToInsert rstr nat
  | ToRemove group_id
  | ToMoveRoot "'l root_key" nat
  | ToMoveMember group_id 'l nat
  | ToObserve group_id

text \<open>One edit; its result is the error, or the group identity it issued if it issues one.\<close>

fun tree_edit ::
  "(group_id \<Rightarrow> 't \<Rightarrow> 't) \<Rightarrow> ('s, 'b) tree_env \<Rightarrow> ('l, 't, 'm, 'x, 's, 'b) tree \<Rightarrow> 'l tree_op \<Rightarrow>
   ('l, 't, 'm, 'x, 's, 'b) tree \<times> ('l composition_error + group_id option)" where
  "tree_edit mark env t (ToInsert name index) =
     (case insert_empty_group env t name index of (t', Inl e) \<Rightarrow> (t', Inl e) | (t', Inr i) \<Rightarrow> (t', Inr (Some i)))"
| "tree_edit mark env t (ToRemove i) =
     (case tree_remove_group mark t i of (t', Inl e) \<Rightarrow> (t', Inl e) | (t', Inr g) \<Rightarrow> (t', Inr None))"
| "tree_edit mark env t (ToMoveRoot key index) =
     (case move_root_item t key index of (t', Inl e) \<Rightarrow> (t', Inl e) | (t', Inr u) \<Rightarrow> (t', Inr None))"
| "tree_edit mark env t (ToMoveMember i l index) =
     (case move_group_member t i l index of (t', Inl e) \<Rightarrow> (t', Inl e) | (t', Inr u) \<Rightarrow> (t', Inr None))"
| "tree_edit mark env t (ToObserve i) = (observe_group_reference t i, Inr None)"

lemma mset_concat_map: "mset (concat (map f xs)) = \<Sum>\<^sub># (image_mset (\<lambda>x. mset (f x)) (mset xs))"
  by (induction xs) simp_all

lemma tree_layers_mset:
  assumes "mset (ct_root t') = mset (ct_root t)" "\<And>item. mset (item_layers t' item) = mset (item_layers t item)"
  shows "mset (tree_layers t') = mset (tree_layers t)"
  by (simp add: tree_layers_def mset_concat_map assms)

lemma root_groups_mset: "mset xs = mset ys \<Longrightarrow> mset (root_groups xs) = mset (root_groups ys)"
proof -
  have "root_groups zs = concat (map (\<lambda>item. case item of RootGroup i \<Rightarrow> [i] | RootLayer l b \<Rightarrow> []) zs)" for zs :: "'a root_item list"
    by (induction zs rule: root_groups.induct) simp_all
  then show "mset xs = mset ys \<Longrightarrow> mset (root_groups xs) = mset (root_groups ys)" by (simp add: mset_concat_map)
qed

lemma wf_permuted:
  assumes "tree_wf t" "mset (ct_root t') = mset (ct_root t)" "group_ids t' = group_ids t"
    and "\<forall>g \<in> set (ct_groups t'). check_group_rack g = Inr ()"
    and "\<And>item. mset (item_layers t' item) = mset (item_layers t item)"
  shows "tree_wf t'" "mset (tree_layers t') = mset (tree_layers t)"
proof -
  show layers: "mset (tree_layers t') = mset (tree_layers t)" using assms by (intro tree_layers_mset)
  have "distinct (tree_layers t') = distinct (tree_layers t)" using layers by (rule mset_eq_imp_distinct_iff)
  moreover have "distinct (root_groups (ct_root t')) = distinct (root_groups (ct_root t))"
    "set (root_groups (ct_root t')) = set (root_groups (ct_root t))"
    using root_groups_mset [OF assms(2)] by (auto dest: mset_eq_imp_distinct_iff mset_eq_setD)
  ultimately show "tree_wf t'" using assms by (simp add: tree_wf_def)
qed

lemma move_root_wf:
  assumes "tree_wf t" "move_root_item t key index = (t', res)"
  shows "tree_wf t' \<and> ct_groups t' = ct_groups t \<and> ct_next t' = ct_next t \<and> mset (tree_layers t') = mset (tree_layers t)"
proof (cases "t' = t")
  case False
  with assms(2) obtain k where k: "vec_position (\<lambda>item. root_item_key item = key) (ct_root t) = Some k"
    and t': "t' = t\<lparr>ct_root := vec_move k index (ct_root t)\<rparr>"
    by (auto simp: move_root_item_def split: if_splits option.splits)
  have same: "item_layers t' item = item_layers t item" for item
    by (rule item_layers_cong) (simp add: t' tree_group_def)
  have "mset (ct_root t') = mset (ct_root t)" using vec_position_nth [OF k] by (simp add: t')
  from wf_permuted [OF assms(1) this] same show ?thesis using assms(1) by (simp add: t' group_ids_def tree_wf_def)
qed (use assms in simp)

lemma tree_group_update:
  assumes "k < length (ct_groups t)" "distinct (group_ids t)" "gr_id g = gr_id (ct_groups t ! k)"
    "ct_groups t' = (ct_groups t)[k := g]"
  shows "tree_group t' i = (if i = gr_id g then Some g else tree_group t i)"
proof -
  have ids: "group_ids t' = group_ids t" using assms(1,3) by (simp add: group_ids_def assms(4) map_update list_update_same_conv)
  show ?thesis
  proof (cases "i = gr_id g")
    case True
    have "g \<in> set (ct_groups t')" using assms(1) by (simp add: assms(4) set_update_memI)
    from tree_group_id [OF _ this] assms(2) ids True show ?thesis by simp
  next
    case False
    have "find (\<lambda>h. gr_id h = i) (xs[k := g]) = find (\<lambda>h. gr_id h = i) xs" if "k < length xs" "gr_id (xs ! k) = gr_id g" for xs k
      using that False by (induction xs arbitrary: k) (auto split: nat.split simp: nth_Cons')
    then show ?thesis using False assms(1,3) by (simp add: tree_group_def assms(4))
  qed
qed

lemma move_member_wf:
  assumes "tree_wf t" "move_group_member t i l index = (t', res)"
  shows "tree_wf t' \<and> length (ct_groups t') = length (ct_groups t) \<and> ct_next t' = ct_next t \<and>
    tree_refs group_of t' = tree_refs group_of t \<and> mset (tree_layers t') = mset (tree_layers t)"
proof (cases "vec_position (\<lambda>g. gr_id g = i) (ct_groups t)")
  case None
  then show ?thesis using assms by (simp add: move_group_member_def)
next
  case (Some k)
  then have k: "k < length (ct_groups t)" "gr_id (ct_groups t ! k) = i" using vec_position_nth by blast+
  let ?g = "ct_groups t ! k"
  obtain ms r where m: "move_layer (gr_members ?g) l index = (ms, r)" by force
  have mset: "mset ms = mset (gr_members ?g)"
    using m vec_position_nth by (fastforce simp: move_layer_def split: if_splits option.splits)
  let ?h = "?g\<lparr>gr_members := ms\<rparr>"
  have t': "t' = t\<lparr>ct_groups := (ct_groups t)[k := ?h]\<rparr>"
    using assms(2) Some m by (simp add: move_group_member_def)
  have g: "tree_group t i = Some ?g"
    using tree_group_id [of t ?g] assms(1) k by (simp add: tree_wf_def)
  have lookup: "tree_group t' j = (if j = gr_id ?h then Some ?h else tree_group t j)" for j
    using assms(1) k by (intro tree_group_update) (simp_all add: t' tree_wf_def)
  have same: "mset (item_layers t' item) = mset (item_layers t item)" for item
    using g k mset by (cases item) (auto simp: lookup split: option.split)
  have ids: "group_ids t' = group_ids t" using k by (simp add: t' group_ids_def map_update list_update_same_conv)
  have rack: "check_group_rack ?h = check_group_rack ?g" by (rule check_rack_cong) simp_all
  have racks: "\<forall>g \<in> set (ct_groups t'). check_group_rack g = Inr ()"
    using assms(1) k set_update_subset_insert [of "ct_groups t" k ?h] by (auto simp: t' tree_wf_def rack)
  have "map (group_references group_of) (ct_groups t') = map (group_references group_of) (ct_groups t)"
    using k by (simp add: t' map_update group_references_def list_update_same_conv)
  then have "\<Union> (set ` set (map (group_references group_of) (ct_groups t'))) =
      \<Union> (set ` set (map (group_references group_of) (ct_groups t)))" by simp
  then have "tree_refs group_of t' = tree_refs group_of t" by (simp add: tree_refs_def ids image_image)
  then show ?thesis using wf_permuted [OF assms(1) _ ids racks same] k by (simp add: t')
qed

lemma insert_group_wf:
  assumes "tree_wf t" "insert_empty_group env t name index = (t', Inr i)" "i \<notin> set (group_ids t)"
  shows "tree_wf t'" "tree_layers t' = tree_layers t" "tree_refs group_of t' = insert i (tree_refs group_of t)"
proof -
  have index: "index \<le> length (ct_root t)"
    and t': "t' = t\<lparr>ct_next := cursor_after i, ct_groups := ct_groups t @ [group_empty env i name],
      ct_root := vec_insert index (RootGroup i) (ct_root t)\<rparr>"
    using assms(2) by (auto simp: insert_empty_group_def node_id_new_def split: if_splits)
  have groups: "ct_groups t' = ct_groups t @ [group_empty env i name]" by (simp add: t')
  then have ids: "group_ids t' = group_ids t @ [i]" by (simp add: group_ids_def)
  have append: "find P (xs @ ys) = (case find P xs of None \<Rightarrow> find P ys | Some x \<Rightarrow> Some x)" for P and xs ys :: "'g list"
    by (induction xs) auto
  have lookup: "tree_group t' j = (if j = i then Some (group_empty env i name) else tree_group t j)" for j
    using assms(3) tree_group_None [of t i]
    by (auto simp: t' tree_group_def append split: option.split)
  have old: "RootGroup i \<notin> set (ct_root t)" using assms(1,3) by (auto simp: tree_wf_def root_groups_set)
  have same: "item_layers t' item = item_layers t item" if "item \<noteq> RootGroup i" for item
    using that by (cases item) (auto simp: lookup)
  have new: "item_layers t' (RootGroup i) = []" by (simp add: lookup)
  have root_t': "ct_root t' = take index (ct_root t) @ RootGroup i # drop index (ct_root t)" by (simp add: t' vec_insert_def)
  have kept: "map (item_layers t') (ct_root t) = map (item_layers t) (ct_root t)" using old same by (metis map_cong)
  have "tree_layers t' = concat (map (item_layers t') (take index (ct_root t))) @ concat (map (item_layers t') (drop index (ct_root t)))"
    unfolding tree_layers_def root_t' by (simp add: new del: item_layers.simps)
  also have "\<dots> = concat (map (item_layers t') (ct_root t))" by (simp flip: concat_append map_append del: item_layers.simps)
  also have "\<dots> = tree_layers t" unfolding tree_layers_def kept by (rule refl)
  finally show layers: "tree_layers t' = tree_layers t" .
  have roots: "mset (root_groups (ct_root t')) = add_mset i (mset (root_groups (ct_root t)))"
    using root_groups_mset [of "ct_root t'" "RootGroup i # ct_root t"] by (simp add: t')
  then have "set (root_groups (ct_root t')) = insert i (set (root_groups (ct_root t)))"
    "distinct (root_groups (ct_root t')) \<longleftrightarrow> distinct (i # root_groups (ct_root t))"
    using mset_eq_setD [of "root_groups (ct_root t')" "i # root_groups (ct_root t)"]
      mset_eq_imp_distinct_iff [of "root_groups (ct_root t')" "i # root_groups (ct_root t)"] by simp_all
  moreover have "\<forall>g \<in> set (ct_groups t'). check_group_rack g = Inr ()" using assms(1) by (auto simp: tree_wf_def t')
  ultimately show "tree_wf t'" using assms(1,3) layers by (auto simp: tree_wf_def ids)
  show "tree_refs group_of t' = insert i (tree_refs group_of t)" by (auto simp: tree_refs_def ids groups)
qed

lemma key_group: "root_item_key item = KeyGroup i \<longleftrightarrow> item = RootGroup i"
  by (cases item) auto

lemma root_split:
  assumes "distinct (root_groups items)" "k < length items" "items ! k = RootGroup i"
  shows "items = take k items @ RootGroup i # drop (Suc k) items"
    "RootGroup i \<notin> set (take k items)" "RootGroup i \<notin> set (drop (Suc k) items)"
proof -
  show split: "items = take k items @ RootGroup i # drop (Suc k) items" using id_take_nth_drop [OF assms(2)] assms(3) by simp
  from assms(1) have "distinct (root_groups (take k items @ RootGroup i # drop (Suc k) items))" using split by simp
  then show "RootGroup i \<notin> set (take k items)" "RootGroup i \<notin> set (drop (Suc k) items)"
    by (auto simp: root_groups_set)
qed

lemma root_groups_layers [simp]: "root_groups (map (\<lambda>l. RootLayer l bus) ls) = []"
  by (induction ls) simp_all

lemma remove_group_split:
  assumes "tree_wf t" "tree_remove_group mark t i = (t', Inr g)"
  obtains pre post k where "ct_root t = pre @ RootGroup i # post" "RootGroup i \<notin> set pre" "RootGroup i \<notin> set post"
    "ct_root t' = pre @ map (\<lambda>l. RootLayer l (gr_bus g)) (gr_members g) @ post" "tree_group t i = Some g"
    "k < length (ct_groups t)" "ct_groups t ! k = g" "gr_id g = i"
    "ct_groups t' = map (group_edit_routes (mark i) id) (vec_remove k (ct_groups t))" "ct_next t' = ct_next t"
proof -
  from assms(2) obtain k j where k: "vec_position (\<lambda>g. gr_id g = i) (ct_groups t) = Some k"
    and j: "vec_position (\<lambda>item. root_item_key item = KeyGroup i) (ct_root t) = Some j"
    and g: "g = ct_groups t ! k"
    and t': "t' = t\<lparr>ct_groups := map (group_edit_routes (mark i) id) (vec_remove k (ct_groups t)),
      ct_root := insert_members j (gr_bus g) (gr_members g) (vec_remove j (ct_root t))\<rparr>"
    by (auto simp: tree_remove_group_def Let_def split: option.splits)
  have k': "k < length (ct_groups t)" "gr_id (ct_groups t ! k) = i" using vec_position_nth [OF k] by auto
  have j': "j < length (ct_root t)" "ct_root t ! j = RootGroup i" using vec_position_nth [OF j] key_group by auto
  have d: "distinct (root_groups (ct_root t))" "distinct (group_ids t)" using assms(1) by (simp_all add: tree_wf_def)
  have found: "tree_group t i = Some g" using tree_group_id [OF d(2)] k' g by auto
  have "insert_members j (gr_bus g) (gr_members g) (vec_remove j (ct_root t)) =
      take j (ct_root t) @ map (\<lambda>l. RootLayer l (gr_bus g)) (gr_members g) @ drop (Suc j) (ct_root t)"
    using j'(1) by (subst insert_members_closed) (simp_all add: vec_remove_def min_def)
  then have "ct_root t' = take j (ct_root t) @ map (\<lambda>l. RootLayer l (gr_bus g)) (gr_members g) @ drop (Suc j) (ct_root t)"
    by (simp add: t')
  moreover have "ct_groups t ! k = g" "gr_id g = i" using k' g by simp_all
  moreover have "ct_groups t' = map (group_edit_routes (mark i) id) (vec_remove k (ct_groups t))" "ct_next t' = ct_next t"
    by (simp_all add: t')
  ultimately show thesis using that root_split [OF d(1) j'] k'(1) found by metis
qed

lemma remove_group_wf:
  assumes "tree_wf t" "tree_remove_group mark t i = (t', Inr g)" "\<And>i t. group_of (mark i t) = group_of t"
  shows "tree_wf t'" "tree_layers t' = tree_layers t" "tree_refs group_of t' \<subseteq> tree_refs group_of t"
    "length (ct_groups t') \<le> length (ct_groups t)" "ct_next t' = ct_next t"
    "\<forall>j. j \<noteq> i \<longrightarrow> tree_group t' j = map_option (group_edit_routes (mark i) id) (tree_group t j)"
proof -
  from assms(1,2) obtain pre post k where roots: "ct_root t = pre @ RootGroup i # post" "RootGroup i \<notin> set pre" "RootGroup i \<notin> set post"
    "ct_root t' = pre @ map (\<lambda>l. RootLayer l (gr_bus g)) (gr_members g) @ post"
    and g: "tree_group t i = Some g" "k < length (ct_groups t)" "ct_groups t ! k = g" "gr_id g = i"
    and groups: "ct_groups t' = map (group_edit_routes (mark i) id) (vec_remove k (ct_groups t))"
    and "next": "ct_next t' = ct_next t" by (rule remove_group_split)
  show "ct_next t' = ct_next t" by (rule "next")
  have lookup: "tree_group t' j = map_option (group_edit_routes (mark i) id) (tree_group t j)" if "j \<noteq> i" for j
  proof -
    have "tree_group t' j = map_option (group_edit_routes (mark i) id) (tree_group (t\<lparr>ct_groups := vec_remove k (ct_groups t)\<rparr>) j)"
      by (rule tree_group_map) (simp_all add: groups)
    then show ?thesis using find_remove [OF g(2), of "\<lambda>g. gr_id g = j"] g that by (simp add: tree_group_def)
  qed
  then show "\<forall>j. j \<noteq> i \<longrightarrow> tree_group t' j = map_option (group_edit_routes (mark i) id) (tree_group t j)" by simp
  have same: "item_layers t' item = item_layers t item" if "item \<noteq> RootGroup i" for item
    using that by (cases item) (auto simp: lookup split: option.split)
  have "\<forall>x \<in> set pre. item_layers t' x = item_layers t x" "\<forall>x \<in> set post. item_layers t' x = item_layers t x"
    using same roots by metis+
  then have blocks: "map (item_layers t') pre = map (item_layers t) pre" "map (item_layers t') post = map (item_layers t) post" by simp_all
  have "concat (map (\<lambda>l. [l]) ls) = ls" for ls :: "'a list" by (induction ls) simp_all
  then show layers: "tree_layers t' = tree_layers t"
    using g(1) by (simp add: tree_layers_def roots blocks o_def)
  have keep: "set (vec_remove k (ct_groups t)) \<subseteq> set (ct_groups t)" by (rule set_vec_remove_subset)
  have ids: "group_ids t' = vec_remove k (group_ids t)" by (simp add: group_ids_def groups o_def map_vec_remove)
  have d: "distinct (group_ids t)" using assms(1) by (simp add: tree_wf_def)
  have "k < length (group_ids t)" "group_ids t ! k = i" using g by (simp_all add: group_ids_def)
  then have "add_mset i (mset (group_ids t')) = mset (group_ids t)" unfolding ids using mset_vec_remove by metis
  then have set_ids: "set (group_ids t) = insert i (set (group_ids t'))" "i \<notin> set (group_ids t')"
    using d by (metis set_mset_add_mset_insert set_mset_mset, metis distinct.simps(2) mset.simps(2) mset_eq_imp_distinct_iff)
  have root_ids: "root_groups (ct_root t) = root_groups pre @ i # root_groups post" "root_groups (ct_root t') = root_groups pre @ root_groups post"
    by (simp_all add: roots)
  have "distinct (group_ids t')" using d by (simp add: ids distinct_vec_remove)
  moreover have "\<forall>g \<in> set (ct_groups t'). check_group_rack g = Inr ()" using assms(1) keep by (auto simp: groups tree_wf_def)
  moreover have "distinct (root_groups (ct_root t'))" "set (root_groups (ct_root t')) = set (group_ids t')"
    using assms(1) set_ids by (auto simp: tree_wf_def root_ids)
  ultimately show "tree_wf t'" using assms(1) layers by (simp add: tree_wf_def)
  have edited: "group_references group_of (group_edit_routes (mark i) id h) = group_references group_of h" for h
    by (rule group_references_edit) (rule assms(3))
  show "tree_refs group_of t' \<subseteq> tree_refs group_of t"
    using keep set_ids(1) by (auto simp: tree_refs_def groups edited)
  show "length (ct_groups t') \<le> length (ct_groups t)" using g(2) by (simp add: groups)
qed

section \<open>Identities of groups\<close>

fun observed_groups :: "'l tree_op \<Rightarrow> group_id list" where
  "observed_groups (ToObserve i) = [i]"
| "observed_groups op = []"

definition tree_alloc ::
  "(group_id \<Rightarrow> 't \<Rightarrow> 't) \<Rightarrow> ('s, 'b) tree_env \<Rightarrow> ('l, 't, 'm, 'x, 's, 'b) tree \<times> group_id list \<Rightarrow> 'l tree_op \<Rightarrow>
   (('l, 't, 'm, 'x, 's, 'b) tree \<times> group_id list) \<times> group_id option" where
  "tree_alloc mark env s op =
     (case tree_edit mark env (fst s) op of
        (t, Inl e) \<Rightarrow> ((t, observed_groups op @ snd s), None)
      | (t, Inr issued) \<Rightarrow> ((t, observed_groups op @ snd s), issued))"

definition tree_seen :: "('t \<Rightarrow> group_id option) \<Rightarrow> ('l, 't, 'm, 'x, 's, 'b) tree \<times> group_id list \<Rightarrow> group_id set" where
  "tree_seen group_of s = tree_refs group_of (fst s) \<union> set (snd s)"

definition tree_ok :: "('t \<Rightarrow> group_id option) \<Rightarrow> ('l, 't, 'm, 'x, 's, 'b) tree \<Rightarrow> bool" where
  "tree_ok group_of t \<longleftrightarrow>
     tree_wf t \<and> length (ct_groups t) \<le> MAX_GROUPS \<and> cursor_beyond (ct_next t) (tree_refs group_of t)"

definition tree_alloc_ok :: "('t \<Rightarrow> group_id option) \<Rightarrow> ('l, 't, 'm, 'x, 's, 'b) tree \<times> group_id list \<Rightarrow> bool" where
  "tree_alloc_ok group_of s \<longleftrightarrow> tree_ok group_of (fst s) \<and> cursor_beyond (ct_next (fst s)) (set (snd s))"

lemma tree_alloc_fst [simp]: "fst (fst (tree_alloc mark env s op)) = fst (tree_edit mark env (fst s) op)"
  by (simp add: tree_alloc_def split: prod.split sum.split)

lemma tree_alloc_snd [simp]: "snd (fst (tree_alloc mark env s op)) = observed_groups op @ snd s"
  by (simp add: tree_alloc_def split: prod.split sum.split)

lemma observe_group_fields [simp]:
  "ct_groups (observe_group_reference t i) = ct_groups t" "ct_root (observe_group_reference t i) = ct_root t"
  by (simp_all add: observe_group_reference_def)

lemma observe_group_wf:
  "tree_wf (observe_group_reference t i) = tree_wf t" "tree_layers (observe_group_reference t i) = tree_layers t"
  "tree_refs group_of (observe_group_reference t i) = tree_refs group_of t"
proof -
  have "item_layers (observe_group_reference t i) item = item_layers t item" for item
    by (cases item) (simp_all add: tree_group_def)
  then have "item_layers (observe_group_reference t i) = item_layers t" by (rule ext)
  then show layers: "tree_layers (observe_group_reference t i) = tree_layers t" unfolding tree_layers_def by simp
  show "tree_wf (observe_group_reference t i) = tree_wf t" by (simp add: tree_wf_def layers group_ids_def)
  show "tree_refs group_of (observe_group_reference t i) = tree_refs group_of t" by (simp add: tree_refs_def group_ids_def)
qed

text \<open>An edit leaves the cursor or moves it behind an identity at or above it.\<close>

lemma tree_edit_next:
  "ct_next (fst (tree_edit mark env t op)) = ct_next t \<or>
   (\<exists>i. ct_next t \<noteq> 0 \<and> ct_next t \<le> i \<and> ct_next (fst (tree_edit mark env t op)) = cursor_after i)"
proof (cases op)
  case (ToInsert name index)
  then show ?thesis
    by (auto simp: insert_empty_group_def node_id_new_def split: prod.splits sum.splits if_splits)
next
  case (ToRemove i)
  then show ?thesis by (auto simp: tree_remove_group_def Let_def split: prod.splits sum.splits option.splits)
next
  case (ToMoveRoot key index)
  then show ?thesis by (auto simp: move_root_item_def split: prod.splits sum.splits option.splits if_splits)
next
  case (ToMoveMember i l index)
  then show ?thesis by (auto simp: move_group_member_def split: prod.splits sum.splits option.splits)
qed (auto simp: observe_group_reference_def)

lemma tree_edit_forward:
  "ct_next (fst (tree_edit mark env t op)) = 0 \<or> ct_next t \<noteq> 0 \<and> ct_next t \<le> ct_next (fst (tree_edit mark env t op))"
proof -
  have "cursor_after i = 0 \<or> ct_next t \<le> cursor_after i" if "ct_next t \<le> i" for i
    using that cursor_after_greater [of i] by force
  then show ?thesis using tree_edit_next [of mark env t op] by fastforce
qed

lemma tree_edit_beyond:
  assumes "cursor_beyond (ct_next t) A"
  shows "cursor_beyond (ct_next (fst (tree_edit mark env t op))) A"
  using assms tree_edit_forward [of mark env t op] by (auto simp: cursor_beyond_def intro: less_le_trans)

lemma tree_edit_observed:
  "cursor_beyond (ct_next (fst (tree_edit mark env t op))) (set (observed_groups op))"
proof (cases op)
  case (ToObserve i)
  then show ?thesis
    using cursor_after_greater [of i] by (auto simp: observe_group_reference_def cursor_beyond_def)
qed (simp_all add: cursor_beyond_def)

lemma tree_edit_issued:
  assumes "tree_edit mark env t op = (t', Inr (Some i))"
  shows "i = ct_next t \<and> i \<noteq> 0 \<and> ct_next t' = cursor_after i"
  using assms by (cases op) (auto simp: insert_empty_group_def node_id_new_def split: prod.splits sum.splits if_splits)

text \<open>
  The two forms of a tree differ in their taps: a form tells the group a tap names and how a tap is invalidated when
  that group is removed, which keeps the name.
\<close>

locale tap_form =
  fixes group_of :: "'t \<Rightarrow> group_id option" and mark :: "group_id \<Rightarrow> 't \<Rightarrow> 't"
  assumes keeps_group: "group_of (mark i t) = group_of t"
begin

lemmas remove = remove_group_wf [where group_of = group_of and mark = mark, OF _ _ keeps_group]

lemma edit_ok:
  assumes "tree_ok group_of t" "tree_edit mark env t op = (t', res)"
  shows "tree_wf t' \<and> length (ct_groups t') \<le> MAX_GROUPS \<and> mset (tree_layers t') = mset (tree_layers t) \<and>
    tree_refs group_of t' \<subseteq> (case res of Inr (Some i) \<Rightarrow> insert i (tree_refs group_of t) | _ \<Rightarrow> tree_refs group_of t)"
proof (cases op)
  case (ToInsert name index)
  obtain r where ins: "insert_empty_group env t name index = (t', r)"
    using assms(2) ToInsert by (auto split: prod.splits sum.splits)
  show ?thesis
  proof (cases r)
    case (Inl e)
    then show ?thesis using ins assms ToInsert by (auto simp: insert_empty_group_def tree_ok_def split: if_splits option.splits)
  next
    case (Inr i)
    then have "i = ct_next t" "i \<noteq> 0" "length (ct_groups t') \<le> MAX_GROUPS"
      using ins assms(1) by (auto simp: insert_empty_group_def node_id_new_def tree_ok_def split: if_splits)
    then have "i \<notin> set (group_ids t)" using assms(1) by (auto simp: tree_ok_def cursor_beyond_def tree_refs_def)
    with insert_group_wf [of t env name index t' i] ins Inr assms(1) \<open>length (ct_groups t') \<le> MAX_GROUPS\<close>
    show ?thesis using ToInsert assms(2) by (auto simp: tree_ok_def)
  qed
next
  case (ToRemove i)
  obtain r where rem: "tree_remove_group mark t i = (t', r)" using assms(2) ToRemove by (auto split: prod.splits sum.splits)
  show ?thesis
  proof (cases r)
    case (Inl e)
    then show ?thesis using rem assms ToRemove by (auto simp: tree_remove_group_def tree_ok_def Let_def split: option.splits)
  next
    case (Inr g)
    with rem have "tree_remove_group mark t i = (t', Inr g)" by simp
    then show ?thesis using remove(1,2,3,4) [of t i t' g] assms by (auto simp: tree_ok_def ToRemove)
  qed
next
  case (ToMoveRoot key index)
  obtain r where m: "move_root_item t key index = (t', r)" using assms(2) ToMoveRoot by (auto split: prod.splits sum.splits)
  with move_root_wf [of t key index t' r] assms show ?thesis
    by (auto simp: tree_ok_def ToMoveRoot tree_refs_def group_ids_def split: sum.splits)
next
  case (ToMoveMember i l index)
  obtain r where m: "move_group_member t i l index = (t', r)" using assms(2) ToMoveMember by (auto split: prod.splits sum.splits)
  with move_member_wf [of t i l index t' r] assms show ?thesis by (auto simp: tree_ok_def ToMoveMember split: sum.splits)
qed (use assms in \<open>auto simp: tree_ok_def observe_group_wf\<close>)

lemma edit_keeps_ok: "tree_ok group_of t \<Longrightarrow> tree_ok group_of (fst (tree_edit mark env t op))"
proof -
  assume ok: "tree_ok group_of t"
  obtain t' res where e: "tree_edit mark env t op = (t', res)" by force
  have "cursor_beyond (ct_next t') (case res of Inr (Some i) \<Rightarrow> insert i (tree_refs group_of t) | _ \<Rightarrow> tree_refs group_of t)"
  proof (cases "\<exists>i. res = Inr (Some i)")
    case True
    with e obtain i where "res = Inr (Some i)" "i = ct_next t" "i \<noteq> 0" "ct_next t' = cursor_after i"
      using tree_edit_issued by blast
    then show ?thesis using ok cursor_beyond_after by (auto simp: tree_ok_def)
  next
    case False
    then show ?thesis using ok e tree_edit_beyond [of t "tree_refs group_of t" mark env op]
      by (auto simp: tree_ok_def split: sum.split option.split)
  qed
  then show ?thesis using edit_ok [OF ok e] cursor_beyond_mono by (simp add: e tree_ok_def)
qed

lemma machine:
  fixes env :: "('s, 'b) tree_env"
  shows "invariant_machine (\<lambda>s op. fst (tree_alloc mark env s op)) (tree_alloc_ok group_of)"
proof
  fix s :: "('l, 't, 'm, 'x, 's, 'b) tree \<times> group_id list" and op
  assume "tree_alloc_ok group_of s"
  then show "tree_alloc_ok group_of (fst (tree_alloc mark env s op))"
    using edit_keeps_ok [of "fst s" env op] tree_edit_beyond [of "fst s" "set (snd s)" mark env op]
      tree_edit_observed [of mark env "fst s" op]
    by (auto simp: tree_alloc_ok_def cursor_beyond_def)
qed

lemma allocator:
  fixes env :: "('s, 'b) tree_env"
  shows "id_allocator (tree_alloc mark env) (tree_alloc_ok group_of) (tree_seen group_of) (\<lambda>s. ct_next (fst s))"
proof (intro id_allocator.intro machine id_allocator_axioms.intro)
  fix s :: "('l, 't, 'm, 'x, 's, 'b) tree \<times> group_id list" and op s' i r
  assume ok: "tree_alloc_ok group_of s"
  then show "cursor_beyond (ct_next (fst s)) (tree_seen group_of s)"
    by (auto simp: tree_alloc_ok_def tree_ok_def tree_seen_def cursor_beyond_def)
  show "i = ct_next (fst s) \<and> i \<noteq> 0 \<and> cursor_beyond (ct_next (fst s')) {i}" if "tree_alloc mark env s op = (s', Some i)"
  proof -
    have "tree_edit mark env (fst s) op = (fst s', Inr (Some i))"
      using that by (auto simp: tree_alloc_def split: prod.splits sum.splits)
    from tree_edit_issued [OF this] show ?thesis using cursor_after_greater [of i] by (auto simp: cursor_beyond_def)
  qed
  show "ct_next (fst s') = 0 \<or> ct_next (fst s) \<noteq> 0 \<and> ct_next (fst s) \<le> ct_next (fst s')"
    if "tree_alloc mark env s op = (s', r)"
    using that tree_edit_forward [of mark env "fst s" op] by (metis fst_conv tree_alloc_fst)
qed

lemma history_ok: "tree_ok group_of t \<Longrightarrow> tree_alloc_ok group_of (alloc_run (tree_alloc mark env) (t, []) ops)"
  unfolding alloc_run_def
  by (rule invariant_machine.inv_run [OF machine]) (simp add: tree_alloc_ok_def cursor_beyond_def)

lemma issued_fresh:
  assumes "tree_ok group_of t" "snd (tree_alloc mark env (alloc_run (tree_alloc mark env) (t, []) ops) op) = Some i"
  shows "i \<notin> ever_seen (tree_alloc mark env) (tree_seen group_of) (t, []) ops \<union> set (issued_ids (tree_alloc mark env) (t, []) ops)"
  using assms by (intro id_allocator.issued_fresh [OF allocator]) (simp_all add: tree_alloc_ok_def cursor_beyond_def)

lemma history_layers:
  "tree_ok group_of t \<Longrightarrow> mset (tree_layers (fst (alloc_run (tree_alloc mark env) (t, obs) ops))) = mset (tree_layers t)"
proof (induction ops arbitrary: t obs)
  case (Cons op ops)
  obtain t' res where e: "tree_edit mark env t op = (t', res)" by force
  have "tree_ok group_of t'" using edit_keeps_ok [OF Cons.prems, of env op] e by simp
  moreover have "fst (tree_alloc mark env (t, obs) op) = (t', observed_groups op @ obs)"
    using e by (simp add: tree_alloc_def split: sum.split)
  ultimately show ?case using Cons.IH edit_ok [OF Cons.prems e] by (simp add: alloc_run_def)
qed (simp add: alloc_run_def)

end

interpretation saved_form: tap_form saved_tap_group saved_mark_group_missing
  by unfold_locales (simp add: saved_tap_group_def saved_mark_group_missing_def split: saved_image_source.split)

interpretation runtime_form: tap_form resolved_tap_group tap_mark_group_missing
  by unfold_locales (simp add: resolved_tap_group_def tap_mark_group_missing_def split: resolved_image_source.split)

section \<open>Loading\<close>

definition group_clean :: "('s, 'b) tree_env \<Rightarrow> ('l, 't, 'm, 'x, 's) group \<Rightarrow> ('l, 't, 'm, 'x, 's) group" where
  "group_clean env g = g\<lparr>gr_opacity := finite_unit (gr_opacity g) F32_ONE, gr_transform := en_transform_clean env (gr_transform g),
     gr_matte := map_option rack_matte_sanitized (gr_matte g)\<rparr>"

lemma group_clean_fields [simp]:
  "gr_id (group_clean env g) = gr_id g" "gr_members (group_clean env g) = gr_members g"
  "check_group_rack (group_clean env g) = check_group_rack g" "gr_bus (group_clean env g) = gr_bus g"
  by (simp_all add: group_clean_def check_group_rack_def split: sum.split)

lemma group_ids_set: "i \<in> set (group_ids t) \<longleftrightarrow> (\<exists>g \<in> set (ct_groups t). gr_id g = i)"
  by (auto simp: group_ids_def)

lemma group_references_clean [simp]: "group_references group_of (group_clean env g) = group_references group_of g"
  by (simp add: group_references_def group_clean_def rack_matte_sanitized_def split: option.split)

lemma sanitize_groups_Inr:
  "sanitize_groups env gs = Inr hs \<longleftrightarrow> (\<forall>g \<in> set gs. check_group_rack g = Inr ()) \<and> hs = map (group_clean env) gs"
proof (induction gs arbitrary: hs)
  case (Cons g gs)
  have "check_group_rack (group_clean env g) = check_group_rack g" by simp
  then have "group_sanitized env g = rbind (check_group_rack g) (\<lambda>u. Inr (group_clean env g))"
    by (simp only: group_sanitized_def Let_def group_clean_def)
  then show ?case using Cons.IH by (cases "check_group_rack g"; cases "sanitize_groups env gs") auto
qed auto

lemma greatest_group_less:
  "greatest_group group_of gs roots < b \<longleftrightarrow>
     0 < b \<and> (\<forall>g \<in> set gs. gr_id g < b \<and> (\<forall>i \<in> set (group_references group_of g). i < b)) \<and> (\<forall>i \<in> set (root_groups roots). i < b)"
  by (auto simp: greatest_group_def foldl_max_le)

lemma greatest_group_max:
  "greatest_group group_of gs roots = - 1 \<longleftrightarrow>
     (\<exists>g \<in> set gs. gr_id g = - 1 \<or> - 1 \<in> set (group_references group_of g)) \<or> - 1 \<in> set (root_groups roots)"
  by (force simp: greatest_group_def foldl_max_minus_1)

lemma greatest_of_tree:
  assumes "tree_wf t"
  shows "greatest_group group_of (ct_groups t) (ct_root t) < b \<longleftrightarrow> 0 < b \<and> (\<forall>i \<in> tree_refs group_of t. i < b)"
    "greatest_group group_of (ct_groups t) (ct_root t) = - 1 \<longleftrightarrow> - 1 \<in> tree_refs group_of t"
proof -
  show "greatest_group group_of (ct_groups t) (ct_root t) < b \<longleftrightarrow> 0 < b \<and> (\<forall>i \<in> tree_refs group_of t. i < b)"
    using assms by (auto simp: greatest_group_less tree_wf_def tree_refs_def group_ids_def)
  show "greatest_group group_of (ct_groups t) (ct_root t) = - 1 \<longleftrightarrow> - 1 \<in> tree_refs group_of t"
    using assms by (auto simp: greatest_group_max tree_wf_def tree_refs_def group_ids_set)
qed

lemma greatest_clean [simp]: "greatest_group group_of (map (group_clean env) gs) roots = greatest_group group_of gs roots"
  by (simp add: greatest_group_def o_def)

lemma loaded_tree_ok:
  assumes "tree_try_from_parts group_of env gs roots start c = Inr t"
  shows "tree_ok group_of t"
proof -
  from assms obtain hs where hs: "length gs \<le> MAX_GROUPS" "sanitize_groups env gs = Inr hs" "validate_structure t = Inr ()"
    "ct_groups t = hs" "ct_root t = roots" "ct_next t = 0 \<or> greatest_group group_of hs roots < ct_next t"
    unfolding tree_try_from_parts_def Let_def
    by (auto split: if_splits simp: not_le rbind_Inr)
  then have wf: "tree_wf t" by (simp add: validate_structure_wf)
  with hs greatest_of_tree(1) [OF wf, of group_of "ct_next t"] show ?thesis
    by (auto simp: tree_ok_def sanitize_groups_Inr cursor_beyond_def)
qed

lemma clean_tree_wf:
  assumes "tree_wf t" "ct_groups t' = map (group_clean env) (ct_groups t)" "ct_root t' = ct_root t"
  shows "tree_wf t'" "tree_layers t' = tree_layers t"
proof -
  have lookup: "tree_group t' i = map_option (group_clean env) (tree_group t i)" for i
    by (rule tree_group_map) (simp_all add: assms)
  have "item_layers t' item = item_layers t item" for item by (cases item) (simp_all add: lookup split: option.split)
  then have "item_layers t' = item_layers t" by (rule ext)
  then show layers: "tree_layers t' = tree_layers t" unfolding tree_layers_def assms(3) by simp
  show "tree_wf t'" using assms(1) by (simp add: tree_wf_def layers group_ids_def assms(2,3) o_def)
qed

lemma tree_ok_loads:
  assumes "tree_ok group_of t"
  shows "tree_try_from_parts group_of env (ct_groups t) (ct_root t) (Some (ct_next t)) c =
    (if ct_next t \<noteq> 0 \<or> - 1 \<in> tree_refs group_of t
     then Inr \<lparr>ct_groups = map (group_clean env) (ct_groups t), ct_root = ct_root t, ct_next = ct_next t,
               ct_crossfade = finite_unit c F32_HALF, ct_mixer = en_mixer_default env\<rparr>
     else Inl (CeInvalidNextGroupId 0 (greatest_group group_of (ct_groups t) (ct_root t))))"
proof -
  let ?t = "\<lparr>ct_groups = map (group_clean env) (ct_groups t), ct_root = ct_root t, ct_next = ct_next t,
               ct_crossfade = finite_unit c F32_HALF, ct_mixer = en_mixer_default env\<rparr>"
  have wf: "tree_wf t" using assms by (simp add: tree_ok_def)
  have valid: "validate_structure ?t = Inr ()" using clean_tree_wf(1) [OF wf, of ?t env] by (simp add: validate_structure_wf)
  have clean: "sanitize_groups env (ct_groups t) = Inr (map (group_clean env) (ct_groups t))"
    using wf by (simp add: sanitize_groups_Inr tree_wf_def)
  have "greatest_group group_of (ct_groups t) (ct_root t) < ct_next t" if "ct_next t \<noteq> 0"
    using assms that greatest_of_tree(1) [OF wf, of group_of "ct_next t"]
    by (auto simp: tree_ok_def cursor_beyond_def word_gt_0)
  then show ?thesis
    using assms greatest_of_tree(2) [OF wf, of group_of] valid clean
    by (auto simp: tree_try_from_parts_def Let_def tree_ok_def not_le)
qed

text \<open>Without a cursor, a tree that names the greatest identity is refused: the inferred exhausted cursor 0 is raised to 1.\<close>

lemma omitted_cursor_refuses_greatest:
  assumes "length gs \<le> MAX_GROUPS" "sanitize_groups env gs = Inr hs" "greatest_group group_of hs roots = - 1"
  shows "tree_try_from_parts group_of env gs roots None c = Inl (CeInvalidNextGroupId 1 (- 1))"
proof -
  have "max (cursor_after (- 1)) (1 :: u64) = 1" by (simp add: cursor_after_cases max_def)
  then show ?thesis using assms by (simp add: tree_try_from_parts_def Let_def not_less [symmetric])
qed

section \<open>Properties of edited trees\<close>

lemma flatten_of_wf: "tree_wf t \<Longrightarrow> \<exists>f. tree_flatten t = Inr f \<and> map fl_layer (fc_layers f) = tree_layers t"
  using flatten_closed flatten_layers by blast

lemma item_block_of_layers:
  "map (\<lambda>l. (fl_layer l, fl_bus l)) (group_block solo g) = map (\<lambda>l. (l, gr_bus g)) (gr_members g)"
  by (simp add: group_block_def)

text \<open>C16. Group identities are never reused: the identity that an insertion issues has never named a group of the tree,
  a removed group, a group that a route of the tree named, or an identity observed or issued before.\<close>

theorem group_ids_never_reused:
  assumes "tree_try_from_parts resolved_tap_group env gs roots start c = Inr t"
    and "snd (tree_alloc tap_mark_group_missing env (alloc_run (tree_alloc tap_mark_group_missing env) (t, []) ops) op) = Some i"
  shows "i \<notin> ever_seen (tree_alloc tap_mark_group_missing env) (tree_seen resolved_tap_group) (t, []) ops \<union>
    set (issued_ids (tree_alloc tap_mark_group_missing env) (t, []) ops)"
  using runtime_form.issued_fresh [OF loaded_tree_ok [OF assms(1)] assms(2)] .

text \<open>C11. Edits keep the layers: after any sequence of insertions, removals and moves of a loaded tree, also refused
  ones, the tree still validates and flattens, within the limit on groups, and its flattening holds the same layers
  as the loaded one, each once.\<close>

theorem tree_edits_keep_layers:
  assumes "tree_try_from_parts saved_tap_group env gs roots start c = Inr t"
    and "fst (alloc_run (tree_alloc saved_mark_group_missing env) (t, []) ops) = t'"
  shows "\<exists>f f'. tree_flatten t = Inr f \<and> tree_flatten t' = Inr f' \<and> length (ct_groups t') \<le> MAX_GROUPS \<and>
    mset (map fl_layer (fc_layers f')) = mset (map fl_layer (fc_layers f)) \<and> distinct (map fl_layer (fc_layers f'))"
proof -
  have ok: "tree_ok saved_tap_group t" using assms(1) by (rule loaded_tree_ok)
  have ok': "tree_ok saved_tap_group t'" using saved_form.history_ok [OF ok, of env ops] assms(2) by (simp add: tree_alloc_ok_def)
  from ok obtain f where f: "tree_flatten t = Inr f" "map fl_layer (fc_layers f) = tree_layers t"
    using flatten_of_wf by (auto simp: tree_ok_def)
  from ok' obtain f' where f': "tree_flatten t' = Inr f'" "map fl_layer (fc_layers f') = tree_layers t'"
    using flatten_of_wf by (auto simp: tree_ok_def)
  have "mset (map fl_layer (fc_layers f')) = mset (map fl_layer (fc_layers f))"
    unfolding f(2) f'(2) using saved_form.history_layers [OF ok, of env "[]" ops] assms(2) by simp
  moreover have "distinct (map fl_layer (fc_layers f'))" "length (ct_groups t') \<le> MAX_GROUPS"
    unfolding f'(2) using ok' by (simp_all add: tree_ok_def tree_wf_def)
  ultimately show ?thesis using f(1) f'(1) by blast
qed

text \<open>C12. Ungrouping keeps the picture's order: removing a group replaces it in place by its members, so the flattened
  layers and the bus each is mixed on are the same, in the same order.\<close>

theorem ungroup_keeps_order:
  assumes "tree_flatten t = Inr f" "remove_group_ungroup t i = (t', Inr g)"
  shows "\<exists>f'. tree_flatten t' = Inr f' \<and>
    map (\<lambda>l. (fl_layer l, fl_bus l)) (fc_layers f') = map (\<lambda>l. (fl_layer l, fl_bus l)) (fc_layers f)"
proof -
  have rem: "tree_remove_group tap_mark_group_missing t i = (t', Inr g)" using assms(2) by (simp add: remove_group_ungroup_def)
  have wf: "tree_wf t" using assms(1) by (rule flatten_wf)
  note r = runtime_form.remove [OF wf rem]
  from wf rem obtain pre post k where roots: "ct_root t = pre @ RootGroup i # post" "RootGroup i \<notin> set pre" "RootGroup i \<notin> set post"
    "ct_root t' = pre @ map (\<lambda>l. RootLayer l (gr_bus g)) (gr_members g) @ post" and g: "tree_group t i = Some g"
    by (rule remove_group_split)
  let ?b = "\<lambda>t solo item. map (\<lambda>l. (fl_layer l, fl_bus l)) (item_block t solo item)"
  have same: "?b t' solo' item = ?b t solo item" if "item \<noteq> RootGroup i" for item solo solo'
    using that r(6) by (cases item) (auto simp: item_block_of_layers split: option.split)
  have blocks: "concat (map (?b t' solo') pre) = concat (map (?b t solo) pre)"
    "concat (map (?b t' solo') post) = concat (map (?b t solo) post)" for solo solo'
    using same roots by (metis (no_types, lifting) map_cong)+
  have single: "concat (map (\<lambda>l. [h l]) ls) = map h ls" for ls :: "'z list" and h :: "'z \<Rightarrow> 'y" by (induction ls) simp_all
  from flatten_closed [OF wf] assms(1) have f: "fc_layers f = concat (map (item_block t (any_solo t)) (ct_root t))" by auto
  from flatten_closed [OF r(1)] obtain f' where f': "tree_flatten t' = Inr f'"
    "fc_layers f' = concat (map (item_block t' (any_solo t')) (ct_root t'))" by auto
  have "map (\<lambda>l. (fl_layer l, fl_bus l)) (fc_layers f') = map (\<lambda>l. (fl_layer l, fl_bus l)) (fc_layers f)"
    using g by (simp add: f f'(2) roots map_concat o_def item_block_of_layers single blocks [of "any_solo t'" "any_solo t"])
  then show ?thesis using f'(1) by blast
qed

text \<open>C15. Saving an edited tree: after any edits of a loaded tree, the constructor that every save and load goes through
  accepts its groups, root and cursor and only sanitizes values, unless the cursor is exhausted while no group and no
  route names the greatest identity; such a tree is refused.\<close>

theorem edited_tree_reloads:
  assumes "tree_try_from_parts saved_tap_group env gs roots start c = Inr t"
    and "fst (alloc_run (tree_alloc saved_mark_group_missing env) (t, []) ops) = t'"
  shows "tree_try_from_parts saved_tap_group env (ct_groups t') (ct_root t') (Some (ct_next t')) (ct_crossfade t') =
    (if ct_next t' \<noteq> 0 \<or> - 1 \<in> tree_refs saved_tap_group t'
     then Inr \<lparr>ct_groups = map (group_clean env) (ct_groups t'), ct_root = ct_root t', ct_next = ct_next t',
               ct_crossfade = finite_unit (ct_crossfade t') F32_HALF, ct_mixer = en_mixer_default env\<rparr>
     else Inl (CeInvalidNextGroupId 0 (greatest_group saved_tap_group (ct_groups t') (ct_root t'))))"
  using saved_form.history_ok [OF loaded_tree_ok [OF assms(1)], of env ops] assms(2)
  by (intro tree_ok_loads) (simp add: tree_alloc_ok_def)

section \<open>Witnesses\<close>

definition example_env :: "(unit, unit) tree_env" where
  "example_env = \<lparr>en_transform_clean = (\<lambda>x. x), en_transform_default = (), en_mixer_clean = (\<lambda>x. x), en_mixer_default = ()\<rparr>"

text \<open>A group 3 of two layers in front of a third.\<close>

definition example_group :: "'l \<Rightarrow> 'l \<Rightarrow> ('l, 't, 'm, unit, unit) group" where
  "example_group a b = (group_empty example_env 3 [])\<lparr>gr_members := [a, b], gr_bus := BusProgram\<rparr>"

definition example_tree :: "'l \<Rightarrow> 'l \<Rightarrow> 'l \<Rightarrow> u64 \<Rightarrow> ('l, 't, 'm, unit, unit, unit) tree" where
  "example_tree a b c next_id = \<lparr>ct_groups = [group_clean example_env (example_group a b)],
     ct_root = [RootGroup 3, RootLayer c BusProgram], ct_next = next_id, ct_crossfade = finite_unit F32_HALF F32_HALF, ct_mixer = ()\<rparr>"

lemma example_group_fields [simp]:
  "gr_id (example_group a b) = 3" "gr_members (example_group a b) = [a, b]" "group_references group_of (example_group a b) = []"
  "check_group_rack (example_group a b) = Inr ()" "gr_bus (example_group a b) = BusProgram"
proof -
  show "check_group_rack (example_group a b) = Inr ()"
    by (simp add: example_group_def check_group_rack_def group_empty_def)
  show "group_references group_of (example_group a b) = []"
    using group_empty_legal(4) [of group_of example_env 3 "[]"] by (simp add: example_group_def group_references_def split: option.splits)
qed (simp_all add: example_group_def)

lemma example_tree_wf: "distinct [a, b, c] \<Longrightarrow> tree_wf (example_tree a b c next_id)"
  by (auto simp: tree_wf_def example_tree_def group_ids_def tree_layers_def tree_group_def)

lemma example_tree_loads:
  fixes group_of :: "'t \<Rightarrow> group_id option"
  assumes "distinct [a, b, c]" "3 < next_id"
  shows "tree_try_from_parts group_of example_env [example_group a b :: ('l, 't, 'm, unit, unit) group]
    [RootGroup 3, RootLayer c BusProgram] (Some next_id) F32_HALF = Inr (example_tree a b c next_id)"
proof -
  let ?t = "\<lparr>ct_groups = [example_group a b], ct_root = [RootGroup 3, RootLayer c BusProgram], ct_next = next_id,
    ct_crossfade = F32_HALF, ct_mixer = ()\<rparr> :: ('l, 't, 'm, unit, unit, unit) tree"
  have "tree_ok group_of ?t" using assms
    by (auto simp: tree_ok_def tree_wf_def group_ids_def tree_layers_def tree_group_def cursor_beyond_def tree_refs_def MAX_GROUPS_def)
  moreover have "ct_next ?t \<noteq> 0" using assms(2) by auto
  ultimately show ?thesis using tree_ok_loads [of group_of ?t example_env F32_HALF] by (simp add: example_tree_def example_env_def)
qed

definition saved_example :: "u64 \<Rightarrow> (unit, unit, unit) composition_tree" where
  "saved_example = example_tree 1 2 5"

definition runtime_example :: "u64 \<Rightarrow> (unit, unit, unit) runtime_composition" where
  "runtime_example = example_tree 1 2 5"

lemma examples_load:
  "tree_try_from_parts saved_tap_group example_env [example_group 1 2] [RootGroup 3, RootLayer 5 BusProgram] (Some 7) F32_HALF =
    Inr (saved_example 7)"
  "tree_try_from_parts resolved_tap_group example_env [example_group 1 2] [RootGroup 3, RootLayer 5 BusProgram] (Some 7) F32_HALF =
    Inr (runtime_example 7)"
  unfolding saved_example_def runtime_example_def by (rule example_tree_loads; simp)+

lemma examples_wf: "tree_wf (saved_example n)" "tree_wf (runtime_example n)"
  unfolding saved_example_def runtime_example_def by (rule example_tree_wf; simp)+

lemmas example_tree_simps = example_tree_def saved_example_def runtime_example_def tree_alloc_def alloc_run_def tree_remove_group_def
  insert_empty_group_def node_id_new_def MAX_GROUPS_def observe_group_reference_def cursor_after_cases vec_remove_def vec_insert_def

lemma runtime_example_flat:
  obtains f sp where "tree_flatten (runtime_example 7) = Inr f" "map fl_layer (fc_layers f) = [1, 2, 5]"
    "sp \<in> set (fc_groups f)" "fg_group sp = 3"
proof -
  from flatten_closed [OF examples_wf(2) [of 7]] obtain f sp where f: "tree_flatten (runtime_example 7) = Inr f"
    and sp: "sp \<in> set (fc_groups f)" "fg_group sp = 3"
    by (simp add: example_tree_def runtime_example_def tree_group_def)
  have "map fl_layer (fc_layers f) = [1, 2, 5]" unfolding flatten_layers [OF f]
    by (simp add: tree_layers_def example_tree_def runtime_example_def tree_group_def)
  then show thesis by (rule that [OF f _ sp])
qed

theorem flatten_spans_exact_witness:
  "\<exists>f. tree_flatten (runtime_example 7) = Inr f \<and> map fl_layer (filter (\<lambda>l. fl_group l = Some 3) (fc_layers f)) = [1, 2]"
proof -
  obtain f sp where f: "tree_flatten (runtime_example 7) = Inr f" "sp \<in> set (fc_groups f)" "fg_group sp = 3"
    by (rule runtime_example_flat)
  from flatten_spans_exact [OF f(1,2)] f(1,3) show ?thesis by (auto simp: runtime_example_def example_tree_def tree_group_def)
qed

theorem group_ids_never_reused_witness:
  "7 \<notin> ever_seen (tree_alloc tap_mark_group_missing example_env) (tree_seen resolved_tap_group) (runtime_example 7, []) [ToRemove 3]"
proof -
  have "snd (tree_alloc tap_mark_group_missing example_env
      (alloc_run (tree_alloc tap_mark_group_missing example_env) (runtime_example 7, []) [ToRemove 3]) (ToInsert [] 0)) = Some 7"
    by (simp add: example_tree_simps)
  from group_ids_never_reused [OF examples_load(2) this] show ?thesis by (simp del: ever_seen.simps)
qed

theorem tree_edits_keep_layers_witness:
  "\<exists>f. tree_flatten (fst (alloc_run (tree_alloc saved_mark_group_missing example_env) (saved_example 7, []) [ToRemove 3])) = Inr f \<and>
     distinct (map fl_layer (fc_layers f))"
  using tree_edits_keep_layers [OF examples_load(1) refl, of "[ToRemove 3]"] by blast

theorem ungroup_keeps_order_witness:
  "\<exists>f. tree_flatten (fst (remove_group_ungroup (runtime_example 7) 3)) = Inr f \<and> map fl_layer (fc_layers f) = [1, 2, 5]"
proof -
  obtain f where f: "tree_flatten (runtime_example 7) = Inr f" "map fl_layer (fc_layers f) = [1, 2, 5]" by (rule runtime_example_flat)
  obtain t' g where r: "remove_group_ungroup (runtime_example 7) 3 = (t', Inr g)"
    by (simp add: remove_group_ungroup_def example_tree_simps)
  from ungroup_keeps_order [OF f(1) r] obtain f' where "tree_flatten t' = Inr f'"
    "map (\<lambda>l. (fl_layer l, fl_bus l)) (fc_layers f') = map (\<lambda>l. (fl_layer l, fl_bus l)) (fc_layers f)" by blast
  moreover from this(2) have "map fl_layer (fc_layers f') = map fl_layer (fc_layers f)"
    by (auto dest!: arg_cong [where f = "map fst"] simp: o_def)
  ultimately show ?thesis using f(2) r by simp
qed

theorem edited_tree_reloads_witness:
  "tree_try_from_parts saved_tap_group example_env (ct_groups (saved_example 0)) (ct_root (saved_example 0)) (Some 0)
     (ct_crossfade (saved_example 0)) = Inl (CeInvalidNextGroupId 0 3)"
proof -
  have "fst (alloc_run (tree_alloc saved_mark_group_missing example_env) (saved_example 7, []) [ToObserve (- 1)]) = saved_example 0"
    by (simp add: example_tree_simps)
  from edited_tree_reloads [OF examples_load(1) this]
  show ?thesis by (simp add: example_tree_def saved_example_def tree_refs_def group_ids_def greatest_group_def)
qed

end
