(* ===== verification/Composition_Resolve.thy ===== *)
theory Composition_Resolve
  imports Composition_Laws
begin

text \<open>
  Laws of the two directions between the saved and the live tree: the lookup that both build first, that the
  \<open>expect\<close> calls behind it cannot fail, and that a successful direction keeps the flattened plan.
\<close>

section \<open>The lookup\<close>

lemma build_lookup_Inr:
  assumes "build_lookup f members named = Inr resolved"
  shows "\<forall>a \<in> set members. resolved a \<noteq> None" "\<forall>a \<in> set members. resolved a = f a"
proof -
  from assms have r: "resolved = (\<lambda>a. if a \<in> set (remdups (sort (members @ named))) then f a else None)"
    and "find (\<lambda>a. resolved a = None) (remdups (sort members)) = None"
    by (auto simp: build_lookup_def Let_def split: option.splits prod.splits)
  then show "\<forall>a \<in> set members. resolved a \<noteq> None" by (auto simp: find_None_iff)
  show "\<forall>a \<in> set members. resolved a = f a" by (simp add: r)
qed

lemma map_groups_Inr: "map_groups f gs = Inr hs \<longleftrightarrow> list_all2 (\<lambda>g h. f g = Inr h) gs hs"
proof (induction gs arbitrary: hs)
  case (Cons g gs)
  then show ?case by (auto simp: rbind_Inr list_all2_Cons1)
qed auto

lemma map_root_Some:
  "map_root f items =
     (if \<forall>l bus. RootLayer l bus \<in> set items \<longrightarrow> f l \<noteq> None then Some (map (map_root_item (\<lambda>l. the (f l))) items) else None)"
  by (induction f items rule: map_root.induct) (auto simp: obind_def split: option.splits)

lemma those_map:
  "those (map f xs) = (if \<forall>x \<in> set xs. f x \<noteq> None then Some (map (\<lambda>x. the (f x)) xs) else None)"
  by (induction xs) (auto split: option.splits)

section \<open>The flattened plan\<close>

text \<open>Two groups that differ in what neither the order nor the admission of layers depends on.\<close>

definition same_group :: "('a \<Rightarrow> 'c) \<Rightarrow> ('a, 't, 'm, 'x, 's) group \<Rightarrow> ('c, 'u, 'n, 'x, 's) group \<Rightarrow> bool" where
  "same_group m g h \<longleftrightarrow> gr_id h = gr_id g \<and> gr_members h = map m (gr_members g) \<and> gr_bus h = gr_bus g \<and>
     gr_solo h = gr_solo g \<and> gr_bypass h = gr_bypass g"

lemma same_lookup:
  assumes "list_all2 (same_group m) (ct_groups t) (ct_groups r)"
  shows "rel_option (same_group m) (tree_group t i) (tree_group r i)"
proof -
  have "rel_option (same_group m) (find (\<lambda>g. gr_id g = i) gs) (find (\<lambda>g. gr_id g = i) hs)" if "list_all2 (same_group m) gs hs" for gs hs
    using that by induction (auto simp: same_group_def)
  then show ?thesis using assms by (simp add: tree_group_def)
qed

lemma same_solos: "list_all2 (same_group m) gs hs \<Longrightarrow> (\<exists>h \<in> set hs. gr_solo h) \<longleftrightarrow> (\<exists>g \<in> set gs. gr_solo g)"
  by (induction rule: list_all2_induct) (auto simp: same_group_def)

lemma same_solo:
  assumes "list_all2 (same_group m) (ct_groups t) (ct_groups r)"
  shows "any_solo r = any_solo t"
  using same_solos [OF assms] .

abbreviation plan_of :: "'l flattened_layer \<Rightarrow> 'l \<times> group_id option \<times> bus_assignment \<times> bool" where
  "plan_of l \<equiv> (fl_layer l, fl_group l, fl_bus l, fl_admitted l)"

lemma same_block:
  assumes "list_all2 (same_group m) (ct_groups t) (ct_groups r)"
  shows "map plan_of (item_block r solo (map_root_item m item)) = map (map_prod m id \<circ> plan_of) (item_block t solo item)"
proof (cases item)
  case (RootGroup i)
  then show ?thesis using same_lookup [OF assms, of i]
    by (auto simp: group_block_def same_group_def split: option.splits)
qed simp

lemma same_spans:
  assumes "list_all2 (same_group m) (ct_groups t) (ct_groups r)"
  shows "item_spans r solo start (map (map_root_item m) items) = item_spans t solo start items"
proof (induction items arbitrary: start)
  case (Cons item items)
  show ?case
  proof (cases item)
    case (RootGroup i)
    then show ?thesis using Cons.IH same_lookup [OF assms, of i]
      by (cases "tree_group t i"; cases "tree_group r i") (auto simp: same_group_def)
  qed (use Cons.IH in simp)
qed simp

lemma same_plan:
  assumes "tree_wf t" "tree_wf r" "list_all2 (same_group m) (ct_groups t) (ct_groups r)" "ct_root r = map (map_root_item m) (ct_root t)"
  shows "\<exists>f f'. tree_flatten t = Inr f \<and> tree_flatten r = Inr f' \<and> fc_groups f' = fc_groups f \<and>
    map plan_of (fc_layers f') = map (map_prod m id \<circ> plan_of) (fc_layers f) \<and> map fl_layer (fc_layers f) = tree_layers t"
proof -
  have "map plan_of (concat (map (item_block r (any_solo r)) (ct_root r))) =
      map (map_prod m id \<circ> plan_of) (concat (map (item_block t (any_solo t)) (ct_root t)))"
    unfolding assms(4) map_concat map_map same_solo [OF assms(3)] using same_block [OF assms(3)] by (simp add: o_def)
  then show ?thesis
    using flatten_closed [OF assms(1)] flatten_closed [OF assms(2)] flatten_layers [OF flatten_closed [OF assms(1)]]
    by (auto simp: same_spans [OF assms(3)] assms(4) same_solo [OF assms(3)])
qed

section \<open>Resolving and capturing\<close>

lemma loaded_fields:
  assumes "tree_try_from_parts group_of env hs roots start c = Inr r"
  shows "tree_wf r" "ct_groups r = map (group_clean env) hs" "ct_root r = roots"
proof -
  show "tree_wf r" using loaded_tree_ok [OF assms] by (simp add: tree_ok_def)
  from assms obtain gs where "sanitize_groups env hs = Inr gs" "ct_groups r = gs" "ct_root r = roots"
    unfolding tree_try_from_parts_def Let_def by (auto split: if_splits simp: not_le rbind_Inr)
  then show "ct_groups r = map (group_clean env) hs" "ct_root r = roots" by (simp_all add: sanitize_groups_Inr)
qed

lemma with_mixer_tree [simp]:
  "tree_wf (with_mixer env t b) = tree_wf t" "ct_groups (with_mixer env t b) = ct_groups t" "ct_root (with_mixer env t b) = ct_root t"
proof -
  have "item_layers (with_mixer env t b) = item_layers t"
  proof
    show "item_layers (with_mixer env t b) item = item_layers t item" for item
      by (cases item) (simp_all add: with_mixer_def tree_group_def)
  qed
  then show "tree_wf (with_mixer env t b) = tree_wf t"
    by (simp add: tree_wf_def tree_layers_def group_ids_def) (simp add: with_mixer_def)
qed (simp_all add: with_mixer_def)

lemma members_Inr: "group_members_try_from_vec ls = Inr ms \<Longrightarrow> ms = ls"
  by (auto simp: group_members_try_from_vec_def rbind_Inr split: if_splits)

lemma lift_Inr [simp]: "lift_source x = Inr v \<longleftrightarrow> x = Inr v" "lift_target y = Inr w \<longleftrightarrow> y = Inr w"
  by (auto simp: lift_source_def lift_target_def split: sum.splits)

lemma resolve_group_same:
  assumes "resolve_group clean resolved groups g = Inr h"
  shows "same_group (\<lambda>l. the (resolved l)) g (group_clean env h)"
  using assms by (auto simp: resolve_group_def same_group_def group_clean_def rbind_Inr those_map ok_or_def dest: members_Inr
      split: if_splits option.splits)

lemma capture_group_same:
  assumes "capture_group clean captured g = Inr h"
  shows "same_group (\<lambda>l. the (captured l)) g (group_clean env h)"
  using assms by (auto simp: capture_group_def same_group_def group_clean_def rbind_Inr those_map ok_or_def dest: members_Inr
      split: if_splits option.splits)

lemma mapped_plan:
  assumes "tree_flatten t = Inr flat" "build_lookup f (map fl_layer (fc_layers flat)) named = Inr resolved"
    and "list_all2 (same_group (\<lambda>l. the (resolved l))) (ct_groups t) (ct_groups r)" "tree_wf r"
    and "map_root resolved (ct_root t) = Some (ct_root r)"
  shows "\<exists>f'. tree_flatten r = Inr f' \<and> fc_groups f' = fc_groups flat \<and> distinct (map fl_layer (fc_layers f')) \<and>
    map (map_prod Some id \<circ> plan_of) (fc_layers f') = map (map_prod f id \<circ> plan_of) (fc_layers flat)"
proof -
  have wf: "tree_wf t" using assms(1) by (rule flatten_wf)
  have root: "ct_root r = map (map_root_item (\<lambda>l. the (resolved l))) (ct_root t)"
    using assms(5) by (simp add: map_root_Some split: if_splits)
  from same_plan [OF wf assms(4) assms(3) root] assms(1) obtain f' where f': "tree_flatten r = Inr f'" "fc_groups f' = fc_groups flat"
    "map plan_of (fc_layers f') = map (map_prod (\<lambda>l. the (resolved l)) id \<circ> plan_of) (fc_layers flat)" by auto
  have some: "Some (the (resolved (fl_layer l))) = f (fl_layer l)" if "l \<in> set (fc_layers flat)" for l
    using build_lookup_Inr [OF assms(2)] that by auto
  have "map (map_prod Some id \<circ> plan_of) (fc_layers f') = map (map_prod Some id) (map plan_of (fc_layers f'))" by simp
  also have "\<dots> = map (map_prod f id \<circ> plan_of) (fc_layers flat)" unfolding f'(3) using some by simp
  finally have "map (map_prod Some id \<circ> plan_of) (fc_layers f') = map (map_prod f id \<circ> plan_of) (fc_layers flat)" .
  moreover have "distinct (map fl_layer (fc_layers f'))"
    using flatten_layers [OF f'(1)] assms(4) by (simp add: tree_wf_def)
  ultimately show ?thesis using f' by blast
qed

text \<open>C10. Resolving a saved tree keeps its plan: the live tree flattens to the same spans of groups and to the same
  sequence of layers, each at the stable identity its saved position stands for, with the same group, bus and admission.\<close>

theorem resolve_keeps_plan:
  assumes "tree_resolve clean env layer_at_position t = Inr r"
  shows "\<exists>f f'. tree_flatten t = Inr f \<and> tree_flatten r = Inr f' \<and> fc_groups f' = fc_groups f \<and>
    distinct (map fl_layer (fc_layers f')) \<and>
    map (\<lambda>l. (Some (fl_layer l), fl_group l, fl_bus l, fl_admitted l)) (fc_layers f') =
      map (\<lambda>l. (layer_at_position (fl_layer l), fl_group l, fl_bus l, fl_admitted l)) (fc_layers f)"
proof -
  from assms obtain flat resolved hs roots r0 where flat: "tree_flatten t = Inr flat"
    and look: "build_lookup layer_at_position (map fl_layer (fc_layers flat)) (named_layers saved_tap_layer saved_motion_layer (ct_groups t)) = Inr resolved"
    and hs: "map_groups (resolve_group clean resolved (contains_group t)) (ct_groups t) = Inr hs"
    and roots: "map_root resolved (ct_root t) = Some roots"
    and r0: "tree_try_from_parts resolved_tap_group env hs roots (Some (ct_next t)) (ct_crossfade t) = Inr r0"
    and r: "r = with_mixer env r0 (ct_mixer t)"
    by (auto simp: tree_resolve_def rbind_Inr ok_or_def split: option.splits)
  note loaded = loaded_fields [OF r0]
  have "list_all2 (same_group (\<lambda>l. the (resolved l))) (ct_groups t) (ct_groups r)"
    using hs by (auto simp: r loaded(2) map_groups_Inr list_all2_map2 intro: resolve_group_same elim: list_all2_mono)
  from mapped_plan [OF flat look this] loaded roots show ?thesis by (auto simp: r flat o_def)
qed

text \<open>Capturing keeps it likewise.\<close>

lemma capture_keeps_plan:
  assumes "tree_capture clean env position_of_layer t = Inr r"
  shows "\<exists>f f'. tree_flatten t = Inr f \<and> tree_flatten r = Inr f' \<and> fc_groups f' = fc_groups f \<and>
    distinct (map fl_layer (fc_layers f')) \<and>
    map (\<lambda>l. (Some (fl_layer l), fl_group l, fl_bus l, fl_admitted l)) (fc_layers f') =
      map (\<lambda>l. (position_of_layer (fl_layer l), fl_group l, fl_bus l, fl_admitted l)) (fc_layers f)"
proof -
  from assms obtain flat captured hs roots r0 where flat: "tree_flatten t = Inr flat"
    and look: "build_lookup position_of_layer (map fl_layer (fc_layers flat)) (named_layers resolved_tap_layer motion_layer (ct_groups t)) = Inr captured"
    and hs: "map_groups (capture_group clean captured) (ct_groups t) = Inr hs"
    and roots: "map_root captured (ct_root t) = Some roots"
    and r0: "tree_try_from_parts saved_tap_group env hs roots (Some (ct_next t)) (ct_crossfade t) = Inr r0"
    and r: "r = with_mixer env r0 (ct_mixer t)"
    by (auto simp: tree_capture_def rbind_Inr ok_or_def split: option.splits)
  note loaded = loaded_fields [OF r0]
  have "list_all2 (same_group (\<lambda>l. the (captured l))) (ct_groups t) (ct_groups r)"
    using hs by (auto simp: r loaded(2) map_groups_Inr list_all2_map2 intro: capture_group_same elim: list_all2_mono)
  from mapped_plan [OF flat look this] loaded roots show ?thesis by (auto simp: r flat o_def)
qed

section \<open>The expect calls cannot fail\<close>

lemma insert_layers_error: "insert_layers seen ls = Inl e \<Longrightarrow> e \<noteq> CePanic"
  by (induction seen ls rule: insert_layers.induct) (auto split: if_splits)

lemma check_rack_error: "check_group_rack g = Inl e \<Longrightarrow> e \<noteq> CePanic"
  by (auto simp: check_group_rack_def split: sum.splits)

lemma scan_groups_error: "scan_groups ids gs = Inl e \<Longrightarrow> e \<noteq> CePanic"
  by (induction ids gs rule: scan_groups.induct) (auto simp: rbind_Inl dest: check_rack_error split: if_splits)

lemma scan_root_error:
  "set ids \<subseteq> set (group_ids t) \<Longrightarrow> scan_root t ids st items = Inl e \<Longrightarrow> e \<noteq> CePanic"
proof (induction items arbitrary: st)
  case (Cons item items)
  show ?case
  proof (cases item)
    case (RootLayer l bus)
    then show ?thesis using Cons.IH [OF Cons.prems(1)] Cons.prems(2) by (auto simp: Let_def split: if_splits)
  next
    case (RootGroup i)
    have "tree_group t i \<noteq> None" if "i \<in> set ids" using that Cons.prems(1) tree_group_None [of t i] by auto
    then show ?thesis using RootGroup Cons.IH [OF Cons.prems(1)] Cons.prems(2)
      by (auto simp: Let_def rbind_Inl dest: insert_layers_error split: if_splits option.splits)
  qed
qed simp

lemma validate_error: "validate_structure t = Inl e \<Longrightarrow> e \<noteq> CePanic"
  using scan_root_error [of "rev (group_ids t)" t]
  by (auto simp: validate_structure_def rbind_Inl scan_groups_Inr group_ids_def dest: scan_groups_error split: option.splits)

lemma flatten_error: "tree_flatten t = Inl e \<Longrightarrow> e \<noteq> CePanic"
  using flatten_closed [of t] validate_structure_wf [of t]
  by (cases "validate_structure t") (auto simp: tree_flatten_def dest: validate_error)

lemma sanitize_error: "sanitize_groups env gs = Inl e \<Longrightarrow> e \<noteq> CePanic"
  by (induction gs) (auto simp: rbind_Inl group_sanitized_def Let_def dest: check_rack_error)

lemma load_error: "tree_try_from_parts group_of env gs roots start c = Inl e \<Longrightarrow> e \<noteq> CePanic"
  by (auto simp: tree_try_from_parts_def Let_def rbind_Inl dest: sanitize_error validate_error split: if_splits)

lemma members_error: "group_members_try_from_vec ls = Inl e \<Longrightarrow> e \<noteq> CePanic"
  by (auto simp: group_members_try_from_vec_def rbind_Inl dest: insert_layers_error split: if_splits)

definition panics :: "('a, 'c) mapping_error + 'r \<Rightarrow> bool" where
  "panics x \<longleftrightarrow> x = Inl (MeInvalidSource CePanic) \<or> x = Inl (MeInvalidTarget CePanic)"

lemma members_mapped:
  assumes "tree_flatten t = Inr flat" "build_lookup f (map fl_layer (fc_layers flat)) named = Inr resolved"
  shows "\<forall>g \<in> set (ct_groups t). those (map resolved (gr_members g)) \<noteq> None" "map_root resolved (ct_root t) \<noteq> None"
proof -
  have wf: "tree_wf t" using assms(1) by (rule flatten_wf)
  have some: "resolved l \<noteq> None" if "l \<in> set (tree_layers t)" for l
    using build_lookup_Inr(1) [OF assms(2)] that flatten_layers [OF assms(1)] by simp
  show "\<forall>g \<in> set (ct_groups t). those (map resolved (gr_members g)) \<noteq> None"
  proof
    fix g
    assume g: "g \<in> set (ct_groups t)"
    then have "tree_group t (gr_id g) = Some g" using wf tree_group_id by (auto simp: tree_wf_def)
    moreover have "RootGroup (gr_id g) \<in> set (ct_root t)" using g wf by (auto simp: tree_wf_def root_groups_set group_ids_def)
    ultimately have "set (gr_members g) \<subseteq> set (tree_layers t)" by (force simp: tree_layers_def)
    then show "those (map resolved (gr_members g)) \<noteq> None" using some by (auto simp: those_map)
  qed
  have "l \<in> set (tree_layers t)" if "RootLayer l bus \<in> set (ct_root t)" for l bus
    using that by (force simp: tree_layers_def)
  then show "map_root resolved (ct_root t) \<noteq> None" using some by (auto simp: map_root_Some)
qed

lemma mapped_members:
  assumes "lift_source (tree_flatten t) = Inr flat" "build_lookup f (map fl_layer (fc_layers flat)) named = Inr resolved"
    "g \<in> set (ct_groups t)"
  shows "those (map resolved (gr_members g)) \<noteq> None"
  using members_mapped(1) [of t flat f named resolved] assms by simp

lemma mapped_root:
  assumes "lift_source (tree_flatten t) = Inr flat" "build_lookup f (map fl_layer (fc_layers flat)) named = Inr resolved"
  shows "map_root resolved (ct_root t) \<noteq> None"
  using members_mapped(2) [of t flat f named resolved] assms by simp

lemma panics_rbind: "\<not> panics x \<Longrightarrow> (\<And>v. x = Inr v \<Longrightarrow> \<not> panics (f v)) \<Longrightarrow> \<not> panics (rbind x f)"
  by (cases x) (auto simp: panics_def)

lemma panics_Inr: "\<not> panics (Inr v)"
  by (simp add: panics_def)

lemma panics_groups: "(\<And>g. g \<in> set gs \<Longrightarrow> \<not> panics (f g)) \<Longrightarrow> \<not> panics (map_groups f gs)"
proof (induction gs)
  case (Cons g gs)
  then show ?case by (simp add: panics_rbind panics_Inr)
qed (simp add: panics_Inr)

lemma panics_ok_or: "x \<noteq> None \<Longrightarrow> \<not> panics (ok_or x e)"
  by (auto simp: panics_def ok_or_def)

lemma panics_lookup: "\<not> panics (build_lookup f members named)"
  by (auto simp: build_lookup_def Let_def panics_def split: option.splits prod.splits)

lemma panics_lift:
  "\<not> panics (lift_source (tree_flatten t))" "\<not> panics (lift_target (group_members_try_from_vec ls))"
  "\<not> panics (lift_target (tree_try_from_parts group_of env gs roots start c))"
  using flatten_error [of t] members_error [of ls] load_error [of group_of env gs roots start c]
  by (auto simp: lift_source_def lift_target_def panics_def split: sum.splits)

text \<open>C17. No \<open>expect\<close> of the two directions can fail: whatever tree and lookup they are given, resolving and capturing
  return the other form or an error that names its reason.\<close>

theorem directions_never_panic:
  "\<not> panics (tree_resolve clean env layer_at_position t) \<and> \<not> panics (tree_capture clean env position_of_layer t')"
proof
  show "\<not> panics (tree_resolve clean env layer_at_position t)"
    unfolding tree_resolve_def resolve_group_def
    by (intro panics_rbind panics_lift panics_lookup panics_groups panics_ok_or panics_Inr)
      (assumption | erule (2) mapped_members | erule (1) mapped_root)+
  have "\<not> panics (case rack_capture_routes clean captured r of Inl e \<Rightarrow> Inl (MeRoutes i e) | Inr r \<Rightarrow> Inr r)" for captured r i
    by (auto simp: panics_def split: sum.splits)
  then show "\<not> panics (tree_capture clean env position_of_layer t')"
    unfolding tree_capture_def capture_group_def
    by (intro panics_rbind panics_lift panics_lookup panics_groups panics_ok_or panics_Inr)
      (assumption | erule (2) mapped_members | erule (1) mapped_root)+
qed

text \<open>A saved tree of two layers, resolved to live layers 10 and 20.\<close>

definition two_layers :: "(unit, unit, unit) composition_tree" where
  "two_layers = \<lparr>ct_groups = [], ct_root = [RootLayer 0 BusProgram, RootLayer 1 BusA], ct_next = 1, ct_crossfade = F32_HALF, ct_mixer = ()\<rparr>"

definition two_live :: "layer_position \<Rightarrow> stable_layer_id option" where
  "two_live p = (if p = 0 then Some 10 else if p = 1 then Some 20 else None)"

lemma two_layers_resolve: "\<exists>r. tree_resolve (\<lambda>t x. x) example_env two_live two_layers = Inr r"
proof -
  have wf: "tree_wf two_layers" by (simp add: tree_wf_def two_layers_def group_ids_def tree_layers_def)
  have "\<exists>r. tree_try_from_parts resolved_tap_group example_env ([] :: (stable_layer_id, resolved_tap, motion_donor, unit, unit) group list)
      [RootLayer 10 BusProgram, RootLayer 20 BusA] (Some 1) F32_HALF = Inr r"
    by (simp add: tree_try_from_parts_def Let_def greatest_group_def validate_structure_wf tree_wf_def group_ids_def tree_layers_def
        rbind_Inr MAX_GROUPS_def)
  then show ?thesis
    using flatten_closed [OF wf]
    by (auto simp: tree_resolve_def two_layers_def build_lookup_def Let_def named_layers_def obind_def ok_or_def
        lift_source_def lift_target_def two_live_def)
qed

theorem resolve_keeps_plan_witness:
  "\<exists>r f. tree_resolve (\<lambda>t x. x) example_env two_live two_layers = Inr r \<and> tree_flatten r = Inr f \<and>
     map fl_layer (fc_layers f) = [10, 20]"
proof -
  obtain r where r: "tree_resolve (\<lambda>t x. x) example_env two_live two_layers = Inr r" using two_layers_resolve by blast
  from resolve_keeps_plan [OF r] obtain f f' where f: "tree_flatten two_layers = Inr f" "tree_flatten r = Inr f'"
    "map (\<lambda>l. (Some (fl_layer l), fl_group l, fl_bus l, fl_admitted l)) (fc_layers f') =
      map (\<lambda>l. (two_live (fl_layer l), fl_group l, fl_bus l, fl_admitted l)) (fc_layers f)" by blast
  have layers: "map fl_layer (fc_layers f) = [0, 1]" using flatten_layers [OF f(1)] by (simp add: tree_layers_def two_layers_def)
  from arg_cong [OF f(3), of "map fst"] have "map Some (map fl_layer (fc_layers f')) = map two_live (map fl_layer (fc_layers f))"
    by (simp add: o_def)
  from arg_cong [OF this, of "map the"] have "map fl_layer (fc_layers f') = [10, 20]" unfolding layers
    by (simp add: two_live_def o_def)
  with r f(2) show ?thesis by (intro exI conjI)
qed

end
