(* ===== verification/Media_Safety.thy ===== *)
theory Media_Safety
  imports Rust_Text List_Edit
begin

text \<open>
  The host-local media budgets of \<open>src/src/media_safety.rs\<close>: the admission arithmetic of one source, the
  reservations that admitted sources hold against the planning budget, the ledger of decoded images and
  the performance budget.  A policy is shared by decoder, Spout and export workers; its locked cells and
  atomics are one state here, and an operation of any worker one step on it, since each of them
  takes its lock once.  Rust drops a reservation exactly once, when its owner goes; that is the step
  \<open>PsDrop\<close> on a reservation that is held.  The size of physical memory, which the host reports, is an argument.
\<close>

section \<open>Limits\<close>

definition SAFE_MEDIA_MAX_PIXELS :: u64 where "SAFE_MEDIA_MAX_PIXELS = 3840 * 2160"
definition SAFE_MEDIA_MAX_RGBA_BYTES :: u64 where "SAFE_MEDIA_MAX_RGBA_BYTES = SAFE_MEDIA_MAX_PIXELS * 4"
definition EXPERT_MEDIA_MAX_PIXELS :: u64 where "EXPERT_MEDIA_MAX_PIXELS = 8192 * 4320"
definition EXPERT_MEDIA_MAX_RGBA_BYTES :: u64 where "EXPERT_MEDIA_MAX_RGBA_BYTES = EXPERT_MEDIA_MAX_PIXELS * 4"
definition ABSOLUTE_MEDIA_MAX_EDGE :: u32 where "ABSOLUTE_MEDIA_MAX_EDGE = 16384"
definition EXPERT_MEMORY_FRACTION_DIVISOR :: u64 where "EXPERT_MEMORY_FRACTION_DIVISOR = 8"
definition EXPERT_MEMORY_BUDGET_HARD_MAX :: u64 where "EXPERT_MEMORY_BUDGET_HARD_MAX = 2 * 1024 * 1024 * 1024"
definition PORTABLE_VRAM_BUDGET_AVAILABLE :: bool where "PORTABLE_VRAM_BUDGET_AVAILABLE = False"
definition PERFORMANCE_STAGING_WORKERS :: nat where "PERFORMANCE_STAGING_WORKERS = 2"
definition PERFORMANCE_MAX_PREPARED_SOURCES :: nat where "PERFORMANCE_MAX_PREPARED_SOURCES = 16"
definition PERFORMANCE_MAX_PRELOAD_BYTES :: u64 where "PERFORMANCE_MAX_PRELOAD_BYTES = 512 * 1024 * 1024"
definition PERFORMANCE_MAX_REVERSE_CACHE_BYTES :: u64 where "PERFORMANCE_MAX_REVERSE_CACHE_BYTES = 128 * 1024 * 1024"
definition PERFORMANCE_MAX_REVERSE_CACHE_BYTES_PER_DECODER :: u64 where
  "PERFORMANCE_MAX_REVERSE_CACHE_BYTES_PER_DECODER = 32 * 1024 * 1024"
definition DECODED_IMAGE_LEDGER_FLOOR_BYTES :: u64 where "DECODED_IMAGE_LEDGER_FLOOR_BYTES = 256 * 1024 * 1024"

definition planning_budget_for_physical_memory :: "u64 \<Rightarrow> u64" where
  "planning_budget_for_physical_memory physical =
     (let fraction = physical div EXPERT_MEMORY_FRACTION_DIVISOR
      in if fraction < EXPERT_MEMORY_BUDGET_HARD_MAX then fraction else EXPERT_MEMORY_BUDGET_HARD_MAX)"

section \<open>The performance budget\<close>

record performance_budget =
  pb_workers :: nat
  pb_prepared :: nat
  pb_preload :: u64
  pb_reverse :: u64
  pb_reverse_per_decoder :: u64

definition performance_budget_default :: performance_budget where
  "performance_budget_default = \<lparr>pb_workers = PERFORMANCE_STAGING_WORKERS, pb_prepared = PERFORMANCE_MAX_PREPARED_SOURCES,
     pb_preload = PERFORMANCE_MAX_PRELOAD_BYTES, pb_reverse = PERFORMANCE_MAX_REVERSE_CACHE_BYTES,
     pb_reverse_per_decoder = PERFORMANCE_MAX_REVERSE_CACHE_BYTES_PER_DECODER\<rparr>"

definition for_planning_budget :: "u64 \<Rightarrow> performance_budget" where
  "for_planning_budget budget =
     (let share = budget div 5;
          reverse = min share PERFORMANCE_MAX_REVERSE_CACHE_BYTES;
          preload = min (sat_sub budget reverse) PERFORMANCE_MAX_PRELOAD_BYTES
      in performance_budget_default\<lparr>pb_preload := preload, pb_reverse := reverse,
           pb_reverse_per_decoder := min reverse PERFORMANCE_MAX_REVERSE_CACHE_BYTES_PER_DECODER\<rparr>)"

definition for_detected_physical_memory :: "u64 \<Rightarrow> performance_budget" where
  "for_detected_physical_memory physical = for_planning_budget (planning_budget_for_physical_memory physical)"

definition for_host :: "u64 option \<Rightarrow> performance_budget" where
  "for_host detected = (case detected of Some m \<Rightarrow> for_detected_physical_memory m | None \<Rightarrow> for_planning_budget 0)"

definition admit_staging_worker :: "performance_budget \<Rightarrow> nat \<Rightarrow> rstr + unit" where
  "admit_staging_worker b active =
     (if active < pb_workers b then Inr () else Inl (lit ''performance staging worker limit reached''))"

definition admit_prepared_source :: "performance_budget \<Rightarrow> nat \<Rightarrow> rstr + unit" where
  "admit_prepared_source b prepared =
     (if prepared < pb_prepared b then Inr () else Inl (lit ''prepared source limit reached''))"

definition admit_preload_bytes :: "performance_budget \<Rightarrow> u64 \<Rightarrow> u64 \<Rightarrow> rstr + u64" where
  "admit_preload_bytes b reserved requested =
     rbind (ok_or (checked_add reserved requested) (lit ''performance preload byte accounting overflow'')) (\<lambda>acc.
     if acc \<le> pb_preload b then Inr acc else Inl (lit ''performance preload byte budget exceeded''))"

definition admit_reverse_cache_bytes :: "performance_budget \<Rightarrow> u64 \<Rightarrow> u64 \<Rightarrow> rstr + u64" where
  "admit_reverse_cache_bytes b reserved requested =
     (if pb_reverse_per_decoder b < requested then Inl (lit ''per-decoder reverse cache budget exceeded'')
      else rbind (ok_or (checked_add reserved requested) (lit ''reverse cache byte accounting overflow'')) (\<lambda>acc.
        if acc \<le> pb_reverse b then Inr acc else Inl (lit ''aggregate reverse cache budget exceeded'')))"

section \<open>Admission of one source\<close>

datatype safety_mode = Safe | Expert

fun mode_as_u8 :: "safety_mode \<Rightarrow> u8" where
  "mode_as_u8 Safe = 0"
| "mode_as_u8 Expert = 1"

definition mode_from_u8 :: "u8 \<Rightarrow> safety_mode" where
  "mode_from_u8 v = (if v = 1 then Expert else Safe)"

datatype media_source_kind = Video | Still | Spout

fun working_set_multiplier :: "media_source_kind \<Rightarrow> u64" where
  "working_set_multiplier Video = 4"
| "working_set_multiplier Still = 6"
| "working_set_multiplier Spout = 4"

record device_limits =
  dl_edge :: "u32 option"
  dl_buffer :: "u64 option"

datatype limit_reason =
    InvalidDimensions | LrArithmeticOverflow | AbsoluteEdge | DeviceLimitsUnavailable | DeviceTextureEdge
  | DeviceBuffer | SafeArea | ExpertArea | MemoryBudgetUnavailable | AggregateMemoryBudget | AllocationFailed

text \<open>The message of an error is text about its other fields and is left out.\<close>

record limit_error =
  me_reason :: limit_reason
  me_width :: u32
  me_height :: u32

definition limit_error_new :: "limit_reason \<Rightarrow> u32 \<Rightarrow> u32 \<Rightarrow> limit_error" where
  "limit_error_new reason w h = \<lparr>me_reason = reason, me_width = w, me_height = h\<rparr>"

record allocation_plan =
  pl_kind :: media_source_kind
  pl_width :: u32
  pl_height :: u32
  pl_pixels :: u64
  pl_rgba :: u64
  pl_working_set :: u64
  pl_expert :: bool

definition still_decoder_allocation_limit :: "allocation_plan \<Rightarrow> limit_error + u64" where
  "still_decoder_allocation_limit p =
     ok_or (checked_mul (pl_rgba p) 4) (limit_error_new LrArithmeticOverflow (pl_width p) (pl_height p))"

definition validate_dimensions ::
  "safety_mode \<Rightarrow> media_source_kind \<Rightarrow> u32 \<Rightarrow> u32 \<Rightarrow> device_limits \<Rightarrow> u64 \<Rightarrow> limit_error + allocation_plan" where
  "validate_dimensions mode kind w h limits budget =
     (if w = 0 \<or> h = 0 then Inl (limit_error_new InvalidDimensions w h)
      else if ABSOLUTE_MEDIA_MAX_EDGE < w \<or> ABSOLUTE_MEDIA_MAX_EDGE < h then Inl (limit_error_new AbsoluteEdge w h)
      else if (case dl_edge limits of Some edge \<Rightarrow> edge < w \<or> edge < h | None \<Rightarrow> False)
      then Inl (limit_error_new DeviceTextureEdge w h)
      else
        rbind (ok_or (checked_mul (ucast w :: u64) (ucast h)) (limit_error_new LrArithmeticOverflow w h)) (\<lambda>pixels.
        rbind (ok_or (checked_mul pixels 4) (limit_error_new LrArithmeticOverflow w h)) (\<lambda>rgba.
        let requires_expert = SAFE_MEDIA_MAX_PIXELS < pixels in
        if requires_expert \<and> mode = Safe then Inl (limit_error_new SafeArea w h)
        else if requires_expert \<and> (dl_edge limits = None \<or> dl_buffer limits = None)
        then Inl (limit_error_new DeviceLimitsUnavailable w h)
        else if EXPERT_MEDIA_MAX_PIXELS < pixels \<or> EXPERT_MEDIA_MAX_RGBA_BYTES < rgba
        then Inl (limit_error_new ExpertArea w h)
        else if (case dl_buffer limits of Some limit \<Rightarrow> requires_expert \<and> limit < rgba | None \<Rightarrow> False)
        then Inl (limit_error_new DeviceBuffer w h)
        else
          rbind (ok_or (checked_mul rgba (working_set_multiplier kind)) (limit_error_new LrArithmeticOverflow w h)) (\<lambda>working_set.
          if requires_expert \<and> budget = 0 then Inl (limit_error_new MemoryBudgetUnavailable w h)
          else if requires_expert \<and> budget < working_set then Inl (limit_error_new AggregateMemoryBudget w h)
          else Inr \<lparr>pl_kind = kind, pl_width = w, pl_height = h, pl_pixels = pixels, pl_rgba = rgba,
                 pl_working_set = working_set, pl_expert = requires_expert\<rparr>))))"

definition validate_safe_dimensions ::
  "media_source_kind \<Rightarrow> u32 \<Rightarrow> u32 \<Rightarrow> device_limits \<Rightarrow> limit_error + allocation_plan" where
  "validate_safe_dimensions kind w h limits = validate_dimensions Safe kind w h limits 0"

section \<open>The ledger of decoded images\<close>

record image_ledger =
  il_max :: u64
  il_physical :: u64
  il_peak :: u64
  il_allocations :: u64
  il_reuses :: u64
  il_materialized :: u64
  il_referenced :: u64
  il_invalidations :: u64
  il_owners :: "u64 list"

definition ledger_new :: "u64 \<Rightarrow> image_ledger" where
  "ledger_new limit = \<lparr>il_max = limit, il_physical = 0, il_peak = 0, il_allocations = 0, il_reuses = 0, il_materialized = 0,
     il_referenced = 0, il_invalidations = 0, il_owners = [0, 0, 0, 0]\<rparr>"

text \<open>A lease is the number of bytes it stands for.\<close>

definition ledger_try_reserve :: "image_ledger \<Rightarrow> u64 \<Rightarrow> image_ledger \<times> (rstr + u64)" where
  "ledger_try_reserve l bytes =
     (case checked_add (il_physical l) bytes of
        None \<Rightarrow> (l, Inl (lit ''decoded image byte accounting overflow''))
      | Some requested \<Rightarrow>
          if il_max l < requested then (l, Inl (lit ''aggregate decoded image budget exceeded''))
          else (l\<lparr>il_physical := requested, il_peak := max (il_peak l) requested\<rparr>, Inr bytes))"

definition ledger_drop_lease :: "image_ledger \<Rightarrow> u64 \<Rightarrow> image_ledger" where
  "ledger_drop_lease l bytes = l\<lparr>il_physical := sat_sub (il_physical l) bytes\<rparr>"

definition record_allocation :: "image_ledger \<Rightarrow> image_ledger" where
  "record_allocation l = l\<lparr>il_allocations := il_allocations l + 1\<rparr>"

definition record_reuse :: "image_ledger \<Rightarrow> image_ledger" where
  "record_reuse l = l\<lparr>il_reuses := il_reuses l + 1\<rparr>"

definition record_materialization_copy :: "image_ledger \<Rightarrow> u64 \<Rightarrow> image_ledger" where
  "record_materialization_copy l bytes = l\<lparr>il_materialized := il_materialized l + bytes\<rparr>"

definition record_reference_copy :: "image_ledger \<Rightarrow> u64 \<Rightarrow> image_ledger" where
  "record_reference_copy l bytes = l\<lparr>il_referenced := il_referenced l + bytes\<rparr>"

definition record_invalidation :: "image_ledger \<Rightarrow> image_ledger" where
  "record_invalidation l = l\<lparr>il_invalidations := il_invalidations l + 1\<rparr>"

definition add_owner :: "image_ledger \<Rightarrow> nat \<Rightarrow> image_ledger" where
  "add_owner l owner =
     (if owner < length (il_owners l) then l\<lparr>il_owners := (il_owners l)[owner := il_owners l ! owner + 1]\<rparr> else l)"

definition remove_owner :: "image_ledger \<Rightarrow> nat \<Rightarrow> image_ledger" where
  "remove_owner l owner =
     (if owner < length (il_owners l) then l\<lparr>il_owners := (il_owners l)[owner := sat_sub (il_owners l ! owner) 1]\<rparr> else l)"

record ledger_snapshot_data =
  ls_max :: u64
  ls_physical :: u64
  ls_peak :: u64
  ls_allocations :: u64
  ls_reuses :: u64
  ls_materialized :: u64
  ls_referenced :: u64
  ls_invalidations :: u64
  ls_forward_owners :: u64
  ls_cache_owners :: u64
  ls_upload_owners :: u64
  ls_readonly_owners :: u64

definition ledger_snapshot :: "image_ledger \<Rightarrow> ledger_snapshot_data" where
  "ledger_snapshot l = \<lparr>ls_max = il_max l, ls_physical = il_physical l, ls_peak = il_peak l,
     ls_allocations = il_allocations l, ls_reuses = il_reuses l, ls_materialized = il_materialized l,
     ls_referenced = il_referenced l, ls_invalidations = il_invalidations l, ls_forward_owners = il_owners l ! 0,
     ls_cache_owners = il_owners l ! 1, ls_upload_owners = il_owners l ! 2, ls_readonly_owners = il_owners l ! 3\<rparr>"

section \<open>The policy\<close>

record media_policy =
  mp_mode :: u8
  mp_physical :: "u64 option"
  mp_budget :: u64
  mp_reserved :: u64
  mp_ledger :: image_ledger

definition policy_from_physical_memory :: "safety_mode \<Rightarrow> u64 option \<Rightarrow> media_policy" where
  "policy_from_physical_memory mode physical =
     (let budget = (case physical of Some m \<Rightarrow> planning_budget_for_physical_memory m | None \<Rightarrow> 0)
      in \<lparr>mp_mode = mode_as_u8 mode, mp_physical = physical, mp_budget = budget, mp_reserved = 0,
          mp_ledger = ledger_new (max budget DECODED_IMAGE_LEDGER_FLOOR_BYTES)\<rparr>)"

definition policy_mode :: "media_policy \<Rightarrow> safety_mode" where
  "policy_mode p = mode_from_u8 (mp_mode p)"

definition policy_set_mode :: "media_policy \<Rightarrow> safety_mode \<Rightarrow> media_policy \<times> (limit_error + unit)" where
  "policy_set_mode p mode =
     (if mode = Expert \<and> mp_budget p = 0 then (p, Inl (limit_error_new MemoryBudgetUnavailable 0 0))
      else (p\<lparr>mp_mode := mode_as_u8 mode\<rparr>, Inr ()))"

definition reverse_cache_bytes_per_decoder :: "media_policy \<Rightarrow> u64" where
  "reverse_cache_bytes_per_decoder p = pb_reverse_per_decoder (for_planning_budget (mp_budget p))"

record safety_snapshot =
  sn_mode :: safety_mode
  sn_physical :: "u64 option"
  sn_budget :: u64
  sn_reserved :: u64
  sn_available :: u64
  sn_edge :: "u32 option"
  sn_buffer :: "u64 option"
  sn_vram :: bool

definition policy_snapshot :: "media_policy \<Rightarrow> device_limits \<Rightarrow> safety_snapshot" where
  "policy_snapshot p limits = \<lparr>sn_mode = policy_mode p, sn_physical = mp_physical p, sn_budget = mp_budget p,
     sn_reserved = mp_reserved p, sn_available = sat_sub (mp_budget p) (mp_reserved p), sn_edge = dl_edge limits,
     sn_buffer = dl_buffer limits, sn_vram = PORTABLE_VRAM_BUDGET_AVAILABLE\<rparr>"

definition policy_plan ::
  "media_policy \<Rightarrow> media_source_kind \<Rightarrow> u32 \<Rightarrow> u32 \<Rightarrow> device_limits \<Rightarrow> limit_error + allocation_plan" where
  "policy_plan p kind w h limits = validate_dimensions (policy_mode p) kind w h limits (mp_budget p)"

text \<open>A reservation holds a reference to the policy only if it reserved something.\<close>

record media_reservation =
  mr_held :: bool
  mr_bytes :: u64
  mr_plan :: allocation_plan

definition policy_reserve :: "media_policy \<Rightarrow> allocation_plan \<Rightarrow> media_policy \<times> (limit_error + media_reservation)" where
  "policy_reserve p plan =
     (let bytes = (if pl_expert plan then pl_working_set plan else 0) in
      if bytes = 0 then (p, Inr \<lparr>mr_held = False, mr_bytes = 0, mr_plan = plan\<rparr>)
      else case checked_add (mp_reserved p) bytes of
        None \<Rightarrow> (p, Inl (limit_error_new LrArithmeticOverflow (pl_width plan) (pl_height plan)))
      | Some requested \<Rightarrow>
          if mp_budget p < requested
          then (p, Inl (limit_error_new AggregateMemoryBudget (pl_width plan) (pl_height plan)))
          else (p\<lparr>mp_reserved := requested\<rparr>, Inr \<lparr>mr_held = True, mr_bytes = bytes, mr_plan = plan\<rparr>))"

definition reserve_source ::
  "media_policy \<Rightarrow> media_source_kind \<Rightarrow> u32 \<Rightarrow> u32 \<Rightarrow> device_limits \<Rightarrow> media_policy \<times> (limit_error + media_reservation)" where
  "reserve_source p kind w h limits =
     (case policy_plan p kind w h limits of
        Inl e \<Rightarrow> (p, Inl e)
      | Inr plan \<Rightarrow> policy_reserve p plan)"

definition drop_reservation :: "media_policy \<Rightarrow> media_reservation \<Rightarrow> media_policy" where
  "drop_reservation p r = (if mr_held r then p\<lparr>mp_reserved := sat_sub (mp_reserved p) (mr_bytes r)\<rparr> else p)"

section \<open>Workers on one policy\<close>

text \<open>The policy with the reservations and leases that its workers hold; a worker can only give back what is held.
  \<open>reserve_source\<close> reads the mode before it takes the lock, so the mode of \<open>PsReserve\<close> is the one its worker read, at
  whatever time.\<close>

record policy_world =
  pw_policy :: media_policy
  pw_held :: "media_reservation list"
  pw_leases :: "u64 list"

datatype policy_action =
    PsSetMode safety_mode
  | PsReserve safety_mode media_source_kind u32 u32 device_limits
  | PsDrop nat
  | PsLease u64
  | PsDropLease nat
  | PsAllocation
  | PsReuse
  | PsMaterialized u64
  | PsReferenced u64
  | PsInvalidation
  | PsAddOwner nat
  | PsRemoveOwner nat

abbreviation on_ledger :: "(image_ledger \<Rightarrow> image_ledger) \<Rightarrow> policy_world \<Rightarrow> policy_world" where
  "on_ledger f w \<equiv> w\<lparr>pw_policy := (pw_policy w)\<lparr>mp_ledger := f (mp_ledger (pw_policy w))\<rparr>\<rparr>"

fun policy_step :: "policy_world \<Rightarrow> policy_action \<Rightarrow> policy_world" where
  "policy_step w (PsSetMode mode) = w\<lparr>pw_policy := fst (policy_set_mode (pw_policy w) mode)\<rparr>"
| "policy_step w (PsReserve mode kind width height limits) =
     (case validate_dimensions mode kind width height limits (mp_budget (pw_policy w)) of
        Inl e \<Rightarrow> w
      | Inr plan \<Rightarrow>
          (case policy_reserve (pw_policy w) plan of
             (p, Inl e) \<Rightarrow> w\<lparr>pw_policy := p\<rparr>
           | (p, Inr r) \<Rightarrow> w\<lparr>pw_policy := p, pw_held := r # pw_held w\<rparr>))"
| "policy_step w (PsDrop i) =
     (if i < length (pw_held w)
      then w\<lparr>pw_policy := drop_reservation (pw_policy w) (pw_held w ! i), pw_held := vec_remove i (pw_held w)\<rparr> else w)"
| "policy_step w (PsLease bytes) =
     (case ledger_try_reserve (mp_ledger (pw_policy w)) bytes of
        (l, Inl e) \<Rightarrow> on_ledger (\<lambda>old. l) w
      | (l, Inr lease) \<Rightarrow> (on_ledger (\<lambda>old. l) w)\<lparr>pw_leases := lease # pw_leases w\<rparr>)"
| "policy_step w (PsDropLease i) =
     (if i < length (pw_leases w)
      then (on_ledger (\<lambda>l. ledger_drop_lease l (pw_leases w ! i)) w)\<lparr>pw_leases := vec_remove i (pw_leases w)\<rparr> else w)"
| "policy_step w PsAllocation = on_ledger record_allocation w"
| "policy_step w PsReuse = on_ledger record_reuse w"
| "policy_step w (PsMaterialized bytes) = on_ledger (\<lambda>l. record_materialization_copy l bytes) w"
| "policy_step w (PsReferenced bytes) = on_ledger (\<lambda>l. record_reference_copy l bytes) w"
| "policy_step w PsInvalidation = on_ledger record_invalidation w"
| "policy_step w (PsAddOwner owner) = on_ledger (\<lambda>l. add_owner l owner) w"
| "policy_step w (PsRemoveOwner owner) = on_ledger (\<lambda>l. remove_owner l owner) w"

definition policy_start :: "safety_mode \<Rightarrow> u64 option \<Rightarrow> policy_world" where
  "policy_start mode physical = \<lparr>pw_policy = policy_from_physical_memory mode physical, pw_held = [], pw_leases = []\<rparr>"

end
