(* ===== verification/Media_Safety_Laws.thy ===== *)
theory Media_Safety_Laws
  imports Media_Safety
begin

text \<open>
  Laws of the media budgets: what is reserved is what is held, whatever the workers do and in whatever order
  (an interpretation of \<open>invariant_machine\<close> on \<open>policy_step\<close>); the admission of a source in plain numbers, none
  of its checked products overflowing; the shares of the performance budget.
\<close>

section \<open>What is reserved is what is held\<close>

definition held_bytes :: "media_reservation list \<Rightarrow> nat" where
  "held_bytes rs = (\<Sum>r\<leftarrow>rs. unat (mr_bytes r))"

definition policy_ok :: "policy_world \<Rightarrow> bool" where
  "policy_ok w \<longleftrightarrow>
     unat (mp_reserved (pw_policy w)) = held_bytes (pw_held w) \<and>
     mp_reserved (pw_policy w) \<le> mp_budget (pw_policy w) \<and>
     (\<forall>r \<in> set (pw_held w). \<not> mr_held r \<longrightarrow> mr_bytes r = 0) \<and>
     unat (il_physical (mp_ledger (pw_policy w))) = sum_list (map unat (pw_leases w)) \<and>
     il_physical (mp_ledger (pw_policy w)) \<le> il_peak (mp_ledger (pw_policy w)) \<and>
     il_peak (mp_ledger (pw_policy w)) \<le> il_max (mp_ledger (pw_policy w))"

lemma sum_list_remove:
  fixes f :: "'a \<Rightarrow> nat"
  assumes "i < length xs"
  shows "sum_list (map f (vec_remove i xs)) = sum_list (map f xs) - f (xs ! i)" "f (xs ! i) \<le> sum_list (map f xs)"
proof -
  have "sum_mset (image_mset f (mset xs)) = f (xs ! i) + sum_mset (image_mset f (mset (vec_remove i xs)))"
    using mset_vec_remove [OF assms] by (metis image_mset_add_mset sum_mset.add_mset)
  then have "sum_list (map f xs) = f (xs ! i) + sum_list (map f (vec_remove i xs))" by (simp flip: sum_mset_sum_list)
  then show "sum_list (map f (vec_remove i xs)) = sum_list (map f xs) - f (xs ! i)" "f (xs ! i) \<le> sum_list (map f xs)" by simp_all
qed

lemma policy_reserve_cases:
  assumes "policy_reserve p plan = (p', res)"
  shows "case res of
      Inl e \<Rightarrow> p' = p
    | Inr r \<Rightarrow> p' = p\<lparr>mp_reserved := mp_reserved p'\<rparr> \<and> mp_reserved p' \<le> max (mp_reserved p) (mp_budget p) \<and>
        unat (mp_reserved p') = unat (mr_bytes r) + unat (mp_reserved p) \<and> (\<not> mr_held r \<longrightarrow> mr_bytes r = 0) \<and>
        (mr_held r \<longrightarrow> mp_reserved p' \<le> mp_budget p)"
  using assms
  by (auto simp: policy_reserve_def Let_def unat_checked_add not_less max_def split: if_splits option.splits)

lemma policy_reserve_ok:
  assumes "policy_ok w" "policy_reserve (pw_policy w) plan = (p', Inr r)"
  shows "policy_ok (w\<lparr>pw_policy := p', pw_held := r # pw_held w\<rparr>)"
proof -
  from policy_reserve_cases [OF assms(2)] have p: "p' = (pw_policy w)\<lparr>mp_reserved := mp_reserved p'\<rparr>"
    "unat (mp_reserved p') = unat (mr_bytes r) + unat (mp_reserved (pw_policy w))"
    "\<not> mr_held r \<longrightarrow> mr_bytes r = 0" "mp_reserved p' \<le> max (mp_reserved (pw_policy w)) (mp_budget (pw_policy w))" by simp_all
  have ledger: "mp_ledger p' = mp_ledger (pw_policy w)" "mp_budget p' = mp_budget (pw_policy w)"
    by (subst p(1); simp)+
  have "mp_reserved p' \<le> mp_budget (pw_policy w)" using p(4) assms(1) by (simp add: policy_ok_def max_def split: if_splits)
  then show ?thesis using assms(1) p(2,3) by (auto simp: policy_ok_def ledger held_bytes_def)
qed

lemma drop_reservation_ok:
  assumes "policy_ok w" "i < length (pw_held w)"
  shows "policy_ok (w\<lparr>pw_policy := drop_reservation (pw_policy w) (pw_held w ! i), pw_held := vec_remove i (pw_held w)\<rparr>)"
proof -
  let ?r = "pw_held w ! i" and ?p = "drop_reservation (pw_policy w) (pw_held w ! i)"
  have bytes: "\<not> mr_held ?r \<Longrightarrow> mr_bytes ?r = 0" using assms nth_mem by (auto simp: policy_ok_def)
  have fields: "mp_ledger ?p = mp_ledger (pw_policy w)" "mp_budget ?p = mp_budget (pw_policy w)"
    by (simp_all add: drop_reservation_def)
  have r: "unat (mp_reserved ?p) = unat (mp_reserved (pw_policy w)) - unat (mr_bytes ?r)"
    using bytes by (auto simp: drop_reservation_def unat_sat_sub)
  then have "unat (mp_reserved ?p) \<le> unat (mp_budget (pw_policy w))" using assms(1) unfolding policy_ok_def word_le_nat_alt by linarith
  moreover have "unat (mp_reserved ?p) = held_bytes (vec_remove i (pw_held w))"
    using r assms(1) sum_list_remove(1) [OF assms(2), of "\<lambda>r. unat (mr_bytes r)"] by (simp add: policy_ok_def held_bytes_def)
  ultimately show ?thesis
    using assms(1) set_vec_remove_subset [of i "pw_held w"] by (auto simp: policy_ok_def fields word_le_nat_alt)
qed

lemma ledger_try_reserve_ok:
  assumes "policy_ok w" "ledger_try_reserve (mp_ledger (pw_policy w)) bytes = (l, res)"
  shows "policy_ok (case res of Inl e \<Rightarrow> on_ledger (\<lambda>old. l) w | Inr lease \<Rightarrow> (on_ledger (\<lambda>old. l) w)\<lparr>pw_leases := lease # pw_leases w\<rparr>)"
  using assms
  by (auto simp: ledger_try_reserve_def policy_ok_def unat_checked_add max_def split: option.splits if_splits)

lemma ledger_drop_ok:
  assumes "policy_ok w" "i < length (pw_leases w)"
  shows "policy_ok ((on_ledger (\<lambda>l. ledger_drop_lease l (pw_leases w ! i)) w)\<lparr>pw_leases := vec_remove i (pw_leases w)\<rparr>)"
proof -
  have "unat (sat_sub (il_physical (mp_ledger (pw_policy w))) (pw_leases w ! i)) = sum_list (map unat (vec_remove i (pw_leases w)))"
    using assms(1) sum_list_remove(1) [OF assms(2), of unat] by (simp add: policy_ok_def unat_sat_sub)
  moreover have "sat_sub (il_physical (mp_ledger (pw_policy w))) (pw_leases w ! i) \<le> il_physical (mp_ledger (pw_policy w))"
    by (simp add: word_le_nat_alt unat_sat_sub)
  ultimately show ?thesis using assms(1) by (auto simp: policy_ok_def ledger_drop_lease_def)
qed

interpretation policy_machine: invariant_machine policy_step policy_ok
proof
  fix w a
  assume ok: "policy_ok w"
  show "policy_ok (policy_step w a)"
  proof (cases a)
    case (PsReserve mode kind width height limits)
    show ?thesis
    proof (cases "validate_dimensions mode kind width height limits (mp_budget (pw_policy w))")
      case (Inr plan)
      obtain p res where "policy_reserve (pw_policy w) plan = (p, res)" by force
      then show ?thesis using Inr PsReserve ok policy_reserve_ok [OF ok, of plan p] policy_reserve_cases [of "pw_policy w" plan p res]
        by (cases res) auto
    qed (use ok PsReserve in simp)
  next
    case (PsLease bytes)
    obtain l res where "ledger_try_reserve (mp_ledger (pw_policy w)) bytes = (l, res)" by force
    then show ?thesis using ledger_try_reserve_ok [OF ok, of bytes l res] PsLease by (cases res) simp_all
  next
    case (PsDrop i)
    then show ?thesis using ok drop_reservation_ok by simp
  next
    case (PsDropLease i)
    then show ?thesis using ok ledger_drop_ok by simp
  qed (use ok in \<open>auto simp: policy_ok_def policy_set_mode_def record_allocation_def record_reuse_def
      record_materialization_copy_def record_reference_copy_def record_invalidation_def add_owner_def remove_owner_def\<close>)
qed

lemma policy_start_ok: "policy_ok (policy_start mode physical)"
  by (simp add: policy_ok_def policy_start_def policy_from_physical_memory_def Let_def ledger_new_def held_bytes_def)

lemma policy_step_limits:
  "mp_budget (pw_policy (policy_step w a)) = mp_budget (pw_policy w) \<and>
   il_max (mp_ledger (pw_policy (policy_step w a))) = il_max (mp_ledger (pw_policy w))"
  by (cases a) (auto simp: policy_set_mode_def policy_reserve_def drop_reservation_def ledger_try_reserve_def ledger_drop_lease_def
      record_allocation_def record_reuse_def record_materialization_copy_def record_reference_copy_def record_invalidation_def
      add_owner_def remove_owner_def Let_def split: sum.splits prod.splits option.splits if_splits)

lemma policy_run_limits:
  "mp_budget (pw_policy (foldl policy_step w as)) = mp_budget (pw_policy w) \<and>
   il_max (mp_ledger (pw_policy (foldl policy_step w as))) = il_max (mp_ledger (pw_policy w))"
  by (induction as arbitrary: w) (simp_all add: policy_step_limits)

text \<open>C13. What is reserved is what is held: whatever the workers plan, reserve, decode and drop, in any order and also
  across changes of the mode, the reserved total is the sum of the reservations still held and never exceeds an eighth of
  physical memory, and the bytes of the decoded images are the sum of their leases, within the ledger's limit.\<close>

theorem media_reservations_balanced:
  "let w = foldl policy_step (policy_start mode physical) actions;
       budget = (case physical of None \<Rightarrow> 0 | Some m \<Rightarrow> min (unat m div 8) (2 * 1024 ^ 3))
   in unat (mp_reserved (pw_policy w)) = held_bytes (pw_held w) \<and> held_bytes (pw_held w) \<le> budget \<and>
      unat (il_physical (mp_ledger (pw_policy w))) = sum_list (map unat (pw_leases w)) \<and>
      sum_list (map unat (pw_leases w)) \<le> max budget (256 * 1024 ^ 2)"
proof -
  let ?w = "foldl policy_step (policy_start mode physical) actions"
  let ?budget = "case physical of None \<Rightarrow> 0 | Some m \<Rightarrow> planning_budget_for_physical_memory m"
  have ok: "policy_ok ?w" by (rule policy_machine.inv_run) (rule policy_start_ok)
  have unat: "unat (planning_budget_for_physical_memory m) = min (unat m div 8) (2 * 1024 ^ 3)" for m
    by (simp add: planning_budget_for_physical_memory_def EXPERT_MEMORY_FRACTION_DIVISOR_def EXPERT_MEMORY_BUDGET_HARD_MAX_def
        Let_def unat_div word_less_nat_alt min_def)
  have limits: "mp_budget (pw_policy ?w) = ?budget" "il_max (mp_ledger (pw_policy ?w)) = max ?budget DECODED_IMAGE_LEDGER_FLOOR_BYTES"
    using policy_run_limits [of "policy_start mode physical" actions]
    by (simp_all add: policy_start_def policy_from_physical_memory_def Let_def ledger_new_def split: option.splits)
  have "unat (mp_reserved (pw_policy ?w)) \<le> unat ?budget" using ok limits by (simp add: policy_ok_def word_le_nat_alt)
  moreover have "il_physical (mp_ledger (pw_policy ?w)) \<le> il_max (mp_ledger (pw_policy ?w))"
    using ok by (auto simp: policy_ok_def)
  then have "unat (il_physical (mp_ledger (pw_policy ?w))) \<le> unat (max ?budget DECODED_IMAGE_LEDGER_FLOOR_BYTES)"
    by (simp add: word_le_nat_alt limits)
  moreover have "unat (max ?budget DECODED_IMAGE_LEDGER_FLOOR_BYTES) = max (unat ?budget) (256 * 1024 ^ 2)"
    by (simp add: max_def word_le_nat_alt DECODED_IMAGE_LEDGER_FLOOR_BYTES_def)
  ultimately show ?thesis using ok by (auto simp: policy_ok_def Let_def unat split: option.splits)
qed

section \<open>Admission\<close>

definition media_fits :: "safety_mode \<Rightarrow> media_source_kind \<Rightarrow> u32 \<Rightarrow> u32 \<Rightarrow> device_limits \<Rightarrow> u64 \<Rightarrow> bool" where
  "media_fits mode kind w h limits budget \<longleftrightarrow>
     0 < w \<and> 0 < h \<and> unat w \<le> 16384 \<and> unat h \<le> 16384 \<and>
     (\<forall>edge \<in> set_option (dl_edge limits). w \<le> edge \<and> h \<le> edge) \<and>
     (3840 * 2160 < unat w * unat h \<longrightarrow>
        mode = Expert \<and> unat w * unat h \<le> 8192 * 4320 \<and> dl_edge limits \<noteq> None \<and>
        (\<exists>buffer. dl_buffer limits = Some buffer \<and> unat w * unat h * 4 \<le> unat buffer) \<and>
        budget \<noteq> 0 \<and> unat w * unat h * 4 * unat (working_set_multiplier kind) \<le> unat budget)"

lemma multiplier_bound: "unat (working_set_multiplier kind) \<le> 6"
  by (cases kind) simp_all

lemma checked_mul_exact: "unat a * unat b = n \<Longrightarrow> n < 2 ^ 64 \<Longrightarrow> checked_mul a b = Some (a * b) \<and> unat (a * b :: u64) = n"
  by (auto simp: checked_mul_def unat_mult_lem [THEN iffD1])

lemma area_products:
  assumes "unat (w :: u32) \<le> 16384" "unat (h :: u32) \<le> 16384" "n = unat w * unat h"
  shows "checked_mul (ucast w :: u64) (ucast h) = Some (ucast w * ucast h)"
    "unat (ucast w * ucast h :: u64) = n"
    "checked_mul (ucast w * ucast h :: u64) 4 = Some (ucast w * ucast h * 4)"
    "unat (ucast w * ucast h * 4 :: u64) = n * 4"
    "checked_mul (ucast w * ucast h * 4 :: u64) (working_set_multiplier kind) = Some (ucast w * ucast h * 4 * working_set_multiplier kind)"
    "unat (ucast w * ucast h * 4 * working_set_multiplier kind) = n * 4 * unat (working_set_multiplier kind)"
proof -
  have n: "n \<le> 16384 * 16384" unfolding assms(3) using assms(1,2) by (rule mult_le_mono)
  have "n * 4 * unat (working_set_multiplier kind) \<le> 16384 * 16384 * 4 * 6"
    using n multiplier_bound by (intro mult_le_mono) simp_all
  then have big: "n * 4 * unat (working_set_multiplier kind) < 2 ^ 64" by simp
  have p: "checked_mul (ucast w :: u64) (ucast h) = Some (ucast w * ucast h) \<and> unat (ucast w * ucast h :: u64) = n"
    by (rule checked_mul_exact) (use n assms(3) in \<open>simp_all add: unat_ucast_up\<close>)
  then have q: "checked_mul (ucast w * ucast h :: u64) 4 = Some (ucast w * ucast h * 4) \<and> unat (ucast w * ucast h * 4 :: u64) = n * 4"
    by (intro checked_mul_exact) (use n in simp_all)
  then have "checked_mul (ucast w * ucast h * 4 :: u64) (working_set_multiplier kind) =
      Some (ucast w * ucast h * 4 * working_set_multiplier kind) \<and>
    unat (ucast w * ucast h * 4 * working_set_multiplier kind) = n * 4 * unat (working_set_multiplier kind)"
    by (intro checked_mul_exact) (use big in simp_all)
  with p q show "checked_mul (ucast w :: u64) (ucast h) = Some (ucast w * ucast h)"
    "unat (ucast w * ucast h :: u64) = n"
    "checked_mul (ucast w * ucast h :: u64) 4 = Some (ucast w * ucast h * 4)"
    "unat (ucast w * ucast h * 4 :: u64) = n * 4"
    "checked_mul (ucast w * ucast h * 4 :: u64) (working_set_multiplier kind) = Some (ucast w * ucast h * 4 * working_set_multiplier kind)"
    "unat (ucast w * ucast h * 4 * working_set_multiplier kind) = n * 4 * unat (working_set_multiplier kind)" by blast+
qed

text \<open>C14. Admission is exact: a source is admitted exactly when its dimensions fit the edge limits and, above
  3840 times 2160 pixels, the expert limits, the device's and the planning budget, compared as plain
  numbers; the plan then holds the exact products.  No source is refused for an arithmetic overflow.\<close>

theorem media_admission_exact:
  "case validate_dimensions mode kind w h limits budget of
     Inl e \<Rightarrow> \<not> media_fits mode kind w h limits budget \<and> me_reason e \<noteq> LrArithmeticOverflow
   | Inr p \<Rightarrow> media_fits mode kind w h limits budget \<and> unat (pl_pixels p) = unat w * unat h \<and>
       unat (pl_rgba p) = unat w * unat h * 4 \<and>
       unat (pl_working_set p) = unat w * unat h * 4 * unat (working_set_multiplier kind) \<and>
       (pl_expert p \<longleftrightarrow> 3840 * 2160 < unat w * unat h)"
proof (cases "w \<le> ABSOLUTE_MEDIA_MAX_EDGE \<and> h \<le> ABSOLUTE_MEDIA_MAX_EDGE")
  case True
  then have edges: "unat w \<le> 16384" "unat h \<le> 16384" by (simp_all add: ABSOLUTE_MEDIA_MAX_EDGE_def word_le_nat_alt)
  define n where n: "n = unat w * unat h"
  note area = area_products [OF edges n]
  have cmp: "SAFE_MEDIA_MAX_PIXELS < ucast w * ucast h \<longleftrightarrow> 3840 * 2160 < n"
    "EXPERT_MEDIA_MAX_PIXELS < ucast w * ucast h \<longleftrightarrow> 8192 * 4320 < n"
    "EXPERT_MEDIA_MAX_RGBA_BYTES < ucast w * ucast h * 4 \<longleftrightarrow> 8192 * 4320 < n"
    "budget < ucast w * ucast h * 4 * working_set_multiplier kind \<longleftrightarrow>
       unat budget < n * 4 * unat (working_set_multiplier kind)"
    unfolding word_less_nat_alt area
    by (simp_all add: SAFE_MEDIA_MAX_PIXELS_def EXPERT_MEDIA_MAX_PIXELS_def EXPERT_MEDIA_MAX_RGBA_BYTES_def)
  have buffer: "limit < ucast w * ucast h * 4 \<longleftrightarrow> unat limit < n * 4" for limit :: u64
    by (simp add: word_less_nat_alt area)
  show ?thesis
  proof (cases "3840 * 2160 < n")
    case False
    then show ?thesis unfolding media_fits_def n [symmetric] using True edges
      by (auto simp: validate_dimensions_def Let_def area cmp limit_error_new_def word_neq_0_conv not_less
          split: option.split)
  next
    case expert: True
    show ?thesis
    proof (cases "mode = Expert \<and> (\<exists>e. dl_edge limits = Some e) \<and> (\<exists>b. dl_buffer limits = Some b)")
      case False
      then show ?thesis unfolding media_fits_def n [symmetric] using True edges expert
        by (cases mode; cases "dl_edge limits"; cases "dl_buffer limits")
          (simp_all add: validate_dimensions_def Let_def area cmp limit_error_new_def)
    next
      case given: True
      then obtain e b where "dl_edge limits = Some e" "dl_buffer limits = Some b" "mode = Expert" by blast
      then show ?thesis unfolding media_fits_def n [symmetric] using True edges expert
        by (simp add: validate_dimensions_def Let_def area cmp buffer [of b] limit_error_new_def word_neq_0_conv not_less)
          (auto dest: leD)
    qed
  qed
next
  case False
  then have edge: "ABSOLUTE_MEDIA_MAX_EDGE < w \<or> ABSOLUTE_MEDIA_MAX_EDGE < h" by auto
  then have "\<not> (unat w \<le> 16384 \<and> unat h \<le> 16384)" by (simp add: ABSOLUTE_MEDIA_MAX_EDGE_def word_less_nat_alt not_le)
  then have "\<not> media_fits mode kind w h limits budget" unfolding media_fits_def by blast
  with edge show ?thesis by (simp add: validate_dimensions_def limit_error_new_def)
qed

text \<open>The shares of the performance budget fit the planning budget: the preload and the reverse caches together never
  exceed it, a decoder's cache never exceeds the aggregate of the caches, and an admitted total is the exact sum
  within its share.\<close>

theorem performance_shares_fit:
  "unat (pb_preload (for_planning_budget budget)) + unat (pb_reverse (for_planning_budget budget)) \<le> unat budget \<and>
   pb_reverse_per_decoder (for_planning_budget budget) \<le> pb_reverse (for_planning_budget budget) \<and>
   (case admit_preload_bytes (for_planning_budget budget) reserved requested of
      Inl e \<Rightarrow> unat (pb_preload (for_planning_budget budget)) < unat reserved + unat requested
    | Inr acc \<Rightarrow> unat acc = unat reserved + unat requested \<and> unat acc + unat (pb_reverse (for_planning_budget budget)) \<le> unat budget)"
proof -
  let ?b = "for_planning_budget budget"
  have sum: "unat (pb_preload ?b) + unat (pb_reverse ?b) \<le> unat budget"
    by (simp add: for_planning_budget_def Let_def min_def word_le_nat_alt unat_sat_sub unat_div not_le; linarith)
  moreover have "pb_reverse_per_decoder ?b \<le> pb_reverse ?b"
    by (simp only: for_planning_budget_def Let_def performance_budget_default_def performance_budget.simps min.cobounded1)
  moreover have "unat (pb_preload ?b) < 2 ^ 64" using unsigned_less [of "pb_preload ?b"] by simp
  ultimately show ?thesis
    by (auto simp: admit_preload_bytes_def checked_add_def ok_or_def unat_word_ariths word_le_nat_alt not_le not_less split: option.split)
qed

end
