(* ===== verification/Performance_Take.thy ===== *)
theory Performance_Take
  imports Byte_Codec Rust_Float List_Edit
begin

text \<open>
  Performance takes (\<open>src/src/performance_track.rs\<close>): the closed vocabulary of control addresses with their flat
  document shape, the value laws with quantisation and its inverse, the bounded take with its recorder,
  canonical bytes and replay cursors, and the portable document.  \<open>i64\<close> is a 64-bit word read with \<open>sint\<close>.
  SHA-256 is the argument \<open>sha\<close>, serde's printer and parser are \<open>print\<close> and \<open>parse\<close>.  Not modelled: Display texts and the
  \<open>f64\<close> clock.
\<close>

section \<open>Sums of f32, and integers\<close>

definition f32_signed_units :: "f32 \<Rightarrow> int" where
  "f32_signed_units x = (if f32_sign x then - int (f32_units (f32_magnitude x)) else int (f32_units (f32_magnitude x)))"

definition f32_add :: "f32 \<Rightarrow> f32 \<Rightarrow> f32" where
  "f32_add x y =
     (if f32_is_nan x \<or> f32_is_nan y then F32_NAN
      else if f32_magnitude x = f32_inf_bits
      then (if f32_magnitude y = f32_inf_bits \<and> f32_sign x \<noteq> f32_sign y then F32_NAN else x)
      else if f32_magnitude y = f32_inf_bits then y
      else let i = f32_signed_units x + f32_signed_units y in
        if i = 0 then f32_pack (f32_sign x \<and> f32_sign y) 0
        else f32_pack (i < 0) (f32_round (nat \<bar>i\<bar>) 1))"

definition f32_sub :: "f32 \<Rightarrow> f32 \<Rightarrow> f32" where
  "f32_sub x y = f32_add x (f32_pack (\<not> f32_sign y) (f32_magnitude y))"

text \<open>\<open>x.round() as u16\<close>.\<close>

definition f32_round_as_u16 :: "f32 \<Rightarrow> u16" where
  "f32_round_as_u16 x =
     (if f32_is_nan x \<or> f32_sign x then 0
      else if f32_magnitude x = f32_inf_bits then 65535
      else of_nat (min 65535 ((2 * f32_units (f32_magnitude x) + 2 ^ 149) div 2 ^ 150)))"

type_synonym i64 = "64 word"

definition i64_sat :: "int \<Rightarrow> i64" where
  "i64_sat i = word_of_int (max (- (2 ^ 63)) (min (2 ^ 63 - 1) i))"

definition i64_clamp :: "i64 \<Rightarrow> i64 \<Rightarrow> i64 \<Rightarrow> i64" where
  "i64_clamp lo hi x = (if sint x < sint lo then lo else if sint hi < sint x then hi else x)"

definition i64_as_u16 :: "i64 \<Rightarrow> u16 option" where
  "i64_as_u16 i = (if 0 \<le> sint i \<and> sint i < 65536 then Some (word_of_int (sint i)) else None)"

section \<open>Limits\<close>

definition PERFORMANCE_ALGORITHM_VERSION :: u16 where "PERFORMANCE_ALGORITHM_VERSION = 1"
definition MAX_PERFORMANCE_EVENTS :: nat where "MAX_PERFORMANCE_EVENTS = 16384"
definition MAX_PERFORMANCE_ADDRESSES :: nat where "MAX_PERFORMANCE_ADDRESSES = 256"
definition MAX_PERFORMANCE_SERIALIZED_BYTES :: nat where "MAX_PERFORMANCE_SERIALIZED_BYTES = 512 * 1024"
definition MAX_PERFORMANCE_PARAM_BYTES :: nat where "MAX_PERFORMANCE_PARAM_BYTES = 64"
definition MAX_PERFORMANCE_VOCAB_TOKENS :: nat where "MAX_PERFORMANCE_VOCAB_TOKENS = 64"
definition PERFORMANCE_CHECKSUM_DOMAIN :: bytes where
  "PERFORMANCE_CHECKSUM_DOMAIN = utf8 (lit ''collide-o-scope/performance-take/v1'') @ [0]"
definition PERFORMANCE_FLAG_TRUNCATED :: u16 where "PERFORMANCE_FLAG_TRUNCATED = 1"
definition PERFORMANCE_FLAG_INCOMPLETE :: u16 where "PERFORMANCE_FLAG_INCOMPLETE = 2"
definition PERFORMANCE_Q16_SCALE :: f32 where "PERFORMANCE_Q16_SCALE = 0x477FFF00"

section \<open>Controls\<close>

datatype performance_control =
    PcMaster rstr
  | PcMasterTransform rstr
  | PcLayerParam u32 rstr
  | PcLayerEffect u32 rstr
  | PcLayerTransform u32 rstr
  | PcLayerVisible u32
  | PcLayerPattern u32 rstr
  | PcNtsc rstr
  | PcTemporal rstr
  | PcMotionMaster rstr
  | PcMotionLayer u32 rstr
  | PcBusCrossfade
  | PcBusMix rstr
  | PcMorphPosition
  | PcGestureCanvas rstr
  | PcRackNodeMaster u64 rstr rstr
  | PcRackNodeLayer u32 u64 rstr rstr
  | PcRackNodeGroup u64 u64 rstr rstr
  | PcGroupParam u64 rstr
  | PcGroupMatteParam u64 rstr
  | PcLayerText u32 rstr
  | PcMorphLaw
  | PcMorphGlide u16
  | PcMorphCapture
  | PcRouting u32 rstr

datatype performance_error =
    PeTooManyAddresses nat
  | PeTooManyEvents nat
  | PeNonMonotonicTick u32 u32
  | PeAddressOutOfRange u16 nat
  | PeInvalidValue u16
  | PeInvalidLaw
  | PeUnrepresentableEdit
  | PeMalformedAddress rstr
  | PeDuplicateAddress rstr
  | PeParamBytes nat
  | PeNodeKindBytes nat
  | PeVocabTokens nat
  | PeTokenBytes nat
  | PeDuplicateToken rstr
  | PeEventCount u32 nat
  | PeLengthBeforeLastEvent u32 u32
  | PeUnsupportedVersion u16
  | PeChecksumMismatch rstr rstr
  | PeDocumentBytes nat

fun control_code :: "performance_control \<Rightarrow> u8" where
  "control_code (PcMaster p) = 0" | "control_code (PcMasterTransform p) = 1"
| "control_code (PcLayerParam l p) = 2" | "control_code (PcLayerEffect l p) = 3"
| "control_code (PcLayerTransform l p) = 4" | "control_code (PcLayerVisible l) = 5"
| "control_code (PcLayerPattern l p) = 6" | "control_code (PcNtsc p) = 7"
| "control_code (PcTemporal p) = 8" | "control_code (PcMotionMaster p) = 9"
| "control_code (PcMotionLayer l p) = 10" | "control_code PcBusCrossfade = 11"
| "control_code (PcBusMix p) = 12" | "control_code PcMorphPosition = 13"
| "control_code (PcGestureCanvas p) = 14" | "control_code (PcRackNodeMaster n k p) = 15"
| "control_code (PcRackNodeLayer l n k p) = 16" | "control_code (PcRackNodeGroup g n k p) = 17"
| "control_code (PcGroupParam g p) = 18" | "control_code (PcGroupMatteParam g p) = 19"
| "control_code (PcLayerText l p) = 20" | "control_code PcMorphLaw = 21"
| "control_code (PcMorphGlide q) = 22" | "control_code PcMorphCapture = 23"
| "control_code (PcRouting r p) = 24"

fun kind_token :: "performance_control \<Rightarrow> rstr" where
  "kind_token (PcMaster p) = lit ''master''" | "kind_token (PcMasterTransform p) = lit ''master_transform''"
| "kind_token (PcLayerParam l p) = lit ''layer_param''" | "kind_token (PcLayerEffect l p) = lit ''layer_effect''"
| "kind_token (PcLayerTransform l p) = lit ''layer_transform''" | "kind_token (PcLayerVisible l) = lit ''layer_visible''"
| "kind_token (PcLayerPattern l p) = lit ''layer_pattern''" | "kind_token (PcNtsc p) = lit ''ntsc''"
| "kind_token (PcTemporal p) = lit ''temporal''" | "kind_token (PcMotionMaster p) = lit ''motion_master''"
| "kind_token (PcMotionLayer l p) = lit ''motion_layer''" | "kind_token PcBusCrossfade = lit ''bus_crossfade''"
| "kind_token (PcBusMix p) = lit ''bus_mix''" | "kind_token PcMorphPosition = lit ''morph_position''"
| "kind_token (PcGestureCanvas p) = lit ''gesture_canvas''" | "kind_token (PcRackNodeMaster n k p) = lit ''rack_node_master''"
| "kind_token (PcRackNodeLayer l n k p) = lit ''rack_node_layer''" | "kind_token (PcRackNodeGroup g n k p) = lit ''rack_node_group''"
| "kind_token (PcGroupParam g p) = lit ''group_param''" | "kind_token (PcGroupMatteParam g p) = lit ''group_matte_param''"
| "kind_token (PcLayerText l p) = lit ''layer_text''" | "kind_token PcMorphLaw = lit ''morph_law''"
| "kind_token (PcMorphGlide q) = lit ''morph_glide''" | "kind_token PcMorphCapture = lit ''morph_capture''"
| "kind_token (PcRouting r p) = lit ''routing''"

fun control_layer :: "performance_control \<Rightarrow> u32 option" where
  "control_layer (PcLayerParam l p) = Some l" | "control_layer (PcLayerEffect l p) = Some l"
| "control_layer (PcLayerTransform l p) = Some l" | "control_layer (PcLayerVisible l) = Some l"
| "control_layer (PcLayerPattern l p) = Some l" | "control_layer (PcMotionLayer l p) = Some l"
| "control_layer (PcRackNodeLayer l n k p) = Some l" | "control_layer (PcLayerText l p) = Some l"
| "control_layer _ = None"

fun control_node :: "performance_control \<Rightarrow> u64 option" where
  "control_node (PcRackNodeMaster n k p) = Some n" | "control_node (PcRackNodeLayer l n k p) = Some n"
| "control_node (PcRackNodeGroup g n k p) = Some n" | "control_node _ = None"

fun control_group :: "performance_control \<Rightarrow> u64 option" where
  "control_group (PcRackNodeGroup g n k p) = Some g" | "control_group (PcGroupParam g p) = Some g"
| "control_group (PcGroupMatteParam g p) = Some g" | "control_group _ = None"

fun control_node_kind :: "performance_control \<Rightarrow> rstr option" where
  "control_node_kind (PcRackNodeMaster n k p) = Some k" | "control_node_kind (PcRackNodeLayer l n k p) = Some k"
| "control_node_kind (PcRackNodeGroup g n k p) = Some k" | "control_node_kind _ = None"

fun control_target_q16 :: "performance_control \<Rightarrow> u16 option" where
  "control_target_q16 (PcMorphGlide q) = Some q" | "control_target_q16 _ = None"

fun control_routing :: "performance_control \<Rightarrow> u32 option" where
  "control_routing (PcRouting r p) = Some r" | "control_routing _ = None"

fun control_param :: "performance_control \<Rightarrow> rstr option" where
  "control_param (PcMaster p) = Some p" | "control_param (PcMasterTransform p) = Some p"
| "control_param (PcLayerParam l p) = Some p" | "control_param (PcLayerEffect l p) = Some p"
| "control_param (PcLayerTransform l p) = Some p" | "control_param (PcLayerPattern l p) = Some p"
| "control_param (PcNtsc p) = Some p" | "control_param (PcTemporal p) = Some p"
| "control_param (PcMotionMaster p) = Some p" | "control_param (PcMotionLayer l p) = Some p"
| "control_param (PcBusMix p) = Some p" | "control_param (PcGestureCanvas p) = Some p"
| "control_param (PcRackNodeMaster n k p) = Some p" | "control_param (PcRackNodeLayer l n k p) = Some p"
| "control_param (PcRackNodeGroup g n k p) = Some p" | "control_param (PcGroupParam g p) = Some p"
| "control_param (PcGroupMatteParam g p) = Some p" | "control_param (PcLayerText l p) = Some p"
| "control_param (PcRouting r p) = Some p"
| "control_param _ = None"

definition needs_param :: "rstr \<Rightarrow> bool" where
  "needs_param kind \<longleftrightarrow> kind \<notin> set [lit ''layer_visible'', lit ''bus_crossfade'', lit ''morph_position'', lit ''morph_law'',
     lit ''morph_glide'', lit ''morph_capture'']"

definition needs_layer :: "rstr \<Rightarrow> bool" where
  "needs_layer kind \<longleftrightarrow> kind \<in> set [lit ''layer_param'', lit ''layer_effect'', lit ''layer_transform'', lit ''layer_visible'',
     lit ''layer_pattern'', lit ''motion_layer'', lit ''rack_node_layer'', lit ''layer_text'']"

definition needs_node :: "rstr \<Rightarrow> bool" where
  "needs_node kind \<longleftrightarrow> kind \<in> set [lit ''rack_node_master'', lit ''rack_node_layer'', lit ''rack_node_group'']"

definition needs_group :: "rstr \<Rightarrow> bool" where
  "needs_group kind \<longleftrightarrow> kind \<in> set [lit ''rack_node_group'', lit ''group_param'', lit ''group_matte_param'']"

definition needs_node_kind :: "rstr \<Rightarrow> bool" where
  "needs_node_kind kind \<longleftrightarrow> needs_node kind"

definition needs_target_q16 :: "rstr \<Rightarrow> bool" where
  "needs_target_q16 kind \<longleftrightarrow> kind = lit ''morph_glide''"

definition needs_routing :: "rstr \<Rightarrow> bool" where
  "needs_routing kind \<longleftrightarrow> kind = lit ''routing''"

definition parse_nonzero_decimal_id :: "rstr \<Rightarrow> rstr \<Rightarrow> performance_error + u64" where
  "parse_nonzero_decimal_id kind v =
     (if v = [] \<or> \<not> (\<forall>c \<in> set v. 48 \<le> c \<and> c \<le> 57) \<or> hd v = 48 then Inl (PeMalformedAddress kind)
      else if 2 ^ 64 \<le> decimal_value v then Inl (PeMalformedAddress kind)
      else let parsed = of_nat (decimal_value v) :: u64 in
        if parsed = 0 \<or> decimal (unat parsed) \<noteq> v then Inl (PeMalformedAddress kind) else Inr parsed)"

definition control_validate :: "performance_control \<Rightarrow> performance_error + unit" where
  "control_validate c =
     rbind (case control_param c of
        Some p \<Rightarrow> if p = [] \<or> MAX_PERFORMANCE_PARAM_BYTES < str_len p then Inl (PeParamBytes (str_len p)) else Inr ()
      | None \<Rightarrow> Inr ()) (\<lambda>u.
     if control_node c = Some 0 \<or> control_group c = Some 0 then Inl (PeMalformedAddress (kind_token c))
     else case control_node_kind c of
        Some k \<Rightarrow> if k = [] \<or> MAX_PERFORMANCE_PARAM_BYTES < str_len k then Inl (PeNodeKindBytes (str_len k)) else Inr ()
      | None \<Rightarrow> Inr ())"

definition opt_default :: "'a \<Rightarrow> 'a option \<Rightarrow> 'a" where
  "opt_default d x = (case x of Some v \<Rightarrow> v | None \<Rightarrow> d)"

definition parse_optional_id :: "rstr \<Rightarrow> rstr option \<Rightarrow> performance_error + u64" where
  "parse_optional_id kind v = (case v of None \<Rightarrow> Inr 0 | Some s \<Rightarrow> parse_nonzero_decimal_id kind s)"

definition control_of_kind ::
  "rstr \<Rightarrow> u32 \<Rightarrow> rstr \<Rightarrow> u64 \<Rightarrow> u64 \<Rightarrow> rstr \<Rightarrow> u16 \<Rightarrow> u32 \<Rightarrow> performance_control option" where
  "control_of_kind kind layer param node grp node_kind target routing =
     (if kind = lit ''master'' then Some (PcMaster param)
      else if kind = lit ''master_transform'' then Some (PcMasterTransform param)
      else if kind = lit ''layer_param'' then Some (PcLayerParam layer param)
      else if kind = lit ''layer_effect'' then Some (PcLayerEffect layer param)
      else if kind = lit ''layer_transform'' then Some (PcLayerTransform layer param)
      else if kind = lit ''layer_visible'' then Some (PcLayerVisible layer)
      else if kind = lit ''layer_pattern'' then Some (PcLayerPattern layer param)
      else if kind = lit ''ntsc'' then Some (PcNtsc param)
      else if kind = lit ''temporal'' then Some (PcTemporal param)
      else if kind = lit ''motion_master'' then Some (PcMotionMaster param)
      else if kind = lit ''motion_layer'' then Some (PcMotionLayer layer param)
      else if kind = lit ''bus_crossfade'' then Some PcBusCrossfade
      else if kind = lit ''bus_mix'' then Some (PcBusMix param)
      else if kind = lit ''morph_position'' then Some PcMorphPosition
      else if kind = lit ''gesture_canvas'' then Some (PcGestureCanvas param)
      else if kind = lit ''rack_node_master'' then Some (PcRackNodeMaster node node_kind param)
      else if kind = lit ''rack_node_layer'' then Some (PcRackNodeLayer layer node node_kind param)
      else if kind = lit ''rack_node_group'' then Some (PcRackNodeGroup grp node node_kind param)
      else if kind = lit ''group_param'' then Some (PcGroupParam grp param)
      else if kind = lit ''group_matte_param'' then Some (PcGroupMatteParam grp param)
      else if kind = lit ''layer_text'' then Some (PcLayerText layer param)
      else if kind = lit ''morph_law'' then Some PcMorphLaw
      else if kind = lit ''morph_glide'' then Some (PcMorphGlide target)
      else if kind = lit ''morph_capture'' then Some PcMorphCapture
      else if kind = lit ''routing'' then Some (PcRouting routing param)
      else None)"

definition control_from_parts ::
  "rstr \<Rightarrow> u32 option \<Rightarrow> rstr option \<Rightarrow> rstr option \<Rightarrow> rstr option \<Rightarrow> rstr option \<Rightarrow> u16 option \<Rightarrow> u32 option \<Rightarrow>
   performance_error + performance_control" where
  "control_from_parts kind layer param node_id group_id node_kind target routing =
     (if needs_param kind \<noteq> (param \<noteq> None) \<or> needs_layer kind \<noteq> (layer \<noteq> None) \<or> needs_node kind \<noteq> (node_id \<noteq> None) \<or>
         needs_group kind \<noteq> (group_id \<noteq> None) \<or> needs_node_kind kind \<noteq> (node_kind \<noteq> None) \<or>
         needs_target_q16 kind \<noteq> (target \<noteq> None) \<or> needs_routing kind \<noteq> (routing \<noteq> None)
      then Inl (PeMalformedAddress kind)
      else
        rbind (parse_optional_id kind node_id) (\<lambda>node.
        rbind (parse_optional_id kind group_id) (\<lambda>grp.
        rbind (ok_or (control_of_kind kind (opt_default 0 layer) (opt_default [] param) node grp (opt_default [] node_kind)
          (opt_default 0 target) (opt_default 0 routing)) (PeMalformedAddress kind)) (\<lambda>control.
        rbind (control_validate control) (\<lambda>u. Inr control)))))"

fun join_colon :: "rstr list \<Rightarrow> rstr" where
  "join_colon [] = []"
| "join_colon [p] = p"
| "join_colon (p # ps) = p @ [58] @ join_colon ps"

definition opt_list :: "('a \<Rightarrow> 'b) \<Rightarrow> 'a option \<Rightarrow> 'b list" where
  "opt_list f x = (case x of None \<Rightarrow> [] | Some v \<Rightarrow> [f v])"

definition control_describe :: "performance_control \<Rightarrow> rstr" where
  "control_describe c = join_colon ([kind_token c] @ opt_list (\<lambda>w. decimal (unat w)) (control_layer c) @
     opt_list (\<lambda>w. decimal (unat w)) (control_group c) @ opt_list (\<lambda>w. decimal (unat w)) (control_node c) @
     opt_list id (control_node_kind c) @ opt_list (\<lambda>w. decimal (unat w)) (control_target_q16 c) @
     opt_list (\<lambda>w. decimal (unat w)) (control_routing c) @ opt_list id (control_param c))"

section \<open>Value laws\<close>

datatype value_law = PlUnit f32 f32 | PlDiscrete "rstr list" | PlToggle | PlStepped i64 i64

datatype raw_value = PvContinuous f32 | PvToken rstr | PvToggle bool | PvInteger i64

fun law_code :: "value_law \<Rightarrow> u8" where
  "law_code (PlUnit lo hi) = 0" | "law_code (PlDiscrete vocab) = 1" | "law_code PlToggle = 2" | "law_code (PlStepped lo hi) = 3"

fun law_token :: "value_law \<Rightarrow> rstr" where
  "law_token (PlUnit lo hi) = lit ''unit''" | "law_token (PlDiscrete vocab) = lit ''discrete''"
| "law_token PlToggle = lit ''toggle''" | "law_token (PlStepped lo hi) = lit ''stepped''"

fun check_tokens :: "rstr list \<Rightarrow> performance_error + unit" where
  "check_tokens [] = Inr ()"
| "check_tokens (t # ts) =
     (if t = [] \<or> MAX_PERFORMANCE_PARAM_BYTES < str_len t then Inl (PeTokenBytes (str_len t)) else check_tokens ts)"

text \<open>The first token that repeats an earlier one.\<close>

fun first_repeat :: "'a list \<Rightarrow> 'a list \<Rightarrow> 'a option" where
  "first_repeat seen [] = None"
| "first_repeat seen (t # ts) = (if t \<in> set seen then Some t else first_repeat (t # seen) ts)"

fun law_validate :: "value_law \<Rightarrow> performance_error + unit" where
  "law_validate (PlUnit lo hi) =
     (if \<not> f32_is_finite lo \<or> \<not> f32_is_finite hi \<or> f32_le hi lo then Inl PeInvalidLaw else Inr ())"
| "law_validate (PlDiscrete vocab) =
     (if vocab = [] \<or> MAX_PERFORMANCE_VOCAB_TOKENS < length vocab then Inl (PeVocabTokens (length vocab))
      else rbind (check_tokens vocab) (\<lambda>u.
        case first_repeat [] vocab of Some t \<Rightarrow> Inl (PeDuplicateToken t) | None \<Rightarrow> Inr ()))"
| "law_validate PlToggle = Inr ()"
| "law_validate (PlStepped lo hi) =
     (if sint hi \<le> sint lo \<or> 65535 < sint (i64_sat (sint hi - sint lo)) then Inl PeInvalidLaw else Inr ())"

text \<open>The clamps of the source panic on an inverted range; laws are validated before they encode.\<close>

fun law_encode :: "value_law \<Rightarrow> raw_value \<Rightarrow> u16 option" where
  "law_encode (PlUnit lo hi) (PvContinuous v) =
     (if \<not> f32_is_finite v then None
      else let span = f32_sub hi lo;
               normalized = f32_clamp F32_ZERO F32_ONE (f32_div (f32_sub (f32_clamp lo hi v) lo) span)
           in Some (f32_round_as_u16 (f32_mul normalized PERFORMANCE_Q16_SCALE)))"
| "law_encode (PlDiscrete vocab) (PvToken t) =
     (case vec_position (\<lambda>c. c = t) vocab of
        None \<Rightarrow> None
      | Some i \<Rightarrow> if i < 2 ^ 16 then Some (of_nat i) else None)"
| "law_encode PlToggle (PvToggle b) = Some (if b then 1 else 0)"
| "law_encode (PlStepped lo hi) (PvInteger v) = i64_as_u16 (i64_clamp lo hi v - lo)"
| "law_encode _ _ = None"

fun law_decode :: "value_law \<Rightarrow> u16 \<Rightarrow> raw_value option" where
  "law_decode (PlUnit lo hi) code =
     Some (PvContinuous (f32_add lo (f32_mul (f32_div (f32_of_nat (unat code)) PERFORMANCE_Q16_SCALE) (f32_sub hi lo))))"
| "law_decode (PlDiscrete vocab) code = (if unat code < length vocab then Some (PvToken (vocab ! unat code)) else None)"
| "law_decode PlToggle code = (if code = 0 then Some (PvToggle False) else if code = 1 then Some (PvToggle True) else None)"
| "law_decode (PlStepped lo hi) code =
     (let v = i64_sat (sint lo + int (unat code)) in if sint v \<le> sint hi then Some (PvInteger v) else None)"

definition law_validate_value :: "value_law \<Rightarrow> u16 \<Rightarrow> performance_error + unit" where
  "law_validate_value law code =
     (if (case law of PlUnit lo hi \<Rightarrow> True | PlDiscrete vocab \<Rightarrow> unat code < length vocab | PlToggle \<Rightarrow> code \<le> 1
          | PlStepped lo hi \<Rightarrow> int (unat code) \<le> sint (i64_sat (sint hi - sint lo)))
      then Inr () else Inl (PeInvalidValue code))"

text \<open>Lengths are cast to \<open>u16\<close>; validated texts and vocabularies are short enough.\<close>

definition text_bytes :: "rstr \<Rightarrow> bytes" where
  "text_bytes s = u16_le (of_nat (str_len s)) @ utf8 s"

fun law_bytes :: "value_law \<Rightarrow> bytes" where
  "law_bytes (PlUnit lo hi) = law_code (PlUnit lo hi) # u32_le lo @ u32_le hi"
| "law_bytes (PlDiscrete vocab) = law_code (PlDiscrete vocab) # u16_le (of_nat (length vocab)) @ concat (map text_bytes vocab)"
| "law_bytes PlToggle = [law_code PlToggle]"
| "law_bytes (PlStepped lo hi) = law_code (PlStepped lo hi) # u64_le lo @ u64_le hi"

section \<open>Addresses\<close>

record performance_address =
  pa_control :: performance_control
  pa_law :: value_law

definition address_validate :: "performance_address \<Rightarrow> performance_error + unit" where
  "address_validate a = rbind (control_validate (pa_control a)) (\<lambda>u. law_validate (pa_law a))"

text \<open>The flat form of the document: the fields of every kind, each present or not.\<close>

record raw_address =
  ra_kind :: rstr
  ra_layer :: "u32 option"
  ra_param :: "rstr option"
  ra_node_id :: "rstr option"
  ra_group_id :: "rstr option"
  ra_node_kind :: "rstr option"
  ra_target :: "u16 option"
  ra_routing :: "u32 option"
  ra_law :: rstr
  ra_min :: "f32 option"
  ra_max :: "f32 option"
  ra_vocab :: "rstr list option"
  ra_step_min :: "i64 option"
  ra_step_max :: "i64 option"

definition raw_law :: "raw_address \<Rightarrow> performance_error + value_law" where
  "raw_law r =
     (if ra_law r = lit ''unit''
      then (case (ra_min r, ra_max r, ra_vocab r, ra_step_min r, ra_step_max r) of
              (Some lo, Some hi, None, None, None) \<Rightarrow> Inr (PlUnit lo hi)
            | _ \<Rightarrow> Inl (PeMalformedAddress (ra_law r)))
      else if ra_law r = lit ''discrete''
      then (case (ra_min r, ra_max r, ra_vocab r, ra_step_min r, ra_step_max r) of
              (None, None, Some vocab, None, None) \<Rightarrow>
                if MAX_PERFORMANCE_VOCAB_TOKENS < length vocab then Inl (PeVocabTokens (length vocab)) else Inr (PlDiscrete vocab)
            | _ \<Rightarrow> Inl (PeMalformedAddress (ra_law r)))
      else if ra_law r = lit ''toggle''
      then (case (ra_min r, ra_max r, ra_vocab r, ra_step_min r, ra_step_max r) of
              (None, None, None, None, None) \<Rightarrow> Inr PlToggle
            | _ \<Rightarrow> Inl (PeMalformedAddress (ra_law r)))
      else if ra_law r = lit ''stepped''
      then (case (ra_min r, ra_max r, ra_vocab r, ra_step_min r, ra_step_max r) of
              (None, None, None, Some lo, Some hi) \<Rightarrow> Inr (PlStepped lo hi)
            | _ \<Rightarrow> Inl (PeMalformedAddress (ra_law r)))
      else Inl (PeMalformedAddress (ra_law r)))"

definition into_address :: "raw_address \<Rightarrow> performance_error + performance_address" where
  "into_address r =
     rbind (control_from_parts (ra_kind r) (ra_layer r) (ra_param r) (ra_node_id r) (ra_group_id r) (ra_node_kind r)
       (ra_target r) (ra_routing r)) (\<lambda>control.
     rbind (raw_law r) (\<lambda>law.
     let a = \<lparr>pa_control = control, pa_law = law\<rparr> in rbind (address_validate a) (\<lambda>u. Inr a)))"

text \<open>The fields that \<open>Serialize\<close> writes.\<close>

definition address_to_raw :: "performance_address \<Rightarrow> raw_address" where
  "address_to_raw a = \<lparr>ra_kind = kind_token (pa_control a), ra_layer = control_layer (pa_control a),
     ra_param = control_param (pa_control a),
     ra_node_id = map_option (\<lambda>n. decimal (unat n)) (control_node (pa_control a)),
     ra_group_id = map_option (\<lambda>g. decimal (unat g)) (control_group (pa_control a)),
     ra_node_kind = control_node_kind (pa_control a), ra_target = control_target_q16 (pa_control a),
     ra_routing = control_routing (pa_control a), ra_law = law_token (pa_law a),
     ra_min = (case pa_law a of PlUnit lo hi \<Rightarrow> Some lo | _ \<Rightarrow> None),
     ra_max = (case pa_law a of PlUnit lo hi \<Rightarrow> Some hi | _ \<Rightarrow> None),
     ra_vocab = (case pa_law a of PlDiscrete vocab \<Rightarrow> Some vocab | _ \<Rightarrow> None),
     ra_step_min = (case pa_law a of PlStepped lo hi \<Rightarrow> Some lo | _ \<Rightarrow> None),
     ra_step_max = (case pa_law a of PlStepped lo hi \<Rightarrow> Some hi | _ \<Rightarrow> None)\<rparr>"

fun control_extra_bytes :: "performance_control \<Rightarrow> bytes" where
  "control_extra_bytes (PcRackNodeMaster n k p) = u64_le n @ text_bytes k"
| "control_extra_bytes (PcRackNodeLayer l n k p) = u64_le n @ text_bytes k"
| "control_extra_bytes (PcRackNodeGroup g n k p) = u64_le g @ u64_le n @ text_bytes k"
| "control_extra_bytes (PcGroupParam g p) = u64_le g"
| "control_extra_bytes (PcGroupMatteParam g p) = u64_le g"
| "control_extra_bytes (PcMorphGlide q) = u16_le q"
| "control_extra_bytes (PcRouting r p) = u32_le r"
| "control_extra_bytes _ = []"

definition address_bytes :: "performance_address \<Rightarrow> bytes" where
  "address_bytes a = control_code (pa_control a) # u32_le (opt_default 0 (control_layer (pa_control a))) @
     text_bytes (opt_default [] (control_param (pa_control a))) @ law_bytes (pa_law a) @ control_extra_bytes (pa_control a)"

section \<open>The take\<close>

record performance_event =
  pv_tick :: u32
  pv_address :: u16
  pv_value :: u16

definition event_bytes :: "performance_event \<Rightarrow> bytes" where
  "event_bytes e = u32_le (pv_tick e) @ u16_le (pv_address e) @ u16_le (pv_value e)"

record performance_take =
  pt_addresses :: "performance_address list"
  pt_events :: "performance_event list"
  pt_length :: u32
  pt_truncated :: bool
  pt_incomplete :: bool

definition take_default :: performance_take where
  "take_default = \<lparr>pt_addresses = [], pt_events = [], pt_length = 0, pt_truncated = False, pt_incomplete = False\<rparr>"

definition last_tick :: "performance_take \<Rightarrow> u32" where
  "last_tick t = (if pt_events t = [] then 0 else pv_tick (last (pt_events t)))"

definition take_record_accepted ::
  "performance_take \<Rightarrow> u32 \<Rightarrow> performance_control \<Rightarrow> value_law \<Rightarrow> raw_value \<Rightarrow> performance_take \<times> (performance_error + bool)" where
  "take_record_accepted t tick control law raw =
     (case control_validate control of
        Inl e \<Rightarrow> (t, Inl e)
      | Inr u \<Rightarrow>
          if pt_events t \<noteq> [] \<and> tick < pv_tick (last (pt_events t))
          then (t, Inl (PeNonMonotonicTick (pv_tick (last (pt_events t))) tick))
          else
            (let existing = vec_position (\<lambda>c. pa_control c = control) (pt_addresses t);
                 code = (case existing of
                     Some i \<Rightarrow> Inr (law_encode (pa_law (pt_addresses t ! i)) raw)
                   | None \<Rightarrow> rbind (law_validate law) (\<lambda>u.
                       if MAX_PERFORMANCE_ADDRESSES \<le> length (pt_addresses t)
                       then Inl (PeTooManyAddresses (length (pt_addresses t) + 1)) else Inr (law_encode law raw)))
             in case rbind code (\<lambda>c. ok_or c PeUnrepresentableEdit) of
                  Inl e \<Rightarrow> (t, Inl e)
                | Inr value \<Rightarrow>
                    if MAX_PERFORMANCE_EVENTS \<le> length (pt_events t) then (t\<lparr>pt_truncated := True\<rparr>, Inr False)
                    else
                      (let (t1, address) = (case existing of
                             Some i \<Rightarrow> (t, i)
                           | None \<Rightarrow> (t\<lparr>pt_addresses := pt_addresses t @ [\<lparr>pa_control = control, pa_law = law\<rparr>]\<rparr>,
                                length (pt_addresses t)))
                       in (t1\<lparr>pt_events := pt_events t @ [\<lparr>pv_tick = tick, pv_address = of_nat address, pv_value = value\<rparr>],
                              pt_length := max (pt_length t) tick\<rparr>, Inr True))))"

definition take_finalize :: "performance_take \<Rightarrow> u32 \<Rightarrow> performance_take" where
  "take_finalize t len = t\<lparr>pt_length := max len (last_tick t), pt_incomplete := False\<rparr>"

definition take_mark_incomplete :: "performance_take \<Rightarrow> u32 \<Rightarrow> performance_take" where
  "take_mark_incomplete t len = t\<lparr>pt_length := max len (last_tick t), pt_incomplete := True\<rparr>"

definition take_flags :: "performance_take \<Rightarrow> u16" where
  "take_flags t = (if pt_truncated t then PERFORMANCE_FLAG_TRUNCATED else 0) OR
     (if pt_incomplete t then PERFORMANCE_FLAG_INCOMPLETE else 0)"

definition take_declared_count :: "performance_take \<Rightarrow> u32" where
  "take_declared_count t = (if length (pt_events t) < 2 ^ 32 then of_nat (length (pt_events t)) else - 1)"

definition take_canonical_bytes :: "performance_take \<Rightarrow> bytes" where
  "take_canonical_bytes t = PERFORMANCE_CHECKSUM_DOMAIN @ u16_le PERFORMANCE_ALGORITHM_VERSION @ u16_le (take_flags t) @
     u32_le (pt_length t) @ u16_le (of_nat (length (pt_addresses t))) @ concat (map address_bytes (pt_addresses t)) @
     u32_le (take_declared_count t) @ concat (map event_bytes (pt_events t))"

definition take_checksum_hex :: "(bytes \<Rightarrow> bytes) \<Rightarrow> performance_take \<Rightarrow> rstr" where
  "take_checksum_hex sha t = hex_lower (sha (take_canonical_bytes t))"

fun validate_addresses :: "performance_address list \<Rightarrow> performance_error + unit" where
  "validate_addresses [] = Inr ()"
| "validate_addresses (a # as) = rbind (address_validate a) (\<lambda>u. validate_addresses as)"

fun validate_events ::
  "performance_address list \<Rightarrow> u32 \<Rightarrow> performance_event list \<Rightarrow> performance_error + unit" where
  "validate_events addresses previous [] = Inr ()"
| "validate_events addresses previous (e # es) =
     (if pv_tick e < previous then Inl (PeNonMonotonicTick previous (pv_tick e))
      else if length addresses \<le> unat (pv_address e) then Inl (PeAddressOutOfRange (pv_address e) (length addresses))
      else rbind (law_validate_value (pa_law (addresses ! unat (pv_address e))) (pv_value e)) (\<lambda>u.
        validate_events addresses (pv_tick e) es))"

definition take_validate :: "performance_take \<Rightarrow> performance_error + unit" where
  "take_validate t =
     (if MAX_PERFORMANCE_ADDRESSES < length (pt_addresses t) then Inl (PeTooManyAddresses (length (pt_addresses t)))
      else if MAX_PERFORMANCE_EVENTS < length (pt_events t) then Inl (PeTooManyEvents (length (pt_events t)))
      else
        rbind (validate_addresses (pt_addresses t)) (\<lambda>u.
        case first_repeat [] (map pa_control (pt_addresses t)) of
          Some c \<Rightarrow> Inl (PeDuplicateAddress (control_describe c))
        | None \<Rightarrow>
            rbind (validate_events (pt_addresses t) 0 (pt_events t)) (\<lambda>u.
            if pt_events t \<noteq> [] \<and> pt_length t < pv_tick (last (pt_events t))
            then Inl (PeLengthBeforeLastEvent (pt_length t) (pv_tick (last (pt_events t)))) else Inr ())))"

section \<open>Replay\<close>

text \<open>The \<open>while\<close> loop that both cursors run: it passes every event that is due.\<close>

function due_cursor :: "performance_event list \<Rightarrow> u32 \<Rightarrow> nat \<Rightarrow> nat" where
  "due_cursor es tick c = (if c < length es \<and> pv_tick (es ! c) \<le> tick then due_cursor es tick (c + 1) else c)"
  by pat_completeness auto
termination
  by (relation "measure (\<lambda>(es, tick, c). length es - c)") auto

declare due_cursor.simps [simp del]

record performance_replay =
  pr_events :: "performance_event list"
  pr_cursor :: nat

definition take_replay :: "performance_take \<Rightarrow> performance_replay" where
  "take_replay t = \<lparr>pr_events = pt_events t, pr_cursor = 0\<rparr>"

definition replay_due :: "performance_replay \<Rightarrow> u32 \<Rightarrow> performance_replay \<times> performance_event list" where
  "replay_due r tick =
     (let start = pr_cursor r; c = due_cursor (pr_events r) tick start
      in (r\<lparr>pr_cursor := c\<rparr>, take (c - start) (drop start (pr_events r))))"

definition replay_finished :: "performance_replay \<Rightarrow> bool" where
  "replay_finished r \<longleftrightarrow> length (pr_events r) \<le> pr_cursor r"

definition range_due :: "nat \<Rightarrow> performance_event list \<Rightarrow> u32 \<Rightarrow> nat \<times> (nat \<times> nat)" where
  "range_due cursor es tick = (let c = due_cursor es tick cursor in (c, (cursor, c)))"

section \<open>The document\<close>

record take_document =
  td_version :: u16
  td_length :: u32
  td_truncated :: bool
  td_incomplete :: bool
  td_event_count :: u32
  td_checksum :: rstr
  td_addresses :: "performance_address list"
  td_events :: "performance_event list"

definition take_capture :: "(bytes \<Rightarrow> bytes) \<Rightarrow> performance_take \<Rightarrow> take_document" where
  "take_capture sha t = \<lparr>td_version = PERFORMANCE_ALGORITHM_VERSION, td_length = pt_length t, td_truncated = pt_truncated t,
     td_incomplete = pt_incomplete t, td_event_count = take_declared_count t, td_checksum = take_checksum_hex sha t,
     td_addresses = pt_addresses t, td_events = pt_events t\<rparr>"

definition take_decode :: "(bytes \<Rightarrow> bytes) \<Rightarrow> take_document \<Rightarrow> performance_error + performance_take" where
  "take_decode sha d =
     (if td_version d \<noteq> PERFORMANCE_ALGORITHM_VERSION then Inl (PeUnsupportedVersion (td_version d))
      else if unat (td_event_count d) \<noteq> length (td_events d) then Inl (PeEventCount (td_event_count d) (length (td_events d)))
      else
        (let t = \<lparr>pt_addresses = td_addresses d, pt_events = td_events d, pt_length = td_length d,
                  pt_truncated = td_truncated d, pt_incomplete = td_incomplete d\<rparr>
         in rbind (take_validate t) (\<lambda>u.
            let computed = take_checksum_hex sha t in
            if computed \<noteq> td_checksum d then Inl (PeChecksumMismatch (td_checksum d) computed) else Inr t)))"

definition validate_take_bytes :: "nat \<Rightarrow> performance_error + unit" where
  "validate_take_bytes n = (if n = 0 \<or> MAX_PERFORMANCE_SERIALIZED_BYTES < n then Inl (PeDocumentBytes n) else Inr ())"

section \<open>JSON\<close>

text \<open>The layer around serde: what the derived and hand-written adapters hand to its printer and take from its parser is the
  flat document.  The source turns every cause below into the text of \<open>Serialization\<close>; the texts are not modelled.\<close>

record raw_document =
  rd_version :: u16
  rd_length :: u32
  rd_truncated :: bool
  rd_incomplete :: bool
  rd_event_count :: u32
  rd_checksum :: rstr
  rd_addresses :: "raw_address list"
  rd_events :: "performance_event list"

datatype serialization_cause = ScSerde rstr | ScTooMany rstr | ScInvalid performance_error

datatype take_json_error = TjRefused performance_error | TjSerialization serialization_cause

definition document_to_raw :: "take_document \<Rightarrow> raw_document" where
  "document_to_raw d = \<lparr>rd_version = td_version d, rd_length = td_length d, rd_truncated = td_truncated d,
     rd_incomplete = td_incomplete d, rd_event_count = td_event_count d, rd_checksum = td_checksum d,
     rd_addresses = map address_to_raw (td_addresses d), rd_events = td_events d\<rparr>"

text \<open>\<open>visit_seq\<close>: at most \<open>n\<close> elements are read, in order; one more is an error.\<close>

fun read_bounded :: "serialization_cause \<Rightarrow> nat \<Rightarrow> ('a \<Rightarrow> serialization_cause + 'b) \<Rightarrow> 'a list \<Rightarrow> serialization_cause + 'b list" where
  "read_bounded too_many n f [] = Inr []"
| "read_bounded too_many n f (x # xs) =
     (if n = 0 then Inl too_many
      else rbind (f x) (\<lambda>y. rbind (read_bounded too_many (n - 1) f xs) (\<lambda>ys. Inr (y # ys))))"

definition bounded_addresses :: "raw_address list \<Rightarrow> serialization_cause + performance_address list" where
  "bounded_addresses = read_bounded (ScTooMany (lit ''too many performance addresses'')) MAX_PERFORMANCE_ADDRESSES
     (\<lambda>r. case into_address r of Inl e \<Rightarrow> Inl (ScInvalid e) | Inr a \<Rightarrow> Inr a)"

definition bounded_events :: "performance_event list \<Rightarrow> serialization_cause + performance_event list" where
  "bounded_events = read_bounded (ScTooMany (lit ''too many performance events'')) MAX_PERFORMANCE_EVENTS Inr"

definition document_from_raw :: "(bytes \<Rightarrow> bytes) \<Rightarrow> raw_document \<Rightarrow> serialization_cause + take_document" where
  "document_from_raw sha r =
     rbind (bounded_addresses (rd_addresses r)) (\<lambda>addresses.
     rbind (bounded_events (rd_events r)) (\<lambda>events.
     let d = \<lparr>td_version = rd_version r, td_length = rd_length r, td_truncated = rd_truncated r, td_incomplete = rd_incomplete r,
              td_event_count = rd_event_count r, td_checksum = rd_checksum r, td_addresses = addresses, td_events = events\<rparr>
     in case take_decode sha d of Inl e \<Rightarrow> Inl (ScInvalid e) | Inr t \<Rightarrow> Inr d))"

text \<open>\<open>print\<close> is serde's \<open>to_vec_pretty\<close>, \<open>parse\<close> its \<open>from_slice\<close> into the flat document.\<close>

definition take_to_json ::
  "(bytes \<Rightarrow> bytes) \<Rightarrow> (raw_document \<Rightarrow> rstr + bytes) \<Rightarrow> take_document \<Rightarrow> take_json_error + bytes" where
  "take_to_json sha print d =
     (case take_decode sha d of
        Inl e \<Rightarrow> Inl (TjRefused e)
      | Inr t \<Rightarrow>
          (case print (document_to_raw d) of
             Inl m \<Rightarrow> Inl (TjSerialization (ScSerde m))
           | Inr body \<Rightarrow>
               (let bs = body @ [10] in
                case validate_take_bytes (length bs) of Inl e \<Rightarrow> Inl (TjRefused e) | Inr u \<Rightarrow> Inr bs)))"

definition take_from_json ::
  "(bytes \<Rightarrow> bytes) \<Rightarrow> (bytes \<Rightarrow> rstr + raw_document) \<Rightarrow> bytes \<Rightarrow> take_json_error + take_document" where
  "take_from_json sha parse bs =
     (case validate_take_bytes (length bs) of
        Inl e \<Rightarrow> Inl (TjRefused e)
      | Inr u \<Rightarrow>
          (case parse bs of
             Inl m \<Rightarrow> Inl (TjSerialization (ScSerde m))
           | Inr r \<Rightarrow> (case document_from_raw sha r of Inl c \<Rightarrow> Inl (TjSerialization c) | Inr d \<Rightarrow> Inr d)))"

end
