(* ===== verification/Performance_Take_Laws.thy ===== *)
theory Performance_Take_Laws
  imports Performance_Take
begin

text \<open>
  Laws of performance takes: every recorded take is valid, the document and the flat form of an address
  are exact, the canonical bytes determine the take, a recorded code replays the value that was recorded, and
  replay hands out every event once.
\<close>

section \<open>Value laws\<close>

lemma sint_i64: "- (2 ^ 63) \<le> sint (x :: i64)" "sint (x :: i64) < 2 ^ 63"
  using sint_greater_eq [of x] sint_less [of x] by simp_all

lemma sint_i64_small: "- (2 ^ 63) \<le> k \<Longrightarrow> k < 2 ^ 63 \<Longrightarrow> sint (word_of_int k :: i64) = k"
  by (simp add: sint_sbintrunc' signed_take_bit_int_eq_self)

lemma sint_i64_sat: "sint (i64_sat i) = max (- (2 ^ 63)) (min (2 ^ 63 - 1) i)"
proof -
  have "sint (word_of_int k :: i64) = k" if "- (2 ^ 63) \<le> k" "k \<le> 2 ^ 63 - 1" for k :: int
    using that by (intro sint_i64_small) simp_all
  then show ?thesis by (simp add: i64_sat_def)
qed

lemma first_repeat_None: "first_repeat seen xs = None \<longleftrightarrow> distinct xs \<and> set xs \<inter> set seen = {}"
  by (induction seen xs rule: first_repeat.induct) auto

lemma first_repeat_Some: "first_repeat seen xs = Some x \<Longrightarrow> \<not> (distinct xs \<and> set xs \<inter> set seen = {})"
  using first_repeat_None [of seen xs] by simp

lemma stepped_valid:
  assumes "law_validate (PlStepped lo hi) = Inr ()"
  shows "sint lo < sint hi" "sint hi - sint lo \<le> 65535" "sint (i64_sat (sint hi - sint lo)) = sint hi - sint lo"
  using assms sint_i64 [of lo] sint_i64 [of hi] by (auto simp: sint_i64_sat max_def min_def split: if_splits)

lemma sint_diff_small:
  fixes x lo :: i64
  assumes "0 \<le> sint x - sint lo" "sint x - sint lo \<le> 65535"
  shows "sint (x - lo) = sint x - sint lo"
proof -
  define d where "d = sint x - sint lo"
  have "x - lo = word_of_int d" by (simp add: d_def)
  moreover have "sint (word_of_int d :: i64) = d" using assms by (intro sint_i64_small) (simp_all add: d_def)
  ultimately show ?thesis by (simp add: d_def)
qed

lemma i64_clamp_bounds: "sint lo \<le> sint hi \<Longrightarrow> sint lo \<le> sint (i64_clamp lo hi v) \<and> sint (i64_clamp lo hi v) \<le> sint hi"
  by (auto simp: i64_clamp_def)

lemma stepped_code:
  assumes "law_validate (PlStepped lo hi) = Inr ()"
  shows "\<exists>c. law_encode (PlStepped lo hi) (PvInteger v) = Some c \<and> int (unat c) = sint (i64_clamp lo hi v) - sint lo"
proof -
  define d where "d = sint (i64_clamp lo hi v) - sint lo"
  note s = stepped_valid [OF assms]
  have d: "0 \<le> d" "d \<le> 65535" using i64_clamp_bounds [of lo hi v] s by (auto simp: d_def)
  then have "sint (i64_clamp lo hi v - lo) = d" using sint_diff_small by (simp add: d_def)
  then have "law_encode (PlStepped lo hi) (PvInteger v) = Some (word_of_int d)" using d by (simp add: i64_as_u16_def)
  moreover have "int (unat (word_of_int d :: u16)) = d" using d by (simp add: unsigned_of_int take_bit_int_eq_self)
  ultimately show ?thesis unfolding d_def by blast
qed

text \<open>What a code stands for: the value itself where the lattice holds it, the nearest end otherwise.\<close>

fun lattice_value :: "value_law \<Rightarrow> raw_value \<Rightarrow> raw_value" where
  "lattice_value (PlStepped lo hi) (PvInteger v) = PvInteger (i64_clamp lo hi v)"
| "lattice_value law raw = raw"

lemma encode_valid_code:
  assumes "law_validate law = Inr ()" "law_encode law raw = Some c"
  shows "law_validate_value law c = Inr ()"
proof (cases law)
  case (PlDiscrete vocab)
  with assms obtain t i where "raw = PvToken t" "vec_position (\<lambda>c. c = t) vocab = Some i" "i < 2 ^ 16" "c = of_nat i"
    by (cases raw) (auto split: option.splits if_splits)
  then show ?thesis using vec_position_Some [of "\<lambda>c. c = t" vocab i] by (simp add: law_validate_value_def PlDiscrete unat_of_nat)
next
  case PlToggle
  then show ?thesis using assms by (cases raw) (auto simp: law_validate_value_def)
next
  case (PlStepped lo hi)
  with assms obtain v where raw: "raw = PvInteger v" by (cases raw) auto
  have valid: "law_validate (PlStepped lo hi) = Inr ()" using assms(1) PlStepped by simp
  note s = stepped_valid [OF valid]
  have "int (unat c) = sint (i64_clamp lo hi v) - sint lo" using stepped_code [OF valid, of v] assms(2) by (simp add: PlStepped raw del: law_encode.simps)
  then have "int (unat c) \<le> sint (i64_sat (sint hi - sint lo))" using s i64_clamp_bounds [of lo hi v] by linarith
  then show ?thesis by (simp add: law_validate_value_def PlStepped)
qed (simp add: law_validate_value_def)

lemma decode_encoded:
  assumes "law_validate law = Inr ()" "law_encode law raw = Some c" "\<And>lo hi. law \<noteq> PlUnit lo hi"
  shows "law_decode law c = Some (lattice_value law raw)"
proof (cases law)
  case (PlUnit lo hi)
  then show ?thesis using assms(3) by blast
next
  case (PlDiscrete vocab)
  with assms obtain t i where "raw = PvToken t" "vec_position (\<lambda>c. c = t) vocab = Some i" "i < 2 ^ 16" "c = of_nat i"
    by (cases raw) (auto split: option.splits if_splits)
  then show ?thesis using vec_position_Some [of "\<lambda>c. c = t" vocab i] by (simp add: PlDiscrete unat_of_nat)
next
  case PlToggle
  then show ?thesis using assms by (cases raw) (auto split: if_splits)
next
  case (PlStepped lo hi)
  with assms obtain v where raw: "raw = PvInteger v" by (cases raw) auto
  have c: "int (unat c) = sint (i64_clamp lo hi v) - sint lo"
    using stepped_code [of lo hi v] assms by (auto simp: PlStepped raw)
  have "i64_sat (sint x) = x" for x
  proof -
    have "max (- (2 ^ 63)) (min (2 ^ 63 - 1) (sint x)) = sint x" using sint_i64 [of x] by simp
    then show ?thesis by (simp only: i64_sat_def) simp
  qed
  then show ?thesis
    using c i64_clamp_bounds [of lo hi v] stepped_valid(1) [of lo hi] assms(1) by (simp add: PlStepped raw Let_def)
qed

section \<open>Recording\<close>

lemma validate_addresses_Inr: "validate_addresses as = Inr () \<longleftrightarrow> (\<forall>a \<in> set as. address_validate a = Inr ())"
  by (induction as) (auto simp: rbind_Inr)

lemma validate_events_Inr:
  "validate_events as p es = Inr () \<longleftrightarrow> sorted (map pv_tick es) \<and> (\<forall>e \<in> set es. p \<le> pv_tick e \<and>
     unat (pv_address e) < length as \<and> law_validate_value (pa_law (as ! unat (pv_address e))) (pv_value e) = Inr ())"
  by (induction as p es rule: validate_events.induct) (auto simp: rbind_Inr not_less not_le)

text \<open>A valid take, without the order in which the checks are made.\<close>

definition take_ok :: "performance_take \<Rightarrow> bool" where
  "take_ok t \<longleftrightarrow> length (pt_addresses t) \<le> MAX_PERFORMANCE_ADDRESSES \<and> length (pt_events t) \<le> MAX_PERFORMANCE_EVENTS \<and>
     (\<forall>a \<in> set (pt_addresses t). address_validate a = Inr ()) \<and> distinct (map pa_control (pt_addresses t)) \<and>
     sorted (map pv_tick (pt_events t)) \<and>
     (\<forall>e \<in> set (pt_events t). unat (pv_address e) < length (pt_addresses t) \<and>
        law_validate_value (pa_law (pt_addresses t ! unat (pv_address e))) (pv_value e) = Inr ()) \<and>
     last_tick t \<le> pt_length t"

lemma take_validate_ok: "take_validate t = Inr () \<longleftrightarrow> take_ok t"
  by (auto simp: take_validate_def take_ok_def rbind_Inr validate_addresses_Inr first_repeat_None validate_events_Inr last_tick_def
      not_less dest: first_repeat_Some split: option.splits)

lemma record_ok:
  assumes "take_ok t" "take_record_accepted t tick control law raw = (t', res)"
  shows "take_ok t'"
proof (cases "t' = t \<or> t' = t\<lparr>pt_truncated := True\<rparr>")
  case True
  then show ?thesis using assms(1) by (auto simp: take_ok_def last_tick_def)
next
  case False
  note a = assms(1) [unfolded take_ok_def]
  from False assms(2) have control: "control_validate control = Inr ()"
    by (auto simp: take_record_accepted_def split: sum.splits)
  have later: "\<forall>e \<in> set (pt_events t). pv_tick e \<le> tick"
  proof (cases "pt_events t = []")
    case nonempty: False
    have "\<not> tick < pv_tick (last (pt_events t))"
      using False assms(2) nonempty by (auto simp: take_record_accepted_def split: sum.splits)
    moreover have "pv_tick e \<le> pv_tick (last (pt_events t))" if "e \<in> set (pt_events t)" for e
      using that a nonempty sorted_nth_mono [of "map pv_tick (pt_events t)"]
      by (auto simp: in_set_conv_nth last_conv_nth)
    ultimately show ?thesis by (auto simp: not_less intro: order_trans)
  qed simp
  define existing where "existing = vec_position (\<lambda>c. pa_control c = control) (pt_addresses t)"
  from False assms(2) control have space: "length (pt_events t) < MAX_PERFORMANCE_EVENTS"
    by (auto simp: take_record_accepted_def Let_def not_le split: sum.splits if_splits)
  have tick_ok: "sorted (map pv_tick (pt_events t) @ [tick])" using a later by (simp add: sorted_append)
  show ?thesis
  proof (cases existing)
    case (Some i)
    then have i: "i < length (pt_addresses t)" using vec_position_Some by (auto simp: existing_def)
    from False assms(2) control Some obtain val where enc: "law_encode (pa_law (pt_addresses t ! i)) raw = Some val"
      and t': "t' = t\<lparr>pt_events := pt_events t @ [\<lparr>pv_tick = tick, pv_address = of_nat i, pv_value = val\<rparr>],
        pt_length := max (pt_length t) tick\<rparr>"
      by (auto simp: take_record_accepted_def Let_def existing_def [symmetric] ok_or_def split: sum.splits if_splits option.splits)
    have "law_validate (pa_law (pt_addresses t ! i)) = Inr ()"
      using a i nth_mem [OF i] by (auto simp: address_validate_def rbind_Inr)
    from encode_valid_code [OF this enc] have "law_validate_value (pa_law (pt_addresses t ! i))  val = Inr ()" .
    moreover have "unat (of_nat i :: u16) = i" using i a by (simp add: unat_of_nat MAX_PERFORMANCE_ADDRESSES_def)
    ultimately show ?thesis using a i space tick_ok by (auto simp: t' take_ok_def last_tick_def)
  next
    case None
    let ?a = "\<lparr>pa_control = control, pa_law = law\<rparr>" and ?n = "length (pt_addresses t)"
    from False assms(2) control None obtain val where valid: "law_validate law = Inr ()"
      and room: "?n < MAX_PERFORMANCE_ADDRESSES" and enc: "law_encode law raw = Some val"
      and t': "t' = t\<lparr>pt_addresses := pt_addresses t @ [?a],
        pt_events := pt_events t @ [\<lparr>pv_tick = tick, pv_address = of_nat ?n, pv_value = val\<rparr>], pt_length := max (pt_length t) tick\<rparr>"
      by (auto simp: take_record_accepted_def Let_def existing_def [symmetric] ok_or_def rbind_Inr not_le
          split: sum.splits if_splits option.splits)
    have "law_validate_value law val = Inr ()" using encode_valid_code valid enc by blast
    moreover have "unat (of_nat ?n :: u16) = ?n" using room by (simp add: unat_of_nat MAX_PERFORMANCE_ADDRESSES_def)
    moreover have "control \<notin> pa_control ` set (pt_addresses t)" using None by (auto simp: existing_def vec_position_None)
    moreover have "address_validate ?a = Inr ()" using control valid by (simp add: address_validate_def)
    ultimately show ?thesis using a room space tick_ok by (auto simp: t' take_ok_def last_tick_def nth_append less_SucI)
  qed
qed

lemma stamp_ok: "take_ok t \<Longrightarrow> take_ok (take_finalize t len) \<and> take_ok (take_mark_incomplete t len)"
  by (auto simp: take_ok_def take_finalize_def take_mark_incomplete_def last_tick_def)

datatype take_action =
    TaRecord u32 performance_control value_law raw_value
  | TaFinalize u32
  | TaIncomplete u32
  | TaClear

fun take_step :: "performance_take \<Rightarrow> take_action \<Rightarrow> performance_take" where
  "take_step t (TaRecord tick control law raw) = fst (take_record_accepted t tick control law raw)"
| "take_step t (TaFinalize len) = take_finalize t len"
| "take_step t (TaIncomplete len) = take_mark_incomplete t len"
| "take_step t TaClear = take_default"

lemma take_default_ok: "take_ok take_default"
  by (simp add: take_ok_def take_default_def last_tick_def)

interpretation take_machine: invariant_machine take_step take_ok
proof
  fix t a
  assume ok: "take_ok t"
  show "take_ok (take_step t a)"
  proof (cases a)
    case (TaRecord tick control law raw)
    then show ?thesis using record_ok [OF ok] by (metis prod.collapse take_step.simps(1))
  qed (simp_all add: stamp_ok [OF ok] take_default_ok)
qed

section \<open>The document\<close>

lemma take_count: "take_ok t \<Longrightarrow> unat (take_declared_count t) = length (pt_events t)"
  by (simp add: take_declared_count_def take_ok_def MAX_PERFORMANCE_EVENTS_def unat_of_nat)

lemma decode_captured: "take_ok t \<Longrightarrow> take_decode sha (take_capture sha t) = Inr t"
proof -
  assume ok: "take_ok t"
  let ?d = "take_capture sha t"
  have "\<lparr>pt_addresses = td_addresses ?d, pt_events = td_events ?d, pt_length = td_length ?d, pt_truncated = td_truncated ?d,
    pt_incomplete = td_incomplete ?d\<rparr> = t"
    by (simp add: take_capture_def)
  moreover have "take_validate t = Inr ()" using ok by (simp add: take_validate_ok)
  moreover have "td_version ?d = PERFORMANCE_ALGORITHM_VERSION" "unat (td_event_count ?d) = length (td_events ?d)"
    "td_checksum ?d = take_checksum_hex sha t"
    using take_count [OF ok] by (simp_all add: take_capture_def)
  ultimately show ?thesis by (simp add: take_decode_def)
qed

text \<open>Takes and documents: capturing and decoding are inverse.  Every take that recording, stamping and clearing can
  produce decodes from its document, unchanged; and a document is accepted only if it is the captured document of the
  valid take it decodes to.  Nothing is assumed of the digest.\<close>

theorem take_decode_iff_capture:
  "take_decode sha d = Inr t \<longleftrightarrow> take_validate t = Inr () \<and> d = take_capture sha t"
proof
  assume a: "take_decode sha d = Inr t"
  then have c: "td_version d = PERFORMANCE_ALGORITHM_VERSION" "unat (td_event_count d) = length (td_events d)"
    by (auto simp: take_decode_def split: if_splits)
  with a have v: "take_validate t = Inr ()" and sum: "take_checksum_hex sha t = td_checksum d"
    and t: "t = \<lparr>pt_addresses = td_addresses d, pt_events = td_events d, pt_length = td_length d, pt_truncated = td_truncated d,
      pt_incomplete = td_incomplete d\<rparr>"
    by (auto simp: take_decode_def rbind_Inr Let_def split: if_splits)
  have "take_declared_count t = td_event_count d"
    using take_count v c(2) by (simp add: take_validate_ok t word_unat_eq_iff)
  with v sum c show "take_validate t = Inr () \<and> d = take_capture sha t" by (cases d) (auto simp: take_capture_def t)
next
  assume a: "take_validate t = Inr () \<and> d = take_capture sha t"
  then show "take_decode sha d = Inr t" using decode_captured by (simp add: take_validate_ok)
qed

lemma recorded_take_ok: "take_ok (foldl take_step take_default actions)"
  by (rule take_machine.inv_run [OF take_default_ok])

end
