(* ===== verification/Float_Error.thy ===== *)
theory Float_Error
  imports Performance_Take
begin

text \<open>
  Real values of \<open>f32\<close> and the rounding error of its operations.  Every operation of the value laws is correctly
  rounded, so away from overflow its value is the exact one up to a relative error of \<open>2 ^ -24\<close> and, for
  products and quotients, half of the smallest number.
\<close>

section \<open>Values\<close>

definition f32_value :: "f32 \<Rightarrow> real" where
  "f32_value x = real_of_int (f32_signed_units x) / 2 ^ 149"

definition f32_eps :: real where "f32_eps = 1 / 2 ^ 24"
definition f32_tiny :: real where "f32_tiny = 1 / 2 ^ 150"

lemma f32_units_step: "f32_units m < f32_units (Suc m)"
proof -
  define e where "e = m div 2 ^ 23"
  define r where "r = m mod 2 ^ 23"
  have m: "m = e * 2 ^ 23 + r" "r < 2 ^ 23" by (simp_all add: e_def r_def)
  have u: "f32_units (k * 2 ^ 23 + s) = (if k = 0 then s else (2 ^ 23 + s) * 2 ^ (k - 1))" if "s < 2 ^ 23" for k s :: nat
    using that by (simp add: f32_units_def)
  show ?thesis
  proof (cases "Suc r < 2 ^ 23")
    case True
    then show ?thesis using u [of r e] u [of "Suc r" e] m by simp
  next
    case False
    then have r: "r = 2 ^ 23 - 1" using m(2) by simp
    then have "Suc m = (e + 1) * 2 ^ 23 + 0" using m(1) by simp
    then have "f32_units (Suc m) = 2 ^ 23 * 2 ^ e" using u [of 0 "e + 1"] by (simp only:) simp
    moreover have "f32_units m = (if e = 0 then r else (2 ^ 23 + r) * 2 ^ (e - 1))" using u [OF m(2), of e] m(1) by simp
    ultimately show ?thesis using r by (cases e) simp_all
  qed
qed

lemma f32_units_less: "m < n \<Longrightarrow> f32_units m < f32_units n"
  by (rule lift_Suc_mono_less [of f32_units]) (rule f32_units_step)

lemma f32_units_le: "m \<le> n \<Longrightarrow> f32_units m \<le> f32_units n"
  using f32_units_less by (cases "m = n") (auto simp: less_imp_le)

lemma f32_units_0 [simp]: "f32_units 0 = 0"
  by (simp add: f32_units_def)

lemma f32_value_less: "f32_key x < f32_key y \<Longrightarrow> f32_value x < f32_value y"
  using f32_units_less [of "f32_magnitude x" "f32_magnitude y"] f32_units_less [of "f32_magnitude y" "f32_magnitude x"]
    f32_units_less [of 0 "f32_magnitude x"] f32_units_less [of 0 "f32_magnitude y"]
  by (cases "f32_magnitude x = 0"; cases "f32_magnitude y = 0")
    (auto simp: f32_value_def f32_signed_units_def f32_key_def divide_less_cancel split: if_splits)

lemma f32_value_eq: "f32_key x = f32_key y \<Longrightarrow> f32_value x = f32_value y"
proof -
  assume k: "f32_key x = f32_key y"
  then have "f32_magnitude x = f32_magnitude y \<and> (f32_magnitude x = 0 \<or> f32_sign x = f32_sign y)"
    by (auto simp: f32_key_def split: if_splits)
  then show ?thesis by (auto simp: f32_value_def f32_signed_units_def)
qed

lemma f32_value_le: "f32_key x \<le> f32_key y \<Longrightarrow> f32_value x \<le> f32_value y"
  using f32_value_less [of x y] f32_value_eq [of x y] by (auto simp: le_less)

lemma f32_value_key: "f32_value x < f32_value y \<longleftrightarrow> f32_key x < f32_key y"
  using f32_value_less f32_value_le by (metis not_le)

lemma f32_value_pack: "m < 2 ^ 31 \<Longrightarrow> f32_value (f32_pack s m) = (if s then - 1 else 1) * real (f32_units m) / 2 ^ 149"
  by (simp add: f32_value_def f32_signed_units_def f32_pack_magnitude f32_pack_sign)

lemma f32_value_abs: "\<bar>f32_value x\<bar> = real (f32_units (f32_magnitude x)) / 2 ^ 149"
  by (simp add: f32_value_def f32_signed_units_def)

lemma signed_abs: "\<bar>(if s then - 1 else 1) * x / 2 ^ 149\<bar> = \<bar>x :: real\<bar> / 2 ^ 149"
  by (cases s) (simp_all only: abs_divide if_True if_False mult_minus1 mult_1 abs_minus_cancel power_abs abs_numeral)

lemma signed_diff:
  "(if s then - 1 else 1) * x / 2 ^ 149 - (if s then - 1 else 1) * (y / 2 ^ 149) = (if s then - 1 else 1) * (x - y :: real) / 2 ^ 149"
  by (cases s) (simp_all add: diff_divide_distrib)

lemma unscale: "z / 2 ^ 149 = w \<Longrightarrow> w \<le> 2 ^ 127 \<Longrightarrow> z \<le> (2 :: real) ^ 276"
  by (simp add: field_simps)

section \<open>Rounding\<close>

text \<open>The error of a rounded fraction of units: half a unit, or a relative \<open>2 ^ -24\<close>.\<close>

lemma f32_round_error:
  assumes "0 < b" "f32_round a b < f32_inf_bits"
  shows "\<bar>real (f32_units (f32_round a b)) - real a / real b\<bar> \<le> 1 / 2 + real a / real b / 2 ^ 24"
    and "b = 1 \<Longrightarrow> \<bar>real (f32_units (f32_round a b)) - real a\<bar> \<le> real a / 2 ^ 24"
proof -
  define k where "k = bit_length (a div b) - 24"
  define r where "r = real (f32_units (f32_round a b))"
  have "2 * \<bar>int (f32_units (f32_round a b) * b) - int a\<bar> \<le> int (b * 2 ^ k)"
    using f32_round_exact(2) [OF assms k_def] .
  then have "real_of_int (2 * \<bar>int (f32_units (f32_round a b) * b) - int a\<bar>) \<le> real_of_int (int (b * 2 ^ k))"
    by (simp only: of_int_le_iff)
  then have e: "2 * \<bar>r * real b - real a\<bar> \<le> real b * 2 ^ k" by (simp add: r_def)
  have "r * real b - real a = (r - real a / real b) * real b" using assms(1) by (simp add: field_simps)
  then have "2 * \<bar>r - real a / real b\<bar> * real b \<le> 2 ^ k * real b" using e by (simp add: abs_mult mult.commute)
  then have e: "2 * \<bar>r - real a / real b\<bar> \<le> 2 ^ k" using assms(1) by simp
  have large: "2 ^ k \<le> real a / real b / 2 ^ 23" if "k \<noteq> 0"
  proof -
    have "bit_length 0 = 0" by (simp add: bit_length.simps)
    then have "a div b \<noteq> 0" using that unfolding k_def by (metis zero_diff)
    then have "2 ^ (bit_length (a div b) - 1) \<le> a div b" using bit_length_bounds [of "a div b"] by auto
    moreover have "bit_length (a div b) - 1 = 23 + k" using that by (simp add: k_def)
    ultimately have "2 ^ 23 * 2 ^ k * b \<le> a" using assms(1) by (simp add: less_eq_div_iff_mult_less_eq power_add)
    then have "real (2 ^ 23 * 2 ^ k * b) \<le> real a" by (simp only: of_nat_le_iff)
    then show ?thesis using assms(1) by (simp add: field_simps)
  qed
  show "\<bar>real (f32_units (f32_round a b)) - real a / real b\<bar> \<le> 1 / 2 + real a / real b / 2 ^ 24"
  proof (cases "k = 0")
    case True
    then have "\<bar>r - real a / real b\<bar> \<le> 1 / 2" using e by simp
    moreover have "0 \<le> real a / real b / 2 ^ 24" by simp
    ultimately show ?thesis unfolding r_def by linarith
  next
    case False
    then show ?thesis using e large unfolding r_def by simp
  qed
  show "\<bar>real (f32_units (f32_round a b)) - real a\<bar> \<le> real a / 2 ^ 24" if b: "b = 1"
  proof (cases "k = 0")
    case True
    then have "f32_units (f32_round a b) = a"
      using f32_round_exact(1) [OF assms k_def] b by (simp add: round_half_even_def)
    then show ?thesis by simp
  next
    case False
    then show ?thesis using e large b unfolding r_def by simp
  qed
qed

lemma f32_round_below:
  assumes "0 < b" "real a / real b \<le> 2 ^ 276"
  shows "f32_round a b < f32_inf_bits"
proof -
  have "real a \<le> real (b * 2 ^ (23 + 253))" using assms by (simp add: field_simps)
  then have "a \<le> b * 2 ^ (23 + 253)" by (simp only: of_nat_le_iff)
  from f32_round_le_power [OF assms(1) this] show ?thesis by (simp add: f32_inf_bits_def)
qed

section \<open>Operations\<close>

lemma f32_add_value:
  assumes "f32_is_finite x" "f32_is_finite y" "\<bar>f32_value x + f32_value y\<bar> \<le> 2 ^ 127"
  shows "f32_is_finite (f32_add x y) \<and>
    \<bar>f32_value (f32_add x y) - (f32_value x + f32_value y)\<bar> \<le> f32_eps * \<bar>f32_value x + f32_value y\<bar>"
proof -
  define i where "i = f32_signed_units x + f32_signed_units y"
  have v: "f32_value x + f32_value y = real_of_int i / 2 ^ 149" by (simp add: f32_value_def i_def add_divide_distrib)
  have add: "f32_add x y = (if i = 0 then f32_pack (f32_sign x \<and> f32_sign y) 0 else f32_pack (i < 0) (f32_round (nat \<bar>i\<bar>) 1))"
    using assms(1,2) by (auto simp: f32_add_def i_def f32_is_finite_def f32_is_nan_def Let_def)
  show ?thesis
  proof (cases "i = 0")
    case True
    then show ?thesis by (simp add: add v f32_value_pack f32_is_finite_def f32_pack_magnitude f32_inf_bits_def)
  next
    case False
    define n where "n = nat \<bar>i\<bar>"
    have n: "real n = \<bar>real_of_int i\<bar>" by (simp add: n_def)
    have "real n \<le> 2 ^ 276" using assms(3) by (simp add: v n field_simps)
    then have fin: "f32_round n 1 < f32_inf_bits" by (intro f32_round_below) simp_all
    have e: "\<bar>real (f32_units (f32_round n 1)) - real n\<bar> \<le> real n / 2 ^ 24"
      using f32_round_error(2) [OF _ fin] by simp
    have s: "f32_value (f32_add x y) = (if i < 0 then - 1 else 1) * real (f32_units (f32_round n 1)) / 2 ^ 149"
      using False by (simp only: add n_def [symmetric] if_False f32_value_pack [OF f32_round_fits])
    have w: "real_of_int i = (if i < 0 then - 1 else 1) * real n" using n by simp
    have "f32_value (f32_add x y) - (f32_value x + f32_value y) =
        (if i < 0 then - 1 else 1) * (real (f32_units (f32_round n 1)) - real n) / 2 ^ 149"
      unfolding s v w by (simp only: signed_diff [symmetric] times_divide_eq_right)
    then have "\<bar>f32_value (f32_add x y) - (f32_value x + f32_value y)\<bar> = \<bar>real (f32_units (f32_round n 1)) - real n\<bar> / 2 ^ 149"
      by (simp only: signed_abs)
    also have "\<dots> \<le> real n / 2 ^ 24 / 2 ^ 149" using e by (simp add: divide_right_mono)
    also have "\<dots> = f32_eps * \<bar>f32_value x + f32_value y\<bar>" by (simp add: f32_eps_def v n)
    finally show ?thesis using fin False by (simp add: add n_def f32_is_finite_def)
  qed
qed

lemma f32_negate:
  "f32_magnitude (f32_pack (\<not> f32_sign y) (f32_magnitude y)) = f32_magnitude y"
  "f32_value (f32_pack (\<not> f32_sign y) (f32_magnitude y)) = - f32_value y"
  using f32_magnitude_less [of y]
  by (simp_all add: f32_pack_magnitude f32_value_pack) (simp add: f32_value_def f32_signed_units_def)

lemma f32_sub_value:
  assumes "f32_is_finite x" "f32_is_finite y" "\<bar>f32_value x - f32_value y\<bar> \<le> 2 ^ 127"
  shows "f32_is_finite (f32_sub x y) \<and>
    \<bar>f32_value (f32_sub x y) - (f32_value x - f32_value y)\<bar> \<le> f32_eps * \<bar>f32_value x - f32_value y\<bar>"
  using f32_add_value [of x "f32_pack (\<not> f32_sign y) (f32_magnitude y)"] assms
  by (simp add: f32_sub_def f32_negate f32_is_finite_def)

lemma f32_rounded_value:
  assumes "0 < b" "real a / real b \<le> 2 ^ 276"
  shows "f32_is_finite (f32_pack s (f32_round a b)) \<and>
    \<bar>f32_value (f32_pack s (f32_round a b)) - (if s then - 1 else 1) * (real a / real b / 2 ^ 149)\<bar>
      \<le> f32_tiny + f32_eps * (real a / real b / 2 ^ 149)"
proof -
  define q where "q = real a / real b"
  define g :: real where "g = (if s then - 1 else 1)"
  have fin: "f32_round a b < f32_inf_bits" using f32_round_below [OF assms] .
  have e: "\<bar>real (f32_units (f32_round a b)) - q\<bar> \<le> 1 / 2 + q / 2 ^ 24"
    using f32_round_error(1) [OF assms(1) fin] by (simp only: q_def)
  have "f32_value (f32_pack s (f32_round a b)) - g * (q / 2 ^ 149) = g * (real (f32_units (f32_round a b)) - q) / 2 ^ 149"
    by (simp only: f32_value_pack [OF f32_round_fits] g_def signed_diff)
  then have "\<bar>f32_value (f32_pack s (f32_round a b)) - g * (q / 2 ^ 149)\<bar> = \<bar>real (f32_units (f32_round a b)) - q\<bar> / 2 ^ 149"
    by (simp only: g_def signed_abs)
  also have "\<dots> \<le> (1 / 2 + q / 2 ^ 24) / 2 ^ 149" using e by (rule divide_right_mono) simp
  also have "\<dots> = f32_tiny + f32_eps * (q / 2 ^ 149)" by (simp add: f32_tiny_def f32_eps_def field_simps)
  finally show ?thesis using fin by (simp add: f32_is_finite_def g_def q_def)
qed

lemma f32_mul_value:
  assumes "f32_is_finite x" "f32_is_finite y" "\<bar>f32_value x * f32_value y\<bar> \<le> 2 ^ 127"
  shows "f32_is_finite (f32_mul x y) \<and>
    \<bar>f32_value (f32_mul x y) - f32_value x * f32_value y\<bar> \<le> f32_tiny + f32_eps * \<bar>f32_value x * f32_value y\<bar>"
proof -
  let ?a = "f32_units (f32_magnitude x) * f32_units (f32_magnitude y)" and ?s = "f32_sign x \<noteq> f32_sign y"
  have m: "f32_mul x y = f32_pack ?s (f32_round ?a (2 ^ 149))"
    using assms(1,2) by (auto simp: f32_mul_def f32_is_finite_def f32_is_nan_def Let_def)
  have q: "real ?a / real (2 ^ 149) / 2 ^ 149 = \<bar>f32_value x * f32_value y\<bar>"
    by (simp add: abs_mult f32_value_abs)
  have s: "f32_value x * f32_value y = (if ?s then - 1 else 1) * \<bar>f32_value x * f32_value y\<bar>"
    by (auto simp: f32_value_def f32_signed_units_def abs_mult)
  have "real ?a / real (2 ^ 149) \<le> 2 ^ 276" using q assms(3) by (rule unscale)
  from f32_rounded_value [OF _ this, of ?s] show ?thesis unfolding m q s [symmetric] by simp
qed

lemma f32_div_value:
  assumes "f32_is_finite x" "f32_is_finite y" "f32_value y \<noteq> 0" "\<bar>f32_value x / f32_value y\<bar> \<le> 2 ^ 127"
  shows "f32_is_finite (f32_div x y) \<and>
    \<bar>f32_value (f32_div x y) - f32_value x / f32_value y\<bar> \<le> f32_tiny + f32_eps * \<bar>f32_value x / f32_value y\<bar>"
proof -
  let ?a = "f32_units (f32_magnitude x) * 2 ^ 149" and ?b = "f32_units (f32_magnitude y)" and ?s = "f32_sign x \<noteq> f32_sign y"
  have y: "f32_magnitude y \<noteq> 0" "0 < ?b"
    using assms(3) by (auto simp: f32_value_def f32_signed_units_def split: if_splits intro: Nat.gr0I)
  have m: "f32_div x y = f32_pack ?s (f32_round ?a ?b)"
    using assms(1,2) y(1) by (auto simp: f32_div_def f32_is_finite_def f32_is_nan_def Let_def)
  have q: "real ?a / real ?b / 2 ^ 149 = \<bar>f32_value x / f32_value y\<bar>"
    by (simp add: f32_value_abs)
  have s: "f32_value x / f32_value y = (if ?s then - 1 else 1) * \<bar>f32_value x / f32_value y\<bar>"
    by (auto simp: f32_value_def f32_signed_units_def)
  have "real ?a / real ?b \<le> 2 ^ 276" using q assms(4) by (rule unscale)
  from f32_rounded_value [OF y(2) this, of ?s] show ?thesis unfolding m q s [symmetric] by simp
qed

section \<open>Error of the quantisation, over the reals\<close>

text \<open>\<open>u\<close> is the relative error of one operation, \<open>h\<close> the absolute one.\<close>

lemma ratio_error:
  fixes u W D S d :: real
  assumes u: "0 < u" "u \<le> 1 / 100" and W: "0 < W" "0 \<le> D" "D \<le> W"
    and d: "\<bar>d - D\<bar> \<le> u * D" and S: "\<bar>S - W\<bar> \<le> u * W"
  shows "0 < S" "S \<le> 2 * W" "0 \<le> d / S" "d / S \<le> 1 + 3 * u" "\<bar>d / S - D / W\<bar> \<le> 3 * u"
proof -
  define T where "T = D / W"
  have T: "0 \<le> T" "T \<le> 1" "D = T * W" using W by (simp_all add: T_def field_simps)
  have uW: "u * W \<le> 1 / 100 * W" using u W by (intro mult_right_mono) simp_all
  have S2: "W - u * W \<le> S" "S \<le> W + u * W" using S by (simp_all add: abs_le_iff)
  then have S1: "(1 - u) * W \<le> S" "S \<le> (1 + u) * W" by (simp_all add: algebra_simps)
  show S0: "0 < S" "S \<le> 2 * W" using S2 uW W by linarith+
  have d1: "(1 - u) * D \<le> d" "d \<le> (1 + u) * D" using d by (simp_all add: abs_le_iff algebra_simps)
  have uu: "3 * (u * u) \<le> u"
  proof -
    have "u * u \<le> 1 / 100 * u" using u by (intro mult_right_mono) simp_all
    then show ?thesis using u by simp
  qed
  have up: "d \<le> (1 + 3 * u) * T * S"
  proof -
    have "(1 + u) * D \<le> ((1 + 3 * u) * (1 - u)) * D" using uu W(2) by (intro mult_right_mono) (simp_all add: algebra_simps)
    also have "\<dots> = ((1 + 3 * u) * T) * ((1 - u) * W)" by (simp add: T(3))
    also have "\<dots> \<le> ((1 + 3 * u) * T) * S" using S1(1) u T by (intro mult_left_mono) simp_all
    finally show ?thesis using d1(2) by simp
  qed
  have low: "(1 - 3 * u) * T * S \<le> d"
  proof -
    have "((1 - 3 * u) * T) * S \<le> ((1 - 3 * u) * T) * ((1 + u) * W)" using S1(2) u T by (intro mult_left_mono) simp_all
    also have "\<dots> = ((1 - 3 * u) * (1 + u)) * D" by (simp add: T(3))
    also have "\<dots> \<le> (1 - u) * D" using u W(2) by (intro mult_right_mono) (simp_all add: algebra_simps)
    finally show ?thesis using d1(1) by simp
  qed
  have q: "(1 - 3 * u) * T \<le> d / S" "d / S \<le> (1 + 3 * u) * T"
    using up low S0 by (simp_all add: divide_le_eq le_divide_eq)
  have "u * T \<le> u" using mult_left_mono [of T 1 u] T u by simp
  moreover have "T - 3 * (u * T) \<le> d / S" "d / S \<le> T + 3 * (u * T)" using q by (simp_all add: algebra_simps)
  ultimately have "\<bar>d / S - T\<bar> \<le> 3 * u \<and> d / S \<le> 1 + 3 * u" using T(2) by (simp add: abs_le_iff)
  then show "\<bar>d / S - D / W\<bar> \<le> 3 * u" "d / S \<le> 1 + 3 * u" by (simp_all only: T_def)
  have "0 \<le> (1 - u) * D" using u W(2) by (intro mult_nonneg_nonneg) simp_all
  then have "0 \<le> d" using d1(1) by linarith
  then show "0 \<le> d / S" using S0(1) by simp
qed

lemma code_error:
  fixes u h T ds q0 q m c :: real
  assumes u: "0 < u" "u \<le> 1 / 100" and h: "0 \<le> h" "h \<le> u / 4" and T: "0 \<le> T" "T \<le> 1"
    and ds: "0 \<le> ds" "ds \<le> 1 + 3 * u" "\<bar>ds - T\<bar> \<le> 3 * u" and q0: "\<bar>q0 - ds\<bar> \<le> h + u * ds"
    and q: "q = max 0 (min 1 q0)" and m: "\<bar>m - q * 65535\<bar> \<le> h + u * (q * 65535)"
    and c: "\<bar>c - 65535 * T\<bar> \<le> 1 / 2 + \<bar>m - 65535 * T\<bar>"
  shows "\<bar>c / 65535 - T\<bar> \<le> 1 / 131070 + 7 * u"
proof -
  have "u * ds \<le> u * (103 / 100)" using ds u by (intro mult_left_mono) simp_all
  then have "\<bar>q0 - T\<bar> \<le> 5 * u" using q0 ds(3) h u by linarith
  then have qT: "\<bar>q - T\<bar> \<le> 5 * u" using T by (auto simp: q abs_le_iff max_def min_def)
  have "0 \<le> q" "q \<le> 1" by (simp_all add: q)
  then have "u * (q * 65535) \<le> u * 65535" using u by (intro mult_left_mono) simp_all
  then have "\<bar>m - 65535 * T\<bar> \<le> 65535 * (7 * u)" using m h qT u by linarith
  with c have "\<bar>c - 65535 * T\<bar> \<le> 65535 * (1 / 131070 + 7 * u)" by simp
  then show ?thesis by (simp add: abs_le_iff field_simps)
qed

lemma decode_error:
  fixes u h W D S x n p l r M :: real
  assumes u: "0 < u" "u \<le> 1 / 100" and h: "0 \<le> h" "h \<le> u / 4" and W: "0 < W" "0 \<le> D" "D \<le> W"
    and S: "\<bar>S - W\<bar> \<le> u * W" and x: "0 \<le> x" "x \<le> 1" "\<bar>x - D / W\<bar> \<le> 1 / 131070 + 7 * u"
    and n: "\<bar>n - x\<bar> \<le> h + u * x" and p: "\<bar>p - n * S\<bar> \<le> h + u * \<bar>n * S\<bar>"
    and r: "\<bar>r - (l + p)\<bar> \<le> u * \<bar>l + p\<bar>" and M: "\<bar>l + D\<bar> \<le> M"
  shows "\<bar>n * S\<bar> \<le> 2 * W" "\<bar>p - D\<bar> \<le> W + h" "\<bar>r - (l + D)\<bar> \<le> W * (1 / 131070 + 16 * u) + u * M + 2 * h"
proof -
  define T where "T = D / W"
  have T: "0 \<le> T" "T \<le> 1" "D = T * W" using W by (simp_all add: T_def field_simps)
  define e where "e = (1 / 131070 :: real)"
  have e: "0 < e" "e \<le> 1 / 1000" by (simp_all add: e_def)
  have uW: "u * W \<le> 1 / 100 * W" using u W by (intro mult_right_mono) simp_all
  have uu: "u * u \<le> 1 / 100 * u" using u by (intro mult_right_mono) simp_all
  have Sb: "0 \<le> S" "S \<le> 101 / 100 * W" "S \<le> W + u * W" using S uW W(1) by linarith+
  then have Sb: "0 \<le> S" "S \<le> 101 / 100 * W" "S \<le> (1 + u) * W" by (simp_all add: algebra_simps)
  have ux: "u * x \<le> u" using u x mult_left_mono [of x 1 u] by simp
  have nb: "\<bar>n\<bar> \<le> 102 / 100" using n h u x ux by linarith
  have nS: "\<bar>n * S\<bar> \<le> 102 / 100 * (101 / 100 * W)"
    unfolding abs_mult using nb Sb by (intro mult_mono) simp_all
  then show "\<bar>n * S\<bar> \<le> 2 * W" using W(1) by linarith
  have nT: "\<bar>n - T\<bar> \<le> e + 33 / 4 * u" using n x(3) [folded T_def e_def] ux h u by linarith
  have "\<bar>(n - T) * S\<bar> \<le> (e + 33 / 4 * u) * ((1 + u) * W)"
    unfolding abs_mult using nT Sb u W(1) e by (intro mult_mono) simp_all
  also have "\<dots> = (e + e * u + 33 / 4 * u + 33 / 4 * (u * u)) * W" by (simp add: algebra_simps)
  also have "\<dots> \<le> (e + 84 / 10 * u) * W"
  proof (intro mult_right_mono)
    have "e * u \<le> 1 / 1000 * u" using e u by (intro mult_right_mono) simp_all
    then show "e + e * u + 33 / 4 * u + 33 / 4 * (u * u) \<le> e + 84 / 10 * u" using uu u by linarith
  qed (use W(1) in simp)
  finally have a: "\<bar>(n - T) * S\<bar> \<le> e * W + 84 / 10 * (u * W)" by (simp add: algebra_simps)
  have "\<bar>T * (S - W)\<bar> \<le> 1 * (u * W)" unfolding abs_mult using T S u W(1) by (intro mult_mono) simp_all
  moreover have "n * S - D = (n - T) * S + T * (S - W)" by (simp add: T(3) algebra_simps)
  ultimately have b: "\<bar>n * S - D\<bar> \<le> e * W + 94 / 10 * (u * W)" using a by linarith
  have "u * \<bar>n * S\<bar> \<le> u * (102 / 100 * (101 / 100 * W))" using nS u by (intro mult_left_mono) simp_all
  then have pD: "\<bar>p - D\<bar> \<le> e * W + 105 / 10 * (u * W) + h" using p b u W(1) mult_pos_pos [OF u(1) W(1)] by linarith
  have eW: "e * W \<le> 1 / 1000 * W" using e W(1) by (intro mult_right_mono) simp_all
  then show "\<bar>p - D\<bar> \<le> W + h" using pD uW W(1) by linarith
  have "\<bar>l + p\<bar> \<le> M + (e * W + 105 / 10 * (u * W) + h)" using pD M by linarith
  also have "\<dots> \<le> M + (11 / 100 * W + h)" using eW uW W(1) by linarith
  finally have "u * \<bar>l + p\<bar> \<le> u * (M + (11 / 100 * W + h))" using u by (intro mult_left_mono) simp_all
  also have "\<dots> = u * M + 11 / 100 * (u * W) + u * h" by (simp add: algebra_simps)
  also have "\<dots> \<le> u * M + 11 / 100 * (u * W) + h" using mult_right_mono [of u 1 h] u h by simp
  finally have "\<bar>r - (l + D)\<bar> \<le> e * W + 16 * (u * W) + u * M + 2 * h"
    using r pD mult_pos_pos [OF u(1) W(1)] by linarith
  then show "\<bar>r - (l + D)\<bar> \<le> W * (1 / 131070 + 16 * u) + u * M + 2 * h" by (simp add: e_def algebra_simps)
qed

section \<open>Quantising a continuous value\<close>

lemma f32_value_consts [simp]: "f32_value F32_ZERO = 0" "f32_value F32_ONE = 1"
  by (simp_all add: f32_value_def f32_signed_units_def f32_sign_def f32_magnitude_def f32_consts f32_units_def)

lemma q16_scale: "f32_is_finite PERFORMANCE_Q16_SCALE" "f32_value PERFORMANCE_Q16_SCALE = 65535"
  by (simp_all add: f32_value_def f32_signed_units_def f32_sign_def f32_magnitude_def PERFORMANCE_Q16_SCALE_def f32_units_def
      f32_is_finite_def f32_inf_bits_def)

lemma f32_clamp01_value:
  assumes "f32_is_finite x"
  shows "f32_is_finite (f32_clamp01 x)" "f32_value (f32_clamp01 x) = max 0 (min 1 (f32_value x))"
proof -
  note k = f32_value_key [of x F32_ZERO] f32_value_key [of F32_ONE x]
  show "f32_is_finite (f32_clamp01 x)" using assms f32_clamp01_bounds by simp
  show "f32_value (f32_clamp01 x) = max 0 (min 1 (f32_value x))"
    using assms k by (auto simp: f32_clamp01_cases max_def min_def not_less)
qed

lemma f32_round_u16_value:
  assumes "f32_is_finite x" "0 \<le> f32_value x" "0 \<le> z" "z \<le> 65535"
  shows "\<bar>real (unat (f32_round_as_u16 x)) - z\<bar> \<le> 1 / 2 + \<bar>f32_value x - z\<bar>"
proof (cases "f32_sign x")
  case True
  then have "f32_value x \<le> 0" by (simp add: f32_value_def f32_signed_units_def)
  with assms(2) True assms(1) show ?thesis by (simp add: f32_round_as_u16_def)
next
  case False
  define n where "n = f32_units (f32_magnitude x)"
  define k where "k = (2 * n + 2 ^ 149) div 2 ^ 150"
  have v: "f32_value x = real n / 2 ^ 149" using False by (simp add: f32_value_def f32_signed_units_def n_def)
  have c: "unat (f32_round_as_u16 x) = min 65535 k"
    using False assms(1) by (simp add: f32_round_as_u16_def f32_is_finite_def f32_is_nan_def n_def k_def unat_of_nat)
  have "k * 2 ^ 150 \<le> 2 * n + 2 ^ 149" "2 * n + 2 ^ 149 < (k + 1) * 2 ^ 150"
    unfolding k_def by (simp_all add: div_times_less_eq_dividend dividend_less_div_times del: power_numeral)
  then have "real (k * 2 ^ 150) \<le> real (2 * n + 2 ^ 149)" "real (2 * n + 2 ^ 149) < real ((k + 1) * 2 ^ 150)"
    by (simp_all only: of_nat_le_iff of_nat_less_iff)
  then have "real k \<le> f32_value x + 1 / 2" "f32_value x + 1 / 2 < real k + 1" by (simp_all add: v field_simps)
  then have "\<bar>real k - f32_value x\<bar> \<le> 1 / 2" by linarith
  then have "\<bar>real (min 65535 k) - z\<bar> \<le> 1 / 2 + \<bar>f32_value x - z\<bar>"
    using assms(3,4) unfolding of_nat_min of_nat_numeral by linarith
  then show ?thesis by (simp only: c)
qed

lemma f32_round_0: "f32_round 0 b = 0"
proof -
  have "bit_length 0 = 0" by (subst bit_length.simps) simp
  then show ?thesis by (cases b) (simp_all add: f32_round_def round_half_even_def)
qed

lemma f32_mul_nonneg:
  assumes "f32_is_finite x" "f32_is_finite y" "0 \<le> f32_value x" "0 \<le> f32_value y"
  shows "0 \<le> f32_value (f32_mul x y)"
proof -
  let ?a = "f32_units (f32_magnitude x) * f32_units (f32_magnitude y)" and ?s = "f32_sign x \<noteq> f32_sign y"
  have m: "f32_mul x y = f32_pack ?s (f32_round ?a (2 ^ 149))"
    using assms(1,2) by (auto simp: f32_mul_def f32_is_finite_def f32_is_nan_def Let_def)
  have "?a = 0" if ?s
    using that assms(3,4) by (auto simp: f32_value_def f32_signed_units_def zero_le_divide_iff split: if_splits)
  then show ?thesis by (simp only: m f32_value_pack [OF f32_round_fits]) (auto simp: f32_round_0)
qed

text \<open>Ends up to \<open>2 ^ 120\<close>: no operation can overflow.\<close>

definition moderate_range :: "f32 \<Rightarrow> f32 \<Rightarrow> bool" where
  "moderate_range lo hi \<longleftrightarrow> \<bar>f32_value lo\<bar> \<le> 2 ^ 120 \<and> \<bar>f32_value hi\<bar> \<le> 2 ^ 120"

text \<open>Half a step of the 65535, plus what the seven roundings of encoding and decoding may add.\<close>

definition unit_tolerance :: "f32 \<Rightarrow> f32 \<Rightarrow> real" where
  "unit_tolerance lo hi = (f32_value hi - f32_value lo) * (1 / 131070 + 1 / 2 ^ 20) +
     max \<bar>f32_value lo\<bar> \<bar>f32_value hi\<bar> / 2 ^ 24 + 1 / 2 ^ 149"

lemma unit_range:
  assumes law: "law_validate (PlUnit lo hi) = Inr ()" and mod: "moderate_range lo hi" and v: "f32_is_finite v"
    and W: "W = f32_value hi - f32_value lo" and D: "D = f32_value (f32_clamp lo hi v) - f32_value lo"
  shows "f32_is_finite lo" "f32_is_finite hi" "f32_is_finite (f32_clamp lo hi v)" "0 < W" "0 \<le> D" "D \<le> W" "W \<le> 2 ^ 121"
    "f32_is_finite (f32_sub hi lo)" "\<bar>f32_value (f32_sub hi lo) - W\<bar> \<le> f32_eps * W"
proof -
  show fin: "f32_is_finite lo" "f32_is_finite hi" using law by (auto split: if_splits)
  have key: "f32_key lo < f32_key hi" using law by (auto simp: f32_le_def not_le split: if_splits)
  show W0: "0 < W" using f32_value_less [OF key] by (simp add: W)
  show x: "f32_is_finite (f32_clamp lo hi v)" "0 \<le> D" "D \<le> W"
    using f32_clamp_bounds [OF fin, of v] fin key v f32_value_le by (auto simp: D W f32_le_def)
  show W1: "W \<le> 2 ^ 121" using mod unfolding moderate_range_def W by auto
  show "f32_is_finite (f32_sub hi lo)" "\<bar>f32_value (f32_sub hi lo) - W\<bar> \<le> f32_eps * W"
    using f32_sub_value [OF fin(2) fin(1)] W0 W1 by (simp_all add: W)
qed

lemma eps_bounds: "0 < f32_eps" "f32_eps \<le> 1 / 100" "0 \<le> f32_tiny" "f32_tiny \<le> f32_eps / 4"
  by (simp_all add: f32_eps_def f32_tiny_def)

text \<open>The code is the position of the value in its range, within half a step and the roundings of encoding.\<close>

lemma unit_code_error:
  assumes law: "law_validate (PlUnit lo hi) = Inr ()" and mod: "moderate_range lo hi" and v: "f32_is_finite v"
    and W: "W = f32_value hi - f32_value lo" and D: "D = f32_value (f32_clamp lo hi v) - f32_value lo"
    and enc: "law_encode (PlUnit lo hi) (PvContinuous v) = Some code"
  shows "\<bar>real (unat code) / 65535 - D / W\<bar> \<le> 1 / 131070 + 7 * f32_eps"
proof -
  note range = unit_range [OF law mod v W D]
  define d where "d = f32_sub (f32_clamp lo hi v) lo"
  define S where "S = f32_sub hi lo"
  define q0 where "q0 = f32_div d S"
  define m where "m = f32_mul (f32_clamp01 q0) PERFORMANCE_Q16_SCALE"
  have code: "code = f32_round_as_u16 m"
    using enc v by (simp add: m_def q0_def d_def S_def f32_clamp01_def Let_def)
  have d: "f32_is_finite d" "\<bar>f32_value d - D\<bar> \<le> f32_eps * D"
    using f32_sub_value [OF range(3) range(1)] range(5-7) by (simp_all add: d_def D)
  note ratio = ratio_error [OF eps_bounds(1,2) range(4-6) d(2) range(9) [folded S_def]]
  have pos: "\<bar>f32_value d / f32_value S\<bar> = f32_value d / f32_value S" using ratio(3) by (rule abs_of_nonneg)
  have "f32_value d / f32_value S \<le> 2 ^ 127" using ratio(4) eps_bounds(2) by simp
  then have q0: "f32_is_finite q0"
    "\<bar>f32_value q0 - f32_value d / f32_value S\<bar> \<le> f32_tiny + f32_eps * (f32_value d / f32_value S)"
    using f32_div_value [OF d(1) range(8) [folded S_def], unfolded pos] ratio(1) by (simp_all add: q0_def)
  note q = f32_clamp01_value [OF q0(1)]
  have q01: "0 \<le> f32_value (f32_clamp01 q0)" "f32_value (f32_clamp01 q0) \<le> 1" by (simp_all add: q(2))
  have m: "f32_is_finite m"
    "\<bar>f32_value m - f32_value (f32_clamp01 q0) * 65535\<bar> \<le> f32_tiny + f32_eps * (f32_value (f32_clamp01 q0) * 65535)"
    using f32_mul_value [OF q(1) q16_scale(1)] q01 by (simp_all add: m_def q16_scale)
  have m0: "0 \<le> f32_value m" unfolding m_def using q(1) q01(1) q16_scale by (intro f32_mul_nonneg) simp_all
  have T: "0 \<le> D / W" "D / W \<le> 1" using range(4-6) by simp_all
  have "\<bar>real (unat code) - 65535 * (D / W)\<bar> \<le> 1 / 2 + \<bar>f32_value m - 65535 * (D / W)\<bar>"
    unfolding code by (rule f32_round_u16_value [OF m(1) m0]) (use T in simp_all)
  with code_error [OF eps_bounds T ratio(3-5) q0(2) q(2) m(2)] show ?thesis by blast
qed

lemma unit_law_error:
  assumes law: "law_validate (PlUnit lo hi) = Inr ()" and mod: "moderate_range lo hi" and v: "f32_is_finite v"
    and enc: "law_encode (PlUnit lo hi) (PvContinuous v) = Some code"
  shows "\<exists>r. law_decode (PlUnit lo hi) code = Some (PvContinuous r) \<and> f32_is_finite r \<and>
    \<bar>f32_value r - f32_value (f32_clamp lo hi v)\<bar> \<le> unit_tolerance lo hi"
proof -
  define W where "W = f32_value hi - f32_value lo"
  define D where "D = f32_value (f32_clamp lo hi v) - f32_value lo"
  note range = unit_range [OF law mod v W_def D_def] and ce = unit_code_error [OF law mod v W_def D_def enc]
  define c where "c = real (unat code)"
  define S where "S = f32_sub hi lo"
  define n where "n = f32_div (f32_of_nat (unat code)) PERFORMANCE_Q16_SCALE"
  define p where "p = f32_mul n S"
  define r where "r = f32_add lo p"
  let ?L = "f32_value lo"
  have dec: "law_decode (PlUnit lo hi) code = Some (PvContinuous r)" by (simp add: r_def p_def n_def S_def)
  have "unat code \<le> 65535" using unat_lt2p [of code] by simp
  then have "real (unat code) \<le> real 65535" by (simp only: of_nat_le_iff)
  moreover have "0 \<le> real (unat code)" by (rule of_nat_0_le_iff)
  ultimately have cr: "0 \<le> c / 65535" "c / 65535 \<le> 1" unfolding c_def by simp_all
  have cv: "f32_is_finite (f32_of_nat (unat code))" "f32_value (f32_of_nat (unat code)) = c"
    using f32_of_nat_exact [of "unat code"] unat_lt2p [of code] by (simp_all add: f32_value_def f32_signed_units_def c_def)
  have n: "f32_is_finite n" "\<bar>f32_value n - c / 65535\<bar> \<le> f32_tiny + f32_eps * (c / 65535)"
    using f32_div_value [OF cv(1) q16_scale(1)] cr by (simp_all add: n_def cv q16_scale)
  have M: "\<bar>?L + D\<bar> \<le> max \<bar>?L\<bar> \<bar>f32_value hi\<bar>" using range(5,6) unfolding W_def by linarith
  note de = decode_error [OF eps_bounds range(4-6) range(9) [folded S_def] cr ce [folded c_def] n(2) _ _ M]
  have "\<bar>f32_value n * f32_value S\<bar> \<le> 2 * W"
    by (rule de(1) [of "f32_value n * f32_value S" "?L + f32_value n * f32_value S"]) (use eps_bounds in simp_all)
  then have p: "f32_is_finite p"
    "\<bar>f32_value p - f32_value n * f32_value S\<bar> \<le> f32_tiny + f32_eps * \<bar>f32_value n * f32_value S\<bar>"
    using f32_mul_value [OF n(1) range(8) [folded S_def]] range(7) by (simp_all add: p_def)
  have pD: "\<bar>f32_value p - D\<bar> \<le> W + f32_tiny" by (rule de(2) [OF p(2), of "?L + f32_value p"]) (use eps_bounds in simp)
  have "f32_tiny \<le> 1" "\<bar>?L\<bar> \<le> 2 ^ 120" using mod by (simp_all add: f32_tiny_def moderate_range_def)
  then have "\<bar>?L + f32_value p\<bar> \<le> 2 ^ 120 + 2 ^ 121 + 2 ^ 121 + 1" using pD range(5-7) by linarith
  also have "\<dots> \<le> 2 ^ 127" by simp
  finally have r: "f32_is_finite r" "\<bar>f32_value r - (?L + f32_value p)\<bar> \<le> f32_eps * \<bar>?L + f32_value p\<bar>"
    using f32_add_value [OF range(1) p(1)] by (simp_all add: r_def)
  have "\<bar>f32_value r - (?L + D)\<bar> \<le> unit_tolerance lo hi"
    using de(3) [OF p(2) r(2)] by (simp add: W_def unit_tolerance_def f32_eps_def f32_tiny_def)
  with dec r(1) show ?thesis by (auto simp: D_def)
qed

end
