(* ===== verification/Performance_Take_Replay.thy ===== *)
theory Performance_Take_Replay
  imports Performance_Take_Laws Float_Error
begin

text \<open>
  What a take plays back: recording stores an edit on the lattice of its address or refuses it without a trace, and the two
  cursors hand out every due event once, in order, whatever the frame rate.  The last section evaluates a law whose span
  overflows.
\<close>

section \<open>One recorded edit\<close>

lemma record_kept:
  assumes "take_ok t" "take_record_accepted t tick control law raw = (t', Inr True)"
  shows "\<exists>i new val. t' = t\<lparr>pt_addresses := pt_addresses t @ new,
        pt_events := pt_events t @ [\<lparr>pv_tick = tick, pv_address = of_nat i, pv_value = val\<rparr>], pt_length := max (pt_length t) tick\<rparr> \<and>
      new = (if control \<in> pa_control ` set (pt_addresses t) then [] else [\<lparr>pa_control = control, pa_law = law\<rparr>]) \<and>
      i < length (pt_addresses t @ new) \<and> pa_control ((pt_addresses t @ new) ! i) = control \<and>
      law_encode (pa_law ((pt_addresses t @ new) ! i)) raw = Some val"
proof (cases "vec_position (\<lambda>c. pa_control c = control) (pt_addresses t)")
  case (Some i)
  then have i: "i < length (pt_addresses t)" "pa_control (pt_addresses t ! i) = control" using vec_position_Some by fastforce+
  then have seen: "control \<in> pa_control ` set (pt_addresses t)" by force
  from assms(2) Some obtain val where "law_encode (pa_law (pt_addresses t ! i)) raw = Some val"
    "t' = t\<lparr>pt_events := pt_events t @ [\<lparr>pv_tick = tick, pv_address = of_nat i, pv_value = val\<rparr>], pt_length := max (pt_length t) tick\<rparr>"
    by (auto simp: take_record_accepted_def Let_def ok_or_def split: sum.splits if_splits option.splits)
  with i seen show ?thesis by (intro exI [of _ i] exI [of _ "[]"] exI [of _ val]) simp
next
  case None
  then have fresh: "control \<notin> pa_control ` set (pt_addresses t)" by (auto simp: vec_position_None)
  from assms(2) None obtain val where "law_encode law raw = Some val"
    "t' = t\<lparr>pt_addresses := pt_addresses t @ [\<lparr>pa_control = control, pa_law = law\<rparr>],
       pt_events := pt_events t @ [\<lparr>pv_tick = tick, pv_address = of_nat (length (pt_addresses t)), pv_value = val\<rparr>],
       pt_length := max (pt_length t) tick\<rparr>"
    by (auto simp: take_record_accepted_def Let_def ok_or_def rbind_Inr split: sum.splits if_splits option.splits)
  with fresh show ?thesis
    by (intro exI [of _ "length (pt_addresses t)"] exI [of _ "[\<lparr>pa_control = control, pa_law = law\<rparr>]"] exI [of _ val]) simp
qed

lemma record_refused: "take_record_accepted t tick control law raw = (t', Inl e) \<Longrightarrow> t' = t"
  by (auto simp: take_record_accepted_def Let_def split: sum.splits if_splits option.splits)

lemma record_full:
  "take_record_accepted t tick control law raw = (t', Inr False) \<Longrightarrow>
     t' = t\<lparr>pt_truncated := True\<rparr> \<and> MAX_PERFORMANCE_EVENTS \<le> length (pt_events t)"
  by (auto simp: take_record_accepted_def Let_def split: sum.splits if_splits option.splits)

text \<open>What playing a code gives.  Tokens and switches come back as they were, a stepped value comes back clamped into its
  range.  A continuous value comes back finite and within \<open>unit_tolerance\<close> of the value clamped into its range, if the ends
  of the range are at most \<open>2 ^ 120\<close> in magnitude; nothing is claimed of the value for wider ranges.\<close>

definition plays_value :: "value_law \<Rightarrow> raw_value \<Rightarrow> u16 \<Rightarrow> bool" where
  "plays_value law raw code \<longleftrightarrow>
     (case law of
        PlUnit lo hi \<Rightarrow>
          (\<exists>v r. raw = PvContinuous v \<and> law_decode law code = Some (PvContinuous r) \<and>
             (if moderate_range lo hi
              then f32_is_finite r \<and> \<bar>f32_value r - f32_value (f32_clamp lo hi v)\<bar> \<le> unit_tolerance lo hi else True))
      | PlDiscrete vocab \<Rightarrow> law_decode law code = Some raw
      | PlToggle \<Rightarrow> law_decode law code = Some raw
      | PlStepped lo hi \<Rightarrow> (\<exists>v. raw = PvInteger v \<and> law_decode law code = Some (PvInteger (i64_clamp lo hi v))))"

lemma encoded_plays:
  assumes "law_validate law = Inr ()" "law_encode law raw = Some code"
  shows "plays_value law raw code"
proof (cases law)
  case (PlUnit lo hi)
  with assms obtain v where v: "raw = PvContinuous v" "f32_is_finite v" by (cases raw) (auto simp: Let_def split: if_splits)
  obtain r where r: "law_decode law code = Some (PvContinuous r)" by (simp add: PlUnit)
  show ?thesis
  proof (cases "moderate_range lo hi")
    case True
    from unit_law_error [OF _ True v(2)] assms show ?thesis by (simp add: plays_value_def PlUnit v(1) True)
  next
    case False
    then show ?thesis using r by (simp add: plays_value_def PlUnit v(1))
  qed
next
  case (PlDiscrete vocab)
  then show ?thesis using decode_encoded [OF assms] by (simp add: plays_value_def)
next
  case PlToggle
  then show ?thesis using decode_encoded [OF assms] by (simp add: plays_value_def)
next
  case (PlStepped lo hi)
  with assms(2) obtain v where "raw = PvInteger v" by (cases raw) auto
  then show ?thesis using decode_encoded [OF assms] PlStepped by (simp add: plays_value_def)
qed

text \<open>What an accepted edit adds to a take: one event, on the address of its control, that plays the edit's value.\<close>

definition plays_edit ::
  "performance_take \<Rightarrow> performance_take \<Rightarrow> u32 \<Rightarrow> performance_control \<Rightarrow> value_law \<Rightarrow> raw_value \<Rightarrow> bool" where
  "plays_edit t t' tick control law raw \<longleftrightarrow>
     (\<exists>e a. pt_events t' = pt_events t @ [e] \<and> pv_tick e = tick \<and>
        unat (pv_address e) < length (pt_addresses t') \<and> a = pt_addresses t' ! unat (pv_address e) \<and> pa_control a = control \<and>
        (if control \<in> pa_control ` set (pt_addresses t) then pt_addresses t' = pt_addresses t
         else pt_addresses t' = pt_addresses t @ [a] \<and> pa_law a = law) \<and>
        law_encode (pa_law a) raw = Some (pv_value e) \<and> plays_value (pa_law a) raw (pv_value e))"

lemma kept_plays:
  assumes "take_ok t" "take_record_accepted t tick control law raw = (t', Inr True)"
  shows "plays_edit t t' tick control law raw"
proof -
  from record_kept [OF assms] obtain i new val where
    t': "t' = t\<lparr>pt_addresses := pt_addresses t @ new,
        pt_events := pt_events t @ [\<lparr>pv_tick = tick, pv_address = of_nat i, pv_value = val\<rparr>], pt_length := max (pt_length t) tick\<rparr>"
    and new: "new = (if control \<in> pa_control ` set (pt_addresses t) then [] else [\<lparr>pa_control = control, pa_law = law\<rparr>])"
    and i: "i < length (pt_addresses t @ new)" and c: "pa_control ((pt_addresses t @ new) ! i) = control"
    and enc: "law_encode (pa_law ((pt_addresses t @ new) ! i)) raw = Some val"
    by blast
  have ok: "take_ok t'" using record_ok [OF assms] .
  define a where "a = (pt_addresses t @ new) ! i"
  have "a \<in> set (pt_addresses t')" using i by (simp only: a_def t') (simp add: nth_mem del: set_append)
  then have valid: "law_validate (pa_law a) = Inr ()" using ok by (auto simp: take_ok_def address_validate_def rbind_Inr)
  have "length (pt_addresses t') \<le> 256" using ok by (simp add: take_ok_def MAX_PERFORMANCE_ADDRESSES_def)
  then have u: "unat (of_nat i :: u16) = i" using i by (simp add: t' unat_of_nat)
  have fresh: "new = [] \<or> new = [a] \<and> pa_law a = law" 
  proof (cases "i < length (pt_addresses t)")
    case True
    then have "control \<in> pa_control ` set (pt_addresses t)" using c by (auto simp: nth_append)
    then show ?thesis by (simp add: new)
  next
    case False
    then show ?thesis using i by (auto simp: new a_def nth_append split: if_splits)
  qed
  have dec: "plays_value (pa_law a) raw val" using encoded_plays [OF valid enc [folded a_def]] .
  let ?e = "\<lparr>pv_tick = tick, pv_address = of_nat i, pv_value = val\<rparr>"
  have as: "pt_addresses t' = pt_addresses t @ new" and es: "pt_events t' = pt_events t @ [?e]" by (simp_all add: t')
  have at: "pt_addresses t' ! unat (pv_address ?e) = a" "unat (pv_address ?e) < length (pt_addresses t')"
    using i by (simp_all only: as a_def u performance_event.select_convs)
  have known: "if control \<in> pa_control ` set (pt_addresses t) then pt_addresses t' = pt_addresses t
      else pt_addresses t' = pt_addresses t @ [a] \<and> pa_law a = law"
    using fresh by (cases "control \<in> pa_control ` set (pt_addresses t)") (simp_all only: as new if_True if_False append_Nil2, simp_all)
  have "pa_control a = control" "law_encode (pa_law a) raw = Some (pv_value ?e)" using c enc by (simp_all only: a_def performance_event.select_convs)
  with es at known dec show ?thesis unfolding plays_edit_def by (intro exI [of _ ?e] exI [of _ a] conjI) (simp_all only: performance_event.select_convs)
qed

text \<open>C22. What one recorded edit does.  An accepted edit adds exactly one event, on the address of its control, whose law is
  the one first recorded for it.  Playing that event gives a token or a switch back as it was, a stepped value clamped into
  the range of its law, and a continuous value, clamped into its range, up to half a step of the 65535 plus the rounding
  of the seven operations (at most 2^-20 of the range, 2^-24 of the larger end and 2^-149); the last holds for
  ranges whose ends are at most 2^120 in magnitude, and nothing is claimed of the value for wider ones.  A refused
  edit leaves the take unchanged, and an edit past the limit only marks the take as truncated.\<close>

theorem recorded_edit_plays_back:
  assumes "take_validate t = Inr ()" and "take_record_accepted t tick control law raw = (t', res)"
  shows "case res of Inl e \<Rightarrow> t' = t
    | Inr kept \<Rightarrow> if kept then plays_edit t t' tick control law raw
        else t' = t\<lparr>pt_truncated := True\<rparr> \<and> length (pt_events t) = MAX_PERFORMANCE_EVENTS"
proof -
  have ok: "take_ok t" using assms(1) by (simp add: take_validate_ok)
  show ?thesis
  proof (cases res)
    case (Inl e)
    then show ?thesis using record_refused assms(2) by simp
  next
    case (Inr kept)
    then show ?thesis
      using kept_plays [OF ok] record_full [of t tick control law raw t'] assms(2) ok
      by (cases kept) (auto simp: take_ok_def)
  qed
qed

definition sample_take :: performance_take where
  "sample_take = \<lparr>pt_addresses = [\<lparr>pa_control = PcMorphLaw, pa_law = PlDiscrete [lit ''cut'', lit ''fade'']\<rparr>,
       \<lparr>pa_control = PcLayerVisible 2, pa_law = PlToggle\<rparr>],
     pt_events = [\<lparr>pv_tick = 3, pv_address = 0, pv_value = 1\<rparr>, \<lparr>pv_tick = 7, pv_address = 1, pv_value = 0\<rparr>],
     pt_length = 9, pt_truncated = False, pt_incomplete = False\<rparr>"

lemma sample_take_valid: "take_validate sample_take = Inr ()"
  by code_simp

theorem recorded_edit_plays_back_witness:
  "plays_edit sample_take (fst (take_record_accepted sample_take 8 PcMorphLaw PlToggle (PvToken (lit ''cut'')))) 8 PcMorphLaw PlToggle
     (PvToken (lit ''cut''))"
proof -
  let ?r = "take_record_accepted sample_take 8 PcMorphLaw PlToggle (PvToken (lit ''cut''))"
  have "snd ?r = Inr True"
    by (simp add: take_record_accepted_def sample_take_def control_validate_def ok_or_def MAX_PERFORMANCE_EVENTS_def Let_def)
  then have r: "?r = (fst ?r, Inr True)" by (simp add: prod_eq_iff)
  from recorded_edit_plays_back [OF sample_take_valid r] show ?thesis by simp
qed

section \<open>Replay\<close>

lemma due_cursor_takeWhile:
  "due_cursor es tick c = c + length (takeWhile (\<lambda>e. pv_tick e \<le> tick) (drop c es))"
proof (induction es tick c rule: due_cursor.induct)
  case (1 es tick c)
  show ?case
  proof (cases "c < length es")
    case True
    then have "drop c es = es ! c # drop (c + 1) es" by (simp add: Cons_nth_drop_Suc)
    with True 1 show ?thesis by (subst due_cursor.simps) simp
  next
    case False
    then show ?thesis by (subst due_cursor.simps) simp
  qed
qed

fun replay_calls :: "performance_replay \<Rightarrow> u32 list \<Rightarrow> performance_event list" where
  "replay_calls r [] = []"
| "replay_calls r (k # ks) = (let (r', es) = replay_due r k in es @ replay_calls r' ks)"

lemma sorted_split_filter:
  "sorted (map f xs) \<Longrightarrow> takeWhile (\<lambda>x. f x \<le> (k :: 'a :: linorder)) xs = filter (\<lambda>x. f x \<le> k) xs \<and>
     dropWhile (\<lambda>x. f x \<le> k) xs = filter (\<lambda>x. \<not> f x \<le> k) xs"
proof (induction xs)
  case (Cons a xs)
  show ?case
  proof (cases "f a \<le> k")
    case True
    then show ?thesis using Cons by simp
  next
    case False
    then have "\<not> f x \<le> k" if "x \<in> set xs" for x using that Cons.prems order.trans [of "f a" "f x" k] by auto
    with False show ?thesis by (simp add: filter_empty_conv filter_id_conv)
  qed
qed simp

lemma replay_calls_filter:
  "sorted (map pv_tick (pr_events r)) \<Longrightarrow>
     replay_calls r ks = filter (\<lambda>e. \<exists>k \<in> set ks. pv_tick e \<le> k) (drop (pr_cursor r) (pr_events r))"
proof (induction ks arbitrary: r)
  case Nil
  show ?case by simp
next
  case (Cons k ks)
  let ?rest = "drop (pr_cursor r) (pr_events r)" and ?due = "\<lambda>e. pv_tick e \<le> k"
  define n where "n = length (takeWhile ?due ?rest)"
  have srt: "sorted (map pv_tick ?rest)" using Cons.prems sorted_wrt_drop by (simp add: drop_map [symmetric])
  have step: "replay_due r k = (r\<lparr>pr_cursor := pr_cursor r + n\<rparr>, takeWhile ?due ?rest)"
    by (simp add: replay_due_def due_cursor_takeWhile n_def takeWhile_eq_take [symmetric] Let_def)
  have "drop (pr_cursor r + n) (pr_events r) = dropWhile ?due ?rest"
    by (simp add: n_def dropWhile_eq_drop add.commute)
  with Cons have "replay_calls r (k # ks) = takeWhile ?due ?rest @ filter (\<lambda>e. \<exists>j \<in> set ks. pv_tick e \<le> j) (dropWhile ?due ?rest)"
    by (simp add: step)
  also have "takeWhile ?due ?rest = filter (\<lambda>e. \<exists>j \<in> set (k # ks). pv_tick e \<le> j) (takeWhile ?due ?rest)"
    by (rule filter_True [symmetric]) (auto dest: set_takeWhileD)
  also have "filter (\<lambda>e. \<exists>j \<in> set ks. pv_tick e \<le> j) (dropWhile ?due ?rest) =
      filter (\<lambda>e. \<exists>j \<in> set (k # ks). pv_tick e \<le> j) (dropWhile ?due ?rest)"
    by (rule filter_cong) (auto simp: sorted_split_filter [OF srt])
  also have "filter (\<lambda>e. \<exists>j \<in> set (k # ks). pv_tick e \<le> j) (takeWhile ?due ?rest) @
      filter (\<lambda>e. \<exists>j \<in> set (k # ks). pv_tick e \<le> j) (dropWhile ?due ?rest) =
      filter (\<lambda>e. \<exists>j \<in> set (k # ks). pv_tick e \<le> j) ?rest"
    by (simp only: filter_append [symmetric] takeWhile_dropWhile_id)
  finally show ?case .
qed

fun range_calls :: "nat \<Rightarrow> performance_event list \<Rightarrow> u32 list \<Rightarrow> performance_event list" where
  "range_calls c es [] = []"
| "range_calls c es (k # ks) =
     (let (c', lo, hi) = range_due c es k in take (hi - lo) (drop lo es) @ range_calls c' es ks)"

lemma range_calls_replay: "range_calls c es ks = replay_calls \<lparr>pr_events = es, pr_cursor = c\<rparr> ks"
  by (induction ks arbitrary: c) (simp_all add: range_due_def replay_due_def Let_def)

text \<open>C26. Replay does not depend on the frame rate: over any sequence of calls, with ticks in any order, both cursors hand
  out exactly the events at or before the latest tick asked for, each once and in the recorded order.\<close>

theorem replay_is_frame_rate_independent:
  assumes "take_validate t = Inr ()"
  shows "replay_calls (take_replay t) ks = filter (\<lambda>e. \<exists>k \<in> set ks. pv_tick e \<le> k) (pt_events t) \<and>
    range_calls 0 (pt_events t) ks = filter (\<lambda>e. \<exists>k \<in> set ks. pv_tick e \<le> k) (pt_events t)"
proof -
  have "sorted (map pv_tick (pr_events (take_replay t)))"
    using assms by (simp add: take_validate_ok take_ok_def take_replay_def)
  from replay_calls_filter [OF this] show ?thesis by (simp add: take_replay_def range_calls_replay)
qed

theorem replay_is_frame_rate_independent_witness:
  "replay_calls (take_replay sample_take) [6, 2, 8] = pt_events sample_take"
  using replay_is_frame_rate_independent [OF sample_take_valid, of "[6, 2, 8]"] by (simp add: sample_take_def)

section \<open>A law whose span overflows\<close>

definition widest_law :: value_law where
  "widest_law = PlUnit 0xFF7FFFFF 0x7F7FFFFF"

lemma bit_length_eq: "2 ^ j \<le> n \<Longrightarrow> n < 2 ^ Suc j \<Longrightarrow> bit_length n = Suc j"
proof -
  assume n: "2 ^ j \<le> n" "n < 2 ^ Suc j"
  have "0 < n" by (rule less_le_trans [OF _ n(1)]) simp
  from bit_length_bounds [OF this] have "n < 2 ^ bit_length n" ..
  with n(1) have "(2 :: nat) ^ j < 2 ^ bit_length n" by (rule le_less_trans)
  then have "j < bit_length n" by simp
  moreover have "bit_length n \<le> Suc j" using n(2) by (rule bit_length_le)
  ultimately show ?thesis by simp
qed

lemma f32_max_parts:
  "f32_magnitude 0x7F7FFFFF = 0x7F7FFFFF" "f32_sign 0x7F7FFFFF = False" "f32_is_nan 0x7F7FFFFF = False"
  "f32_magnitude 0xFF7FFFFF = 0x7F7FFFFF" "f32_sign 0xFF7FFFFF = True" "f32_is_nan 0xFF7FFFFF = False"
  "f32_magnitude 0x7F800000 = 0x7F800000" "f32_sign 0x7F800000 = False" "f32_is_nan 0x7F800000 = False"
  by (simp_all add: f32_sign_def f32_magnitude_def f32_is_nan_def f32_inf_bits_def)

lemma widest_span: "f32_sub 0x7F7FFFFF 0xFF7FFFFF = 0x7F800000"
proof -
  have flip: "f32_pack (\<not> f32_sign 0xFF7FFFFF) (f32_magnitude 0xFF7FFFFF) = 0x7F7FFFFF"
    by (simp add: f32_pack_def f32_max_parts)
  have units: "f32_signed_units 0x7F7FFFFF = int (0xFFFFFF * 2 ^ 253)"
    by (simp only: f32_signed_units_def f32_max_parts if_False f32_units_def) simp
  have len: "bit_length (0xFFFFFF * 2 ^ 254) = Suc 277"
    by (rule bit_length_eq) simp_all
  have "f32_round (0xFFFFFF * 2 ^ 254) 1 = 0x7F800000"
    unfolding f32_round_def div_by_1 len by (simp add: round_half_even_def f32_inf_bits_def Let_def)
  then have "f32_pack False (f32_round (nat \<bar>int (0xFFFFFF * 2 ^ 253) + int (0xFFFFFF * 2 ^ 253)\<bar>) 1) = 0x7F800000"
    by (simp add: f32_pack_def)
  then show ?thesis unfolding f32_sub_def flip
    by (simp add: f32_add_def f32_max_parts units f32_inf_bits_def Let_def)
qed

lemma widest_law_decodes_nan:
  "law_validate widest_law = Inr () \<and> law_encode widest_law (PvContinuous 0x7F7FFFFF) = Some 0 \<and>
     law_decode widest_law 0 = Some (PvContinuous F32_NAN)"
proof -
  have "law_validate widest_law = Inr ()"
    by (simp add: widest_law_def f32_is_finite_def f32_le_def f32_key_def f32_max_parts f32_inf_bits_def)
  moreover have "f32_clamp 0xFF7FFFFF 0x7F7FFFFF 0x7F7FFFFF = 0x7F7FFFFF"
    by (simp add: f32_clamp_def f32_lt_def f32_key_def f32_max_parts Let_def)
  moreover have "f32_div 0x7F800000 0x7F800000 = F32_NAN"
    by (simp add: f32_div_def f32_max_parts f32_inf_bits_def Let_def)
  moreover have "f32_clamp F32_ZERO F32_ONE F32_NAN = F32_NAN" "f32_mul F32_NAN PERFORMANCE_Q16_SCALE = F32_NAN"
    "f32_round_as_u16 F32_NAN = 0" "f32_add 0xFF7FFFFF F32_NAN = F32_NAN"
    by (simp_all add: f32_clamp_def f32_lt_def f32_mul_def f32_round_as_u16_def f32_add_def f32_is_nan_def f32_magnitude_def
        F32_NAN_def f32_inf_bits_def Let_def)
  moreover have "f32_mul (f32_div (f32_of_nat 0) PERFORMANCE_Q16_SCALE) 0x7F800000 = F32_NAN"
    by (simp add: f32_mul_def f32_div_def f32_of_nat_def f32_round_def bit_length.simps round_half_even_def f32_is_nan_def
        f32_magnitude_def f32_sign_def PERFORMANCE_Q16_SCALE_def f32_pack_def f32_inf_bits_def f32_units_def Let_def)
  ultimately show ?thesis
    by (simp add: widest_law_def widest_span f32_is_finite_def f32_max_parts f32_inf_bits_def Let_def)
qed

end
