(* ===== verification/Performance_Take_Bytes.thy ===== *)
theory Performance_Take_Bytes
  imports Performance_Take_Replay
begin

text \<open>
  The canonical bytes of a performance take determine it: every part of the stream is self-delimiting, so the
  digest covers every field.  The locale states what a self-delimiting encoder promises; texts, value laws and addresses
  are its instances.
\<close>

section \<open>Self-delimiting encoders\<close>

locale prefix_code =
  fixes enc :: "'a \<Rightarrow> bytes" and valid :: "'a \<Rightarrow> bool"
  assumes enc_append: "valid x \<Longrightarrow> valid y \<Longrightarrow> enc x @ r = enc y @ s \<Longrightarrow> x = y \<and> r = s"
begin

lemma enc_append_iff: "valid x \<Longrightarrow> valid y \<Longrightarrow> enc x @ r = enc y @ s \<longleftrightarrow> x = y \<and> r = s"
  using enc_append by blast

lemma concat_append:
  "length xs = length ys \<Longrightarrow> \<forall>x \<in> set xs. valid x \<Longrightarrow> \<forall>y \<in> set ys. valid y \<Longrightarrow>
     concat (map enc xs) @ r = concat (map enc ys) @ s \<Longrightarrow> xs = ys \<and> r = s"
  by (induction xs ys rule: list_induct2) (auto simp: enc_append_iff)

end

text \<open>A Rust string that fits the \<open>u16\<close> length in front of it.\<close>

definition short_text :: "rstr \<Rightarrow> bool" where
  "short_text s \<longleftrightarrow> (\<forall>c \<in> set s. scalar c) \<and> str_len s < 2 ^ 16"

lemma u16_of_nat_inj: "(of_nat m :: u16) = of_nat n \<Longrightarrow> m < 2 ^ 16 \<Longrightarrow> n < 2 ^ 16 \<Longrightarrow> m = n"
  by (simp add: word_unat_eq_iff unat_of_nat)

interpretation text_code: prefix_code text_bytes short_text
proof
  fix x y r s
  assume v: "short_text x" "short_text y" and eq: "text_bytes x @ r = text_bytes y @ s"
  from eq have "u16_le (of_nat (str_len x)) = u16_le (of_nat (str_len y))" and rest: "utf8 x @ r = utf8 y @ s"
    by (simp_all add: text_bytes_def u16_codec.enc_append_inj)
  then have n: "str_len x = str_len y" using v by (intro u16_of_nat_inj) (simp_all add: u16_codec.enc_inj short_text_def)
  from n have same: "utf8 x = utf8 y \<and> r = s" using append_eq_append_conv [THEN iffD1, OF _ rest] unfolding str_len_def by blast
  have "from_utf8 (utf8 x) = Some x" "from_utf8 (utf8 y) = Some y"
    using v from_utf8_utf8 unfolding short_text_def by blast+
  with same show "x = y \<and> r = s" by (metis option.inject)
qed

definition law_texts :: "value_law \<Rightarrow> rstr list" where
  "law_texts law = (case law of PlDiscrete vocab \<Rightarrow> vocab | _ \<Rightarrow> [])"

definition law_short :: "value_law \<Rightarrow> bool" where
  "law_short law \<longleftrightarrow> length (law_texts law) < 2 ^ 16 \<and> (\<forall>v \<in> set (law_texts law). short_text v)"

interpretation law_code: prefix_code law_bytes law_short
proof
  fix x y r s
  assume v: "law_short x" "law_short y" and eq: "law_bytes x @ r = law_bytes y @ s"
  show "x = y \<and> r = s"
  proof (cases "\<exists>vx. x = PlDiscrete vx")
    case True
    then obtain vx where x: "x = PlDiscrete vx" ..
    with eq obtain vy where y: "y = PlDiscrete vy" by (cases y) auto
    from eq have n: "(of_nat (length vx) :: u16) = of_nat (length vy)"
      and rest: "concat (map text_bytes vx) @ r = concat (map text_bytes vy) @ s"
      by (simp_all add: x y u16_codec.enc_append_inj)
    have "length vx = length vy" using n v by (intro u16_of_nat_inj) (simp_all add: law_short_def law_texts_def x y)
    from text_code.concat_append [OF this _ _ rest] v show ?thesis by (simp add: law_short_def law_texts_def x y)
  next
    case False
    with eq show ?thesis
      by (cases x; cases y) (auto simp: u32_codec.enc_append_inj u64_codec.enc_append_inj)
  qed
qed

section \<open>Addresses\<close>

lemma u_append_iff:
  "u16_le (a :: u16) @ r = u16_le a' @ s \<longleftrightarrow> a = a' \<and> r = s" "u32_le (b :: u32) @ r = u32_le b' @ s \<longleftrightarrow> b = b' \<and> r = s"
  "u64_le (c :: u64) @ r = u64_le c' @ s \<longleftrightarrow> c = c' \<and> r = s"
  by (simp_all only: u16_codec.enc_append_inj u32_codec.enc_append_inj u64_codec.enc_append_inj)

definition control_short :: "performance_control \<Rightarrow> bool" where
  "control_short c \<longleftrightarrow> (\<forall>p. control_param c = Some p \<longrightarrow> short_text p) \<and> (\<forall>k. control_node_kind c = Some k \<longrightarrow> short_text k)"

lemma control_of_bytes:
  assumes "control_short c" "control_short d" "control_code c = control_code d"
    "opt_default 0 (control_layer c) = opt_default 0 (control_layer d)"
    "opt_default [] (control_param c) = opt_default [] (control_param d)"
    "control_extra_bytes c @ r = control_extra_bytes d @ s"
  shows "c = d \<and> r = s"
  using assms by (cases c; cases d; simp add: control_short_def opt_default_def u_append_iff text_code.enc_append_iff)

definition address_short :: "performance_address \<Rightarrow> bool" where
  "address_short a \<longleftrightarrow> control_short (pa_control a) \<and> law_short (pa_law a)"

lemma param_short: "control_short c \<Longrightarrow> short_text (opt_default [] (control_param c))"
  by (auto simp: control_short_def opt_default_def short_text_def str_len_def split: option.splits)

interpretation address_code: prefix_code address_bytes address_short
proof
  fix a b r s
  assume v: "address_short a" "address_short b" and eq: "address_bytes a @ r = address_bytes b @ s"
  have short: "short_text (opt_default [] (control_param (pa_control a)))" "short_text (opt_default [] (control_param (pa_control b)))"
    "law_short (pa_law a)" "law_short (pa_law b)"
    using v param_short by (simp_all add: address_short_def)
  from eq have "control_code (pa_control a) = control_code (pa_control b)"
    "opt_default 0 (control_layer (pa_control a)) = opt_default 0 (control_layer (pa_control b))"
    "opt_default [] (control_param (pa_control a)) = opt_default [] (control_param (pa_control b))" "pa_law a = pa_law b"
    "control_extra_bytes (pa_control a) @ r = control_extra_bytes (pa_control b) @ s"
    by (simp_all add: address_bytes_def u_append_iff text_code.enc_append_iff [OF short(1,2)] law_code.enc_append_iff [OF short(3,4)])
  then have "pa_control a = pa_control b \<and> r = s" using v control_of_bytes [of "pa_control a" "pa_control b" r s] by (simp add: address_short_def)
  with \<open>pa_law a = pa_law b\<close> show "a = b \<and> r = s" by (cases a; cases b) simp
qed

section \<open>The take\<close>

text \<open>Every text of the take is a Rust string.\<close>

definition control_texts :: "performance_control \<Rightarrow> rstr list" where
  "control_texts c = opt_list id (control_param c) @ opt_list id (control_node_kind c)"

definition take_scalar :: "performance_take \<Rightarrow> bool" where
  "take_scalar t \<longleftrightarrow> (\<forall>a \<in> set (pt_addresses t). \<forall>s \<in> set (control_texts (pa_control a) @ law_texts (pa_law a)). \<forall>c \<in> set s. scalar c)"

lemma check_tokens_Inr:
  "check_tokens ts = Inr () \<longleftrightarrow> (\<forall>t \<in> set ts. t \<noteq> [] \<and> str_len t \<le> MAX_PERFORMANCE_PARAM_BYTES)"
  by (induction ts) (auto simp: not_less)

lemma control_validate_texts:
  "control_validate c = Inr () \<Longrightarrow> s \<in> set (control_texts c) \<Longrightarrow> str_len s \<le> MAX_PERFORMANCE_PARAM_BYTES"
  by (auto simp: control_validate_def control_texts_def opt_list_def rbind_Inr not_less split: option.splits if_splits)

lemma law_validate_texts:
  "law_validate law = Inr () \<Longrightarrow> length (law_texts law) \<le> MAX_PERFORMANCE_VOCAB_TOKENS \<and>
     (\<forall>s \<in> set (law_texts law). str_len s \<le> MAX_PERFORMANCE_PARAM_BYTES)"
  by (cases law) (auto simp: law_texts_def check_tokens_Inr rbind_Inr not_less split: if_splits)

lemma valid_address_short:
  assumes "take_ok t" "take_scalar t" "a \<in> set (pt_addresses t)"
  shows "address_short a"
proof -
  from assms have v: "control_validate (pa_control a) = Inr ()" "law_validate (pa_law a) = Inr ()"
    by (auto simp: take_ok_def address_validate_def rbind_Inr)
  have short: "short_text s" if "s \<in> set (control_texts (pa_control a) @ law_texts (pa_law a))" for s
  proof -
    have "str_len s \<le> MAX_PERFORMANCE_PARAM_BYTES"
      using that control_validate_texts [OF v(1)] law_validate_texts [OF v(2)] by auto
    moreover have "\<forall>c \<in> set s. scalar c" using assms(2,3) that unfolding take_scalar_def by blast
    ultimately show ?thesis by (simp add: short_text_def MAX_PERFORMANCE_PARAM_BYTES_def)
  qed
  moreover have "length (law_texts (pa_law a)) < 2 ^ 16"
    using law_validate_texts [OF v(2)] by (simp add: MAX_PERFORMANCE_VOCAB_TOKENS_def)
  ultimately show ?thesis
    by (simp add: address_short_def control_short_def law_short_def control_texts_def opt_list_def)
qed

interpretation event_code: prefix_code event_bytes "\<lambda>e. True"
  by unfold_locales (auto simp: event_bytes_def u_append_iff intro: performance_event.equality)

lemma flags_bits: "bit (take_flags t) 0 \<longleftrightarrow> pt_truncated t" "bit (take_flags t) 1 \<longleftrightarrow> pt_incomplete t"
  by (auto simp: take_flags_def PERFORMANCE_FLAG_TRUNCATED_def PERFORMANCE_FLAG_INCOMPLETE_def bit_simps)

text \<open>C24. The digest of a take covers every field of it: two valid takes with the same canonical bytes are the same take.\<close>

theorem take_bytes_determine_take:
  assumes "take_validate t = Inr ()" "take_validate u = Inr ()" "take_scalar t" "take_scalar u"
    and "take_canonical_bytes t = take_canonical_bytes u"
  shows "t = u"
proof -
  have ok: "take_ok t" "take_ok u" using assms by (simp_all add: take_validate_ok)
  let ?A = "\<lambda>t. concat (map address_bytes (pt_addresses t))" and ?E = "\<lambda>t. concat (map event_bytes (pt_events t))"
  from assms(5) have heads: "take_flags t = take_flags u" "pt_length t = pt_length u"
      "(of_nat (length (pt_addresses t)) :: u16) = of_nat (length (pt_addresses u))"
    and rest: "?A t @ u32_le (take_declared_count t) @ ?E t = ?A u @ u32_le (take_declared_count u) @ ?E u"
    by (simp_all only: take_canonical_bytes_def same_append_eq u_append_iff append_assoc)
  have "length (pt_addresses t) = length (pt_addresses u)"
    using heads(3) ok by (intro u16_of_nat_inj) (simp_all add: take_ok_def MAX_PERFORMANCE_ADDRESSES_def)
  from address_code.concat_append [OF this _ _ rest] have as: "pt_addresses t = pt_addresses u"
    and tail: "u32_le (take_declared_count t) @ ?E t = u32_le (take_declared_count u) @ ?E u"
    using valid_address_short ok assms(3,4) by blast+
  from tail have count: "take_declared_count t = take_declared_count u" and ev: "?E t = ?E u" by (simp_all only: u_append_iff)
  have "length (pt_events t) = length (pt_events u)" using take_count ok count by metis
  from event_code.concat_append [OF this, of "[]" "[]"] ev have es: "pt_events t = pt_events u" by simp
  have "pt_truncated t = pt_truncated u" "pt_incomplete t = pt_incomplete u"
    using flags_bits [of t] flags_bits [of u] heads(1) by simp_all
  with as es heads(2) show ?thesis by (intro performance_take.equality) simp_all
qed

theorem take_bytes_determine_take_witness:
  "take_canonical_bytes sample_take \<noteq> take_canonical_bytes (take_mark_incomplete sample_take 9)"
proof -
  have v: "take_validate (take_mark_incomplete sample_take 9) = Inr ()"
    using stamp_ok [of sample_take 9] sample_take_valid by (simp add: take_validate_ok)
  have s: "take_scalar sample_take" "take_scalar (take_mark_incomplete sample_take 9)"
    by (simp_all add: take_scalar_def take_mark_incomplete_def sample_take_def control_texts_def law_texts_def opt_list_def lit_def scalar_def)
  have "sample_take \<noteq> take_mark_incomplete sample_take 9" by (simp add: sample_take_def take_mark_incomplete_def)
  then show ?thesis using take_bytes_determine_take [OF sample_take_valid v s] by blast
qed

end
