(* ===== verification/Performance_Take_Document.thy ===== *)
theory Performance_Take_Document
  imports Performance_Take_Laws Osc_Laws
begin

text \<open>
  The flat document form of a control address is exact: parsing accepts exactly the form that the serializer writes for
  a valid address.  A recorded take that is saved as JSON loads back unchanged.
\<close>

section \<open>Ids and kinds\<close>

lemma hd_decimal: "hd (decimal n) = 48 \<longleftrightarrow> n = 0"
proof (induction n rule: decimal.induct)
  case (1 n)
  show ?case
  proof (cases "n < 10")
    case True
    then show ?thesis by (subst decimal.simps) auto
  next
    case False
    then have "hd (decimal n) = hd (decimal (n div 10))" by (subst decimal.simps) simp
    with False "1.IH" show ?thesis by simp
  qed
qed

lemma parse_nonzero_decimal_id_Inr: "parse_nonzero_decimal_id k v = Inr n \<longleftrightarrow> n \<noteq> 0 \<and> v = decimal (unat n)"
proof
  assume "parse_nonzero_decimal_id k v = Inr n"
  then show "n \<noteq> 0 \<and> v = decimal (unat n)"
    by (auto simp: parse_nonzero_decimal_id_def Let_def split: if_splits)
next
  assume a: "n \<noteq> 0 \<and> v = decimal (unat n)"
  then have "\<not> (v = [] \<or> \<not> (\<forall>c \<in> set v. 48 \<le> c \<and> c \<le> 57) \<or> hd v = 48)"
    using decimal_digits [of _ "unat n"] by (auto simp: hd_decimal unat_eq_0)
  moreover have "decimal_value v = unat n" "unat n < 2 ^ 64" using a unat_lt2p [of n] by simp_all
  moreover have "of_nat (decimal_value v) = n" using a by simp
  ultimately show "parse_nonzero_decimal_id k v = Inr n" using a by (simp add: parse_nonzero_decimal_id_def)
qed

lemmas needs_defs = needs_param_def needs_layer_def needs_node_def needs_group_def needs_node_kind_def needs_target_q16_def
  needs_routing_def

lemma needs_of_control:
  "needs_param (kind_token c) = (control_param c \<noteq> None)" "needs_layer (kind_token c) = (control_layer c \<noteq> None)"
  "needs_node (kind_token c) = (control_node c \<noteq> None)" "needs_group (kind_token c) = (control_group c \<noteq> None)"
  "needs_node_kind (kind_token c) = (control_node_kind c \<noteq> None)"
  "needs_target_q16 (kind_token c) = (control_target_q16 c \<noteq> None)"
  "needs_routing (kind_token c) = (control_routing c \<noteq> None)"
  by (cases c; simp add: needs_defs)+

lemma control_of_kind_token:
  "control_of_kind (kind_token c) (opt_default 0 (control_layer c)) (opt_default [] (control_param c))
     (opt_default 0 (control_node c)) (opt_default 0 (control_group c)) (opt_default [] (control_node_kind c))
     (opt_default 0 (control_target_q16 c)) (opt_default 0 (control_routing c)) = Some c"
  by (cases c) (simp_all add: control_of_kind_def opt_default_def)

lemma if_Some_E: "(if P then Some a else X) = Some c \<Longrightarrow> (P \<Longrightarrow> c = a \<Longrightarrow> R) \<Longrightarrow> (X = Some c \<Longrightarrow> R) \<Longrightarrow> R"
  by (cases P) auto

lemma control_of_kind_sound:
  assumes "control_of_kind kind l p n g k t r = Some c"
  shows "kind = kind_token c \<and> (control_layer c \<noteq> None \<longrightarrow> control_layer c = Some l) \<and>
    (control_param c \<noteq> None \<longrightarrow> control_param c = Some p) \<and> (control_node c \<noteq> None \<longrightarrow> control_node c = Some n) \<and>
    (control_group c \<noteq> None \<longrightarrow> control_group c = Some g) \<and> (control_node_kind c \<noteq> None \<longrightarrow> control_node_kind c = Some k) \<and>
    (control_target_q16 c \<noteq> None \<longrightarrow> control_target_q16 c = Some t) \<and>
    (control_routing c \<noteq> None \<longrightarrow> control_routing c = Some r)"
  using assms unfolding control_of_kind_def by (elim if_Some_E) (simp_all del: lit_simps)

definition parts_of :: "performance_control \<Rightarrow> rstr \<times> u32 option \<times> rstr option \<times> rstr option \<times> rstr option \<times> rstr option \<times>
    u16 option \<times> u32 option" where
  "parts_of c = (kind_token c, control_layer c, control_param c, map_option (\<lambda>n. decimal (unat n)) (control_node c),
     map_option (\<lambda>g. decimal (unat g)) (control_group c), control_node_kind c, control_target_q16 c, control_routing c)"

lemma parse_optional_id_Inr:
  "parse_optional_id k v = Inr n \<longleftrightarrow> (v = None \<and> n = 0) \<or> (v = Some (decimal (unat n)) \<and> n \<noteq> 0)"
  by (auto simp: parse_optional_id_def parse_nonzero_decimal_id_Inr split: option.splits)

lemma control_validate_ids:
  "control_validate c = Inr () \<Longrightarrow> control_node c \<noteq> Some 0 \<and> control_group c \<noteq> Some 0"
  by (auto simp: control_validate_def rbind_Inr split: if_splits)

lemma opt_from_default: "(x \<noteq> None) = (y \<noteq> None) \<Longrightarrow> (x \<noteq> None \<longrightarrow> x = Some (opt_default d y)) \<Longrightarrow> y = x"
  by (cases x; cases y) (auto simp: opt_default_def)

lemma id_from_parsed:
  "(x \<noteq> None) = (v \<noteq> None) \<Longrightarrow> parse_optional_id k v = Inr n \<Longrightarrow> (x \<noteq> None \<longrightarrow> x = Some n) \<Longrightarrow>
     v = map_option (\<lambda>n. decimal (unat n)) x"
  by (cases x) (auto simp: parse_optional_id_Inr)

lemma control_from_parts_Inr:
  "control_from_parts kind layer param node_id group_id node_kind target routing = Inr c \<longleftrightarrow>
     control_validate c = Inr () \<and> (kind, layer, param, node_id, group_id, node_kind, target, routing) = parts_of c"
  (is "?f = Inr c \<longleftrightarrow> ?v \<and> ?p")
proof
  assume f: "?f = Inr c"
  then have shape: "needs_param kind = (param \<noteq> None)" "needs_layer kind = (layer \<noteq> None)" "needs_node kind = (node_id \<noteq> None)"
    "needs_group kind = (group_id \<noteq> None)" "needs_node_kind kind = (node_kind \<noteq> None)"
    "needs_target_q16 kind = (target \<noteq> None)" "needs_routing kind = (routing \<noteq> None)"
    unfolding control_from_parts_def by (simp_all only: split: if_split_asm) simp_all
  from f shape obtain n g where ids: "parse_optional_id kind node_id = Inr n" "parse_optional_id kind group_id = Inr g"
    and build: "control_of_kind kind (opt_default 0 layer) (opt_default [] param) n g (opt_default [] node_kind)
      (opt_default 0 target) (opt_default 0 routing) = Some c" and v: ?v
    by (auto simp: control_from_parts_def rbind_Inr ok_or_def split: option.splits)
  note sound = control_of_kind_sound [OF build]
  have k: "kind = kind_token c" using sound by blast
  note shape = shape [unfolded k needs_of_control]
  have "node_id = map_option (\<lambda>n. decimal (unat n)) (control_node c)" "group_id = map_option (\<lambda>g. decimal (unat g)) (control_group c)"
    by (rule id_from_parsed [OF shape(3) ids(1)], use sound in blast) (rule id_from_parsed [OF shape(4) ids(2)], use sound in blast)
  moreover have "layer = control_layer c" using sound by (elim conjE) (rule opt_from_default [OF shape(2)])
  moreover have "param = control_param c" using sound by (elim conjE) (rule opt_from_default [OF shape(1)])
  moreover have "node_kind = control_node_kind c" using sound by (elim conjE) (rule opt_from_default [OF shape(5)])
  moreover have "target = control_target_q16 c" using sound by (elim conjE) (rule opt_from_default [OF shape(6)])
  moreover have "routing = control_routing c" using sound by (elim conjE) (rule opt_from_default [OF shape(7)])
  ultimately show "?v \<and> ?p" using v k by (simp add: parts_of_def)
next
  assume a: "?v \<and> ?p"
  then have k: "kind = kind_token c" "layer = control_layer c" "param = control_param c"
    "node_id = map_option (\<lambda>n. decimal (unat n)) (control_node c)" "group_id = map_option (\<lambda>g. decimal (unat g)) (control_group c)"
    "node_kind = control_node_kind c" "target = control_target_q16 c" "routing = control_routing c"
    by (simp_all add: parts_of_def)
  have "parse_optional_id kind node_id = Inr (opt_default 0 (control_node c))"
    "parse_optional_id kind group_id = Inr (opt_default 0 (control_group c))"
    using a control_validate_ids [of c] by (auto simp: k parse_optional_id_Inr opt_default_def split: option.splits)
  with a show "?f = Inr c" by (simp add: k control_from_parts_def needs_of_control control_of_kind_token ok_or_def)
qed

lemma raw_law_Inr:
  "raw_law r = Inr law \<longleftrightarrow> ra_law r = law_token law \<and>
     ra_min r = (case law of PlUnit lo hi \<Rightarrow> Some lo | _ \<Rightarrow> None) \<and> ra_max r = (case law of PlUnit lo hi \<Rightarrow> Some hi | _ \<Rightarrow> None) \<and>
     ra_vocab r = (case law of PlDiscrete vocab \<Rightarrow> Some vocab | _ \<Rightarrow> None) \<and>
     ra_step_min r = (case law of PlStepped lo hi \<Rightarrow> Some lo | _ \<Rightarrow> None) \<and>
     ra_step_max r = (case law of PlStepped lo hi \<Rightarrow> Some hi | _ \<Rightarrow> None) \<and>
     (case law of PlDiscrete vocab \<Rightarrow> length vocab \<le> MAX_PERFORMANCE_VOCAB_TOKENS | _ \<Rightarrow> True)"
  by (cases law) (auto simp: raw_law_def split: if_splits option.splits)

lemma into_address_Inr: "into_address r = Inr a \<longleftrightarrow> address_validate a = Inr () \<and> r = address_to_raw a"
proof
  assume i: "into_address r = Inr a"
  then obtain c l where "control_from_parts (ra_kind r) (ra_layer r) (ra_param r) (ra_node_id r) (ra_group_id r) (ra_node_kind r)
      (ra_target r) (ra_routing r) = Inr c" "raw_law r = Inr l" "a = \<lparr>pa_control = c, pa_law = l\<rparr>" "address_validate a = Inr ()"
    by (auto simp: into_address_def rbind_Inr Let_def)
  then show "address_validate a = Inr () \<and> r = address_to_raw a"
    by (cases r) (auto simp: control_from_parts_Inr parts_of_def raw_law_Inr address_to_raw_def)
next
  assume v: "address_validate a = Inr () \<and> r = address_to_raw a"
  then have "control_validate (pa_control a) = Inr ()" "law_validate (pa_law a) = Inr ()"
    by (auto simp: address_validate_def rbind_Inr)
  then have "raw_law r = Inr (pa_law a)" using v
    by (cases "pa_law a") (simp_all add: raw_law_Inr address_to_raw_def split: if_splits)
  moreover have "control_from_parts (ra_kind r) (ra_layer r) (ra_param r) (ra_node_id r) (ra_group_id r) (ra_node_kind r)
      (ra_target r) (ra_routing r) = Inr (pa_control a)"
    using v \<open>control_validate (pa_control a) = Inr ()\<close> by (simp add: control_from_parts_Inr parts_of_def address_to_raw_def)
  ultimately show "into_address r = Inr a" using v by (cases a) (simp add: into_address_def Let_def)
qed

text \<open>C25. The flat form of an address: a document row is accepted exactly if it is what the serializer writes for a valid
  address, and it gives that address.  A field of another kind, a missing field, an id that is zero, signed, padded or
  out of range, or a law outside its bounds is refused.\<close>

theorem address_document_exact: "into_address r = Inr a \<longleftrightarrow> address_validate a = Inr () \<and> r = address_to_raw a"
  by (rule into_address_Inr)

section \<open>Saving and loading\<close>

lemma read_bounded_map:
  "length ys \<le> n \<Longrightarrow> \<forall>y \<in> set ys. f (g y) = Inr y \<Longrightarrow> read_bounded too_many n f (map g ys) = Inr ys"
  by (induction ys arbitrary: n) auto

lemma document_raw_inverse:
  assumes "take_decode sha d = Inr t"
  shows "document_from_raw sha (document_to_raw d) = Inr d"
proof -
  from assms have d: "take_ok t" "d = take_capture sha t" by (auto simp: take_decode_iff_capture take_validate_ok)
  have "into_address (address_to_raw a) = Inr a" if "a \<in> set (td_addresses d)" for a
    unfolding into_address_Inr using d that by (simp add: take_ok_def take_capture_def)
  then have "bounded_addresses (map address_to_raw (td_addresses d)) = Inr (td_addresses d)"
    unfolding bounded_addresses_def using d by (intro read_bounded_map) (simp_all add: take_ok_def take_capture_def)
  moreover have "bounded_events (td_events d) = Inr (td_events d)"
    unfolding bounded_events_def
    using d read_bounded_map [of "td_events d" MAX_PERFORMANCE_EVENTS Inr id] by (simp add: take_ok_def take_capture_def)
  ultimately show ?thesis using assms by (cases d) (simp add: document_from_raw_def document_to_raw_def Let_def)
qed

text \<open>C23. Recording, saving, loading.  After any sequence of edits, accepted or refused, of stamps and clears, the document
  of the take decodes to the take, unchanged.  If it is saved, the file loads back as the same document; saving is refused
  only because serde fails to print the document or because the file would exceed 512 KiB (a recorder may well
  hold such a take).  Of serde it is assumed that it reads back what it printed for this document.\<close>

theorem recorded_takes_save_and_load:
  fixes print :: "raw_document \<Rightarrow> rstr + bytes" and parse :: "bytes \<Rightarrow> rstr + raw_document"
  assumes t: "t = foldl take_step take_default actions" and d: "d = take_capture sha t"
    and serde: "\<And>body. print (document_to_raw d) = Inr body \<Longrightarrow> parse (body @ [10]) = Inr (document_to_raw d)"
  shows "take_decode sha d = Inr t \<and>
    (case take_to_json sha print d of
       Inr bs \<Rightarrow> take_from_json sha parse bs = Inr d
     | Inl e \<Rightarrow> (case print (document_to_raw d) of
         Inl m \<Rightarrow> e = TjSerialization (ScSerde m)
       | Inr body \<Rightarrow> MAX_PERFORMANCE_SERIALIZED_BYTES < length body + 1 \<and> e = TjRefused (performance_error.PeDocumentBytes (length body + 1))))"
proof
  show dec: "take_decode sha d = Inr t" unfolding d by (rule decode_captured) (simp only: t recorded_take_ok)
  show "case take_to_json sha print d of
       Inr bs \<Rightarrow> take_from_json sha parse bs = Inr d
     | Inl e \<Rightarrow> (case print (document_to_raw d) of
         Inl m \<Rightarrow> e = TjSerialization (ScSerde m)
       | Inr body \<Rightarrow> MAX_PERFORMANCE_SERIALIZED_BYTES < length body + 1 \<and> e = TjRefused (performance_error.PeDocumentBytes (length body + 1)))"
  proof (cases "print (document_to_raw d)")
    case (Inl m)
    then show ?thesis by (simp add: take_to_json_def dec)
  next
    case (Inr body)
    then show ?thesis
      using serde [OF Inr] document_raw_inverse [OF dec]
      by (auto simp: take_to_json_def take_from_json_def dec validate_take_bytes_def Let_def)
  qed
qed

theorem recorded_takes_save_and_load_witness:
  "\<exists>d bs. d = take_capture id (foldl take_step take_default [TaRecord 3 PcMorphLaw PlToggle (PvToggle True), TaFinalize 9]) \<and>
     take_to_json id (\<lambda>r. Inr [123, 125]) d = Inr bs \<and>
     take_from_json id (\<lambda>b. Inr (document_to_raw d)) bs = Inr d"
proof -
  define d where "d = take_capture id (foldl take_step take_default [TaRecord 3 PcMorphLaw PlToggle (PvToggle True), TaFinalize 9])"
  note law = recorded_takes_save_and_load [OF refl d_def, of "\<lambda>r. Inr [123, 125]" "\<lambda>b. Inr (document_to_raw d)", OF refl]
  then have "take_to_json id (\<lambda>r. Inr [123, 125]) d = Inr [123, 125, 10]"
    by (auto simp: take_to_json_def validate_take_bytes_def MAX_PERFORMANCE_SERIALIZED_BYTES_def Let_def)
  with law d_def show ?thesis by simp
qed

text \<open>A take with all of its 16384 events cannot be saved: an event takes at least the 33 bytes of
  \<open>{"tick":0,"address":0,"value":0},\<close> in JSON.\<close>

lemma full_take_never_saved:
  assumes "length (td_events d) = MAX_PERFORMANCE_EVENTS" "take_decode sha d = Inr t"
    and "print (document_to_raw d) = Inr body" "33 * length (td_events d) \<le> length body"
  shows "take_to_json sha print d = Inl (TjRefused (performance_error.PeDocumentBytes (length body + 1)))"
  using assms by (simp add: take_to_json_def validate_take_bytes_def MAX_PERFORMANCE_EVENTS_def
      MAX_PERFORMANCE_SERIALIZED_BYTES_def Let_def)

end
