(* ===== verification/Spec2Isabelle.thy ===== *)
theory Spec2Isabelle
  imports Publication_Gate Gesture_Laws Manual_History_Laws Collection_Laws Autopilot_Laws
    Gpu_Recovery Source_Transition_Laws Image_Routing_Laws Decoder_Laws Correlation_Laws
    Osc_Laws Osc_Engine_Laws Recovery_Writer_Laws Image_Graph_Laws Visual_Rack_Laws Composition_Resolve Media_Safety_Laws
    Performance_Take_Bytes Performance_Take_Document
begin

text \<open>
  Verification library of collide-o-scope, a live video instrument written in Rust (\<open>src/src\<close>).

  \<^bold>\<open>The program and its parts.\<close>  A performance is a stack of layers and groups.  Each of them, and the
  master, has a rack of visual nodes; racks and mattes take images from other layers, groups or the
  program through routes, and these routes form the dependency graph that a frame is rendered in.
  People act on it through gestures, the OSC and MIDI adapters and a web surface; every action gets an
  identity that is followed until it was applied or has failed.  Scenes recall the whole state, and the
  Autopilot walks through a plan of them; sources change through prepared transitions.  Edits can be undone,
  the live patch is journaled against crashes, and a lost GPU is rebuilt behind a latch that keeps the
  old epoch from speaking.  The development models the parts of this whose logic is discrete: state
  machines, bounded collections, codecs, identity allocation, admission and ordering.

  \<^bold>\<open>Theories and sources.\<close>  All paths are below \<open>src/src\<close>.  A theory \<open>X\<close> holds the model, \<open>X_Laws\<close> its
  properties (the smaller components keep both in one theory).

    \<^item> \<open>Prelude\<close>: words as machine integers with their checked and saturating operations, results as sums
      (\<open>rbind\<close> is the question mark operator), the locales \<open>invariant_machine\<close> and \<open>monotone_machine\<close>.
      \<open>Rust_Text\<close>: strings as Unicode scalars with their UTF-8 length and trimming; \<open>Rust_Float\<close>: \<open>f32\<close>
      as its 32 bits, with order, clamping and correctly rounded multiplication and division;
      \<open>Byte_Codec\<close>: fixed-width integer encodings, hexadecimal, FNV-1a; \<open>List_Edit\<close>: index edits of a
      \<open>Vec\<close>, identity cursors, the locale \<open>id_allocator\<close>.
    \<^item> \<open>Publication_Gate\<close>: \<open>publication_gate.rs\<close>, every operation of \<open>LatestPublicationGate\<close>; the clients'
      view is a locale with its interpretation.
    \<^item> \<open>Gesture_Stream\<close>, \<open>Gesture_Laws\<close>: \<open>gesture.rs\<close>; \<open>GestureSequenceValidator\<close>, \<open>GestureTrack\<close> with its
      recording, canonical bytes and replay, and the sidecar document.
    \<^item> \<open>History_Router\<close>, \<open>Manual_History\<close>, \<open>Manual_History_Laws\<close>: \<open>history.rs\<close>; the router that turns gesture
      samples into history entries, and \<open>ManualHistory\<close> with limits, open gestures, undo, redo and the
      restore tokens.
    \<^item> \<open>Scene_Performance\<close>, \<open>Collection_Laws\<close>: \<open>performance.rs\<close>; the bounded identity-keyed collections of clip slots,
      bindings, scenes and Autopilot steps; the locale \<open>keyed_store\<close> is their contract as finite maps.
    \<^item> \<open>Autopilot\<close>, \<open>Autopilot_Laws\<close>: \<open>autopilot.rs\<close>, the whole scheduler; frames, readiness results and commits
      are its inputs, its commands the output stream.
    \<^item> \<open>Source_Transition\<close>, \<open>Source_Transition_Laws\<close>: \<open>source_transition.rs\<close>; clocks of ticks or beats over
      saturating 128-bit fractions, and the admission of prepared transitions.
    \<^item> \<open>Gpu_Recovery\<close>: \<open>gpu_recovery.rs\<close>; the recovery machine and the atomics of the Phase-A latch under
      arbitrary interleaving of the reporting threads.
    \<^item> \<open>Image_Routing\<close>, \<open>Image_Routing_Laws\<close>: \<open>image_routing.rs\<close>; live and saved mattes.
    \<^item> \<open>Image_Graph\<close>, \<open>Image_Graph_Laws\<close>: \<open>ImageDependencyGraph\<close> of \<open>visual_rack.rs\<close>, with the two edge loops and
      the ordering loop as functions on association lists.
    \<^item> \<open>Rack_Nodes\<close>, \<open>Visual_Rack\<close>, \<open>Visual_Rack_Laws\<close>: the rest of \<open>visual_rack.rs\<close> and the routes of \<open>symmetry.rs\<close>;
      image taps and motion donors in saved and live form, node kinds and their budgets, \<open>VisualRack\<close> and
      \<open>RuntimeVisualRack\<close> (one polymorphic record, since both implement the same operations), and
      \<open>CreativeResourcePlan\<close>.
    \<^item> \<open>Composition\<close>, \<open>Composition_Laws\<close>, \<open>Composition_Resolve\<close>: \<open>composition.rs\<close>; \<open>CompositionTree\<close> and
      \<open>RuntimeComposition\<close> (again one record, over the type of layers and taps), its validation, flattening and
      edits, and the two directions between the forms; the locale \<open>tap_form\<close> is what the two forms share.
    \<^item> \<open>Media_Safety\<close>, \<open>Media_Safety_Laws\<close>: \<open>media_safety.rs\<close>; the admission of a source, the reservations and
      image leases that concurrent workers hold, and the performance budget.
    \<^item> \<open>Performance_Take\<close>, \<open>Performance_Take_Laws\<close>, \<open>_Replay\<close>, \<open>_Bytes\<close>, \<open>_Document\<close>: \<open>performance_track.rs\<close>; control
      addresses and value laws, the recorder of a take, its canonical bytes, the replay cursors, the document and its
      JSON adapters; the locale \<open>prefix_code\<close> is what a self-delimiting encoder promises. \<open>Float_Error\<close> bounds the
      rounding error of the \<open>f32\<close> operations that the value laws use.
    \<^item> \<open>Control_Profile\<close>, \<open>Controller_Decoder\<close>, \<open>Controller_Laws\<close>, \<open>Decoder_Laws\<close>: \<open>controller_profile.rs\<close>; control
      addresses, profile documents with validation and resolution, and the MIDI decoder.
    \<^item> \<open>Action_Correlation\<close>, \<open>Correlation_Laws\<close>: \<open>action_correlation.rs\<close>; envelopes, the sequencer, the timing
      windows and the monitor with its ring of receipts.
    \<^item> \<open>Osc_Codec\<close>, \<open>Osc_Engine\<close>, \<open>Osc_Laws\<close>, \<open>Osc_Engine_Laws\<close>: \<open>osc.rs\<close>; the configuration, packets and bundles,
      and the engine with its queues, rate gate, feedback and receive batch; datagrams are an input list.
    \<^item> \<open>Recovery_Journal\<close>, \<open>Recovery_Writer\<close> and their \<open>_Laws\<close>: \<open>recovery_journal.rs\<close>; records and the tolerant scan over
      a file that is a byte string or absent, append and compaction cut at any byte, and the producer
      and worker of the writer as steps on the shared state.

  \<^bold>\<open>What the lemmas show.\<close>  Invariants: the undo history stays within its limits in every run, edited
  racks stay loadable, edited trees keep their layers,
  reserved memory is the memory held, a transition never lags behind its clock, action identities are conserved by the OSC queue and the monitor, every
  journal request meets one fate.  Refinements of an abstract specification: the Autopilot against the
  command stream of its plan, the validator against one machine per stroke, scenes against a bounded map,
  buttons against their edge law, the durable claim against the disk.  Exact characterizations:
  admission of transitions and media sources, validation of profiles and of the image graph, the resource
  plan of a frame.  Safety under interleaving: superseded publications, lost GPU epochs, first attribution.
  Round trips: documents, addresses, undo after redo, routes of racks, the plan of a resolved tree.  Allocation: an
  identity is never handed out twice (one locale, interpreted for racks and group trees).  Termination: shutdown drains the
  writer, a receive batch ends.  Most allocation and run lemmas are proved once in a locale and
  reach the components by interpretation on their own operations.

  \<^bold>\<open>Termination and bounds.\<close>  No definition uses fuel: every loop of the sources that is not structural
  is a \<open>function\<close> with a measure (eviction: the number of entries; the journal scan: the bytes left;
  nested bundles: the bytes of the packet; the ordering of the image graph: the sum of the degrees left
  plus the scopes that are ready).  Integers have the width of the source; \<open>usize\<close> lengths of
  vectors in memory are natural numbers.  A panic (\<open>expect\<close>, \<open>unreachable\<close>, an index out of range) is a value of its own
  where the source has one, and shown not to occur.

  \<^bold>\<open>Parameters.\<close>  Code that is not under \<open>src\<close> is an argument: serde's parsers as the sequence of values
  they return, the socket as the datagrams received, the clock as its readings, SHA-256 as a function.
  In the rack theories the \<open>f32\<close> sanitizers of the shader parameters are the argument \<open>clean\<close>, in the
  composition those of transform and mixer the record \<open>env\<close>, since no operation modelled there looks at these numbers; the theorems hold for every such function.

  \<^bold>\<open>Not modelled, and why.\<close>  The event loop, window, renderer, shaders, export and recording
  (\<open>main.rs\<close>, \<open>renderer\<close>, \<open>render_export.rs\<close>) drive the GPU, FFmpeg and files: their results are pixels and
  side effects of code that is not here.  Evaluated composition, modulation, motion, temporal effects,
  transport laws, audio and NTSC are numerical code in \<open>f32\<close> and \<open>f64\<close> with trigonometric functions of the
  platform.  The web surface and the patch schema (\<open>web/state.rs\<close>, \<open>patch\<close>) are serde adapters over
  all of the above.  In modelled files the omissions are: Display texts, serde adapters of plain
  structs, thread start-up, the detection of physical memory, file paths, the CPU reference of the mixer, the parameter registry of the rack editor, the residual grid
  plan, and the floating-point quantisation of gestures.
\<close>

end
